(* ===== verification/Prelude.thy ===== *)
theory Prelude
  imports Main "HOL-Library.Sublist" "HOL-Library.List_Lexorder" "HOL-Library.Char_ord"
begin

text \<open>
  Shared vocabulary of the development: Go strings as byte strings (\<open>string\<close>), the functions
  of Go's \<open>strings\<close> and \<open>strconv\<close> packages the sources use, association lists for
  Go maps, the result type of fallible code and the generic facts about them.

  Strings are lists of bytes, ordered bytewise (the order of Go's \<open><\<close>, of
  \<open>sort.Strings\<close> and of SQLite's BINARY collation). Case folding and white space are those
  of the ASCII range; the sources apply them to identifiers, labels and keywords of that range.
  Go's \<open>int\<close> and \<open>int64\<close> are \<open>int\<close> where no operation of the code can leave the
  64-bit range, and carry their width where one can.
\<close>

named_theorems go_str \<open>facts about the string functions\<close>
named_theorems go_list \<open>facts about lists and association lists\<close>

section \<open>Results of fallible code\<close>

type_synonym ('e, 'a) result = "'e + 'a"

fun is_ok :: "('e, 'a) result \<Rightarrow> bool" where
  "is_ok (Inl _) = False"
| "is_ok (Inr _) = True"

fun bind_result :: "('e, 'a) result \<Rightarrow> ('a \<Rightarrow> ('e, 'b) result) \<Rightarrow> ('e, 'b) result" where
  "bind_result (Inl e) f = Inl e"
| "bind_result (Inr a) f = f a"

lemma bind_result_Inr_iff:
  "bind_result r f = Inr b \<longleftrightarrow> (\<exists>a. r = Inr a \<and> f a = Inr b)"
  by (cases r) auto

lemma is_ok_iff: "is_ok r \<longleftrightarrow> (\<exists>a. r = Inr a)"
  by (cases r) auto

section \<open>Strings\<close>

definition is_space :: "char \<Rightarrow> bool" where
  "is_space c \<longleftrightarrow> c \<in> {CHR 0x09, CHR 0x0A, CHR 0x0B, CHR 0x0C, CHR 0x0D, CHR '' ''}"

text \<open>\<open>strings.TrimSpace\<close>.\<close>

definition trim_space :: "string \<Rightarrow> string" where
  "trim_space s = rev (dropWhile is_space (rev (dropWhile is_space s)))"

definition lower_char :: "char \<Rightarrow> char" where
  "lower_char c = (if 65 \<le> (of_char c :: nat) \<and> (of_char c :: nat) \<le> 90
                   then char_of ((of_char c :: nat) + 32) else c)"

text \<open>\<open>strings.ToLower\<close> and \<open>strings.EqualFold\<close>.\<close>

definition to_lower :: "string \<Rightarrow> string" where
  "to_lower s = map lower_char s"

definition equal_fold :: "string \<Rightarrow> string \<Rightarrow> bool" where
  "equal_fold a b \<longleftrightarrow> to_lower a = to_lower b"

text \<open>\<open>strings.HasPrefix\<close>, \<open>strings.HasSuffix\<close>, \<open>strings.Contains\<close>,
  \<open>strings.TrimPrefix\<close> and \<open>strings.TrimSuffix\<close>, with Go's order of arguments.\<close>

abbreviation has_prefix :: "string \<Rightarrow> string \<Rightarrow> bool" where
  "has_prefix s p \<equiv> prefix p s"

abbreviation has_suffix :: "string \<Rightarrow> string \<Rightarrow> bool" where
  "has_suffix s p \<equiv> suffix p s"

abbreviation contains :: "string \<Rightarrow> string \<Rightarrow> bool" where
  "contains s p \<equiv> sublist p s"

definition trim_prefix :: "string \<Rightarrow> string \<Rightarrow> string" where
  "trim_prefix s p = (if has_prefix s p then drop (length p) s else s)"

definition trim_suffix :: "string \<Rightarrow> string \<Rightarrow> string" where
  "trim_suffix s p = (if has_suffix s p then take (length s - length p) s else s)"

text \<open>\<open>strings.Split\<close> on a one-byte separator and \<open>strings.Join\<close>.\<close>

fun split_on :: "char \<Rightarrow> string \<Rightarrow> string list" where
  "split_on c [] = [[]]"
| "split_on c (x # xs) =
     (if x = c then [] # split_on c xs
      else (case split_on c xs of [] \<Rightarrow> [[x]] | p # ps \<Rightarrow> (x # p) # ps))"

fun join :: "string \<Rightarrow> string list \<Rightarrow> string" where
  "join sep [] = []"
| "join sep [x] = x"
| "join sep (x # y # ys) = x @ sep @ join sep (y # ys)"

text \<open>Decimal rendering (\<open>%d\<close>).\<close>

fun nat_digits :: "nat \<Rightarrow> string" where
  "nat_digits n = (if n < 10 then [char_of (48 + n)]
                   else nat_digits (n div 10) @ [char_of (48 + n mod 10)])"

declare nat_digits.simps [simp del]

definition itoa :: "int \<Rightarrow> string" where
  "itoa i = (if i < 0 then CHR ''-'' # nat_digits (nat (- i)) else nat_digits (nat i))"

text \<open>The first non-blank of a list, trimmed (\<open>firstNonEmpty\<close>, repeated in several packages).\<close>

fun first_non_empty :: "string list \<Rightarrow> string" where
  "first_non_empty [] = []"
| "first_non_empty (v # vs) = (if trim_space v \<noteq> [] then trim_space v else first_non_empty vs)"

subsection \<open>Facts about strings\<close>

lemma trim_space_Nil [simp]: "trim_space [] = []"
  by (simp add: trim_space_def)

lemma to_lower_Nil [simp]: "to_lower [] = []"
  by (simp add: to_lower_def)

lemma to_lower_append [go_str]: "to_lower (a @ b) = to_lower a @ to_lower b"
  by (simp add: to_lower_def)

lemma length_to_lower [simp]: "length (to_lower s) = length s"
  by (simp add: to_lower_def)

lemma to_lower_eq_Nil [simp]: "to_lower s = [] \<longleftrightarrow> s = []"
  by (simp add: to_lower_def)

lemma lower_char_idem [simp]: "lower_char (lower_char c) = lower_char c"
proof (cases "65 \<le> (of_char c :: nat) \<and> (of_char c :: nat) \<le> 90")
  case True
  then have lc: "lower_char c = char_of ((of_char c :: nat) + 32)"
    by (simp add: lower_char_def)
  from True have "(of_char (char_of ((of_char c :: nat) + 32) :: char) :: nat) = of_char c + 32"
    by (simp add: of_char_of)
  with True show ?thesis
    unfolding lc by (simp add: lower_char_def)
next
  case False
  then have "lower_char c = c" by (auto simp add: lower_char_def)
  then show ?thesis by simp
qed

lemma to_lower_idem [simp]: "to_lower (to_lower s) = to_lower s"
  by (simp add: to_lower_def)

lemma is_space_of_char: "is_space c \<longleftrightarrow> (of_char c :: nat) \<in> {9, 10, 11, 12, 13, 32}"
proof -
  have eq: "c = d \<longleftrightarrow> (of_char c :: nat) = of_char d" for d
    by (metis char_of_char)
  show ?thesis
    by (simp add: is_space_def eq)
qed

lemma is_space_lower_char [simp]: "is_space (lower_char c) = is_space c"
proof (cases "65 \<le> (of_char c :: nat) \<and> (of_char c :: nat) \<le> 90")
  case True
  then have "(of_char (lower_char c) :: nat) = of_char c + 32"
    by (simp add: lower_char_def of_char_of)
  with True show ?thesis
    by (auto simp: is_space_of_char)
next
  case False
  then show ?thesis by (auto simp: lower_char_def)
qed

lemma dropWhile_is_space_to_lower:
  "dropWhile is_space (to_lower s) = to_lower (dropWhile is_space s)"
  by (induction s) (auto simp: to_lower_def)

lemma rev_to_lower: "rev (to_lower s) = to_lower (rev s)"
  by (simp add: to_lower_def rev_map)

lemma trim_space_to_lower [go_str]: "trim_space (to_lower s) = to_lower (trim_space s)"
  by (simp add: trim_space_def dropWhile_is_space_to_lower rev_to_lower)

lemma dropWhile_idem_hd: "xs = [] \<or> \<not> P (hd xs) \<Longrightarrow> dropWhile P xs = xs"
  by (cases xs) auto

lemma trim_space_id:
  assumes "s = [] \<or> (\<not> is_space (hd s) \<and> \<not> is_space (last s))"
  shows "trim_space s = s"
  using assms by (auto simp: trim_space_def dropWhile_idem_hd hd_rev)

lemma hd_trim_space: "trim_space s \<noteq> [] \<Longrightarrow> \<not> is_space (hd (trim_space s))"
proof -
  let ?d = "dropWhile is_space s"
  assume ne: "trim_space s \<noteq> []"
  have "prefix (trim_space s) ?d"
    unfolding trim_space_def
    by (metis rev_rev_ident suffix_dropWhile suffix_to_prefix)
  then have "hd (trim_space s) = hd ?d" and "?d \<noteq> []"
    using ne by (auto simp: prefix_def simp del: dropWhile_eq_Nil_conv)
  then show ?thesis by (metis hd_dropWhile)
qed

lemma last_trim_space: "trim_space s \<noteq> [] \<Longrightarrow> \<not> is_space (last (trim_space s))"
  by (simp add: trim_space_def last_rev hd_dropWhile)

lemma trim_space_idem [simp]: "trim_space (trim_space s) = trim_space s"
  using hd_trim_space last_trim_space by (metis trim_space_id)

lemma equal_fold_refl [simp]: "equal_fold a a"
  by (simp add: equal_fold_def)

lemma equal_fold_sym: "equal_fold a b \<Longrightarrow> equal_fold b a"
  by (simp add: equal_fold_def)

lemma nat_digits_nonempty [simp]: "nat_digits n \<noteq> []"
  by (subst nat_digits.simps) simp

lemma nil_eq_nat_digits [simp]: "[] \<noteq> nat_digits n"
  using nat_digits_nonempty [of n] by metis

lemma digit_char_inj:
  assumes "m < 10" and "n < 10" and "(char_of (48 + m) :: char) = char_of (48 + n)"
  shows "m = (n :: nat)"
proof -
  from assms(3) have "(of_char (char_of (48 + m) :: char) :: nat) = of_char (char_of (48 + n) :: char)"
    by simp
  then show ?thesis using assms(1,2) by (simp add: of_char_of)
qed

lemma nat_digits_inj: "nat_digits m = nat_digits n \<Longrightarrow> m = n"
proof (induction m arbitrary: n rule: nat_digits.induct)
  case (1 m)
  note unfold_both = nat_digits.simps [of m] nat_digits.simps [of n]
  consider "m < 10" "n < 10" | "m < 10" "\<not> n < 10" | "\<not> m < 10" "n < 10" | "\<not> m < 10" "\<not> n < 10"
    by blast
  then show ?case
  proof cases
    case 1
    with "1.prems" show ?thesis by (auto simp: unfold_both dest: digit_char_inj)
  next
    case 2
    with "1.prems" show ?thesis by (auto simp: unfold_both)
  next
    case 3
    with "1.prems" show ?thesis by (auto simp: unfold_both)
  next
    case 4
    with "1.prems" have d: "nat_digits (m div 10) = nat_digits (n div 10)"
      and l: "(char_of (48 + m mod 10) :: char) = char_of (48 + n mod 10)"
      by (auto simp: unfold_both)
    from 4 d have "m div 10 = n div 10" by (intro "1.IH") auto
    moreover from l have "m mod 10 = n mod 10" by (intro digit_char_inj) auto
    ultimately show ?thesis by (metis div_mult_mod_eq)
  qed
qed

section \<open>Association lists\<close>

text \<open>
  A Go map whose keys are enumerated is an association list; where the code ranges over such a
  map the order is unspecified, and the sources sort what they collect. \<open>put\<close> overwrites in
  place or appends.
\<close>

fun put :: "'k \<Rightarrow> 'v \<Rightarrow> ('k \<times> 'v) list \<Rightarrow> ('k \<times> 'v) list" where
  "put k v [] = [(k, v)]"
| "put k v (p # ps) = (if fst p = k then (k, v) # ps else p # put k v ps)"

lemma map_of_put [go_list]: "map_of (put k v ps) = (map_of ps)(k \<mapsto> v)"
  by (induction ps) auto

lemma set_keys_put [go_list]: "fst ` set (put k v ps) = insert k (fst ` set ps)"
  by (induction ps) auto

lemma distinct_keys_put [go_list]:
  "distinct (map fst ps) \<Longrightarrow> distinct (map fst (put k v ps))"
proof (induction ps)
  case Nil
  then show ?case by simp
next
  case (Cons p ps)
  then show ?case using set_keys_put [of k v ps] by auto
qed

section \<open>Invariants of operation histories\<close>

text \<open>
  What every stateful component promises of the operations its clients may call: each permitted
  operation keeps the invariant. Then every history of permitted operations does.
\<close>

locale operation_invariant =
  fixes exec :: "'op \<Rightarrow> 's \<Rightarrow> 's"
    and permitted :: "'op \<Rightarrow> bool"
    and inv :: "'s \<Rightarrow> bool"
  assumes kept: "permitted p \<Longrightarrow> inv s \<Longrightarrow> inv (exec p s)"
begin

lemma history_kept: "list_all permitted ops \<Longrightarrow> inv s \<Longrightarrow> inv (fold exec ops s)"
  by (induction ops arbitrary: s) (auto intro: kept)

lemma history_prefix_kept:
  "list_all permitted (ops @ more) \<Longrightarrow> inv s \<Longrightarrow> inv (fold exec ops s)"
  by (rule history_kept) simp_all

end

text \<open>
  The same for concurrent components, whose behaviour is a relation between states: what holds
  initially and is kept by every step holds in every reachable state.
\<close>

locale step_invariant =
  fixes step :: "'s \<Rightarrow> 's \<Rightarrow> bool"
    and init :: "'s \<Rightarrow> bool"
    and inv :: "'s \<Rightarrow> bool"
  assumes at_start: "init s \<Longrightarrow> inv s"
    and step_kept: "step s t \<Longrightarrow> inv s \<Longrightarrow> inv t"
begin

lemma reachable_kept: "step\<^sup>*\<^sup>* s t \<Longrightarrow> init s \<Longrightarrow> inv t"
  by (induction rule: rtranclp_induct) (auto intro: at_start step_kept)

end

lemma length_filter_update:
  "i < length xs \<Longrightarrow> length (filter P (xs[i := y])) + of_bool (P (xs ! i)) = length (filter P xs) + of_bool (P y)"
proof (induction xs arbitrary: i)
  case (Cons x xs)
  then show ?case by (cases i) auto
qed simp

end
