(* ===== verification/Labels.thy ===== *)
theory Labels
  imports Prelude
begin

text \<open>
  Forge labels (\<open>internal/labels/labels.go\<close>): the project-scoped label namespace, its
  validation and normalisation, label construction and remapping, ownership, and the normalised
  comparison all label checks go through. A label is Looper's authority for work eligibility, so
  the facts proved here are that a namespace owns the labels it emits, that two namespaces never
  own each other's labels, and that the emitted labels fit the forge's length limit.
\<close>

section \<open>Normalisation and lookup\<close>

definition Prefix :: string where
  "Prefix = ''looper:''"

definition max_namespace_prefix_length :: nat where
  "max_namespace_prefix_length = 32"

definition DoNotMerge :: string where
  "DoNotMerge = ''do-not-merge''"

definition Normalize :: "string \<Rightarrow> string" where
  "Normalize label = to_lower (trim_space label)"

text \<open>\<open>strings.Fields\<close>: the maximal runs of non-space bytes.\<close>

function fields :: "string \<Rightarrow> string list" where
  "fields s = (case dropWhile is_space s of
       [] \<Rightarrow> []
     | c # cs \<Rightarrow> (c # takeWhile (\<lambda>x. \<not> is_space x) cs) # fields (dropWhile (\<lambda>x. \<not> is_space x) cs))"
  by pat_completeness auto
termination
proof (relation "measure length")
  show "wf (measure length)" by simp
next
  fix s :: string and c cs
  assume a: "dropWhile is_space s = c # cs"
  have "length (dropWhile (\<lambda>x. \<not> is_space x) cs) \<le> length cs"
    by (rule length_dropWhile_le)
  also have "length cs < length (dropWhile is_space s)"
    by (simp add: a)
  also have "length (dropWhile is_space s) \<le> length s"
    by (rule length_dropWhile_le)
  finally show "(dropWhile (\<lambda>x. \<not> is_space x) cs, s) \<in> measure length"
    by simp
qed

declare fields.simps [simp del]

definition normalize_do_not_merge :: "string \<Rightarrow> string" where
  "normalize_do_not_merge label =
     (let parts = fields (map (\<lambda>c. if c = CHR ''_'' \<or> c = CHR ''-'' then CHR '' '' else c) label)
      in to_lower (join ''-'' parts))"

fun Has :: "string list \<Rightarrow> string \<Rightarrow> bool" where
  "Has [] target = False"
| "Has (label # labels) target =
     (let normalizedTarget = Normalize target;
          normalized = (if normalizedTarget = DoNotMerge then normalize_do_not_merge label
                        else Normalize label)
      in if normalized = normalizedTarget then True else Has labels target)"

text \<open>A label the list holds is found, however it is spelled there.\<close>

lemma fields_skip: "is_space c \<Longrightarrow> fields (c # s) = fields s"
  by (subst (1 2) fields.simps) simp

lemma fields_spaces_front: "list_all is_space ws \<Longrightarrow> fields (ws @ s) = fields s"
  by (induction ws) (simp_all add: fields_skip)

lemma fields_blank: "list_all is_space ws \<Longrightarrow> fields ws = []"
  using fields_spaces_front [of ws "[]"] by (simp add: fields.simps)

lemma fields_spaces_back: "list_all is_space ws \<Longrightarrow> fields (s @ ws) = fields s"
proof (induction s rule: fields.induct)
  case (1 s)
  show ?case
  proof (cases "dropWhile is_space s")
    case Nil
    then have "list_all is_space (s @ ws)" using 1(2) by (auto simp: list_all_iff dropWhile_eq_Nil_conv)
    then have "fields (s @ ws) = []" by (rule fields_blank)
    moreover have "list_all is_space s" using Nil by (simp add: list_all_iff dropWhile_eq_Nil_conv)
    then have "fields s = []" by (rule fields_blank)
    ultimately show ?thesis by simp
  next
    case (Cons c cs)
    then have d: "dropWhile is_space (s @ ws) = c # cs @ ws"
      by (metis append_Cons dropWhile_append dropWhile_eq_Nil_conv list.simps(3))
    have tw: "takeWhile (\<lambda>x. \<not> is_space x) (cs @ ws) = takeWhile (\<lambda>x. \<not> is_space x) cs"
    proof (cases ws)
      case (Cons w ws')
      with 1(2) have "is_space w" by simp
      with Cons show ?thesis by (induction cs) simp_all
    qed simp
    have "fields (dropWhile (\<lambda>x. \<not> is_space x) (cs @ ws)) = fields (dropWhile (\<lambda>x. \<not> is_space x) cs)"
    proof (cases "\<exists>x \<in> set cs. is_space x")
      case True
      then have "dropWhile (\<lambda>x. \<not> is_space x) (cs @ ws) = dropWhile (\<lambda>x. \<not> is_space x) cs @ ws"
        by (auto simp: dropWhile_append)
      then show ?thesis using 1(1) [OF Cons 1(2)] by simp
    next
      case False
      then have "dropWhile (\<lambda>x. \<not> is_space x) cs = []" "dropWhile (\<lambda>x. \<not> is_space x) (cs @ ws) = dropWhile (\<lambda>x. \<not> is_space x) ws"
        by (simp_all add: dropWhile_append)
      moreover have "dropWhile (\<lambda>x. \<not> is_space x) ws = ws"
        using 1(2) by (cases ws) simp_all
      moreover have "fields [] = []" by (rule fields_blank) simp
      ultimately show ?thesis using fields_blank [OF 1(2)] by (simp only:)
    qed
    with Cons d tw show ?thesis by (subst (1 2) fields.simps) simp
  qed
qed

lemma trim_space_split: obtains a b where "list_all is_space a" "list_all is_space b" "s = a @ trim_space s @ b"
proof -
  let ?d = "dropWhile is_space s"
  have "s = takeWhile is_space s @ ?d" by simp
  moreover have "?d = trim_space s @ rev (takeWhile is_space (rev ?d))"
    by (metis rev_append rev_rev_ident takeWhile_dropWhile_id trim_space_def)
  ultimately show thesis
    using that [of "takeWhile is_space s" "rev (takeWhile is_space (rev ?d))"]
    by (metis append.assoc list_all_iff set_rev set_takeWhileD)
qed

lemma fields_trim: "fields (trim_space s) = fields s"
  by (metis fields_spaces_back fields_spaces_front trim_space_split)

lemma lower_char_keeps: "lower_char c = CHR ''-'' \<longleftrightarrow> c = CHR ''-''" "lower_char c = CHR ''_'' \<longleftrightarrow> c = CHR ''_''"
proof -
  have "97 \<le> (of_char (lower_char c) :: nat)" if "65 \<le> (of_char c :: nat)" "(of_char c :: nat) \<le> 90"
    using that by (simp add: lower_char_def of_char_of)
  then have "lower_char c = c \<or> 97 \<le> (of_char (lower_char c) :: nat) \<and> 65 \<le> (of_char c :: nat) \<and> (of_char c :: nat) \<le> 90"
    by (auto simp: lower_char_def)
  then show "lower_char c = CHR ''-'' \<longleftrightarrow> c = CHR ''-''" "lower_char c = CHR ''_'' \<longleftrightarrow> c = CHR ''_''" by auto
qed

lemma to_lower_join: "to_lower (join ''-'' ps) = join ''-'' (map to_lower ps)"
proof -
  have dash: "lower_char (CHR ''-'') = CHR ''-''" by code_simp
  have "to_lower (join sep ps) = join sep (map to_lower ps)" if "sep = ''-''" for sep
    using that by (induction sep ps rule: join.induct) (simp_all add: to_lower_def dash)
  then show ?thesis by simp
qed

lemma fields_to_lower: "fields (to_lower s) = map to_lower (fields s)"
proof (induction s rule: fields.induct)
  case (1 s)
  show ?case
  proof (cases "dropWhile is_space s")
    case Nil
    then have "list_all is_space s" "list_all is_space (to_lower s)"
      by (simp_all add: list_all_iff dropWhile_eq_Nil_conv to_lower_def)
    from this [THEN fields_blank] show ?thesis by simp
  next
    case (Cons c cs)
    have word: "to_lower (takeWhile (\<lambda>x. \<not> is_space x) cs) = takeWhile (\<lambda>x. \<not> is_space x) (to_lower cs)"
      "to_lower (dropWhile (\<lambda>x. \<not> is_space x) cs) = dropWhile (\<lambda>x. \<not> is_space x) (to_lower cs)"
      by (induction cs) (simp_all add: to_lower_def)
    have "dropWhile is_space (to_lower s) = lower_char c # to_lower cs"
      unfolding dropWhile_is_space_to_lower Cons by (simp add: to_lower_def)
    then have "fields (to_lower s) = (lower_char c # takeWhile (\<lambda>x. \<not> is_space x) (to_lower cs))
        # fields (dropWhile (\<lambda>x. \<not> is_space x) (to_lower cs))"
      by (subst fields.simps) simp
    moreover have "fields s = (c # takeWhile (\<lambda>x. \<not> is_space x) cs) # fields (dropWhile (\<lambda>x. \<not> is_space x) cs)"
      using Cons by (subst fields.simps) simp
    ultimately show ?thesis using 1 [OF Cons] word by (simp add: to_lower_def)
  qed
qed

lemma normalize_do_not_merge_Normalize: "normalize_do_not_merge label = normalize_do_not_merge (Normalize label)"
proof -
  let ?f = "\<lambda>c. if c = CHR ''_'' \<or> c = CHR ''-'' then CHR '' '' else c"
  obtain a b where ab: "list_all is_space a" "list_all is_space b" "label = a @ trim_space label @ b"
    by (rule trim_space_split)
  have sp: "list_all is_space (map ?f ws)" if "list_all is_space ws" for ws
    using that by (auto simp: list_all_iff is_space_def)
  have "fields (map ?f label) = fields (map ?f a @ map ?f (trim_space label) @ map ?f b)"
    using ab(3) by (metis map_append)
  also have "\<dots> = fields (map ?f (trim_space label))"
    using fields_spaces_front [OF sp [OF ab(1)]] fields_spaces_back [OF sp [OF ab(2)]] by simp
  finally have trim: "fields (map ?f label) = fields (map ?f (trim_space label))" .
  have "lower_char (CHR '' '') = CHR '' ''" by code_simp
  then have "map ?f (to_lower t) = to_lower (map ?f t)" for t
    by (auto simp: to_lower_def lower_char_keeps)
  then have "to_lower (join ''-'' (fields (map ?f (Normalize label))))
      = to_lower (join ''-'' (map to_lower (fields (map ?f (trim_space label)))))"
    by (simp add: Normalize_def fields_to_lower)
  also have "\<dots> = to_lower (join ''-'' (fields (map ?f label)))"
    by (simp add: trim to_lower_join o_def)
  finally show ?thesis by (simp add: normalize_do_not_merge_def Let_def)
qed

lemma Has_member: "label \<in> set labels \<Longrightarrow> Has labels (trim_space label)"
proof (induction labels)
  case (Cons l ls)
  have n: "Normalize (trim_space label) = Normalize label" by (simp add: Normalize_def)
  have "normalize_do_not_merge label = DoNotMerge" if "Normalize label = DoNotMerge"
    unfolding normalize_do_not_merge_Normalize [of label] that by code_simp
  with Cons n show ?case by (auto simp: Let_def)
qed simp

section \<open>Namespaces\<close>

record Namespace =
  NsPrefix :: string

definition DefaultNamespace :: Namespace where
  "DefaultNamespace = \<lparr>NsPrefix = Prefix\<rparr>"

datatype prefix_error = PrefixShape | PrefixCharacter char | PrefixNested

definition prefix_char_ok :: "char \<Rightarrow> bool" where
  "prefix_char_ok r \<longleftrightarrow>
     (CHR ''a'' \<le> r \<and> r \<le> CHR ''z'') \<or> (CHR ''A'' \<le> r \<and> r \<le> CHR ''Z'')
     \<or> (CHR ''0'' \<le> r \<and> r \<le> CHR ''9'') \<or> r = CHR ''.'' \<or> r = CHR ''_'' \<or> r = CHR ''-''"

text \<open>\<open>None\<close> is the code's nil error; a blank prefix is accepted.\<close>

definition ValidatePrefix :: "string \<Rightarrow> prefix_error option" where
  "ValidatePrefix p0 = (let p = trim_space p0 in
     if p = [] then None
     else if length p < 2 \<or> length p > max_namespace_prefix_length \<or> \<not> has_suffix p '':''
       then Some PrefixShape
     else (case filter (\<lambda>r. \<not> prefix_char_ok r) (take (length p - 1) p) of
         r # _ \<Rightarrow> Some (PrefixCharacter r)
       | [] \<Rightarrow> (if to_lower p \<noteq> Prefix \<and> has_prefix (to_lower p) Prefix
                then Some PrefixNested else None)))"

definition NewNamespace :: "string \<Rightarrow> Namespace" where
  "NewNamespace p0 = (let p = to_lower (trim_space p0) in
     if p = [] then DefaultNamespace
     else if ValidatePrefix p \<noteq> None then DefaultNamespace
     else \<lparr>NsPrefix = p\<rparr>)"

definition ns_normalized :: "Namespace \<Rightarrow> Namespace" where
  "ns_normalized n = (if trim_space (NsPrefix n) = [] then DefaultNamespace
                      else NewNamespace (NsPrefix n))"

fun strip_first_prefix :: "string list \<Rightarrow> string \<Rightarrow> string" where
  "strip_first_prefix [] suf = suf"
| "strip_first_prefix (p # ps) suf =
     (if has_prefix (to_lower suf) p then drop (length p) suf
      else strip_first_prefix ps suf)"

definition Label :: "Namespace \<Rightarrow> string \<Rightarrow> string" where
  "Label n0 suffix0 = (let n = ns_normalized n0; suf = trim_space suffix0
     in NsPrefix n @ strip_first_prefix [NsPrefix n, Prefix] suf)"

definition Remap :: "Namespace \<Rightarrow> string \<Rightarrow> string" where
  "Remap n label = (if has_prefix (Normalize label) Prefix then Label n label
                    else trim_space label)"

definition RemapAll :: "Namespace \<Rightarrow> string list \<Rightarrow> string list" where
  "RemapAll n values = filter (\<lambda>v. v \<noteq> []) (map (Remap n) values)"

definition PlanTrigger :: "Namespace \<Rightarrow> string" where "PlanTrigger n = Label n ''plan''"
definition WorkerReadyTrigger :: "Namespace \<Rightarrow> string" where
  "WorkerReadyTrigger n = Label n ''worker-ready''"
definition SpecReviewing :: "Namespace \<Rightarrow> string" where "SpecReviewing n = Label n ''spec-reviewing''"
definition SpecReady :: "Namespace \<Rightarrow> string" where "SpecReady n = Label n ''spec-ready''"
definition NeedsHuman :: "Namespace \<Rightarrow> string" where "NeedsHuman n = Label n ''needs-human''"
definition AwaitingHuman :: "Namespace \<Rightarrow> string" where "AwaitingHuman n = Label n ''awaiting-human''"
definition HoldGlobal :: "Namespace \<Rightarrow> string" where "HoldGlobal n = Label n ''hold''"
definition HoldWorker :: "Namespace \<Rightarrow> string" where "HoldWorker n = Label n ''hold:worker''"
definition HoldFixer :: "Namespace \<Rightarrow> string" where "HoldFixer n = Label n ''hold:fixer''"
definition HoldReviewer :: "Namespace \<Rightarrow> string" where "HoldReviewer n = Label n ''hold:reviewer''"
definition DispatchPlan :: "Namespace \<Rightarrow> string" where "DispatchPlan n = Label n ''dispatch:plan''"
definition DispatchImplement :: "Namespace \<Rightarrow> string" where
  "DispatchImplement n = Label n ''dispatch:implement''"

definition DispatchLabels :: "Namespace \<Rightarrow> string list" where
  "DispatchLabels n = [DispatchPlan n, DispatchImplement n]"

definition IsOwned :: "Namespace \<Rightarrow> string \<Rightarrow> bool" where
  "IsOwned n label = has_prefix (Normalize label) (NsPrefix (ns_normalized n))"

definition AnyOwned :: "Namespace \<Rightarrow> string list \<Rightarrow> bool" where
  "AnyOwned n labels = list_ex (IsOwned n) labels"

definition IsConfiguredDispatch :: "Namespace \<Rightarrow> string \<Rightarrow> bool" where
  "IsConfiguredDispatch n label \<longleftrightarrow>
     Normalize label = Normalize (DispatchPlan n) \<or> Normalize label = Normalize (DispatchImplement n)"

definition IsConfiguredDispatchPlan :: "Namespace \<Rightarrow> string \<Rightarrow> bool" where
  "IsConfiguredDispatchPlan n label \<longleftrightarrow> Normalize label = Normalize (DispatchPlan n)"

definition IsConfiguredDispatchImplement :: "Namespace \<Rightarrow> string \<Rightarrow> bool" where
  "IsConfiguredDispatchImplement n label \<longleftrightarrow> Normalize label = Normalize (DispatchImplement n)"

definition IsDispatchPlanForLabels :: "Namespace \<Rightarrow> string list \<Rightarrow> bool" where
  "IsDispatchPlanForLabels n values = list_ex (IsConfiguredDispatchPlan n) values"

section \<open>The provisioned label table\<close>

record Definition =
  DefName :: string
  DefColor :: string
  DefDescription :: string

definition Standard :: "Namespace \<Rightarrow> Definition list" where
  "Standard n =
    [\<lparr>DefName = PlanTrigger n, DefColor = ''5319e7'',
       DefDescription = ''Picked up automatically by planner''\<rparr>,
     \<lparr>DefName = WorkerReadyTrigger n, DefColor = ''0e8a16'',
       DefDescription = ''Ready for Looper worker implementation''\<rparr>,
     \<lparr>DefName = DispatchPlan n, DefColor = ''5319e7'',
       DefDescription = ''Coordinator dispatches this issue to the planner''\<rparr>,
     \<lparr>DefName = DispatchImplement n, DefColor = ''0e8a16'',
       DefDescription = ''Coordinator dispatches this issue to the worker''\<rparr>,
     \<lparr>DefName = SpecReviewing n, DefColor = ''1d76db'',
       DefDescription = ''Spec PR is under review''\<rparr>,
     \<lparr>DefName = SpecReady n, DefColor = ''0e8a16'',
       DefDescription = ''Spec PR is ready for implementation''\<rparr>,
     \<lparr>DefName = NeedsHuman n, DefColor = ''d93f0b'',
       DefDescription = ''Looper requires manual intervention''\<rparr>,
     \<lparr>DefName = AwaitingHuman n, DefColor = ''fbca04'',
       DefDescription = ''Waiting on a human response before Looper continues''\<rparr>,
     \<lparr>DefName = HoldGlobal n, DefColor = ''b60205'',
       DefDescription = ''Pause all automatic Looper work''\<rparr>,
     \<lparr>DefName = HoldWorker n, DefColor = ''b60205'',
       DefDescription = ''Pause automatic worker work''\<rparr>,
     \<lparr>DefName = HoldFixer n, DefColor = ''b60205'',
       DefDescription = ''Pause automatic fixer work''\<rparr>,
     \<lparr>DefName = HoldReviewer n, DefColor = ''b60205'',
       DefDescription = ''Pause automatic reviewer work''\<rparr>]"

fun find_definition :: "string \<Rightarrow> Definition list \<Rightarrow> Definition option" where
  "find_definition normalized [] = None"
| "find_definition normalized (d # ds) =
     (if Normalize (DefName d) = normalized then Some d else find_definition normalized ds)"

definition DefinitionForNamespace :: "string \<Rightarrow> Namespace \<Rightarrow> Definition option" where
  "DefinitionForNamespace label n0 = (let normalized = Normalize label; n = ns_normalized n0 in
     case find_definition normalized (Standard n) of
       Some d \<Rightarrow> Some d
     | None \<Rightarrow> (if NsPrefix n \<noteq> Prefix then find_definition normalized (Standard DefaultNamespace)
                else None))"

text \<open>
  \<open>NamespaceForLabel\<close> tries the standard suffixes longest first (a stable sort) and returns
  the first one whose remaining prefix is a valid namespace that defines the label.
\<close>

definition standard_suffixes :: "string list" where
  "standard_suffixes = map (\<lambda>d. trim_prefix (Normalize (DefName d)) Prefix) (Standard DefaultNamespace)"

fun namespace_for_suffixes :: "string \<Rightarrow> string \<Rightarrow> string list \<Rightarrow> Namespace option" where
  "namespace_for_suffixes label normalized [] = None"
| "namespace_for_suffixes label normalized (suf # rest) =
     (if \<not> has_suffix normalized suf then namespace_for_suffixes label normalized rest
      else (let p = trim_suffix normalized suf in
        if ValidatePrefix p \<noteq> None then namespace_for_suffixes label normalized rest
        else if DefinitionForNamespace label (NewNamespace p) \<noteq> None then Some (NewNamespace p)
        else namespace_for_suffixes label normalized rest))"

definition NamespaceForLabel :: "string \<Rightarrow> Namespace option" where
  "NamespaceForLabel label =
     namespace_for_suffixes label (Normalize label)
       (sort_key (\<lambda>suf. - int (length suf)) standard_suffixes)"

definition DefinitionFor :: "string \<Rightarrow> Definition option" where
  "DefinitionFor label = (case NamespaceForLabel label of
       Some n \<Rightarrow> DefinitionForNamespace label n | None \<Rightarrow> None)"

section \<open>Facts about labels\<close>

lemma prefix_char_ok_code: "prefix_char_ok r \<longleftrightarrow>
   (let n = (of_char r :: nat) in (97 \<le> n \<and> n \<le> 122) \<or> (65 \<le> n \<and> n \<le> 90)
      \<or> (48 \<le> n \<and> n \<le> 57) \<or> n = 46 \<or> n = 95 \<or> n = 45)"
proof -
  have eq: "r = d \<longleftrightarrow> (of_char r :: nat) = of_char d" for d
    by (metis char_of_char)
  show ?thesis
    by (simp add: prefix_char_ok_def Let_def less_eq_char_def eq)
qed

lemma prefix_char_ok_not_space: "prefix_char_ok r \<Longrightarrow> \<not> is_space r"
  by (auto simp: prefix_char_ok_code is_space_of_char Let_def)

lemma prefix_char_ok_not_colon [simp]: "\<not> prefix_char_ok (CHR '':'')"
  by (simp add: prefix_char_ok_code)

lemma Normalize_idem [simp]: "Normalize (Normalize s) = Normalize s"
  by (simp add: Normalize_def trim_space_to_lower)

text \<open>What validation establishes: a short body of permitted characters and the final colon.\<close>

definition prefix_shape :: "string \<Rightarrow> bool" where
  "prefix_shape p \<longleftrightarrow> (\<exists>b. p = b @ '':'' \<and> b \<noteq> [] \<and> length p \<le> 32 \<and> (\<forall>c \<in> set b. prefix_char_ok c))"

lemma ValidatePrefix_shape:
  assumes "ValidatePrefix p = None" and "trim_space p \<noteq> []"
  shows "prefix_shape (trim_space p)"
proof -
  let ?p = "trim_space p"
  have len: "2 \<le> length ?p" "length ?p \<le> 32" and suf: "suffix '':'' ?p"
    using assms by (auto simp: ValidatePrefix_def Let_def max_namespace_prefix_length_def split: if_splits)
  have ok: "filter (\<lambda>r. \<not> prefix_char_ok r) (take (length ?p - 1) ?p) = []"
    using assms len suf
    by (auto simp: ValidatePrefix_def Let_def max_namespace_prefix_length_def split: if_splits list.splits)
  from suf obtain b where b: "?p = b @ '':''" by (auto simp: suffix_def)
  with ok have "\<forall>c \<in> set b. prefix_char_ok c"
    by (auto simp: filter_empty_conv)
  with b len show ?thesis by (auto simp: prefix_shape_def)
qed

lemma prefix_shape_default: "prefix_shape Prefix"
  unfolding prefix_shape_def
  by (rule exI [of _ "''looper''"]) (simp add: Prefix_def prefix_char_ok_code)

lemma ns_prefix_shape: "prefix_shape (NsPrefix (ns_normalized n))"
proof (cases "ns_normalized n = DefaultNamespace")
  case True
  then show ?thesis by (simp add: DefaultNamespace_def prefix_shape_default)
next
  case False
  let ?p = "to_lower (trim_space (NsPrefix n))"
  from False have v: "ValidatePrefix ?p = None" and ne: "?p \<noteq> []"
    and eq: "NsPrefix (ns_normalized n) = ?p"
    by (auto simp: ns_normalized_def NewNamespace_def Let_def split: if_splits)
  from v ne have "prefix_shape (trim_space ?p)"
    by (intro ValidatePrefix_shape) (simp_all add: trim_space_to_lower)
  then show ?thesis by (simp add: eq trim_space_to_lower)
qed

lemma ns_prefix_lower: "to_lower (NsPrefix (ns_normalized n)) = NsPrefix (ns_normalized n)"
proof -
  have "to_lower Prefix = Prefix" by code_simp
  then show ?thesis
    by (auto simp: ns_normalized_def NewNamespace_def DefaultNamespace_def Let_def)
qed

lemma trim_space_shape_append:
  assumes "prefix_shape p" and "s = [] \<or> \<not> is_space (last s)"
  shows "trim_space (p @ s) = p @ s"
proof -
  from assms(1) obtain b where b: "p = b @ '':''" "b \<noteq> []" "\<forall>c \<in> set b. prefix_char_ok c"
    by (auto simp: prefix_shape_def)
  have "\<not> is_space (hd (p @ s))"
    using b by (cases b) (auto dest: prefix_char_ok_not_space)
  moreover have "\<not> is_space (last (p @ s))"
    using b assms(2) by (cases "s = []") (auto simp: is_space_def)
  ultimately show ?thesis by (intro trim_space_id) simp
qed

lemma strip_first_prefix_suffix: "suffix (strip_first_prefix ps s) s"
  by (induction ps) (auto simp: suffix_drop)

lemma strip_trimmed_last:
  "strip_first_prefix ps (trim_space s) = [] \<or> \<not> is_space (last (strip_first_prefix ps (trim_space s)))"
proof (cases "strip_first_prefix ps (trim_space s) = []")
  case False
  from strip_first_prefix_suffix [of ps "trim_space s"]
  obtain zs where zs: "trim_space s = zs @ strip_first_prefix ps (trim_space s)"
    by (auto simp: suffix_def)
  with False have "last (trim_space s) = last (strip_first_prefix ps (trim_space s))"
    and "trim_space s \<noteq> []"
    by (metis last_appendR, metis append_is_Nil_conv)
  then show ?thesis using last_trim_space [of s] by auto
qed simp

lemma Label_split:
  obtains t where "Label n s = NsPrefix (ns_normalized n) @ t"
    and "suffix t (trim_space s)" and "t = [] \<or> \<not> is_space (last t)"
  using strip_first_prefix_suffix strip_trimmed_last
  unfolding Label_def Let_def by blast

lemma Normalize_Label:
  obtains t where "Normalize (Label n s) = NsPrefix (ns_normalized n) @ t" and "length t \<le> length s"
proof -
  obtain t where t: "Label n s = NsPrefix (ns_normalized n) @ t"
    "suffix t (trim_space s)" "t = [] \<or> \<not> is_space (last t)"
    by (rule Label_split)
  have "trim_space (Label n s) = Label n s"
    using t by (simp add: trim_space_shape_append ns_prefix_shape)
  then have "Normalize (Label n s) = NsPrefix (ns_normalized n) @ to_lower t"
    by (simp add: Normalize_def t(1) to_lower_append ns_prefix_lower)
  moreover have "length t \<le> length s"
  proof -
    have "length t \<le> length (trim_space s)" using t(2) by (rule suffix_length_le)
    also have "length (trim_space s) \<le> length s"
      unfolding trim_space_def by (metis length_rev length_dropWhile_le order_trans)
    finally show ?thesis .
  qed
  ultimately show ?thesis using that by simp
qed

lemma prefix_free:
  assumes "prefix_shape p" and "prefix_shape q" and "prefix p (q @ t)"
  shows "p = q"
proof -
  have free: "\<lbrakk>\<forall>c \<in> set a. c \<noteq> x; \<forall>c \<in> set b. c \<noteq> x; prefix (a @ [x]) (b @ x # t)\<rbrakk> \<Longrightarrow> a = b"
    for a b t :: string and x
  proof (induction a arbitrary: b)
    case Nil
    then show ?case by (cases b) auto
  next
    case (Cons c a)
    then show ?case by (cases b) auto
  qed
  from assms obtain a b where "p = a @ '':''" "q = b @ '':''"
    "\<forall>c \<in> set a. prefix_char_ok c" "\<forall>c \<in> set b. prefix_char_ok c"
    by (auto simp: prefix_shape_def)
  moreover from calculation have "\<forall>c \<in> set a. c \<noteq> CHR '':''" and "\<forall>c \<in> set b. c \<noteq> CHR '':''"
    by (metis prefix_char_ok_not_colon)+
  ultimately show ?thesis using assms(3) free [of a "CHR '':''" b t] by simp
qed

text \<open>
  Ownership is exact: a namespace owns the labels it emits for every suffix, and never a
  label emitted by a namespace with another (validated, lower-cased) prefix, so two Looper
  fleets with different prefixes on one repository cannot claim each other's work.
\<close>

theorem owned_label_iff_same_namespace:
  "IsOwned m (Label n s) \<longleftrightarrow> ns_normalized m = ns_normalized n"
proof -
  obtain t where t: "Normalize (Label n s) = NsPrefix (ns_normalized n) @ t"
    by (rule Normalize_Label)
  have "IsOwned m (Label n s) \<longleftrightarrow> NsPrefix (ns_normalized m) = NsPrefix (ns_normalized n)"
    unfolding IsOwned_def t
    by (metis prefix_free [OF ns_prefix_shape ns_prefix_shape] prefixI)
  then show ?thesis
    by (metis (full_types) Namespace.surjective old.unit.exhaust)
qed


definition standard_names :: "string list" where
  "standard_names = [''plan'', ''worker-ready'', ''dispatch:plan'', ''dispatch:implement'',
     ''spec-reviewing'', ''spec-ready'', ''needs-human'', ''awaiting-human'', ''hold'',
     ''hold:worker'', ''hold:fixer'', ''hold:reviewer'']"

lemma DefName_Standard: "map DefName (Standard n) = map (Label n) standard_names"
  by (simp add: Standard_def standard_names_def PlanTrigger_def WorkerReadyTrigger_def
      SpecReviewing_def SpecReady_def NeedsHuman_def AwaitingHuman_def HoldGlobal_def HoldWorker_def
      HoldFixer_def HoldReviewer_def DispatchPlan_def DispatchImplement_def)

lemma standard_names_plain:
  "\<forall>s \<in> set standard_names. to_lower s = s \<and> trim_space s = s \<and> \<not> prefix Prefix s \<and> length s \<le> 18"
  by code_simp

lemma shape_colon: "prefix_shape p \<Longrightarrow> CHR '':'' \<in> set p"
  by (auto simp: prefix_shape_def)

lemma shape_prefix_standard:
  assumes "prefix_shape p" and "s \<in> set standard_names" and "prefix p s"
  shows "p = ''dispatch:'' \<or> p = ''hold:''"
proof -
  have no_colon: "\<forall>s \<in> set standard_names. CHR '':'' \<in> set s \<longrightarrow>
      take 9 s = ''dispatch:'' \<or> take 5 s = ''hold:''"
    by code_simp
  have sh: "prefix_shape ''dispatch:''" "prefix_shape ''hold:''"
    unfolding prefix_shape_def
    by (rule exI [of _ "''dispatch''"], simp add: prefix_char_ok_code)
      (rule exI [of _ "''hold''"], simp add: prefix_char_ok_code)
  from assms(1,3) have "CHR '':'' \<in> set s"
    by (meson shape_colon set_mono_prefix subsetD)
  with no_colon assms(2) have "take 9 s = ''dispatch:'' \<or> take 5 s = ''hold:''" by blast
  then obtain t where "s = ''dispatch:'' @ t \<or> s = ''hold:'' @ t"
    by (metis append_take_drop_id)
  with assms(1,3) sh show ?thesis by (metis prefix_free)
qed

lemma Label_standard:
  assumes "s \<in> set standard_names"
  shows "Label n s = NsPrefix (ns_normalized n) @
    (if prefix (NsPrefix (ns_normalized n)) s then drop (length (NsPrefix (ns_normalized n))) s else s)"
  using assms standard_names_plain by (auto simp: Label_def Let_def)

text \<open>
  The twelve provisioned label names of a namespace are pairwise distinct exactly when its
  prefix is not \<open>dispatch:\<close>. That prefix passes validation, and under it the plan trigger
  and the dispatch-plan label are the same label.
\<close>

theorem standard_labels_distinct_iff:
  "distinct (map DefName (Standard n)) \<longleftrightarrow> NsPrefix (ns_normalized n) \<noteq> ''dispatch:''"
proof -
  let ?p = "NsPrefix (ns_normalized n)"
  have same: "map DefName (Standard n) = map (\<lambda>s. ?p @ (if prefix ?p s then drop (length ?p) s else s)) standard_names"
    unfolding DefName_Standard by (rule map_cong) (auto simp: Label_standard)
  consider "?p = ''dispatch:''" | "?p = ''hold:''" | "\<forall>s \<in> set standard_names. \<not> prefix ?p s" "?p \<noteq> ''dispatch:''"
    using shape_prefix_standard [OF ns_prefix_shape] by blast
  then show ?thesis
  proof cases
    case 1
    have "\<not> distinct (map (\<lambda>s. ''dispatch:'' @ (if prefix ''dispatch:'' s then drop (length ''dispatch:'') s else s)) standard_names)"
      by code_simp
    then show ?thesis unfolding same 1 by blast
  next
    case 2
    have "distinct (map (\<lambda>s. ''hold:'' @ (if prefix ''hold:'' s then drop (length ''hold:'') s else s)) standard_names)"
      by code_simp
    then show ?thesis unfolding same 2 by simp
  next
    case 3
    have "distinct standard_names" by code_simp
    moreover have "map (\<lambda>s. ?p @ (if prefix ?p s then drop (length ?p) s else s)) standard_names
        = map (\<lambda>s. ?p @ s) standard_names"
      using 3 by (intro map_cong) auto
    ultimately show ?thesis unfolding same using 3(2) by (simp add: distinct_map inj_on_def)
  qed
qed

text \<open>The provisioned names fit the forge's 50-byte limit for label names.\<close>

lemma standard_labels_fit:
  "list_all (\<lambda>d. length (DefName d) \<le> 50) (Standard n)"
proof -
  have len: "length (NsPrefix (ns_normalized n)) \<le> 32"
    using ns_prefix_shape [of n] by (auto simp: prefix_shape_def)
  have "length (Label n s) \<le> 50" if "s \<in> set standard_names" for s
  proof -
    from that have "length s \<le> 18" using standard_names_plain by blast
    with len show ?thesis by (auto simp: Label_standard [OF that])
  qed
  then have "\<forall>l \<in> set (map DefName (Standard n)). length l \<le> 50"
    unfolding DefName_Standard by auto
  then show ?thesis by (simp add: list_all_iff)
qed


lemma find_definition_Some:
  "find_definition l ds = Some d \<Longrightarrow> d \<in> set ds \<and> Normalize (DefName d) = l"
  by (induction ds) (auto split: if_splits)

lemma find_definition_None:
  "find_definition l ds = None \<longleftrightarrow> (\<forall>d \<in> set ds. Normalize (DefName d) \<noteq> l)"
  by (induction ds) auto

lemma namespace_for_suffixes_Some:
  "namespace_for_suffixes label l sufs = Some m \<Longrightarrow>
     \<exists>suf \<in> set sufs. suffix suf l \<and> ValidatePrefix (trim_suffix l suf) = None
       \<and> m = NewNamespace (trim_suffix l suf) \<and> DefinitionForNamespace label m \<noteq> None"
  by (induction sufs) (auto simp: Let_def split: if_splits)

lemma namespace_for_suffixes_None:
  "namespace_for_suffixes label l sufs = None \<Longrightarrow> suf \<in> set sufs \<Longrightarrow> suffix suf l \<Longrightarrow>
     ValidatePrefix (trim_suffix l suf) = None \<Longrightarrow>
     DefinitionForNamespace label (NewNamespace (trim_suffix l suf)) = None"
  by (induction sufs) (auto simp: Let_def split: if_splits)

lemma set_standard_suffixes: "set standard_suffixes = set standard_names"
  unfolding standard_suffixes_def by code_simp

lemma ns_normalized_valid:
  "ValidatePrefix (NsPrefix (ns_normalized n)) = None"
  "NewNamespace (NsPrefix (ns_normalized n)) = ns_normalized n"
  "ns_normalized (ns_normalized n) = ns_normalized n"
proof -
  let ?p = "to_lower (trim_space (NsPrefix n))"
  have d: "ValidatePrefix Prefix = None" "NewNamespace Prefix = DefaultNamespace"
    "trim_space Prefix \<noteq> []" by code_simp+
  consider "ns_normalized n = DefaultNamespace" |
    "ns_normalized n = \<lparr>NsPrefix = ?p\<rparr>" "ValidatePrefix ?p = None" "?p \<noteq> []"
  proof (cases "?p = [] \<or> ValidatePrefix ?p \<noteq> None")
    case True
    then have "ns_normalized n = DefaultNamespace"
      unfolding ns_normalized_def NewNamespace_def Let_def by (metis to_lower_eq_Nil)
    then show ?thesis using that(1) by blast
  next
    case False
    then have "ns_normalized n = \<lparr>NsPrefix = ?p\<rparr>"
      unfolding ns_normalized_def NewNamespace_def Let_def by (metis to_lower_eq_Nil)
    with False show ?thesis using that(2) by blast
  qed
  then have "ValidatePrefix (NsPrefix (ns_normalized n)) = None
    \<and> NewNamespace (NsPrefix (ns_normalized n)) = ns_normalized n
    \<and> ns_normalized (ns_normalized n) = ns_normalized n"
  proof cases
    case 1
    with d show ?thesis by (simp add: DefaultNamespace_def ns_normalized_def)
  next
    case 2
    then show ?thesis
      by (simp add: ns_normalized_def NewNamespace_def Let_def trim_space_to_lower)
  qed
  then show "ValidatePrefix (NsPrefix (ns_normalized n)) = None"
    "NewNamespace (NsPrefix (ns_normalized n)) = ns_normalized n"
    "ns_normalized (ns_normalized n) = ns_normalized n" by blast+
qed

lemma NewNamespace_normalized: "ns_normalized (NewNamespace p) = NewNamespace p"
proof -
  have "NewNamespace p = ns_normalized \<lparr>NsPrefix = p\<rparr>"
    by (simp add: ns_normalized_def NewNamespace_def)
  then show ?thesis by (simp add: ns_normalized_valid)
qed

lemma trim_suffix_append [simp]: "trim_suffix (a @ b) b = a"
  by (simp add: trim_suffix_def suffixI)

lemma prefix_trim_suffix: "prefix (trim_suffix s t) s"
  by (simp add: trim_suffix_def take_is_prefix)

lemma prefix_trim_space:
  assumes "s = [] \<or> \<not> is_space (hd s)" shows "prefix (trim_space s) s"
proof -
  from assms have "trim_space s = rev (dropWhile is_space (rev s))"
    by (simp add: trim_space_def dropWhile_idem_hd)
  moreover have "suffix (dropWhile is_space (rev s)) (rev s)" by (rule suffix_dropWhile)
  ultimately show ?thesis by (simp add: suffix_to_prefix)
qed

lemma shape_hd: "prefix_shape p \<Longrightarrow> p \<noteq> [] \<and> \<not> is_space (hd p)"
  by (auto simp: prefix_shape_def hd_append prefix_char_ok_not_space)

lemma cut_label_namespace:
  assumes l: "l = NsPrefix (ns_normalized n) @ s"
    and p: "NsPrefix (ns_normalized n) \<noteq> ''dispatch:''" "NsPrefix (ns_normalized n) \<noteq> ''hold:''"
    and suf: "suf \<in> set standard_names" "suffix suf l" "ValidatePrefix (trim_suffix l suf) = None"
  shows "NewNamespace (trim_suffix l suf) = ns_normalized n"
proof -
  let ?p = "NsPrefix (ns_normalized n)" and ?q = "trim_suffix l suf"
  have sh: "prefix_shape ?p" by (rule ns_prefix_shape)
  have ql: "prefix ?q l" by (rule prefix_trim_suffix)
  have hd: "?q = [] \<or> \<not> is_space (hd ?q)"
  proof (cases "?q = []")
    case False
    with ql have "hd ?q = hd l" by (metis hd_append2 prefix_def)
    also have "hd l = hd ?p" using shape_hd [OF sh] by (simp add: l)
    finally show ?thesis using shape_hd [OF sh] by simp
  qed simp
  have ne: "trim_space ?q \<noteq> []"
  proof
    assume "trim_space ?q = []"
    with hd have "?q = []" by (metis dropWhile_eq_Nil_conv dropWhile_idem_hd hd_in_set rev_is_Nil_conv set_rev trim_space_def)
    with suf(2) have "l = suf" by (auto simp: suffix_def trim_suffix_def)
    with l suf(1) sh p show False by (metis prefixI shape_prefix_standard)
  qed
  then have sq: "prefix_shape (trim_space ?q)" using suf(3) by (intro ValidatePrefix_shape)
  have "prefix (trim_space ?q) (?p @ s)"
    using prefix_trim_space [OF hd] ql l by (metis prefix_order.trans)
  then have eq: "trim_space ?q = ?p" by (rule prefix_free [OF sq sh])
  have "NewNamespace ?q = NewNamespace ?p"
    unfolding NewNamespace_def by (metis eq trim_space_idem)
  then show ?thesis by (simp add: ns_normalized_valid)
qed

text \<open>
  Recovering the namespace from a provisioned label gives back the namespace that emitted
  it, for every prefix other than \<open>dispatch:\<close> and \<open>hold:\<close> (which are themselves leading
  parts of standard suffixes).
\<close>

theorem namespace_for_label_roundtrip:
  assumes "NsPrefix (ns_normalized n) \<noteq> ''dispatch:''" and "NsPrefix (ns_normalized n) \<noteq> ''hold:''"
    and "d \<in> set (Standard n)"
  shows "NamespaceForLabel (DefName d) = Some (ns_normalized n)"
proof -
  let ?p = "NsPrefix (ns_normalized n)" and ?l = "DefName d"
  let ?sufs = "sort_key (\<lambda>suf. - int (length suf)) standard_suffixes"
  from assms(3) have "?l \<in> set (map (Label n) standard_names)"
    unfolding DefName_Standard [symmetric] by simp
  then obtain s where s: "s \<in> set standard_names" "?l = Label n s" by auto
  have "\<not> prefix ?p s"
    using assms(1,2) shape_prefix_standard [OF ns_prefix_shape s(1)] by blast
  then have l: "?l = ?p @ s"
    using s(2) Label_standard [OF s(1), of n] by simp
  have norm: "Normalize ?l = ?l"
  proof -
    have "to_lower s = s" "trim_space s = s" using standard_names_plain s(1) by blast+
    moreover from this have "s = [] \<or> \<not> is_space (last s)" by (metis last_trim_space)
    ultimately show ?thesis
      by (simp add: l Normalize_def trim_space_shape_append ns_prefix_shape to_lower_append ns_prefix_lower)
  qed
  have cut: "trim_suffix ?l s = ?p" by (simp add: l)
  have in_sufs: "set ?sufs = set standard_names" by (simp add: set_standard_suffixes)
  have std: "Standard (ns_normalized n) = Standard n"
    by (simp add: Standard_def PlanTrigger_def WorkerReadyTrigger_def SpecReviewing_def
        SpecReady_def NeedsHuman_def AwaitingHuman_def HoldGlobal_def HoldWorker_def HoldFixer_def
        HoldReviewer_def DispatchPlan_def DispatchImplement_def Label_def Let_def ns_normalized_valid)
  have "find_definition (Normalize ?l) (Standard (ns_normalized n)) \<noteq> None"
    unfolding find_definition_None std using assms(3) by blast
  then have found: "DefinitionForNamespace ?l (ns_normalized n) \<noteq> None"
    by (auto simp: DefinitionForNamespace_def Let_def ns_normalized_valid)
  show ?thesis
  proof (cases "namespace_for_suffixes ?l (Normalize ?l) ?sufs")
    case None
    then show ?thesis
      using namespace_for_suffixes_None [OF None, of s] s(1) in_sufs cut found l
      by (metis norm ns_normalized_valid(1,2) suffixI)
  next
    case (Some m)
    then have "m = ns_normalized n"
      using namespace_for_suffixes_Some [OF Some] cut_label_namespace [OF l assms(1,2)] in_sufs norm
      by metis
    with Some show ?thesis by (simp add: NamespaceForLabel_def)
  qed
qed

lemma namespace_for_label_roundtrip_witness:
  "NamespaceForLabel (DefName (last (Standard \<lparr>NsPrefix = ''Team:''\<rparr>))) = Some \<lparr>NsPrefix = ''team:''\<rparr>"
proof -
  have p: "ns_normalized \<lparr>NsPrefix = ''Team:''\<rparr> = \<lparr>NsPrefix = ''team:''\<rparr>" by code_simp
  have "last (Standard \<lparr>NsPrefix = ''Team:''\<rparr>) \<in> set (Standard \<lparr>NsPrefix = ''Team:''\<rparr>)"
    by (simp add: Standard_def)
  then show ?thesis
    using namespace_for_label_roundtrip [of "\<lparr>NsPrefix = ''Team:''\<rparr>"] by (simp add: p)
qed

end
