(* ===== verification/Domain.thy ===== *)
theory Domain
  imports Labels
begin

text \<open>
  The loop domain (\<open>internal/domain/domain.go\<close>): loop and run statuses with their transition
  tables, loop targets and their keys, the uniqueness rule for active loops, holds, and the steps
  of each loop type. A Go string type with named constants is a datatype with one constructor per
  constant and a last one for every other string.
\<close>

section \<open>Data\<close>

datatype LoopType = Planner | Reviewer | Worker | Fixer | OtherLoopType string

datatype LoopTargetType = TargetProject | TargetPullRequest | TargetIssue | OtherTarget string

datatype LoopStatus = LIdle | LQueued | LRunning | LPaused | LWaiting | LStopped | LTerminated
  | LCompleted | LFailed | LInterrupted | LAwaitingHuman | LHumanTakeover | OtherLoopStatus string

datatype RunStatus = RQueued | RRunning | RSuccess | RFailed | RCancelled | RInterrupted
  | RParseFailed | OtherRunStatus string

definition LoopTypes :: "LoopType list" where
  "LoopTypes = [Planner, Reviewer, Worker, Fixer]"

definition PlannerSteps :: "string list" where
  "PlannerSteps = [''discover-issues'', ''prepare-worktree'', ''write-spec'', ''publish'', ''notify'']"

definition ReviewerSteps :: "string list" where
  "ReviewerSteps = [''discover'', ''filter'', ''claim'', ''snapshot'', ''review'', ''publish'']"

definition WorkerSteps :: "string list" where
  "WorkerSteps = [''prepare-work'', ''prepare-worktree'', ''plan'', ''execute'', ''validate'', ''open-pr'']"

definition FixerSteps :: "string list" where
  "FixerSteps = [''discover-pr'', ''claim-pr'', ''collect-fixes'', ''prepare-worktree'', ''repair'',
     ''validate'', ''push'', ''reconcile-commits'', ''resolve-comments'', ''recheck'']"

definition AllLoopSteps :: "string list" where
  "AllLoopSteps = PlannerSteps @ ReviewerSteps @ WorkerSteps @ FixerSteps"

record LoopTarget =
  TargetType :: LoopTargetType
  TProjectID :: string
  TRepo :: string
  TPRNumber :: int
  TIssueNumber :: int

record LoopSummary =
  SumID :: string
  SumProjectID :: string
  SumType :: LoopType
  SumTarget :: LoopTarget
  SumStatus :: LoopStatus

definition activeLoopStatuses :: "LoopStatus list" where
  "activeLoopStatuses = [LIdle, LQueued, LRunning, LPaused, LWaiting, LAwaitingHuman, LHumanTakeover]"

definition conflictingActiveLoopStatuses :: "LoopStatus list" where
  "conflictingActiveLoopStatuses = [LIdle, LQueued, LRunning, LPaused, LAwaitingHuman, LHumanTakeover]"

definition terminalRunStatuses :: "RunStatus list" where
  "terminalRunStatuses = [RSuccess, RFailed, RCancelled, RInterrupted, RParseFailed]"

definition loopStatusTransitions :: "(LoopStatus \<times> LoopStatus list) list" where
  "loopStatusTransitions =
    [(LIdle, [LQueued, LPaused, LHumanTakeover, LTerminated]),
     (LQueued, [LRunning, LPaused, LHumanTakeover, LTerminated]),
     (LRunning, [LCompleted, LFailed, LPaused, LInterrupted, LWaiting, LAwaitingHuman,
                 LHumanTakeover, LTerminated]),
     (LPaused, [LQueued, LCompleted, LStopped, LHumanTakeover, LTerminated]),
     (LWaiting, [LQueued, LPaused, LStopped, LHumanTakeover, LTerminated]),
     (LAwaitingHuman, [LRunning, LQueued, LPaused, LStopped, LHumanTakeover, LTerminated]),
     (LHumanTakeover, [LQueued, LRunning, LStopped, LTerminated]),
     (LStopped, []),
     (LTerminated, []),
     (LCompleted, []),
     (LFailed, [LTerminated]),
     (LInterrupted, [LQueued, LFailed])]"

definition runStatusTransitions :: "(RunStatus \<times> RunStatus list) list" where
  "runStatusTransitions =
    [(RQueued, [RRunning]),
     (RRunning, [RSuccess, RFailed, RCancelled, RInterrupted, RParseFailed]),
     (RSuccess, []),
     (RFailed, []),
     (RCancelled, []),
     (RInterrupted, []),
     (RParseFailed, [])]"

definition loopStepsByType :: "(LoopType \<times> string list) list" where
  "loopStepsByType =
    [(Planner, PlannerSteps), (Reviewer, ReviewerSteps), (Worker, WorkerSteps), (Fixer, FixerSteps)]"

section \<open>Operations\<close>

text \<open>The errors; \<open>None\<close> is the code's nil error.\<close>

datatype domain_error =
    UnknownLoopType LoopType
  | UnknownLoopStatus LoopStatus
  | WorkerTarget
  | PlannerTarget
  | PullRequestTarget LoopType
  | ActiveLoopExists string LoopType string
  | InvalidLoopTransition LoopStatus LoopStatus
  | InvalidRunTransition RunStatus RunStatus
  | StepsUnknown LoopType
  | StepForeign string LoopType

definition AssertKnownLoopType :: "LoopType \<Rightarrow> domain_error option" where
  "AssertKnownLoopType loopType =
     (if list_ex (\<lambda>candidate. candidate = loopType) LoopTypes then None
      else Some (UnknownLoopType loopType))"

definition IsAutoLaneHeldForNamespace :: "LoopType \<Rightarrow> string list \<Rightarrow> Namespace \<Rightarrow> bool" where
  "IsAutoLaneHeldForNamespace loopType itemLabels ns =
     (if Has itemLabels (HoldGlobal ns) then True
      else (case loopType of
          Planner \<Rightarrow> False
        | Worker \<Rightarrow> Has itemLabels (HoldWorker ns)
        | Fixer \<Rightarrow> Has itemLabels (HoldFixer ns)
        | Reviewer \<Rightarrow> Has itemLabels (HoldReviewer ns)
        | OtherLoopType _ \<Rightarrow> False))"

definition IsAutoLaneHeld :: "LoopType \<Rightarrow> string list \<Rightarrow> bool" where
  "IsAutoLaneHeld loopType itemLabels = IsAutoLaneHeldForNamespace loopType itemLabels DefaultNamespace"

definition IsAutomaticLoopHeldForNamespace ::
    "LoopType \<Rightarrow> bool \<Rightarrow> string list \<Rightarrow> Namespace \<Rightarrow> bool" where
  "IsAutomaticLoopHeldForNamespace loopType manual itemLabels ns \<longleftrightarrow>
     \<not> manual \<and> IsAutoLaneHeldForNamespace loopType itemLabels ns"

definition IsAutomaticLoopHeld :: "LoopType \<Rightarrow> bool \<Rightarrow> string list \<Rightarrow> bool" where
  "IsAutomaticLoopHeld loopType manual itemLabels =
     IsAutomaticLoopHeldForNamespace loopType manual itemLabels DefaultNamespace"

definition AssertKnownLoopStatus :: "LoopStatus \<Rightarrow> domain_error option" where
  "AssertKnownLoopStatus status =
     (if list_ex (\<lambda>entry. fst entry = status) loopStatusTransitions then None
      else Some (UnknownLoopStatus status))"

definition IsActiveLoopStatus :: "LoopStatus \<Rightarrow> bool" where
  "IsActiveLoopStatus status \<longleftrightarrow> status \<in> set activeLoopStatuses"

definition IsConflictingActiveLoopStatus :: "LoopStatus \<Rightarrow> bool" where
  "IsConflictingActiveLoopStatus status \<longleftrightarrow> status \<in> set conflictingActiveLoopStatuses"

definition ConflictingActiveLoopStatuses :: "LoopStatus list" where
  "ConflictingActiveLoopStatuses = [LIdle, LQueued, LRunning, LPaused, LAwaitingHuman, LHumanTakeover]"

definition IsTerminalRunStatus :: "RunStatus \<Rightarrow> bool" where
  "IsTerminalRunStatus status \<longleftrightarrow> status \<in> set terminalRunStatuses"

definition LoopTargetKey :: "LoopTarget \<Rightarrow> string" where
  "LoopTargetKey target = (case TargetType target of
       TargetProject \<Rightarrow> ''project:'' @ TProjectID target
     | TargetIssue \<Rightarrow> ''issue:'' @ TRepo target @ '':'' @ itoa (TIssueNumber target)
     | _ \<Rightarrow> ''pr:'' @ TRepo target @ '':'' @ itoa (TPRNumber target))"

definition PRLockKey :: "string \<Rightarrow> int \<Rightarrow> string" where
  "PRLockKey repo prNumber =
     (if repo = [] then [] else ''pr:'' @ repo @ '':'' @ itoa prNumber)"

definition AssertLoopTypeMatchesTarget :: "LoopType \<Rightarrow> LoopTarget \<Rightarrow> domain_error option" where
  "AssertLoopTypeMatchesTarget loopType target = (case AssertKnownLoopType loopType of
       Some e \<Rightarrow> Some e
     | None \<Rightarrow> (case loopType of
         Worker \<Rightarrow>
           (if TargetType target \<noteq> TargetProject \<and> TargetType target \<noteq> TargetPullRequest
               \<and> TargetType target \<noteq> TargetIssue then Some WorkerTarget else None)
       | Planner \<Rightarrow> (if TargetType target \<noteq> TargetIssue then Some PlannerTarget else None)
       | Reviewer \<Rightarrow>
           (if TargetType target \<noteq> TargetPullRequest then Some (PullRequestTarget Reviewer) else None)
       | Fixer \<Rightarrow>
           (if TargetType target \<noteq> TargetPullRequest then Some (PullRequestTarget Fixer) else None)
       | OtherLoopType _ \<Rightarrow> None))"

definition allowConcurrentProjectWorkers :: "LoopSummary \<Rightarrow> LoopSummary \<Rightarrow> bool" where
  "allowConcurrentProjectWorkers loop candidate \<longleftrightarrow>
     SumProjectID loop = SumProjectID candidate
     \<and> SumType loop = Worker \<and> SumType candidate = Worker
     \<and> TargetType (SumTarget loop) = TargetProject
     \<and> TargetType (SumTarget candidate) = TargetProject"

fun unique_active_scan :: "LoopSummary list \<Rightarrow> LoopSummary \<Rightarrow> domain_error option" where
  "unique_active_scan [] candidate = None"
| "unique_active_scan (loop # existing) candidate =
     (if SumID loop = SumID candidate \<or> \<not> IsConflictingActiveLoopStatus (SumStatus loop)
      then unique_active_scan existing candidate
      else if allowConcurrentProjectWorkers loop candidate then unique_active_scan existing candidate
      else if SumProjectID loop = SumProjectID candidate \<and> SumType loop = SumType candidate
              \<and> LoopTargetKey (SumTarget loop) = LoopTargetKey (SumTarget candidate)
      then Some (ActiveLoopExists (SumProjectID candidate) (SumType candidate)
                   (LoopTargetKey (SumTarget candidate)))
      else unique_active_scan existing candidate)"

definition AssertUniqueActiveLoop :: "LoopSummary list \<Rightarrow> LoopSummary \<Rightarrow> domain_error option" where
  "AssertUniqueActiveLoop existing candidate =
     (if \<not> IsConflictingActiveLoopStatus (SumStatus candidate) then None
      else unique_active_scan existing candidate)"

definition AssertLoopStatusTransition :: "LoopStatus \<Rightarrow> LoopStatus \<Rightarrow> domain_error option" where
  "AssertLoopStatusTransition from to = (case map_of loopStatusTransitions from of
       None \<Rightarrow> Some (InvalidLoopTransition from to)
     | Some allowed \<Rightarrow> (if list_ex (\<lambda>candidate. candidate = to) allowed then None
                        else Some (InvalidLoopTransition from to)))"

definition AssertRunStatusTransition :: "RunStatus \<Rightarrow> RunStatus \<Rightarrow> domain_error option" where
  "AssertRunStatusTransition from to = (case map_of runStatusTransitions from of
       None \<Rightarrow> Some (InvalidRunTransition from to)
     | Some allowed \<Rightarrow> (if list_ex (\<lambda>candidate. candidate = to) allowed then None
                        else Some (InvalidRunTransition from to)))"

definition AssertStepBelongsToLoopType :: "LoopType \<Rightarrow> string \<Rightarrow> domain_error option" where
  "AssertStepBelongsToLoopType loopType step = (case map_of loopStepsByType loopType of
       None \<Rightarrow> Some (StepsUnknown loopType)
     | Some steps \<Rightarrow> (if list_ex (\<lambda>candidate. candidate = step) steps then None
                      else Some (StepForeign step loopType)))"

section \<open>Transition tables\<close>

text \<open>
  What the status checks share: a table of permitted successors and a check that accepts exactly
  the transitions of the table, whose targets all have an entry of their own.
\<close>

locale transition_table =
  fixes table :: "('s \<times> 's list) list"
    and check_transition :: "'s \<Rightarrow> 's \<Rightarrow> 'e option"
  assumes accepts: "check_transition a b = None \<longleftrightarrow> (\<exists>bs. map_of table a = Some bs \<and> b \<in> set bs)"
    and closed: "list_all (\<lambda>(a, bs). list_all (\<lambda>b. b \<in> fst ` set table) bs) table"
begin

fun history :: "'s \<Rightarrow> 's list \<Rightarrow> bool" where
  "history a [] = True"
| "history a (b # bs) = (check_transition a b = None \<and> history b bs)"

lemma history_append: "history a (bs @ cs) \<longleftrightarrow> history a bs \<and> history (last (a # bs)) cs"
  by (induction bs arbitrary: a) auto

lemma absorbing: "map_of table a = Some [] \<Longrightarrow> history a bs \<Longrightarrow> bs = []"
  by (cases bs) (auto simp: accepts)

lemma target_known:
  assumes "check_transition a b = None"
  shows "b \<in> fst ` set table"
proof -
  from assms obtain bs where "(a, bs) \<in> set table" "b \<in> set bs"
    by (auto simp: accepts dest: map_of_SomeD)
  then show ?thesis using closed by (auto simp: list_all_iff)
qed

lemma history_known: "history a bs \<Longrightarrow> set bs \<subseteq> fst ` set table"
  by (induction bs arbitrary: a) (auto dest: target_known)

lemma history_in:
  assumes "history a bs" and "P a" and "\<And>x y. P x \<Longrightarrow> check_transition x y = None \<Longrightarrow> P y"
  shows "list_all P bs"
  using assms by (induction bs arbitrary: a) auto

end

lemma assert_loop_transition_iff: "AssertLoopStatusTransition a b = None \<longleftrightarrow>
    (\<exists>bs. map_of loopStatusTransitions a = Some bs \<and> b \<in> set bs)"
  by (auto simp: AssertLoopStatusTransition_def list_ex_iff split: option.splits)

lemma assert_run_transition_iff: "AssertRunStatusTransition a b = None \<longleftrightarrow>
    (\<exists>bs. map_of runStatusTransitions a = Some bs \<and> b \<in> set bs)"
  by (auto simp: AssertRunStatusTransition_def list_ex_iff split: option.splits)

interpretation loop_table: transition_table loopStatusTransitions AssertLoopStatusTransition
  by unfold_locales (rule assert_loop_transition_iff, code_simp)

interpretation run_table: transition_table runStatusTransitions AssertRunStatusTransition
  by unfold_locales (rule assert_run_transition_iff, code_simp)

fun accepted_loop_history :: "LoopStatus \<Rightarrow> LoopStatus list \<Rightarrow> bool" where
  "accepted_loop_history a [] = True"
| "accepted_loop_history a (b # bs) =
     (AssertLoopStatusTransition a b = None \<and> accepted_loop_history b bs)"

fun accepted_run_history :: "RunStatus \<Rightarrow> RunStatus list \<Rightarrow> bool" where
  "accepted_run_history a [] = True"
| "accepted_run_history a (b # bs) =
     (AssertRunStatusTransition a b = None \<and> accepted_run_history b bs)"

lemma accepted_loop_history_iff: "accepted_loop_history a bs = loop_table.history a bs"
  by (induction bs arbitrary: a) auto

lemma accepted_run_history_iff: "accepted_run_history a bs = run_table.history a bs"
  by (induction bs arbitrary: a) auto

lemma loop_absorbing: "s \<in> {LStopped, LTerminated, LCompleted} \<Longrightarrow> accepted_loop_history s bs \<Longrightarrow> bs = []"
  unfolding accepted_loop_history_iff
  by (rule loop_table.absorbing) (auto simp: loopStatusTransitions_def)

text \<open>
  Along any history of accepted loop transitions, a loop that is stopped, terminated or
  completed never changes status again, a failed loop can only be terminated, and every status
  it passes through is a known one.
\<close>

theorem loop_history_terminal:
  assumes "accepted_loop_history s bs"
  shows "(s \<in> {LStopped, LTerminated, LCompleted} \<longrightarrow> bs = [])
    \<and> (s = LFailed \<longrightarrow> bs = [] \<or> bs = [LTerminated])
    \<and> list_all (\<lambda>b. AssertKnownLoopStatus b = None) bs"
proof (intro conjI impI)
  show "s \<in> {LStopped, LTerminated, LCompleted} \<Longrightarrow> bs = []"
    using assms loop_absorbing by blast
  show "bs = [] \<or> bs = [LTerminated]" if "s = LFailed"
  proof (cases bs)
    case (Cons b cs)
    with that assms have "b = LTerminated" "accepted_loop_history b cs"
      by (auto simp: assert_loop_transition_iff loopStatusTransitions_def)
    with Cons show ?thesis using loop_absorbing [of b cs] by simp
  qed simp
  show "list_all (\<lambda>b. AssertKnownLoopStatus b = None) bs"
    using loop_table.history_known [of s bs] assms
    by (auto simp: accepted_loop_history_iff AssertKnownLoopStatus_def list_all_iff list_ex_iff)
qed

lemma loop_history_terminal_witness:
  "accepted_loop_history LQueued [LRunning, LFailed, LTerminated]
   \<and> list_all (\<lambda>b. AssertKnownLoopStatus b = None) [LRunning, LFailed, LTerminated]"
proof -
  have "accepted_loop_history LQueued [LRunning, LFailed, LTerminated]" by code_simp
  with loop_history_terminal [OF this] show ?thesis by blast
qed

text \<open>
  No known loop status is a trap: from each of them some history of at most three accepted
  transitions ends in stopped, terminated or completed.
\<close>

theorem loop_can_terminate:
  "list_all (\<lambda>s. list_ex (\<lambda>bs. accepted_loop_history s bs \<and> length bs \<le> 3
       \<and> last (s # bs) \<in> {LStopped, LTerminated, LCompleted})
     [[], [LTerminated], [LQueued, LTerminated], [LFailed, LTerminated]])
   (map fst loopStatusTransitions)"
  by code_simp

text \<open>
  A run history is at most queued, running, one outcome: accepted histories from any status
  have length at most two, and a run in a terminal status (exactly the statuses
  \<open>IsTerminalRunStatus\<close> reports) never changes again.
\<close>

theorem run_history_bounded:
  assumes "accepted_run_history s bs"
  shows "length bs \<le> 2 \<and> (IsTerminalRunStatus s \<longrightarrow> bs = [])
    \<and> (length bs = 2 \<longrightarrow> s = RQueued \<and> hd bs = RRunning \<and> IsTerminalRunStatus (last bs))"
proof -
  have stop: "bs = []" if "IsTerminalRunStatus s" "accepted_run_history s bs" for s bs
    using that unfolding accepted_run_history_iff
    by (intro run_table.absorbing) (auto simp: IsTerminalRunStatus_def terminalRunStatuses_def runStatusTransitions_def)
  have next_status: "(a = RQueued \<and> b = RRunning) \<or> (a = RRunning \<and> IsTerminalRunStatus b)"
    if "AssertRunStatusTransition a b = None" for a b
    using that by (auto simp: assert_run_transition_iff runStatusTransitions_def IsTerminalRunStatus_def
        terminalRunStatuses_def split: if_splits)
  have running: "\<not> IsTerminalRunStatus RRunning" "\<not> IsTerminalRunStatus RQueued" by code_simp+
  show ?thesis
  proof (cases bs)
    case (Cons b cs)
    with assms have step: "AssertRunStatusTransition s b = None" and rest: "accepted_run_history b cs" by auto
    show ?thesis
    proof (cases cs)
      case Nil
      then show ?thesis using Cons stop [OF _ assms] by auto
    next
      case c: (Cons c ds)
      with rest have "AssertRunStatusTransition b c = None" and ds: "accepted_run_history c ds" by auto
      with next_status [OF step] next_status [of b c] running
      have "s = RQueued" "b = RRunning" "IsTerminalRunStatus c" by auto
      with stop [OF _ ds] Cons c stop [OF _ assms] show ?thesis by auto
    qed
  qed simp
qed

lemma run_history_bounded_witness:
  "accepted_run_history RQueued [RRunning, RSuccess] \<and> IsTerminalRunStatus RSuccess"
proof -
  have "accepted_run_history RQueued [RRunning, RSuccess]" by code_simp
  with run_history_bounded [OF this] show ?thesis by simp
qed

section \<open>Target keys and uniqueness\<close>

lemma nat_digits_plain: "c \<in> set (nat_digits n) \<Longrightarrow> c \<noteq> CHR '':'' \<and> c \<noteq> CHR ''-''"
proof (induction n rule: nat_digits.induct)
  case (1 n)
  have digit: "(char_of (48 + k) :: char) \<noteq> CHR '':''" "(char_of (48 + k) :: char) \<noteq> CHR ''-''"
    if "k < 10" for k :: nat
  proof -
    from that have code: "(of_char (char_of (48 + k) :: char) :: nat) = 48 + k" by (simp add: of_char_of)
    show "(char_of (48 + k) :: char) \<noteq> CHR '':''"
    proof
      assume "(char_of (48 + k) :: char) = CHR '':''"
      with code have "(of_char (CHR '':'') :: nat) = 48 + k" by metis
      with that show False by simp
    qed
    show "(char_of (48 + k) :: char) \<noteq> CHR ''-''"
    proof
      assume "(char_of (48 + k) :: char) = CHR ''-''"
      with code have "(of_char (CHR ''-'') :: nat) = 48 + k" by metis
      then show False by simp
    qed
  qed
  show ?case
    using "1.prems" "1.IH" digit [of "n mod 10"] digit [of n]
    by (subst (asm) nat_digits.simps) (auto split: if_splits)
qed

lemma itoa_no_colon: "CHR '':'' \<notin> set (itoa i)"
  using nat_digits_plain by (auto simp: itoa_def)

lemma itoa_inj: "itoa i = itoa j \<Longrightarrow> i = j"
proof -
  assume eq: "itoa i = itoa j"
  have minus: "nat_digits n \<noteq> CHR ''-'' # xs" for n xs
    using nat_digits_plain [of "CHR ''-''" n] by auto
  show ?thesis
    using eq minus [of "nat i"] minus [of "nat j"] minus [symmetric]
    by (auto simp: itoa_def split: if_splits dest: nat_digits_inj)
qed

lemma split_last_colon:
  assumes "a @ CHR '':'' # x = b @ CHR '':'' # y" and "CHR '':'' \<notin> set x" and "CHR '':'' \<notin> set y"
  shows "a = b \<and> x = y"
  using assms
proof (induction a arbitrary: b)
  case Nil
  then show ?case by (cases b) auto
next
  case (Cons c a)
  then show ?case by (cases b) auto
qed

text \<open>
  Target keys identify targets: two targets of the project, issue or pull-request kind have
  the same key exactly when they are of the same kind and agree on the fields that kind uses,
  whatever characters the repository or project names contain.
\<close>

theorem loop_target_key_injective:
  assumes "TargetType a \<in> {TargetProject, TargetPullRequest, TargetIssue}"
    and "TargetType b \<in> {TargetProject, TargetPullRequest, TargetIssue}"
  shows "LoopTargetKey a = LoopTargetKey b \<longleftrightarrow> TargetType a = TargetType b
    \<and> (TargetType a = TargetProject \<longrightarrow> TProjectID a = TProjectID b)
    \<and> (TargetType a = TargetIssue \<longrightarrow> TRepo a = TRepo b \<and> TIssueNumber a = TIssueNumber b)
    \<and> (TargetType a = TargetPullRequest \<longrightarrow> TRepo a = TRepo b \<and> TPRNumber a = TPRNumber b)"
proof -
  have pair: "r @ CHR '':'' # itoa i = r' @ CHR '':'' # itoa j \<longleftrightarrow> r = r' \<and> i = j" for r r' i j
    using split_last_colon itoa_no_colon itoa_inj by blast
  show ?thesis
    using assms by (cases "TargetType a"; cases "TargetType b") (auto simp: LoopTargetKey_def pair)
qed

lemma loop_target_key_injective_witness:
  "LoopTargetKey \<lparr>TargetType = TargetIssue, TProjectID = [], TRepo = ''a:1'', TPRNumber = 0, TIssueNumber = 2\<rparr>
   \<noteq> LoopTargetKey \<lparr>TargetType = TargetIssue, TProjectID = [], TRepo = ''a'', TPRNumber = 0, TIssueNumber = 12\<rparr>"
  by (subst loop_target_key_injective) simp_all

text \<open>
  The uniqueness invariant: two loops that both hold a claim, on the same project, of the same
  type and with the same target key, are the same loop, unless both are project workers.
\<close>

definition claims_same :: "LoopSummary \<Rightarrow> LoopSummary \<Rightarrow> bool" where
  "claims_same a b \<longleftrightarrow>
     IsConflictingActiveLoopStatus (SumStatus a) \<and> IsConflictingActiveLoopStatus (SumStatus b)
     \<and> \<not> allowConcurrentProjectWorkers a b
     \<and> SumProjectID a = SumProjectID b \<and> SumType a = SumType b
     \<and> LoopTargetKey (SumTarget a) = LoopTargetKey (SumTarget b)"

definition unique_active :: "LoopSummary list \<Rightarrow> bool" where
  "unique_active loops \<longleftrightarrow>
     (\<forall>a \<in> set loops. \<forall>b \<in> set loops. claims_same a b \<longrightarrow> SumID a = SumID b)"

lemma claims_same_sym: "claims_same a b \<Longrightarrow> claims_same b a"
  by (auto simp: claims_same_def allowConcurrentProjectWorkers_def)

lemma unique_active_scan_None:
  assumes "IsConflictingActiveLoopStatus (SumStatus c)"
  shows "unique_active_scan loops c = None \<longleftrightarrow>
    (\<forall>a \<in> set loops. claims_same a c \<longrightarrow> SumID a = SumID c)"
  using assms by (induction loops) (auto simp: claims_same_def)

lemma AssertUniqueActiveLoop_None:
  "AssertUniqueActiveLoop loops c = None \<longleftrightarrow>
    (\<forall>a \<in> set loops. claims_same a c \<longrightarrow> SumID a = SumID c)"
  by (cases "IsConflictingActiveLoopStatus (SumStatus c)")
    (auto simp: AssertUniqueActiveLoop_def unique_active_scan_None claims_same_def)

text \<open>
  The uniqueness check is sound and complete for its invariant: on a list of loops with at
  most one active claim per target, a candidate is accepted exactly when adding it (in place of
  the loop with its own id) keeps the claim unique.
\<close>

theorem assert_unique_active_loop_iff:
  assumes "unique_active existing"
  shows "AssertUniqueActiveLoop existing candidate = None \<longleftrightarrow>
    unique_active (candidate # filter (\<lambda>l. SumID l \<noteq> SumID candidate) existing)"
proof
  assume ok: "AssertUniqueActiveLoop existing candidate = None"
  show "unique_active (candidate # filter (\<lambda>l. SumID l \<noteq> SumID candidate) existing)"
    unfolding unique_active_def
  proof (intro ballI impI)
    fix a b
    assume "a \<in> set (candidate # filter (\<lambda>l. SumID l \<noteq> SumID candidate) existing)"
      and "b \<in> set (candidate # filter (\<lambda>l. SumID l \<noteq> SumID candidate) existing)"
      and c: "claims_same a b"
    then consider "a = candidate" "b = candidate" | "a = candidate" "b \<in> set existing"
      | "a \<in> set existing" "b = candidate" | "a \<in> set existing" "b \<in> set existing"
      by auto
    then show "SumID a = SumID b"
    proof cases
      case 2
      with ok claims_same_sym [OF c] show ?thesis by (auto simp: AssertUniqueActiveLoop_None)
    next
      case 3
      with ok c show ?thesis by (auto simp: AssertUniqueActiveLoop_None)
    next
      case 4
      with assms c show ?thesis by (auto simp: unique_active_def)
    qed simp
  qed
next
  assume "unique_active (candidate # filter (\<lambda>l. SumID l \<noteq> SumID candidate) existing)"
  then show "AssertUniqueActiveLoop existing candidate = None"
    by (auto simp: AssertUniqueActiveLoop_None unique_active_def)
qed

lemma assert_unique_active_loop_iff_witness:
  "\<not> unique_active [\<lparr>SumID = ''b'', SumProjectID = ''p'', SumType = Fixer,
      SumTarget = \<lparr>TargetType = TargetPullRequest, TProjectID = [], TRepo = ''o/r'', TPRNumber = 7, TIssueNumber = 0\<rparr>,
      SumStatus = LQueued\<rparr>,
     \<lparr>SumID = ''a'', SumProjectID = ''p'', SumType = Fixer,
      SumTarget = \<lparr>TargetType = TargetPullRequest, TProjectID = [], TRepo = ''o/r'', TPRNumber = 7, TIssueNumber = 0\<rparr>,
      SumStatus = LPaused\<rparr>]"
proof -
  let ?t = "\<lparr>TargetType = TargetPullRequest, TProjectID = [], TRepo = ''o/r'', TPRNumber = 7, TIssueNumber = 0\<rparr>"
  let ?a = "\<lparr>SumID = ''a'', SumProjectID = ''p'', SumType = Fixer, SumTarget = ?t, SumStatus = LPaused\<rparr>"
  let ?b = "\<lparr>SumID = ''b'', SumProjectID = ''p'', SumType = Fixer, SumTarget = ?t, SumStatus = LQueued\<rparr>"
  have "unique_active [?a]" by (simp add: unique_active_def)
  moreover have "AssertUniqueActiveLoop [?a] ?b \<noteq> None" by code_simp
  ultimately have "\<not> unique_active (?b # filter (\<lambda>l. SumID l \<noteq> SumID ?b) [?a])"
    using assert_unique_active_loop_iff [of "[?a]" ?b] by simp
  then show ?thesis by simp
qed

section \<open>Holds\<close>

lemma Has_iff: "Has ls t \<longleftrightarrow> (\<exists>l \<in> set ls.
    (if Normalize t = DoNotMerge then normalize_do_not_merge l else Normalize l) = Normalize t)"
  by (induction ls) (auto simp: Let_def)

lemma Has_Label: "Has ls (Label n s) \<longleftrightarrow> (\<exists>l \<in> set ls. Normalize l = Normalize (Label n s))"
proof -
  obtain t where t: "Normalize (Label n s) = NsPrefix (ns_normalized n) @ t" by (rule Normalize_Label)
  have "CHR '':'' \<in> set (Normalize (Label n s))"
    using shape_colon [OF ns_prefix_shape, of n] by (simp add: t)
  moreover have "CHR '':'' \<notin> set DoNotMerge" by (simp add: DoNotMerge_def)
  ultimately have "Normalize (Label n s) \<noteq> DoNotMerge" by force
  then show ?thesis by (auto simp: Has_iff)
qed

text \<open>
  A hold is a veto that no spelling escapes: an automatic lane is held exactly when some
  label on the item equals, after trimming and case folding, the global hold label or the hold
  label of that lane; the planner lane has only the global one, and a manual loop is never held.
\<close>

theorem automatic_loop_held_iff:
  "IsAutomaticLoopHeldForNamespace t manual ls n \<longleftrightarrow> \<not> manual \<and> (\<exists>l \<in> set ls.
     Normalize l = Normalize (HoldGlobal n)
     \<or> (t = Worker \<and> Normalize l = Normalize (HoldWorker n))
     \<or> (t = Fixer \<and> Normalize l = Normalize (HoldFixer n))
     \<or> (t = Reviewer \<and> Normalize l = Normalize (HoldReviewer n)))"
  unfolding IsAutomaticLoopHeldForNamespace_def IsAutoLaneHeldForNamespace_def HoldGlobal_def
    HoldWorker_def HoldFixer_def HoldReviewer_def Has_Label
  by (cases t) auto

end
