(* ===== verification/Brownout.thy ===== *)
theory Brownout
  imports Prelude "HOL-Library.Word"
begin

text \<open>
  The provider breaker (\<open>internal/loops/brownout/brownout.go\<close>): it stops work production when
  too large a share of recent agent runs failed, waits a cooldown, and admits a bounded number of
  probes before it closes again.

  Instants are nanoseconds since Go's zero time, so \<open>IsZero\<close> is \<open>= 0\<close>; durations are
  integers whose doubling is guarded by the code's own 64-bit bound. The clock is an argument of
  every operation that reads it. An operation returns its result, the transition it emits and the
  breaker; the mutex makes each of them atomic. The failure ratio, a \<open>float64\<close>, is the dyadic
  number \<open>RatioNum / 2 ^ RatioShift\<close>, and the quotient it is compared with is rounded to 53
  bits, to even on ties, as the hardware does.
\<close>

section \<open>Data\<close>

datatype State = StateClosed | StateOpen | StateHalfOpen

record Config =
  Enabled :: bool
  Window :: int
  MinFailures :: int
  RatioNum :: int
  RatioShift :: nat
  Cooldown :: int
  MaxCooldown :: int
  ProbeSuccesses :: int

record Transition =
  TFrom :: State
  TTo :: State
  TTrips :: int
  TFailures :: int
  TTotal :: int
  TCooldown :: int
  TReason :: string

record Summary =
  SState :: State
  SFailures :: int
  STotal :: int
  SOpenUntil :: "int option"
  SCooldown :: int
  STrips :: int

record outcome =
  at :: int
  ok :: bool

record Breaker =
  cfg :: Config
  state :: State
  outcomes :: "outcome list"
  openUntil :: int
  cooldown :: int
  probeSuccesses :: int
  trips :: int
  halfOpenAt :: int
  recoveryEpochAt :: int
  probeInFlight :: int
  halfOpenGeneration :: "64 word"
  tripFailures :: int
  tripTotal :: int

datatype admission_error = ProbeCapacityExhausted | RetryingIn int

definition New :: "Config \<Rightarrow> Breaker" where
  "New c = \<lparr>cfg = c, state = StateClosed, outcomes = [], openUntil = 0, cooldown = Cooldown c,
     probeSuccesses = 0, trips = 0, halfOpenAt = 0, recoveryEpochAt = 0, probeInFlight = 0,
     halfOpenGeneration = 0, tripFailures = 0, tripTotal = 0\<rparr>"

section \<open>The helpers that run under the lock\<close>

definition countLocked :: "Breaker \<Rightarrow> int \<times> int" where
  "countLocked b = (int (length (filter (\<lambda>e. \<not> ok e) (outcomes b))), int (length (outcomes b)))"

definition pruneLocked :: "int \<Rightarrow> Breaker \<Rightarrow> Breaker" where
  "pruneLocked now b = (if Window (cfg b) \<le> 0 then b
     else (let cutoff = now - Window (cfg b)
           in b\<lparr>outcomes := dropWhile (\<lambda>e. at e < cutoff) (outcomes b)\<rparr>))"

definition max_duration :: int where
  "max_duration = 2 ^ 63 - 1"

definition nextCooldown :: "Breaker \<Rightarrow> int" where
  "nextCooldown b = (let current = cooldown b; max = MaxCooldown (cfg b) in
     if current \<le> 0 then Cooldown (cfg b)
     else if max > 0 then (if current \<ge> max \<or> current > max div 2 then max else current * 2)
     else if current > max_duration div 2 then max_duration
     else current * 2)"

definition openLocked :: "int \<Rightarrow> string \<Rightarrow> Breaker \<Rightarrow> Transition \<times> Breaker" where
  "openLocked now reason b = (case countLocked b of (failures, tot) \<Rightarrow>
     (\<lparr>TFrom = state b, TTo = StateOpen, TTrips = trips b + 1, TFailures = failures,
       TTotal = tot, TCooldown = cooldown b, TReason = reason\<rparr>,
      b\<lparr>state := StateOpen, openUntil := now + cooldown b, probeSuccesses := 0, probeInFlight := 0,
        trips := trips b + 1, tripFailures := failures, tripTotal := tot, outcomes := []\<rparr>))"

definition refreshLocked :: "int \<Rightarrow> Breaker \<Rightarrow> Transition option \<times> Breaker" where
  "refreshLocked now b =
     (if state b \<noteq> StateOpen then (None, b)
      else if now < openUntil b then (None, b)
      else (let g = halfOpenGeneration b + 1; g' = (if g = 0 then g + 1 else g) in
        (Some \<lparr>TFrom = StateOpen, TTo = StateHalfOpen, TTrips = trips b, TFailures = 0, TTotal = 0,
               TCooldown = 0, TReason = ''cooldown_elapsed''\<rparr>,
         b\<lparr>state := StateHalfOpen, probeSuccesses := 0, probeInFlight := 0,
           halfOpenGeneration := g', halfOpenAt := now, recoveryEpochAt := now, outcomes := []\<rparr>)))"

text \<open>
  \<open>float64(failures)/float64(tot)\<close> for \<open>0 < failures \<le> tot\<close>: scale the dividend
  until the quotient has 53 bits and round to even. The result is mantissa and binary shift.
\<close>

function norm_shift :: "int \<Rightarrow> int \<Rightarrow> nat" where
  "norm_shift f t = (if f \<le> 0 \<or> t \<le> f then 0 else Suc (norm_shift (2 * f) t))"
  by pat_completeness auto
termination by (relation "measure (\<lambda>(f, t). nat (t - f))") auto

declare norm_shift.simps [simp del]

definition round_half_even_div :: "int \<Rightarrow> int \<Rightarrow> int" where
  "round_half_even_div a d = (let q = a div d; r = a mod d in
     if 2 * r < d then q else if 2 * r > d then q + 1 else if even q then q else q + 1)"

definition float_quotient :: "int \<Rightarrow> int \<Rightarrow> int \<times> nat" where
  "float_quotient f t = (if f \<le> 0 then (0, 0)
     else (let k = 52 + norm_shift f t in (round_half_even_div (f * 2 ^ k) t, k)))"

definition ratio_below :: "int \<Rightarrow> int \<Rightarrow> Config \<Rightarrow> bool" where
  "ratio_below failures tot c = (case float_quotient failures tot of (q, k) \<Rightarrow>
     q * 2 ^ RatioShift c < RatioNum c * 2 ^ k)"

definition evaluateLocked ::
    "int \<Rightarrow> int \<Rightarrow> bool \<Rightarrow> Breaker \<Rightarrow> Transition option \<times> Breaker" where
  "evaluateLocked now startedAt okay b = (case state b of
       StateHalfOpen \<Rightarrow>
         (if startedAt = 0 \<or> startedAt < halfOpenAt b then (None, b)
          else if \<not> okay then
            (case openLocked now ''probe_failed'' (b\<lparr>cooldown := nextCooldown b\<rparr>) of
               (t, b') \<Rightarrow> (Some t, b'))
          else (let b1 = b\<lparr>probeSuccesses := probeSuccesses b + 1\<rparr> in
            if probeSuccesses b1 < ProbeSuccesses (cfg b1) then (None, b1)
            else (Some \<lparr>TFrom = StateHalfOpen, TTo = StateClosed, TTrips = trips b, TFailures = 0,
                        TTotal = 0, TCooldown = 0, TReason = ''probes_succeeded''\<rparr>,
                  b1\<lparr>state := StateClosed, cooldown := Cooldown (cfg b1), probeSuccesses := 0,
                     probeInFlight := 0, outcomes := []\<rparr>)))
     | StateClosed \<Rightarrow> (case countLocked b of (failures, tot) \<Rightarrow>
         (if failures < MinFailures (cfg b) \<or> tot = 0 then (None, b)
          else if ratio_below failures tot (cfg b) then (None, b)
          else (case openLocked now ''failure_rate'' b of
              (t, b') \<Rightarrow> (Some (t\<lparr>TFailures := failures, TTotal := tot\<rparr>), b'))))
     | StateOpen \<Rightarrow> (None, b))"

section \<open>Operations\<close>

definition probe_limit :: "Config \<Rightarrow> int" where
  "probe_limit c = (if ProbeSuccesses c \<le> 0 then 1 else ProbeSuccesses c)"

definition AdmissionCapacity :: "int \<Rightarrow> Breaker \<Rightarrow> int \<times> Transition option \<times> Breaker" where
  "AdmissionCapacity now b =
     (if \<not> Enabled (cfg b) then (-1, None, b)
      else (case refreshLocked now b of (t, b') \<Rightarrow>
        let capacity = (if state b' = StateHalfOpen
              then (let c = probe_limit (cfg b') - probeSuccesses b' - probeInFlight b'
                    in if c < 0 then 0 else c)
              else -1)
        in (capacity, t, b')))"

text \<open>
  The result is the error or the pair of the probe token and its generation. \<open>now'\<close> is the
  second reading of the clock, for the remaining time of the error.
\<close>

definition allowAdmission :: "int \<Rightarrow> int \<Rightarrow> bool \<Rightarrow> Breaker \<Rightarrow>
    (admission_error, bool \<times> 64 word) result \<times> Transition option \<times> Breaker" where
  "allowAdmission now now' reserveProbe b =
     (if \<not> Enabled (cfg b) then (Inr (False, 0), None, b)
      else (case refreshLocked now b of (t, b1) \<Rightarrow>
        (case state b1 of
           StateHalfOpen \<Rightarrow>
             (if probeInFlight b1 + probeSuccesses b1 \<ge> probe_limit (cfg b1)
              then (Inl ProbeCapacityExhausted, t, b1)
              else if reserveProbe
              then (Inr (True, halfOpenGeneration b1), t, b1\<lparr>probeInFlight := probeInFlight b1 + 1\<rparr>)
              else (Inr (False, halfOpenGeneration b1), t, b1))
         | StateOpen \<Rightarrow> (Inl (RetryingIn (max 0 (openUntil b1 - now'))), t, b1)
         | StateClosed \<Rightarrow> (Inr (False, 0), t, b1))))"

definition Allow :: "int \<Rightarrow> int \<Rightarrow> Breaker \<Rightarrow> admission_error option \<times> Transition option \<times> Breaker" where
  "Allow now now' b = (case allowAdmission now now' False b of
     (r, t, b') \<Rightarrow> ((case r of Inl e \<Rightarrow> Some e | Inr _ \<Rightarrow> None), t, b'))"

definition AllowAdmissionWithGeneration :: "int \<Rightarrow> int \<Rightarrow> Breaker \<Rightarrow>
    (admission_error, bool \<times> 64 word) result \<times> Transition option \<times> Breaker" where
  "AllowAdmissionWithGeneration now now' b = allowAdmission now now' True b"

definition RecordAdmissionGeneration ::
    "int \<Rightarrow> int \<Rightarrow> bool \<Rightarrow> bool \<Rightarrow> 64 word \<Rightarrow> Breaker \<Rightarrow> Transition option \<times> Breaker" where
  "RecordAdmissionGeneration now startedAt okay probe generation b =
     (if \<not> Enabled (cfg b) then (None, b)
      else if state b = StateOpen then (None, b)
      else if state b = StateClosed \<and> recoveryEpochAt b \<noteq> 0 \<and> startedAt \<noteq> 0
              \<and> startedAt < recoveryEpochAt b then (None, b)
      else if state b \<noteq> StateHalfOpen \<and> probe \<and> generation \<noteq> 0 then (None, b)
      else if state b = StateHalfOpen \<and> generation \<noteq> 0 \<and> generation \<noteq> halfOpenGeneration b
      then (None, b)
      else (let validProbe = probe \<and> startedAt \<noteq> 0 \<and> \<not> startedAt < halfOpenAt b;
                b1 = (if state b = StateHalfOpen \<and> validProbe \<and> probeInFlight b > 0
                      then b\<lparr>probeInFlight := probeInFlight b - 1\<rparr> else b)
            in if state b = StateHalfOpen \<and> \<not> validProbe then (None, b1)
               else evaluateLocked now startedAt okay
                      (pruneLocked now (b1\<lparr>outcomes := outcomes b1 @ [\<lparr>at = now, ok = okay\<rparr>]\<rparr>))))"

definition Record :: "int \<Rightarrow> int \<Rightarrow> bool \<Rightarrow> Breaker \<Rightarrow> Transition option \<times> Breaker" where
  "Record now startedAt okay b = RecordAdmissionGeneration now startedAt okay (startedAt \<noteq> 0) 0 b"

definition RecordAdmission :: "int \<Rightarrow> int \<Rightarrow> bool \<Rightarrow> bool \<Rightarrow> Breaker \<Rightarrow> Transition option \<times> Breaker" where
  "RecordAdmission now startedAt okay probe b = RecordAdmissionGeneration now startedAt okay probe 0 b"

definition ReleaseProbeGeneration :: "64 word \<Rightarrow> Breaker \<Rightarrow> Breaker" where
  "ReleaseProbeGeneration generation b =
     (if (generation = 0 \<or> generation = halfOpenGeneration b) \<and> probeInFlight b > 0
      then b\<lparr>probeInFlight := probeInFlight b - 1\<rparr> else b)"

definition SetConfig :: "Config \<Rightarrow> Breaker \<Rightarrow> Transition option \<times> Breaker" where
  "SetConfig c b0 = (let previous = cfg b0; previousState = state b0; b = b0\<lparr>cfg := c\<rparr> in
     if \<not> Enabled c then
       ((if previousState \<noteq> StateClosed
         then Some \<lparr>TFrom = previousState, TTo = StateClosed, TTrips = trips b, TFailures = 0,
                    TTotal = 0, TCooldown = 0, TReason = ''disabled_override''\<rparr> else None),
        b\<lparr>state := StateClosed, outcomes := [], probeSuccesses := 0, probeInFlight := 0,
          cooldown := Cooldown c, openUntil := 0, halfOpenAt := 0, recoveryEpochAt := 0,
          tripFailures := 0, tripTotal := 0\<rparr>)
     else (let
         b1 = (if MaxCooldown c > 0 \<and> cooldown b > MaxCooldown c
               then (let shortened = openUntil b + (MaxCooldown c - cooldown b)
                     in b\<lparr>openUntil := (if state b = StateOpen \<and> shortened < openUntil b
                                       then shortened else openUntil b),
                          cooldown := MaxCooldown c\<rparr>)
               else b);
         b2 = (if Cooldown previous \<noteq> Cooldown c
               then b1\<lparr>cooldown := (if MaxCooldown c > 0 \<and> Cooldown c > MaxCooldown c
                                    then MaxCooldown c else Cooldown c)\<rparr>
               else b1);
         b3 = (if cooldown b2 \<le> 0 then b2\<lparr>cooldown := Cooldown c\<rparr> else b2)
       in if state b3 = StateHalfOpen \<and> probeSuccesses b3 \<ge> probe_limit c
          then (Some \<lparr>TFrom = StateHalfOpen, TTo = StateClosed, TTrips = trips b3, TFailures = 0,
                      TTotal = 0, TCooldown = 0, TReason = ''probe_threshold_reduced''\<rparr>,
                b3\<lparr>state := StateClosed, cooldown := Cooldown c, probeSuccesses := 0,
                   probeInFlight := 0, outcomes := [], halfOpenAt := 0\<rparr>)
          else (None, b3)))"

definition Snapshot :: "int \<Rightarrow> Breaker \<Rightarrow> Summary \<times> Breaker" where
  "Snapshot now b0 = (let b = pruneLocked now b0;
       deadlineElapsed = (state b = StateOpen \<and> \<not> now < openUntil b);
       counts = (if state b = StateOpen \<or> state b = StateHalfOpen
                 then (tripFailures b, tripTotal b) else countLocked b)
     in (\<lparr>SState = (if deadlineElapsed then StateHalfOpen else state b),
          SFailures = fst counts, STotal = snd counts,
          SOpenUntil = (if state b = StateOpen \<and> \<not> deadlineElapsed then Some (openUntil b) else None),
          SCooldown = cooldown b, STrips = trips b\<rparr>, b))"

section \<open>Histories of a breaker\<close>

text \<open>Every call the runtime makes on a breaker, with the clock readings it sees.\<close>

datatype operation =
    OpCapacity int
  | OpAllow int int
  | OpAdmit int int
  | OpRecord int int bool bool "64 word"
  | OpRelease "64 word"
  | OpSnapshot int
  | OpSetConfig Config

fun apply_op :: "operation \<Rightarrow> Breaker \<Rightarrow> Breaker" where
  "apply_op (OpCapacity now) b = snd (snd (AdmissionCapacity now b))"
| "apply_op (OpAllow now now') b = snd (snd (Allow now now' b))"
| "apply_op (OpAdmit now now') b = snd (snd (AllowAdmissionWithGeneration now now' b))"
| "apply_op (OpRecord now startedAt okay probe g) b = snd (RecordAdmissionGeneration now startedAt okay probe g b)"
| "apply_op (OpRelease g) b = ReleaseProbeGeneration g b"
| "apply_op (OpSnapshot now) b = snd (Snapshot now b)"
| "apply_op (OpSetConfig c) b = snd (SetConfig c b)"

definition run_ops :: "operation list \<Rightarrow> Breaker \<Rightarrow> Breaker" where
  "run_ops ops b = fold apply_op ops b"

lemma run_ops_simps [simp]:
  "run_ops [] b = b" "run_ops (p # ps) b = run_ops ps (apply_op p b)"
  "run_ops (ps @ qs) b = run_ops qs (run_ops ps b)"
  by (simp_all add: run_ops_def)

fun is_set_config :: "operation \<Rightarrow> bool" where
  "is_set_config (OpSetConfig _) = True"
| "is_set_config _ = False"

text \<open>Outside half-open nothing is reserved; inside, the round is not already won.\<close>

definition breaker_ok :: "Breaker \<Rightarrow> bool" where
  "breaker_ok b \<longleftrightarrow> 0 \<le> probeInFlight b \<and> 0 \<le> probeSuccesses b
     \<and> (state b \<noteq> StateHalfOpen \<longrightarrow> probeInFlight b = 0 \<and> probeSuccesses b = 0)
     \<and> (state b = StateHalfOpen \<longrightarrow> probeSuccesses b < probe_limit (cfg b))"

text \<open>A bound no limit in force has exceeded bounds the round.\<close>

definition within_budget :: "int \<Rightarrow> Breaker \<Rightarrow> bool" where
  "within_budget m b \<longleftrightarrow> breaker_ok b \<and> probe_limit (cfg b) \<le> m
     \<and> (state b = StateHalfOpen \<longrightarrow> probeInFlight b + probeSuccesses b \<le> m)"

text \<open>The largest limit of the first configuration and of those a history reloads.\<close>

fun reload_limit :: "operation \<Rightarrow> int \<Rightarrow> int" where
  "reload_limit (OpSetConfig c) m = max (probe_limit c) m"
| "reload_limit _ m = m"

definition largest_limit :: "Config \<Rightarrow> operation list \<Rightarrow> int" where
  "largest_limit c ops = foldr reload_limit ops (probe_limit c)"

lemma probe_limit_pos: "0 < probe_limit c"
  by (simp add: probe_limit_def)

lemmas breaker_defs = refreshLocked_def openLocked_def evaluateLocked_def pruneLocked_def
  countLocked_def Let_def

lemma pruneLocked_other [simp]:
  "state (pruneLocked now b) = state b" "cfg (pruneLocked now b) = cfg b"
  "probeInFlight (pruneLocked now b) = probeInFlight b"
  "probeSuccesses (pruneLocked now b) = probeSuccesses b"
  "openUntil (pruneLocked now b) = openUntil b" "cooldown (pruneLocked now b) = cooldown b"
  "halfOpenAt (pruneLocked now b) = halfOpenAt b" "trips (pruneLocked now b) = trips b"
  "halfOpenGeneration (pruneLocked now b) = halfOpenGeneration b"
  by (simp_all add: pruneLocked_def Let_def)

lemma openLocked_other [simp]:
  "state (snd (openLocked now r b)) = StateOpen" "cfg (snd (openLocked now r b)) = cfg b"
  "probeInFlight (snd (openLocked now r b)) = 0" "probeSuccesses (snd (openLocked now r b)) = 0"
  "openUntil (snd (openLocked now r b)) = now + cooldown b"
  "cooldown (snd (openLocked now r b)) = cooldown b" "trips (snd (openLocked now r b)) = trips b + 1"
  by (simp_all add: openLocked_def split: prod.splits)

lemma refreshLocked_cfg [simp]: "cfg (snd (refreshLocked now b)) = cfg b"
  by (simp add: refreshLocked_def Let_def)

lemma refresh_budget: "within_budget m b \<Longrightarrow> within_budget m (snd (refreshLocked now b))"
  using probe_limit_pos [of "cfg b"]
  by (auto simp: refreshLocked_def Let_def within_budget_def breaker_ok_def)

lemma refresh_ok: "breaker_ok b \<Longrightarrow> breaker_ok (snd (refreshLocked now b))"
  using probe_limit_pos [of "cfg b"]
  by (auto simp: refreshLocked_def Let_def breaker_ok_def)

lemma openLocked_ok [simp]: "breaker_ok (snd (openLocked now r b))"
  "within_budget m (snd (openLocked now r b)) \<longleftrightarrow> probe_limit (cfg b) \<le> m"
  by (simp_all add: breaker_ok_def within_budget_def)

lemma evaluate_half_open:
  "state b = StateHalfOpen \<Longrightarrow> snd (evaluateLocked now st okay b) =
    (if st = 0 \<or> st < halfOpenAt b then b
     else if \<not> okay then snd (openLocked now ''probe_failed'' (b\<lparr>cooldown := nextCooldown b\<rparr>))
     else if probeSuccesses b + 1 < ProbeSuccesses (cfg b) then b\<lparr>probeSuccesses := probeSuccesses b + 1\<rparr>
     else b\<lparr>state := StateClosed, cooldown := Cooldown (cfg b), probeSuccesses := 0,
            probeInFlight := 0, outcomes := []\<rparr>)"
  by (simp add: evaluateLocked_def Let_def split: prod.splits)

lemma evaluate_closed:
  "state b = StateClosed \<Longrightarrow> snd (evaluateLocked now st okay b) =
    (if fst (countLocked b) < MinFailures (cfg b) \<or> snd (countLocked b) = 0
        \<or> ratio_below (fst (countLocked b)) (snd (countLocked b)) (cfg b) then b
     else snd (openLocked now ''failure_rate'' b))"
  by (simp add: evaluateLocked_def split: prod.splits)

lemma evaluate_open: "state b = StateOpen \<Longrightarrow> snd (evaluateLocked now st okay b) = b"
  by (simp add: evaluateLocked_def)

text \<open>A recorded outcome, with the reservation of its probe returned.\<close>

definition settle_probe :: "int \<Rightarrow> bool \<Rightarrow> Breaker \<Rightarrow> Breaker" where
  "settle_probe now okay b = pruneLocked now
     (b\<lparr>probeInFlight := (if probeInFlight b > 0 then probeInFlight b - 1 else probeInFlight b),
        outcomes := outcomes b @ [\<lparr>at = now, ok = okay\<rparr>]\<rparr>)"

definition plain_outcome :: "int \<Rightarrow> bool \<Rightarrow> Breaker \<Rightarrow> Breaker" where
  "plain_outcome now okay b = pruneLocked now (b\<lparr>outcomes := outcomes b @ [\<lparr>at = now, ok = okay\<rparr>]\<rparr>)"

lemma record_cases:
  obtains "snd (RecordAdmissionGeneration now st okay probe g b) = b"
  | "Enabled (cfg b)" "state b = StateClosed"
    "snd (RecordAdmissionGeneration now st okay probe g b) = snd (evaluateLocked now st okay (plain_outcome now okay b))"
  | "Enabled (cfg b)" "state b = StateHalfOpen" "probe" "g = 0 \<or> g = halfOpenGeneration b"
    "st \<noteq> 0" "\<not> st < halfOpenAt b"
    "snd (RecordAdmissionGeneration now st okay probe g b) = snd (evaluateLocked now st okay (settle_probe now okay b))"
proof (cases "state b")
  case StateOpen
  then show ?thesis using that(1) by (simp add: RecordAdmissionGeneration_def)
next
  case StateClosed
  show ?thesis
  proof (cases "\<not> Enabled (cfg b) \<or> (recoveryEpochAt b \<noteq> 0 \<and> st \<noteq> 0 \<and> st < recoveryEpochAt b)
      \<or> (probe \<and> g \<noteq> 0)")
    case True
    with StateClosed that(1) show ?thesis by (auto simp: RecordAdmissionGeneration_def)
  next
    case False
    with StateClosed have "snd (RecordAdmissionGeneration now st okay probe g b)
        = snd (evaluateLocked now st okay (plain_outcome now okay b))"
      by (auto simp: RecordAdmissionGeneration_def plain_outcome_def Let_def)
    with False StateClosed that(2) show ?thesis by blast
  qed
next
  case StateHalfOpen
  show ?thesis
  proof (cases "Enabled (cfg b) \<and> probe \<and> (g = 0 \<or> g = halfOpenGeneration b) \<and> st \<noteq> 0 \<and> \<not> st < halfOpenAt b")
    case True
    have upd: "(if probeInFlight b > 0 then b\<lparr>probeInFlight := probeInFlight b - 1\<rparr> else b)
        = b\<lparr>probeInFlight := (if probeInFlight b > 0 then probeInFlight b - 1 else probeInFlight b)\<rparr>"
      by simp
    from True StateHalfOpen that(3) show ?thesis
      by (auto simp: RecordAdmissionGeneration_def settle_probe_def Let_def)
  next
    case False
    with StateHalfOpen that(1) show ?thesis
      by (auto simp: RecordAdmissionGeneration_def Let_def)
  qed
qed

lemma settle_probe_simps [simp]:
  "state (settle_probe now okay b) = state b" "cfg (settle_probe now okay b) = cfg b"
  "probeSuccesses (settle_probe now okay b) = probeSuccesses b"
  "halfOpenAt (settle_probe now okay b) = halfOpenAt b" "trips (settle_probe now okay b) = trips b"
  "openUntil (settle_probe now okay b) = openUntil b" "cooldown (settle_probe now okay b) = cooldown b"
  "halfOpenGeneration (settle_probe now okay b) = halfOpenGeneration b"
  "probeInFlight (settle_probe now okay b) = (if probeInFlight b > 0 then probeInFlight b - 1 else probeInFlight b)"
  by (simp_all add: settle_probe_def)

lemma plain_outcome_simps [simp]:
  "state (plain_outcome now okay b) = state b" "cfg (plain_outcome now okay b) = cfg b"
  "probeSuccesses (plain_outcome now okay b) = probeSuccesses b"
  "probeInFlight (plain_outcome now okay b) = probeInFlight b"
  by (simp_all add: plain_outcome_def)

lemma record_ok:
  assumes "breaker_ok b" shows "breaker_ok (snd (RecordAdmissionGeneration now st okay probe g b))"
proof (rule record_cases [of now st okay probe g b])
  assume "state b = StateClosed"
    "snd (RecordAdmissionGeneration now st okay probe g b) = snd (evaluateLocked now st okay (plain_outcome now okay b))"
  with assms show ?thesis by (simp add: evaluate_closed) (simp add: breaker_ok_def)
next
  assume "state b = StateHalfOpen"
    "snd (RecordAdmissionGeneration now st okay probe g b) = snd (evaluateLocked now st okay (settle_probe now okay b))"
  with assms show ?thesis
    by (simp add: evaluate_half_open) (auto simp: breaker_ok_def probe_limit_def)
qed (use assms in simp)

lemma record_budget:
  assumes "within_budget m b" shows "within_budget m (snd (RecordAdmissionGeneration now st okay probe g b))"
proof (rule record_cases [of now st okay probe g b])
  assume "state b = StateClosed"
    "snd (RecordAdmissionGeneration now st okay probe g b) = snd (evaluateLocked now st okay (plain_outcome now okay b))"
  with assms show ?thesis by (simp add: evaluate_closed) (simp add: within_budget_def breaker_ok_def)
next
  assume h: "state b = StateHalfOpen"
    "snd (RecordAdmissionGeneration now st okay probe g b) = snd (evaluateLocked now st okay (settle_probe now okay b))"
  from h(1) assms have "probeInFlight b + probeSuccesses b \<le> m" "probe_limit (cfg b) \<le> m"
    "probeSuccesses b < probe_limit (cfg b)" "0 \<le> probeInFlight b" "0 \<le> probeSuccesses b"
    by (auto simp: within_budget_def breaker_ok_def)
  with h show ?thesis
    by (simp add: evaluate_half_open) (auto simp: within_budget_def breaker_ok_def probe_limit_def)
qed (use assms in simp)

lemma admission_breaker:
  "snd (snd (allowAdmission now now' r b)) =
    (if \<not> Enabled (cfg b) then b else
     (let b1 = snd (refreshLocked now b) in
      if state b1 = StateHalfOpen \<and> r \<and> \<not> probeInFlight b1 + probeSuccesses b1 \<ge> probe_limit (cfg b1)
      then b1\<lparr>probeInFlight := probeInFlight b1 + 1\<rparr> else b1))"
proof -
  obtain t b1 where b1: "refreshLocked now b = (t, b1)" by (cases "refreshLocked now b")
  then have "cfg b1 = cfg b" by (metis refreshLocked_cfg snd_conv)
  with b1 show ?thesis by (simp add: allowAdmission_def Let_def split: State.splits)
qed

lemma admission_ok: "breaker_ok b \<Longrightarrow> breaker_ok (snd (snd (allowAdmission now now' r b)))"
  using refresh_ok [of b now] unfolding admission_breaker Let_def
  by (auto simp: breaker_ok_def)

lemma admission_budget: "within_budget m b \<Longrightarrow> within_budget m (snd (snd (allowAdmission now now' r b)))"
  using refresh_budget [of m b now] unfolding admission_breaker Let_def
  by (auto simp: within_budget_def breaker_ok_def)

lemma release_budget:
  "within_budget m b \<Longrightarrow> within_budget m (ReleaseProbeGeneration g b)"
  "breaker_ok b \<Longrightarrow> breaker_ok (ReleaseProbeGeneration g b)"
  by (auto simp: ReleaseProbeGeneration_def within_budget_def breaker_ok_def)

lemma snapshot_budget:
  "within_budget m b \<Longrightarrow> within_budget m (snd (Snapshot now b))"
  "breaker_ok b \<Longrightarrow> breaker_ok (snd (Snapshot now b))"
  by (auto simp: Snapshot_def Let_def within_budget_def breaker_ok_def)

lemma allow_breaker: "snd (snd (Allow now now' b)) = snd (snd (allowAdmission now now' False b))"
  by (simp add: Allow_def split: prod.splits)

lemma capacity_breaker: "snd (snd (AdmissionCapacity now b)) =
    (if Enabled (cfg b) then snd (refreshLocked now b) else b)"
  by (simp add: AdmissionCapacity_def Let_def split: prod.splits)

lemma set_config_ok: "breaker_ok b \<Longrightarrow> breaker_ok (snd (SetConfig c b))"
  by (auto simp: SetConfig_def Let_def breaker_ok_def)

lemma apply_op_ok: "breaker_ok b \<Longrightarrow> breaker_ok (apply_op p b)"
  by (cases p) (simp_all add: allow_breaker capacity_breaker AllowAdmissionWithGeneration_def
      admission_ok refresh_ok record_ok release_budget snapshot_budget set_config_ok)

lemma set_config_budget:
  "within_budget m b \<Longrightarrow> probe_limit c \<le> m \<Longrightarrow> within_budget m (snd (SetConfig c b))"
  using set_config_ok [of b c] unfolding within_budget_def
  by (auto simp: SetConfig_def Let_def)

lemma apply_op_budget:
  "reload_limit p m \<le> m \<Longrightarrow> within_budget m b \<Longrightarrow> within_budget m (apply_op p b)"
  by (cases p) (simp_all add: allow_breaker capacity_breaker AllowAdmissionWithGeneration_def
      admission_budget refresh_budget record_budget release_budget snapshot_budget set_config_budget)

interpretation budget_machine: operation_invariant apply_op "\<lambda>p. reload_limit p m \<le> m" "within_budget m" for m
  by unfold_locales (rule apply_op_budget)

interpretation round_machine: operation_invariant apply_op "\<lambda>_. True" breaker_ok
  by unfold_locales (rule apply_op_ok)

lemma reload_limit_mono: "m \<le> reload_limit p m" "reload_limit p m \<le> n \<Longrightarrow> reload_limit p n \<le> n"
  by (cases p, simp_all)+

lemma largest_limit_bounds: "probe_limit c \<le> largest_limit c ops"
  "list_all (\<lambda>p. reload_limit p (largest_limit c ops) \<le> largest_limit c ops) ops"
proof -
  show b: "probe_limit c \<le> largest_limit c ops" for ops
    unfolding largest_limit_def by (induction ops) (auto intro: order_trans reload_limit_mono(1))
  have "reload_limit p (probe_limit c) \<le> largest_limit c ops" if "p \<in> set ops" for p
    using that
  proof (induction ops)
    case (Cons q ops)
    then show ?case
      using b [of ops] reload_limit_mono(1) [of "largest_limit c ops" q]
      by (cases q; cases p) (auto simp: largest_limit_def)
  qed simp
  then show "list_all (\<lambda>p. reload_limit p (largest_limit c ops) \<le> largest_limit c ops) ops"
    by (auto simp: list_all_iff intro: reload_limit_mono(2))
qed

lemma history_within_budget: "within_budget (largest_limit c ops) (run_ops ops (New c))"
  unfolding run_ops_def
  by (rule budget_machine.history_kept [OF largest_limit_bounds(2)])
    (simp add: New_def within_budget_def breaker_ok_def largest_limit_bounds(1))

text \<open>An admission that reserves a probe leaves the round within the limit in force.\<close>

lemma reserved_within_limit:
  assumes "AllowAdmissionWithGeneration now now' b = (Inr (True, g), t, b')"
  shows "state b' = StateHalfOpen \<and> probeInFlight b' + probeSuccesses b' \<le> probe_limit (cfg b')"
  using assms by (auto simp: AllowAdmissionWithGeneration_def allowAdmission_def
      split: if_splits prod.splits State.splits)

text \<open>
  C40. The recovery budget: through any history of calls, configuration reloads included, a half-open
  breaker never has more probes in flight and successful together than the largest limit any of the
  configurations set, its successes stay below the limit in force, and outside half-open it has
  none. The next admission that reserves a probe leaves them within the limit in force. (A
  reload that lowers the limit keeps the probes already in flight, so between it and the next
  reservation they may exceed the new limit, as the witness shows.)
\<close>

theorem probe_budget_kept:
  "let b = run_ops ops (New c) in
    0 \<le> probeInFlight b \<and> 0 \<le> probeSuccesses b
    \<and> (if state b = StateHalfOpen then probeInFlight b + probeSuccesses b \<le> largest_limit c ops
         \<and> probeSuccesses b < probe_limit (cfg b)
       else probeInFlight b = 0 \<and> probeSuccesses b = 0)
    \<and> (case AllowAdmissionWithGeneration now now' b of
         (Inr (True, _), _, b') \<Rightarrow> state b' = StateHalfOpen
           \<and> probeInFlight b' + probeSuccesses b' \<le> probe_limit (cfg b')
       | _ \<Rightarrow> True)"
proof -
  define b where "b = run_ops ops (New c)"
  have "case AllowAdmissionWithGeneration now now' b of
         (Inr (True, _), _, b') \<Rightarrow> state b' = StateHalfOpen
           \<and> probeInFlight b' + probeSuccesses b' \<le> probe_limit (cfg b')
       | _ \<Rightarrow> True"
    using reserved_within_limit [of now now' b] by (auto split: prod.split sum.split bool.split)
  with history_within_budget [of c ops] show ?thesis
    unfolding b_def [symmetric] by (auto simp: within_budget_def breaker_ok_def Let_def)
qed

text \<open>Without a reload the bound is the limit in force.\<close>

lemma no_reload_limit:
  assumes "list_all (\<lambda>p. \<not> is_set_config p) ops"
  shows "largest_limit c ops = probe_limit c"
  using assms unfolding largest_limit_def
proof (induction ops)
  case (Cons p ops)
  then show ?case by (cases p) simp_all
qed simp

text \<open>
  No history of calls, configuration reloads included, leaves a half-open round that can
  never close: the successes already seen stay below the limit then in force, so capacity is
  withheld only by probes still in flight.
\<close>

theorem half_open_round_can_continue:
  "let b = run_ops ops (New c) in
    state b = StateHalfOpen \<longrightarrow> probeSuccesses b < probe_limit (cfg b) \<and> 0 \<le> probeInFlight b"
proof -
  have "breaker_ok (run_ops ops (New c))"
  proof -
    have "breaker_ok (New c)" by (simp add: New_def breaker_ok_def)
    then show ?thesis unfolding run_ops_def by (intro round_machine.history_kept) (simp_all add: list_all_iff)
  qed
  then show ?thesis by (auto simp: breaker_ok_def Let_def)
qed

text \<open>A trip, a round of limit three with one probe through, a reload that lowers the limit to two.\<close>

lemma half_open_round_can_continue_witness:
  "let b = run_ops [OpRecord 5 4 False False 0, OpAdmit 30 30, OpAdmit 31 31, OpRecord 40 30 True True 1,
       OpSetConfig \<lparr>Enabled = True, Window = 100, MinFailures = 1, RatioNum = 1, RatioShift = 1,
             Cooldown = 20, MaxCooldown = 50, ProbeSuccesses = 2\<rparr>]
      (New \<lparr>Enabled = True, Window = 100, MinFailures = 1, RatioNum = 1, RatioShift = 1,
             Cooldown = 20, MaxCooldown = 50, ProbeSuccesses = 3\<rparr>) in
    probeSuccesses b < 2"
proof -
  let ?d = "\<lparr>Enabled = True, Window = 100, MinFailures = 1, RatioNum = 1, RatioShift = 1,
             Cooldown = 20, MaxCooldown = 50, ProbeSuccesses = 2\<rparr>"
  let ?c = "?d\<lparr>ProbeSuccesses := 3\<rparr>"
  let ?ops = "[OpRecord 5 4 False False 0, OpAdmit 30 30, OpAdmit 31 31, OpRecord 40 30 True True 1, OpSetConfig ?d]"
  have "state (run_ops ?ops (New ?c)) = StateHalfOpen" "probe_limit (cfg (run_ops ?ops (New ?c))) = 2"
    by code_simp+
  with half_open_round_can_continue [of ?ops ?c] show ?thesis by (simp add: Let_def)
qed


text \<open>A trip, a round of limit three with two probes out, a reload that lowers the limit to one.\<close>

lemma probe_budget_kept_witness:
  "let b = run_ops [OpRecord 5 4 False False 0, OpAdmit 30 30, OpAdmit 31 31,
       OpSetConfig \<lparr>Enabled = True, Window = 100, MinFailures = 1, RatioNum = 1, RatioShift = 1,
             Cooldown = 20, MaxCooldown = 50, ProbeSuccesses = 1\<rparr>]
      (New \<lparr>Enabled = True, Window = 100, MinFailures = 1, RatioNum = 1, RatioShift = 1,
             Cooldown = 20, MaxCooldown = 50, ProbeSuccesses = 3\<rparr>) in
    state b = StateHalfOpen \<and> probeInFlight b = 2 \<and> probe_limit (cfg b) = 1
    \<and> probeInFlight b + probeSuccesses b \<le> 3"
proof -
  let ?d = "\<lparr>Enabled = True, Window = 100, MinFailures = 1, RatioNum = 1, RatioShift = 1,
             Cooldown = 20, MaxCooldown = 50, ProbeSuccesses = 1\<rparr>"
  let ?c = "?d\<lparr>ProbeSuccesses := 3\<rparr>"
  let ?ops = "[OpRecord 5 4 False False 0, OpAdmit 30 30, OpAdmit 31 31, OpSetConfig ?d]"
  have "state (run_ops ?ops (New ?c)) = StateHalfOpen" "probeInFlight (run_ops ?ops (New ?c)) = 2"
    "probe_limit (cfg (run_ops ?ops (New ?c))) = 1" "largest_limit ?c ?ops = 3"
    by code_simp+
  with probe_budget_kept [where ops = ?ops and c = ?c] show ?thesis by (simp add: Let_def)
qed

section \<open>Open: no work before the deadline\<close>

fun clock_before :: "int \<Rightarrow> operation \<Rightarrow> bool" where
  "clock_before d (OpCapacity now) = (now < d)"
| "clock_before d (OpAllow now _) = (now < d)"
| "clock_before d (OpAdmit now _) = (now < d)"
| "clock_before d (OpSetConfig _) = False"
| "clock_before d _ = True"

lemma refresh_waits: "state b = StateOpen \<Longrightarrow> now < openUntil b \<Longrightarrow> refreshLocked now b = (None, b)"
  by (simp add: refreshLocked_def)

lemma record_open: "state b = StateOpen \<Longrightarrow> RecordAdmissionGeneration now st okay probe g b = (None, b)"
  by (simp add: RecordAdmissionGeneration_def)

lemma open_stays:
  assumes "state b = StateOpen" "Enabled (cfg b)" "clock_before (openUntil b) p"
  shows "state (apply_op p b) = StateOpen \<and> openUntil (apply_op p b) = openUntil b \<and> Enabled (cfg (apply_op p b))
    \<and> cooldown (apply_op p b) = cooldown b \<and> trips (apply_op p b) = trips b"
  using assms
  by (cases p) (simp_all add: capacity_breaker allow_breaker AllowAdmissionWithGeneration_def
      admission_breaker Let_def refresh_waits record_open ReleaseProbeGeneration_def Snapshot_def)

interpretation open_machine: operation_invariant apply_op "clock_before d"
    "\<lambda>b. state b = StateOpen \<and> Enabled (cfg b) \<and> openUntil b = d \<and> trips b = n" for d n
  by unfold_locales (use open_stays in blast)

text \<open>
  While the gate is open no work is admitted before the deadline, whatever is called: every
  history of admissions, outcomes, releases and status reads whose clock is before the deadline
  leaves the breaker open with the same deadline, and the next admission is refused.
\<close>

theorem open_refuses_until_deadline:
  assumes "Enabled (cfg b)" and "state b = StateOpen"
    and "list_all (clock_before (openUntil b)) ops" and "now < openUntil b"
  shows "fst (AllowAdmissionWithGeneration now now' (run_ops ops b)) = Inl (RetryingIn (max 0 (openUntil b - now')))
    \<and> state (run_ops ops b) = StateOpen \<and> openUntil (run_ops ops b) = openUntil b
    \<and> trips (run_ops ops b) = trips b"
proof -
  have "state (run_ops ops b) = StateOpen \<and> Enabled (cfg (run_ops ops b))
      \<and> openUntil (run_ops ops b) = openUntil b \<and> trips (run_ops ops b) = trips b"
    unfolding run_ops_def by (rule open_machine.history_kept) (use assms in simp_all)
  with assms(4) show ?thesis
    by (simp add: AllowAdmissionWithGeneration_def allowAdmission_def refresh_waits)
qed

definition sample_config :: Config where
  "sample_config = \<lparr>Enabled = True, Window = 100, MinFailures = 1, RatioNum = 1, RatioShift = 1,
     Cooldown = 20, MaxCooldown = 50, ProbeSuccesses = 2\<rparr>"

lemma open_refuses_until_deadline_witness:
  "fst (AllowAdmissionWithGeneration 24 24 (run_ops [OpAdmit 6 6, OpRecord 7 3 True False 0, OpSnapshot 99]
      (run_ops [OpRecord 5 4 False False 0] (New sample_config)))) = Inl (RetryingIn 1)"
proof -
  let ?b = "run_ops [OpRecord 5 4 False False 0] (New sample_config)"
  have "Enabled (cfg ?b)" "state ?b = StateOpen" "openUntil ?b = 25"
    by code_simp+
  with open_refuses_until_deadline [of ?b "[OpAdmit 6 6, OpRecord 7 3 True False 0, OpSnapshot 99]" 24 24]
  show ?thesis by simp
qed

section \<open>Half-open: backing off and recovering\<close>

lemma nextCooldown_min:
  "0 < cooldown b \<Longrightarrow> nextCooldown b =
    min (2 * cooldown b) (if MaxCooldown (cfg b) > 0 then MaxCooldown (cfg b) else max_duration)"
  by (auto simp: nextCooldown_def Let_def max_duration_def)

text \<open>
  A failed probe reopens the gate at once with the cooldown doubled and capped by the
  configured maximum (or by the 64-bit range when there is none): the deadline is the outcome's
  time plus that cooldown, and the reservation of every sibling probe is dropped.
\<close>

theorem failed_probe_reopens:
  assumes "Enabled (cfg b)" and "state b = StateHalfOpen" and "0 < cooldown b"
    and "startedAt \<noteq> 0" and "halfOpenAt b \<le> startedAt" and "g = 0 \<or> g = halfOpenGeneration b"
  shows "let b' = snd (RecordAdmissionGeneration now startedAt False True g b) in
    state b' = StateOpen \<and> trips b' = trips b + 1 \<and> probeInFlight b' = 0 \<and> probeSuccesses b' = 0
    \<and> openUntil b' = now + cooldown b'
    \<and> cooldown b' = min (2 * cooldown b)
         (if MaxCooldown (cfg b) > 0 then MaxCooldown (cfg b) else max_duration)"
proof (rule record_cases [of now startedAt False True g b])
  assume "snd (RecordAdmissionGeneration now startedAt False True g b)
    = snd (evaluateLocked now startedAt False (settle_probe now False b))"
  moreover have "nextCooldown (settle_probe now False b) = nextCooldown b"
    by (simp add: nextCooldown_def Let_def)
  ultimately show ?thesis
    using assms by (simp add: evaluate_half_open nextCooldown_min Let_def)
next
  assume same: "snd (RecordAdmissionGeneration now startedAt False True g b) = b"
  have "snd (RecordAdmissionGeneration now startedAt False True g b)
      = snd (evaluateLocked now startedAt False (settle_probe now False b))"
    using assms by (auto simp: RecordAdmissionGeneration_def settle_probe_def Let_def)
  then have "state (snd (RecordAdmissionGeneration now startedAt False True g b)) = StateOpen"
    using assms by (simp add: evaluate_half_open)
  with same assms(2) show ?thesis by simp
qed (use assms(2) in simp)

lemma failed_probe_reopens_witness:
  "let b = run_ops [OpRecord 5 4 False False 0, OpAdmit 30 30] (New sample_config);
       b' = snd (RecordAdmissionGeneration 33 31 False True 1 b) in
    state b' = StateOpen \<and> openUntil b' = 73 \<and> cooldown b' = 40"
proof -
  let ?b = "run_ops [OpRecord 5 4 False False 0, OpAdmit 30 30] (New sample_config)"
  have "Enabled (cfg ?b)" "state ?b = StateHalfOpen" "cooldown ?b = 20" "halfOpenAt ?b = 30"
    "halfOpenGeneration ?b = 1" "MaxCooldown (cfg ?b) = 50"
    by code_simp+
  with failed_probe_reopens [of ?b 31 1 33] show ?thesis by (simp add: Let_def)
qed

text \<open>One probe: an admission whose token travels with the execution to its successful outcome.\<close>

definition probe_round :: "int \<Rightarrow> Breaker \<Rightarrow> Breaker" where
  "probe_round t b = (case AllowAdmissionWithGeneration t t b of
     (Inr (probe, g), _, b') \<Rightarrow> snd (RecordAdmissionGeneration t t True probe g b')
   | (Inl _, _, b') \<Rightarrow> b')"

lemma probe_round_half_open:
  assumes "Enabled (cfg b)" "state b = StateHalfOpen" "probeInFlight b = 0" "0 \<le> probeSuccesses b"
    "probeSuccesses b < probe_limit (cfg b)" "t \<noteq> 0" "halfOpenAt b \<le> t"
  shows "let b' = probe_round t b in cfg b' = cfg b \<and>
    (if probeSuccesses b + 1 < probe_limit (cfg b)
     then state b' = StateHalfOpen \<and> probeInFlight b' = 0 \<and> probeSuccesses b' = probeSuccesses b + 1
       \<and> halfOpenAt b' = halfOpenAt b
     else state b' = StateClosed \<and> cooldown b' = Cooldown (cfg b) \<and> outcomes b' = [])"
proof -
  let ?b = "b\<lparr>probeInFlight := 1\<rparr>"
  have "AllowAdmissionWithGeneration t t b = (Inr (True, halfOpenGeneration b), None, ?b)"
    using assms by (simp add: AllowAdmissionWithGeneration_def allowAdmission_def refreshLocked_def)
  then have pr: "probe_round t b = snd (evaluateLocked t t True (settle_probe t True ?b))"
    using assms by (simp add: probe_round_def RecordAdmissionGeneration_def settle_probe_def Let_def)
  show ?thesis
    using assms unfolding pr by (auto simp: evaluate_half_open probe_limit_def Let_def)
qed

lemma probe_round_open:
  assumes "Enabled (cfg b)" "state b = StateOpen" "openUntil b \<le> t" "t \<noteq> 0"
  shows "probe_round t b = probe_round t (snd (refreshLocked t b))"
    "state (snd (refreshLocked t b)) = StateHalfOpen" "probeInFlight (snd (refreshLocked t b)) = 0"
    "probeSuccesses (snd (refreshLocked t b)) = 0" "halfOpenAt (snd (refreshLocked t b)) = t"
proof -
  show h: "state (snd (refreshLocked t b)) = StateHalfOpen" "probeInFlight (snd (refreshLocked t b)) = 0"
    "probeSuccesses (snd (refreshLocked t b)) = 0" "halfOpenAt (snd (refreshLocked t b)) = t"
    using assms by (simp_all add: refreshLocked_def Let_def)
  obtain tr b1 where b1: "refreshLocked t b = (tr, b1)" by (cases "refreshLocked t b")
  with h(1) have again: "refreshLocked t b1 = (None, b1)" by (simp add: refreshLocked_def)
  have "Enabled (cfg b1)" using b1 assms(1) by (metis refreshLocked_cfg snd_conv)
  then show "probe_round t b = probe_round t (snd (refreshLocked t b))"
    using assms(1) h(1) by (simp add: probe_round_def AllowAdmissionWithGeneration_def allowAdmission_def b1 again)
qed

lemma probe_rounds_close:
  assumes "Enabled (cfg b)" "state b = StateHalfOpen" "probeInFlight b = 0" "0 \<le> probeSuccesses b"
    "probe_limit (cfg b) = probeSuccesses b + int (Suc n)" "t \<noteq> 0" "halfOpenAt b \<le> t"
  shows "state ((probe_round t ^^ Suc n) b) = StateClosed \<and> cooldown ((probe_round t ^^ Suc n) b) = Cooldown (cfg b)
    \<and> outcomes ((probe_round t ^^ Suc n) b) = []"
  using assms
proof (induction n arbitrary: b)
  case 0
  then show ?case using probe_round_half_open [of b t] by (simp add: Let_def)
next
  case (Suc n)
  let ?b = "probe_round t b"
  from Suc.prems have "cfg ?b = cfg b" "state ?b = StateHalfOpen" "probeInFlight ?b = 0"
    "probeSuccesses ?b = probeSuccesses b + 1" "halfOpenAt ?b = halfOpenAt b"
    using probe_round_half_open [of b t] by (auto simp: Let_def)
  with Suc.IH [of ?b] Suc.prems show ?case by (simp add: funpow_swap1)
qed

text \<open>
  Recovery: once the deadline has passed, the configured number of probes that succeed one
  after the other closes the breaker, restores the base cooldown and starts an empty window;
  the first of them is admitted although the breaker was still open.
\<close>

theorem successful_probes_close:
  assumes "Enabled (cfg b)" and "state b = StateOpen" and "openUntil b \<le> t" and "t \<noteq> 0"
  shows "let b' = (probe_round t ^^ nat (probe_limit (cfg b))) b in
    state b' = StateClosed \<and> cooldown b' = Cooldown (cfg b) \<and> outcomes b' = []"
proof -
  let ?r = "snd (refreshLocked t b)"
  obtain n where n: "nat (probe_limit (cfg b)) = Suc n" "probe_limit (cfg b) = int (Suc n)"
    using probe_limit_pos [of "cfg b"] by (metis gr0_implies_Suc int_nat_eq less_le zero_less_nat_eq)
  have "(probe_round t ^^ Suc n) b = (probe_round t ^^ Suc n) ?r"
    using probe_round_open(1) [OF assms] by (simp add: funpow_swap1)
  moreover note probe_rounds_close [of ?r n t] probe_round_open [OF assms]
  ultimately show ?thesis using assms n by (simp add: Let_def)
qed

lemma successful_probes_close_witness:
  "let b = run_ops [OpRecord 5 4 False False 0] (New sample_config);
       b' = (probe_round 25 ^^ 2) b in state b = StateOpen \<and> state b' = StateClosed \<and> cooldown b' = 20"
proof -
  let ?b = "run_ops [OpRecord 5 4 False False 0] (New sample_config)"
  have "Enabled (cfg ?b)" "state ?b = StateOpen" "openUntil ?b = 25" "probe_limit (cfg ?b) = 2"
    "Cooldown (cfg ?b) = 20"
    by code_simp+
  with successful_probes_close [of ?b 25] show ?thesis by (simp add: Let_def)
qed

section \<open>Closed: the failure rate\<close>

lemma norm_shift_bound: "0 < f \<Longrightarrow> t \<le> f * 2 ^ norm_shift f t"
proof (induction f t rule: norm_shift.induct)
  case (1 f t)
  then show ?case by (subst norm_shift.simps) (simp add: mult.assoc mult.left_commute)
qed

lemma round_half_even_div_ge: "a div d \<le> round_half_even_div a d"
  by (simp add: round_half_even_div_def Let_def)

lemma float_quotient_ge:
  fixes n f t q :: int
  assumes "0 < t" and "n * t \<le> f * 2 ^ s" and "0 \<le> n" and "n < 2 ^ 53" and "0 < f"
    and "float_quotient f t = (q, k)"
  shows "n * 2 ^ k \<le> q * 2 ^ s"
proof -
  from assms(5,6) have k: "k = 52 + norm_shift f t" and qd: "q = round_half_even_div (f * 2 ^ k) t"
    by (auto simp: float_quotient_def Let_def)
  have q: "m \<le> q" if "m * t \<le> f * 2 ^ k" for m
  proof -
    have "m \<le> f * 2 ^ k div t" using zdiv_mono1 [OF that assms(1)] assms(1) by simp
    with round_half_even_div_ge [of "f * 2 ^ k" t] show ?thesis unfolding qd by linarith
  qed
  show ?thesis
  proof (cases "s \<le> k")
    case True
    then have split: "(2::int) ^ k = 2 ^ s * 2 ^ (k - s)" by (simp flip: power_add)
    have "n * t * 2 ^ (k - s) \<le> f * 2 ^ s * 2 ^ (k - s)"
      using assms(2) by (rule mult_right_mono) simp
    then have "n * 2 ^ (k - s) \<le> q" by (intro q) (simp add: split ac_simps)
    then have "n * 2 ^ (k - s) * 2 ^ s \<le> q * 2 ^ s" by (rule mult_right_mono) simp
    then show ?thesis by (simp add: split ac_simps)
  next
    case False
    have "2 ^ 52 * t \<le> 2 ^ 52 * (f * 2 ^ norm_shift f t)"
      using norm_shift_bound [OF assms(5), of t] by (intro mult_left_mono) simp_all
    then have q52: "2 ^ 52 \<le> q" by (intro q) (simp add: k power_add ac_simps)
    have "n * 2 ^ k \<le> 2 ^ 53 * 2 ^ k" using assms(4) by simp
    also have "\<dots> = 2 ^ 52 * 2 ^ Suc k" by simp
    also have "\<dots> \<le> q * 2 ^ s" using q52 False by (intro mult_mono power_increasing) auto
    finally show ?thesis .
  qed
qed

text \<open>
  The rounding of the failure rate never hides an outage: when the outcomes in the window,
  the new one included, hold at least the minimum of failures and their exact share reaches the
  configured 53-bit ratio, recording the outcome opens the gate.
\<close>

theorem failure_rate_opens:
  assumes "Enabled (cfg b)" and "state b = StateClosed" and "recoveryEpochAt b \<le> startedAt"
    and "0 \<le> RatioNum (cfg b)" and "RatioNum (cfg b) < 2 ^ 53" and "0 < MinFailures (cfg b)"
    and "countLocked (pruneLocked now (b\<lparr>outcomes := outcomes b @ [\<lparr>at = now, ok = okay\<rparr>]\<rparr>)) = (f, n)"
    and "MinFailures (cfg b) \<le> f" and "RatioNum (cfg b) * n \<le> f * 2 ^ RatioShift (cfg b)"
  shows "state (snd (RecordAdmissionGeneration now startedAt okay False g b)) = StateOpen"
proof -
  let ?b = "plain_outcome now okay b"
  have counts: "countLocked ?b = (f, n)" using assms(7) by (simp add: plain_outcome_def)
  then have fn: "0 < f" "f \<le> n" using assms(6,8) length_filter_le by (auto simp: countLocked_def)
  obtain q k where qk: "float_quotient f n = (q, k)" by (cases "float_quotient f n")
  with float_quotient_ge [of n "RatioNum (cfg b)" f "RatioShift (cfg b)" q k] fn assms(4,5,9)
  have "\<not> ratio_below f n (cfg b)" by (simp add: ratio_below_def)
  moreover have "snd (RecordAdmissionGeneration now startedAt okay False g b)
      = snd (evaluateLocked now startedAt okay ?b)"
    using assms(1-3) by (auto simp: RecordAdmissionGeneration_def plain_outcome_def Let_def)
  ultimately show ?thesis
    using assms(2,8) fn counts by (simp add: evaluate_closed)
qed

lemma failure_rate_opens_witness:
  "state (snd (RecordAdmissionGeneration 9 8 False False 0
      (run_ops [OpRecord 5 4 True False 0] (New sample_config)))) = StateOpen"
proof -
  let ?b = "run_ops [OpRecord 5 4 True False 0] (New sample_config)"
  have "Enabled (cfg ?b)" "state ?b = StateClosed" "recoveryEpochAt ?b = 0" "RatioNum (cfg ?b) = 1"
    "RatioShift (cfg ?b) = 1" "MinFailures (cfg ?b) = 1"
    "countLocked (pruneLocked 9 (?b\<lparr>outcomes := outcomes ?b @ [\<lparr>at = 9, ok = False\<rparr>]\<rparr>)) = (1, 2)"
    by code_simp+
  with failure_rate_opens [of ?b 8 9 False 1 2 0] show ?thesis by simp
qed

end
