(* ===== verification/Failure_Policy.thy ===== *)
theory Failure_Policy
  imports Prelude
begin

text \<open>
  What a failure means: the classification of errors at a boundary
  (\<open>internal/loops/failureclass\<close>), the GitHub error predicates it uses
  (\<open>internal/infra/github/errors.go\<close>), the resume-policy vocabulary
  (\<open>internal/loops/policy\<close>), the validation policy (\<open>internal/validation\<close>) and the fixer's
  mapping (\<open>internal/fixer/failurepolicy\<close>).

  A Go error is the tree of its wrapping: \<open>errors.Is\<close> and \<open>errors.As\<close> search the chain of
  \<open>Unwrap\<close>, and \<open>Error()\<close> renders it.
\<close>

section \<open>Errors\<close>

type_synonym Boundary = string

abbreviation BoundaryGitRemote :: string where "BoundaryGitRemote \<equiv> ''git_remote''"
abbreviation BoundaryGitLocal :: string where "BoundaryGitLocal \<equiv> ''git_local''"
abbreviation BoundaryGitHubAPI :: string where "BoundaryGitHubAPI \<equiv> ''github_api''"
abbreviation BoundaryModelProvider :: string where "BoundaryModelProvider \<equiv> ''model_provider''"
abbreviation BoundaryAgentProcess :: string where "BoundaryAgentProcess \<equiv> ''agent_process''"
abbreviation BoundaryLocalWorktree :: string where "BoundaryLocalWorktree \<equiv> ''local_worktree''"
abbreviation BoundaryStorage :: string where "BoundaryStorage \<equiv> ''storage''"
abbreviation BoundaryConfig :: string where "BoundaryConfig \<equiv> ''config''"
abbreviation BoundaryCheckpoint :: string where "BoundaryCheckpoint \<equiv> ''checkpoint''"
abbreviation BoundaryPolicy :: string where "BoundaryPolicy \<equiv> ''policy''"
abbreviation BoundaryUnknown :: string where "BoundaryUnknown \<equiv> ''unknown''"

type_synonym Kind = string

abbreviation RetryableTransient :: string where "RetryableTransient \<equiv> ''retryable_transient''"
abbreviation RetryableAfterResume :: string where "RetryableAfterResume \<equiv> ''retryable_after_resume''"
abbreviation NonRetryable :: string where "NonRetryable \<equiv> ''non_retryable''"
abbreviation ManualIntervention :: string where "ManualIntervention \<equiv> ''manual_intervention''"

type_synonym FailureCategory = string

abbreviation FailureNonZeroExit :: string where "FailureNonZeroExit \<equiv> ''non_zero_exit''"
abbreviation FailureSupervisorTimeout :: string where "FailureSupervisorTimeout \<equiv> ''supervisor_timeout''"
abbreviation FailureContextCanceled :: string where "FailureContextCanceled \<equiv> ''context_canceled''"
abbreviation FailureInfrastructure :: string where "FailureInfrastructure \<equiv> ''infrastructure''"

text \<open>
  \<open>Errorf text e\<close> is \<open>fmt.Errorf\<close> with a wrapped error and the rendered text; a command
  error carries message, category, standard output, standard error and the error it wraps, if any.
\<close>

datatype go_error =
    ErrNew string
  | Errorf string go_error
  | ErrStaticConfigMismatch
  | ContextCanceled
  | ContextDeadlineExceeded
  | BoundaryError Boundary go_error
  | TransientError go_error
  | CommandExecutionError string FailureCategory string string "go_error option"

fun error_text :: "go_error \<Rightarrow> string" where
  "error_text (ErrNew s) = s"
| "error_text (Errorf s _) = s"
| "error_text ErrStaticConfigMismatch = ''static configuration mismatch''"
| "error_text ContextCanceled = ''context canceled''"
| "error_text ContextDeadlineExceeded = ''context deadline exceeded''"
| "error_text (BoundaryError _ e) = error_text e"
| "error_text (TransientError e) = ''transient GitHub error: '' @ error_text e"
| "error_text (CommandExecutionError m _ _ _ _) = m"

fun unwrap_chain :: "go_error \<Rightarrow> go_error list" where
  "unwrap_chain (Errorf s e) = Errorf s e # unwrap_chain e"
| "unwrap_chain (BoundaryError b e) = BoundaryError b e # unwrap_chain e"
| "unwrap_chain (TransientError e) = TransientError e # unwrap_chain e"
| "unwrap_chain (CommandExecutionError m c out err (Some e)) =
     CommandExecutionError m c out err (Some e) # unwrap_chain e"
| "unwrap_chain e = [e]"

definition errors_is :: "go_error \<Rightarrow> go_error \<Rightarrow> bool" where
  "errors_is e target = list_ex (\<lambda>x. x = target) (unwrap_chain e)"

fun is_transient_wrapper :: "go_error \<Rightarrow> bool" where
  "is_transient_wrapper (TransientError _) = True"
| "is_transient_wrapper _ = False"

fun is_command_error :: "go_error \<Rightarrow> bool" where
  "is_command_error (CommandExecutionError _ _ _ _ _) = True"
| "is_command_error _ = False"

fun is_boundary_error :: "go_error \<Rightarrow> bool" where
  "is_boundary_error (BoundaryError _ _) = True"
| "is_boundary_error _ = False"

text \<open>\<open>errors.As\<close>: the first error of the chain with the target's type.\<close>

definition errors_as :: "(go_error \<Rightarrow> bool) \<Rightarrow> go_error \<Rightarrow> go_error option" where
  "errors_as is_type e = find is_type (unwrap_chain e)"

section \<open>GitHub errors\<close>

definition contains_any :: "string \<Rightarrow> string list \<Rightarrow> bool" where
  "contains_any message fragments = list_ex (\<lambda>fragment. contains message fragment) fragments"

definition looksLikeGitHubFailure :: "string \<Rightarrow> bool" where
  "looksLikeGitHubFailure message = contains_any (to_lower message)
     [''github'', ''api.github.com'', ''graphql'', ''gh api'', ''gh pr'']"

definition isTransientGitHubMessage :: "string \<Rightarrow> bool" where
  "isTransientGitHubMessage message = contains_any (to_lower message)
     [''tls handshake timeout'', ''unexpected eof'', ''connection reset by peer'',
      ''connection refused'', ''connection timed out'', ''i/o timeout'',
      ''temporary failure in name resolution'', ''no such host'', ''network is unreachable'',
      ''stream error'', ''http2: server sent goaway'', ''http 502'', ''502 bad gateway'',
      ''http 503'', ''503 service unavailable'', ''http 504'', ''504 gateway timeout'',
      ''secondary rate limit'', ''rate limit exceeded'', ''api rate limit exceeded'',
      ''graphql: something went wrong'']"

definition isExplicitTransientGitHubStatus :: "string \<Rightarrow> bool" where
  "isExplicitTransientGitHubStatus message = contains_any (to_lower message)
     [''http 502'', ''http 503'', ''http 504'', ''502 bad gateway'', ''503 service unavailable'',
      ''504 gateway timeout'', ''secondary rate limit'', ''rate limit exceeded'',
      ''api rate limit exceeded'']"

definition newline :: string where
  "newline = [CHR 0x0A]"

definition IsTransientError :: "go_error option \<Rightarrow> bool" where
  "IsTransientError err = (case err of
       None \<Rightarrow> False
     | Some e \<Rightarrow>
       (if errors_as is_transient_wrapper e \<noteq> None then True
        else (case errors_as is_command_error e of
            Some (CommandExecutionError msg category out errout _) \<Rightarrow>
              (if category = FailureSupervisorTimeout then True
               else (let message = join newline [msg, out, errout] in
                 (looksLikeGitHubFailure message \<and> isTransientGitHubMessage message)
                 \<or> isExplicitTransientGitHubStatus message))
          | _ \<Rightarrow> (let message = error_text e in
              if \<not> looksLikeGitHubFailure message \<and> \<not> isExplicitTransientGitHubStatus message then False
              else isTransientGitHubMessage message))))"

definition nonEmptyStrings :: "string list \<Rightarrow> string list" where
  "nonEmptyStrings values = filter (\<lambda>v. trim_space v \<noteq> []) values"

definition ErrorMessage :: "go_error option \<Rightarrow> string" where
  "ErrorMessage err = (case err of
       None \<Rightarrow> []
     | Some e \<Rightarrow> (case errors_as is_command_error e of
         Some (CommandExecutionError msg _ out errout _) \<Rightarrow>
           trim_space (join newline (nonEmptyStrings [msg, out, errout]))
       | _ \<Rightarrow> error_text e))"

definition IsAuthorizationError :: "go_error option \<Rightarrow> bool" where
  "IsAuthorizationError err = (case err of None \<Rightarrow> False
     | Some e \<Rightarrow> contains_any (to_lower (ErrorMessage (Some e)))
        [''http 401'', ''401 unauthorized'', ''bad credentials'', ''requires authentication'',
         ''http 403'', ''403 forbidden'', ''resource not accessible by integration'',
         ''resource not accessible by personal access token'', ''insufficient oauth scope'',
         ''insufficient scope''])"

definition isPullRequestNotFoundMessage :: "string \<Rightarrow> bool" where
  "isPullRequestNotFoundMessage message =
     contains (to_lower message) ''could not resolve to a pullrequest''"

definition IsPullRequestNotFoundError :: "go_error option \<Rightarrow> bool" where
  "IsPullRequestNotFoundError err = (case err of None \<Rightarrow> False
     | Some e \<Rightarrow> (case errors_as is_command_error e of
         Some (CommandExecutionError msg _ out errout _) \<Rightarrow>
           isPullRequestNotFoundMessage (join newline [msg, out, errout])
       | _ \<Rightarrow> isPullRequestNotFoundMessage (error_text e)))"

definition IsNotFoundError :: "go_error option \<Rightarrow> bool" where
  "IsNotFoundError err = (case err of None \<Rightarrow> False
     | Some e \<Rightarrow> (case errors_as is_command_error e of
         Some (CommandExecutionError msg _ out errout _) \<Rightarrow>
           (let message = to_lower (join newline [msg, out, errout])
            in contains message ''http 404'' \<or> contains message '' 404'')
       | _ \<Rightarrow> contains (to_lower (error_text e)) ''404''))"

definition IsInaccessibleReviewRequestReviewerError :: "go_error option \<Rightarrow> bool" where
  "IsInaccessibleReviewRequestReviewerError err = (case err of None \<Rightarrow> False
     | Some e \<Rightarrow> (let message = to_lower (ErrorMessage (Some e)) in
         contains message ''resource not accessible'' \<and> contains message ''reviewrequests''
         \<and> contains message ''requestedreviewer''))"

section \<open>Classification\<close>

definition WithBoundary :: "go_error option \<Rightarrow> Boundary \<Rightarrow> go_error option" where
  "WithBoundary err boundary = (case err of None \<Rightarrow> None | Some e \<Rightarrow> Some (BoundaryError boundary e))"

definition isExternalBoundary :: "Boundary \<Rightarrow> bool" where
  "isExternalBoundary boundary \<longleftrightarrow> boundary \<in> {BoundaryGitRemote, BoundaryGitHubAPI,
     BoundaryModelProvider, BoundaryAgentProcess}"

definition isInternalDeterministicBoundary :: "Boundary \<Rightarrow> bool" where
  "isInternalDeterministicBoundary boundary \<longleftrightarrow> boundary \<in> {BoundaryGitLocal, BoundaryStorage,
     BoundaryConfig, BoundaryCheckpoint, BoundaryPolicy}"

definition isManualWorktreeMessage :: "string \<Rightarrow> bool" where
  "isManualWorktreeMessage message \<longleftrightarrow> contains message ''dirty worktree''
     \<or> contains message ''worktree is dirty'' \<or> contains message ''uncommitted changes''
     \<or> contains message ''manual intervention required''"

definition isDeterministicDenial :: "string \<Rightarrow> bool" where
  "isDeterministicDenial message = contains_any message
     [''could not resolve to a pullrequest'', ''could not resolve to an issue'',
      ''protected branch'', ''branch protection'', ''policy denied'', ''checkpoint invariant'']"

definition isGitHubAPIDeterministicDenial :: "string \<Rightarrow> Boundary \<Rightarrow> bool" where
  "isGitHubAPIDeterministicDenial message boundary =
     (if boundary \<noteq> BoundaryGitHubAPI then False
      else contains_any message [''http 400'', ''http 422'', ''400 bad request'', ''422 unprocessable''])"

definition isRetryableGitHubGraphQLUnauthorized :: "string \<Rightarrow> bool" where
  "isRetryableGitHubGraphQLUnauthorized message =
     (if \<not> (contains message ''graphql'' \<and> contains message ''401'') then False
      else \<not> contains_any message [''bad credentials'', ''authentication failed'', ''permission denied'',
                                   ''not authorized'', ''invalid token'', ''token expired''])"

definition effective_boundary :: "go_error \<Rightarrow> Boundary \<Rightarrow> Boundary" where
  "effective_boundary e boundary =
     (if boundary = BoundaryUnknown
      then (case errors_as is_boundary_error e of
          Some (BoundaryError b _) \<Rightarrow> (if b \<noteq> [] then b else boundary)
        | _ \<Rightarrow> boundary)
      else boundary)"

definition failure_message :: "go_error \<Rightarrow> string" where
  "failure_message e = (let message = to_lower (ErrorMessage (Some e)) in
     if message = [] then to_lower (error_text e) else message)"

text \<open>Of the context only the boundary is read.\<close>

definition Classify :: "go_error option \<Rightarrow> Boundary \<Rightarrow> Kind" where
  "Classify err ctxBoundary = (case err of
       None \<Rightarrow> NonRetryable
     | Some e \<Rightarrow>
       (if errors_is e ErrStaticConfigMismatch then ManualIntervention
        else if errors_is e ContextCanceled \<or> errors_is e ContextDeadlineExceeded then RetryableTransient
        else if IsTransientError (Some e) then RetryableTransient
        else (let boundary = effective_boundary e ctxBoundary; message = failure_message e in
          if isManualWorktreeMessage message \<or> boundary = BoundaryLocalWorktree then ManualIntervention
          else if boundary = BoundaryGitHubAPI \<and> isRetryableGitHubGraphQLUnauthorized message
          then RetryableTransient
          else if isDeterministicDenial message \<or> isGitHubAPIDeterministicDenial message boundary
                  \<or> isInternalDeterministicBoundary boundary then NonRetryable
          else if isExternalBoundary boundary then RetryableTransient
          else NonRetryable)))"

section \<open>Resume policies\<close>

abbreviation FailureKindRetryableAfterResume :: string where "FailureKindRetryableAfterResume \<equiv> ''retryable_after_resume''"
abbreviation FailureKindManualIntervention :: string where "FailureKindManualIntervention \<equiv> ''manual_intervention''"
abbreviation FailureKindRetryableTransient :: string where "FailureKindRetryableTransient \<equiv> ''retryable_transient''"
abbreviation ResumePolicyAdvanceFromCheckpoint :: string where "ResumePolicyAdvanceFromCheckpoint \<equiv> ''advance_from_checkpoint''"
abbreviation ResumePolicyManualIntervention :: string where "ResumePolicyManualIntervention \<equiv> ''manual_intervention''"
abbreviation ResumePolicyReplayStep :: string where "ResumePolicyReplayStep \<equiv> ''replay_step''"
abbreviation ResumePolicyRestartFromDiscover :: string where "ResumePolicyRestartFromDiscover \<equiv> ''restart_from_discover''"

definition NormalizeResumePolicy :: "string \<Rightarrow> string \<Rightarrow> string" where
  "NormalizeResumePolicy failureKind resumePolicy = (let existing = trim_space resumePolicy in
     if existing \<noteq> [] then existing
     else if trim_space failureKind = FailureKindRetryableAfterResume then ResumePolicyAdvanceFromCheckpoint
     else if trim_space failureKind = FailureKindManualIntervention then ResumePolicyManualIntervention
     else ResumePolicyReplayStep)"

definition IsManualHoldResumePolicy :: "string \<Rightarrow> bool" where
  "IsManualHoldResumePolicy resumePolicy \<longleftrightarrow> trim_space resumePolicy = ResumePolicyManualIntervention"

definition IsHardHold :: "string \<Rightarrow> string \<Rightarrow> bool" where
  "IsHardHold failureKind resumePolicy =
     (if IsManualHoldResumePolicy resumePolicy then True
      else trim_space failureKind = FailureKindManualIntervention)"

definition SuppressesAutonomousRecovery :: "string \<Rightarrow> string \<Rightarrow> bool" where
  "SuppressesAutonomousRecovery failureKind resumePolicy = IsHardHold failureKind resumePolicy"

definition PolicyShouldRestartFromDiscover :: "string \<Rightarrow> string \<Rightarrow> bool" where
  "PolicyShouldRestartFromDiscover status resumePolicy =
     (if status \<noteq> ''failed'' \<and> status \<noteq> ''interrupted'' then False
      else trim_space resumePolicy = ResumePolicyRestartFromDiscover)"

section \<open>Validation and the fixer's mapping\<close>

record Policy =
  PolFailureKind :: string
  PolResumePolicy :: string

definition PolicyFor :: "FailureCategory \<Rightarrow> Policy" where
  "PolicyFor category =
     (if category = FailureContextCanceled
      then \<lparr>PolFailureKind = FailureKindRetryableAfterResume, PolResumePolicy = ResumePolicyReplayStep\<rparr>
      else if category = FailureSupervisorTimeout \<or> category = FailureInfrastructure
      then \<lparr>PolFailureKind = FailureKindRetryableTransient, PolResumePolicy = ResumePolicyReplayStep\<rparr>
      else if category = FailureNonZeroExit
      then \<lparr>PolFailureKind = FailureKindManualIntervention, PolResumePolicy = ResumePolicyManualIntervention\<rparr>
      else \<lparr>PolFailureKind = FailureKindManualIntervention, PolResumePolicy = ResumePolicyManualIntervention\<rparr>)"

record Decision =
  DecKind :: Kind
  DecResumePolicy :: string
  DecMessage :: string

definition ClassifyError :: "go_error option \<Rightarrow> Boundary \<Rightarrow> Decision" where
  "ClassifyError err boundary = (case err of
       None \<Rightarrow> \<lparr>DecKind = NonRetryable, DecResumePolicy = [], DecMessage = []\<rparr>
     | Some e \<Rightarrow> (let message = error_text e;
           decide = (\<lambda>k. \<lparr>DecKind = k, DecResumePolicy = [], DecMessage = message\<rparr>) in
         if errors_is e ErrStaticConfigMismatch then decide ManualIntervention
         else if contains (to_lower message) ''remote head changed'' then decide RetryableAfterResume
         else if errors_is e ContextCanceled \<or> errors_is e ContextDeadlineExceeded
         then decide RetryableTransient
         else if IsTransientError (Some e) then decide RetryableTransient
         else decide (Classify (Some e) boundary)))"

definition BoundaryForStep :: "string \<Rightarrow> Boundary" where
  "BoundaryForStep step =
     (if step \<in> {''discover-pr'', ''claim-pr'', ''collect-fixes'', ''resolve-comments'', ''recheck''}
      then BoundaryGitHubAPI
      else if step \<in> {''prepare-worktree'', ''push''} then BoundaryGitRemote
      else if step = ''repair'' then BoundaryModelProvider
      else if step \<in> {''validate'', ''reconcile-commits''} then BoundaryAgentProcess
      else BoundaryUnknown)"

definition ClassifyValidation :: "FailureCategory \<Rightarrow> string \<Rightarrow> Decision" where
  "ClassifyValidation category summary = (let message = trim_space summary;
       message' = (if message = [] then ''Validation failed'' else message);
       pol = PolicyFor category in
     \<lparr>DecKind = PolFailureKind pol, DecResumePolicy = PolResumePolicy pol, DecMessage = message'\<rparr>)"

section \<open>Facts\<close>

lemma errors_as_BoundaryError [simp]:
  "\<not> P (BoundaryError b e) \<Longrightarrow> errors_as P (BoundaryError b e) = errors_as P e"
  by (simp add: errors_as_def)

lemma errors_is_BoundaryError [simp]:
  "\<not> is_boundary_error t \<Longrightarrow> errors_is (BoundaryError b e) t = errors_is e t"
  by (auto simp: errors_is_def)

lemma IsTransientError_BoundaryError: "IsTransientError (Some (BoundaryError b e)) = IsTransientError (Some e)"
  by (simp add: IsTransientError_def cong: option.case_cong go_error.case_cong)

lemma failure_message_BoundaryError: "failure_message (BoundaryError b e) = failure_message e"
proof -
  have "ErrorMessage (Some (BoundaryError b e)) = ErrorMessage (Some e)"
    by (simp add: ErrorMessage_def cong: option.case_cong go_error.case_cong)
  then show ?thesis by (simp add: failure_message_def)
qed

text \<open>
  A static configuration mismatch anywhere in the wrapping of an error is held for a human
  at every boundary, by the shared classifier and by the fixer's: no wrapping by boundary,
  command or transient markers turns it into a retry.
\<close>

theorem static_mismatch_never_retried:
  assumes "errors_is e ErrStaticConfigMismatch"
  shows "Classify (Some e) boundary = ManualIntervention
    \<and> DecKind (ClassifyError (Some e) boundary) = ManualIntervention"
  using assms by (simp add: Classify_def ClassifyError_def Let_def)

lemma static_mismatch_never_retried_witness:
  "Classify (Some (TransientError (BoundaryError BoundaryGitRemote
      (Errorf ''push: http 503'' ErrStaticConfigMismatch)))) BoundaryGitHubAPI = ManualIntervention"
proof -
  have "errors_is (TransientError (BoundaryError BoundaryGitRemote
      (Errorf ''push: http 503'' ErrStaticConfigMismatch))) ErrStaticConfigMismatch" by code_simp
  then show ?thesis by (simp add: static_mismatch_never_retried)
qed

text \<open>
  Marking an error with a boundary adds exactly that information: where the context already
  knows its boundary the classification is unchanged, and where it does not, it is the
  classification of the plain error at the marked boundary.
\<close>

theorem with_boundary_classified:
  assumes "b \<noteq> []" and "b \<noteq> BoundaryUnknown"
  shows "Classify (WithBoundary (Some e) b) boundary
    = Classify (Some e) (if boundary = BoundaryUnknown then b else boundary)"
proof -
  have "effective_boundary (BoundaryError b e) boundary
      = effective_boundary e (if boundary = BoundaryUnknown then b else boundary)"
    using assms by (auto simp: effective_boundary_def errors_as_def)
  then show ?thesis
    by (simp add: WithBoundary_def Classify_def IsTransientError_BoundaryError
        failure_message_BoundaryError)
qed

lemma with_boundary_classified_witness:
  "Classify (WithBoundary (Some (ErrNew ''exit status 128'')) BoundaryGitRemote) BoundaryUnknown
   = RetryableTransient"
proof -
  have "Classify (Some (ErrNew ''exit status 128'')) BoundaryGitRemote = RetryableTransient"
    by code_simp
  then show ?thesis by (simp add: with_boundary_classified)
qed

text \<open>
  When the classifier retries: only errors that were cancelled, timed out, transient at
  GitHub, or that come from an external boundary without a deterministic denial; an internal
  boundary is never a reason to retry, and the classifier itself never asks for a resume.
\<close>

theorem classify_retry_reasons:
  assumes "Classify (Some e) boundary \<noteq> ManualIntervention"
    and "Classify (Some e) boundary \<noteq> NonRetryable"
  shows "Classify (Some e) boundary = RetryableTransient
    \<and> \<not> errors_is e ErrStaticConfigMismatch
    \<and> (errors_is e ContextCanceled \<or> errors_is e ContextDeadlineExceeded \<or> IsTransientError (Some e)
       \<or> (isExternalBoundary (effective_boundary e boundary)
          \<and> \<not> isManualWorktreeMessage (failure_message e)
          \<and> (isDeterministicDenial (failure_message e)
              \<longrightarrow> isRetryableGitHubGraphQLUnauthorized (failure_message e))))"
  using assms unfolding Classify_def option.case Let_def
  by (simp split: if_splits) (auto simp: isExternalBoundary_def)

lemma classify_retry_reasons_witness:
  "Classify (Some (ErrNew ''boom'')) BoundaryAgentProcess = RetryableTransient
   \<and> \<not> isManualWorktreeMessage (failure_message (ErrNew ''boom''))"
proof -
  have "Classify (Some (ErrNew ''boom'')) BoundaryAgentProcess = RetryableTransient"
    "\<not> errors_is (ErrNew ''boom'') ContextCanceled" "\<not> errors_is (ErrNew ''boom'') ContextDeadlineExceeded"
    "\<not> IsTransientError (Some (ErrNew ''boom''))"
    by code_simp+
  with classify_retry_reasons [of "ErrNew ''boom''" BoundaryAgentProcess] show ?thesis by simp
qed

lemma trim_space_words [simp]:
  "trim_space ''retryable_after_resume'' = ''retryable_after_resume''"
  "trim_space ''manual_intervention'' = ''manual_intervention''"
  "trim_space ''retryable_transient'' = ''retryable_transient''"
  "trim_space ''advance_from_checkpoint'' = ''advance_from_checkpoint''"
  "trim_space ''replay_step'' = ''replay_step''"
  by code_simp+

text \<open>
  Normalising a resume policy neither creates nor loses a hold: the failure is held before
  exactly when it is held after, normalising twice changes nothing, and a failed validation is
  held exactly when its category is none of cancellation, timeout and infrastructure.
\<close>

theorem hold_preserved:
  "IsHardHold k (NormalizeResumePolicy k p) = IsHardHold k p
   \<and> NormalizeResumePolicy k (NormalizeResumePolicy k p) = NormalizeResumePolicy k p
   \<and> (IsHardHold (DecKind (ClassifyValidation c s)) (DecResumePolicy (ClassifyValidation c s))
        \<longleftrightarrow> c \<notin> {FailureContextCanceled, FailureSupervisorTimeout, FailureInfrastructure})"
proof (intro conjI)
  show "IsHardHold k (NormalizeResumePolicy k p) = IsHardHold k p"
    by (simp add: IsHardHold_def IsManualHoldResumePolicy_def NormalizeResumePolicy_def Let_def)
  show "NormalizeResumePolicy k (NormalizeResumePolicy k p) = NormalizeResumePolicy k p"
    by (simp add: NormalizeResumePolicy_def Let_def)
  show "IsHardHold (DecKind (ClassifyValidation c s)) (DecResumePolicy (ClassifyValidation c s))
        \<longleftrightarrow> c \<notin> {FailureContextCanceled, FailureSupervisorTimeout, FailureInfrastructure}"
    by (simp add: ClassifyValidation_def PolicyFor_def IsHardHold_def IsManualHoldResumePolicy_def Let_def)
qed

end
