(* ===== verification/Pipelines.thy ===== *)
theory Pipelines
  imports Domain Failure_Policy
begin

text \<open>
  The step pipelines of the fixer, worker and reviewer (\<open>internal/fixer/workflow\<close>,
  \<open>internal/worker/workflow\<close>, \<open>internal/reviewer/workflow\<close>): the ordered sequence of steps
  and the decision where a new run starts relative to its predecessor. The three packages carry
  the same traversal code over their own sequence; it is defined once with the sequence as an
  argument. A step is a string, and the empty string is no step, as in the code.
\<close>

section \<open>Traversal\<close>

text \<open>
  \<open>From\<close> starts at the first occurrence and defaults to index 0; \<open>Next\<close> skips a match at
  the last position and \<open>Previous\<close> one at the first.
\<close>

fun start_index :: "string list \<Rightarrow> string \<Rightarrow> nat option" where
  "start_index [] start = None"
| "start_index (s # ss) start = (if s = start then Some 0 else map_option Suc (start_index ss start))"

definition steps_from :: "string list \<Rightarrow> string \<Rightarrow> string list" where
  "steps_from steps start = drop (case start_index steps start of Some i \<Rightarrow> i | None \<Rightarrow> 0) steps"

definition steps_reach :: "string list \<Rightarrow> string \<Rightarrow> string \<Rightarrow> bool" where
  "steps_reach steps start target = list_ex (\<lambda>step. step = target) (steps_from steps start)"

fun next_step :: "string list \<Rightarrow> string \<Rightarrow> string" where
  "next_step (s # t # rest) step = (if s = step then t else next_step (t # rest) step)"
| "next_step _ step = []"

fun previous_step :: "string list \<Rightarrow> string \<Rightarrow> string" where
  "previous_step (s # t # rest) step = (if t = step then s else previous_step (t # rest) step)"
| "previous_step _ step = []"

fun parse_step :: "string list \<Rightarrow> string \<Rightarrow> string" where
  "parse_step [] v = []"
| "parse_step (s # ss) v = (if s = v then s else parse_step ss v)"

section \<open>The fixer\<close>

abbreviation StepDiscoverPR :: string where "StepDiscoverPR \<equiv> ''discover-pr''"
abbreviation StepPrepareWorktree :: string where "StepPrepareWorktree \<equiv> ''prepare-worktree''"

definition fixer_sequence :: "string list" where
  "fixer_sequence = [''discover-pr'', ''claim-pr'', ''collect-fixes'', ''prepare-worktree'', ''repair'',
     ''reconcile-commits'', ''validate'', ''push'', ''resolve-comments'', ''recheck'']"

definition fixer_reaches :: "string \<Rightarrow> string \<Rightarrow> bool" where
  "fixer_reaches start target = steps_reach fixer_sequence start target"
definition fixer_from :: "string \<Rightarrow> string list" where
  "fixer_from start = steps_from fixer_sequence start"
definition fixer_next :: "string \<Rightarrow> string" where
  "fixer_next step = next_step fixer_sequence step"
definition fixer_previous :: "string \<Rightarrow> string" where
  "fixer_previous step = previous_step fixer_sequence step"
definition fixer_parse :: "string \<Rightarrow> string" where
  "fixer_parse v = parse_step fixer_sequence v"

datatype FixerResumeMode = FixerFresh | FixerRestartDiscover | FixerResumePrepare | FixerAdvance

record FixerResumeDecision =
  FMode :: FixerResumeMode
  FStartStep :: string
  FResumed :: bool
  FStickyAgentSnapshot :: bool
  FLastCompletedStep :: string

definition fixer_DecideResume :: "string \<Rightarrow> string \<Rightarrow> bool \<Rightarrow> bool \<Rightarrow> FixerResumeDecision" where
  "fixer_DecideResume status lastCompleted restartFromDiscover resumeFromPrepare =
     (if status \<noteq> ''failed'' \<and> status \<noteq> ''interrupted''
      then \<lparr>FMode = FixerFresh, FStartStep = StepDiscoverPR, FResumed = False,
             FStickyAgentSnapshot = False, FLastCompletedStep = []\<rparr>
      else (let decision = \<lparr>FMode = FixerFresh, FStartStep = StepDiscoverPR, FResumed = False,
                 FStickyAgentSnapshot = True, FLastCompletedStep = []\<rparr> in
        if restartFromDiscover then decision\<lparr>FMode := FixerRestartDiscover\<rparr>
        else if resumeFromPrepare
        then decision\<lparr>FMode := FixerResumePrepare, FStartStep := StepPrepareWorktree,
               FResumed := True, FLastCompletedStep := fixer_previous StepPrepareWorktree\<rparr>
        else if lastCompleted \<noteq> [] \<and> fixer_next lastCompleted \<noteq> []
        then decision\<lparr>FMode := FixerAdvance, FStartStep := fixer_next lastCompleted,
               FResumed := True, FLastCompletedStep := lastCompleted\<rparr>
        else decision))"

section \<open>The worker\<close>

abbreviation StepPrepareWork :: string where "StepPrepareWork \<equiv> ''prepare-work''"
abbreviation StepExecute :: string where "StepExecute \<equiv> ''execute''"

definition worker_sequence :: "string list" where
  "worker_sequence = [''prepare-work'', ''prepare-worktree'', ''plan'', ''execute'', ''validate'', ''open-pr'']"

definition worker_reaches :: "string \<Rightarrow> string \<Rightarrow> bool" where
  "worker_reaches start target = steps_reach worker_sequence start target"
definition worker_from :: "string \<Rightarrow> string list" where
  "worker_from start = steps_from worker_sequence start"
definition worker_next :: "string \<Rightarrow> string" where
  "worker_next step = next_step worker_sequence step"
definition worker_previous :: "string \<Rightarrow> string" where
  "worker_previous step = previous_step worker_sequence step"
definition worker_parse :: "string \<Rightarrow> string" where
  "worker_parse v = parse_step worker_sequence v"

datatype WorkerResumeMode = WorkerFresh | WorkerRestart | WorkerReplayExecute | WorkerAdvance

record WorkerResumeDecision =
  WMode :: WorkerResumeMode
  WStartStep :: string
  WResumed :: bool
  WStickyAgentSnapshot :: bool
  WLastCompletedStep :: string

definition worker_DecideResume ::
    "string \<Rightarrow> string \<Rightarrow> bool \<Rightarrow> bool \<Rightarrow> bool \<Rightarrow> WorkerResumeDecision" where
  "worker_DecideResume status lastCompleted manualHold restartFromDiscover replayExecute =
     (if status \<noteq> ''failed'' \<and> status \<noteq> ''interrupted''
      then \<lparr>WMode = WorkerFresh, WStartStep = StepPrepareWork, WResumed = False,
             WStickyAgentSnapshot = False, WLastCompletedStep = []\<rparr>
      else (let decision = \<lparr>WMode = WorkerFresh, WStartStep = StepPrepareWork, WResumed = False,
                 WStickyAgentSnapshot = True, WLastCompletedStep = []\<rparr> in
        if manualHold \<or> lastCompleted = [] then decision
        else if restartFromDiscover then decision\<lparr>WMode := WorkerRestart\<rparr>
        else if replayExecute
        then decision\<lparr>WMode := WorkerReplayExecute, WStartStep := StepExecute,
               WResumed := True, WLastCompletedStep := worker_previous StepExecute\<rparr>
        else if worker_next lastCompleted \<noteq> []
        then decision\<lparr>WMode := WorkerAdvance, WStartStep := worker_next lastCompleted,
               WResumed := True, WLastCompletedStep := lastCompleted\<rparr>
        else decision))"

section \<open>The reviewer\<close>

abbreviation StepDiscover :: string where "StepDiscover \<equiv> ''discover''"
abbreviation StepThreadResolution :: string where "StepThreadResolution \<equiv> ''thread_resolution''"
abbreviation StepReview :: string where "StepReview \<equiv> ''review''"
abbreviation StepPublish :: string where "StepPublish \<equiv> ''publish''"
abbreviation ResumePolicyRerunReview :: string where "ResumePolicyRerunReview \<equiv> ''rerun_review''"

definition reviewer_sequence :: "string list" where
  "reviewer_sequence = [''discover'', ''filter'', ''claim'', ''snapshot'', ''worktree'',
     ''thread_resolution'', ''review'', ''publish'']"

definition reviewer_from :: "string \<Rightarrow> string list" where
  "reviewer_from start = steps_from reviewer_sequence start"
definition reviewer_next :: "string \<Rightarrow> string" where
  "reviewer_next step = next_step reviewer_sequence step"

definition reviewer_ShouldRestartFromDiscover :: "string \<Rightarrow> string \<Rightarrow> string \<Rightarrow> bool" where
  "reviewer_ShouldRestartFromDiscover status failedStep failureSummary =
     (if status \<noteq> ''failed'' \<and> status \<noteq> ''interrupted'' then False
      else if failedStep \<noteq> StepPublish \<and> failedStep \<noteq> StepReview \<and> failedStep \<noteq> StepThreadResolution
      then False
      else contains failureSummary ''PR head changed before publish''
        \<or> contains failureSummary ''PR head changed while reviewer was running''
        \<or> contains failureSummary ''review request removed before publish''
        \<or> contains failureSummary ''PR changed during thread reconciliation'')"

text \<open>A nil \<open>NeedsEligibilityRediscovery\<close> closure is \<open>None\<close>.\<close>

record ResumeInput =
  HasLatestRun :: bool
  LatestStatus :: string
  LastCompletedStep :: string
  FailedStep :: string
  CheckpointResumePolicy :: string
  FailureSummary :: string
  ManualLoop :: bool
  NeedsEligibilityRediscovery :: "(string \<Rightarrow> bool) option"

record ResumePlan =
  PStartStep :: string
  PResumed :: bool
  PStickySnapshot :: bool
  PCarryCheckpoint :: bool
  PInitialResumePolicy :: string
  PClearWorktreePreparedAt :: bool
  PCarryLastCompletedStep :: bool

definition PlanResume :: "ResumeInput \<Rightarrow> ResumePlan" where
  "PlanResume i = (let
      restartFromDiscover = (HasLatestRun i \<and>
        (CheckpointResumePolicy i = ResumePolicyRestartFromDiscover
         \<or> reviewer_ShouldRestartFromDiscover (LatestStatus i) (FailedStep i) (FailureSummary i)));
      rerunReview = (HasLatestRun i \<and> CheckpointResumePolicy i = ResumePolicyRerunReview);
      failedOrInterrupted = (HasLatestRun i \<and> (LatestStatus i = ''failed'' \<or> LatestStatus i = ''interrupted''));
      startStep = (if failedOrInterrupted
        then (if restartFromDiscover then StepDiscover
              else if rerunReview \<and> \<not> ManualLoop i then StepDiscover
              else if rerunReview then StepReview
              else if LastCompletedStep i \<noteq> []
              then (if reviewer_next (LastCompletedStep i) \<noteq> [] then reviewer_next (LastCompletedStep i)
                    else StepDiscover)
              else StepDiscover)
        else StepDiscover);
      startStep' = (if startStep \<noteq> StepDiscover \<and> \<not> ManualLoop i
          \<and> (case NeedsEligibilityRediscovery i of None \<Rightarrow> False | Some needs \<Rightarrow> needs startStep)
        then StepDiscover else startStep);
      resumed = (failedOrInterrupted \<and> startStep' \<noteq> StepDiscover);
      plan = \<lparr>PStartStep = startStep', PResumed = resumed, PStickySnapshot = failedOrInterrupted,
              PCarryCheckpoint = False, PInitialResumePolicy = ResumePolicyReplayStep,
              PClearWorktreePreparedAt = False, PCarryLastCompletedStep = False\<rparr>
    in if resumed
       then plan\<lparr>PCarryCheckpoint := True, PInitialResumePolicy := ResumePolicyAdvanceFromCheckpoint,
                 PClearWorktreePreparedAt := (startStep' = StepReview),
                 PCarryLastCompletedStep := (LastCompletedStep i \<noteq> [])\<rparr>
       else plan)"

definition NextResumePolicyOnFailure :: "string \<Rightarrow> string \<Rightarrow> string" where
  "NextResumePolicyOnFailure failureKind current =
     (if failureKind = FailureKindRetryableAfterResume
      then (if current \<noteq> ResumePolicyRestartFromDiscover \<and> current \<noteq> ResumePolicyRerunReview
            then ResumePolicyAdvanceFromCheckpoint else current)
      else if failureKind = FailureKindManualIntervention then ResumePolicyManualIntervention
      else if current = [] then ResumePolicyReplayStep
      else current)"

definition PreferInMemoryCheckpoint :: "string \<Rightarrow> bool \<Rightarrow> bool" where
  "PreferInMemoryCheckpoint currentResumePolicy pendingReviewMarkerMiss \<longleftrightarrow>
     currentResumePolicy = ResumePolicyRerunReview \<or> pendingReviewMarkerMiss"

definition CarryRestartFromDiscover :: "string \<Rightarrow> bool" where
  "CarryRestartFromDiscover currentResumePolicy \<longleftrightarrow> currentResumePolicy = ResumePolicyRestartFromDiscover"

section \<open>The contract of a pipeline\<close>

text \<open>
  What a runner relies on: an order of distinct, named steps; the run that starts at a step is
  the part of the order from it on, the whole order when the step is unknown; the next step is
  the successor in the order and none at the end.
\<close>

locale step_pipeline =
  fixes steps :: "string list"
    and run_from :: "string \<Rightarrow> string list"
    and after :: "string \<Rightarrow> string"
  assumes distinct_steps: "distinct steps"
    and named: "[] \<notin> set steps"
    and run_known: "steps = pre @ s # post \<Longrightarrow> run_from s = s # post"
    and run_unknown: "s \<notin> set steps \<Longrightarrow> run_from s = steps"
    and after_successor: "steps = pre @ s # t # post \<Longrightarrow> after s = t"
    and after_end: "steps = pre @ [s] \<Longrightarrow> after s = []"
    and after_unknown: "s \<notin> set steps \<Longrightarrow> after s = []"
begin

lemma after_cases:
  assumes "after s \<noteq> []"
  obtains pre post where "steps = pre @ s # after s # post"
proof -
  from assms after_unknown have "s \<in> set steps" by blast
  then obtain pre post where split: "steps = pre @ s # post" by (meson split_list)
  show ?thesis
  proof (cases post)
    case Nil
    with split assms after_end show ?thesis by blast
  next
    case (Cons t ts)
    with split after_successor [of pre s t ts] that [of pre ts] show ?thesis by simp
  qed
qed

lemma after_known: "after s \<noteq> [] \<Longrightarrow> s \<in> set steps \<and> after s \<in> set steps"
  by (erule after_cases) (metis Un_iff list.set_intros set_append)

text \<open>Resuming after a completed step runs exactly what was left: nothing twice, nothing skipped.\<close>

lemma resume_splits:
  assumes "after s \<noteq> []"
  shows "\<exists>done. steps = done @ run_from (after s) \<and> done \<noteq> [] \<and> last done = s
    \<and> set done \<inter> set (run_from (after s)) = {}"
proof -
  obtain pre post where split: "steps = pre @ s # after s # post" using assms by (rule after_cases)
  then have run: "run_from (after s) = after s # post"
    by (intro run_known [of "pre @ [s]"]) simp
  have "steps = (pre @ [s]) @ run_from (after s)" using split run by simp
  moreover have "set (pre @ [s]) \<inter> set (run_from (after s)) = {}"
    using distinct_steps split run by (metis calculation distinct_append)
  ultimately show ?thesis by (intro exI [of _ "pre @ [s]"]) simp
qed

lemma after_not_first: "after s \<noteq> [] \<Longrightarrow> after s \<noteq> hd steps"
  using distinct_steps by (elim after_cases) (metis distinct.simps(2) distinct_append hd_append2
      append_Nil hd_conv_nth in_set_conv_decomp list.sel(1) not_Cons_self2 list.set_intros disjoint_iff hd_in_set)

lemma run_shrinks: "after s \<noteq> [] \<Longrightarrow> length (run_from (after s)) < length (run_from s)"
  by (erule after_cases) (metis append_Cons append_Nil append_assoc length_Cons lessI run_known)

end

locale reversible_pipeline = step_pipeline +
  fixes before :: "string \<Rightarrow> string"
  assumes before_predecessor: "steps = pre @ s # t # post \<Longrightarrow> before t = s"
    and before_first: "steps = s # post \<Longrightarrow> before s = []"
begin

lemma before_after: "after s \<noteq> [] \<Longrightarrow> before (after s) = s"
  by (erule after_cases) (rule before_predecessor)

end

section \<open>The traversal code meets the contract\<close>

lemma start_index_split: "s \<notin> set pre \<Longrightarrow> start_index (pre @ s # post) s = Some (length pre)"
  by (induction pre) auto

lemma start_index_None: "s \<notin> set ss \<Longrightarrow> start_index ss s = None"
  by (induction ss) auto

lemma next_step_split: "s \<notin> set pre \<Longrightarrow> next_step (pre @ s # t # post) s = t"
  by (induction pre s rule: next_step.induct) auto

lemma next_step_end: "s \<notin> set pre \<Longrightarrow> next_step (pre @ [s]) s = []"
  by (induction pre s rule: next_step.induct) auto

lemma next_step_unknown: "s \<notin> set ss \<Longrightarrow> next_step ss s = []"
  by (induction ss s rule: next_step.induct) auto

lemma previous_step_split: "distinct (pre @ s # t # post) \<Longrightarrow> previous_step (pre @ s # t # post) t = s"
proof (induction pre)
  case (Cons p pre)
  then show ?case by (cases pre) auto
qed simp

lemma previous_step_first: "distinct (s # post) \<Longrightarrow> previous_step (s # post) s = []"
proof -
  have "s \<notin> set ss \<Longrightarrow> previous_step (r # ss) s = []" for r ss
    by (induction ss arbitrary: r) auto
  then show "distinct (s # post) \<Longrightarrow> previous_step (s # post) s = []" by simp
qed

lemma traversal_pipeline:
  assumes "distinct steps" and "[] \<notin> set steps"
  shows "step_pipeline steps (steps_from steps) (next_step steps)"
proof
  fix pre s post assume "steps = pre @ s # post"
  with assms(1) show "steps_from steps s = s # post" by (simp add: steps_from_def start_index_split)
next
  fix pre s t post assume "steps = pre @ s # t # post"
  with assms(1) show "next_step steps s = t" by (simp add: next_step_split)
next
  fix pre s assume "steps = pre @ [s]"
  with assms(1) show "next_step steps s = []" by (simp add: next_step_end)
qed (use assms in \<open>simp_all add: steps_from_def start_index_None next_step_unknown\<close>)

lemma traversal_reversible:
  assumes "distinct steps" and "[] \<notin> set steps"
  shows "reversible_pipeline steps (steps_from steps) (next_step steps) (previous_step steps)"
  unfolding reversible_pipeline_def reversible_pipeline_axioms_def
  using assms traversal_pipeline [OF assms] by (auto simp: previous_step_split previous_step_first)

interpretation fixer_steps: reversible_pipeline fixer_sequence fixer_from fixer_next fixer_previous
  unfolding fixer_from_def [abs_def] fixer_next_def [abs_def] fixer_previous_def [abs_def]
  by (rule traversal_reversible; code_simp)

interpretation worker_steps: reversible_pipeline worker_sequence worker_from worker_next worker_previous
  unfolding worker_from_def [abs_def] worker_next_def [abs_def] worker_previous_def [abs_def]
  by (rule traversal_reversible; code_simp)

interpretation reviewer_steps: step_pipeline reviewer_sequence reviewer_from reviewer_next
  unfolding reviewer_from_def [abs_def] reviewer_next_def [abs_def]
  by (rule traversal_pipeline; code_simp)

section \<open>Resuming\<close>

lemma fixer_prepare: "fixer_next (fixer_previous StepPrepareWorktree) = StepPrepareWorktree"
  "fixer_previous StepPrepareWorktree \<noteq> []" "hd fixer_sequence = StepDiscoverPR"
  "fixer_from StepDiscoverPR = fixer_sequence"
  by code_simp+

lemma worker_execute: "worker_next (worker_previous StepExecute) = StepExecute"
  "worker_previous StepExecute \<noteq> []" "hd worker_sequence = StepPrepareWork"
  "worker_from StepPrepareWork = worker_sequence"
  by code_simp+

lemma fixer_decision_cases:
  obtains (resume) mode s where "fixer_DecideResume status lastC restart prepare =
      \<lparr>FMode = mode, FStartStep = fixer_next s, FResumed = True, FStickyAgentSnapshot = True,
       FLastCompletedStep = s\<rparr>" "fixer_next s \<noteq> []" "status = ''failed'' \<or> status = ''interrupted''"
      "\<not> restart"
  | (fresh) mode where "fixer_DecideResume status lastC restart prepare =
      \<lparr>FMode = mode, FStartStep = StepDiscoverPR, FResumed = False,
       FStickyAgentSnapshot = (status = ''failed'' \<or> status = ''interrupted''), FLastCompletedStep = []\<rparr>"
proof (cases "(status = ''failed'' \<or> status = ''interrupted'') \<and> \<not> restart")
  case True
  then consider "prepare" | "\<not> prepare" "lastC \<noteq> []" "fixer_next lastC \<noteq> []"
    | "\<not> prepare" "\<not> (lastC \<noteq> [] \<and> fixer_next lastC \<noteq> [])" by blast
  then show ?thesis
  proof cases
    case 1
    with True show ?thesis
      by (intro that(1) [of FixerResumePrepare "fixer_previous StepPrepareWorktree"])
        (auto simp: fixer_DecideResume_def fixer_prepare)
  next
    case 2
    with True show ?thesis
      by (intro that(1) [of FixerAdvance lastC]) (auto simp: fixer_DecideResume_def)
  next
    case 3
    with True show ?thesis
      by (intro that(2) [of FixerFresh]) (auto simp: fixer_DecideResume_def)
  qed
next
  case False
  then show ?thesis
    by (intro that(2) [of "if status \<noteq> ''failed'' \<and> status \<noteq> ''interrupted'' then FixerFresh else FixerRestartDiscover"])
      (auto simp: fixer_DecideResume_def Let_def)
qed

lemma worker_decision_cases:
  obtains (resume) mode s where "worker_DecideResume status lastC hold restart replay =
      \<lparr>WMode = mode, WStartStep = worker_next s, WResumed = True, WStickyAgentSnapshot = True,
       WLastCompletedStep = s\<rparr>" "worker_next s \<noteq> []" "status = ''failed'' \<or> status = ''interrupted''"
      "\<not> restart" "\<not> hold"
  | (fresh) mode where "worker_DecideResume status lastC hold restart replay =
      \<lparr>WMode = mode, WStartStep = StepPrepareWork, WResumed = False,
       WStickyAgentSnapshot = (status = ''failed'' \<or> status = ''interrupted''), WLastCompletedStep = []\<rparr>"
proof (cases "(status = ''failed'' \<or> status = ''interrupted'') \<and> \<not> (hold \<or> lastC = []) \<and> \<not> restart")
  case True
  then consider "replay" | "\<not> replay" "worker_next lastC \<noteq> []" | "\<not> replay" "worker_next lastC = []"
    by blast
  then show ?thesis
  proof cases
    case 1
    with True show ?thesis
      by (intro that(1) [of WorkerReplayExecute "worker_previous StepExecute"])
        (auto simp: worker_DecideResume_def worker_execute)
  next
    case 2
    with True show ?thesis
      by (intro that(1) [of WorkerAdvance lastC]) (auto simp: worker_DecideResume_def)
  next
    case 3
    with True show ?thesis
      by (intro that(2) [of WorkerFresh]) (auto simp: worker_DecideResume_def)
  qed
next
  case False
  then show ?thesis
    by (intro that(2) [of "if status \<noteq> ''failed'' \<and> status \<noteq> ''interrupted'' \<or> hold \<or> lastC = []
          then WorkerFresh else WorkerRestart"])
      (auto simp: worker_DecideResume_def Let_def)
qed

text \<open>
  Where a fixer run starts: either at the first step with nothing recorded as completed, or
  it is a continuation of a failed or interrupted run without a restart signal, whose steps are
  exactly those of the pipeline after the recorded completed step; none is repeated or skipped.
\<close>

theorem fixer_resume_exact:
  "let d = fixer_DecideResume status lastC restart prepare in
    if FResumed d
    then (status = ''failed'' \<or> status = ''interrupted'') \<and> \<not> restart \<and> FStartStep d \<noteq> StepDiscoverPR
      \<and> (\<exists>done. fixer_sequence = done @ fixer_from (FStartStep d) \<and> done \<noteq> []
           \<and> last done = FLastCompletedStep d \<and> set done \<inter> set (fixer_from (FStartStep d)) = {})
    else fixer_from (FStartStep d) = fixer_sequence \<and> FLastCompletedStep d = []"
proof (rule fixer_decision_cases [of status lastC restart prepare])
  fix mode s
  assume "fixer_DecideResume status lastC restart prepare =
      \<lparr>FMode = mode, FStartStep = fixer_next s, FResumed = True, FStickyAgentSnapshot = True,
       FLastCompletedStep = s\<rparr>" "fixer_next s \<noteq> []" "status = ''failed'' \<or> status = ''interrupted''" "\<not> restart"
  then show ?thesis
    using fixer_steps.resume_splits [of s] fixer_steps.after_not_first [of s] by (simp add: fixer_prepare)
qed (simp add: fixer_prepare)

text \<open>
  Where a worker run starts: at the first step, or as a continuation of a failed or
  interrupted run that is neither held for a human nor to be rediscovered, running exactly the
  steps after the recorded completed one.
\<close>

theorem worker_resume_exact:
  "let d = worker_DecideResume status lastC hold restart replay in
    if WResumed d
    then (status = ''failed'' \<or> status = ''interrupted'') \<and> \<not> hold \<and> \<not> restart
      \<and> WStartStep d \<noteq> StepPrepareWork
      \<and> (\<exists>done. worker_sequence = done @ worker_from (WStartStep d) \<and> done \<noteq> []
           \<and> last done = WLastCompletedStep d \<and> set done \<inter> set (worker_from (WStartStep d)) = {})
    else worker_from (WStartStep d) = worker_sequence \<and> WLastCompletedStep d = []"
proof (rule worker_decision_cases [of status lastC hold restart replay])
  fix mode s
  assume "worker_DecideResume status lastC hold restart replay =
      \<lparr>WMode = mode, WStartStep = worker_next s, WResumed = True, WStickyAgentSnapshot = True,
       WLastCompletedStep = s\<rparr>" "worker_next s \<noteq> []" "status = ''failed'' \<or> status = ''interrupted''"
    "\<not> restart" "\<not> hold"
  then show ?thesis
    using worker_steps.resume_splits [of s] worker_steps.after_not_first [of s] by (simp add: worker_execute)
qed (simp add: worker_execute)

text \<open>
  The reviewer's resume plan: a plan that resumes belongs to a failed or interrupted run with
  no rediscovery signal, starts at the successor of the last completed step or, only for a manual
  loop under the rerun policy, at the review itself, never where eligibility must be rediscovered
  first, and carries the checkpoint; every other plan starts at discover with a fresh checkpoint.
\<close>

theorem reviewer_resume_exact:
  "let p = PlanResume i in
    if PResumed p
    then HasLatestRun i \<and> (LatestStatus i = ''failed'' \<or> LatestStatus i = ''interrupted'')
      \<and> CheckpointResumePolicy i \<noteq> ResumePolicyRestartFromDiscover
      \<and> \<not> reviewer_ShouldRestartFromDiscover (LatestStatus i) (FailedStep i) (FailureSummary i)
      \<and> PStartStep p \<noteq> StepDiscover
      \<and> (if CheckpointResumePolicy i = ResumePolicyRerunReview
         then ManualLoop i \<and> PStartStep p = StepReview
         else PStartStep p = reviewer_next (LastCompletedStep i))
      \<and> (ManualLoop i \<or> (case NeedsEligibilityRediscovery i of None \<Rightarrow> True
           | Some needs \<Rightarrow> \<not> needs (PStartStep p)))
      \<and> PCarryCheckpoint p \<and> PInitialResumePolicy p = ResumePolicyAdvanceFromCheckpoint
    else PStartStep p = StepDiscover \<and> \<not> PCarryCheckpoint p \<and> \<not> PCarryLastCompletedStep p
      \<and> PInitialResumePolicy p = ResumePolicyReplayStep"
  unfolding PlanResume_def Let_def by (auto split: option.splits if_splits)

text \<open>
  The policy a reviewer failure leaves behind: it is never empty, recording the same failure
  again changes nothing, and it is a hold exactly when the failure is one for a human or an
  existing hold meets a failure that is not a resumable retry.
\<close>

theorem next_resume_policy_hold:
  "NextResumePolicyOnFailure k c \<noteq> []
   \<and> NextResumePolicyOnFailure k (NextResumePolicyOnFailure k c) = NextResumePolicyOnFailure k c
   \<and> (NextResumePolicyOnFailure k c = ResumePolicyManualIntervention \<longleftrightarrow>
        k = FailureKindManualIntervention
        \<or> (c = ResumePolicyManualIntervention \<and> k \<noteq> FailureKindRetryableAfterResume))"
  by (simp add: NextResumePolicyOnFailure_def)

text \<open>
  The domain's step vocabulary agrees with the pipelines for the fixer and the worker, and
  for the reviewer except for exactly two steps: the domain check rejects the steps
  \<open>worktree\<close> and \<open>thread_resolution\<close> that every reviewer run goes through.
\<close>

theorem pipeline_steps_known:
  "list_all (\<lambda>s. AssertStepBelongsToLoopType Fixer s = None) fixer_sequence
   \<and> list_all (\<lambda>s. AssertStepBelongsToLoopType Worker s = None) worker_sequence
   \<and> filter (\<lambda>s. AssertStepBelongsToLoopType Reviewer s \<noteq> None) reviewer_sequence
       = [''worktree'', StepThreadResolution]"
  by code_simp

end
