(* ===== verification/Store.thy ===== *)
theory Store
  imports Prelude "HOL-Library.Product_Lexorder"
begin

text \<open>
  The rows of the SQLite store (\<open>internal/storage/repositories.go\<close>) the queue and the loops
  work on, with the constraints of the schema, and what the queries use of SQL: \<open>NULL\<close> is
  \<open>None\<close>, comparisons with it are unknown and so select nothing (no query negates a comparison
  of nullable columns), \<open>ORDER BY ... LIMIT 1\<close> takes a first extremal row (SQL leaves the choice
  among equals open, and no result depends on it), and an \<open>UPDATE\<close> rewrites the selected rows in
  place and reports their number. Timestamps are ISO strings compared bytewise.
\<close>

section \<open>Rows\<close>

record ProjectRecord =
  ProjID :: string
  ProjName :: string
  ProjRepoPath :: string
  ProjBaseBranch :: "string option"
  ProjArchived :: bool
  ProjMetadataJSON :: "string option"
  ProjCreatedAt :: string
  ProjUpdatedAt :: string

record LoopRecord =
  LoopID :: string
  LoopSeq :: int
  LoopProjectID :: string
  LoopTyp :: string
  LoopTargetTyp :: string
  LoopTargetID :: "string option"
  LoopRepo :: "string option"
  LoopPRNumber :: "int option"
  LoopStat :: string
  LoopConfigJSON :: "string option"
  LoopMetadataJSON :: "string option"
  LoopLastRunAt :: "string option"
  LoopNextRunAt :: "string option"
  LoopCreatedAt :: string
  LoopUpdatedAt :: string

record RunRecord =
  RunID :: string
  RunLoopID :: string
  RunStat :: string
  RunCurrentStep :: "string option"
  RunLastCompletedStep :: "string option"
  RunCheckpointJSON :: "string option"
  RunSummary :: "string option"
  RunErrorMessage :: "string option"
  RunStartedAt :: string
  RunLastHeartbeatAt :: "string option"
  RunEndedAt :: "string option"
  RunCreatedAt :: string
  RunUpdatedAt :: string
  RunAgentSnapshotJSON :: "string option"
  RunSeq :: int

record QueueItemRecord =
  QID :: string
  QProjectID :: "string option"
  QLoopID :: "string option"
  QType :: string
  QTargetType :: string
  QTargetID :: string
  QRepo :: "string option"
  QPRNumber :: "int option"
  QDedupeKey :: string
  QPriority :: int
  QStatus :: string
  QAvailableAt :: string
  QAttempts :: int
  QMaxAttempts :: int
  QClaimedBy :: "string option"
  QClaimedAt :: "string option"
  QStartedAt :: "string option"
  QFinishedAt :: "string option"
  QLockKey :: "string option"
  QPayloadJSON :: "string option"
  QLastError :: "string option"
  QLastErrorKind :: "string option"
  QCreatedAt :: string
  QUpdatedAt :: string

record store =
  projects :: "ProjectRecord list"
  loops :: "LoopRecord list"
  runs :: "RunRecord list"
  queue :: "QueueItemRecord list"

abbreviation queued :: string where "queued \<equiv> ''queued''"
abbreviation running :: string where "running \<equiv> ''running''"
abbreviation completed :: string where "completed \<equiv> ''completed''"
abbreviation failed :: string where "failed \<equiv> ''failed''"
abbreviation cancelled :: string where "cancelled \<equiv> ''cancelled''"
abbreviation manual_intervention :: string where "manual_intervention \<equiv> ''manual_intervention''"

datatype store_error = CheckConstraint | UniqueActiveDedupe | ForeignKey | QueueItemNotActive
  | ActiveDedupeConflict string

section \<open>Query vocabulary\<close>

fun sql_eq :: "'a option \<Rightarrow> 'a option \<Rightarrow> bool" where
  "sql_eq (Some a) (Some b) = (a = b)"
| "sql_eq _ _ = False"

fun coalesce :: "'a option \<Rightarrow> 'a option \<Rightarrow> 'a option" where
  "coalesce (Some a) _ = Some a"
| "coalesce None b = b"

fun first_min :: "('a \<Rightarrow> 'k::linorder) \<Rightarrow> 'a list \<Rightarrow> 'a option" where
  "first_min f [] = None"
| "first_min f (x # xs) = (case first_min f xs of
     None \<Rightarrow> Some x | Some y \<Rightarrow> if f x \<le> f y then Some x else Some y)"

fun first_max :: "('a \<Rightarrow> 'k::linorder) \<Rightarrow> 'a list \<Rightarrow> 'a option" where
  "first_max f [] = None"
| "first_max f (x # xs) = (case first_max f xs of
     None \<Rightarrow> Some x | Some y \<Rightarrow> if f y \<le> f x then Some x else Some y)"

definition update_where :: "('a \<Rightarrow> bool) \<Rightarrow> ('a \<Rightarrow> 'a) \<Rightarrow> 'a list \<Rightarrow> 'a list" where
  "update_where P f rows = map (\<lambda>r. if P r then f r else r) rows"

definition affected :: "('a \<Rightarrow> bool) \<Rightarrow> 'a list \<Rightarrow> nat" where
  "affected P rows = length (filter P rows)"

definition find_loop :: "store \<Rightarrow> string \<Rightarrow> LoopRecord option" where
  "find_loop s k = find (\<lambda>l. LoopID l = k) (loops s)"

definition find_project :: "store \<Rightarrow> string \<Rightarrow> ProjectRecord option" where
  "find_project s k = find (\<lambda>p. ProjID p = k) (projects s)"

definition find_item :: "store \<Rightarrow> string \<Rightarrow> QueueItemRecord option" where
  "find_item s k = find (\<lambda>q. QID q = k) (queue s)"

text \<open>\<open>LEFT JOIN loops l ON l.id = qi.loop_id\<close>.\<close>

definition item_loop :: "store \<Rightarrow> QueueItemRecord \<Rightarrow> LoopRecord option" where
  "item_loop s q = Option.bind (QLoopID q) (find_loop s)"

section \<open>Constraints of the queue table\<close>

definition active_status :: "string \<Rightarrow> bool" where
  "active_status st \<longleftrightarrow> st = queued \<or> st = running"

definition row_checks :: "QueueItemRecord \<Rightarrow> bool" where
  "row_checks q \<longleftrightarrow>
     (case QPRNumber q of None \<Rightarrow> True | Some n \<Rightarrow> n > 0) \<and> QPriority q > 0 \<and> QAttempts q \<ge> 0
     \<and> (QMaxAttempts q = -1 \<or> QMaxAttempts q > 0)
     \<and> QStatus q \<in> {queued, running, completed, failed, cancelled, manual_intervention}
     \<and> (case QLastErrorKind q of None \<Rightarrow> True
        | Some k \<Rightarrow> k \<in> {''retryable_transient'', ''retryable_after_resume'', ''non_retryable'',
                        ''manual_intervention''})"

definition in_dedupe_index :: "QueueItemRecord \<Rightarrow> bool" where
  "in_dedupe_index q \<longleftrightarrow> (QType q = ''reviewer'' \<or> QType q = ''fixer'') \<and> active_status (QStatus q)"

definition active_dedupe_unique :: "QueueItemRecord list \<Rightarrow> bool" where
  "active_dedupe_unique rows = distinct (map QDedupeKey (filter in_dedupe_index rows))"

definition row_references :: "store \<Rightarrow> QueueItemRecord \<Rightarrow> bool" where
  "row_references s q \<longleftrightarrow>
     (case QProjectID q of None \<Rightarrow> True | Some p \<Rightarrow> find_project s p \<noteq> None)
     \<and> (case QLoopID q of None \<Rightarrow> True | Some l \<Rightarrow> find_loop s l \<noteq> None)"

text \<open>
  The statement's new queue table is kept when it meets the schema, and the first failing
  constraint is the error otherwise: row checks, the partial unique index, foreign keys.
\<close>

definition commit_queue :: "store \<Rightarrow> QueueItemRecord list \<Rightarrow> (store_error, store) result" where
  "commit_queue s rows =
     (if \<not> list_all row_checks rows then Inl CheckConstraint
      else if \<not> active_dedupe_unique rows then Inl UniqueActiveDedupe
      else if \<not> list_all (row_references s) rows then Inl ForeignKey
      else Inr (s\<lparr>queue := rows\<rparr>))"

definition queue_valid :: "store \<Rightarrow> bool" where
  "queue_valid s \<longleftrightarrow> distinct (map QID (queue s)) \<and> list_all row_checks (queue s)
     \<and> active_dedupe_unique (queue s) \<and> list_all (row_references s) (queue s)"

section \<open>Facts\<close>

lemma first_min_None [simp]: "first_min f xs = None \<longleftrightarrow> xs = []"
  by (cases xs) (auto split: option.splits if_splits)

lemma first_min_Some: "first_min f xs = Some x \<Longrightarrow> x \<in> set xs \<and> (\<forall>y \<in> set xs. f x \<le> f y)"
  by (induction xs arbitrary: x) (force split: option.splits if_splits)+

lemma first_max_None [simp]: "first_max f xs = None \<longleftrightarrow> xs = []"
  by (cases xs) (auto split: option.splits if_splits)

lemma first_max_Some: "first_max f xs = Some x \<Longrightarrow> x \<in> set xs \<and> (\<forall>y \<in> set xs. f y \<le> f x)"
  by (induction xs arbitrary: x) (force split: option.splits if_splits)+

lemma set_update_where: "r' \<in> set (update_where P f rows) \<longleftrightarrow>
    (\<exists>r \<in> set rows. (P r \<and> r' = f r) \<or> (\<not> P r \<and> r' = r))"
  by (auto simp: update_where_def)

lemma map_update_where: "(\<And>r. P r \<Longrightarrow> g (f r) = g r) \<Longrightarrow> map g (update_where P f rows) = map g rows"
  by (auto simp: update_where_def)

lemma affected_zero [simp]: "affected P rows = 0 \<longleftrightarrow> (\<forall>r \<in> set rows. \<not> P r)"
  by (auto simp: affected_def filter_empty_conv)

lemma update_where_none: "affected P rows = 0 \<Longrightarrow> update_where P f rows = rows"
  by (auto simp: update_where_def intro: map_idI)

lemma update_where_no_match [simp]: "update_where (\<lambda>_. False) f rows = rows"
  by (simp add: update_where_def)

lemma commit_queue_Inr: "commit_queue s rows = Inr s' \<longleftrightarrow>
    s' = s\<lparr>queue := rows\<rparr> \<and> list_all row_checks rows \<and> active_dedupe_unique rows
    \<and> list_all (row_references s) rows"
  by (auto simp: commit_queue_def)

lemma find_loop_queue [simp]: "find_loop (s\<lparr>queue := rows\<rparr>) = find_loop s"
  "find_project (s\<lparr>queue := rows\<rparr>) = find_project s"
  by (auto simp: find_loop_def find_project_def)

lemma item_loop_queue [simp]: "item_loop (s\<lparr>queue := rows\<rparr>) = item_loop s"
  by (auto simp: item_loop_def)

lemma row_references_queue [simp]: "row_references (s\<lparr>queue := rows\<rparr>) = row_references s"
  by (rule ext) (simp add: row_references_def split: option.split)

lemma commit_queue_valid:
  assumes "commit_queue s rows = Inr s'" and "distinct (map QID rows)"
  shows "queue_valid s'"
  using assms by (auto simp: commit_queue_Inr queue_valid_def)

lemma distinct_ids_unique:
  "distinct (map QID rows) \<Longrightarrow> a \<in> set rows \<Longrightarrow> b \<in> set rows \<Longrightarrow> QID a = QID b \<Longrightarrow> a = b"
  by (auto simp: distinct_map inj_on_def)

lemma find_item_Some: "find_item s k = Some q \<Longrightarrow> q \<in> set (queue s) \<and> QID q = k"
  by (auto simp: find_item_def find_Some_iff)

end
