(* ===== verification/Queue_Store.thy ===== *)
theory Queue_Store
  imports Store
begin

text \<open>
  The queue of the scheduler (\<open>QueueRepository\<close> of \<open>internal/storage/repositories.go\<close>):
  insertion and deduplication, the eligibility predicate every claim shares, the claims, and the
  state changes of claimed items. Each statement is one step on the store; a failing constraint
  leaves the store as it was. The JSON functions of SQLite are a parameter: \<open>jv\<close> gives, for a
  snapshot text, \<open>None\<close> when it is not valid JSON and otherwise its trimmed \<open>$.vendor\<close>, empty
  when there is none.
\<close>

section \<open>Insertion\<close>

definition set_excluded :: "QueueItemRecord \<Rightarrow> QueueItemRecord \<Rightarrow> QueueItemRecord" where
  "set_excluded record old = record\<lparr>QCreatedAt := QCreatedAt old\<rparr>"

definition Upsert :: "QueueItemRecord \<Rightarrow> store \<Rightarrow> (store_error, store) result" where
  "Upsert record s =
     (if list_ex (\<lambda>q. QID q = QID record) (queue s)
      then commit_queue s (update_where (\<lambda>q. QID q = QID record) (set_excluded record) (queue s))
      else commit_queue s (queue s @ [record]))"

definition GetByID :: "store \<Rightarrow> string \<Rightarrow> QueueItemRecord option" where
  "GetByID s k = find_item s k"

definition GetLatestByLoopID :: "store \<Rightarrow> string \<Rightarrow> QueueItemRecord option" where
  "GetLatestByLoopID s loopID = first_max (\<lambda>q. (QUpdatedAt q, QCreatedAt q, QID q))
     (filter (\<lambda>q. QLoopID q = Some loopID) (queue s))"

definition FindActiveByDedupe :: "store \<Rightarrow> string \<Rightarrow> QueueItemRecord option" where
  "FindActiveByDedupe s dedupeKey = first_max QCreatedAt
     (filter (\<lambda>q. QDedupeKey q = dedupeKey \<and> active_status (QStatus q)) (queue s))"

definition FindActiveByLoopID :: "store \<Rightarrow> string \<Rightarrow> QueueItemRecord option" where
  "FindActiveByLoopID s loopID = first_max QCreatedAt
     (filter (\<lambda>q. QLoopID q = Some loopID \<and> active_status (QStatus q)) (queue s))"

definition shouldRecoverActiveDedupeConflict :: "QueueItemRecord \<Rightarrow> store_error \<Rightarrow> bool" where
  "shouldRecoverActiveDedupeConflict record err =
     (if err \<noteq> UniqueActiveDedupe then False
      else if QDedupeKey record = [] then False
      else QType record = ''reviewer'' \<or> QType record = ''fixer'')"

text \<open>The result is the persisted row, whether it is the caller's, and the store after it.\<close>

definition UpsertActiveByDedupeOrGetExisting ::
    "QueueItemRecord \<Rightarrow> store \<Rightarrow> (store_error, QueueItemRecord \<times> bool \<times> store) result" where
  "UpsertActiveByDedupeOrGetExisting record s = (case Upsert record s of
       Inr s' \<Rightarrow> Inr (record, True, s')
     | Inl err \<Rightarrow>
       (if \<not> shouldRecoverActiveDedupeConflict record err then Inl err
        else (case FindActiveByDedupe s (QDedupeKey record) of
            Some existing \<Rightarrow> Inr (existing, False, s)
          | None \<Rightarrow> Inl err)))"

fun create_or_get_attempts ::
    "nat \<Rightarrow> QueueItemRecord \<Rightarrow> store \<Rightarrow> (store_error, QueueItemRecord \<times> bool \<times> store) result" where
  "create_or_get_attempts 0 record s = Inl (ActiveDedupeConflict (QDedupeKey record))"
| "create_or_get_attempts (Suc n) record s = (case UpsertActiveByDedupeOrGetExisting record s of
       Inr r \<Rightarrow> Inr r
     | Inl err \<Rightarrow> (if \<not> shouldRecoverActiveDedupeConflict record err then Inl err
                  else create_or_get_attempts n record s))"

definition CreateOrGetActiveByDedupe ::
    "QueueItemRecord \<Rightarrow> store \<Rightarrow> (store_error, QueueItemRecord \<times> bool \<times> store) result" where
  "CreateOrGetActiveByDedupe record s = create_or_get_attempts 2 record s"

section \<open>Eligibility\<close>

definition QueueLongTermRetryAttemptThreshold :: int where
  "QueueLongTermRetryAttemptThreshold = 5"

text \<open>\<open>queueLockConflictPredicate\<close>.\<close>

definition lock_conflict :: "QueueItemRecord \<Rightarrow> QueueItemRecord \<Rightarrow> bool" where
  "lock_conflict blocker qi \<longleftrightarrow>
     sql_eq (QLockKey blocker) (QLockKey qi)
     \<or> (sql_eq (QRepo blocker) (QRepo qi) \<and> QTargetType blocker = QTargetType qi
        \<and> QTargetID blocker = QTargetID qi
        \<and> (sql_eq (QLockKey blocker) (Some (QTargetID blocker))
           \<or> sql_eq (QLockKey qi) (Some (QTargetID qi))))"

text \<open>\<open>humanHoldClaimPredicate\<close>, for one held loop.\<close>

definition human_hold_covers :: "LoopRecord \<Rightarrow> LoopRecord option \<Rightarrow> QueueItemRecord \<Rightarrow> bool" where
  "human_hold_covers held l qi \<longleftrightarrow>
     LoopStat held = ''human_takeover''
     \<and> sql_eq (Some (LoopProjectID held)) (coalesce (map_option LoopProjectID l) (QProjectID qi))
     \<and> ((LoopTargetTyp held = ''pull_request''
         \<and> LoopPRNumber held \<noteq> None
         \<and> sql_eq (LoopPRNumber held) (coalesce (Option.bind l LoopPRNumber) (QPRNumber qi))
         \<and> LoopRepo held \<noteq> None
         \<and> sql_eq (LoopRepo held) (coalesce (Option.bind l LoopRepo) (QRepo qi)))
        \<or> (LoopTargetID held \<noteq> None
           \<and> sql_eq (Some (LoopTargetTyp held)) (coalesce (map_option LoopTargetTyp l) (Some (QTargetType qi)))
           \<and> LoopTargetTyp held \<noteq> ''project''
           \<and> sql_eq (LoopTargetID held) (coalesce (Option.bind l LoopTargetID) (Some (QTargetID qi)))
           \<and> (LoopTargetTyp held \<noteq> ''issue''
              \<or> (LoopTyp held = ''planner''
                 \<and> sql_eq (coalesce (map_option LoopTyp l) (Some (QType qi))) (Some ''planner''))))
        \<or> sql_eq (Some (LoopID held)) (QLoopID qi))"

definition parked_statuses :: "string list" where
  "parked_statuses = [''paused'', ''completed'', ''failed'', ''interrupted'', ''terminated'', ''stopped'']"

definition reviewer_blocks :: "QueueItemRecord \<Rightarrow> QueueItemRecord \<Rightarrow> bool" where
  "reviewer_blocks blocker qi \<longleftrightarrow>
     QType blocker = ''reviewer'' \<and> sql_eq (QRepo blocker) (QRepo qi)
     \<and> sql_eq (QPRNumber blocker) (QPRNumber qi)
     \<and> (sql_eq (QProjectID blocker) (QProjectID qi) \<or> QProjectID blocker = None \<or> QProjectID qi = None)
     \<and> active_status (QStatus blocker) \<and> QID blocker \<noteq> QID qi"

text \<open>\<open>scheduledQueueBaseQuery\<close>.\<close>

definition eligible :: "store \<Rightarrow> string \<Rightarrow> QueueItemRecord \<Rightarrow> bool" where
  "eligible s now qi \<longleftrightarrow>
     QStatus qi = queued
     \<and> QAvailableAt qi \<le> now
     \<and> (QProjectID qi = None
        \<or> map_option ProjArchived (Option.bind (QProjectID qi) (find_project s)) = Some False)
     \<and> (case item_loop s qi of None \<Rightarrow> queued | Some l \<Rightarrow> LoopStat l) \<notin> set parked_statuses
     \<and> \<not> list_ex (\<lambda>held. human_hold_covers held (item_loop s qi) qi) (loops s)
     \<and> (QLockKey qi = None
        \<or> \<not> list_ex (\<lambda>b. lock_conflict b qi \<and> QStatus b = running \<and> QID b \<noteq> QID qi) (queue s))
     \<and> (QType qi \<noteq> ''fixer'' \<or> QRepo qi = None \<or> QPRNumber qi = None
        \<or> \<not> list_ex (\<lambda>b. reviewer_blocks b qi) (queue s))"

definition long_term_retry :: "int \<Rightarrow> QueueItemRecord \<Rightarrow> bool" where
  "long_term_retry threshold q \<longleftrightarrow> QAttempts q \<ge> threshold
     \<and> (case QLastErrorKind q of None \<Rightarrow> [] | Some k \<Rightarrow> k)
        \<in> {''retryable_transient'', ''retryable_after_resume'', ''non_retryable''}"

text \<open>\<open>scheduledQueueOrderBy\<close>: long-term retries last, then priority, availability and age.\<close>

definition claim_key :: "QueueItemRecord \<Rightarrow> nat \<times> int \<times> string \<times> string" where
  "claim_key q = ((if long_term_retry 5 q then 1 else 0), QPriority q, QAvailableAt q, QCreatedAt q)"

definition scheduled :: "store \<Rightarrow> string \<Rightarrow> (QueueItemRecord \<Rightarrow> bool) \<Rightarrow> QueueItemRecord list" where
  "scheduled s now extra = filter (\<lambda>q. eligible s now q \<and> extra q) (queue s)"

section \<open>Claims\<close>

definition claim_row :: "string \<Rightarrow> string \<Rightarrow> QueueItemRecord \<Rightarrow> QueueItemRecord" where
  "claim_row now claimedBy q = q\<lparr>QStatus := running, QClaimedBy := Some claimedBy,
     QClaimedAt := Some now, QStartedAt := coalesce (QStartedAt q) (Some now), QUpdatedAt := now\<rparr>"

definition claimNextMatching ::
    "(QueueItemRecord \<Rightarrow> bool) \<Rightarrow> string \<Rightarrow> string \<Rightarrow> store
      \<Rightarrow> (store_error, QueueItemRecord option \<times> store) result" where
  "claimNextMatching extra now claimedBy s =
     (case first_min claim_key (scheduled s now extra) of
        None \<Rightarrow> Inr (None, s)
      | Some candidate \<Rightarrow>
          (let target = (\<lambda>q. QID q = QID candidate \<and> QStatus q = queued);
               rows = update_where target (claim_row now claimedBy) (queue s)
           in case commit_queue s rows of
                Inl e \<Rightarrow> Inl e
              | Inr s' \<Rightarrow> Inr (find (\<lambda>q. QID q = QID candidate) rows, s')))"

definition peekNextMatching :: "(QueueItemRecord \<Rightarrow> bool) \<Rightarrow> string \<Rightarrow> store \<Rightarrow> QueueItemRecord option" where
  "peekNextMatching extra now s = first_min claim_key (scheduled s now extra)"

definition ClaimNext where
  "ClaimNext = claimNextMatching (\<lambda>_. True)"

definition ClaimNextNonLongTermRetry where
  "ClaimNextNonLongTermRetry = claimNextMatching (\<lambda>q. \<not> long_term_retry QueueLongTermRetryAttemptThreshold q)"

definition ClaimNextLongTermRetry where
  "ClaimNextLongTermRetry = claimNextMatching (long_term_retry QueueLongTermRetryAttemptThreshold)"

definition ClaimNextOfType where
  "ClaimNextOfType now claimedBy queueType = claimNextMatching (\<lambda>q. QType q = queueType) now claimedBy"

definition latest_run :: "store \<Rightarrow> string \<Rightarrow> RunRecord option" where
  "latest_run s loopID = first_max (\<lambda>r. (RunStartedAt r, RunCreatedAt r, RunSeq r))
     (filter (\<lambda>r. RunLoopID r = loopID) (runs s))"

definition sql_trim :: "string \<Rightarrow> string" where
  "sql_trim s = rev (dropWhile (\<lambda>c. c = CHR '' '') (rev (dropWhile (\<lambda>c. c = CHR '' '') s)))"

definition sticky_snapshot ::
    "(string \<Rightarrow> string option) \<Rightarrow> string \<Rightarrow> store \<Rightarrow> QueueItemRecord \<Rightarrow> bool" where
  "sticky_snapshot jv vendor s qi = (case QLoopID qi of None \<Rightarrow> False
     | Some loopID \<Rightarrow> (case latest_run s loopID of None \<Rightarrow> False
       | Some latest \<Rightarrow>
           (RunStat latest = ''failed'' \<or> RunStat latest = ''interrupted'')
           \<and> (case RunAgentSnapshotJSON latest of None \<Rightarrow> False
              | Some snapshot \<Rightarrow> sql_trim snapshot \<noteq> []
                  \<and> (case jv snapshot of None \<Rightarrow> False
                     | Some v \<Rightarrow> v \<noteq> [] \<and> (trim_space vendor = [] \<or> v = trim_space vendor)))))"

text \<open>\<open>None\<close> is the code's empty predicate: both type lists are empty.\<close>

definition type_predicate :: "(string \<Rightarrow> string option) \<Rightarrow> store \<Rightarrow> string list \<Rightarrow> string list \<Rightarrow> string \<Rightarrow> bool
    \<Rightarrow> (QueueItemRecord \<Rightarrow> bool) option" where
  "type_predicate jv s unrestricted sticky vendor excludeSticky =
     (if unrestricted = [] \<and> sticky = [] then None
      else Some (\<lambda>q.
        (unrestricted \<noteq> [] \<and> QType q \<in> set unrestricted \<and> (excludeSticky \<longrightarrow> \<not> sticky_snapshot jv [] s q))
        \<or> (sticky \<noteq> [] \<and> QType q \<in> set sticky \<and> sticky_snapshot jv vendor s q)))"

definition project_predicate :: "(string \<Rightarrow> string option) \<Rightarrow> store \<Rightarrow> string list \<Rightarrow> string list \<Rightarrow> string list
    \<Rightarrow> QueueItemRecord \<Rightarrow> bool" where
  "project_predicate jv s scopedTypes projectIDs stickyOnly q =
     (if scopedTypes = [] then True
      else if projectIDs = [] \<and> stickyOnly = [] then QType q \<notin> set scopedTypes
      else QType q \<notin> set scopedTypes
        \<or> (projectIDs \<noteq> [] \<and> (case QProjectID q of None \<Rightarrow> False | Some p \<Rightarrow> p \<in> set projectIDs))
        \<or> (stickyOnly \<noteq> [] \<and> (case QProjectID q of None \<Rightarrow> False | Some p \<Rightarrow> p \<in> set stickyOnly)
           \<and> sticky_snapshot jv [] s q))"

record QueueClaimLane =
  LaneUnrestrictedTypes :: "string list"
  LaneStickySnapshotTypes :: "string list"
  LaneStickySnapshotVendor :: string
  LaneExcludeStickySnapshots :: bool
  LaneProjectScopedTypes :: "string list"
  LaneProjectIDs :: "string list"
  LaneStickyOnlyProjectIDs :: "string list"

definition lane_predicate ::
    "(string \<Rightarrow> string option) \<Rightarrow> store \<Rightarrow> QueueClaimLane \<Rightarrow> (QueueItemRecord \<Rightarrow> bool) option" where
  "lane_predicate jv s lane = (case type_predicate jv s (LaneUnrestrictedTypes lane)
       (LaneStickySnapshotTypes lane) (LaneStickySnapshotVendor lane) (LaneExcludeStickySnapshots lane) of
     None \<Rightarrow> None
   | Some p \<Rightarrow> Some (\<lambda>q. p q \<and> project_predicate jv s (LaneProjectScopedTypes lane)
       (LaneProjectIDs lane) (LaneStickyOnlyProjectIDs lane) q))"

definition retry_class :: "bool \<Rightarrow> QueueItemRecord \<Rightarrow> bool" where
  "retry_class longTerm q = (long_term_retry QueueLongTermRetryAttemptThreshold q = longTerm)"

text \<open>The provider-aware claims and peeks, for retries that are long-term or not.\<close>

definition claim_among_type_sets where
  "claim_among_type_sets jv longTerm now claimedBy lane s = (case lane_predicate jv s lane of
       None \<Rightarrow> Inr (None, s)
     | Some p \<Rightarrow> claimNextMatching (\<lambda>q. retry_class longTerm q \<and> p q) now claimedBy s)"

definition peek_among_type_sets where
  "peek_among_type_sets jv longTerm now lane s = (case lane_predicate jv s lane of
       None \<Rightarrow> None
     | Some p \<Rightarrow> peekNextMatching (\<lambda>q. retry_class longTerm q \<and> p q) now s)"

definition ClaimNextNonLongTermRetryAmongTypeSetsForProjectsWithSnapshotVendor where
  "ClaimNextNonLongTermRetryAmongTypeSetsForProjectsWithSnapshotVendor jv = claim_among_type_sets jv False"

definition ClaimNextLongTermRetryAmongTypeSetsForProjectsWithSnapshotVendor where
  "ClaimNextLongTermRetryAmongTypeSetsForProjectsWithSnapshotVendor jv = claim_among_type_sets jv True"

definition PeekNextNonLongTermRetryAmongTypeSetsForProjectsWithSnapshotVendor where
  "PeekNextNonLongTermRetryAmongTypeSetsForProjectsWithSnapshotVendor jv = peek_among_type_sets jv False"

definition PeekNextLongTermRetryAmongTypeSetsForProjectsWithSnapshotVendor where
  "PeekNextLongTermRetryAmongTypeSetsForProjectsWithSnapshotVendor jv = peek_among_type_sets jv True"

definition plain_lane :: "string list \<Rightarrow> string list \<Rightarrow> string list \<Rightarrow> string list \<Rightarrow> string list \<Rightarrow> QueueClaimLane" where
  "plain_lane unrestricted sticky scoped projectIDs stickyOnly =
     \<lparr>LaneUnrestrictedTypes = unrestricted, LaneStickySnapshotTypes = sticky,
      LaneStickySnapshotVendor = [], LaneExcludeStickySnapshots = False,
      LaneProjectScopedTypes = scoped, LaneProjectIDs = projectIDs, LaneStickyOnlyProjectIDs = stickyOnly\<rparr>"

definition ClaimNextNonLongTermRetryAmongTypeSetsForProjects where
  "ClaimNextNonLongTermRetryAmongTypeSetsForProjects jv now claimedBy unrestricted sticky scoped projectIDs stickyOnly s =
     ClaimNextNonLongTermRetryAmongTypeSetsForProjectsWithSnapshotVendor jv now claimedBy
       (plain_lane unrestricted sticky scoped projectIDs stickyOnly) s"

definition ClaimNextLongTermRetryAmongTypeSetsForProjects where
  "ClaimNextLongTermRetryAmongTypeSetsForProjects jv now claimedBy unrestricted sticky scoped projectIDs stickyOnly s =
     ClaimNextLongTermRetryAmongTypeSetsForProjectsWithSnapshotVendor jv now claimedBy
       (plain_lane unrestricted sticky scoped projectIDs stickyOnly) s"

definition ClaimNextNonLongTermRetryAmongTypeSets where
  "ClaimNextNonLongTermRetryAmongTypeSets jv now claimedBy unrestricted sticky s =
     ClaimNextNonLongTermRetryAmongTypeSetsForProjects jv now claimedBy unrestricted sticky [] [] [] s"

definition ClaimNextLongTermRetryAmongTypeSets where
  "ClaimNextLongTermRetryAmongTypeSets jv now claimedBy unrestricted sticky s =
     ClaimNextLongTermRetryAmongTypeSetsForProjects jv now claimedBy unrestricted sticky [] [] [] s"

definition ClaimNextNonLongTermRetryAmongTypes where
  "ClaimNextNonLongTermRetryAmongTypes jv now claimedBy types s =
     ClaimNextNonLongTermRetryAmongTypeSets jv now claimedBy types [] s"

definition ClaimNextLongTermRetryAmongTypes where
  "ClaimNextLongTermRetryAmongTypes jv now claimedBy types s =
     ClaimNextLongTermRetryAmongTypeSets jv now claimedBy types [] s"

definition ClaimNextAcrossLanes where
  "ClaimNextAcrossLanes jv now claimedBy lanes longTerm s =
     (if lanes = [] then Inr (None, s)
      else (let clauses = List.map_filter (lane_predicate jv s) lanes in
        if clauses = [] then Inr (None, s)
        else claimNextMatching (\<lambda>q. retry_class longTerm q \<and> list_ex (\<lambda>p. p q) clauses) now claimedBy s))"

section \<open>Settling items\<close>

definition Complete :: "string \<Rightarrow> string \<Rightarrow> store \<Rightarrow> (store_error, store) result" where
  "Complete k finishedAt s = (let P = (\<lambda>q. QID q = k \<and> active_status (QStatus q)) in
     case commit_queue s (update_where P
        (\<lambda>q. q\<lparr>QStatus := completed, QFinishedAt := Some finishedAt, QUpdatedAt := finishedAt\<rparr>) (queue s)) of
       Inl e \<Rightarrow> Inl e
     | Inr s' \<Rightarrow> (if affected P (queue s) = 0 then Inl QueueItemNotActive else Inr s'))"

definition UpdateLockKey :: "string \<Rightarrow> string \<Rightarrow> string \<Rightarrow> store \<Rightarrow> (store_error, store) result" where
  "UpdateLockKey k lockKey updatedAt s = commit_queue s (update_where (\<lambda>q. QID q = k)
     (\<lambda>q. q\<lparr>QLockKey := Some lockKey, QUpdatedAt := updatedAt\<rparr>) (queue s))"

record QueueMarkRetryInput =
  RetryID :: string
  RetryAvailableAt :: string
  RetryAttempts :: int
  RetryErrorMessage :: "string option"
  RetryErrorKind :: string
  RetryUpdatedAt :: string

record QueueFailInput =
  FailID :: string
  FailAttempts :: int
  FailFinishedAt :: string
  FailErrorMessage :: "string option"
  FailErrorKind :: string
  FailUpdatedAt :: string

definition project_archived :: "store \<Rightarrow> QueueItemRecord \<Rightarrow> bool" where
  "project_archived s q = list_ex (\<lambda>p. sql_eq (Some (ProjID p)) (QProjectID q) \<and> ProjArchived p) (projects s)"

definition retry_row :: "QueueMarkRetryInput \<Rightarrow> QueueItemRecord \<Rightarrow> QueueItemRecord" where
  "retry_row i q = q\<lparr>QStatus := queued, QAvailableAt := RetryAvailableAt i, QAttempts := RetryAttempts i,
     QLastError := RetryErrorMessage i, QLastErrorKind := Some (RetryErrorKind i), QClaimedBy := None,
     QClaimedAt := None, QFinishedAt := None, QUpdatedAt := RetryUpdatedAt i\<rparr>"

definition MarkRetry :: "QueueMarkRetryInput \<Rightarrow> store \<Rightarrow> (store_error, store) result" where
  "MarkRetry i s = commit_queue s (update_where (\<lambda>q. QID q = RetryID i \<and> \<not> project_archived s q)
     (retry_row i) (queue s))"

definition MarkRetryIfRunning :: "QueueMarkRetryInput \<Rightarrow> store \<Rightarrow> (store_error, store) result" where
  "MarkRetryIfRunning i s = commit_queue s (update_where
     (\<lambda>q. QID q = RetryID i \<and> QStatus q = running \<and> \<not> project_archived s q) (retry_row i) (queue s))"

definition Fail :: "QueueFailInput \<Rightarrow> store \<Rightarrow> (store_error, store) result" where
  "Fail i s = commit_queue s (update_where (\<lambda>q. QID q = FailID i \<and> active_status (QStatus q))
     (\<lambda>q. q\<lparr>QStatus := manual_intervention,
        QAttempts := (if FailAttempts i > 0 then FailAttempts i else QAttempts q),
        QFinishedAt := Some (FailFinishedAt i), QLastError := FailErrorMessage i,
        QLastErrorKind := Some (FailErrorKind i), QUpdatedAt := FailUpdatedAt i\<rparr>) (queue s))"

text \<open>An update that reports the number of its rows.\<close>

definition counted_update :: "(QueueItemRecord \<Rightarrow> bool) \<Rightarrow> (QueueItemRecord \<Rightarrow> QueueItemRecord)
    \<Rightarrow> store \<Rightarrow> (store_error, nat \<times> store) result" where
  "counted_update P f s = (case commit_queue s (update_where P f (queue s)) of
       Inl e \<Rightarrow> Inl e | Inr s' \<Rightarrow> Inr (affected P (queue s), s'))"

definition requeue_row :: "string \<Rightarrow> QueueItemRecord \<Rightarrow> QueueItemRecord" where
  "requeue_row queuedAt q = q\<lparr>QStatus := queued, QAvailableAt := queuedAt, QClaimedBy := None,
     QClaimedAt := None, QStartedAt := None, QFinishedAt := None, QUpdatedAt := queuedAt\<rparr>"

definition clear_errors :: "QueueItemRecord \<Rightarrow> QueueItemRecord" where
  "clear_errors q = q\<lparr>QLastError := None, QLastErrorKind := None\<rparr>"

definition RequeueRunningByLoop :: "string \<Rightarrow> string \<Rightarrow> store \<Rightarrow> (store_error, nat \<times> store) result" where
  "RequeueRunningByLoop loopID queuedAt s =
     counted_update (\<lambda>q. QLoopID q = Some loopID \<and> QStatus q = running) (requeue_row queuedAt) s"

text \<open>The guard of every requeue of a settled item: no other active item of the loop.\<close>

definition no_other_active :: "store \<Rightarrow> string \<Rightarrow> string \<Rightarrow> bool" where
  "no_other_active s loopID queueID =
     (\<not> list_ex (\<lambda>q. QLoopID q = Some loopID \<and> active_status (QStatus q) \<and> QID q \<noteq> queueID) (queue s))"

definition latest_first_key :: "QueueItemRecord \<Rightarrow> string \<times> string \<times> string" where
  "latest_first_key q = (QUpdatedAt q, QCreatedAt q, QID q)"

definition findLatestQueueIDByLoopStatuses :: "store \<Rightarrow> string \<Rightarrow> string list \<Rightarrow> string" where
  "findLatestQueueIDByLoopStatuses s loopID statuses = (if statuses = [] then []
     else (case first_max latest_first_key
             (filter (\<lambda>q. QLoopID q = Some loopID \<and> QStatus q \<in> set statuses) (queue s)) of
         None \<Rightarrow> [] | Some q \<Rightarrow> QID q))"

definition findLatestCancelledQueueIDByLoop :: "store \<Rightarrow> string \<Rightarrow> bool \<Rightarrow> string" where
  "findLatestCancelledQueueIDByLoop s loopID onlyUnstarted =
     (case first_max latest_first_key (filter (\<lambda>q. QLoopID q = Some loopID \<and> QStatus q = cancelled
             \<and> (\<not> onlyUnstarted \<or> QStartedAt q = None)) (queue s)) of
        None \<Rightarrow> [] | Some q \<Rightarrow> QID q)"

definition RequeueLatestCancelledByLoop :: "string \<Rightarrow> string \<Rightarrow> store \<Rightarrow> (store_error, nat \<times> store) result" where
  "RequeueLatestCancelledByLoop loopID queuedAt s = (let
      unstarted = findLatestCancelledQueueIDByLoop s loopID True;
      queueID = (if unstarted = [] then findLatestCancelledQueueIDByLoop s loopID False else unstarted)
    in if queueID = [] then Inr (0, s)
       else counted_update (\<lambda>q. QID q = queueID \<and> QStatus q = cancelled \<and> no_other_active s loopID queueID)
              (\<lambda>q. clear_errors (requeue_row queuedAt q)) s)"

definition RequeueCompletedByID :: "string \<Rightarrow> string \<Rightarrow> string \<Rightarrow> store \<Rightarrow> (store_error, nat \<times> store) result" where
  "RequeueCompletedByID loopID queueID queuedAt s =
     counted_update (\<lambda>q. QID q = queueID \<and> QLoopID q = Some loopID \<and> QStatus q = completed
         \<and> no_other_active s loopID queueID)
       (\<lambda>q. clear_errors (requeue_row queuedAt (q\<lparr>QAttempts := 0\<rparr>))) s"

definition requeue_failed :: "string \<Rightarrow> string \<Rightarrow> string \<Rightarrow> int \<Rightarrow> store \<Rightarrow> (store_error, nat \<times> store) result" where
  "requeue_failed loopID queueID queuedAt attempts s =
     counted_update (\<lambda>q. QID q = queueID \<and> QLoopID q = Some loopID
         \<and> (QStatus q = manual_intervention \<or> QStatus q = failed) \<and> no_other_active s loopID queueID)
       (\<lambda>q. clear_errors (requeue_row queuedAt (q\<lparr>QAttempts := attempts\<rparr>))) s"

definition RequeueFailedByID :: "string \<Rightarrow> string \<Rightarrow> string \<Rightarrow> store \<Rightarrow> (store_error, nat \<times> store) result" where
  "RequeueFailedByID loopID queueID queuedAt s =
     (if loopID = [] \<or> queueID = [] then Inr (0, s) else requeue_failed loopID queueID queuedAt 0 s)"

definition RequeueFailedByIDWithAttempts ::
    "string \<Rightarrow> string \<Rightarrow> string \<Rightarrow> int \<Rightarrow> store \<Rightarrow> (store_error, nat \<times> store) result" where
  "RequeueFailedByIDWithAttempts loopID queueID queuedAt attempts s =
     (if loopID = [] \<or> queueID = [] then Inr (0, s)
      else requeue_failed loopID queueID queuedAt (if attempts < 0 then 0 else attempts) s)"

definition RequeueLatestFailedByLoop :: "string \<Rightarrow> string \<Rightarrow> store \<Rightarrow> (store_error, nat \<times> store) result" where
  "RequeueLatestFailedByLoop loopID queuedAt s =
     (let queueID = findLatestQueueIDByLoopStatuses s loopID [manual_intervention, failed]
      in if queueID = [] then Inr (0, s) else RequeueFailedByID loopID queueID queuedAt s)"

definition cancel_row :: "string \<Rightarrow> string option \<Rightarrow> QueueItemRecord \<Rightarrow> QueueItemRecord" where
  "cancel_row finishedAt reason q = q\<lparr>QStatus := cancelled, QFinishedAt := Some finishedAt,
     QLastError := coalesce reason (QLastError q), QUpdatedAt := finishedAt\<rparr>"

definition CancelByLoop :: "string \<Rightarrow> string \<Rightarrow> string option \<Rightarrow> store \<Rightarrow> (store_error, nat \<times> store) result" where
  "CancelByLoop loopID finishedAt reason s =
     counted_update (\<lambda>q. QLoopID q = Some loopID \<and> active_status (QStatus q)) (cancel_row finishedAt reason) s"

definition CancelByProject :: "string \<Rightarrow> string \<Rightarrow> string option \<Rightarrow> store \<Rightarrow> (store_error, nat \<times> store) result" where
  "CancelByProject projectID finishedAt reason s =
     (if trim_space projectID = [] then Inr (0, s)
      else counted_update (\<lambda>q. QProjectID q = Some projectID
             \<and> QStatus q \<in> {queued, running, failed, manual_intervention}) (cancel_row finishedAt reason) s)"

definition CancelActiveByLoopExcept ::
    "string \<Rightarrow> string \<Rightarrow> string \<Rightarrow> string option \<Rightarrow> store \<Rightarrow> (store_error, nat \<times> store) result" where
  "CancelActiveByLoopExcept loopID keepID finishedAt reason s =
     (if trim_space loopID = [] \<or> trim_space keepID = [] then Inr (0, s)
      else counted_update (\<lambda>q. QLoopID q = Some loopID \<and> active_status (QStatus q) \<and> QID q \<noteq> keepID)
             (cancel_row finishedAt reason) s)"

text \<open>\<open>staleQueuedIDsQuery\<close>.\<close>

definition stale_queued :: "store \<Rightarrow> QueueItemRecord \<Rightarrow> bool" where
  "stale_queued s q \<longleftrightarrow> QStatus q = queued \<and> (case item_loop s q of None \<Rightarrow> False
     | Some l \<Rightarrow> LoopStat l \<in> {''completed'', ''failed'', ''interrupted'', ''terminated'', ''stopped''})"

definition CleanupStaleQueued :: "string \<Rightarrow> string \<Rightarrow> store \<Rightarrow> (store_error, nat \<times> store) result" where
  "CleanupStaleQueued finishedAt reason s =
     counted_update (\<lambda>q. \<exists>r \<in> set (queue s). stale_queued s r \<and> QID r = QID q)
       (\<lambda>q. q\<lparr>QStatus := cancelled, QFinishedAt := Some finishedAt, QLastError := Some reason,
            QLastErrorKind := Some ''non_retryable'', QUpdatedAt := finishedAt\<rparr>) s"

section \<open>Reading\<close>

definition sort_desc :: "('a \<Rightarrow> 'k::linorder) \<Rightarrow> 'a list \<Rightarrow> 'a list" where
  "sort_desc f xs = rev (sort_key f (rev xs))"

definition List_items :: "store \<Rightarrow> QueueItemRecord list" where
  "List_items s = sort_desc QCreatedAt (queue s)"

definition ListForTriage :: "store \<Rightarrow> QueueItemRecord list" where
  "ListForTriage s = sort_desc latest_first_key
     (filter (\<lambda>q. QStatus q \<notin> {completed, failed, cancelled}) (queue s))"

definition ListByStatuses :: "store \<Rightarrow> string list \<Rightarrow> QueueItemRecord list" where
  "ListByStatuses s statuses = (if statuses = [] then []
     else sort_desc (\<lambda>q. (QCreatedAt q, QID q)) (filter (\<lambda>q. QStatus q \<in> set statuses) (queue s)))"

definition CountByStatus :: "store \<Rightarrow> string \<Rightarrow> nat" where
  "CountByStatus s status = length (filter (\<lambda>q. QStatus q = status) (queue s))"

definition CountActiveByLoopID :: "store \<Rightarrow> string \<Rightarrow> nat" where
  "CountActiveByLoopID s loopID =
     length (filter (\<lambda>q. QLoopID q = Some loopID \<and> active_status (QStatus q)) (queue s))"

definition CountByLoopIDAndStatus :: "store \<Rightarrow> string \<Rightarrow> string \<Rightarrow> nat" where
  "CountByLoopIDAndStatus s loopID status =
     length (filter (\<lambda>q. QLoopID q = Some loopID \<and> QStatus q = status) (queue s))"

definition ListQueued :: "store \<Rightarrow> int \<Rightarrow> QueueItemRecord list" where
  "ListQueued s limit = take (nat (if limit \<le> 0 then 100 else limit))
     (sort_key (\<lambda>q. (QPriority q, QAvailableAt q, QCreatedAt q)) (filter (\<lambda>q. QStatus q = queued) (queue s)))"

definition ListScheduled :: "store \<Rightarrow> string \<Rightarrow> int \<Rightarrow> QueueItemRecord list" where
  "ListScheduled s now limit = take (nat (if limit \<le> 0 then 100 else limit))
     (sort_key claim_key (scheduled s now (\<lambda>_. True)))"

definition ListRunningClaimedBy :: "store \<Rightarrow> string \<Rightarrow> string \<Rightarrow> QueueItemRecord list" where
  "ListRunningClaimedBy s claimedBy claimedAt = (if claimedBy = [] then []
     else sort_key QID (filter (\<lambda>q. QStatus q = running \<and> QClaimedBy q = Some claimedBy
            \<and> QClaimedAt q = Some claimedAt) (queue s)))"

record QueueStats =
  TotalQueued :: nat
  EligibleQueued :: nat
  BlockedByTerminalOrPausedLoop :: nat
  BlockedByLockKey :: nat
  BlockedByReviewerFixerDependency :: nat
  ScheduledForFuture :: nat
  StaleQueued :: nat

definition Stats :: "store \<Rightarrow> string \<Rightarrow> QueueStats" where
  "Stats s now = \<lparr>
     TotalQueued = CountByStatus s queued,
     EligibleQueued = length (scheduled s now (\<lambda>_. True)),
     BlockedByTerminalOrPausedLoop = length (filter (\<lambda>q. QStatus q = queued
       \<and> (case item_loop s q of None \<Rightarrow> False | Some l \<Rightarrow> LoopStat l \<in> set parked_statuses)) (queue s)),
     BlockedByLockKey = length (filter (\<lambda>q. QStatus q = queued \<and> QAvailableAt q \<le> now
       \<and> QLockKey q \<noteq> None
       \<and> list_ex (\<lambda>b. lock_conflict b q \<and> QStatus b = running \<and> QID b \<noteq> QID q) (queue s)) (queue s)),
     BlockedByReviewerFixerDependency = length (filter (\<lambda>q. QStatus q = queued \<and> QAvailableAt q \<le> now
       \<and> QType q = ''fixer'' \<and> QRepo q \<noteq> None \<and> QPRNumber q \<noteq> None
       \<and> list_ex (\<lambda>b. reviewer_blocks b q) (queue s)) (queue s)),
     ScheduledForFuture = length (filter (\<lambda>q. QStatus q = queued \<and> now < QAvailableAt q) (queue s)),
     StaleQueued = length (filter (stale_queued s) (queue s))\<rparr>"

definition CountByAllStatuses :: "store \<Rightarrow> (string \<times> nat) list" where
  "CountByAllStatuses s = map (\<lambda>st. (st, CountByStatus s st)) (remdups (map QStatus (queue s)))"

text \<open>\<open>ROW_NUMBER() OVER (PARTITION BY loop_id ...) = 1\<close>: the row is the latest of its loop.\<close>

definition latest_of_loop :: "store \<Rightarrow> QueueItemRecord \<Rightarrow> bool" where
  "latest_of_loop s q = (case QLoopID q of None \<Rightarrow> False | Some l \<Rightarrow> GetLatestByLoopID s l = Some q)"

definition ListLatestByLoopStatuses :: "store \<Rightarrow> string list \<Rightarrow> QueueItemRecord list" where
  "ListLatestByLoopStatuses s statuses = (if statuses = [] then []
     else sort_desc (\<lambda>q. (QCreatedAt q, QID q)) (filter (\<lambda>q.
       (case QLoopID q of None \<Rightarrow> False | Some l \<Rightarrow> sql_trim l \<noteq> [])
       \<and> latest_of_loop s q \<and> QStatus q \<in> set statuses) (queue s)))"

definition sqliteMaxVariables :: nat where
  "sqliteMaxVariables = 900"

function chunkStrings :: "string list \<Rightarrow> nat \<Rightarrow> string list list" where
  "chunkStrings vals chunkSize =
     (if vals = [] then []
      else if chunkSize = 0 then [vals]
      else take chunkSize vals # chunkStrings (drop chunkSize vals) chunkSize)"
  by pat_completeness auto
termination by (relation "measure (\<lambda>(vals, n). length vals)") auto

declare chunkStrings.simps [simp del]

definition ListLatestByLoopIDs :: "store \<Rightarrow> string list \<Rightarrow> QueueItemRecord list" where
  "ListLatestByLoopIDs s loopIDs = concat (map (\<lambda>chunk.
     sort_desc latest_first_key (filter (\<lambda>q. (case QLoopID q of None \<Rightarrow> False | Some l \<Rightarrow> l \<in> set chunk)
       \<and> latest_of_loop s q) (queue s))) (chunkStrings loopIDs sqliteMaxVariables))"

text \<open>The vendor of the latest run's snapshot, empty when the row has none.\<close>

definition snapshot_vendor :: "(string \<Rightarrow> string option) \<Rightarrow> store \<Rightarrow> QueueItemRecord \<Rightarrow> string" where
  "snapshot_vendor jv s q = (case Option.bind (QLoopID q) (latest_run s) of None \<Rightarrow> []
     | Some r \<Rightarrow> (case RunAgentSnapshotJSON r of None \<Rightarrow> []
       | Some t \<Rightarrow> (case jv t of None \<Rightarrow> [] | Some v \<Rightarrow> v)))"

definition scan_vendors :: "string list \<Rightarrow> string list" where
  "scan_vendors vs = filter (\<lambda>v. v \<noteq> []) (map trim_space (sort (remdups vs)))"

definition ListQueuedSnapshotVendors where
  "ListQueuedSnapshotVendors jv s types = (if types = [] then []
     else scan_vendors (map (snapshot_vendor jv s) (filter (\<lambda>q. QStatus q = queued \<and> QType q \<in> set types
       \<and> sticky_snapshot jv [] s q) (queue s))))"

definition ListRunningSnapshotVendors where
  "ListRunningSnapshotVendors jv s types = (if types = [] then []
     else scan_vendors (map (snapshot_vendor jv s) (filter (\<lambda>q. QStatus q = running \<and> QType q \<in> set types
       \<and> QLoopID q \<noteq> None \<and> snapshot_vendor jv s q \<noteq> []) (queue s))))"

definition ListActiveSnapshotVendors where
  "ListActiveSnapshotVendors jv s types = (if types = [] then []
     else scan_vendors (map (snapshot_vendor jv s) (filter (\<lambda>q. active_status (QStatus q) \<and> QType q \<in> set types
       \<and> snapshot_vendor jv s q \<noteq> [] \<and> (QStatus q = running \<or> sticky_snapshot jv [] s q)) (queue s))))"

end
