(* ===== verification/Queue_Facts.thy ===== *)
theory Queue_Facts
  imports Queue_Store
begin

text \<open>
  What the queue guarantees: the specification of a claim, mutual exclusion of checkouts, one
  active item per loop, the fences of a human hold and of a pending review, unique active dedupe
  keys, and the clean-up of stale items. Histories are lists of the statements that change the
  table; \<open>sample_store\<close> is the store of the witnesses.
\<close>


section \<open>Updates that keep the table valid\<close>

lemma distinct_map_filter_map:
  assumes "distinct (map K (filter D xs))"
    and "\<And>x. x \<in> set xs \<Longrightarrow> D (g x) \<Longrightarrow> D x" and "\<And>x. x \<in> set xs \<Longrightarrow> D (g x) \<Longrightarrow> K (g x) = K x"
  shows "distinct (map K (filter D (map g xs))) \<and> K ` set (filter D (map g xs)) \<subseteq> K ` set (filter D xs)"
  using assms
proof (induction xs)
  case (Cons x xs)
  then have "distinct (map K (filter D (map g xs)))"
    and "K ` set (filter D (map g xs)) \<subseteq> K ` set (filter D xs)"
    by (auto split: if_splits)
  with Cons.prems show ?case by auto
qed simp

lemma update_keeps_unique:
  assumes "active_dedupe_unique rows"
    and "\<And>q. q \<in> set rows \<Longrightarrow> P q \<Longrightarrow> in_dedupe_index (f q) \<Longrightarrow> in_dedupe_index q"
    and "\<And>q. q \<in> set rows \<Longrightarrow> P q \<Longrightarrow> QDedupeKey (f q) = QDedupeKey q"
  shows "active_dedupe_unique (update_where P f rows)"
  unfolding active_dedupe_unique_def update_where_def
  by (rule distinct_map_filter_map [THEN conjunct1]) (use assms in \<open>auto simp: active_dedupe_unique_def split: if_splits\<close>)

definition quiet_update :: "QueueItemRecord \<Rightarrow> QueueItemRecord \<Rightarrow> bool" where
  "quiet_update q q' \<longleftrightarrow> QID q' = QID q \<and> QDedupeKey q' = QDedupeKey q \<and> QType q' = QType q
     \<and> QProjectID q' = QProjectID q \<and> QLoopID q' = QLoopID q \<and> QLockKey q' = QLockKey q
     \<and> QRepo q' = QRepo q \<and> QTargetType q' = QTargetType q \<and> QTargetID q' = QTargetID q"

lemma update_valid:
  assumes "queue_valid s"
    and "\<And>q. q \<in> set (queue s) \<Longrightarrow> P q \<Longrightarrow> quiet_update q (f q)"
    and "\<And>q. q \<in> set (queue s) \<Longrightarrow> P q \<Longrightarrow> active_status (QStatus (f q)) \<Longrightarrow> active_status (QStatus q)"
    and "\<And>q. q \<in> set (queue s) \<Longrightarrow> P q \<Longrightarrow> row_checks (f q)"
  shows "commit_queue s (update_where P f (queue s)) = Inr (s\<lparr>queue := update_where P f (queue s)\<rparr>)
    \<and> queue_valid (s\<lparr>queue := update_where P f (queue s)\<rparr>)"
proof -
  let ?rows = "update_where P f (queue s)"
  have ids: "map QID ?rows = map QID (queue s)"
    using assms(2) by (auto simp: update_where_def quiet_update_def)
  have "active_dedupe_unique ?rows"
    using assms by (intro update_keeps_unique) (auto simp: queue_valid_def quiet_update_def in_dedupe_index_def)
  moreover have "list_all row_checks ?rows" "list_all (row_references s) ?rows"
    using assms by (auto simp: list_all_iff set_update_where queue_valid_def quiet_update_def row_references_def)
  ultimately show ?thesis
    using assms(1) ids by (simp add: commit_queue_def queue_valid_def)
qed

section \<open>Claiming\<close>

lemma claim_row_quiet [simp]: "quiet_update q (claim_row now who q)" "QStatus (claim_row now who q) = running"
  "QID (claim_row now who q) = QID q"
  by (simp_all add: quiet_update_def claim_row_def)

lemma claim_row_checks: "row_checks q \<Longrightarrow> row_checks (claim_row now who q)"
  by (simp add: row_checks_def claim_row_def)

lemma scheduled_set: "q \<in> set (scheduled s now extra) \<longleftrightarrow> q \<in> set (queue s) \<and> eligible s now q \<and> extra q"
  by (simp add: scheduled_def)

lemma claim_None:
  "first_min claim_key (scheduled s now extra) = None \<Longrightarrow> claimNextMatching extra now who s = Inr (None, s)"
  by (simp add: claimNextMatching_def)

lemma claim_Some:
  assumes "queue_valid s" and "first_min claim_key (scheduled s now extra) = Some c"
  shows "claimNextMatching extra now who s
    = Inr (Some (claim_row now who c), s\<lparr>queue := update_where (\<lambda>q. q = c) (claim_row now who) (queue s)\<rparr>)
    \<and> queue_valid (s\<lparr>queue := update_where (\<lambda>q. q = c) (claim_row now who) (queue s)\<rparr>)"
proof -
  from first_min_Some [OF assms(2)] have c: "c \<in> set (queue s)" "eligible s now c"
    by (simp_all add: scheduled_set)
  have d: "distinct (map QID (queue s))" using assms(1) by (simp add: queue_valid_def)
  have one: "QID q = QID c \<and> QStatus q = queued \<longleftrightarrow> q = c" if "q \<in> set (queue s)" for q
    using that c distinct_ids_unique [OF d] by (auto simp: eligible_def)
  then have rows: "update_where (\<lambda>q. QID q = QID c \<and> QStatus q = queued) (claim_row now who) (queue s)
      = update_where (\<lambda>q. q = c) (claim_row now who) (queue s)"
    by (auto simp: update_where_def)
  have st: "QStatus c = queued" using c(2) by (simp add: eligible_def)
  have commit: "commit_queue s (update_where (\<lambda>q. q = c) (claim_row now who) (queue s))
      = Inr (s\<lparr>queue := update_where (\<lambda>q. q = c) (claim_row now who) (queue s)\<rparr>)
      \<and> queue_valid (s\<lparr>queue := update_where (\<lambda>q. q = c) (claim_row now who) (queue s)\<rparr>)"
  proof (rule update_valid [OF assms(1)])
    have "row_checks c" using assms(1) c(1) by (auto simp: queue_valid_def list_all_iff)
    then show "row_checks (claim_row now who q)" if "q = c" for q
      using that claim_row_checks by simp
    show "active_status (QStatus q)" if "q = c" for q
      using that st by (simp add: active_status_def)
  qed simp
  have "find (\<lambda>q. QID q = QID c) (map (\<lambda>r. if r = c then claim_row now who r else r) qs) = Some (claim_row now who c)"
    if "distinct (map QID qs)" "c \<in> set qs" for qs
    using that by (induction qs) (auto simp: image_iff)
  then have "find (\<lambda>q. QID q = QID c) (update_where (\<lambda>q. q = c) (claim_row now who) (queue s))
      = Some (claim_row now who c)"
    using d c(1) by (simp add: update_where_def)
  with commit show ?thesis
    using assms(2) by (simp add: claimNextMatching_def rows)
qed

text \<open>
  C7. A claim on a valid store never fails and never starves a caller: it returns nothing exactly
  when no queued item is eligible and meets the caller's restriction, and otherwise a row whose
  item was eligible and minimal in the scheduler's order among all such items; that row is the
  only one changed, it is now running under the claimant, and the store stays valid.
\<close>

theorem claim_next_spec:
  assumes "queue_valid s"
  shows "case claimNextMatching extra now who s of
      Inl _ \<Rightarrow> False
    | Inr (None, s') \<Rightarrow> s' = s \<and> list_all (\<lambda>q. \<not> (eligible s now q \<and> extra q)) (queue s)
    | Inr (Some r, s') \<Rightarrow> (\<exists>c \<in> set (queue s). eligible s now c \<and> extra c
        \<and> list_all (\<lambda>q. \<not> (eligible s now q \<and> extra q) \<or> claim_key c \<le> claim_key q) (queue s)
        \<and> r = claim_row now who c
        \<and> s' = s\<lparr>queue := update_where (\<lambda>q. q = c) (claim_row now who) (queue s)\<rparr> \<and> queue_valid s')"
proof (cases "first_min claim_key (scheduled s now extra)")
  case None
  then have "scheduled s now extra = []" by simp
  then have "list_all (\<lambda>q. \<not> (eligible s now q \<and> extra q)) (queue s)"
    by (auto simp: scheduled_def filter_empty_conv list_all_iff)
  then show ?thesis by (simp add: claim_None [OF None])
next
  case (Some c)
  then have "c \<in> set (scheduled s now extra)" "\<forall>y \<in> set (scheduled s now extra). claim_key c \<le> claim_key y"
    using first_min_Some [OF Some] by simp_all
  then show ?thesis
    using claim_Some [OF assms Some] by (auto simp: scheduled_set list_all_iff)
qed

section \<open>Histories\<close>

text \<open>
  Every statement that changes the queue table, and writes to the other tables, whose deletions
  cascade to the queue items that reference the deleted rows. A claim's restriction may read the
  store. An operation that reports an error leaves the store.
\<close>

datatype queue_op =
    OpClaim "store \<Rightarrow> QueueItemRecord \<Rightarrow> bool" string string
  | OpUpsert QueueItemRecord
  | OpComplete string string
  | OpUpdateLockKey string string string
  | OpMarkRetry QueueMarkRetryInput
  | OpMarkRetryIfRunning QueueMarkRetryInput
  | OpFail QueueFailInput
  | OpRequeueRunning string string
  | OpRequeueCancelled string string
  | OpRequeueCompleted string string string
  | OpRequeueFailed string string string
  | OpRequeueFailedAttempts string string string int
  | OpRequeueLatestFailed string string
  | OpCancelByLoop string string "string option"
  | OpCancelByProject string string "string option"
  | OpCancelExcept string string string "string option"
  | OpCleanup string string
  | OpOtherTables "ProjectRecord list" "LoopRecord list" "RunRecord list"

fun stored :: "store \<Rightarrow> (store_error, store) result \<Rightarrow> store" where
  "stored s (Inl _) = s"
| "stored s (Inr s') = s'"

fun stored_snd :: "store \<Rightarrow> (store_error, 'a \<times> store) result \<Rightarrow> store" where
  "stored_snd s (Inl _) = s"
| "stored_snd s (Inr (_, s')) = s'"

fun exec_op :: "queue_op \<Rightarrow> store \<Rightarrow> store" where
  "exec_op (OpClaim extra now who) s = stored_snd s (claimNextMatching (extra s) now who s)"
| "exec_op (OpUpsert r) s = stored s (Upsert r s)"
| "exec_op (OpComplete k t) s = stored s (Complete k t s)"
| "exec_op (OpUpdateLockKey k l t) s = stored s (UpdateLockKey k l t s)"
| "exec_op (OpMarkRetry i) s = stored s (MarkRetry i s)"
| "exec_op (OpMarkRetryIfRunning i) s = stored s (MarkRetryIfRunning i s)"
| "exec_op (OpFail i) s = stored s (Fail i s)"
| "exec_op (OpRequeueRunning l t) s = stored_snd s (RequeueRunningByLoop l t s)"
| "exec_op (OpRequeueCancelled l t) s = stored_snd s (RequeueLatestCancelledByLoop l t s)"
| "exec_op (OpRequeueCompleted l q t) s = stored_snd s (RequeueCompletedByID l q t s)"
| "exec_op (OpRequeueFailed l q t) s = stored_snd s (RequeueFailedByID l q t s)"
| "exec_op (OpRequeueFailedAttempts l q t n) s = stored_snd s (RequeueFailedByIDWithAttempts l q t n s)"
| "exec_op (OpRequeueLatestFailed l t) s = stored_snd s (RequeueLatestFailedByLoop l t s)"
| "exec_op (OpCancelByLoop l t r) s = stored_snd s (CancelByLoop l t r s)"
| "exec_op (OpCancelByProject p t r) s = stored_snd s (CancelByProject p t r s)"
| "exec_op (OpCancelExcept l k t r) s = stored_snd s (CancelActiveByLoopExcept l k t r s)"
| "exec_op (OpCleanup t r) s = stored_snd s (CleanupStaleQueued t r s)"
| "exec_op (OpOtherTables ps ls rs) s = (let s' = s\<lparr>projects := ps, loops := ls, runs := rs\<rparr>
     in s'\<lparr>queue := filter (row_references s') (queue s)\<rparr>)"

definition exec_ops :: "queue_op list \<Rightarrow> store \<Rightarrow> store" where
  "exec_ops ops s = fold exec_op ops s"

text \<open>How an operation changes the rows: not at all, or by an update whose rows keep their identity.\<close>

lemma stored_commit: "stored s (commit_queue s rows) = s \<or> stored s (commit_queue s rows) = s\<lparr>queue := rows\<rparr>"
  by (auto simp: commit_queue_def)

lemma stored_counted: "stored_snd s (counted_update P f s) = s
    \<or> stored_snd s (counted_update P f s) = s\<lparr>queue := update_where P f (queue s)\<rparr>"
  by (auto simp: counted_update_def commit_queue_def)

lemma stored_complete: "stored s (Complete k t s) = s \<or> stored s (Complete k t s)
    = s\<lparr>queue := update_where (\<lambda>q. QID q = k \<and> active_status (QStatus q))
        (\<lambda>q. q\<lparr>QStatus := completed, QFinishedAt := Some t, QUpdatedAt := t\<rparr>) (queue s)\<rparr>"
  by (auto simp: Complete_def Let_def commit_queue_def)

text \<open>Operations that take items out of the active states, or leave them there.\<close>

fun settling :: "queue_op \<Rightarrow> bool" where
  "settling (OpComplete _ _) = True"
| "settling (OpMarkRetryIfRunning _) = True"
| "settling (OpFail _) = True"
| "settling (OpRequeueRunning _ _) = True"
| "settling (OpCancelByLoop _ _ _) = True"
| "settling (OpCancelByProject _ _ _) = True"
| "settling (OpCancelExcept _ _ _ _) = True"
| "settling (OpCleanup _ _) = True"
| "settling _ = False"

fun requeueing :: "queue_op \<Rightarrow> bool" where
  "requeueing (OpRequeueCancelled _ _) = True"
| "requeueing (OpRequeueCompleted _ _ _) = True"
| "requeueing (OpRequeueFailed _ _ _) = True"
| "requeueing (OpRequeueFailedAttempts _ _ _ _) = True"
| "requeueing (OpRequeueLatestFailed _ _) = True"
| "requeueing _ = False"

definition idle_row :: "QueueItemRecord \<Rightarrow> QueueItemRecord \<Rightarrow> bool" where
  "idle_row q q' \<longleftrightarrow> quiet_update q q' \<and> QStatus q' \<noteq> running"

lemmas row_updates = retry_row_def requeue_row_def clear_errors_def cancel_row_def

definition settled_to :: "store \<Rightarrow> store \<Rightarrow> bool" where
  "settled_to s s' \<longleftrightarrow> s' = s \<or> (\<exists>P f. s' = s\<lparr>queue := update_where P f (queue s)\<rparr>
     \<and> (\<forall>q. idle_row q (f q))
     \<and> (\<forall>q \<in> set (queue s). P q \<longrightarrow> active_status (QStatus (f q)) \<longrightarrow> active_status (QStatus q)))"

definition requeued_to :: "store \<Rightarrow> store \<Rightarrow> bool" where
  "requeued_to s s' \<longleftrightarrow> s' = s \<or> (\<exists>P f k l. s' = s\<lparr>queue := update_where P f (queue s)\<rparr>
     \<and> (\<forall>q. idle_row q (f q))
     \<and> (\<forall>q \<in> set (queue s). P q \<longrightarrow> QID q = k \<and> QLoopID q = Some l \<and> no_other_active s l k))"

lemma settle_intros:
  assumes "\<And>q. idle_row q (f q)"
    and "\<And>q. q \<in> set (queue s) \<Longrightarrow> P q \<Longrightarrow> active_status (QStatus (f q)) \<Longrightarrow> active_status (QStatus q)"
  shows "settled_to s (stored s (commit_queue s (update_where P f (queue s))))"
    and "settled_to s (stored_snd s (counted_update P f s))"
    and "settled_to s (s\<lparr>queue := update_where P f (queue s)\<rparr>)"
  using assms stored_commit [of s "update_where P f (queue s)"] stored_counted [of s P f]
  unfolding settled_to_def by blast+

lemma requeue_intros:
  assumes "\<And>q. idle_row q (f q)"
    and "\<And>q. q \<in> set (queue s) \<Longrightarrow> P q \<Longrightarrow> QID q = k \<and> QLoopID q = Some l \<and> no_other_active s l k"
  shows "requeued_to s (stored_snd s (counted_update P f s))"
  using assms stored_counted [of s P f] unfolding requeued_to_def by blast

lemma settled_refl [simp]: "settled_to s s" and requeued_refl [simp]: "requeued_to s s"
  by (simp_all add: settled_to_def requeued_to_def)

lemma idle_rows [simp]:
  "idle_row q (retry_row i q)" "idle_row q (requeue_row t q)" "idle_row q (cancel_row t r q)"
  "idle_row q (clear_errors (requeue_row t q))" "idle_row q (clear_errors (requeue_row t (q\<lparr>QAttempts := n\<rparr>)))"
  by (simp_all add: idle_row_def quiet_update_def row_updates)

lemma settling_settled:
  assumes "settling p" shows "settled_to s (exec_op p s)"
proof (cases p)
  case (OpComplete k t)
  have "settled_to s (s\<lparr>queue := update_where (\<lambda>q. QID q = k \<and> active_status (QStatus q))
        (\<lambda>q. q\<lparr>QStatus := completed, QFinishedAt := Some t, QUpdatedAt := t\<rparr>) (queue s)\<rparr>)"
    by (rule settle_intros(3)) (simp_all add: idle_row_def quiet_update_def)
  then show ?thesis using OpComplete stored_complete [of s k t] by auto
next
  case (OpMarkRetryIfRunning i)
  then show ?thesis
    by (simp add: MarkRetryIfRunning_def) (rule settle_intros(1), simp_all add: active_status_def)
next
  case (OpFail i)
  then show ?thesis
    by (simp add: Fail_def) (rule settle_intros(1), simp_all add: idle_row_def quiet_update_def)
next
  case (OpRequeueRunning l t)
  then show ?thesis
    by (simp add: RequeueRunningByLoop_def) (rule settle_intros(2), simp_all add: active_status_def)
next
  case (OpCancelByLoop l t r)
  then show ?thesis
    by (simp add: CancelByLoop_def) (rule settle_intros(2), simp_all)
next
  case (OpCancelByProject l t r)
  then show ?thesis
    by (simp add: CancelByProject_def) (intro impI settle_intros(2), simp, simp add: active_status_def cancel_row_def)
next
  case (OpCancelExcept l k t r)
  then show ?thesis
    by (simp add: CancelActiveByLoopExcept_def) (intro impI settle_intros(2), simp_all)
next
  case (OpCleanup t r)
  then show ?thesis
    by (simp add: CleanupStaleQueued_def)
      (rule settle_intros(2), simp_all add: idle_row_def quiet_update_def active_status_def)
qed (use assms in simp_all)

lemma cancelled_id_loop: "findLatestCancelledQueueIDByLoop s l b = k \<Longrightarrow> k \<noteq> [] \<Longrightarrow>
    \<exists>q \<in> set (queue s). QID q = k \<and> QLoopID q = Some l"
  by (auto simp: findLatestCancelledQueueIDByLoop_def split: option.splits dest!: first_max_Some)

lemma requeue_failed_requeued: "requeued_to s (stored_snd s (requeue_failed l k t n s))"
  unfolding requeue_failed_def by (rule requeue_intros [where k = k and l = l]) simp_all

lemma requeueing_requeued:
  assumes "requeueing p" and "distinct (map QID (queue s))"
  shows "requeued_to s (exec_op p s)"
proof (cases p)
  case (OpRequeueCancelled l t)
  let ?k = "if findLatestCancelledQueueIDByLoop s l True = []
    then findLatestCancelledQueueIDByLoop s l False else findLatestCancelledQueueIDByLoop s l True"
  show ?thesis
  proof (cases "?k = []")
    case True
    with OpRequeueCancelled show ?thesis by (simp add: RequeueLatestCancelledByLoop_def Let_def)
  next
    case False
    then obtain q where q: "q \<in> set (queue s)" "QID q = ?k" "QLoopID q = Some l"
      using cancelled_id_loop by metis
    have loop: "QLoopID r = Some l" if "r \<in> set (queue s)" "QID r = ?k" for r
      using distinct_ids_unique [OF assms(2) that(1) q(1)] that(2) q(2,3) by simp
    have "requeued_to s (stored_snd s (counted_update (\<lambda>q. QID q = ?k \<and> QStatus q = cancelled
        \<and> no_other_active s l ?k) (\<lambda>q. clear_errors (requeue_row t q)) s))"
      by (rule requeue_intros [where k = ?k and l = l]) (use loop in simp_all)
    with OpRequeueCancelled False show ?thesis by (simp add: RequeueLatestCancelledByLoop_def Let_def)
  qed
next
  case (OpRequeueCompleted l k t)
  have "requeued_to s (stored_snd s (RequeueCompletedByID l k t s))"
    unfolding RequeueCompletedByID_def by (rule requeue_intros [where k = k and l = l]) simp_all
  with OpRequeueCompleted show ?thesis by simp
next
  case (OpRequeueLatestFailed l t)
  then show ?thesis
    by (simp add: RequeueLatestFailedByLoop_def Let_def RequeueFailedByID_def requeue_failed_requeued)
qed (use assms(1) in \<open>simp_all add: RequeueFailedByID_def RequeueFailedByIDWithAttempts_def requeue_failed_requeued\<close>)


section \<open>Invariants of histories\<close>

text \<open>Two running items that each hold a lock key never exclude one another.\<close>

definition excludes :: "QueueItemRecord \<Rightarrow> QueueItemRecord \<Rightarrow> bool" where
  "excludes a b \<longleftrightarrow> QStatus a = running \<and> QStatus b = running \<and> QID a \<noteq> QID b
     \<and> QLockKey a \<noteq> None \<and> QLockKey b \<noteq> None \<and> lock_conflict a b"

definition lock_exclusive :: "store \<Rightarrow> bool" where
  "lock_exclusive s \<longleftrightarrow> (\<forall>a \<in> set (queue s). \<forall>b \<in> set (queue s). \<not> excludes a b)"

definition shares_loop :: "QueueItemRecord \<Rightarrow> QueueItemRecord \<Rightarrow> bool" where
  "shares_loop a b \<longleftrightarrow> active_status (QStatus a) \<and> active_status (QStatus b) \<and> QID a \<noteq> QID b
     \<and> sql_eq (QLoopID a) (QLoopID b)"

definition one_active_per_loop :: "store \<Rightarrow> bool" where
  "one_active_per_loop s \<longleftrightarrow> (\<forall>a \<in> set (queue s). \<forall>b \<in> set (queue s). \<not> shares_loop a b)"

lemma sql_eq_sym: "sql_eq a b = sql_eq b a"
  by (cases a; cases b) auto

lemma sql_eq_iff: "sql_eq a b \<longleftrightarrow> a = b \<and> a \<noteq> None"
  by (cases a; cases b) auto

lemma lock_conflict_sym: "lock_conflict a b = lock_conflict b a"
  by (auto simp: lock_conflict_def sql_eq_sym [of "QLockKey a" "QLockKey b"] sql_eq_sym [of "QRepo a" "QRepo b"])

lemma lock_conflict_quiet: "quiet_update a a' \<Longrightarrow> quiet_update b b' \<Longrightarrow> lock_conflict a' b' = lock_conflict a b"
  by (simp add: lock_conflict_def quiet_update_def)

lemma quiet_refl [simp]: "quiet_update q q"
  by (simp add: quiet_update_def)

lemma idle_update_running:
  "(\<And>q. idle_row q (f q)) \<Longrightarrow> a \<in> set (update_where P f rows) \<Longrightarrow> QStatus a = running \<Longrightarrow> a \<in> set rows"
  unfolding set_update_where idle_row_def by auto

lemma idle_update_exclusive:
  assumes "\<And>q. idle_row q (f q)" and "lock_exclusive s"
  shows "lock_exclusive (s\<lparr>queue := update_where P f (queue s)\<rparr>)"
  using assms(2) idle_update_running [OF assms(1)]
  by (simp add: lock_exclusive_def) (metis excludes_def)

lemma claim_exclusive:
  assumes "queue_valid s" and "lock_exclusive s"
  shows "lock_exclusive (stored_snd s (claimNextMatching extra now who s))"
proof (cases "first_min claim_key (scheduled s now extra)")
  case None
  with assms(2) show ?thesis by (simp add: claim_None [OF None])
next
  case (Some c)
  let ?c = "claim_row now who c" and ?rows = "update_where (\<lambda>q. q = c) (claim_row now who) (queue s)"
  from first_min_Some [OF Some] have el: "eligible s now c" by (simp add: scheduled_set)
  have key: "QLockKey ?c = QLockKey c" by (simp add: claim_row_def)
  have clear: "\<not> excludes b ?c" if "b \<in> set (queue s)" for b
    using el that key lock_conflict_quiet [of b b c ?c]
    by (auto simp: excludes_def eligible_def list_ex_iff)
  have sym: "excludes x y \<Longrightarrow> excludes y x" for x y
    by (auto simp: excludes_def lock_conflict_sym)
  have irr: "\<not> excludes x x" for x by (simp add: excludes_def)
  have rows: "x \<in> set (queue s) \<or> x = ?c" if "x \<in> set ?rows" for x
    using that by (auto simp: set_update_where)
  have "\<not> excludes x y" if "x \<in> set ?rows" "y \<in> set ?rows" for x y
    using rows [OF that(1)] rows [OF that(2)] clear sym irr assms(2) unfolding lock_exclusive_def by blast
  then show ?thesis
    using claim_Some [OF assms(1) Some] by (simp add: lock_exclusive_def)
qed

text \<open>\<open>Upsert\<close> inserts or replaces; the scheduler's producers write queued rows.\<close>

lemma upsert_rows:
  assumes "Upsert r s = Inr s'"
  shows "\<forall>a \<in> set (queue s'). a \<in> set (queue s) \<or> (QID a = QID r \<and> QStatus a = QStatus r)"
  using assms by (auto simp: Upsert_def commit_queue_Inr set_update_where set_excluded_def split: if_splits)

lemma upsert_ids:
  assumes "Upsert r s = Inr s'" and "distinct (map QID (queue s))"
  shows "distinct (map QID (queue s'))"
proof (cases "list_ex (\<lambda>q. QID q = QID r) (queue s)")
  case True
  with assms(1) have "queue s' = update_where (\<lambda>q. QID q = QID r) (set_excluded r) (queue s)"
    by (simp add: Upsert_def commit_queue_Inr)
  moreover have "map QID (update_where (\<lambda>q. QID q = QID r) (set_excluded r) (queue s)) = map QID (queue s)"
    by (rule map_update_where) (simp add: set_excluded_def)
  ultimately show ?thesis using assms(2) by simp
next
  case False
  with assms show ?thesis by (auto simp: Upsert_def commit_queue_Inr list_ex_iff)
qed

fun fences_kept :: "queue_op \<Rightarrow> bool" where
  "fences_kept (OpUpsert r) = (QStatus r \<noteq> running)"
| "fences_kept (OpUpdateLockKey _ _ _) = False"
| "fences_kept _ = True"

lemma commit_ids_valid:
  assumes "commit_queue s rows = Inr s'" and "distinct (map QID rows)" shows "queue_valid s'"
  using assms by (rule commit_queue_valid)

lemma update_ids: "(\<And>q. QID (f q) = QID q) \<Longrightarrow> map QID (update_where P f rows) = map QID rows"
  by (rule map_update_where) simp

lemma stored_commit_valid:
  "queue_valid s \<Longrightarrow> distinct (map QID rows) \<Longrightarrow> queue_valid (stored s (commit_queue s rows))"
  by (cases "commit_queue s rows") (auto dest: commit_queue_valid)

lemma stored_counted_valid:
  assumes "queue_valid s" and "\<And>q. QID (f q) = QID q"
  shows "queue_valid (stored_snd s (counted_update P f s))"
proof -
  have "distinct (map QID (update_where P f (queue s)))"
    using assms by (simp add: update_ids queue_valid_def)
  then show ?thesis
    using assms(1) by (auto simp: counted_update_def split: sum.split dest: commit_queue_valid)
qed

lemma complete_valid: "queue_valid s \<Longrightarrow> queue_valid (stored s (Complete k t s))"
proof -
  assume v: "queue_valid s"
  let ?P = "\<lambda>q. QID q = k \<and> active_status (QStatus q)"
  let ?f = "\<lambda>q. q\<lparr>QStatus := completed, QFinishedAt := Some t, QUpdatedAt := t\<rparr>"
  have "distinct (map QID (update_where ?P ?f (queue s)))"
    using v by (simp add: update_ids queue_valid_def)
  then show ?thesis
    using v by (auto simp: Complete_def Let_def split: sum.split dest: commit_queue_valid)
qed

lemma update_ids_valid: "queue_valid s \<Longrightarrow> (\<And>q. QID (f q) = QID q) \<Longrightarrow>
    queue_valid (stored s (commit_queue s (update_where P f (queue s))))"
  by (rule stored_commit_valid) (simp_all add: update_ids queue_valid_def)

lemma row_ids [simp]: "QID (retry_row i q) = QID q" "QID (requeue_row t q) = QID q"
  "QID (cancel_row t r q) = QID q" "QID (clear_errors q) = QID q"
  by (simp_all add: row_updates)

lemma claim_valid: "queue_valid s \<Longrightarrow> queue_valid (stored_snd s (claimNextMatching extra now who s))"
  using claim_None [of s now extra who] claim_Some [of s now extra _ who]
  by (cases "first_min claim_key (scheduled s now extra)") auto

lemma upsert_valid: "queue_valid s \<Longrightarrow> queue_valid (stored s (Upsert r s))"
proof (cases "Upsert r s")
  case (Inr s')
  assume "queue_valid s"
  then have "distinct (map QID (queue s'))" using upsert_ids [OF Inr] by (simp add: queue_valid_def)
  moreover from Inr obtain rows where "commit_queue s rows = Inr s'" by (auto simp: Upsert_def split: if_splits)
  ultimately show ?thesis using Inr commit_queue_valid [of s rows s'] by (simp add: commit_queue_Inr)
qed simp

lemma filter_map_distinct: "distinct (map g xs) \<Longrightarrow> distinct (map g (filter P xs))"
  by (induction xs) auto

lemma other_tables_valid:
  assumes "queue_valid s" shows "queue_valid (exec_op (OpOtherTables ps ls rs) s)"
proof -
  let ?s = "s\<lparr>projects := ps, loops := ls, runs := rs\<rparr>"
  have "active_dedupe_unique (filter (row_references ?s) (queue s))"
    using assms filter_map_distinct [of QDedupeKey "filter in_dedupe_index (queue s)" "row_references ?s"]
    by (simp add: active_dedupe_unique_def queue_valid_def conj_commute)
  then show ?thesis
    using assms by (auto simp: queue_valid_def list_all_iff filter_map_distinct Let_def)
qed

lemma exec_op_valid: "queue_valid s \<Longrightarrow> queue_valid (exec_op p s)"
  by (cases p) (simp_all add: claim_valid upsert_valid complete_valid UpdateLockKey_def MarkRetry_def
      MarkRetryIfRunning_def Fail_def RequeueRunningByLoop_def RequeueLatestCancelledByLoop_def Let_def
      RequeueCompletedByID_def RequeueFailedByID_def RequeueFailedByIDWithAttempts_def requeue_failed_def
      RequeueLatestFailedByLoop_def CancelByLoop_def CancelByProject_def CancelActiveByLoopExcept_def
      CleanupStaleQueued_def stored_counted_valid update_ids_valid other_tables_valid
      del: exec_op.simps(18))

lemma settled_idle: "settled_to s s' \<Longrightarrow> lock_exclusive s \<Longrightarrow> lock_exclusive s'"
  using idle_update_exclusive unfolding settled_to_def by blast

lemma requeued_idle: "requeued_to s s' \<Longrightarrow> lock_exclusive s \<Longrightarrow> lock_exclusive s'"
  using idle_update_exclusive unfolding requeued_to_def by blast

lemma mark_retry_exclusive: "lock_exclusive s \<Longrightarrow> lock_exclusive (exec_op (OpMarkRetry i) s)"
  using stored_commit [of s "update_where (\<lambda>q. QID q = RetryID i \<and> \<not> project_archived s q) (retry_row i) (queue s)"]
    idle_update_exclusive [of "retry_row i" s] by (auto simp: MarkRetry_def)

lemma upsert_exclusive:
  assumes "QStatus r \<noteq> running" and "lock_exclusive s"
  shows "lock_exclusive (stored s (Upsert r s))"
proof (cases "Upsert r s")
  case (Inr s')
  from upsert_rows [OF Inr] assms(1) have "a \<in> set (queue s)" if "a \<in> set (queue s')" "QStatus a = running" for a
    using that by metis
  with assms(2) Inr show ?thesis by (simp add: lock_exclusive_def) (metis excludes_def)
qed (use assms in simp)

lemma exec_op_exclusive:
  assumes "queue_valid s" and "lock_exclusive s" and "fences_kept p"
  shows "lock_exclusive (exec_op p s)"
proof -
  have d: "distinct (map QID (queue s))" using assms(1) by (simp add: queue_valid_def)
  consider "settling p" | "requeueing p" | (claim) e now who where "p = OpClaim e now who"
    | (upsert) r where "p = OpUpsert r" | (retry) i where "p = OpMarkRetry i"
    | (other) ps ls rs where "p = OpOtherTables ps ls rs"
    using assms(3) by (cases p) auto
  then show ?thesis
  proof cases
    case 1 then show ?thesis using settled_idle [OF settling_settled] assms(2) by blast
  next
    case 2 then show ?thesis using requeued_idle [OF requeueing_requeued [OF _ d]] assms(2) by blast
  next
    case claim then show ?thesis using claim_exclusive [OF assms(1,2)] by simp
  next
    case upsert then show ?thesis using upsert_exclusive assms by simp
  next
    case retry then show ?thesis using mark_retry_exclusive assms(2) by blast
  next
    case other then show ?thesis using assms(2) by (auto simp: lock_exclusive_def Let_def)
  qed
qed

interpretation queue_locks: operation_invariant exec_op fences_kept "\<lambda>s. queue_valid s \<and> lock_exclusive s"
  by unfold_locales (simp add: exec_op_valid exec_op_exclusive)

text \<open>
  C8. Mutual exclusion of checkouts: along any history of claims, completions, failures, retries,
  requeues, cancellations, clean-ups, insertions of items that are not running and writes to the
  other tables, two running items with lock keys never conflict (same key, or same repository
  target with one of them keyed by the bare target), if none did at the start.
\<close>

theorem lock_exclusion_kept:
  assumes "queue_valid s" and "lock_exclusive s" and "list_all fences_kept ops"
  shows "lock_exclusive (exec_ops ops s)"
  using queue_locks.history_kept [OF assms(3), of s] assms(1,2) by (simp add: exec_ops_def)

section \<open>One active item per loop\<close>

lemma update_one_active:
  assumes "\<And>q. P q \<Longrightarrow> quiet_update q (f q)"
    and "\<And>q. q \<in> set (queue s) \<Longrightarrow> P q \<Longrightarrow> active_status (QStatus (f q)) \<Longrightarrow> active_status (QStatus q)"
    and "one_active_per_loop s"
  shows "one_active_per_loop (s\<lparr>queue := update_where P f (queue s)\<rparr>)"
proof -
  have orig: "\<exists>r \<in> set (queue s). QID r = QID a \<and> QLoopID r = QLoopID a
      \<and> (active_status (QStatus a) \<longrightarrow> active_status (QStatus r))"
    if "a \<in> set (update_where P f (queue s))" for a
    using that assms(1,2) unfolding set_update_where quiet_update_def by metis
  show ?thesis
    unfolding one_active_per_loop_def
  proof (intro ballI notI)
    fix a b
    assume "a \<in> set (queue (s\<lparr>queue := update_where P f (queue s)\<rparr>))"
      "b \<in> set (queue (s\<lparr>queue := update_where P f (queue s)\<rparr>))" and sh: "shares_loop a b"
    then obtain r r' where "r \<in> set (queue s)" "QID r = QID a" "QLoopID r = QLoopID a"
      "active_status (QStatus a) \<longrightarrow> active_status (QStatus r)"
      "r' \<in> set (queue s)" "QID r' = QID b" "QLoopID r' = QLoopID b"
      "active_status (QStatus b) \<longrightarrow> active_status (QStatus r')"
      using orig [of a] orig [of b] by auto
    with sh have "shares_loop r r'" by (simp add: shares_loop_def)
    with \<open>r \<in> set (queue s)\<close> \<open>r' \<in> set (queue s)\<close> assms(3) show False
      unfolding one_active_per_loop_def by blast
  qed
qed

lemma settled_one_active: "settled_to s s' \<Longrightarrow> one_active_per_loop s \<Longrightarrow> one_active_per_loop s'"
  using update_one_active unfolding settled_to_def idle_row_def by blast

lemma requeued_one_active:
  assumes "requeued_to s s'" and "one_active_per_loop s"
  shows "one_active_per_loop s'"
proof (cases "s' = s")
  case False
  with assms(1) obtain P f k l where s': "s' = s\<lparr>queue := update_where P f (queue s)\<rparr>"
    and quiet: "\<And>q. idle_row q (f q)"
    and guard: "\<And>q. q \<in> set (queue s) \<Longrightarrow> P q \<Longrightarrow> QID q = k \<and> QLoopID q = Some l \<and> no_other_active s l k"
    unfolding requeued_to_def by blast
  have orig: "(QID a = k \<and> QLoopID a = Some l \<and> no_other_active s l k) \<or> a \<in> set (queue s)"
    if "a \<in> set (update_where P f (queue s))" for a
    using that guard quiet unfolding set_update_where idle_row_def quiet_update_def by metis
  have alone: "\<not> shares_loop a b \<and> \<not> shares_loop b a"
    if "QID a = k" "QLoopID a = Some l" "no_other_active s l k" "b \<in> set (queue s)" for a b
    using that by (auto simp: shares_loop_def no_other_active_def list_ex_iff sql_eq_iff)
  have same: "\<not> shares_loop a b" if "QID a = k" "QID b = k" for a b
    using that by (simp add: shares_loop_def)
  have "\<not> shares_loop a b" if "a \<in> set (update_where P f (queue s))" "b \<in> set (update_where P f (queue s))" for a b
    using orig [OF that(1)] orig [OF that(2)] alone same assms(2) unfolding one_active_per_loop_def by metis
  then show ?thesis by (simp add: one_active_per_loop_def s')
qed (use assms in simp)

lemma claim_one_active:
  assumes "queue_valid s" and "one_active_per_loop s"
  shows "one_active_per_loop (stored_snd s (claimNextMatching extra now who s))"
proof (cases "first_min claim_key (scheduled s now extra)")
  case None
  with assms(2) show ?thesis by (simp add: claim_None [OF None])
next
  case (Some c)
  from first_min_Some [OF Some] have "active_status (QStatus c)"
    by (simp add: scheduled_set eligible_def active_status_def)
  then have "one_active_per_loop (s\<lparr>queue := update_where (\<lambda>q. q = c) (claim_row now who) (queue s)\<rparr>)"
    by (intro update_one_active assms(2)) simp_all
  then show ?thesis using claim_Some [OF assms(1) Some] by simp
qed

lemma lock_key_one_active: "one_active_per_loop s \<Longrightarrow> one_active_per_loop (exec_op (OpUpdateLockKey k l t) s)"
proof -
  assume one: "one_active_per_loop s"
  have shares: "shares_loop (q\<lparr>QLockKey := x, QUpdatedAt := y\<rparr>) r = shares_loop q r"
    "shares_loop r (q\<lparr>QLockKey := x, QUpdatedAt := y\<rparr>) = shares_loop r q" for q r x y
    by (simp_all add: shares_loop_def)
  have "one_active_per_loop (s\<lparr>queue := update_where (\<lambda>q. QID q = k)
      (\<lambda>q. q\<lparr>QLockKey := Some l, QUpdatedAt := t\<rparr>) (queue s)\<rparr>)"
    using one by (auto simp: one_active_per_loop_def set_update_where shares)
  then show ?thesis
    using one stored_commit [of s "update_where (\<lambda>q. QID q = k)
      (\<lambda>q. q\<lparr>QLockKey := Some l, QUpdatedAt := t\<rparr>) (queue s)"] by (auto simp: UpdateLockKey_def)
qed

fun requeue_guarded :: "queue_op \<Rightarrow> bool" where
  "requeue_guarded (OpUpsert _) = False"
| "requeue_guarded (OpMarkRetry _) = False"
| "requeue_guarded _ = True"

lemma exec_op_one_active:
  assumes "queue_valid s" and "one_active_per_loop s" and "requeue_guarded p"
  shows "one_active_per_loop (exec_op p s)"
proof -
  have d: "distinct (map QID (queue s))" using assms(1) by (simp add: queue_valid_def)
  consider "settling p" | "requeueing p" | (claim) e now who where "p = OpClaim e now who"
    | (key) k l t where "p = OpUpdateLockKey k l t" | (other) ps ls rs where "p = OpOtherTables ps ls rs"
    using assms(3) by (cases p) auto
  then show ?thesis
  proof cases
    case 1 then show ?thesis using settled_one_active [OF settling_settled] assms(2) by blast
  next
    case 2 then show ?thesis using requeued_one_active [OF requeueing_requeued [OF _ d]] assms(2) by blast
  next
    case claim then show ?thesis using claim_one_active [OF assms(1,2)] by simp
  next
    case key then show ?thesis using lock_key_one_active assms(2) by blast
  next
    case other then show ?thesis using assms(2) by (auto simp: one_active_per_loop_def Let_def)
  qed
qed

interpretation queue_loops: operation_invariant exec_op requeue_guarded "\<lambda>s. queue_valid s \<and> one_active_per_loop s"
  by unfold_locales (simp add: exec_op_valid exec_op_one_active)

text \<open>
  C9. Requeuing never doubles a loop: along any history of claims, settlements, cancellations and
  guarded requeues, however interleaved, no loop comes to have two active items, if none had at
  the start. (Insertion is guarded by its callers, and \<open>MarkRetry\<close> alone is unguarded.)
\<close>

theorem one_active_item_kept:
  assumes "queue_valid s" and "one_active_per_loop s" and "list_all requeue_guarded ops"
  shows "one_active_per_loop (exec_ops ops s)"
  using queue_loops.history_kept [OF assms(3), of s] assms(1,2) by (simp add: exec_ops_def)

section \<open>Fences\<close>

lemma claimed_eligible:
  assumes "queue_valid s" and "claimNextMatching extra now who s = Inr (Some r, s')"
  obtains c where "c \<in> set (queue s)" "eligible s now c" "r = claim_row now who c"
proof (cases "first_min claim_key (scheduled s now extra)")
  case None
  with assms(2) show ?thesis by (simp add: claim_None [OF None])
next
  case (Some c)
  with claim_Some [OF assms(1) Some, of who] assms(2) first_min_Some [OF Some] show ?thesis
    by (intro that [of c]) (simp_all add: scheduled_set)
qed

lemma claim_row_fields [simp]:
  "QLoopID (claim_row now who c) = QLoopID c" "QProjectID (claim_row now who c) = QProjectID c"
  "QRepo (claim_row now who c) = QRepo c" "QPRNumber (claim_row now who c) = QPRNumber c"
  "QType (claim_row now who c) = QType c" "item_loop s (claim_row now who c) = item_loop s c"
  by (simp_all add: claim_row_def item_loop_def)

text \<open>The identity of an item's work: its loop's where it has one, else its own.\<close>

definition work_project :: "store \<Rightarrow> QueueItemRecord \<Rightarrow> string option" where
  "work_project s q = coalesce (map_option LoopProjectID (item_loop s q)) (QProjectID q)"

definition work_repo :: "store \<Rightarrow> QueueItemRecord \<Rightarrow> string option" where
  "work_repo s q = coalesce (Option.bind (item_loop s q) LoopRepo) (QRepo q)"

definition work_pr :: "store \<Rightarrow> QueueItemRecord \<Rightarrow> int option" where
  "work_pr s q = coalesce (Option.bind (item_loop s q) LoopPRNumber) (QPRNumber q)"

lemma find_loop_member:
  "distinct (map LoopID (loops s)) \<Longrightarrow> l \<in> set (loops s) \<Longrightarrow> find_loop s (LoopID l) = Some l"
proof -
  have "distinct (map LoopID ls) \<Longrightarrow> l \<in> set ls \<Longrightarrow> find (\<lambda>x. LoopID x = LoopID l) ls = Some l" for ls
    by (induction ls) (auto simp: image_iff)
  then show "distinct (map LoopID (loops s)) \<Longrightarrow> l \<in> set (loops s) \<Longrightarrow> find_loop s (LoopID l) = Some l"
    by (simp add: find_loop_def)
qed

text \<open>
  C23. A human hold fences the checkout: while a loop is taken over by a human, no claim, whatever
  its restriction, returns an item of that loop, nor any item whose work (its loop's identity, or
  its own) is the held pull request of the same project and repository; and the loop of a claimed
  item is never in a paused or terminal status.
\<close>

theorem held_work_not_claimed:
  assumes "queue_valid s" and "distinct (map LoopID (loops s))"
    and "held \<in> set (loops s)" and "LoopStat held = ''human_takeover''"
    and "claimNextMatching extra now who s = Inr (Some r, s')"
  shows "QLoopID r \<noteq> Some (LoopID held)
    \<and> \<not> (LoopTargetTyp held = ''pull_request'' \<and> LoopRepo held = Some repo \<and> LoopPRNumber held = Some n
         \<and> work_project s r = Some (LoopProjectID held) \<and> work_repo s r = Some repo \<and> work_pr s r = Some n)
    \<and> (case item_loop s r of None \<Rightarrow> True | Some l \<Rightarrow> LoopStat l \<notin> set parked_statuses)"
proof -
  obtain c where c: "eligible s now c" "r = claim_row now who c"
    using claimed_eligible [OF assms(1,5)] by blast
  have free: "\<not> human_hold_covers held (item_loop s c) c"
    using c(1) assms(3) by (auto simp: eligible_def list_ex_iff)
  have "QLoopID c \<noteq> Some (LoopID held)"
  proof
    assume own: "QLoopID c = Some (LoopID held)"
    then have "item_loop s c = Some held"
      using find_loop_member [OF assms(2,3)] by (simp add: item_loop_def)
    with own free assms(4) show False by (simp add: human_hold_covers_def)
  qed
  moreover have "\<not> (LoopTargetTyp held = ''pull_request'' \<and> LoopRepo held = Some repo \<and> LoopPRNumber held = Some n
         \<and> work_project s r = Some (LoopProjectID held) \<and> work_repo s r = Some repo \<and> work_pr s r = Some n)"
    using free assms(4) c(2) by (auto simp: human_hold_covers_def work_project_def work_repo_def work_pr_def)
  moreover have "case item_loop s r of None \<Rightarrow> True | Some l \<Rightarrow> LoopStat l \<notin> set parked_statuses"
    using c by (auto simp: eligible_def split: option.splits)
  ultimately show ?thesis using c(2) by simp
qed

text \<open>
  A fixer waits for the review: no claim returns a fixer item of a pull request while a
  reviewer item of the same repository and number, of the same project or of none, is queued or
  running.
\<close>

theorem fixer_waits_for_reviewer:
  assumes "queue_valid s" and "claimNextMatching extra now who s = Inr (Some r, s')"
    and "QType r = ''fixer''" and "QRepo r = Some repo" and "QPRNumber r = Some n"
    and "b \<in> set (queue s)" and "QType b = ''reviewer''" and "QRepo b = Some repo" and "QPRNumber b = Some n"
    and "QProjectID b = QProjectID r \<or> QProjectID b = None"
  shows "\<not> active_status (QStatus b)"
proof
  assume act: "active_status (QStatus b)"
  obtain c where c: "c \<in> set (queue s)" "eligible s now c" "r = claim_row now who c"
    using claimed_eligible [OF assms(1,2)] by blast
  then have t: "QType c = ''fixer''" "QRepo c = Some repo" "QPRNumber c = Some n"
    "QProjectID b = QProjectID c \<or> QProjectID b = None"
    using assms(3-5,10) by simp_all
  have "QID b \<noteq> QID c"
    using distinct_ids_unique [of "queue s" b c] assms(1,6,7) c(1) t(1) by (auto simp: queue_valid_def)
  with act t assms(7-9) have "reviewer_blocks b c"
    by (auto simp: reviewer_blocks_def sql_eq_iff)
  with c(2) t assms(6) show False by (auto simp: eligible_def list_ex_iff)
qed

section \<open>Deduplication\<close>

lemma distinct_keys_update:
  assumes "distinct (map K (filter D rows))" and "distinct (map QID rows)"
    and "\<forall>q \<in> set rows. D q \<and> QID q \<noteq> k \<longrightarrow> K q \<noteq> K r"
  shows "distinct (map K (filter D (map (\<lambda>q. if QID q = k then r else q) rows)))"
  using assms
proof (induction rows)
  case (Cons x xs)
  let ?g = "\<lambda>q. if QID q = k then r else q"
  show ?case
  proof (cases "QID x = k")
    case True
    then have "\<forall>q \<in> set xs. QID q \<noteq> k"
      using Cons.prems(2) by (metis distinct.simps(2) image_eqI image_set list.simps(9))
    then have "map ?g xs = xs" by (intro map_idI) auto
    with Cons.prems True \<open>\<forall>q \<in> set xs. QID q \<noteq> k\<close> show ?thesis by (auto split: if_splits)
  next
    case False
    have ih: "distinct (map K (filter D (map ?g xs)))" using Cons by (auto split: if_splits)
    have "K x \<notin> K ` set (filter D (map ?g xs))" if "D x"
      using Cons.prems(1,3) False that by (auto split: if_splits)
    with ih False show ?thesis by auto
  qed
qed simp

lemma upsert_conflict_existing:
  assumes "queue_valid s" and "Upsert r s = Inl UniqueActiveDedupe"
  shows "in_dedupe_index r \<and> (\<exists>q \<in> set (queue s). in_dedupe_index q \<and> QDedupeKey q = QDedupeKey r)"
proof -
  let ?r = "\<lambda>q. set_excluded r q"
  have u: "active_dedupe_unique (queue s)" and d: "distinct (map QID (queue s))"
    using assms(1) by (simp_all add: queue_valid_def)
  have D: "in_dedupe_index (?r q) = in_dedupe_index r" "QDedupeKey (?r q) = QDedupeKey r" for q
    by (simp_all add: set_excluded_def in_dedupe_index_def)
  show ?thesis
  proof (cases "list_ex (\<lambda>q. QID q = QID r) (queue s)")
    case True
    then have nu: "\<not> active_dedupe_unique (update_where (\<lambda>q. QID q = QID r) ?r (queue s))"
      using assms(2) by (auto simp: Upsert_def commit_queue_def split: if_splits)
    obtain o' where o: "o' \<in> set (queue s)" "QID o' = QID r" using True by (auto simp: list_ex_iff)
    have eq: "update_where (\<lambda>q. QID q = QID r) ?r (queue s)
        = map (\<lambda>q. if QID q = QID r then ?r o' else q) (queue s)"
      using o distinct_ids_unique [OF d _ o(1)] by (auto simp: update_where_def)
    have "\<exists>q \<in> set (queue s). in_dedupe_index q \<and> QID q \<noteq> QID r \<and> QDedupeKey q = QDedupeKey r"
    proof (rule ccontr)
      assume "\<not> ?thesis"
      then have "active_dedupe_unique (update_where (\<lambda>q. QID q = QID r) ?r (queue s))"
        unfolding eq active_dedupe_unique_def
        by (intro distinct_keys_update) (use u d D in \<open>auto simp: active_dedupe_unique_def\<close>)
      with nu show False by blast
    qed
    moreover have "in_dedupe_index r"
    proof (rule ccontr)
      assume out: "\<not> in_dedupe_index r"
      have "active_dedupe_unique (update_where (\<lambda>q. QID q = QID r) ?r (queue s))"
        unfolding active_dedupe_unique_def update_where_def
        by (rule distinct_map_filter_map [THEN conjunct1])
          (use u D out in \<open>auto simp: active_dedupe_unique_def split: if_splits\<close>)
      with nu show False by simp
    qed
    ultimately show ?thesis by blast
  next
    case False
    then have "\<not> active_dedupe_unique (queue s @ [r])"
      using assms(2) by (auto simp: Upsert_def commit_queue_def split: if_splits)
    with u show ?thesis by (auto simp: active_dedupe_unique_def split: if_splits)
  qed
qed

lemma find_active_some:
  "q \<in> set (queue s) \<Longrightarrow> QDedupeKey q = k \<Longrightarrow> active_status (QStatus q) \<Longrightarrow> FindActiveByDedupe s k \<noteq> None"
  by (auto simp: FindActiveByDedupe_def filter_empty_conv)

lemma find_active_mem:
  "FindActiveByDedupe s k = Some q \<Longrightarrow> q \<in> set (queue s) \<and> QDedupeKey q = k \<and> active_status (QStatus q)"
  by (auto simp: FindActiveByDedupe_def dest!: first_max_Some)

lemma unique_key_count:
  assumes "active_dedupe_unique rows" and "q \<in> set rows" and "in_dedupe_index q"
  shows "length (filter (\<lambda>x. in_dedupe_index x \<and> QDedupeKey x = QDedupeKey q) rows) = 1"
  using assms unfolding active_dedupe_unique_def
proof (induction rows)
  case (Cons x xs)
  have none: "filter (\<lambda>y. in_dedupe_index y \<and> QDedupeKey y = QDedupeKey x) xs = []" if "in_dedupe_index x"
    using Cons.prems(1) that by (auto simp: filter_empty_conv image_iff)
  show ?case
  proof (cases "q = x")
    case True
    with none Cons.prems(3) show ?thesis by simp
  next
    case False
    then have "length (filter (\<lambda>y. in_dedupe_index y \<and> QDedupeKey y = QDedupeKey q) xs) = 1"
      using Cons by (auto split: if_splits)
    moreover have "\<not> (in_dedupe_index x \<and> QDedupeKey x = QDedupeKey q)"
      using False Cons.prems by (auto simp: image_iff)
    ultimately show ?thesis by simp
  qed
qed simp

lemma upsert_row_present:
  assumes "Upsert r s = Inr s'"
  shows "\<exists>q \<in> set (queue s'). QID q = QID r \<and> QDedupeKey q = QDedupeKey r \<and> in_dedupe_index q = in_dedupe_index r"
proof (cases "list_ex (\<lambda>q. QID q = QID r) (queue s)")
  case True
  then obtain q where q: "q \<in> set (queue s)" "QID q = QID r" by (auto simp: list_ex_iff)
  with assms True have "set_excluded r q \<in> set (queue s')"
    by (auto simp: Upsert_def commit_queue_Inr set_update_where)
  then show ?thesis by (rule bexI [rotated]) (simp add: set_excluded_def in_dedupe_index_def)
next
  case False
  with assms show ?thesis by (auto simp: Upsert_def commit_queue_Inr)
qed

text \<open>
  C28. Enqueuing a reviewer or fixer item is idempotent on its dedupe key: on a valid store the
  call either reports a violated row check or reference, leaving the store, or it succeeds, and
  then the store is valid and holds exactly one active reviewer or fixer item with that key; the
  returned row is the caller's, or an active one with the same key and the store unchanged. The
  statements of the call are taken to run without another writer between them.
\<close>

theorem create_or_get_active_unique:
  assumes "queue_valid s" and "in_dedupe_index r" and "QDedupeKey r \<noteq> []"
  shows "case CreateOrGetActiveByDedupe r s of
      Inl e \<Rightarrow> e = CheckConstraint \<or> e = ForeignKey
    | Inr (q, fresh, s') \<Rightarrow> queue_valid s'
        \<and> length (filter (\<lambda>x. in_dedupe_index x \<and> QDedupeKey x = QDedupeKey r) (queue s')) = 1
        \<and> (if fresh then q = r
           else s' = s \<and> q \<in> set (queue s) \<and> QDedupeKey q = QDedupeKey r \<and> active_status (QStatus q))"
proof (cases "Upsert r s")
  case (Inr s')
  then have "CreateOrGetActiveByDedupe r s = Inr (r, True, s')"
    by (simp add: CreateOrGetActiveByDedupe_def numeral_2_eq_2 UpsertActiveByDedupeOrGetExisting_def)
  moreover have v: "queue_valid s'" using upsert_valid [OF assms(1), of r] Inr by simp
  moreover obtain q where "q \<in> set (queue s')" "QDedupeKey q = QDedupeKey r" "in_dedupe_index q"
    using upsert_row_present [OF Inr] assms(2) by auto
  with v have "length (filter (\<lambda>x. in_dedupe_index x \<and> QDedupeKey x = QDedupeKey r) (queue s')) = 1"
    using unique_key_count [of "queue s'" q] by (simp add: queue_valid_def)
  ultimately show ?thesis by simp
next
  case (Inl e)
  show ?thesis
  proof (cases "e = UniqueActiveDedupe")
    case True
    with Inl assms(1) obtain q where q: "q \<in> set (queue s)" "in_dedupe_index q" "QDedupeKey q = QDedupeKey r"
      using upsert_conflict_existing by blast
    then obtain x where x: "FindActiveByDedupe s (QDedupeKey r) = Some x"
      using find_active_some [of q s "QDedupeKey r"] by (auto simp: in_dedupe_index_def)
    have "shouldRecoverActiveDedupeConflict r UniqueActiveDedupe"
      using assms(2,3) by (auto simp: shouldRecoverActiveDedupeConflict_def in_dedupe_index_def)
    then have "CreateOrGetActiveByDedupe r s = Inr (x, False, s)"
      using Inl True x
      by (simp add: CreateOrGetActiveByDedupe_def numeral_2_eq_2 UpsertActiveByDedupeOrGetExisting_def)
    moreover have "length (filter (\<lambda>y. in_dedupe_index y \<and> QDedupeKey y = QDedupeKey r) (queue s)) = 1"
      using unique_key_count [of "queue s" q] q assms(1) by (simp add: queue_valid_def)
    ultimately show ?thesis
      using find_active_mem [OF x] assms(1) by simp
  next
    case False
    then have "CreateOrGetActiveByDedupe r s = Inl e"
      using Inl by (simp add: CreateOrGetActiveByDedupe_def numeral_2_eq_2
          UpsertActiveByDedupeOrGetExisting_def shouldRecoverActiveDedupeConflict_def)
    moreover have "e = CheckConstraint \<or> e = ForeignKey"
      using Inl False by (auto simp: Upsert_def commit_queue_def split: if_splits)
    ultimately show ?thesis by simp
  qed
qed

section \<open>Stale items\<close>

text \<open>
  Cleaning up on a valid store succeeds, cancels exactly the queued items whose loop is
  settled, reports their number, leaves every other row as it was, and leaves nothing stale.
\<close>

theorem cleanup_stale_exact:
  assumes "queue_valid s"
  shows "case CleanupStaleQueued finishedAt reason s of
      Inl _ \<Rightarrow> False
    | Inr (n, s') \<Rightarrow> n = StaleQueued (Stats s now) \<and> queue_valid s'
        \<and> list_all (\<lambda>q. \<not> stale_queued s' q) (queue s')
        \<and> map QStatus (queue s') = map (\<lambda>q. if stale_queued s q then cancelled else QStatus q) (queue s)
        \<and> filter (\<lambda>q. \<not> stale_queued s q) (queue s)
            = map snd (filter (\<lambda>(a, b). \<not> stale_queued s a) (zip (queue s) (queue s')))"
proof -
  let ?P = "\<lambda>q. \<exists>r \<in> set (queue s). stale_queued s r \<and> QID r = QID q"
  let ?f = "\<lambda>q. q\<lparr>QStatus := cancelled, QFinishedAt := Some finishedAt, QLastError := Some reason,
            QLastErrorKind := Some ''non_retryable'', QUpdatedAt := finishedAt\<rparr>"
  let ?s = "s\<lparr>queue := update_where ?P ?f (queue s)\<rparr>"
  have d: "distinct (map QID (queue s))" using assms by (simp add: queue_valid_def)
  have P: "?P q \<longleftrightarrow> stale_queued s q" if "q \<in> set (queue s)" for q
    using that distinct_ids_unique [OF d] by blast
  have ok: "commit_queue s (update_where ?P ?f (queue s)) = Inr ?s \<and> queue_valid ?s"
  proof (rule update_valid [OF assms])
    fix q assume "q \<in> set (queue s)"
    then have "row_checks q" using assms by (auto simp: queue_valid_def list_all_iff)
    then show "row_checks (?f q)" by (simp add: row_checks_def)
  qed (simp_all add: quiet_update_def active_status_def)
  have count: "affected ?P (queue s) = length (filter (stale_queued s) (queue s))"
    unfolding affected_def by (rule arg_cong [where f = length], rule filter_cong) (use P in auto)
  have rows: "update_where ?P ?f (queue s) = map (\<lambda>q. if stale_queued s q then ?f q else q) (queue s)"
    unfolding update_where_def by (rule map_cong) (use P in auto)
  have st: "stale_queued ?s = stale_queued s"
    by (rule ext) (simp add: stale_queued_def)
  have fresh: "\<not> stale_queued s (?f q)" for q by (simp add: stale_queued_def)
  have "queue ?s = map (\<lambda>q. if stale_queued s q then ?f q else q) (queue s)" by (simp add: rows)
  then have "list_all (\<lambda>q. \<not> stale_queued ?s q) (queue ?s)"
    unfolding st using fresh by (auto simp: list_all_iff)
  moreover have "map QStatus (queue ?s) = map (\<lambda>q. if stale_queued s q then cancelled else QStatus q) (queue s)"
    by (simp add: rows)
  moreover have "filter (\<lambda>q. \<not> stale_queued s q) (queue s)
      = map snd (filter (\<lambda>(a, b). \<not> stale_queued s a) (zip (queue s) (queue ?s)))"
  proof -
    have "filter (\<lambda>q. \<not> stale_queued s q) qs = map snd (filter (\<lambda>(a, b). \<not> stale_queued s a)
        (zip qs (map (\<lambda>q. if stale_queued s q then ?f q else q) qs)))" for qs
      by (induction qs) auto
    then show ?thesis by (simp add: rows)
  qed
  moreover have "CleanupStaleQueued finishedAt reason s = Inr (length (filter (stale_queued s) (queue s)), ?s)"
    using ok count by (simp add: CleanupStaleQueued_def counted_update_def)
  ultimately show ?thesis using ok by (simp add: Stats_def)
qed

section \<open>A concrete store\<close>

definition sample_item :: "string \<Rightarrow> string \<Rightarrow> string \<Rightarrow> int \<Rightarrow> string \<Rightarrow> QueueItemRecord" where
  "sample_item k typ loopID pr st = \<lparr>QID = k, QProjectID = Some ''p'', QLoopID = Some loopID, QType = typ,
     QTargetType = ''pull_request'', QTargetID = ''pr:o/r:'' @ itoa pr, QRepo = Some ''o/r'',
     QPRNumber = Some pr, QDedupeKey = typ @ '':'' @ itoa pr, QPriority = 2, QStatus = st,
     QAvailableAt = ''2026-01-01'', QAttempts = 0, QMaxAttempts = -1, QClaimedBy = None,
     QClaimedAt = None, QStartedAt = None, QFinishedAt = None, QLockKey = Some (''pr:o/r:'' @ itoa pr),
     QPayloadJSON = None, QLastError = None, QLastErrorKind = None, QCreatedAt = k, QUpdatedAt = k\<rparr>"

definition sample_loop :: "string \<Rightarrow> string \<Rightarrow> int \<Rightarrow> string \<Rightarrow> LoopRecord" where
  "sample_loop k typ pr st = \<lparr>LoopID = k, LoopSeq = 1, LoopProjectID = ''p'', LoopTyp = typ,
     LoopTargetTyp = ''pull_request'', LoopTargetID = None, LoopRepo = Some ''o/r'', LoopPRNumber = Some pr,
     LoopStat = st, LoopConfigJSON = None, LoopMetadataJSON = None, LoopLastRunAt = None,
     LoopNextRunAt = None, LoopCreatedAt = k, LoopUpdatedAt = k\<rparr>"

definition sample_store :: store where
  "sample_store = \<lparr>projects = [\<lparr>ProjID = ''p'', ProjName = ''p'', ProjRepoPath = ''/r'', ProjBaseBranch = None,
       ProjArchived = False, ProjMetadataJSON = None, ProjCreatedAt = [], ProjUpdatedAt = []\<rparr>],
     loops = [sample_loop ''held'' ''worker'' 7 ''human_takeover'', sample_loop ''rev7'' ''reviewer'' 7 ''queued'',
              sample_loop ''rev8'' ''reviewer'' 8 ''queued'', sample_loop ''fix9'' ''fixer'' 9 ''queued'',
              sample_loop ''old'' ''worker'' 5 ''completed''],
     runs = [],
     queue = [sample_item ''a'' ''reviewer'' ''rev7'' 7 queued, sample_item ''b'' ''reviewer'' ''rev8'' 8 queued,
              sample_item ''c'' ''fixer'' ''fix9'' 9 queued, sample_item ''d'' ''worker'' ''old'' 5 queued,
              sample_item ''e'' ''reviewer'' ''fix9'' 9 completed]\<rparr>"

lemma sample_valid: "queue_valid sample_store" "distinct (map LoopID (loops sample_store))"
  "lock_exclusive sample_store" "one_active_per_loop sample_store"
  by code_simp+

abbreviation sample_claim where
  "sample_claim extra \<equiv> claimNextMatching extra ''2026-02-01'' ''w'' sample_store"

lemma sample_claim_b:
  "sample_claim (\<lambda>_. True) = Inr (Some (claim_row ''2026-02-01'' ''w'' (sample_item ''b'' ''reviewer'' ''rev8'' 8 queued)),
     exec_op (OpClaim (\<lambda>_ _. True) ''2026-02-01'' ''w'') sample_store)"
  by code_simp

lemma claim_next_spec_witness:
  "case sample_claim (\<lambda>_. True) of Inr (Some r, s') \<Rightarrow> QID r = ''b'' \<and> queue_valid s' | _ \<Rightarrow> False"
  using claim_next_spec [OF sample_valid(1), where extra = "\<lambda>_. True" and now = "''2026-02-01''" and who = "''w''"]
  unfolding sample_claim_b by (auto simp: sample_item_def)

lemma lock_exclusion_kept_witness:
  "lock_exclusive (exec_ops [OpClaim (\<lambda>_ _. True) ''2026-02-01'' ''w'', OpClaim (\<lambda>_ _. True) ''2026-02-01'' ''x'',
      OpComplete ''b'' ''2026-02-02'', OpRequeueCompleted ''rev8'' ''b'' ''2026-02-03''] sample_store)"
  by (rule lock_exclusion_kept [OF sample_valid(1,3)]) simp

lemma one_active_item_kept_witness:
  "one_active_per_loop (exec_ops [OpClaim (\<lambda>_ _. True) ''2026-02-01'' ''w'',
      OpRequeueCompleted ''fix9'' ''e'' ''2026-02-03'', OpCancelByLoop ''fix9'' ''2026-02-04'' None,
      OpRequeueCompleted ''fix9'' ''e'' ''2026-02-05''] sample_store)"
  by (rule one_active_item_kept [OF sample_valid(1,4)]) simp

lemma held_work_not_claimed_witness:
  "QLoopID (claim_row ''2026-02-01'' ''w'' (sample_item ''b'' ''reviewer'' ''rev8'' 8 queued)) \<noteq> Some ''held''"
proof -
  have "sample_loop ''held'' ''worker'' 7 ''human_takeover'' \<in> set (loops sample_store)"
    by (simp add: sample_store_def)
  then show ?thesis
    using held_work_not_claimed [OF sample_valid(1,2) _ _ sample_claim_b,
        of "sample_loop ''held'' ''worker'' 7 ''human_takeover''"]
    by (simp add: sample_loop_def)
qed

lemma fixer_waits_for_reviewer_witness:
  "\<not> active_status (QStatus (sample_item ''e'' ''reviewer'' ''fix9'' 9 completed))"
proof -
  have claim: "sample_claim (\<lambda>q. QType q = ''fixer'')
    = Inr (Some (claim_row ''2026-02-01'' ''w'' (sample_item ''c'' ''fixer'' ''fix9'' 9 queued)),
       exec_op (OpClaim (\<lambda>_ q. QType q = ''fixer'') ''2026-02-01'' ''w'') sample_store)"
    by code_simp
  have "sample_item ''e'' ''reviewer'' ''fix9'' 9 completed \<in> set (queue sample_store)"
    by (simp add: sample_store_def)
  then show ?thesis
    using fixer_waits_for_reviewer [OF sample_valid(1) claim, of "''o/r''" 9
        "sample_item ''e'' ''reviewer'' ''fix9'' 9 completed"]
    by (simp add: sample_item_def)
qed

lemma create_or_get_active_unique_witness:
  "length (filter (\<lambda>x. in_dedupe_index x \<and> QDedupeKey x = ''reviewer:8'') (queue sample_store)) = 1"
proof -
  let ?r = "sample_item ''z'' ''reviewer'' ''rev8'' 8 queued"
  have "CreateOrGetActiveByDedupe ?r sample_store
      = Inr (sample_item ''b'' ''reviewer'' ''rev8'' 8 queued, False, sample_store)"
    and "in_dedupe_index ?r" "QDedupeKey ?r = ''reviewer:8''"
    by code_simp+
  then show ?thesis using create_or_get_active_unique [OF sample_valid(1), of ?r] by simp
qed

lemma cleanup_stale_exact_witness:
  "CleanupStaleQueued ''2026-02-01'' ''stale'' sample_store \<noteq> Inl CheckConstraint"
  using cleanup_stale_exact [OF sample_valid(1), where finishedAt = "''2026-02-01''" and reason = "''stale''"]
  by (auto split: sum.splits)

end
