(* ===== verification/Depth_First.thy ===== *)
theory Depth_First
  imports Prelude
begin

text \<open>
  Depth-first search over a successor function, as both dependency graphs of the code do it: the
  node states (0 unseen, 1 on the stack, 2 done), the stack, the position of each open node, and
  what opening and closing a node does to them (\<open>visit\<close> in
  \<open>internal/planner/workgraph/workgraph.go\<close> and
  \<open>internal/coordinator/depgraph/depgraph.go\<close>); with the facts on paths, closed paths and
  nodes without infinite chains the two correctness proofs share.
\<close>

section \<open>Paths\<close>

text \<open>A node all of whose chains of successors end.\<close>

inductive grounded :: "('a \<Rightarrow> 'a list) \<Rightarrow> 'a \<Rightarrow> bool" for succ where
  "(\<And>d. d \<in> set (succ k) \<Longrightarrow> grounded succ d) \<Longrightarrow> grounded succ k"

inductive_simps grounded_iff: "grounded succ k"

fun path :: "('a \<Rightarrow> 'a list) \<Rightarrow> 'a list \<Rightarrow> bool" where
  "path succ (a # b # rest) = (b \<in> set (succ a) \<and> path succ (b # rest))"
| "path succ _ = True"

definition closed_path :: "('a \<Rightarrow> 'a list) \<Rightarrow> 'a list \<Rightarrow> bool" where
  "closed_path succ c \<longleftrightarrow> 2 \<le> length c \<and> hd c = last c \<and> path succ c"

lemma path_append_iff:
  "path succ (xs @ ys) \<longleftrightarrow> path succ xs \<and> path succ ys \<and>
     (xs = [] \<or> ys = [] \<or> hd ys \<in> set (succ (last xs)))"
proof (induction xs)
  case (Cons a xs)
  show ?case
  proof (cases xs)
    case Nil
    then show ?thesis by (cases ys) auto
  qed (use Cons in auto)
qed simp

lemma path_drop: "path succ xs \<Longrightarrow> path succ (drop n xs)"
  using path_append_iff [of succ "take n xs" "drop n xs"] by simp

lemma closed_path_rotate:
  assumes "closed_path succ ((xs @ ys) @ [hd (xs @ ys)])" "ys \<noteq> []"
  shows "closed_path succ ((ys @ xs) @ [hd ys])"
proof (cases "xs = []")
  case False
  with assms show ?thesis
    unfolding closed_path_def path_append_iff by (auto simp: Suc_le_eq)
qed (use assms in simp)

lemma closed_path_hd: "grounded succ k \<Longrightarrow> hd c = k \<Longrightarrow> \<not> closed_path succ c"
proof (induction arbitrary: c rule: grounded.induct)
  case (1 k)
  show ?case
  proof
    assume c: "closed_path succ c"
    then obtain b rest where c2: "c = k # b # rest" using "1.prems" unfolding closed_path_def
      by (cases c; cases "tl c") auto
    with c have b: "b \<in> set (succ k)" and lk: "last (b # rest) = k" unfolding closed_path_def by auto
    obtain ys where ys: "b # rest = ys @ [k]" using lk by (metis append_butlast_last_id list.distinct(1))
    then have "closed_path succ ([k] @ ys @ [k])" using c c2 by simp
    then have "closed_path succ (ys @ [k, hd (ys @ [k])])"
      using closed_path_rotate [of succ "[k]" ys] by (cases "ys = []") auto
    moreover have "hd (ys @ [k, hd (ys @ [k])]) = b" using ys by (cases ys) auto
    ultimately show False using "1.IH" [OF b] by blast
  qed
qed

lemma closed_path_not_grounded:
  assumes c: "closed_path succ c" and x: "x \<in> set c"
  shows "\<not> grounded succ x"
proof -
  from c obtain k where k: "c = butlast c @ [k]" "hd c = k" "butlast c \<noteq> []"
    unfolding closed_path_def by (cases c rule: rev_cases) (auto simp: Suc_le_eq)
  then have hd: "hd (butlast c) = k" by (metis hd_append2)
  have "x \<in> set (butlast c)"
    using x k hd by (metis hd_in_set in_set_butlast_appendI Un_iff empty_iff empty_set insert_iff list.simps(15) set_append)
  then obtain xs ys where xy: "butlast c = xs @ x # ys" by (meson split_list)
  then have "closed_path succ ((x # ys @ xs) @ [x])"
    using closed_path_rotate [of succ xs "x # ys"] c k hd by simp
  then show ?thesis using closed_path_hd by fastforce
qed

section \<open>The state of a search\<close>

record 'a dfs =
  sState :: "('a \<times> nat) list"
  sStack :: "'a list"
  sIndex :: "('a \<times> nat) list"

definition state_of :: "('a, 'm) dfs_scheme \<Rightarrow> 'a \<Rightarrow> nat" where
  "state_of s k = (case map_of (sState s) k of Some n \<Rightarrow> n | None \<Rightarrow> 0)"

definition push :: "'a \<Rightarrow> ('a, 'm) dfs_scheme \<Rightarrow> ('a, 'm) dfs_scheme" where
  "push key s = s\<lparr>sState := put key 1 (sState s), sIndex := put key (length (sStack s)) (sIndex s),
                 sStack := sStack s @ [key]\<rparr>"

definition pop :: "'a \<Rightarrow> ('a, 'm) dfs_scheme \<Rightarrow> ('a, 'm) dfs_scheme" where
  "pop key s = s\<lparr>sStack := butlast (sStack s),
                sIndex := filter (\<lambda>(k, _). k \<noteq> key) (sIndex s), sState := put key 2 (sState s)\<rparr>"

lemma state_push [simp]: "state_of (push k s) x = (if x = k then 1 else state_of s x)"
  by (simp add: push_def state_of_def map_of_put)

lemma state_pop [simp]: "state_of (pop k s) x = (if x = k then 2 else state_of s x)"
  by (simp add: pop_def state_of_def map_of_put)

lemma stack_push [simp]: "sStack (push k s) = sStack s @ [k]"
  by (simp add: push_def)

lemma stack_pop [simp]: "sStack (pop k s) = butlast (sStack s)"
  by (simp add: pop_def)

lemma more_push [simp]: "dfs.more (push k s) = dfs.more s"
  by (simp add: push_def)

lemma more_pop [simp]: "dfs.more (pop k s) = dfs.more s"
  by (simp add: pop_def)

lemma map_of_filter_key: "map_of (filter (\<lambda>(x, _). x \<noteq> k) xs) y = (if y = k then None else map_of xs y)"
  by (induction xs) auto

text \<open>
  The invariant of every search: the stack is a path of distinct nodes, the index holds the
  position of exactly the open nodes, and the open nodes are exactly those on the stack.
\<close>

definition dfs_ok :: "('a \<Rightarrow> 'a list) \<Rightarrow> 'a list \<Rightarrow> ('a, 'm) dfs_scheme \<Rightarrow> bool" where
  "dfs_ok succ nodes s \<longleftrightarrow> distinct (sStack s) \<and> set (sStack s) \<subseteq> set nodes \<and> path succ (sStack s)
     \<and> (\<forall>k i. map_of (sIndex s) k = Some i \<longleftrightarrow> i < length (sStack s) \<and> sStack s ! i = k)
     \<and> (\<forall>k. state_of s k = 1 \<longleftrightarrow> k \<in> set (sStack s)) \<and> (\<forall>k. state_of s k \<le> 2)"

lemma dfs_okD:
  assumes "dfs_ok succ nodes s"
  shows "distinct (sStack s)" "set (sStack s) \<subseteq> set nodes" "path succ (sStack s)"
    "map_of (sIndex s) k = Some i \<longleftrightarrow> i < length (sStack s) \<and> sStack s ! i = k"
    "state_of s k = 1 \<longleftrightarrow> k \<in> set (sStack s)" "state_of s k \<le> 2"
  using assms unfolding dfs_ok_def by blast+

lemma dfs_ok_start: "sState s = [] \<Longrightarrow> sStack s = [] \<Longrightarrow> sIndex s = [] \<Longrightarrow> dfs_ok succ nodes s"
  by (simp add: dfs_ok_def state_of_def)

lemma dfs_ok_cong:
  assumes "sState s = sState t" "sStack s = sStack t" "sIndex s = sIndex t" "dfs_ok succ nodes t"
  shows "dfs_ok succ nodes s"
  using assms by (simp add: dfs_ok_def state_of_def)

lemma unopened_states: "dfs_ok succ nodes s \<Longrightarrow> map_of (sIndex s) d = None \<Longrightarrow>
    state_of s d = 0 \<or> state_of s d = 2"
  using dfs_okD(4) [of succ nodes s d] dfs_okD(5,6) [of succ nodes s d]
  by (metis One_nat_def in_set_conv_nth le_SucE le_zero_eq numeral_2_eq_2 option.distinct(1))

lemma push_ok:
  assumes ok: "dfs_ok succ nodes s" and k: "k \<in> set nodes" "state_of s k = 0"
    and edge: "sStack s = [] \<or> k \<in> set (succ (last (sStack s)))"
  shows "dfs_ok succ nodes (push k s)"
proof -
  note o = dfs_okD [OF ok]
  have new: "k \<notin> set (sStack s)" using o(5) k(2) by (metis zero_neq_one)
  have "path succ (sStack s @ [k])" using o(3) edge by (auto simp: path_append_iff)
  moreover have "map_of (sIndex (push k s)) x = Some i \<longleftrightarrow>
      i < length (sStack s @ [k]) \<and> (sStack s @ [k]) ! i = x" for x i
    using o(4) new unfolding push_def by (auto simp: map_of_put nth_append less_Suc_eq)
  ultimately show ?thesis using o(1,2,5,6) new k unfolding dfs_ok_def by auto
qed

lemma pop_ok:
  assumes ok: "dfs_ok succ nodes s" and st: "sStack s = xs @ [k]"
  shows "dfs_ok succ nodes (pop k s)"
proof -
  note o = dfs_okD [OF ok, unfolded st]
  have "path succ xs" using o(3) by (simp add: path_append_iff)
  moreover have "map_of (sIndex (pop k s)) x = Some i \<longleftrightarrow> i < length xs \<and> xs ! i = x" for x i
    using o(4) o(1) unfolding pop_def by (auto simp: map_of_filter_key nth_append less_Suc_eq)
  ultimately show ?thesis using o(1,2,5,6) unfolding dfs_ok_def by (auto simp: st)
qed

text \<open>A successor of the top of the stack that is itself open closes a path.\<close>

lemma back_edge:
  assumes ok: "dfs_ok succ nodes s" and d: "d \<in> set (succ (last (sStack s)))"
    and i: "map_of (sIndex s) d = Some i"
  shows "closed_path succ (drop i (sStack s) @ [d])" "set (drop i (sStack s) @ [d]) \<subseteq> set nodes"
    "hd (drop i (sStack s)) = d" "drop i (sStack s) \<noteq> []"
proof -
  from i have l: "i < length (sStack s)" "sStack s ! i = d" unfolding dfs_okD(4) [OF ok] by blast+
  then show h: "hd (drop i (sStack s)) = d" "drop i (sStack s) \<noteq> []" by (simp_all add: hd_drop_conv_nth)
  have "path succ (drop i (sStack s) @ [d])"
    unfolding path_append_iff using path_drop [OF dfs_okD(3) [OF ok]] d l by simp
  with h l show "closed_path succ (drop i (sStack s) @ [d])"
    unfolding closed_path_def by (simp add: Suc_le_eq)
  show "set (drop i (sStack s) @ [d]) \<subseteq> set nodes"
    using dfs_okD(2) [OF ok] l set_drop_subset [of i "sStack s"] nth_mem [of i "sStack s"] by auto
qed

text \<open>The stack never fills all the nodes while one of them is unseen, so the fuel suffices.\<close>

lemma unseen_room:
  assumes ok: "dfs_ok succ nodes s" and k: "k \<in> set nodes" "state_of s k = 0"
  shows "length (sStack s) < length nodes"
proof -
  note o = dfs_okD [OF ok]
  have "k \<notin> set (sStack s)" using o(5) k(2) by (metis zero_neq_one)
  then have "length (k # sStack s) = card (insert k (set (sStack s)))"
    using o(1) by (simp add: distinct_card)
  also have "\<dots> \<le> card (set nodes)" using o(2) k(1) by (intro card_mono) auto
  also have "\<dots> \<le> length nodes" by (rule card_length)
  finally show ?thesis by simp
qed

end
