(* ===== verification/Work_Graph.thy ===== *)
theory Work_Graph
  imports Depth_First
begin

text \<open>
  The planner's work graph (\<open>internal/planner/workgraph/workgraph.go\<close>): validation of the
  nodes a plan proposes, cycle detection by depth-first search, and the evaluation that tells
  which nodes may be queued. The Go maps are association lists; the recursion of the search is
  bounded by fuel, and the facts below show that one more than the number of keys suffices.
\<close>

section \<open>Data\<close>

record Node =
  NKey :: string
  NGoal :: string
  NAcceptanceCriteria :: "string list"
  NDependencies :: "string list"
  NExpectedPRScope :: string

type_synonym State = string

abbreviation StatePending :: State where "StatePending \<equiv> ''pending''"
abbreviation StateRunning :: State where "StateRunning \<equiv> ''running''"
abbreviation StateCompleted :: State where "StateCompleted \<equiv> ''completed''"
abbreviation StateFailed :: State where "StateFailed \<equiv> ''failed''"
abbreviation StateClosed :: State where "StateClosed \<equiv> ''closed''"
abbreviation StateInvalid :: State where "StateInvalid \<equiv> ''invalid''"

record Blocked =
  BNodeKey :: string
  BBlockedBy :: "string list"
  BReplan :: bool

record Graph =
  gnodes :: "(string \<times> Node) list"
  gkeys :: "string list"

datatype graph_error =
    EmptyGraph
  | TooManyNodes
  | MultipleDependencies string
  | InvalidKey string
  | NotRefComponent string
  | GoalRequired string
  | CriteriaRequired string
  | ScopeRequired string
  | DuplicateKey string
  | SelfDependency string
  | MissingDependency string string
  | DependencyCycle "string list"

definition MaxNodes :: nat where
  "MaxNodes = 32"

section \<open>Validation\<close>

definition key_head_char :: "char \<Rightarrow> bool" where
  "key_head_char c \<longleftrightarrow> (CHR ''a'' \<le> c \<and> c \<le> CHR ''z'') \<or> (CHR ''0'' \<le> c \<and> c \<le> CHR ''9'')"

text \<open>\<open>keyPattern\<close>: a lower-case letter or digit, then also dots, underscores and dashes.\<close>

fun keyPattern :: "string \<Rightarrow> bool" where
  "keyPattern [] = False"
| "keyPattern (c # cs) = (key_head_char c \<and>
     list_all (\<lambda>x. key_head_char x \<or> x = CHR ''.'' \<or> x = CHR ''_'' \<or> x = CHR ''-'') cs)"

definition gitRefComponentUsable :: "string \<Rightarrow> bool" where
  "gitRefComponentUsable key =
     (if key = [] \<or> has_suffix key ''.'' \<or> contains key ''..'' then False
      else if has_prefix key ''.'' \<or> has_suffix key ''.lock'' then False
      else \<not> list_ex (\<lambda>r. r \<le> CHR '' '' \<or> r = CHR 0x7F
             \<or> r \<in> {CHR ''~'', CHR ''^'', CHR '':'', CHR ''?'', CHR ''*'', CHR ''['', CHR 0x5C}) key)"

definition normalizeNode :: "Node \<Rightarrow> Node" where
  "normalizeNode node = node\<lparr>
     NKey := trim_space (NKey node),
     NGoal := trim_space (NGoal node),
     NExpectedPRScope := trim_space (NExpectedPRScope node),
     NAcceptanceCriteria := filter (\<lambda>c. c \<noteq> []) (map trim_space (NAcceptanceCriteria node)),
     NDependencies := sort (remdups (filter (\<lambda>d. d \<noteq> []) (map trim_space (NDependencies node))))\<rparr>"

fun add_nodes :: "Node list \<Rightarrow> (string \<times> Node) list \<Rightarrow> (graph_error, (string \<times> Node) list) result" where
  "add_nodes [] acc = Inr acc"
| "add_nodes (raw # rest) acc = (let node = normalizeNode raw in
     if length (NDependencies node) > 1 then Inl (MultipleDependencies (NKey node))
     else if \<not> keyPattern (NKey node) then Inl (InvalidKey (NKey raw))
     else if \<not> gitRefComponentUsable (NKey node) then Inl (NotRefComponent (NKey node))
     else if NGoal node = [] then Inl (GoalRequired (NKey node))
     else if NAcceptanceCriteria node = [] then Inl (CriteriaRequired (NKey node))
     else if NExpectedPRScope node = [] then Inl (ScopeRequired (NKey node))
     else if map_of acc (NKey node) \<noteq> None then Inl (DuplicateKey (NKey node))
     else add_nodes rest (acc @ [(NKey node, node)]))"

text \<open>Indexing a Go map with an absent key gives the zero node, which has no dependencies.\<close>

definition node_of :: "Graph \<Rightarrow> string \<Rightarrow> Node" where
  "node_of g k = (case map_of (gnodes g) k of
     Some n \<Rightarrow> n
   | None \<Rightarrow> \<lparr>NKey = [], NGoal = [], NAcceptanceCriteria = [], NDependencies = [], NExpectedPRScope = []\<rparr>)"

fun check_dependencies :: "Graph \<Rightarrow> string \<Rightarrow> string list \<Rightarrow> graph_error option" where
  "check_dependencies g key [] = None"
| "check_dependencies g key (dependency # rest) =
     (if dependency = key then Some (SelfDependency key)
      else if map_of (gnodes g) dependency = None then Some (MissingDependency key dependency)
      else check_dependencies g key rest)"

fun check_keys :: "Graph \<Rightarrow> string list \<Rightarrow> graph_error option" where
  "check_keys g [] = None"
| "check_keys g (key # rest) = (case check_dependencies g key (NDependencies (node_of g key)) of
     Some e \<Rightarrow> Some e | None \<Rightarrow> check_keys g rest)"

section \<open>Cycle detection\<close>

record search = "string dfs" +
  sFound :: "string list"

fun visit :: "nat \<Rightarrow> Graph \<Rightarrow> string \<Rightarrow> search \<Rightarrow> search"
  and visit_dependencies :: "nat \<Rightarrow> Graph \<Rightarrow> string list \<Rightarrow> search \<Rightarrow> bool \<times> search" where
  "visit 0 g key s = s"
| "visit (Suc n) g key s =
     (if sFound s \<noteq> [] then s
      else (case visit_dependencies n g (NDependencies (node_of g key)) (push key s) of
          (True, s') \<Rightarrow> s'
        | (False, s') \<Rightarrow> pop key s'))"
| "visit_dependencies n g [] s = (False, s)"
| "visit_dependencies n g (d # ds) s = (case map_of (sIndex s) d of
       Some start \<Rightarrow> (True, s\<lparr>sFound := drop start (sStack s) @ [d]\<rparr>)
     | None \<Rightarrow> visit_dependencies n g ds (if state_of s d = 0 then visit n g d s else s))"

definition visit_key :: "Graph \<Rightarrow> string \<Rightarrow> search \<Rightarrow> search" where
  "visit_key g key s = (if state_of s key = 0 then visit (Suc (length (gkeys g))) g key s else s)"

definition cycle :: "Graph \<Rightarrow> string list" where
  "cycle g = sFound (fold (visit_key g) (gkeys g) \<lparr>sState = [], sStack = [], sIndex = [], sFound = []\<rparr>)"

definition Build :: "Node list \<Rightarrow> (graph_error, Graph) result" where
  "Build nodes =
     (if nodes = [] then Inl EmptyGraph
      else if length nodes > MaxNodes then Inl TooManyNodes
      else bind_result (add_nodes nodes []) (\<lambda>acc.
        let g = \<lparr>gnodes = acc, gkeys = sort (map fst acc)\<rparr> in
        case check_keys g (gkeys g) of
          Some e \<Rightarrow> Inl e
        | None \<Rightarrow> (if cycle g \<noteq> [] then Inl (DependencyCycle (cycle g)) else Inr g)))"

section \<open>Evaluation\<close>

definition Nodes :: "Graph \<Rightarrow> Node list" where
  "Nodes g = map (node_of g) (gkeys g)"

definition stateFor :: "(string \<times> State) list \<Rightarrow> string \<Rightarrow> State" where
  "stateFor states key = (case map_of states key of
     Some st \<Rightarrow> if st \<noteq> [] then st else StatePending | None \<Rightarrow> StatePending)"

fun block_of :: "(string \<times> State) list \<Rightarrow> string list \<Rightarrow> Blocked \<Rightarrow> Blocked" where
  "block_of states [] block = block"
| "block_of states (dependency # rest) block = (let st = stateFor states dependency in
     if st = StateCompleted then block_of states rest block
     else (let block' = block\<lparr>BBlockedBy := BBlockedBy block @ [dependency]\<rparr> in
       block_of states rest (if st = StateFailed \<or> st = StateClosed \<or> st = StateInvalid
         then block'\<lparr>BReplan := True\<rparr> else block')))"

fun evaluate_keys :: "Graph \<Rightarrow> (string \<times> State) list \<Rightarrow> string list \<Rightarrow> Node list \<times> Blocked list" where
  "evaluate_keys g states [] = ([], [])"
| "evaluate_keys g states (key # rest) = (case evaluate_keys g states rest of (ready, blocked) \<Rightarrow>
     if stateFor states key \<noteq> StatePending then (ready, blocked)
     else (let node = node_of g key;
               block = block_of states (NDependencies node) \<lparr>BNodeKey = key, BBlockedBy = [], BReplan = False\<rparr>
           in if BBlockedBy block = [] then (node # ready, blocked) else (ready, block # blocked)))"

definition Evaluate :: "Graph \<Rightarrow> (string \<times> State) list \<Rightarrow> Node list \<times> Blocked list" where
  "Evaluate g states = evaluate_keys g states (gkeys g)"

section \<open>What validation establishes\<close>

abbreviation deps :: "Graph \<Rightarrow> string \<Rightarrow> string list" where
  "deps g k \<equiv> NDependencies (node_of g k)"

definition validated :: "Graph \<Rightarrow> bool" where
  "validated g \<longleftrightarrow> distinct (gkeys g) \<and> sorted (gkeys g) \<and> gkeys g \<noteq> [] \<and> length (gkeys g) \<le> MaxNodes
     \<and> (\<forall>k \<in> set (gkeys g). length (deps g k) \<le> 1 \<and> k \<notin> set (deps g k) \<and> set (deps g k) \<subseteq> set (gkeys g)
         \<and> NKey (node_of g k) = k \<and> keyPattern k \<and> gitRefComponentUsable k
         \<and> NGoal (node_of g k) \<noteq> [] \<and> NAcceptanceCriteria (node_of g k) \<noteq> [] \<and> NExpectedPRScope (node_of g k) \<noteq> [])"

definition node_ok :: "string \<times> Node \<Rightarrow> bool" where
  "node_ok p \<longleftrightarrow> NKey (snd p) = fst p \<and> length (NDependencies (snd p)) \<le> 1 \<and> keyPattern (fst p)
     \<and> gitRefComponentUsable (fst p) \<and> NGoal (snd p) \<noteq> [] \<and> NAcceptanceCriteria (snd p) \<noteq> []
     \<and> NExpectedPRScope (snd p) \<noteq> []"

lemma add_nodes_ok:
  "add_nodes nodes acc = Inr acc' \<Longrightarrow> list_all node_ok acc \<Longrightarrow> distinct (map fst acc) \<Longrightarrow>
    list_all node_ok acc' \<and> distinct (map fst acc') \<and> length acc' = length acc + length nodes"
proof (induction nodes arbitrary: acc)
  case (Cons raw rest)
  let ?n = "normalizeNode raw"
  from Cons.prems(1) have step: "add_nodes rest (acc @ [(NKey ?n, ?n)]) = Inr acc'"
    and ok: "node_ok (NKey ?n, ?n)" and new: "map_of acc (NKey ?n) = None"
    by (auto simp: Let_def node_ok_def split: if_splits)
  have "NKey ?n \<notin> fst ` set acc" using new by (simp add: map_of_eq_None_iff)
  then have "distinct (map fst (acc @ [(NKey ?n, ?n)]))" using Cons.prems(3) by simp
  with Cons.IH [OF step] ok Cons.prems(2) show ?case by simp
qed simp

lemma check_dependencies_None: "check_dependencies g k ds = None \<longleftrightarrow>
    k \<notin> set ds \<and> (\<forall>d \<in> set ds. map_of (gnodes g) d \<noteq> None)"
  by (induction ds) auto

lemma check_keys_None: "check_keys g ks = None \<longleftrightarrow> (\<forall>k \<in> set ks. check_dependencies g k (deps g k) = None)"
  by (induction ks) (auto split: option.splits)

lemma check_dependencies_no_cycle: "check_dependencies g k ds \<noteq> Some (DependencyCycle c)"
  by (induction ds) auto

lemma check_keys_no_cycle: "check_keys g ks \<noteq> Some (DependencyCycle c)"
  by (induction ks) (auto simp: check_dependencies_no_cycle split: option.splits)

lemma add_nodes_no_cycle: "add_nodes nodes acc \<noteq> Inl (DependencyCycle c)"
  by (induction nodes arbitrary: acc) (auto simp: Let_def split: if_splits)

lemma checked_validated:
  assumes "add_nodes nodes [] = Inr acc" "nodes \<noteq> []" "length nodes \<le> MaxNodes"
    and g: "g = \<lparr>gnodes = acc, gkeys = sort (map fst acc)\<rparr>" and "check_keys g (gkeys g) = None"
  shows "validated g"
proof -
  from add_nodes_ok [OF assms(1)] have ok: "list_all node_ok acc" "distinct (map fst acc)" "length acc = length nodes"
    by simp_all
  have node: "node_ok (k, node_of g k)" if "k \<in> fst ` set acc" for k
  proof -
    from that obtain n where "map_of acc k = Some n" by (metis map_of_eq_None_iff not_None_eq)
    then show ?thesis using ok(1) map_of_SomeD [of acc k n] by (auto simp: node_of_def g list_all_iff)
  qed
  have dep: "k \<notin> set (deps g k) \<and> set (deps g k) \<subseteq> fst ` set acc" if "k \<in> fst ` set acc" for k
    using assms(5) that unfolding check_keys_None check_dependencies_None
    by (auto simp: g map_of_eq_None_iff)
  have "length (gkeys g) = length nodes" by (simp add: g ok(3))
  then have "gkeys g \<noteq> [] \<and> length (gkeys g) \<le> MaxNodes" using assms(2,3) by auto
  moreover have "set (gkeys g) = fst ` set acc" "sorted (gkeys g)" "distinct (gkeys g)"
    using ok(2) by (simp_all add: g)
  ultimately show ?thesis
    using node dep unfolding validated_def by (auto simp: node_ok_def)
qed

section \<open>The search\<close>

text \<open>The search's stack is a path of open nodes; closed nodes have no infinite chain.\<close>

definition search_ok :: "Graph \<Rightarrow> search \<Rightarrow> bool" where
  "search_ok g s \<longleftrightarrow> sFound s = [] \<and> dfs_ok (deps g) (gkeys g) s \<and> (\<forall>k. state_of s k = 2 \<longrightarrow> grounded (deps g) k)"

definition cycle_in :: "Graph \<Rightarrow> string list \<Rightarrow> bool" where
  "cycle_in g c \<longleftrightarrow> closed_path (deps g) c \<and> set c \<subseteq> set (gkeys g)"

lemma found_push [simp]: "sFound (push k s) = sFound s"
  by (simp add: push_def)

lemma found_pop [simp]: "sFound (pop k s) = sFound s"
  by (simp add: pop_def)

text \<open>What a visit leaves: a closed walk, or the same stack with the node closed.\<close>

definition visited :: "Graph \<Rightarrow> string \<Rightarrow> search \<Rightarrow> search \<Rightarrow> bool" where
  "visited g k s r \<longleftrightarrow> (sFound r \<noteq> [] \<and> cycle_in g (sFound r)) \<or>
     (search_ok g r \<and> sStack r = sStack s \<and> state_of r k = 2 \<and> (\<forall>x. state_of s x = 2 \<longrightarrow> state_of r x = 2))"

declare visit.simps(2) [simp del]

lemma visit_correct:
  assumes v: "validated g"
  shows "search_ok g s \<Longrightarrow> k \<in> set (gkeys g) \<Longrightarrow> state_of s k = 0 \<Longrightarrow>
    sStack s = [] \<or> k \<in> set (deps g (last (sStack s))) \<Longrightarrow>
    length (gkeys g) \<le> n + length (sStack s) \<Longrightarrow> visited g k s (visit n g k s)"
proof (induction n arbitrary: s k)
  case 0
  then show ?case using unseen_room [of "deps g" "gkeys g" s k] by (auto simp: search_ok_def)
next
  case (Suc n)
  let ?p = "push k s"
  from Suc.prems(1) have found: "sFound s = []" and ok: "dfs_ok (deps g) (gkeys g) s"
    and gr: "\<And>x. state_of s x = 2 \<Longrightarrow> grounded (deps g) x" unfolding search_ok_def by blast+
  have p: "dfs_ok (deps g) (gkeys g) ?p" by (rule push_ok [OF ok Suc.prems(2-4)])
  have sp: "search_ok g ?p" using p found gr unfolding search_ok_def by simp
  have keep: "state_of s x = 2 \<Longrightarrow> state_of ?p x = 2" for x using Suc.prems(3) by auto
  have close: "visited g k s (pop k r)"
    if "search_ok g r" "sStack r = sStack ?p" "\<And>d. d \<in> set (deps g k) \<Longrightarrow> state_of r d = 2"
      "\<And>x. state_of ?p x = 2 \<Longrightarrow> state_of r x = 2" for r
  proof -
    have "dfs_ok (deps g) (gkeys g) (pop k r)" using that(1,2) pop_ok unfolding search_ok_def by auto
    moreover have "grounded (deps g) k" using that(1,3) by (auto simp: grounded_iff [of _ k] search_ok_def)
    ultimately show ?thesis using that keep unfolding visited_def search_ok_def by simp
  qed
  have "length (deps g k) \<le> 1" using v Suc.prems(2) unfolding validated_def by blast
  then consider (none) "deps g k = []" | (one) d where "deps g k = [d]"
    by (cases "deps g k"; cases "tl (deps g k)") auto
  then show ?case
  proof cases
    case none
    with found close [of ?p] sp show ?thesis by (simp add: visit.simps)
  next
    case (one d)
    show ?thesis
    proof (cases "map_of (sIndex ?p) d")
      case (Some i)
      with back_edge [OF p _ Some] one found show ?thesis
        by (simp add: visit.simps visited_def cycle_in_def)
    next
      case None
      show ?thesis
      proof (cases "state_of ?p d = 0")
        case True
        have "d \<in> set (gkeys g)" using v Suc.prems(2) one unfolding validated_def by force
        then have "visited g d ?p (visit n g d ?p)"
          using Suc.IH [OF sp _ True] Suc.prems(5) one by simp
        then show ?thesis
          using close [of "visit n g d ?p"] one found True None
          unfolding visited_def [of g d] by (auto simp: visit.simps visited_def)
      next
        case False
        with close [of ?p] unopened_states [OF p None] sp one found None show ?thesis
          by (simp add: visit.simps)
      qed
    qed
  qed
qed

lemma fold_visit:
  assumes "validated g"
  shows "set ks \<subseteq> set (gkeys g) \<Longrightarrow> search_ok g s \<Longrightarrow> sStack s = [] \<Longrightarrow>
    (let r = fold (visit_key g) ks s in (sFound r \<noteq> [] \<and> cycle_in g (sFound r)) \<or>
      (search_ok g r \<and> (\<forall>k. k \<in> set ks \<or> state_of s k = 2 \<longrightarrow> state_of r k = 2)))"
proof (induction ks arbitrary: s)
  case (Cons k ks)
  have stays: "sFound t \<noteq> [] \<Longrightarrow> fold (visit_key g) ks t = t" for t
    by (induction ks) (simp_all add: visit_key_def visit.simps)
  have idx: "map_of (sIndex s) k = None"
    using dfs_okD(4) [of "deps g" "gkeys g" s k] Cons.prems(2,3) unfolding search_ok_def
    by (cases "map_of (sIndex s) k") auto
  have "visited g k s (visit_key g k s)"
  proof (cases "state_of s k = 0")
    case True
    then show ?thesis
      using visit_correct [OF assms Cons.prems(2) _ True] Cons.prems by (simp add: visit_key_def)
  next
    case False
    then show ?thesis using unopened_states [OF _ idx] Cons.prems(2)
      by (auto simp: visit_key_def visited_def search_ok_def)
  qed
  then show ?case
    using Cons.IH [of "visit_key g k s"] Cons.prems stays [of "visit_key g k s"]
    unfolding visited_def Let_def by auto
qed (simp add: Let_def search_ok_def)

lemma search_start: "search_ok g \<lparr>sState = [], sStack = [], sIndex = [], sFound = []\<rparr>"
  by (auto simp: search_ok_def state_of_def intro: dfs_ok_start)

lemma cycle_cases:
  assumes "validated g"
  shows "(cycle g \<noteq> [] \<and> cycle_in g (cycle g)) \<or> (cycle g = [] \<and> (\<forall>k \<in> set (gkeys g). grounded (deps g) k))"
  using fold_visit [OF assms, of "gkeys g", OF _ search_start]
  unfolding Let_def cycle_def search_ok_def by auto

section \<open>What the result of Build means\<close>

lemma cycle_Nil_iff:
  assumes "validated g"
  shows "cycle g = [] \<longleftrightarrow> (\<forall>k \<in> set (gkeys g). grounded (deps g) k)"
proof (cases "cycle g = []")
  case False
  then have c: "cycle_in g (cycle g)" using cycle_cases [OF assms] by blast
  then have "hd (cycle g) \<in> set (gkeys g)" using False unfolding cycle_in_def by (meson hd_in_set subsetD)
  moreover have "\<not> grounded (deps g) (hd (cycle g))"
    using c False closed_path_not_grounded [of "deps g" "cycle g"] by (simp add: cycle_in_def)
  ultimately show ?thesis using False by blast
qed (use cycle_cases [OF assms] in blast)

definition graph_of :: "Node list \<Rightarrow> Graph" where
  "graph_of nodes = \<lparr>gnodes = map (\<lambda>n. (NKey n, n)) (map normalizeNode nodes),
                     gkeys = sort (map NKey (map normalizeNode nodes))\<rparr>"

lemma add_nodes_result: "add_nodes nodes acc = Inr acc' \<Longrightarrow>
    acc' = acc @ map (\<lambda>n. (NKey n, n)) (map normalizeNode nodes)"
proof (induction nodes arbitrary: acc)
  case (Cons n ns)
  let ?n = "normalizeNode n"
  from Cons.prems have "add_nodes ns (acc @ [(NKey ?n, ?n)]) = Inr acc'"
    by (auto simp: Let_def split: if_splits)
  from Cons.IH [OF this] show ?case by simp
qed simp

lemma add_nodes_accepts:
  "list_all node_ok (map (\<lambda>n. (NKey n, n)) (map normalizeNode nodes)) \<Longrightarrow>
   distinct (map fst acc @ map (NKey \<circ> normalizeNode) nodes) \<Longrightarrow> \<exists>acc'. add_nodes nodes acc = Inr acc'"
proof (induction nodes arbitrary: acc)
  case (Cons n ns)
  let ?n = "normalizeNode n"
  have "\<exists>acc'. add_nodes ns (acc @ [(NKey ?n, ?n)]) = Inr acc'"
    using Cons.prems by (intro Cons.IH) auto
  moreover have "map_of acc (NKey ?n) = None" using Cons.prems(2) by (auto simp: map_of_eq_None_iff)
  ultimately show ?case using Cons.prems(1) by (auto simp: node_ok_def Let_def)
qed simp

lemma keys_graph_of: "set (gkeys (graph_of nodes)) = fst ` set (gnodes (graph_of nodes))"
  by (simp add: graph_of_def image_image)

lemma validated_add_nodes:
  assumes v: "validated (graph_of nodes)"
  shows "add_nodes nodes [] = Inr (gnodes (graph_of nodes))" "nodes \<noteq> []" "length nodes \<le> MaxNodes"
proof -
  let ?g = "graph_of nodes"
  have keys: "gkeys ?g = sort (map (NKey \<circ> normalizeNode) nodes)" by (simp add: graph_of_def)
  have d: "distinct (map (NKey \<circ> normalizeNode) nodes)" using v unfolding validated_def keys by simp
  show "nodes \<noteq> []" "length nodes \<le> MaxNodes" using v unfolding validated_def keys by auto
  have "node_ok (NKey n, n)" if n: "n \<in> normalizeNode ` set nodes" for n
  proof -
    have "distinct (map fst (gnodes ?g))" using d by (simp add: graph_of_def comp_def)
    moreover have "(NKey n, n) \<in> set (gnodes ?g)" using n by (auto simp: graph_of_def)
    ultimately have "node_of ?g (NKey n) = n" by (simp add: node_of_def)
    moreover have "NKey n \<in> set (gkeys ?g)" using n unfolding keys by auto
    ultimately show ?thesis using v unfolding validated_def node_ok_def by auto
  qed
  then have "\<exists>acc'. add_nodes nodes [] = Inr acc'"
    using d by (intro add_nodes_accepts) (auto simp: list_all_iff)
  then show "add_nodes nodes [] = Inr (gnodes ?g)"
    using add_nodes_result by (fastforce simp: graph_of_def)
qed

lemma validated_checks:
  assumes "validated g" "set (gkeys g) = fst ` set (gnodes g)"
  shows "check_keys g (gkeys g) = None"
  using assms unfolding validated_def check_keys_None check_dependencies_None
  by (auto simp: map_of_eq_None_iff)

lemma Build_checked:
  assumes "add_nodes nodes [] = Inr acc" "nodes \<noteq> []" "length nodes \<le> MaxNodes"
    and "check_keys (graph_of nodes) (gkeys (graph_of nodes)) = None"
  shows "validated (graph_of nodes)"
    and "Build nodes = (if cycle (graph_of nodes) \<noteq> [] then Inl (DependencyCycle (cycle (graph_of nodes)))
                        else Inr (graph_of nodes))"
proof -
  have acc: "acc = map (\<lambda>n. (NKey n, n)) (map normalizeNode nodes)" using add_nodes_result [OF assms(1)] by simp
  have g: "graph_of nodes = \<lparr>gnodes = acc, gkeys = sort (map fst acc)\<rparr>"
    unfolding graph_of_def acc by (simp add: comp_def)
  show "validated (graph_of nodes)" using checked_validated [OF assms(1-3) g assms(4)] .
  show "Build nodes = (if cycle (graph_of nodes) \<noteq> [] then Inl (DependencyCycle (cycle (graph_of nodes)))
                        else Inr (graph_of nodes))"
    using assms g unfolding Build_def Let_def by simp
qed

lemma Build_outcome:
  "(\<exists>acc. add_nodes nodes [] = Inr acc \<and> nodes \<noteq> [] \<and> length nodes \<le> MaxNodes \<and>
      check_keys (graph_of nodes) (gkeys (graph_of nodes)) = None) \<or>
   (\<exists>e. Build nodes = Inl e \<and> (\<forall>c. e \<noteq> DependencyCycle c))"
proof (cases "nodes = [] \<or> length nodes > MaxNodes")
  case True
  then show ?thesis by (auto simp: Build_def)
next
  case False
  show ?thesis
  proof (cases "add_nodes nodes []")
    case (Inl e)
    then show ?thesis using False add_nodes_no_cycle by (auto simp: Build_def)
  next
    case (Inr acc)
    have g: "graph_of nodes = \<lparr>gnodes = acc, gkeys = sort (map fst acc)\<rparr>"
      using add_nodes_result [OF Inr] unfolding graph_of_def by (simp add: comp_def)
    show ?thesis
    proof (cases "check_keys (graph_of nodes) (gkeys (graph_of nodes))")
      case (Some e)
      then have "Build nodes = Inl e" using False Inr unfolding Build_def Let_def g by simp
      then show ?thesis using Some check_keys_no_cycle by blast
    qed (use False Inr in auto)
  qed
qed

lemma Build_accepts_validated: "Build nodes = Inr g \<Longrightarrow>
   g = graph_of nodes \<and> validated g \<and> (\<forall>k \<in> set (gkeys g). grounded (deps g) k)"
  using Build_outcome [of nodes] Build_checked [of nodes] cycle_Nil_iff [of "graph_of nodes"]
  by (auto split: if_splits)

section \<open>What Evaluate computes\<close>

lemma block_of_fields:
  "BBlockedBy (block_of states ds b) = BBlockedBy b @ filter (\<lambda>d. stateFor states d \<noteq> StateCompleted) ds"
  "BReplan (block_of states ds b) \<longleftrightarrow> BReplan b \<or>
     (\<exists>d \<in> set ds. stateFor states d \<in> {StateFailed, StateClosed, StateInvalid})"
  "BNodeKey (block_of states ds b) = BNodeKey b"
  by (induction ds arbitrary: b) (auto simp: Let_def)

definition ready_key :: "Graph \<Rightarrow> (string \<times> State) list \<Rightarrow> string \<Rightarrow> bool" where
  "ready_key g states k \<longleftrightarrow> stateFor states k = StatePending
     \<and> (\<forall>d \<in> set (deps g k). stateFor states d = StateCompleted)"

lemma evaluate_ready: "fst (evaluate_keys g states ks) = map (node_of g) (filter (ready_key g states) ks)"
  by (induction ks)
    (auto simp: ready_key_def block_of_fields Let_def filter_empty_conv split: prod.splits)

lemma evaluate_blocked: "snd (evaluate_keys g states ks) =
    map (\<lambda>k. block_of states (deps g k) \<lparr>BNodeKey = k, BBlockedBy = [], BReplan = False\<rparr>)
      (filter (\<lambda>k. stateFor states k = StatePending \<and> \<not> ready_key g states k) ks)"
  by (induction ks)
    (auto simp: ready_key_def block_of_fields Let_def filter_empty_conv split: prod.splits)

text \<open>One round of the coordinator: every ready node runs and completes.\<close>

definition complete_ready :: "Graph \<Rightarrow> (string \<times> State) list \<Rightarrow> (string \<times> State) list" where
  "complete_ready g states = fold (\<lambda>n. put (NKey n) StateCompleted) (fst (Evaluate g states)) states"

lemma stateFor_fold_put:
  "stateFor (fold (\<lambda>n. put (NKey n) StateCompleted) ns states) k =
    (if k \<in> NKey ` set ns then StateCompleted else stateFor states k)"
proof (induction ns arbitrary: states)
  case (Cons n ns)
  have "stateFor (put (NKey n) StateCompleted states) x
      = (if x = NKey n then StateCompleted else stateFor states x)" for x
    by (simp add: stateFor_def map_of_put)
  then show ?case by (simp add: Cons.IH)
qed simp

lemma stateFor_complete_ready:
  assumes "validated g" "k \<in> set (gkeys g)"
  shows "stateFor (complete_ready g states) k =
    (if ready_key g states k then StateCompleted else stateFor states k)"
proof -
  have "NKey ` set (fst (Evaluate g states)) = {k \<in> set (gkeys g). ready_key g states k}"
    using assms(1) unfolding validated_def Evaluate_def evaluate_ready by force
  with assms(2) show ?thesis unfolding complete_ready_def stateFor_fold_put by simp
qed

definition in_progress :: "Graph \<Rightarrow> (string \<times> State) list \<Rightarrow> bool" where
  "in_progress g states \<longleftrightarrow>
     (\<forall>k \<in> set (gkeys g). stateFor states k = StatePending \<or> stateFor states k = StateCompleted)"

lemma grounded_ready:
  assumes v: "validated g" and p: "in_progress g states"
  shows "grounded (deps g) k \<Longrightarrow> k \<in> set (gkeys g) \<Longrightarrow> stateFor states k = StatePending \<Longrightarrow>
    \<exists>r \<in> set (gkeys g). ready_key g states r"
proof (induction k rule: grounded.induct)
  case (1 k)
  show ?case
  proof (cases "ready_key g states k")
    case False
    then obtain d where d: "d \<in> set (deps g k)" "stateFor states d \<noteq> StateCompleted"
      using 1 unfolding ready_key_def by blast
    moreover have "d \<in> set (gkeys g)" using v d(1) 1 unfolding validated_def by blast
    ultimately show ?thesis using 1 p unfolding in_progress_def by blast
  qed (use 1 in blast)
qed

definition pending_keys :: "Graph \<Rightarrow> (string \<times> State) list \<Rightarrow> string list" where
  "pending_keys g states = filter (\<lambda>k. stateFor states k = StatePending) (gkeys g)"

lemma round_progress:
  assumes v: "validated g" and ac: "\<forall>k \<in> set (gkeys g). grounded (deps g) k" and p: "in_progress g states"
  shows "in_progress g (complete_ready g states)"
    and "pending_keys g states \<noteq> [] \<Longrightarrow>
      length (pending_keys g (complete_ready g states)) < length (pending_keys g states)"
proof -
  show "in_progress g (complete_ready g states)"
    using p unfolding in_progress_def by (auto simp: stateFor_complete_ready [OF v])
  assume "pending_keys g states \<noteq> []"
  then obtain k where "k \<in> set (gkeys g)" "stateFor states k = StatePending"
    by (auto simp: pending_keys_def filter_empty_conv)
  with grounded_ready [OF v p, of k] ac obtain r where r: "r \<in> set (gkeys g)" "ready_key g states r" by blast
  have "pending_keys g (complete_ready g states) = filter (\<lambda>k. \<not> ready_key g states k) (pending_keys g states)"
    unfolding pending_keys_def filter_filter
    by (rule filter_cong) (auto simp: stateFor_complete_ready [OF v])
  moreover have "r \<in> set (pending_keys g states)" using r by (auto simp: pending_keys_def ready_key_def)
  ultimately show "length (pending_keys g (complete_ready g states)) < length (pending_keys g states)"
    using r(2) by (simp add: length_filter_less)
qed

lemma rounds_finish:
  assumes v: "validated g" and ac: "\<forall>k \<in> set (gkeys g). grounded (deps g) k"
  shows "in_progress g states \<Longrightarrow> length (pending_keys g states) \<le> n \<Longrightarrow>
    in_progress g ((complete_ready g ^^ n) states) \<and> pending_keys g ((complete_ready g ^^ n) states) = []"
proof (induction n arbitrary: states)
  case (Suc n)
  have "length (pending_keys g (complete_ready g states)) \<le> n"
  proof (cases "pending_keys g states = []")
    case True
    then have "pending_keys g (complete_ready g states) = []"
      by (auto simp: pending_keys_def filter_empty_conv stateFor_complete_ready [OF v])
    then show ?thesis by simp
  qed (use round_progress(2) [OF v ac Suc.prems(1)] Suc.prems(2) in simp)
  then show ?case
    using Suc.IH [OF round_progress(1) [OF v ac Suc.prems(1)]] by (simp add: funpow_swap1)
qed simp

section \<open>Properties\<close>

definition sample_node :: "string \<Rightarrow> string list \<Rightarrow> Node" where
  "sample_node k ds = \<lparr>NKey = k, NGoal = ''g'', NAcceptanceCriteria = [''c''], NDependencies = ds,
                       NExpectedPRScope = ''s''\<rparr>"

definition sample_plan :: "Node list" where
  "sample_plan = [sample_node ''ui'' [''api''], sample_node ''api'' [''db ''], sample_node ''db'' []]"

lemma sample_plan_builds: "Build sample_plan = Inr (graph_of sample_plan)"
  by code_simp

text \<open>C31. \<open>Build\<close> accepts exactly the well-formed acyclic plans: it returns a graph if and only if
  that graph is the normalised plan, every node of it is complete, has a usable key, at most one
  dependency, no unknown and no self dependency, the keys are distinct and at most 32, and no
  chain of dependencies is infinite.\<close>

theorem Build_exact: "Build nodes = Inr g \<longleftrightarrow>
    g = graph_of nodes \<and> validated g \<and> (\<forall>k \<in> set (gkeys g). grounded (deps g) k)"
proof
  assume "g = graph_of nodes \<and> validated g \<and> (\<forall>k \<in> set (gkeys g). grounded (deps g) k)"
  then show "Build nodes = Inr g"
    using validated_add_nodes [of nodes] Build_checked(2) [of nodes "gnodes (graph_of nodes)"]
      validated_checks [OF _ keys_graph_of] cycle_Nil_iff by auto
qed (rule Build_accepts_validated)

theorem Build_exact_witness: "validated (graph_of sample_plan) \<and> grounded (deps (graph_of sample_plan)) ''ui''"
proof -
  have "''ui'' \<in> set (gkeys (graph_of sample_plan))" by code_simp
  then show ?thesis using Build_exact [of sample_plan "graph_of sample_plan"] sample_plan_builds by blast
qed

text \<open>When \<open>Build\<close> reports a dependency cycle, the cycle it names is real: a closed chain of
  dependencies among the plan's own nodes, starting and ending at the same key.\<close>

theorem Build_reports_real_cycle: "Build nodes = Inl (DependencyCycle c) \<Longrightarrow> cycle_in (graph_of nodes) c"
  using Build_outcome [of nodes] Build_checked [of nodes] cycle_cases [of "graph_of nodes"]
  by (auto split: if_splits)

theorem Build_reports_real_cycle_witness:
  "cycle_in (graph_of [sample_node ''a'' [''b''], sample_node ''b'' [''c''], sample_node ''c'' [''b'']]) [''b'', ''c'', ''b'']"
  by (rule Build_reports_real_cycle) code_simp

text \<open>\<open>Evaluate\<close> sorts the pending nodes exactly: the ready ones are those whose dependencies
  are all completed, in key order, every other pending node is reported blocked by precisely its
  uncompleted dependencies, and a replan is asked for exactly when one of them failed, was closed
  or is invalid.\<close>

theorem Evaluate_exact:
  "fst (Evaluate g states) = map (node_of g) (filter (ready_key g states) (gkeys g))
   \<and> map BNodeKey (snd (Evaluate g states)) =
       filter (\<lambda>k. stateFor states k = StatePending \<and> \<not> ready_key g states k) (gkeys g)
   \<and> list_all (\<lambda>b. BBlockedBy b = filter (\<lambda>d. stateFor states d \<noteq> StateCompleted) (deps g (BNodeKey b))
       \<and> (BReplan b = list_ex (\<lambda>d. stateFor states d \<in> {StateFailed, StateClosed, StateInvalid}) (deps g (BNodeKey b))))
       (snd (Evaluate g states))"
  unfolding Evaluate_def evaluate_ready evaluate_blocked
  by (simp add: block_of_fields list_all_iff list_ex_iff comp_def)

text \<open>C32. A plan that \<open>Build\<close> accepts always finishes: if each round completes the nodes that
  \<open>Evaluate\<close> calls ready, at most 32 rounds complete every node, from the empty state.\<close>

theorem accepted_plan_finishes: "Build nodes = Inr g \<Longrightarrow> k \<in> set (gkeys g) \<Longrightarrow>
    stateFor ((complete_ready g ^^ MaxNodes) []) k = StateCompleted"
proof -
  assume "Build nodes = Inr g" and k: "k \<in> set (gkeys g)"
  then have v: "validated g" and ac: "\<forall>k \<in> set (gkeys g). grounded (deps g) k"
    using Build_accepts_validated by blast+
  have "in_progress g []" by (simp add: in_progress_def stateFor_def)
  moreover have "length (pending_keys g []) \<le> MaxNodes"
    using v length_filter_le [of _ "gkeys g"] unfolding validated_def pending_keys_def by (meson le_trans)
  ultimately show ?thesis
    using rounds_finish [OF v ac] k unfolding in_progress_def pending_keys_def filter_empty_conv by blast
qed

theorem accepted_plan_finishes_witness:
  "stateFor ((complete_ready (graph_of sample_plan) ^^ MaxNodes) []) ''ui'' = StateCompleted"
proof (rule accepted_plan_finishes [where nodes = sample_plan])
  show "Build sample_plan = Inr (graph_of sample_plan)" by (rule sample_plan_builds)
  show "''ui'' \<in> set (gkeys (graph_of sample_plan))" by code_simp
qed

end
