(* ===== verification/Dep_Graph.thy ===== *)
theory Dep_Graph
  imports Depth_First
begin

text \<open>
  The coordinator's dependency gate (\<open>internal/coordinator/depgraph/depgraph.go\<close>): which
  tracked issues may be dispatched, what blocks the others, and the cycles among the blocked
  ones. Go maps are association lists in the order an iteration visits them; the facts hold for
  every order unless one is named. Sets of references are the sorted lists the code makes of them.
\<close>

section \<open>References to issues\<close>

datatype IssueRef = IssueRef (Repo: string) (Number: int)

text \<open>\<open>refLess\<close> on normalised references: the repository first, then the number.\<close>

instantiation IssueRef :: linorder
begin

definition less_eq_IssueRef :: "IssueRef \<Rightarrow> IssueRef \<Rightarrow> bool" where
  "a \<le> b \<longleftrightarrow> Repo a < Repo b \<or> (Repo a = Repo b \<and> Number a \<le> Number b)"

definition less_IssueRef :: "IssueRef \<Rightarrow> IssueRef \<Rightarrow> bool" where
  "a < b \<longleftrightarrow> Repo a < Repo b \<or> (Repo a = Repo b \<and> Number a < Number b)"

instance
  by (intro_classes; auto simp: less_eq_IssueRef_def less_IssueRef_def intro: IssueRef.expand)

end

definition normalizeRef :: "IssueRef \<Rightarrow> IssueRef" where
  "normalizeRef ref = IssueRef (to_lower (trim_space (Repo ref))) (Number ref)"

definition refLess :: "IssueRef \<Rightarrow> IssueRef \<Rightarrow> bool" where
  "refLess left right = (let left = normalizeRef left; right = normalizeRef right in
     if Repo left \<noteq> Repo right then Repo left < Repo right else Number left < Number right)"

definition refsFromSet :: "IssueRef list \<Rightarrow> IssueRef list" where
  "refsFromSet refs = sort_key normalizeRef (remdups refs)"

definition uniqueSortedRefs :: "IssueRef list \<Rightarrow> IssueRef list" where
  "uniqueSortedRefs input = refsFromSet (filter (\<lambda>r. Number r > 0) (map normalizeRef input))"

definition IssueRef_String :: "IssueRef \<Rightarrow> string" where
  "IssueRef_String r0 = (let r = normalizeRef r0 in
     if Number r \<le> 0 then []
     else if Repo r = [] then ''#'' @ itoa (Number r)
     else Repo r @ ''#'' @ itoa (Number r))"

section \<open>The snapshot and the blockers\<close>

record IssueState =
  IState :: string
  IReason :: string

record Snapshot =
  SBlockedBy :: "(IssueRef \<times> IssueRef list) list"
  SIssues :: "(IssueRef \<times> IssueState) list"
  SUnreachable :: "IssueRef list"

record Blocker =
  BIssue :: IssueRef
  BState :: string
  BReason :: string
  BSatisfied :: bool
  BRequiresReTriage :: bool
  BUnreachable :: bool
  BNumber :: int
  BRepo :: string
  BReachable :: bool

type_synonym Cycle = "IssueRef list"

definition deps_at :: "(IssueRef \<times> IssueRef list) list \<Rightarrow> IssueRef \<Rightarrow> IssueRef list" where
  "deps_at m k = (case map_of m k of Some ds \<Rightarrow> ds | None \<Rightarrow> [])"

fun append_deps :: "IssueRef \<Rightarrow> IssueRef list \<Rightarrow> (IssueRef \<times> IssueRef list) list \<Rightarrow> (IssueRef \<times> IssueRef list) list" where
  "append_deps issue [] out = out"
| "append_deps issue (dep # deps) out = (let dep = normalizeRef dep in
     append_deps issue deps (if Number dep \<le> 0 then out else put issue (deps_at out issue @ [dep]) out))"

fun normalizeBlockedBy :: "(IssueRef \<times> IssueRef list) list \<Rightarrow> (IssueRef \<times> IssueRef list) list \<Rightarrow> (IssueRef \<times> IssueRef list) list" where
  "normalizeBlockedBy [] out = out"
| "normalizeBlockedBy ((issue, deps) # input) out = (let issue = normalizeRef issue in
     normalizeBlockedBy input (if Number issue \<le> 0 then out else append_deps issue deps out))"

fun normalizeIssueStates :: "(IssueRef \<times> IssueState) list \<Rightarrow> (IssueRef \<times> IssueState) list \<Rightarrow> (IssueRef \<times> IssueState) list" where
  "normalizeIssueStates [] out = out"
| "normalizeIssueStates ((ref, state) # input) out = (let ref = normalizeRef ref in
     normalizeIssueStates input (if Number ref \<le> 0 then out
       else put ref \<lparr>IState = trim_space (IState state), IReason = trim_space (IReason state)\<rparr> out))"

definition classifyBlockerState :: "IssueState \<Rightarrow> bool \<times> bool" where
  "classifyBlockerState state =
     (let normalizedState = to_lower (trim_space (IState state));
          normalizedReason = to_lower (trim_space (IReason state))
      in if normalizedState = ''closed'' \<and> normalizedReason = ''completed'' then (True, False)
         else if normalizedState = ''closed'' \<and> (normalizedReason = ''not_planned'' \<or> normalizedReason = ''duplicate'')
         then (False, True)
         else (False, False))"

definition newBlocker :: "IssueRef \<Rightarrow> (IssueRef \<times> IssueState) list \<Rightarrow> Blocker" where
  "newBlocker dep0 issues = (let dep = normalizeRef dep0 in
     case map_of issues dep of
       None \<Rightarrow> \<lparr>BIssue = dep, BState = [], BReason = [], BSatisfied = False, BRequiresReTriage = False,
                BUnreachable = True, BNumber = 0, BRepo = [], BReachable = False\<rparr>
     | Some st \<Rightarrow> (let state = \<lparr>IState = to_lower (trim_space (IState st)), IReason = to_lower (trim_space (IReason st))\<rparr>
        in \<lparr>BIssue = dep, BState = IState state, BReason = IReason state,
            BSatisfied = fst (classifyBlockerState state), BRequiresReTriage = snd (classifyBlockerState state),
            BUnreachable = False, BNumber = 0, BRepo = [], BReachable = False\<rparr>))"

text \<open>The inner loop of \<open>Build\<close>: the unsatisfied blockers, the tracked ones among them, and
  the references found unreachable.\<close>

fun scan_deps :: "IssueRef list \<Rightarrow> (IssueRef \<times> IssueState) list \<Rightarrow> IssueRef list \<Rightarrow>
    Blocker list \<times> IssueRef list \<times> IssueRef list" where
  "scan_deps tracked states [] = ([], [], [])"
| "scan_deps tracked states (dep # deps) = (case scan_deps tracked states deps of (us, ts, ur) \<Rightarrow>
     let blocker = newBlocker dep states in
     if BSatisfied blocker then (us, ts, ur)
     else if BUnreachable blocker then (blocker # us, ts, BIssue blocker # ur)
     else if BIssue blocker \<in> set tracked then (blocker # us, BIssue blocker # ts, ur)
     else (blocker # us, ts, ur))"

record DependencyGraph =
  readySet :: "IssueRef list"
  cycles :: "Cycle list"
  unreachable :: "IssueRef list"
  blockers :: "(IssueRef \<times> Blocker list) list"

record scan =
  scReady :: "IssueRef list"
  scBlockers :: "(IssueRef \<times> Blocker list) list"
  scEdges :: "(IssueRef \<times> IssueRef list) list"
  scUnreachable :: "IssueRef list"

definition scan_issue :: "IssueRef list \<Rightarrow> (IssueRef \<times> IssueRef list) list \<Rightarrow> (IssueRef \<times> IssueState) list \<Rightarrow>
    IssueRef \<Rightarrow> scan \<Rightarrow> scan" where
  "scan_issue tracked blockedBy states issue s =
     (case scan_deps tracked states (uniqueSortedRefs (deps_at blockedBy issue)) of (unsatisfied, trackedDeps, ur) \<Rightarrow>
        let s1 = s\<lparr>scUnreachable := scUnreachable s @ ur\<rparr> in
        if unsatisfied = [] then s1\<lparr>scReady := scReady s1 @ [issue]\<rparr>
        else (let s2 = s1\<lparr>scBlockers := put issue unsatisfied (scBlockers s1)\<rparr> in
              if trackedDeps = [] then s2 else s2\<lparr>scEdges := put issue trackedDeps (scEdges s2)\<rparr>))"

section \<open>Cycles\<close>

definition refsSliceLess_step :: "IssueRef \<Rightarrow> IssueRef \<Rightarrow> bool option" where
  "refsSliceLess_step l r = (if refLess l r then Some True else if refLess r l then Some False else None)"

fun refsSliceLess :: "IssueRef list \<Rightarrow> IssueRef list \<Rightarrow> bool" where
  "refsSliceLess (l # ls) (r # rs) = (case refsSliceLess_step l r of Some b \<Rightarrow> b | None \<Rightarrow> refsSliceLess ls rs)"
| "refsSliceLess left right = (length left < length right)"

text \<open>The rotations of the open part of the cycle are tried from the first to the last.\<close>

definition better_rotation :: "IssueRef list \<Rightarrow> nat \<Rightarrow> IssueRef list \<Rightarrow> IssueRef list" where
  "better_rotation nodes index best = (let candidate = drop index nodes @ take index nodes in
     if refsSliceLess candidate best then candidate else best)"

definition canonicalizeCycle :: "IssueRef list \<Rightarrow> Cycle" where
  "canonicalizeCycle cycle =
     (if length cycle < 2 then []
      else (let nodes = butlast cycle;
                best = fold (better_rotation nodes) [1..<length nodes] nodes
            in best @ [hd best]))"

definition cycleKey :: "Cycle \<Rightarrow> string" where
  "cycleKey cycle = join ''->'' (map IssueRef_String cycle)"

record cycle_search = "IssueRef dfs" +
  sSeen :: "(string \<times> Cycle) list"

fun visit :: "nat \<Rightarrow> (IssueRef \<times> IssueRef list) list \<Rightarrow> IssueRef \<Rightarrow> cycle_search \<Rightarrow> cycle_search"
  and visit_next :: "nat \<Rightarrow> (IssueRef \<times> IssueRef list) list \<Rightarrow> IssueRef list \<Rightarrow> cycle_search \<Rightarrow> cycle_search" where
  "visit 0 edges node s = s"
| "visit (Suc n) edges node s = pop node (visit_next n edges (deps_at edges node) (push node s))"
| "visit_next n edges [] s = s"
| "visit_next n edges (x # xs) s = visit_next n edges xs
     (case map_of (sIndex s) x of
        Some idx \<Rightarrow> (let normalized = canonicalizeCycle (drop idx (sStack s) @ [x])
                     in s\<lparr>sSeen := put (cycleKey normalized) normalized (sSeen s)\<rparr>)
      | None \<Rightarrow> (if state_of s x = 0 then visit n edges x s else s))"

definition visit_unseen :: "nat \<Rightarrow> (IssueRef \<times> IssueRef list) list \<Rightarrow> IssueRef \<Rightarrow> cycle_search \<Rightarrow> cycle_search" where
  "visit_unseen n edges node s = (if state_of s node = 0 then visit n edges node s else s)"

definition detectCycles :: "IssueRef list \<Rightarrow> (IssueRef \<times> IssueRef list) list \<Rightarrow> Cycle list" where
  "detectCycles tracked edges =
     (let seen = sSeen (fold (visit_unseen (length tracked) edges) tracked
                   \<lparr>sState = [], sStack = [], sIndex = [], sSeen = []\<rparr>)
      in map (\<lambda>key. case map_of seen key of Some c \<Rightarrow> c | None \<Rightarrow> []) (sort (map fst seen)))"

section \<open>The graph and its queries\<close>

definition scan_all :: "IssueRef list \<Rightarrow> Snapshot \<Rightarrow> scan" where
  "scan_all tracked snapshot =
     fold (scan_issue tracked (normalizeBlockedBy (SBlockedBy snapshot) []) (normalizeIssueStates (SIssues snapshot) []))
       tracked \<lparr>scReady = [], scBlockers = [], scEdges = [],
                scUnreachable = filter (\<lambda>r. Number r > 0) (map normalizeRef (SUnreachable snapshot))\<rparr>"

definition Build :: "IssueRef list \<Rightarrow> Snapshot \<Rightarrow> DependencyGraph" where
  "Build tracked0 snapshot = (let tracked = uniqueSortedRefs tracked0; s = scan_all tracked snapshot in
     \<lparr>readySet = scReady s, cycles = detectCycles tracked (scEdges s),
      unreachable = refsFromSet (scUnreachable s), blockers = scBlockers s\<rparr>)"

definition BlockersOf :: "DependencyGraph \<Rightarrow> IssueRef \<Rightarrow> Blocker list" where
  "BlockersOf g issue = (case map_of (blockers g) (normalizeRef issue) of Some rows \<Rightarrow> rows | None \<Rightarrow> [])"

text \<open>The map of blockers is ranged over in the order of the list.\<close>

fun unsatisfied_rows :: "(IssueRef \<times> Blocker list) list \<Rightarrow> int \<Rightarrow> Blocker list" where
  "unsatisfied_rows [] n = []"
| "unsatisfied_rows ((issue, bs) # rest) n =
     (if Number issue \<noteq> n \<or> bs = [] then unsatisfied_rows rest n
      else map (\<lambda>b. b\<lparr>BNumber := Number (BIssue b), BRepo := Repo (BIssue b), BReachable := \<not> BUnreachable b\<rparr>) bs)"

definition Unsatisfied :: "DependencyGraph \<Rightarrow> int \<Rightarrow> Blocker list" where
  "Unsatisfied g issueNumber = (if issueNumber \<le> 0 then [] else unsatisfied_rows (blockers g) issueNumber)"

section \<open>What the normalised snapshot holds\<close>

lemma Number_normalizeRef [simp]: "Number (normalizeRef r) = Number r"
  by (simp add: normalizeRef_def)

lemma normalizeRef_idem [simp]: "normalizeRef (normalizeRef r) = normalizeRef r"
  by (simp add: normalizeRef_def trim_space_to_lower)

lemma refLess_iff: "refLess l r \<longleftrightarrow> normalizeRef l < normalizeRef r"
  by (auto simp: refLess_def less_IssueRef_def Let_def)

definition normalised :: "IssueRef list \<Rightarrow> bool" where
  "normalised rs \<longleftrightarrow> map normalizeRef rs = rs"

lemma normalised_iff: "normalised rs \<longleftrightarrow> (\<forall>r \<in> set rs. normalizeRef r = r)"
  unfolding normalised_def by (induction rs) auto

lemma refsFromSet_facts: "set (refsFromSet rs) = set rs" "distinct (refsFromSet rs)"
  by (simp_all add: refsFromSet_def)

lemma uniqueSortedRefs_set: "set (uniqueSortedRefs input) = {normalizeRef r |r. r \<in> set input \<and> Number r > 0}"
  by (auto simp: uniqueSortedRefs_def refsFromSet_facts)

lemma uniqueSortedRefs_distinct [simp]: "distinct (uniqueSortedRefs input)"
  by (simp add: uniqueSortedRefs_def refsFromSet_facts)

lemma uniqueSortedRefs_member: "r \<in> set (uniqueSortedRefs input) \<Longrightarrow> normalizeRef r = r \<and> Number r > 0"
  by (auto simp: uniqueSortedRefs_set)

lemma deps_at_put [simp]: "deps_at (put k v m) x = (if x = k then v else deps_at m x)"
  by (simp add: deps_at_def map_of_put)

lemma append_deps_at: "deps_at (append_deps issue deps out) x =
    (if x = issue then deps_at out x @ filter (\<lambda>d. Number d > 0) (map normalizeRef deps) else deps_at out x)"
  by (induction deps arbitrary: out) (auto simp: Let_def)

text \<open>All the dependencies the snapshot lists for an issue, in whatever spelling of its name.\<close>

definition listed_deps :: "Snapshot \<Rightarrow> IssueRef \<Rightarrow> IssueRef list" where
  "listed_deps snapshot i = concat (map (\<lambda>(k, ds). if normalizeRef k = i
     then filter (\<lambda>d. Number d > 0) (map normalizeRef ds) else []) (SBlockedBy snapshot))"

lemma normalizeBlockedBy_at: "Number i > 0 \<Longrightarrow> deps_at (normalizeBlockedBy input out) i =
    deps_at out i @ concat (map (\<lambda>(k, ds). if normalizeRef k = i
      then filter (\<lambda>d. Number d > 0) (map normalizeRef ds) else []) input)"
proof (induction input out rule: normalizeBlockedBy.induct)
  case (2 issue deps input out)
  show ?case
  proof (cases "Number issue \<le> 0")
    case True
    then have "normalizeRef issue \<noteq> i" using "2.prems" by (metis Number_normalizeRef not_less)
    with True 2 show ?thesis by (simp add: Let_def)
  next
    case False
    with 2 show ?thesis by (auto simp: Let_def append_deps_at)
  qed
qed simp

text \<open>The state that counts for a reference: the last one listed for it.\<close>

definition listed_state :: "Snapshot \<Rightarrow> IssueRef \<Rightarrow> IssueState option" where
  "listed_state snapshot r = map_of (rev (map (\<lambda>(k, s). (normalizeRef k, s)) (SIssues snapshot))) (normalizeRef r)"

lemma normalizeIssueStates_map: "Number k > 0 \<Longrightarrow> map_of (normalizeIssueStates input out) k =
   (case map_of (rev (map (\<lambda>(k, s). (normalizeRef k, s)) input)) k of
      Some s \<Rightarrow> Some \<lparr>IState = trim_space (IState s), IReason = trim_space (IReason s)\<rparr>
    | None \<Rightarrow> map_of out k)"
proof (induction input out rule: normalizeIssueStates.induct)
  case (2 ref state input out)
  show ?case
  proof (cases "Number ref \<le> 0")
    case True
    then have "normalizeRef ref \<noteq> k" using "2.prems" by (metis Number_normalizeRef not_less)
    with True 2 show ?thesis by (auto simp: Let_def map_add_def split: option.splits)
  next
    case False
    with 2 show ?thesis by (auto simp: Let_def map_add_def map_of_put split: option.splits)
  qed
qed simp

definition completed :: "Snapshot \<Rightarrow> IssueRef \<Rightarrow> bool" where
  "completed snapshot r = (case listed_state snapshot r of
     Some s \<Rightarrow> to_lower (trim_space (IState s)) = ''closed'' \<and> to_lower (trim_space (IReason s)) = ''completed''
   | None \<Rightarrow> False)"

abbreviation states_of :: "Snapshot \<Rightarrow> (IssueRef \<times> IssueState) list" where
  "states_of snapshot \<equiv> normalizeIssueStates (SIssues snapshot) []"

abbreviation blocked_by :: "Snapshot \<Rightarrow> (IssueRef \<times> IssueRef list) list" where
  "blocked_by snapshot \<equiv> normalizeBlockedBy (SBlockedBy snapshot) []"

lemma newBlocker_facts:
  assumes "Number d > 0"
  shows "BSatisfied (newBlocker d (states_of snapshot)) \<longleftrightarrow> completed snapshot d"
    "BUnreachable (newBlocker d (states_of snapshot)) \<longleftrightarrow> listed_state snapshot d = None"
    "BIssue (newBlocker d (states_of snapshot)) = normalizeRef d"
  using assms normalizeIssueStates_map [of "normalizeRef d" "SIssues snapshot" "[]"]
  by (auto simp: newBlocker_def classifyBlockerState_def completed_def listed_state_def Let_def
      trim_space_to_lower split: option.splits)

lemma newBlocker_unreachable: "BUnreachable (newBlocker d st) \<Longrightarrow> \<not> BSatisfied (newBlocker d st)"
  by (auto simp: newBlocker_def Let_def split: option.splits)

lemma scan_deps_eq: "scan_deps tracked st deps =
    (filter (\<lambda>b. \<not> BSatisfied b) (map (\<lambda>d. newBlocker d st) deps),
     map BIssue (filter (\<lambda>b. \<not> BSatisfied b \<and> \<not> BUnreachable b \<and> BIssue b \<in> set tracked) (map (\<lambda>d. newBlocker d st) deps)),
     map BIssue (filter BUnreachable (map (\<lambda>d. newBlocker d st) deps)))"
  by (induction deps) (auto simp: Let_def dest: newBlocker_unreachable)

section \<open>What Build collects\<close>

definition deps_of :: "Snapshot \<Rightarrow> IssueRef \<Rightarrow> IssueRef list" where
  "deps_of snapshot i = uniqueSortedRefs (deps_at (blocked_by snapshot) i)"

definition open_blockers :: "Snapshot \<Rightarrow> IssueRef \<Rightarrow> Blocker list" where
  "open_blockers snapshot i =
     filter (\<lambda>b. \<not> BSatisfied b) (map (\<lambda>d. newBlocker d (states_of snapshot)) (deps_of snapshot i))"

definition tracked_edges :: "IssueRef list \<Rightarrow> Snapshot \<Rightarrow> IssueRef \<Rightarrow> IssueRef list" where
  "tracked_edges tracked snapshot i = map BIssue
     (filter (\<lambda>b. \<not> BUnreachable b \<and> BIssue b \<in> set tracked) (open_blockers snapshot i))"

lemma scan_issue_eq: "scan_issue tracked (blocked_by snapshot) (states_of snapshot) i s =
   (let u = open_blockers snapshot i; t = tracked_edges tracked snapshot i;
        s1 = s\<lparr>scUnreachable := scUnreachable s @ map BIssue (filter BUnreachable
               (map (\<lambda>d. newBlocker d (states_of snapshot)) (deps_of snapshot i)))\<rparr>
    in if u = [] then s1\<lparr>scReady := scReady s1 @ [i]\<rparr>
       else if t = [] then s1\<lparr>scBlockers := put i u (scBlockers s1)\<rparr>
       else s1\<lparr>scBlockers := put i u (scBlockers s1), scEdges := put i t (scEdges s1)\<rparr>)"
  by (simp add: scan_issue_def scan_deps_eq deps_of_def open_blockers_def tracked_edges_def Let_def
      filter_filter conj_commute conj_left_commute)

lemma tracked_edges_Nil: "open_blockers snapshot i = [] \<Longrightarrow> tracked_edges tracked snapshot i = []"
  by (simp add: tracked_edges_def)

lemma scan_fold:
  assumes "distinct is"
  shows "scReady (fold (scan_issue tracked (blocked_by snapshot) (states_of snapshot)) is s) =
      scReady s @ filter (\<lambda>i. open_blockers snapshot i = []) is"
    "map_of (scBlockers (fold (scan_issue tracked (blocked_by snapshot) (states_of snapshot)) is s)) k =
      (if k \<in> set is \<and> open_blockers snapshot k \<noteq> [] then Some (open_blockers snapshot k)
       else map_of (scBlockers s) k)"
    "deps_at (scEdges (fold (scan_issue tracked (blocked_by snapshot) (states_of snapshot)) is s)) k =
      (if k \<in> set is \<and> tracked_edges tracked snapshot k \<noteq> [] then tracked_edges tracked snapshot k
       else deps_at (scEdges s) k)"
  using assms
  by (induction "is" arbitrary: s)
    (auto simp: scan_issue_eq Let_def map_of_put tracked_edges_Nil)

lemma Build_fields:
  fixes tracked snapshot
  defines "ts \<equiv> uniqueSortedRefs tracked"
  shows "readySet (Build tracked snapshot) = filter (\<lambda>i. open_blockers snapshot i = []) ts"
    "map_of (blockers (Build tracked snapshot)) k =
       (if k \<in> set ts \<and> open_blockers snapshot k \<noteq> [] then Some (open_blockers snapshot k) else None)"
    "deps_at (scEdges (scan_all ts snapshot)) k = (if k \<in> set ts then tracked_edges ts snapshot k else [])"
    "cycles (Build tracked snapshot) = detectCycles ts (scEdges (scan_all ts snapshot))"
  using scan_fold [of ts ts snapshot] uniqueSortedRefs_distinct [of tracked]
  by (auto simp: Build_def scan_all_def ts_def Let_def deps_at_def)

text \<open>The gate of the issue is released: all its blockers are closed as completed.\<close>

definition released :: "Snapshot \<Rightarrow> IssueRef \<Rightarrow> bool" where
  "released snapshot i = list_all (completed snapshot) (listed_deps snapshot i)"

lemma listed_deps_member: "d \<in> set (listed_deps snapshot i) \<Longrightarrow> normalizeRef d = d \<and> Number d > 0"
  by (auto simp: listed_deps_def split: if_splits)

lemma blocked_by_at: "Number i > 0 \<Longrightarrow> deps_at (blocked_by snapshot) i = listed_deps snapshot i"
  using normalizeBlockedBy_at [of i "SBlockedBy snapshot" "[]"]
  by (simp add: listed_deps_def deps_at_def [of "[]"])

lemma deps_of_set:
  assumes "Number i > 0"
  shows "set (deps_of snapshot i) = set (listed_deps snapshot i)"
proof -
  have "normalizeRef d = d \<and> Number d > 0" if "d \<in> set (listed_deps snapshot i)" for d
    using listed_deps_member that .
  then show ?thesis
    unfolding deps_of_def uniqueSortedRefs_set blocked_by_at [OF assms] by force
qed

lemma open_blockers_Nil:
  assumes "Number i > 0"
  shows "open_blockers snapshot i = [] \<longleftrightarrow> released snapshot i"
proof -
  have "open_blockers snapshot i = [] \<longleftrightarrow>
      (\<forall>d \<in> set (deps_of snapshot i). BSatisfied (newBlocker d (states_of snapshot)))"
    by (simp add: open_blockers_def filter_empty_conv)
  also have "\<dots> \<longleftrightarrow> (\<forall>d \<in> set (listed_deps snapshot i). completed snapshot d)"
    unfolding deps_of_set [OF assms] using newBlocker_facts(1) listed_deps_member by blast
  finally show ?thesis by (simp add: released_def list_all_iff)
qed

lemma tracked_edges_set:
  assumes "Number i > 0"
  shows "set (tracked_edges tracked snapshot i) =
    {d \<in> set (listed_deps snapshot i). d \<in> set tracked \<and> \<not> completed snapshot d \<and> listed_state snapshot d \<noteq> None}"
proof -
  let ?b = "\<lambda>d. newBlocker d (states_of snapshot)"
  have eq: "BIssue (?b d) = d" "BSatisfied (?b d) = completed snapshot d" "BUnreachable (?b d) = (listed_state snapshot d = None)"
    if "d \<in> set (listed_deps snapshot i)" for d
    using listed_deps_member [OF that] newBlocker_facts [of d snapshot] by auto
  have "set (tracked_edges tracked snapshot i) = {BIssue (?b d) |d. d \<in> set (listed_deps snapshot i)
      \<and> \<not> BSatisfied (?b d) \<and> \<not> BUnreachable (?b d) \<and> BIssue (?b d) \<in> set tracked}"
    unfolding tracked_edges_def open_blockers_def deps_of_set [OF assms, symmetric] by auto
  also have "\<dots> = {d \<in> set (listed_deps snapshot i). d \<in> set tracked \<and> \<not> completed snapshot d \<and> listed_state snapshot d \<noteq> None}"
    (is "?l = ?r")
  proof (rule set_eqI, rule iffI)
    fix x assume "x \<in> ?r"
    then have "BIssue (?b x) = x \<and> x \<in> set (listed_deps snapshot i) \<and> \<not> BSatisfied (?b x)
        \<and> \<not> BUnreachable (?b x) \<and> BIssue (?b x) \<in> set tracked" using eq by simp
    then show "x \<in> ?l" by (intro CollectI exI [of _ x]) metis
  qed (use eq in auto)
  finally show ?thesis .
qed

section \<open>The canonical form of a cycle\<close>

lemma nil_less_iff: "([] :: 'a::order list) < ys \<longleftrightarrow> ys \<noteq> []"
  by (cases ys) auto

lemma refsSliceLess_less: "normalised l \<Longrightarrow> normalised r \<Longrightarrow> refsSliceLess l r \<longleftrightarrow> l < r"
  by (induction l r rule: refsSliceLess.induct)
    (auto simp: refsSliceLess_step_def refLess_iff normalised_iff nil_less_iff)

lemma better_rotation_min: "normalised nodes \<Longrightarrow> normalised best \<Longrightarrow> i \<le> length nodes \<Longrightarrow>
    better_rotation nodes i best = min (rotate i nodes) best"
proof -
  assume n: "normalised nodes" and b: "normalised best" and i: "i \<le> length nodes"
  have r: "drop i nodes @ take i nodes = rotate i nodes"
    using i by (cases "i = length nodes") (simp_all add: rotate_drop_take)
  have "normalised (rotate i nodes)" using n by (simp add: normalised_iff)
  then show ?thesis
    using b by (auto simp: better_rotation_def r refsSliceLess_less min_def Let_def)
qed

lemma better_rotations: "normalised nodes \<Longrightarrow> normalised best \<Longrightarrow> set ks \<subseteq> {..length nodes} \<Longrightarrow>
    fold (better_rotation nodes) ks best = fold (\<lambda>i. min (rotate i nodes)) ks best"
proof (induction ks arbitrary: best)
  case (Cons k ks)
  have "normalised (min (rotate k nodes) best)" using Cons.prems by (simp add: min_def normalised_iff)
  with Cons show ?case by (simp add: better_rotation_min)
qed simp

lemma rotations_range: "(\<lambda>i. rotate i xs) ` {..<length xs} = range (\<lambda>i. rotate i xs)" if "xs \<noteq> []"
proof -
  have "rotate i xs \<in> (\<lambda>i. rotate i xs) ` {..<length xs}" for i
    using rotate_conv_mod [of i xs] that by (intro image_eqI [of _ _ "i mod length xs"]) auto
  then show ?thesis by auto
qed

lemma canonicalizeCycle_Min:
  assumes "normalised nodes" "nodes \<noteq> []"
  shows "canonicalizeCycle (nodes @ [x]) =
    (let best = Min (range (\<lambda>i. rotate i nodes)) in best @ [hd best])"
proof -
  have "set [1..<length nodes] \<subseteq> {..length nodes}" by auto
  from better_rotations [OF assms(1,1) this]
  have "fold (better_rotation nodes) [1..<length nodes] nodes =
      fold min (map (\<lambda>i. rotate i nodes) [1..<length nodes]) nodes"
    by (simp add: fold_map comp_def)
  also have "\<dots> = Min (set (nodes # map (\<lambda>i. rotate i nodes) [1..<length nodes]))"
    by (simp only: Min.set_eq_fold)
  also have "set (nodes # map (\<lambda>i. rotate i nodes) [1..<length nodes]) = (\<lambda>i. rotate i nodes) ` {..<length nodes}"
  proof -
    have "{..<length nodes} = insert 0 {1..<length nodes}" using assms(2) by (cases nodes) auto
    then show ?thesis by simp
  qed
  finally show ?thesis
    using assms by (simp add: canonicalizeCycle_def rotations_range Let_def)
qed

lemma canonicalizeCycle_rotation:
  assumes "normalised nodes" "nodes \<noteq> []"
  obtains j where "canonicalizeCycle (nodes @ [x]) = rotate j nodes @ [hd (rotate j nodes)]"
proof -
  have "finite (range (\<lambda>i. rotate i nodes))" using rotations_range [OF assms(2)] by (metis finite_imageI finite_lessThan)
  then have "Min (range (\<lambda>i. rotate i nodes)) \<in> range (\<lambda>i. rotate i nodes)" by (intro Min_in) auto
  with that show ?thesis unfolding canonicalizeCycle_Min [OF assms] by (auto simp: Let_def)
qed

lemma canonical_closed:
  assumes "normalised nodes" "nodes \<noteq> []" "closed_path succ (nodes @ [hd nodes])"
  shows "closed_path succ (canonicalizeCycle (nodes @ [hd nodes]))"
    and "set (canonicalizeCycle (nodes @ [hd nodes])) = set nodes"
proof -
  obtain j where j: "canonicalizeCycle (nodes @ [hd nodes]) = rotate j nodes @ [hd (rotate j nodes)]"
    using canonicalizeCycle_rotation [OF assms(1,2)] .
  let ?k = "j mod length nodes"
  have r: "rotate j nodes = drop ?k nodes @ take ?k nodes" by (rule rotate_drop_take)
  have "drop ?k nodes \<noteq> []" using assms(2) mod_less_divisor [of "length nodes" j] by (simp add: not_le)
  with closed_path_rotate [of succ "take ?k nodes" "drop ?k nodes"] assms(3)
  show "closed_path succ (canonicalizeCycle (nodes @ [hd nodes]))" unfolding j r by simp
  show "set (canonicalizeCycle (nodes @ [hd nodes])) = set nodes"
    unfolding j using assms(2) hd_in_set [of "rotate j nodes"] by (simp add: insert_absorb)
qed

section \<open>The cycle search\<close>

definition cycles_ok :: "(IssueRef \<times> IssueRef list) list \<Rightarrow> IssueRef list \<Rightarrow> cycle_search \<Rightarrow> bool" where
  "cycles_ok edges nodes s \<longleftrightarrow> dfs_ok (deps_at edges) nodes s
     \<and> (\<forall>c \<in> snd ` set (sSeen s). closed_path (deps_at edges) c \<and> set c \<subseteq> set nodes)
     \<and> (sSeen s = [] \<longrightarrow> (\<forall>k. state_of s k = 2 \<longrightarrow> grounded (deps_at edges) k))"

lemma seen_push [simp]: "sSeen (push k s) = sSeen s"
  by (simp add: push_def)

lemma seen_pop [simp]: "sSeen (pop k s) = sSeen s"
  by (simp add: pop_def)

definition advanced :: "(IssueRef \<times> IssueRef list) list \<Rightarrow> IssueRef list \<Rightarrow> IssueRef list \<Rightarrow> cycle_search \<Rightarrow> cycle_search \<Rightarrow> bool" where
  "advanced edges nodes xs s r \<longleftrightarrow> cycles_ok edges nodes r \<and> sStack r = sStack s
     \<and> (\<forall>x. state_of s x = 2 \<longrightarrow> state_of r x = 2)
     \<and> (sSeen s \<noteq> [] \<longrightarrow> sSeen r \<noteq> []) \<and> (sSeen r = [] \<longrightarrow> (\<forall>x \<in> set xs. state_of r x = 2))"

lemma advanced_step: "advanced edges nodes [x] s t \<Longrightarrow> advanced edges nodes xs t r \<Longrightarrow> advanced edges nodes (x # xs) s r"
  unfolding advanced_def by auto

lemma put_nonempty [simp]: "put k v xs \<noteq> []"
  by (cases xs) auto

lemma snd_put: "snd ` set (put k v xs) \<subseteq> insert v (snd ` set xs)"
  by (induction xs) auto

lemma record_cycle:
  assumes ok: "cycles_ok edges nodes s" and n: "normalised nodes" and st: "sStack s \<noteq> []"
    and x: "x \<in> set (deps_at edges (last (sStack s)))" and i: "map_of (sIndex s) x = Some i"
  shows "advanced edges nodes [x] s (s\<lparr>sSeen := put key (canonicalizeCycle (drop i (sStack s) @ [x])) (sSeen s)\<rparr>)"
proof -
  have dfs: "dfs_ok (deps_at edges) nodes s" using ok unfolding cycles_ok_def by blast
  let ?ns = "drop i (sStack s)"
  note b = back_edge [OF dfs x i]
  have nn: "normalised ?ns" using b(2) n unfolding normalised_iff by auto
  let ?c = "canonicalizeCycle (?ns @ [x])"
  let ?good = "{c. closed_path (deps_at edges) c \<and> set c \<subseteq> set nodes}"
  have "?c \<in> ?good"
    using canonical_closed [OF nn b(4), of "deps_at edges"] b by auto
  moreover have "snd ` set (sSeen s) \<subseteq> ?good" using ok unfolding cycles_ok_def by blast
  ultimately have "snd ` set (put key ?c (sSeen s)) \<subseteq> ?good"
    using snd_put [of key ?c "sSeen s"] by (meson insert_subset subset_trans)
  then have "\<forall>c \<in> snd ` set (put key ?c (sSeen s)). closed_path (deps_at edges) c \<and> set c \<subseteq> set nodes"
    by blast
  moreover have "dfs_ok (deps_at edges) nodes (s\<lparr>sSeen := put key ?c (sSeen s)\<rparr>)"
    by (rule dfs_ok_cong [OF _ _ _ dfs]) simp_all
  ultimately have "cycles_ok edges nodes (s\<lparr>sSeen := put key ?c (sSeen s)\<rparr>)"
    unfolding cycles_ok_def by simp
  then show ?thesis unfolding advanced_def by (simp add: state_of_def)
qed

lemma visit_next_correct:
  assumes n: "normalised nodes"
    and rec: "\<And>s x. cycles_ok edges nodes s \<Longrightarrow> x \<in> set nodes \<Longrightarrow> state_of s x = 0 \<Longrightarrow> sStack s = st \<Longrightarrow>
      x \<in> set (deps_at edges (last st)) \<Longrightarrow> advanced edges nodes [x] s (visit m edges x s)"
    and st: "st \<noteq> []"
  shows "cycles_ok edges nodes s \<Longrightarrow> sStack s = st \<Longrightarrow> set xs \<subseteq> set (deps_at edges (last st)) \<Longrightarrow>
    set xs \<subseteq> set nodes \<Longrightarrow> advanced edges nodes xs s (visit_next m edges xs s)"
proof (induction xs arbitrary: s)
  case Nil
  then show ?case by (simp add: advanced_def)
next
  case (Cons x xs)
  define t where "t = (case map_of (sIndex s) x of
        Some idx \<Rightarrow> (let normalized = canonicalizeCycle (drop idx (sStack s) @ [x])
                     in s\<lparr>sSeen := put (cycleKey normalized) normalized (sSeen s)\<rparr>)
      | None \<Rightarrow> (if state_of s x = 0 then visit m edges x s else s))"
  have step: "visit_next m edges (x # xs) s = visit_next m edges xs t" by (simp add: t_def)
  have a: "advanced edges nodes [x] s t"
  proof (cases "map_of (sIndex s) x")
    case (Some i)
    then show ?thesis
      using record_cycle [OF Cons.prems(1) n _ _ Some] Cons.prems st by (simp add: t_def Let_def)
  next
    case None
    have d: "dfs_ok (deps_at edges) nodes s" using Cons.prems(1) unfolding cycles_ok_def by blast
    show ?thesis
    proof (cases "state_of s x = 0")
      case True
      with None Cons.prems show ?thesis by (simp add: t_def rec)
    next
      case False
      with None unopened_states [OF d None] Cons.prems(1) show ?thesis
        by (simp add: t_def advanced_def)
    qed
  qed
  have "cycles_ok edges nodes t" "sStack t = st" using a Cons.prems(2) unfolding advanced_def by auto
  then have "advanced edges nodes xs t (visit_next m edges xs t)" using Cons.IH Cons.prems by simp
  with a show ?case unfolding step by (rule advanced_step)
qed

declare visit.simps(2) [simp del]

lemma visit_advances:
  assumes n: "normalised nodes" and e: "\<And>k. set (deps_at edges k) \<subseteq> set nodes"
  shows "cycles_ok edges nodes s \<Longrightarrow> k \<in> set nodes \<Longrightarrow> state_of s k = 0 \<Longrightarrow>
    sStack s = [] \<or> k \<in> set (deps_at edges (last (sStack s))) \<Longrightarrow>
    length nodes \<le> m + length (sStack s) \<Longrightarrow> advanced edges nodes [k] s (visit m edges k s)"
proof (induction m arbitrary: s k)
  case 0
  then show ?case using unseen_room [of "deps_at edges" nodes s k] by (auto simp: cycles_ok_def)
next
  case (Suc m)
  let ?p = "push k s"
  have dfs: "dfs_ok (deps_at edges) nodes s" using Suc.prems(1) unfolding cycles_ok_def by blast
  have "dfs_ok (deps_at edges) nodes ?p" by (rule push_ok [OF dfs Suc.prems(2-4)])
  then have p: "cycles_ok edges nodes ?p" using Suc.prems(1) unfolding cycles_ok_def by simp
  let ?r = "visit_next m edges (deps_at edges k) ?p"
  have "advanced edges nodes (deps_at edges k) ?p ?r"
  proof (rule visit_next_correct [OF n _ _ p refl])
    fix t x assume "cycles_ok edges nodes t" "x \<in> set nodes" "state_of t x = 0" "sStack t = sStack ?p"
      "x \<in> set (deps_at edges (last (sStack ?p)))"
    then show "advanced edges nodes [x] t (visit m edges x t)"
      using Suc.IH [of t x] Suc.prems(5) by simp
  qed (use e in auto)
  then have r: "cycles_ok edges nodes ?r" "sStack ?r = sStack s @ [k]" "\<And>x. state_of ?p x = 2 \<Longrightarrow> state_of ?r x = 2"
    "sSeen s \<noteq> [] \<Longrightarrow> sSeen ?r \<noteq> []" "sSeen ?r = [] \<Longrightarrow> \<forall>x \<in> set (deps_at edges k). state_of ?r x = 2"
    unfolding advanced_def by auto
  have "grounded (deps_at edges) k" if "sSeen ?r = []"
    using r(1,5) that by (auto simp: grounded_iff [of _ k] cycles_ok_def)
  moreover have "dfs_ok (deps_at edges) nodes (pop k ?r)"
    by (rule pop_ok [OF _ r(2)]) (use r(1) in \<open>simp add: cycles_ok_def\<close>)
  ultimately have "cycles_ok edges nodes (pop k ?r)" using r(1) unfolding cycles_ok_def by auto
  then show ?case
    using r Suc.prems(3) unfolding visit.simps(2) advanced_def by auto
qed

lemma fold_advances:
  assumes n: "normalised nodes" and e: "\<And>k. set (deps_at edges k) \<subseteq> set nodes"
  shows "set ks \<subseteq> set nodes \<Longrightarrow> cycles_ok edges nodes s \<Longrightarrow> sStack s = [] \<Longrightarrow>
    advanced edges nodes ks s (fold (visit_unseen (length nodes) edges) ks s)"
proof (induction ks arbitrary: s)
  case (Cons k ks)
  let ?t = "visit_unseen (length nodes) edges k s"
  have d: "dfs_ok (deps_at edges) nodes s" using Cons.prems(2) unfolding cycles_ok_def by blast
  have idx: "map_of (sIndex s) k = None"
    using dfs_okD(4) [OF d, of k] Cons.prems(3) by (cases "map_of (sIndex s) k") auto
  have a: "advanced edges nodes [k] s ?t"
  proof (cases "state_of s k = 0")
    case True
    then show ?thesis
      using visit_advances [OF n e Cons.prems(2) _ True] Cons.prems by (simp add: visit_unseen_def)
  next
    case False
    then show ?thesis using unopened_states [OF d idx] Cons.prems(2)
      by (simp add: visit_unseen_def advanced_def)
  qed
  then have "cycles_ok edges nodes ?t" "sStack ?t = []" using Cons.prems(3) unfolding advanced_def by auto
  with Cons.IH Cons.prems(1) have "advanced edges nodes ks ?t (fold (visit_unseen (length nodes) edges) ks ?t)" by simp
  with a show ?case by (auto intro: advanced_step)
qed (simp add: advanced_def)

lemma detectCycles_correct:
  assumes n: "normalised nodes" and e: "\<And>k. set (deps_at edges k) \<subseteq> set nodes"
  shows "c \<in> set (detectCycles nodes edges) \<Longrightarrow> closed_path (deps_at edges) c \<and> set c \<subseteq> set nodes"
    and "detectCycles nodes edges = [] \<longleftrightarrow> (\<forall>k \<in> set nodes. grounded (deps_at edges) k)"
proof -
  let ?s = "\<lparr>sState = [], sStack = [], sIndex = [], sSeen = []\<rparr> :: cycle_search"
  let ?r = "fold (visit_unseen (length nodes) edges) nodes ?s"
  have s: "cycles_ok edges nodes ?s" by (auto simp: cycles_ok_def state_of_def intro: dfs_ok_start)
  have a: "advanced edges nodes nodes ?s ?r" by (rule fold_advances [OF n e _ s]) simp_all
  have d: "detectCycles nodes edges =
      map (\<lambda>key. case map_of (sSeen ?r) key of Some c \<Rightarrow> c | None \<Rightarrow> []) (sort (map fst (sSeen ?r)))"
    by (simp add: detectCycles_def Let_def)
  have sound: "closed_path (deps_at edges) c \<and> set c \<subseteq> set nodes" if "c \<in> snd ` set (sSeen ?r)" for c
    using a that unfolding advanced_def cycles_ok_def by blast
  show m: "closed_path (deps_at edges) c \<and> set c \<subseteq> set nodes" if "c \<in> set (detectCycles nodes edges)" for c
  proof -
    from that obtain k where k: "k \<in> fst ` set (sSeen ?r)"
      "c = (case map_of (sSeen ?r) k of Some c \<Rightarrow> c | None \<Rightarrow> [])" unfolding d by auto
    then obtain c' where "map_of (sSeen ?r) k = Some c'" by (metis map_of_eq_None_iff not_None_eq)
    then have "c \<in> snd ` set (sSeen ?r)" using k(2) by (force dest: map_of_SomeD)
    then show ?thesis by (rule sound)
  qed
  show "detectCycles nodes edges = [] \<longleftrightarrow> (\<forall>k \<in> set nodes. grounded (deps_at edges) k)"
  proof (cases "sSeen ?r")
    case Nil
    then show ?thesis using a unfolding d advanced_def cycles_ok_def by auto
  next
    case (Cons q qs)
    then have ne: "detectCycles nodes edges \<noteq> []" unfolding d by simp
    then obtain c where c: "c \<in> set (detectCycles nodes edges)" by (cases "detectCycles nodes edges") auto
    from m [OF c] have "hd c \<in> set nodes" "\<not> grounded (deps_at edges) (hd c)"
      using closed_path_not_grounded [of "deps_at edges" c "hd c"] unfolding closed_path_def by (cases c; auto)+
    with ne show ?thesis by blast
  qed
qed

section \<open>Properties\<close>

text \<open>What an issue waits for: the tracked references it is blocked by whose state is known and
  not closed as completed.\<close>

definition waits_for :: "IssueRef list \<Rightarrow> Snapshot \<Rightarrow> IssueRef \<Rightarrow> IssueRef list" where
  "waits_for tracked snapshot i =
     (if i \<in> set (uniqueSortedRefs tracked)
      then filter (\<lambda>d. d \<in> set (uniqueSortedRefs tracked) \<and> \<not> completed snapshot d \<and> listed_state snapshot d \<noteq> None)
             (listed_deps snapshot i)
      else [])"

lemma closed_path_cong: "(\<And>k. set (f k) = set (g k)) \<Longrightarrow> closed_path f c = closed_path g c"
proof -
  assume "\<And>k. set (f k) = set (g k)"
  then have "path f xs = path g xs" for xs by (induction xs rule: path.induct [of _ f]) auto
  then show ?thesis by (simp add: closed_path_def)
qed

lemma grounded_cong: "grounded f k \<Longrightarrow> (\<And>k. set (f k) = set (g k)) \<Longrightarrow> grounded g k"
proof (induction rule: grounded.induct)
  case (1 k)
  show ?case by (rule grounded.intros) (use 1 in auto)
qed

lemma scan_edges_set:
  "set (deps_at (scEdges (scan_all (uniqueSortedRefs tracked) snapshot)) k) = set (waits_for tracked snapshot k)"
  using Build_fields(3) [of tracked snapshot k] uniqueSortedRefs_member [of k tracked]
    tracked_edges_set [of k "uniqueSortedRefs tracked" snapshot]
  by (auto simp: waits_for_def)

text \<open>
  C38. The dispatch gate is exact: an issue is in the ready set if and only if it is tracked and every
  blocker the snapshot lists for it, under any spelling of its repository, is closed as
  completed; and an issue has blockers reported if and only if it is tracked and not ready.
\<close>

theorem ready_set_exact:
  "set (readySet (Build tracked snapshot)) = {i. i \<in> set (uniqueSortedRefs tracked) \<and> released snapshot i}
   \<and> (BlockersOf (Build tracked snapshot) r \<noteq> []) =
       (normalizeRef r \<in> set (uniqueSortedRefs tracked) \<and> \<not> released snapshot (normalizeRef r))"
proof -
  have "Number i > 0" if "i \<in> set (uniqueSortedRefs tracked)" for i using uniqueSortedRefs_member [OF that] by blast
  then have o: "open_blockers snapshot i = [] \<longleftrightarrow> released snapshot i" if "i \<in> set (uniqueSortedRefs tracked)" for i
    using that open_blockers_Nil by blast
  have "set (readySet (Build tracked snapshot)) = {i. i \<in> set (uniqueSortedRefs tracked) \<and> released snapshot i}"
    unfolding Build_fields using o by auto
  moreover have "(BlockersOf (Build tracked snapshot) r \<noteq> []) =
       (normalizeRef r \<in> set (uniqueSortedRefs tracked) \<and> \<not> released snapshot (normalizeRef r))"
    unfolding BlockersOf_def Build_fields using o [of "normalizeRef r"] by (cases "normalizeRef r \<in> set (uniqueSortedRefs tracked)") auto
  ultimately show ?thesis by blast
qed

text \<open>
  Cycle reporting is sound: a reported cycle is a closed chain of tracked issues, each waiting for
  the next, and none of them is in the ready set.
\<close>

theorem reported_cycle_is_real:
  assumes "c \<in> set (cycles (Build tracked snapshot))"
  shows "closed_path (waits_for tracked snapshot) c \<and> set c \<subseteq> set (uniqueSortedRefs tracked)
    \<and> set c \<inter> set (readySet (Build tracked snapshot)) = {}"
proof -
  let ?ts = "uniqueSortedRefs tracked" and ?e = "scEdges (scan_all (uniqueSortedRefs tracked) snapshot)"
  have n: "normalised ?ts" using uniqueSortedRefs_member by (auto simp: normalised_iff)
  have e: "set (deps_at ?e k) \<subseteq> set ?ts" for k unfolding scan_edges_set by (auto simp: waits_for_def)
  have c: "closed_path (deps_at ?e) c" "set c \<subseteq> set ?ts"
    using detectCycles_correct(1) [OF n e] assms unfolding Build_fields by blast+
  have "x \<notin> set (readySet (Build tracked snapshot))" if "x \<in> set c" for x
  proof
    assume "x \<in> set (readySet (Build tracked snapshot))"
    then have "open_blockers snapshot x = []" unfolding Build_fields by simp
    then have "deps_at ?e x = []" unfolding Build_fields by (simp add: tracked_edges_Nil)
    then have "grounded (deps_at ?e) x" by (simp add: grounded_iff [of _ x])
    then show False using closed_path_not_grounded [OF c(1) that] by blast
  qed
  moreover have "closed_path (waits_for tracked snapshot) c"
    using c(1) closed_path_cong [of "deps_at ?e" "waits_for tracked snapshot", OF scan_edges_set] by simp
  ultimately show ?thesis using c(2) by blast
qed

definition sample_snapshot :: Snapshot where
  "sample_snapshot = \<lparr>SBlockedBy = [(IssueRef ''Acme/looper'' 1, [IssueRef ''acme/looper'' 2]),
       (IssueRef ''acme/looper'' 2, [IssueRef ''acme/looper '' 1])],
     SIssues = [(IssueRef ''acme/looper'' 1, \<lparr>IState = ''open'', IReason = []\<rparr>),
       (IssueRef ''acme/looper'' 2, \<lparr>IState = ''OPEN'', IReason = []\<rparr>)],
     SUnreachable = []\<rparr>"

definition sample_tracked :: "IssueRef list" where
  "sample_tracked = [IssueRef ''acme/looper'' 1, IssueRef ''acme/looper'' 2, IssueRef ''acme/looper'' 3]"

theorem reported_cycle_is_real_witness:
  "closed_path (waits_for sample_tracked sample_snapshot)
     [IssueRef ''acme/looper'' 1, IssueRef ''acme/looper'' 2, IssueRef ''acme/looper'' 1]"
proof -
  have "[IssueRef ''acme/looper'' 1, IssueRef ''acme/looper'' 2, IssueRef ''acme/looper'' 1]
      \<in> set (cycles (Build sample_tracked sample_snapshot))" by code_simp
  from reported_cycle_is_real [OF this] show ?thesis by blast
qed

text \<open>
  Cycle reporting is complete: no cycle is reported if and only if no tracked issue waits, directly
  or through others, for itself, that is, every chain of waiting tracked issues ends.
\<close>

theorem no_cycle_reported_iff:
  "cycles (Build tracked snapshot) = [] \<longleftrightarrow>
     set (uniqueSortedRefs tracked) \<subseteq> {i. grounded (waits_for tracked snapshot) i}"
proof -
  let ?ts = "uniqueSortedRefs tracked" and ?e = "scEdges (scan_all (uniqueSortedRefs tracked) snapshot)"
  have n: "normalised ?ts" using uniqueSortedRefs_member by (auto simp: normalised_iff)
  have e: "set (deps_at ?e k) \<subseteq> set ?ts" for k unfolding scan_edges_set by (auto simp: waits_for_def)
  have "grounded (deps_at ?e) k \<longleftrightarrow> grounded (waits_for tracked snapshot) k" for k
    using grounded_cong [of "deps_at ?e" k "waits_for tracked snapshot", OF _ scan_edges_set]
      grounded_cong [of "waits_for tracked snapshot" k "deps_at ?e", OF _ scan_edges_set [symmetric]] by blast
  then show ?thesis using detectCycles_correct(2) [OF n e] unfolding Build_fields by blast
qed

text \<open>
  The canonical form of a cycle does not depend on where the search entered it: two rotations of
  the same chain give the same reported cycle, so each cycle is reported under one key.
\<close>

theorem canonical_cycle_unique:
  "normalised nodes \<Longrightarrow> nodes \<noteq> [] \<Longrightarrow>
   canonicalizeCycle (rotate k nodes @ [hd (rotate k nodes)]) = canonicalizeCycle (nodes @ [hd nodes])"
proof -
  assume n: "normalised nodes" "nodes \<noteq> []"
  have "range (\<lambda>i. rotate i (rotate k nodes)) = range (\<lambda>i. rotate i nodes)"
  proof
    show "range (\<lambda>i. rotate i (rotate k nodes)) \<subseteq> range (\<lambda>i. rotate i nodes)" by (auto simp: rotate_rotate)
    have "rotate i nodes = rotate (i + (length nodes - k mod length nodes)) (rotate k nodes)" for i
    proof -
      have "k mod length nodes \<le> length nodes" using n(2) by (simp add: less_imp_le)
      then have "i + (length nodes - k mod length nodes) + k = i + length nodes * Suc (k div length nodes)"
        using mult_div_mod_eq [of "length nodes" k] unfolding mult_Suc_right by linarith
      then have "(i + (length nodes - k mod length nodes) + k) mod length nodes = i mod length nodes"
        by (simp only: mod_mult_self2)
      then show ?thesis by (metis rotate_conv_mod rotate_rotate)
    qed
    then show "range (\<lambda>i. rotate i nodes) \<subseteq> range (\<lambda>i. rotate i (rotate k nodes))" by blast
  qed
  moreover have "normalised (rotate k nodes)" using n(1) by (simp add: normalised_iff)
  ultimately show ?thesis using n by (simp add: canonicalizeCycle_Min Let_def)
qed

theorem canonical_cycle_unique_witness:
  "canonicalizeCycle [IssueRef ''a/b'' 3, IssueRef ''a/b'' 1, IssueRef ''a/b'' 2, IssueRef ''a/b'' 3]
     = canonicalizeCycle [IssueRef ''a/b'' 1, IssueRef ''a/b'' 2, IssueRef ''a/b'' 3, IssueRef ''a/b'' 1]"
proof -
  have "normalised [IssueRef ''a/b'' 1, IssueRef ''a/b'' 2, IssueRef ''a/b'' 3]" by code_simp
  from canonical_cycle_unique [OF this, of 2] show ?thesis by (simp add: rotate_def rotate1_def numeral_2_eq_2)
qed

text \<open>
  \<open>Unsatisfied\<close> looks an issue up by its number alone, so with blocked issues of the same
  number in two repositories the answer depends on the order in which the map is ranged over.
\<close>

lemma unsatisfied_depends_on_order:
  "\<exists>g g'. set (blockers g) = set (blockers g') \<and> distinct (map fst (blockers g))
     \<and> map BRepo (Unsatisfied g 7) \<noteq> map BRepo (Unsatisfied g' 7)"
proof -
  let ?b = "\<lambda>r. newBlocker (IssueRef r 1) []"
  let ?row = "\<lambda>r. (IssueRef r 7, [?b r])"
  let ?g = "\<lambda>rows. \<lparr>readySet = [], cycles = [], unreachable = [], blockers = rows\<rparr>"
  have "map BRepo (Unsatisfied (?g [?row ''a/b'', ?row ''c/d'']) 7) \<noteq> map BRepo (Unsatisfied (?g [?row ''c/d'', ?row ''a/b'']) 7)"
    "distinct (map fst (blockers (?g [?row ''a/b'', ?row ''c/d''])))" by code_simp+
  moreover have "set (blockers (?g [a, b])) = set (blockers (?g [b, a]))" for a b by (simp add: insert_commute)
  ultimately show ?thesis
    by (intro exI [of _ "?g [?row ''a/b'', ?row ''c/d'']"] exI [of _ "?g [?row ''c/d'', ?row ''a/b'']"]) blast
qed

end
