(* ===== verification/Guard_Registry.thy ===== *)
theory Guard_Registry
  imports Store Domain
begin

text \<open>
  The per-key mutexes that serialise requeues and worktree mutations
  (\<open>internal/loops/requeue_guard.go\<close>): the registry of reference-counted entries as a
  transition system over any number of goroutines, and the construction of the target keys.
  A critical section under \<open>registryMu\<close> is one step, as nothing in it blocks; taking and
  releasing an entry's own mutex are steps of their own. The returned release function runs once
  (\<open>sync.Once\<close>): further calls change nothing and are not steps.
\<close>

section \<open>The registry\<close>

record guard_entry =
  locked :: bool
  refs :: int

text \<open>Entries are allocated objects: an entry is its position in the heap.\<close>

record guard_registry =
  entries :: "(string \<times> nat) list"
  heap :: "guard_entry list"

definition new_registry :: guard_registry where
  "new_registry = \<lparr>entries = [], heap = []\<rparr>"

text \<open>The first critical section of \<open>lock\<close>.\<close>

definition enter :: "string \<Rightarrow> guard_registry \<Rightarrow> nat \<times> guard_registry" where
  "enter key r = (case map_of (entries r) key of
     Some e \<Rightarrow> (e, r\<lparr>heap := (heap r)[e := (heap r ! e)\<lparr>refs := refs (heap r ! e) + 1\<rparr>]\<rparr>)
   | None \<Rightarrow> (length (heap r), r\<lparr>entries := put key (length (heap r)) (entries r),
                                  heap := heap r @ [\<lparr>locked = False, refs = 1\<rparr>]\<rparr>))"

definition set_locked :: "bool \<Rightarrow> nat \<Rightarrow> guard_registry \<Rightarrow> guard_registry" where
  "set_locked b e r = r\<lparr>heap := (heap r)[e := (heap r ! e)\<lparr>locked := b\<rparr>]\<rparr>"

text \<open>The critical section of the release function.\<close>

definition leave :: "string \<Rightarrow> nat \<Rightarrow> guard_registry \<Rightarrow> guard_registry" where
  "leave key e r = (let n = refs (heap r ! e) - 1; r' = r\<lparr>heap := (heap r)[e := (heap r ! e)\<lparr>refs := n\<rparr>]\<rparr> in
     if n = 0 then r'\<lparr>entries := filter (\<lambda>(k, _). k \<noteq> key) (entries r')\<rparr> else r')"

section \<open>Goroutines\<close>

text \<open>Where a goroutine is: outside, waiting for the entry's mutex, holding it, or past its unlock.\<close>

datatype pc = Outside | Waiting string nat | Holding string nat | Leaving string nat

fun slot :: "pc \<Rightarrow> (string \<times> nat) option" where
  "slot Outside = None"
| "slot (Waiting k e) = Some (k, e)"
| "slot (Holding k e) = Some (k, e)"
| "slot (Leaving k e) = Some (k, e)"

record world =
  reg :: guard_registry
  pcs :: "pc list"

inductive step :: "world \<Rightarrow> world \<Rightarrow> bool" where
  enter: "i < length (pcs w) \<Longrightarrow> pcs w ! i = Outside \<Longrightarrow> enter k (reg w) = (e, r) \<Longrightarrow>
     step w \<lparr>reg = r, pcs = (pcs w)[i := Waiting k e]\<rparr>"
| acquire: "i < length (pcs w) \<Longrightarrow> pcs w ! i = Waiting k e \<Longrightarrow> \<not> locked (heap (reg w) ! e) \<Longrightarrow>
     step w \<lparr>reg = set_locked True e (reg w), pcs = (pcs w)[i := Holding k e]\<rparr>"
| release: "i < length (pcs w) \<Longrightarrow> pcs w ! i = Holding k e \<Longrightarrow>
     step w \<lparr>reg = set_locked False e (reg w), pcs = (pcs w)[i := Leaving k e]\<rparr>"
| leave: "i < length (pcs w) \<Longrightarrow> pcs w ! i = Leaving k e \<Longrightarrow>
     step w \<lparr>reg = leave k e (reg w), pcs = (pcs w)[i := Outside]\<rparr>"

inductive_cases step_elim: "step w w'"

definition start :: "world \<Rightarrow> bool" where
  "start w \<longleftrightarrow> reg w = new_registry \<and> set (pcs w) \<subseteq> {Outside}"

definition reachable :: "world \<Rightarrow> bool" where
  "reachable w \<longleftrightarrow> (\<exists>w0. start w0 \<and> step\<^sup>*\<^sup>* w0 w)"

section \<open>The invariant\<close>

definition users :: "pc list \<Rightarrow> string \<Rightarrow> nat \<Rightarrow> nat" where
  "users ps k e = length (filter (\<lambda>p. slot p = Some (k, e)) ps)"

definition holders :: "pc list \<Rightarrow> string \<Rightarrow> nat \<Rightarrow> nat" where
  "holders ps k e = length (filter (\<lambda>p. p = Holding k e) ps)"

text \<open>What holds of the entry of a key: it counts its users, of whom there is at least one, and its
  mutex is locked exactly when one of them holds it.\<close>

definition entry_ok :: "world \<Rightarrow> string \<Rightarrow> nat \<Rightarrow> bool" where
  "entry_ok w k e \<longleftrightarrow> e < length (heap (reg w)) \<and> 0 < users (pcs w) k e
     \<and> refs (heap (reg w) ! e) = int (users (pcs w) k e) \<and> holders (pcs w) k e = of_bool (locked (heap (reg w) ! e))"

definition registry_ok :: "world \<Rightarrow> bool" where
  "registry_ok w \<longleftrightarrow> (\<forall>k e. map_of (entries (reg w)) k = Some e \<longrightarrow> entry_ok w k e)
     \<and> (\<forall>k k' e. map_of (entries (reg w)) k = Some e \<longrightarrow> map_of (entries (reg w)) k' = Some e \<longrightarrow> k = k')
     \<and> (\<forall>p \<in> set (pcs w). \<forall>k e. slot p = Some (k, e) \<longrightarrow> map_of (entries (reg w)) k = Some e)"

lemma registry_okD:
  assumes "registry_ok w"
  shows "map_of (entries (reg w)) k = Some e \<Longrightarrow> entry_ok w k e"
    "map_of (entries (reg w)) k = Some e \<Longrightarrow> map_of (entries (reg w)) k' = Some e \<Longrightarrow> k = k'"
    "p \<in> set (pcs w) \<Longrightarrow> slot p = Some (k, e) \<Longrightarrow> map_of (entries (reg w)) k = Some e"
  using assms unfolding registry_ok_def by blast+

text \<open>Moving one goroutine changes the counts by its old and its new position.\<close>

lemma users_update: "i < length ps \<Longrightarrow>
    users (ps[i := p]) k e + of_bool (slot (ps ! i) = Some (k, e)) = users ps k e + of_bool (slot p = Some (k, e))"
  unfolding users_def by (rule length_filter_update)

lemma holders_update: "i < length ps \<Longrightarrow>
    holders (ps[i := p]) k e + of_bool (ps ! i = Holding k e) = holders ps k e + of_bool (p = Holding k e)"
  unfolding holders_def by (rule length_filter_update)

lemma map_of_filter_out: "map_of (filter (\<lambda>(x, _). x \<noteq> k) xs) y = (if y = k then None else map_of xs y)"
  by (induction xs) auto

lemma used_slot: "0 < users ps k e \<longleftrightarrow> (\<exists>p \<in> set ps. slot p = Some (k, e))"
  unfolding users_def by (auto simp: filter_empty_conv)

lemma moved_slot: "p \<in> set (xs[i := q]) \<Longrightarrow> p = q \<or> p \<in> set xs"
  using set_update_subset_insert by fastforce

lemma moved_slots:
  assumes "\<And>q. q \<in> set xs \<Longrightarrow> slot q = Some (x, y) \<Longrightarrow> A" and "slot p = Some (x, y) \<Longrightarrow> A"
    and "q \<in> set (xs[i := p])" "slot q = Some (x, y)"
  shows A
  using moved_slot [OF assms(3)] assms by blast

lemma start_ok: "start w \<Longrightarrow> registry_ok w"
  by (auto simp: start_def registry_ok_def new_registry_def)

lemma enter_ok:
  assumes ok: "registry_ok w" and i: "i < length (pcs w)" "pcs w ! i = Outside" and en: "enter k (reg w) = (e, r)"
  shows "registry_ok \<lparr>reg = r, pcs = (pcs w)[i := Waiting k e]\<rparr>"
proof -
  let ?ps = "(pcs w)[i := Waiting k e]"
  let ?w = "\<lparr>reg = r, pcs = (pcs w)[i := Waiting k e]\<rparr>"
  note D = registry_okD [OF ok]
  have u: "users ?ps x y = users (pcs w) x y + of_bool (x = k \<and> y = e)" "holders ?ps x y = holders (pcs w) x y" for x y
    using users_update [OF i(1), of "Waiting k e" x y] holders_update [OF i(1), of "Waiting k e" x y] i(2) by auto
  show ?thesis
  proof (cases "map_of (entries (reg w)) k")
    case None
    then have r: "r = (reg w)\<lparr>entries := put k (length (heap (reg w))) (entries (reg w)),
        heap := heap (reg w) @ [\<lparr>locked = False, refs = 1\<rparr>]\<rparr>" and e: "e = length (heap (reg w))"
      using en by (auto simp: enter_def)
    have u0: "users (pcs w) k e = 0" using D(3) None unfolding e by (metis gr0I option.distinct(1) used_slot)
    then have h0: "holders (pcs w) k e = 0"
      unfolding users_def holders_def by (auto simp: filter_empty_conv)
    have lt: "map_of (entries (reg w)) x = Some y \<Longrightarrow> y < e" for x y using D(1) e by (auto simp: entry_ok_def)
    have "entry_ok ?w x y" if "map_of (entries r) x = Some y" for x y
    proof (cases "x = k")
      case True
      with that have "y = e" by (simp add: r e map_of_put)
      then show ?thesis using True u0 h0 u [of k e] by (simp add: entry_ok_def r e nth_append)
    next
      case False
      with that have "map_of (entries (reg w)) x = Some y" by (simp add: r map_of_put)
      then show ?thesis using D(1) [of x y] lt [of x y] u [of x y] False by (simp add: entry_ok_def r e nth_append)
    qed
    moreover have "x = x'" if "map_of (entries r) x = Some y" "map_of (entries r) x' = Some y" for x x' y
      using that lt D(2) by (auto simp: r e map_of_put split: if_splits)
    moreover have "map_of (entries r) x = Some y" if "p \<in> set ?ps" "slot p = Some (x, y)" for p x y
    proof (rule moved_slots [OF _ _ that])
      fix q assume "q \<in> set (pcs w)" "slot q = Some (x, y)"
      then have "map_of (entries (reg w)) x = Some y" by (rule D(3))
      then show "map_of (entries r) x = Some y" using None by (auto simp: r e map_of_put)
    qed (auto simp: r e map_of_put)
    ultimately show ?thesis unfolding registry_ok_def by simp
  next
    case (Some e')
    then have r: "r = (reg w)\<lparr>heap := (heap (reg w))[e := (heap (reg w) ! e)\<lparr>refs := refs (heap (reg w) ! e) + 1\<rparr>]\<rparr>"
      and e: "map_of (entries (reg w)) k = Some e" using en by (auto simp: enter_def)
    have "entry_ok ?w x y" if "map_of (entries r) x = Some y" for x y
    proof -
      have xy: "map_of (entries (reg w)) x = Some y" using that by (simp add: r)
      then have "x = k \<longleftrightarrow> y = e" using e D(2) [of k e x] by auto
      then show ?thesis using D(1) [OF xy] u [of x y] by (cases "y = e") (simp_all add: entry_ok_def r)
    qed
    moreover have "map_of (entries r) x = Some y" if "p \<in> set ?ps" "slot p = Some (x, y)" for p x y
    proof (rule moved_slots [OF _ _ that])
      fix q assume "q \<in> set (pcs w)" "slot q = Some (x, y)"
      then have "map_of (entries (reg w)) x = Some y" by (rule D(3))
      then show "map_of (entries r) x = Some y" by (simp add: r)
    qed (use e in \<open>simp add: r\<close>)
    ultimately show ?thesis using D(2) unfolding registry_ok_def by (simp add: r)
  qed
qed

lemma relock_ok:
  assumes ok: "registry_ok w" and i: "i < length (pcs w)" and s: "slot (pcs w ! i) = Some (k, e)" "slot p = Some (k, e)"
    and h: "of_bool b + of_bool (pcs w ! i = Holding k e) = of_bool (locked (heap (reg w) ! e)) + (of_bool (p = Holding k e) :: nat)"
  shows "registry_ok \<lparr>reg = set_locked b e (reg w), pcs = (pcs w)[i := p]\<rparr>"
proof -
  let ?ps = "(pcs w)[i := p]"
  let ?w = "\<lparr>reg = set_locked b e (reg w), pcs = (pcs w)[i := p]\<rparr>"
  note D = registry_okD [OF ok]
  have e: "map_of (entries (reg w)) k = Some e" using D(3) [OF nth_mem [OF i] s(1)] .
  have u: "users ?ps x y = users (pcs w) x y" for x y
    using users_update [OF i, of p x y] s by simp
  have h': "holders ?ps x y + of_bool (pcs w ! i = Holding x y) = holders (pcs w) x y + of_bool (p = Holding x y)" for x y
    using holders_update [OF i, of p x y] .
  have "entry_ok ?w x y" if "map_of (entries (reg w)) x = Some y" for x y
  proof (cases "x = k")
    case True
    with that e have "y = e" by simp
    with True h h' [of k e] D(1) [OF e] show ?thesis
      by (auto simp: entry_ok_def u set_locked_def of_bool_def split: if_splits)
  next
    case False
    then have "y \<noteq> e" using D(2) [OF e, of x] that by auto
    moreover have "\<not> pcs w ! i = Holding x y" "\<not> p = Holding x y" using False s by auto
    ultimately show ?thesis using D(1) [OF that] h' [of x y] by (auto simp: entry_ok_def u set_locked_def)
  qed
  moreover have "map_of (entries (reg w)) x = Some y" if "q \<in> set ?ps" "slot q = Some (x, y)" for q x y
    by (rule moved_slots [OF D(3) _ that]) (use e s(2) in auto)
  ultimately show ?thesis using D(2) unfolding registry_ok_def by (simp add: set_locked_def)
qed

lemma leave_ok:
  assumes ok: "registry_ok w" and i: "i < length (pcs w)" "pcs w ! i = Leaving k e"
  shows "registry_ok \<lparr>reg = leave k e (reg w), pcs = (pcs w)[i := Outside]\<rparr>"
proof -
  let ?ps = "(pcs w)[i := Outside]"
  let ?w = "\<lparr>reg = leave k e (reg w), pcs = (pcs w)[i := Outside]\<rparr>"
  note D = registry_okD [OF ok]
  have e: "map_of (entries (reg w)) k = Some e" using D(3) [OF nth_mem [OF i(1)]] i(2) by simp
  have u: "users ?ps x y + of_bool (x = k \<and> y = e) = users (pcs w) x y" "holders ?ps x y = holders (pcs w) x y" for x y
    using users_update [OF i(1), of Outside x y]
      holders_update [OF i(1), of Outside x y] i(2) by auto
  have n: "refs (heap (reg w) ! e) - 1 = int (users ?ps k e)" "e < length (heap (reg w))"
    using D(1) [OF e] u(1) [of k e] by (simp_all add: entry_ok_def)
  have ents: "map_of (entries (leave k e (reg w))) x =
      (if x = k \<and> users ?ps k e = 0 then None else map_of (entries (reg w)) x)" for x
    using n by (simp add: leave_def Let_def map_of_filter_out)
  have hp: "heap (leave k e (reg w)) = (heap (reg w))[e := (heap (reg w) ! e)\<lparr>refs := int (users ?ps k e)\<rparr>]"
    using n by (simp add: leave_def Let_def)
  have "entry_ok ?w x y" if "map_of (entries (leave k e (reg w))) x = Some y" for x y
  proof (cases "x = k")
    case True
    with that ents e have "y = e" "users ?ps k e > 0" by (auto split: if_splits)
    with True D(1) [OF e] n(2) u(2) [of k e] show ?thesis by (auto simp: entry_ok_def hp)
  next
    case False
    with that ents have xy: "map_of (entries (reg w)) x = Some y" by simp
    then have "y \<noteq> e" using D(2) [OF e, of x] False by auto
    with D(1) [OF xy] u [of x y] False show ?thesis by (auto simp: entry_ok_def hp)
  qed
  moreover have "x = x'" if "map_of (entries (leave k e (reg w))) x = Some y"
      "map_of (entries (leave k e (reg w))) x' = Some y" for x x' y
    using that D(2) ents by (auto split: if_splits)
  moreover have "map_of (entries (leave k e (reg w))) x = Some y" if q: "q \<in> set ?ps" "slot q = Some (x, y)" for q x y
  proof -
    have "map_of (entries (reg w)) x = Some y" by (rule moved_slots [OF D(3) _ q]) auto
    moreover have "users ?ps x y > 0" using q used_slot [of ?ps] by auto
    ultimately show ?thesis using ents e by auto
  qed
  ultimately show ?thesis unfolding registry_ok_def by simp
qed

lemma step_ok: "step w w' \<Longrightarrow> registry_ok w \<Longrightarrow> registry_ok w'"
proof (induction rule: step.induct)
  case (acquire i w k e)
  then show ?case by (intro relock_ok [where k = k]) auto
next
  case (release i w k e)
  have e: "map_of (entries (reg w)) k = Some e" using registry_okD(3) [OF release(3) nth_mem [OF release(1)]] release(2) by simp
  have "0 < holders (pcs w) k e" using release(1,2) unfolding holders_def by (auto simp: filter_empty_conv dest: nth_mem)
  then have "locked (heap (reg w) ! e)" using registry_okD(1) [OF release(3) e] by (auto simp: entry_ok_def)
  with release show ?case by (intro relock_ok [where k = k]) auto
qed (auto intro: enter_ok leave_ok)

interpretation guards: step_invariant step start registry_ok
  by unfold_locales (auto intro: start_ok step_ok)

lemma reachable_ok: "reachable w \<Longrightarrow> registry_ok w"
  unfolding reachable_def using guards.reachable_kept by blast

lemma two_filtered: "i < length xs \<Longrightarrow> j < length xs \<Longrightarrow> i \<noteq> j \<Longrightarrow> P (xs ! i) \<Longrightarrow> P (xs ! j) \<Longrightarrow>
    2 \<le> length (filter P xs)"
proof (induction xs arbitrary: i j)
  case (Cons x xs)
  have one: "1 \<le> length (filter P xs)" if "k < length xs" "P (xs ! k)" for k
    using that nth_mem [of k xs] by (auto simp: Suc_le_eq filter_empty_conv)
  show ?case
  proof (cases i)
    case 0
    with Cons.prems one [of "j - 1"] show ?thesis by (cases j) auto
  next
    case (Suc i')
    with Cons one [of i'] show ?thesis by (cases j) auto
  qed
qed simp

text \<open>
  C29. Mutual exclusion: in every reachable state at most one goroutine holds the lock of a key,
  whatever the interleaving of arrivals, waits and releases and however often the key's entry was
  dropped and created again.
\<close>

theorem one_holder_per_key:
  assumes "reachable w" and "i < length (pcs w)" "pcs w ! i = Holding k e"
    and "j < length (pcs w)" "pcs w ! j = Holding k e'"
  shows "i = j"
proof (rule ccontr)
  assume ne: "i \<noteq> j"
  note D = registry_okD [OF reachable_ok [OF assms(1)]]
  have "map_of (entries (reg w)) k = Some e" "map_of (entries (reg w)) k = Some e'"
    using D(3) [OF nth_mem [OF assms(2)]] D(3) [OF nth_mem [OF assms(4)]] assms(3,5) by auto
  then have e: "e' = e" and "holders (pcs w) k e \<le> 1" using D(1) by (auto simp: entry_ok_def)
  moreover have "2 \<le> holders (pcs w) k e"
    unfolding holders_def using two_filtered [OF assms(2,4) ne] assms(3,5) e by auto
  ultimately show False by simp
qed

text \<open>Two goroutines on one key: the first holds it, the second waits.\<close>

definition contended :: world where
  "contended = \<lparr>reg = \<lparr>entries = [(''k'', 0)], heap = [\<lparr>locked = True, refs = 2\<rparr>]\<rparr>,
                pcs = [Holding ''k'' 0, Waiting ''k'' 0]\<rparr>"

lemma contended_reachable: "reachable contended"
proof -
  let ?w0 = "\<lparr>reg = new_registry, pcs = [Outside, Outside]\<rparr>"
  let ?r1 = "\<lparr>entries = [(''k'', 0)], heap = [\<lparr>locked = False, refs = 1\<rparr>]\<rparr>"
  let ?w1 = "\<lparr>reg = ?r1, pcs = [Waiting ''k'' 0, Outside]\<rparr>"
  let ?w2 = "\<lparr>reg = set_locked True 0 ?r1, pcs = [Holding ''k'' 0, Outside]\<rparr>"
  have "step ?w0 ?w1" using step.enter [of 0 ?w0 "''k''" 0 ?r1] by (simp add: enter_def new_registry_def)
  moreover have "step ?w1 ?w2" using step.acquire [of 0 ?w1 "''k''" 0] by simp
  moreover have "step ?w2 contended"
    using step.enter [of 1 ?w2 "''k''" 0 "reg contended"] by (simp add: enter_def contended_def set_locked_def)
  ultimately have "step\<^sup>*\<^sup>* ?w0 contended" by (meson converse_rtranclp_into_rtranclp rtranclp.rtrancl_refl)
  moreover have "start ?w0" by (simp add: start_def)
  ultimately show ?thesis unfolding reachable_def by blast
qed

theorem one_holder_per_key_witness:
  "\<exists>i. {j. j < length (pcs contended) \<and> pcs contended ! j = Holding ''k'' 0} = {i :: nat}"
proof -
  have z: "0 < length (pcs contended)" "pcs contended ! 0 = Holding ''k'' 0" by (simp_all add: contended_def)
  then have "{j. j < length (pcs contended) \<and> pcs contended ! j = Holding ''k'' 0} = {0}"
    using one_holder_per_key [OF contended_reachable z] by blast
  then show ?thesis by blast
qed

text \<open>
  The registry does not leak and never drops a lock in use: in every reachable state a key has an
  entry if and only if some goroutine waits for it, holds it or is leaving it.
\<close>

theorem entry_iff_in_use:
  assumes "reachable w"
  shows "(map_of (entries (reg w)) k \<noteq> None) = (\<exists>p \<in> set (pcs w). map_option fst (slot p) = Some k)"
proof
  note D = registry_okD [OF reachable_ok [OF assms]]
  assume "map_of (entries (reg w)) k \<noteq> None"
  then obtain e where "map_of (entries (reg w)) k = Some e" by blast
  then have "0 < users (pcs w) k e" using D(1) by (auto simp: entry_ok_def)
  then show "\<exists>p \<in> set (pcs w). map_option fst (slot p) = Some k" unfolding used_slot by force
next
  assume "\<exists>p \<in> set (pcs w). map_option fst (slot p) = Some k"
  then show "map_of (entries (reg w)) k \<noteq> None"
    using registry_okD(3) [OF reachable_ok [OF assms]] by fastforce
qed

theorem entry_iff_in_use_witness: "map_of (entries (reg contended)) ''other'' = None"
  using entry_iff_in_use [OF contended_reachable, of "''other''"] by (auto simp: contended_def)

text \<open>
  C30. A lock is never lost: in every reachable state in which some goroutine waits for a key, some
  goroutine on that key can take its next step, the waiting one if nobody holds the lock.
\<close>

theorem waiting_key_can_move:
  assumes "reachable w" and i: "i < length (pcs w)" "pcs w ! i = Waiting k e"
  shows "\<exists>j w'. j < length (pcs w) \<and> map_option fst (slot (pcs w ! j)) = Some k \<and> step w w' \<and> pcs w' ! j \<noteq> pcs w ! j"
proof (cases "locked (heap (reg w) ! e)")
  case False
  from step.acquire [OF i False] show ?thesis using i by (intro exI [of _ i]) fastforce
next
  case True
  note D = registry_okD [OF reachable_ok [OF assms(1)]]
  have "map_of (entries (reg w)) k = Some e" using D(3) [OF nth_mem [OF i(1)]] i(2) by simp
  then have "0 < holders (pcs w) k e" using D(1) True by (auto simp: entry_ok_def)
  then obtain j where j: "j < length (pcs w)" "pcs w ! j = Holding k e"
    unfolding holders_def by (auto simp: filter_empty_conv in_set_conv_nth)
  from step.release [OF j] show ?thesis using j by (intro exI [of _ j]) fastforce
qed

theorem waiting_key_can_move_witness: "\<exists>w'. step contended w'"
proof -
  have "1 < length (pcs contended)" "pcs contended ! 1 = Waiting ''k'' 0" by (simp_all add: contended_def)
  from waiting_key_can_move [OF contended_reachable this] show ?thesis by blast
qed

section \<open>Target keys\<close>

definition LoopTargetGuardKey :: "string \<Rightarrow> string \<Rightarrow> string \<Rightarrow> string \<Rightarrow> string" where
  "LoopTargetGuardKey projectID0 loopType0 targetType0 targetKey0 =
     (let projectID = trim_space projectID0; loopType = trim_space loopType0;
          targetType = trim_space targetType0; targetKey = trim_space targetKey0
      in if targetKey = [] then []
         else if loopType = ''worker'' \<and> targetType = ''project'' then []
         else if targetType = ''pull_request'' then projectID @ ''|'' @ targetKey
         else projectID @ ''|'' @ loopType @ ''|'' @ targetKey)"

definition NormalizeRepoIdentity :: "string \<Rightarrow> string" where
  "NormalizeRepoIdentity repo = to_lower (trim_space repo)"

definition PullRequestTargetKey :: "string \<Rightarrow> int \<Rightarrow> string" where
  "PullRequestTargetKey repo prNumber =
     ''pull_request:'' @ NormalizeRepoIdentity repo @ '':'' @ itoa prNumber"

definition PullRequestTargetGuardKey :: "string \<Rightarrow> string \<Rightarrow> int \<Rightarrow> string" where
  "PullRequestTargetGuardKey projectID0 repo0 prNumber =
     (let projectID = trim_space projectID0; repo = trim_space repo0
      in if projectID = [] \<or> repo = [] \<or> prNumber \<le> 0 then []
         else LoopTargetGuardKey projectID ''reviewer'' ''pull_request'' (PullRequestTargetKey repo prNumber))"

text \<open>The loop that strips the prefix as long as there is one.\<close>

function strip_project_prefixes :: "string \<Rightarrow> string" where
  "strip_project_prefixes s =
     (if has_prefix s ''project:'' then strip_project_prefixes (trim_prefix s ''project:'') else s)"
  by auto
termination
  by (relation "measure length") (auto simp: trim_prefix_def prefix_def)

declare strip_project_prefixes.simps [simp del]

definition TargetKeyFromLoopRecord :: "LoopRecord \<Rightarrow> string" where
  "TargetKeyFromLoopRecord loop =
     (if LoopTargetTyp loop = ''project'' then
        (case LoopTargetID loop of
           None \<Rightarrow> ''project:''
         | Some t \<Rightarrow> ''project:'' @ strip_project_prefixes (trim_space t))
      else if LoopTargetTyp loop = ''issue'' then
        (case LoopTargetID loop of None \<Rightarrow> ''issue:'' | Some t \<Rightarrow> t)
      else (case (LoopRepo loop, LoopPRNumber loop) of
          (Some repo, Some n) \<Rightarrow> PullRequestTargetKey repo n
        | _ \<Rightarrow> ''pull_request:''))"

definition LoopTargetGuardKeyFromRecord :: "LoopRecord \<Rightarrow> string" where
  "LoopTargetGuardKeyFromRecord loop = LoopTargetGuardKey (LoopProjectID loop) (LoopTyp loop)
     (LoopTargetTyp loop) (TargetKeyFromLoopRecord loop)"

text \<open>Whether \<open>LockLoopTarget\<close> takes a lock at all: an empty key is a no-op.\<close>

definition target_key_locks :: "string \<Rightarrow> bool" where
  "target_key_locks key \<longleftrightarrow> trim_space key \<noteq> []"

lemma itoa_ends: "itoa i \<noteq> [] \<and> \<not> is_space (last (itoa i))"
proof -
  have digit: "\<not> is_space (char_of (48 + m))" if "m < 10" for m :: nat
    using that by (simp add: is_space_of_char of_char_of)
  have d: "\<not> is_space (last (nat_digits n))" for n
    using digit [of n] digit [of "n mod 10"] by (subst nat_digits.simps) auto
  then show ?thesis by (simp add: itoa_def)
qed

lemma trim_PullRequestTargetKey [simp]: "trim_space (PullRequestTargetKey repo n) = PullRequestTargetKey repo n"
proof (rule trim_space_id)
  have "hd (PullRequestTargetKey repo n) = CHR ''p''" by (simp add: PullRequestTargetKey_def)
  moreover have "last (PullRequestTargetKey repo n) = last (itoa n)"
    using itoa_ends [of n] by (simp add: PullRequestTargetKey_def)
  ultimately show "PullRequestTargetKey repo n = [] \<or>
      \<not> is_space (hd (PullRequestTargetKey repo n)) \<and> \<not> is_space (last (PullRequestTargetKey repo n))"
    using itoa_ends [of n] by (simp add: is_space_def)
qed

lemma PullRequestTargetKey_inj: "PullRequestTargetKey r m = PullRequestTargetKey s n \<longleftrightarrow>
    NormalizeRepoIdentity r = NormalizeRepoIdentity s \<and> m = n"
  unfolding PullRequestTargetKey_def
  using split_last_colon [of "NormalizeRepoIdentity r" "itoa m" "NormalizeRepoIdentity s" "itoa n"]
    itoa_no_colon itoa_inj by auto

lemma NormalizeRepoIdentity_trim [simp]: "NormalizeRepoIdentity (trim_space r) = NormalizeRepoIdentity r"
  by (simp add: NormalizeRepoIdentity_def)

definition pull_request_loop :: "LoopRecord \<Rightarrow> string \<Rightarrow> int \<Rightarrow> bool" where
  "pull_request_loop loop repo n \<longleftrightarrow> LoopTargetTyp loop = ''pull_request'' \<and> LoopRepo loop = Some repo
     \<and> LoopPRNumber loop = Some n"

lemma guard_key_of_pull_request: "pull_request_loop loop repo n \<Longrightarrow>
    LoopTargetGuardKeyFromRecord loop = trim_space (LoopProjectID loop) @ ''|'' @ PullRequestTargetKey repo n"
proof -
  assume "pull_request_loop loop repo n"
  then have "TargetKeyFromLoopRecord loop = PullRequestTargetKey repo n" "LoopTargetTyp loop = ''pull_request''"
    by (simp_all add: pull_request_loop_def TargetKeyFromLoopRecord_def)
  moreover have "PullRequestTargetKey repo n \<noteq> []" by (simp add: PullRequestTargetKey_def)
  moreover have "trim_space ''pull_request'' = ''pull_request''" by code_simp
  ultimately show ?thesis by (simp add: LoopTargetGuardKeyFromRecord_def LoopTargetGuardKey_def)
qed

lemma split_first_bar: "CHR ''|'' \<notin> set a \<Longrightarrow> CHR ''|'' \<notin> set b \<Longrightarrow>
    a @ ''|'' @ x = b @ ''|'' @ y \<longleftrightarrow> a = b \<and> x = y"
proof (induction a arbitrary: b)
  case Nil
  then show ?case by (cases b) auto
next
  case (Cons c a)
  then show ?case by (cases b) auto
qed

text \<open>The key discovery takes before a loop exists is that of the record the loop will have.\<close>

lemma discovery_guard_key:
  assumes "pull_request_loop a repo m" and "trim_space (LoopProjectID a) \<noteq> []" "trim_space repo \<noteq> []" "0 < m"
  shows "PullRequestTargetGuardKey (LoopProjectID a) repo m = LoopTargetGuardKeyFromRecord a"
proof -
  have "PullRequestTargetKey (trim_space repo) m = PullRequestTargetKey repo m"
    by (simp add: PullRequestTargetKey_def)
  moreover have "PullRequestTargetKey repo m \<noteq> []" by (simp add: PullRequestTargetKey_def)
  moreover have "trim_space ''pull_request'' = ''pull_request''" by code_simp
  ultimately show ?thesis
    unfolding guard_key_of_pull_request [OF assms(1)]
    using assms(2-4) by (simp add: PullRequestTargetGuardKey_def LoopTargetGuardKey_def)
qed

text \<open>
  Loops on the same pull request share one worktree mutex and others do not: for pull-request
  loops of whatever type, in projects without a bar in their name, the guard keys agree exactly
  when the project, the repository up to case and surrounding space, and the number agree.
\<close>

theorem pull_request_guard_key_exact:
  assumes "pull_request_loop a repo m" and "pull_request_loop b repo' n"
    and "CHR ''|'' \<notin> set (LoopProjectID a)" "CHR ''|'' \<notin> set (LoopProjectID b)"
  shows "LoopTargetGuardKeyFromRecord a = LoopTargetGuardKeyFromRecord b \<longleftrightarrow>
      trim_space (LoopProjectID a) = trim_space (LoopProjectID b)
      \<and> NormalizeRepoIdentity repo = NormalizeRepoIdentity repo' \<and> m = n"
proof -
  have sub: "set (trim_space s) \<subseteq> set s" for s :: string
    unfolding trim_space_def by (metis set_dropWhileD set_rev subsetI)
  show ?thesis
    unfolding guard_key_of_pull_request [OF assms(1)] guard_key_of_pull_request [OF assms(2)]
    using split_first_bar [of "trim_space (LoopProjectID a)" "trim_space (LoopProjectID b)"] sub assms(3,4)
      PullRequestTargetKey_inj by blast
qed

definition sample_loop :: "string \<Rightarrow> string \<Rightarrow> int \<Rightarrow> LoopRecord" where
  "sample_loop typ repo n = \<lparr>LoopID = ''l'', LoopSeq = 1, LoopProjectID = ''p'', LoopTyp = typ,
     LoopTargetTyp = ''pull_request'', LoopTargetID = None, LoopRepo = Some repo, LoopPRNumber = Some n,
     LoopStat = ''queued'', LoopConfigJSON = None, LoopMetadataJSON = None, LoopLastRunAt = None,
     LoopNextRunAt = None, LoopCreatedAt = [], LoopUpdatedAt = []\<rparr>"

theorem pull_request_guard_key_exact_witness:
  "LoopTargetGuardKeyFromRecord (sample_loop ''fixer'' ''Acme/App'' 7)
     = LoopTargetGuardKeyFromRecord (sample_loop ''reviewer'' ''acme/app '' 7)"
proof -
  have "NormalizeRepoIdentity ''Acme/App'' = NormalizeRepoIdentity ''acme/app ''" by code_simp
  then show ?thesis
    using pull_request_guard_key_exact
      [of "sample_loop ''fixer'' ''Acme/App'' 7" "''Acme/App''" 7 "sample_loop ''reviewer'' ''acme/app '' 7" "''acme/app ''" 7]
    by (simp add: pull_request_loop_def sample_loop_def)
qed

end
