(* ===== verification/Merge_Watch.thy ===== *)
theory Merge_Watch
  imports Prelude
begin

text \<open>
  The coordinator's merge watch (\<open>internal/coordinator/mergewatch\<close>): the classification of
  a watched pull request, the decision to publish a machine-written draft, its confirmation on a
  second reading, and the reading of the draft history; with the forge's mergeability states
  (\<open>internal/infra/github/mergeability.go\<close>). Instants are nanoseconds as integers; Go's
  parser of RFC 3339 timestamps is the parameter \<open>parse_time\<close>, the zero time of a failed
  parse is 0.
\<close>

section \<open>Mergeability states\<close>

type_synonym MergeabilityState = string

definition ParseMergeabilityState :: "string \<Rightarrow> MergeabilityState" where
  "ParseMergeabilityState raw = to_lower (trim_space raw)"

definition IsUnknown :: "MergeabilityState \<Rightarrow> bool" where
  "IsUnknown st \<longleftrightarrow> st \<notin> set [''behind'', ''blocked'', ''clean'', ''dirty'', ''draft'', ''has_hooks'', ''unstable'']"

definition IsKnown :: "MergeabilityState \<Rightarrow> bool" where
  "IsKnown st \<longleftrightarrow> \<not> IsUnknown st"

definition IsClean :: "MergeabilityState \<Rightarrow> bool" where
  "IsClean st \<longleftrightarrow> st = ''clean''"

definition HasConflict :: "MergeabilityState \<Rightarrow> bool" where
  "HasConflict st \<longleftrightarrow> st = ''dirty''"

definition IsUnstable :: "MergeabilityState \<Rightarrow> bool" where
  "IsUnstable st \<longleftrightarrow> st = ''unstable''"

definition IsAmbiguousPolicyState :: "MergeabilityState \<Rightarrow> bool" where
  "IsAmbiguousPolicyState st \<longleftrightarrow> st \<in> set [''blocked'', ''has_hooks'', ''unstable'']"

section \<open>Watching a pull request\<close>

datatype WatchActionKind = ActionMerged | ActionStillPending | ActionIndeterminate | ActionConflict
  | ActionRedCI | ActionBranchProtectionChanged | ActionHumanDisabledAutoMerge | ActionTransientError

text \<open>The fields of the marker the classification reads.\<close>

record PriorWatchMarker =
  MPRNumber :: int
  MHeadSHA :: string
  MRetries :: int
  MFirstUnknownAt :: "int option"

record RetryBudget =
  Now :: int
  TransientRetries :: int
  MaxIndeterminateDuration :: int

record RequiredCheckSummary =
  ChecksFailed :: "string list"
  ChecksPending :: "string list"
  ChecksMissing :: "string list"

record PRSnapshot =
  SPRNumber :: int
  SHeadSHA :: string
  SMerged :: bool
  SAutoMergeEnabled :: bool
  SAutoMergeRouteEnabled :: bool
  SMergeable :: "bool option"
  SMergeableState :: MergeabilityState
  SRequiredChecks :: RequiredCheckSummary
  STemporaryError :: "int option"

record WatchAction =
  WKind :: WatchActionKind
  WFirstUnknownAt :: "int option"
  WDeadlineExceeded :: bool
  WRetriesLeft :: int
  WSuggestedDelay :: int
  WExhausted :: bool

definition plain_action :: "WatchActionKind \<Rightarrow> WatchAction" where
  "plain_action k = \<lparr>WKind = k, WFirstUnknownAt = None, WDeadlineExceeded = False, WRetriesLeft = 0,
                    WSuggestedDelay = 0, WExhausted = False\<rparr>"

definition prior_applies :: "PriorWatchMarker option \<Rightarrow> PRSnapshot \<Rightarrow> bool" where
  "prior_applies prior snapshot = (case prior of None \<Rightarrow> False
     | Some p \<Rightarrow> MPRNumber p = SPRNumber snapshot \<and> MHeadSHA p = SHeadSHA snapshot)"

definition normalizePrior :: "PriorWatchMarker option \<Rightarrow> PRSnapshot \<Rightarrow> int \<Rightarrow> PriorWatchMarker" where
  "normalizePrior prior snapshot fallbackRetries =
     (if \<not> prior_applies prior snapshot
      then \<lparr>MPRNumber = SPRNumber snapshot, MHeadSHA = SHeadSHA snapshot, MRetries = fallbackRetries, MFirstUnknownAt = None\<rparr>
      else the prior)"

text \<open>\<open>time.Time.Sub\<close> saturates at the range of a 64-bit duration.\<close>

definition time_sub :: "int \<Rightarrow> int \<Rightarrow> int" where
  "time_sub a b = max (- (2 ^ 63)) (min (2 ^ 63 - 1) (a - b))"

definition Classify :: "PRSnapshot \<Rightarrow> PriorWatchMarker option \<Rightarrow> RetryBudget \<Rightarrow> WatchAction" where
  "Classify snapshot prior budget = (let normalized = normalizePrior prior snapshot (TransientRetries budget) in
     case STemporaryError snapshot of
       Some delay \<Rightarrow>
         (let retriesLeft = (if prior_applies prior snapshot \<and> MRetries normalized > 0
                             then MRetries normalized - 1 else MRetries normalized)
          in \<lparr>WKind = ActionTransientError, WFirstUnknownAt = None, WDeadlineExceeded = False,
              WRetriesLeft = retriesLeft, WSuggestedDelay = delay, WExhausted = (retriesLeft = 0)\<rparr>)
     | None \<Rightarrow>
       if SMerged snapshot then plain_action ActionMerged
       else if (case prior of None \<Rightarrow> False | Some p \<Rightarrow> MPRNumber p = SPRNumber snapshot
                  \<and> \<not> SAutoMergeEnabled snapshot \<and> \<not> SAutoMergeRouteEnabled snapshot)
       then plain_action ActionHumanDisabledAutoMerge
       else if SMergeable snapshot = None \<or> IsUnknown (SMergeableState snapshot)
       then (let first = (case MFirstUnknownAt normalized of Some t \<Rightarrow> t | None \<Rightarrow> Now budget);
                 exceeded = (MaxIndeterminateDuration budget > 0
                             \<and> time_sub (Now budget) first > MaxIndeterminateDuration budget)
             in if exceeded
                then (plain_action ActionBranchProtectionChanged)\<lparr>WFirstUnknownAt := Some first, WDeadlineExceeded := True\<rparr>
                else (plain_action ActionIndeterminate)\<lparr>WFirstUnknownAt := Some first\<rparr>)
       else if HasConflict (SMergeableState snapshot) then plain_action ActionConflict
       else if ChecksFailed (SRequiredChecks snapshot) \<noteq> [] then plain_action ActionRedCI
       else if ChecksMissing (SRequiredChecks snapshot) \<noteq> [] then plain_action ActionBranchProtectionChanged
       else plain_action ActionStillPending)"

section \<open>Publishing a draft\<close>

datatype MarkReadyBlocker = NoBlocker | NotDraft | NotOpen | OutOfScope | ForeignAuthor | HumanDraft | Held
  | Conflict | MergeUnknown | ChecksUnknown | ChecksNotGreen | HumanCommits | CommitsUnknown | HeadMoved

record MarkReadySnapshot =
  RHeadSHA :: string
  RBaseRefName :: string
  RDraft :: bool
  ROpen :: bool
  RInScope :: bool
  RAuthoredByDaemon :: bool
  RHumanConvertedToDraft :: bool
  RHeld :: bool
  RMergeable :: "bool option"
  RMergeableState :: string
  RRequiredChecks :: RequiredCheckSummary
  RChecksUnknown :: bool
  RForeignCommitAuthors :: "string list"
  RUnattributedCommits :: int

record MarkReadyDecision =
  MarkReady :: bool
  Blocker :: MarkReadyBlocker

definition blocked :: "MarkReadyBlocker \<Rightarrow> MarkReadyDecision" where
  "blocked b = \<lparr>MarkReady = False, Blocker = b\<rparr>"

definition DecideMarkReady :: "MarkReadySnapshot \<Rightarrow> MarkReadyDecision" where
  "DecideMarkReady s =
     (if \<not> RDraft s then blocked NotDraft
      else if \<not> ROpen s then blocked NotOpen
      else if \<not> RInScope s then blocked OutOfScope
      else if \<not> RAuthoredByDaemon s then blocked ForeignAuthor
      else if RHumanConvertedToDraft s then blocked HumanDraft
      else if RHeld s then blocked Held
      else if RMergeableState s = ''dirty'' then blocked Conflict
      else if RMergeable s = None \<or> RMergeableState s = ''unknown'' then blocked MergeUnknown
      else if RMergeable s \<noteq> Some True then blocked Conflict
      else if RChecksUnknown s then blocked ChecksUnknown
      else if ChecksFailed (RRequiredChecks s) \<noteq> [] \<or> ChecksPending (RRequiredChecks s) \<noteq> []
              \<or> ChecksMissing (RRequiredChecks s) \<noteq> [] then blocked ChecksNotGreen
      else if RForeignCommitAuthors s \<noteq> [] then blocked HumanCommits
      else if RUnattributedCommits s > 0 then blocked CommitsUnknown
      else \<lparr>MarkReady = True, Blocker = NoBlocker\<rparr>)"

definition sameHead :: "string \<Rightarrow> string \<Rightarrow> bool" where
  "sameHead left right = (let left = trim_space left; right = trim_space right in
     left \<noteq> [] \<and> right \<noteq> [] \<and> equal_fold left right)"

definition ConfirmMarkReady :: "MarkReadySnapshot \<Rightarrow> MarkReadySnapshot \<Rightarrow> MarkReadyDecision" where
  "ConfirmMarkReady evidence confirming =
     (if \<not> sameHead (RHeadSHA evidence) (RHeadSHA confirming) then blocked HeadMoved
      else if \<not> equal_fold (trim_space (RBaseRefName evidence)) (trim_space (RBaseRefName confirming)) then blocked HeadMoved
      else DecideMarkReady confirming)"

section \<open>The draft history\<close>

record MarkReadyDraftEvent =
  EEvent :: string
  EActor :: string
  ECreatedAt :: string

record draftEventOrder =
  oAt :: int
  oIndex :: nat
  oActor :: string

definition after :: "draftEventOrder \<Rightarrow> draftEventOrder \<Rightarrow> bool" where
  "after d other = (if oAt d \<noteq> oAt other then oAt d > oAt other else oIndex d > oIndex other)"

definition parseDraftEventTime :: "(string \<Rightarrow> int option) \<Rightarrow> string \<Rightarrow> int" where
  "parseDraftEventTime parse_time value = (case parse_time (trim_space value) of Some t \<Rightarrow> t | None \<Rightarrow> 0)"

definition event_order :: "(string \<Rightarrow> int option) \<Rightarrow> nat \<Rightarrow> MarkReadyDraftEvent \<Rightarrow> draftEventOrder" where
  "event_order parse_time i event = \<lparr>oAt = parseDraftEventTime parse_time (ECreatedAt event), oIndex = i,
                                    oActor = to_lower (trim_space (EActor event))\<rparr>"

definition event_kind :: "MarkReadyDraftEvent \<Rightarrow> string" where
  "event_kind event = to_lower (trim_space (EEvent event))"

definition latest :: "draftEventOrder \<Rightarrow> draftEventOrder option \<Rightarrow> draftEventOrder option" where
  "latest ordered best = (case best of None \<Rightarrow> Some ordered
     | Some b \<Rightarrow> if after ordered b then Some ordered else Some b)"

fun scan_events :: "(string \<Rightarrow> int option) \<Rightarrow> string \<Rightarrow> nat \<Rightarrow> MarkReadyDraftEvent list \<Rightarrow>
    draftEventOrder option \<times> draftEventOrder option \<Rightarrow> draftEventOrder option \<times> draftEventOrder option" where
  "scan_events parse_time daemon i [] acc = acc"
| "scan_events parse_time daemon i (event # events) (converted, published) =
     (let ordered = event_order parse_time i event in
      scan_events parse_time daemon (Suc i) events
        (if event_kind event = ''convert_to_draft'' then (latest ordered converted, published)
         else if event_kind event = ''ready_for_review'' then
           (if daemon = [] \<or> oActor ordered \<noteq> daemon then (converted, published)
            else (converted, latest ordered published))
         else (converted, published)))"

definition HumanConvertedToDraft :: "(string \<Rightarrow> int option) \<Rightarrow> MarkReadyDraftEvent list \<Rightarrow> string \<Rightarrow> bool" where
  "HumanConvertedToDraft parse_time events daemonLogin = (let daemon = to_lower (trim_space daemonLogin) in
     case scan_events parse_time daemon 0 events (None, None) of
       (None, _) \<Rightarrow> False
     | (Some converted, published) \<Rightarrow>
         if daemon = [] \<or> oActor converted \<noteq> daemon then True
         else (case published of None \<Rightarrow> False | Some p \<Rightarrow> \<not> after p converted))"

section \<open>Properties\<close>

text \<open>The events of a kind, in the order of the timeline, with their position.\<close>

definition events_of_kind :: "string \<Rightarrow> (string \<Rightarrow> int option) \<Rightarrow> nat \<Rightarrow> MarkReadyDraftEvent list \<Rightarrow> draftEventOrder list" where
  "events_of_kind kind parse_time i events =
     map (\<lambda>(j, e). event_order parse_time j e) (filter (\<lambda>(j, e). event_kind e = kind) (enumerate i events))"

abbreviation conversions :: "(string \<Rightarrow> int option) \<Rightarrow> nat \<Rightarrow> MarkReadyDraftEvent list \<Rightarrow> draftEventOrder list" where
  "conversions \<equiv> events_of_kind ''convert_to_draft''"

definition publications :: "string \<Rightarrow> (string \<Rightarrow> int option) \<Rightarrow> nat \<Rightarrow> MarkReadyDraftEvent list \<Rightarrow> draftEventOrder list" where
  "publications daemon parse_time i events = filter (\<lambda>p. daemon \<noteq> [] \<and> oActor p = daemon)
     (events_of_kind ''ready_for_review'' parse_time i events)"

lemma events_of_kind_simps:
  "events_of_kind k pt i [] = []"
  "events_of_kind k pt i (e # es) =
     (if event_kind e = k then event_order pt i e # events_of_kind k pt (Suc i) es else events_of_kind k pt (Suc i) es)"
  by (simp_all add: events_of_kind_def)

lemma scan_events_folds:
  "scan_events pt d i es (c, p) = (fold latest (conversions pt i es) c, fold latest (publications d pt i es) p)"
  by (induction es arbitrary: i c p) (simp_all add: events_of_kind_simps publications_def Let_def)

lemma event_index: "o1 \<in> set (events_of_kind k pt i es) \<Longrightarrow> i \<le> oIndex o1"
  by (induction es arbitrary: i) (force simp: events_of_kind_simps event_order_def split: if_splits)+

lemma same_index: "o1 \<in> set (events_of_kind k pt i es) \<Longrightarrow> o2 \<in> set (events_of_kind k pt i es) \<Longrightarrow>
    oIndex o1 = oIndex o2 \<Longrightarrow> o1 = o2"
proof (induction es arbitrary: i)
  case (Cons e es)
  have "Suc i \<le> oIndex x" if "x \<in> set (events_of_kind k pt (Suc i) es)" for x using event_index [OF that] .
  with Cons show ?case
    by (auto simp: events_of_kind_simps event_order_def split: if_splits) (metis Suc_n_not_le_n draftEventOrder.select_convs(2))+
qed (simp add: events_of_kind_simps)

lemma not_after_trans: "\<not> after a b \<Longrightarrow> \<not> after b c \<Longrightarrow> \<not> after a c"
  by (auto simp: after_def split: if_splits)

lemma after_asym: "after a b \<Longrightarrow> \<not> after b a"
  by (auto simp: after_def split: if_splits)

lemma fold_latest_Some: "\<exists>m. fold latest os (Some b) = Some m \<and> m \<in> insert b (set os)
    \<and> \<not> after b m \<and> (\<forall>x \<in> set os. \<not> after x m)"
proof (induction os arbitrary: b)
  case Nil
  then show ?case by (simp add: after_def)
next
  case (Cons x os)
  define b' where "b' = (if after x b then x else b)"
  have "latest x (Some b) = Some b'" by (simp add: latest_def b'_def)
  moreover obtain m where m: "fold latest os (Some b') = Some m" "m \<in> insert b' (set os)"
    "\<not> after b' m" "\<forall>y \<in> set os. \<not> after y m" using Cons.IH by blast
  moreover have "\<not> after b b'" "\<not> after x b'" using after_asym by (auto simp: b'_def after_def)
  then have "\<not> after b m" "\<not> after x m" using m(3) not_after_trans by blast+
  ultimately show ?case by (auto simp: b'_def split: if_splits)
qed

lemma fold_latest_None: "fold latest os None = None \<longleftrightarrow> os = []"
  "fold latest os None = Some m \<Longrightarrow> m \<in> set os \<and> (\<forall>x \<in> set os. \<not> after x m)"
proof -
  have *: "os = x # xs \<Longrightarrow> fold latest os None = fold latest xs (Some x)" for x xs by (simp add: latest_def)
  show "fold latest os None = None \<longleftrightarrow> os = []"
  proof (cases os)
    case (Cons x xs)
    then show ?thesis using * [OF Cons] fold_latest_Some [of xs x] by auto
  qed simp
  show "fold latest os None = Some m \<Longrightarrow> m \<in> set os \<and> (\<forall>x \<in> set os. \<not> after x m)"
  proof (cases os)
    case (Cons x xs)
    then show "fold latest os None = Some m \<Longrightarrow> ?thesis" using * [OF Cons] fold_latest_Some [of xs x] by auto
  qed simp
qed

lemma latest_unique: "a \<in> set (events_of_kind k pt i es) \<Longrightarrow> b \<in> set (events_of_kind k pt i es) \<Longrightarrow>
    \<not> after a b \<Longrightarrow> \<not> after b a \<Longrightarrow> a = b"
  using same_index by (auto simp: after_def split: if_splits)

text \<open>
  C33. A draft counts as put back by a human exactly when the latest conversion to draft of the timeline,
  by timestamp (an unreadable one counts as the oldest) and then position, is by somebody other than
  the daemon, or the daemon's login is not known, or it is the daemon's own although the daemon
  published the pull request before and not after it.
\<close>

theorem human_conversion_exact:
  "HumanConvertedToDraft parse_time events daemonLogin \<longleftrightarrow>
     (let daemon = to_lower (trim_space daemonLogin); cs = conversions parse_time 0 events;
          ps = publications daemon parse_time 0 events
      in \<exists>c \<in> set cs. (\<forall>x \<in> set cs. \<not> after x c)
           \<and> (daemon = [] \<or> oActor c \<noteq> daemon \<or> (ps \<noteq> [] \<and> (\<forall>p \<in> set ps. \<not> after p c))))"
proof -
  define daemon where "daemon = to_lower (trim_space daemonLogin)"
  let ?cs = "conversions parse_time 0 events" and ?ps = "publications daemon parse_time 0 events"
  have res: "HumanConvertedToDraft parse_time events daemonLogin \<longleftrightarrow>
     (case fold latest ?cs None of None \<Rightarrow> False | Some c \<Rightarrow>
        daemon = [] \<or> oActor c \<noteq> daemon \<or> (case fold latest ?ps None of None \<Rightarrow> False | Some p \<Rightarrow> \<not> after p c))"
    by (auto simp: HumanConvertedToDraft_def scan_events_folds daemon_def Let_def split: option.splits)
  have pubs: "(case fold latest ?ps None of None \<Rightarrow> False | Some p \<Rightarrow> \<not> after p c) \<longleftrightarrow>
      ?ps \<noteq> [] \<and> (\<forall>p \<in> set ?ps. \<not> after p c)" for c
  proof (cases "fold latest ?ps None")
    case None
    then show ?thesis using fold_latest_None(1) [of ?ps] by simp
  next
    case (Some p)
    then have "p \<in> set ?ps" "\<forall>x \<in> set ?ps. \<not> after x p" using fold_latest_None(2) by blast+
    then have "\<not> after p c \<longleftrightarrow> (\<forall>x \<in> set ?ps. \<not> after x c)" "?ps \<noteq> []"
      using not_after_trans [of _ p c] by (blast, force)
    then show ?thesis unfolding Some by simp
  qed
  have "HumanConvertedToDraft parse_time events daemonLogin \<longleftrightarrow>
      (\<exists>c \<in> set ?cs. (\<forall>x \<in> set ?cs. \<not> after x c)
         \<and> (daemon = [] \<or> oActor c \<noteq> daemon \<or> (?ps \<noteq> [] \<and> (\<forall>p \<in> set ?ps. \<not> after p c))))"
  proof (cases "fold latest ?cs None")
    case None
    then have "?cs = []" using fold_latest_None(1) by blast
    then show ?thesis unfolding res by simp
  next
    case (Some c)
    then have c: "c \<in> set ?cs" "\<forall>x \<in> set ?cs. \<not> after x c" using fold_latest_None(2) by blast+
    have "x = c" if "x \<in> set ?cs" "\<forall>y \<in> set ?cs. \<not> after y x" for x
      using latest_unique [OF that(1) c(1)] that c by blast
    then show ?thesis unfolding res Some pubs option.case using c by blast
  qed
  then show ?thesis unfolding Let_def daemon_def by blast
qed

definition sample_event :: "string \<Rightarrow> string \<Rightarrow> string \<Rightarrow> MarkReadyDraftEvent" where
  "sample_event kind actor at = \<lparr>EEvent = kind, EActor = actor, ECreatedAt = at\<rparr>"

definition sample_clock :: "string \<Rightarrow> int option" where
  "sample_clock s = (if s = ''t1'' then Some 1 else if s = ''t2'' then Some 2 else None)"

theorem human_conversion_exact_witness:
  "HumanConvertedToDraft sample_clock [sample_event ''convert_to_draft'' ''alice'' ''t2'',
     sample_event ''Ready_for_review'' ''looper'' ''t1''] ''Looper''"
proof -
  let ?es = "[sample_event ''convert_to_draft'' ''alice'' ''t2'', sample_event ''Ready_for_review'' ''looper'' ''t1'']"
  have c: "conversions sample_clock 0 ?es = [\<lparr>oAt = 2, oIndex = 0, oActor = ''alice''\<rparr>]"
    "to_lower (trim_space ''Looper'') = ''looper''" by code_simp+
  show ?thesis
    using human_conversion_exact [of sample_clock ?es "''Looper''"] unfolding Let_def c by (simp add: after_def)
qed

text \<open>
  A human's conversion whose timestamp does not parse counts as the oldest, so an older conversion
  by the daemon hides it although it comes later in the timeline.
\<close>

lemma unparseable_conversion_hidden:
  "\<exists>es. last es = sample_event ''convert_to_draft'' ''alice'' ''soon'' \<and>
     \<not> HumanConvertedToDraft sample_clock es ''looper''"
proof -
  have "\<not> HumanConvertedToDraft sample_clock [sample_event ''convert_to_draft'' ''looper'' ''t1'',
     sample_event ''convert_to_draft'' ''alice'' ''soon''] ''looper''" by code_simp
  then show ?thesis by (intro exI conjI) simp_all
qed

section \<open>Classification\<close>

text \<open>
  Waiting is bounded: while a pull request keeps its head and stays undecided, and the marker carries
  the first instant it was seen undecided, a tick later than the allowed duration after that
  instant is no longer answered by waiting but by a changed branch protection, and every earlier
  tick keeps the instant.
\<close>

theorem undecided_wait_bounded:
  assumes "STemporaryError s = None" "\<not> SMerged s" "SAutoMergeEnabled s \<or> SAutoMergeRouteEnabled s"
    and "SMergeable s = None \<or> IsUnknown (SMergeableState s)"
    and "0 < MaxIndeterminateDuration b" "MaxIndeterminateDuration b < 2 ^ 63 - 1"
    and "MPRNumber m = SPRNumber s" "MHeadSHA m = SHeadSHA s" "MFirstUnknownAt m = Some t"
  shows "WFirstUnknownAt (Classify s (Some m) b) = Some t
    \<and> WKind (Classify s (Some m) b) = (if t + MaxIndeterminateDuration b < Now b
         then ActionBranchProtectionChanged else ActionIndeterminate)"
  using assms
  by (auto simp: Classify_def normalizePrior_def prior_applies_def plain_action_def time_sub_def Let_def)

definition sample_watch :: "bool option \<Rightarrow> PRSnapshot" where
  "sample_watch m = \<lparr>SPRNumber = 7, SHeadSHA = ''h'', SMerged = False, SAutoMergeEnabled = True,
     SAutoMergeRouteEnabled = False, SMergeable = m, SMergeableState = ''clean'',
     SRequiredChecks = \<lparr>ChecksFailed = [], ChecksPending = [], ChecksMissing = []\<rparr>, STemporaryError = None\<rparr>"

theorem undecided_wait_bounded_witness:
  "WKind (Classify (sample_watch None) (Some \<lparr>MPRNumber = 7, MHeadSHA = ''h'', MRetries = 3, MFirstUnknownAt = Some 100\<rparr>)
     \<lparr>Now = 161, TransientRetries = 3, MaxIndeterminateDuration = 60\<rparr>) = ActionBranchProtectionChanged"
  using undecided_wait_bounded [where s = "sample_watch None" and t = 100
      and m = "\<lparr>MPRNumber = 7, MHeadSHA = ''h'', MRetries = 3, MFirstUnknownAt = Some 100\<rparr>"
      and b = "\<lparr>Now = 161, TransientRetries = 3, MaxIndeterminateDuration = 60\<rparr>"]
  by (simp add: sample_watch_def)

end
