(* ===== verification/Lock_Store.thy ===== *)
theory Lock_Store
  imports Prelude
begin

text \<open>
  The business locks: leases on forge targets kept in the table \<open>locks\<close>
  (\<open>LocksRepository\<close> in \<open>internal/storage/repositories.go\<close>), the keys and their legacy
  aliases (\<open>internal/storage/forge_keys.go\<close>) and the worker's reacquisition of a lease on
  resume (\<open>internal/worker/runner.go\<close>). Instants are the ISO strings the code stores,
  compared bytewise as SQLite does; the clock's reading is an argument. Rows form a list with at
  most one row per key, the table's primary key.
\<close>

section \<open>Keys\<close>

definition IssueLockKey :: "string \<Rightarrow> string \<Rightarrow> int \<Rightarrow> string" where
  "IssueLockKey projectID repo issueNumber =
     ''issue:'' @ trim_space projectID @ '':'' @ to_lower (trim_space repo) @ '':'' @ itoa issueNumber"

definition PullRequestLockKey :: "string \<Rightarrow> string \<Rightarrow> int \<Rightarrow> string" where
  "PullRequestLockKey projectID repo prNumber =
     ''pr:'' @ trim_space projectID @ '':'' @ to_lower (trim_space repo) @ '':'' @ itoa prNumber"

text \<open>\<open>strings.IndexByte\<close> and \<open>strings.LastIndexByte\<close>: -1 when the byte is absent.\<close>

definition IndexByte :: "string \<Rightarrow> char \<Rightarrow> int" where
  "IndexByte s c = (if c \<in> set s then int (length (takeWhile (\<lambda>x. x \<noteq> c) s)) else - 1)"

definition LastIndexByte :: "string \<Rightarrow> char \<Rightarrow> int" where
  "LastIndexByte s c = (if c \<in> set s
     then int (length s) - 1 - int (length (takeWhile (\<lambda>x. x \<noteq> c) (rev s))) else - 1)"

record LockAlias =
  aLegacyKey :: string
  aScopedSuffix :: string
  aKind :: string
  aScoped :: bool

definition slice :: "string \<Rightarrow> int \<Rightarrow> int \<Rightarrow> string" where
  "slice s a b = take (nat b - nat a) (drop (nat a) s)"

definition lockTransitionAlias :: "string \<Rightarrow> LockAlias option" where
  "lockTransitionAlias key0 =
     (let key = trim_space key0; firstSeparator = IndexByte key CHR '':''; lastSeparator = LastIndexByte key CHR '':'' in
      if firstSeparator \<le> 0 \<or> lastSeparator \<le> firstSeparator then None
      else let kind = take (nat firstSeparator) key in
      if kind \<noteq> ''issue'' \<and> kind \<noteq> ''pr'' then None
      else let beforeRepo = LastIndexByte (take (nat lastSeparator) key) CHR '':'' in
      if beforeRepo < firstSeparator then None
      else if beforeRepo = firstSeparator
      then Some \<lparr>aLegacyKey = key, aScopedSuffix = drop (nat firstSeparator) key, aKind = kind, aScoped = False\<rparr>
      else let repoAndNumber = drop (nat beforeRepo) key in
      if trim_space (slice key (firstSeparator + 1) beforeRepo) = []
         \<or> trim_space (slice key (beforeRepo + 1) lastSeparator) = []
         \<or> trim_space (drop (nat (lastSeparator + 1)) key) = [] then None
      else Some \<lparr>aLegacyKey = kind @ repoAndNumber, aScopedSuffix = repoAndNumber, aKind = kind, aScoped = True\<rparr>)"

section \<open>The table\<close>

record LockRecord =
  LockKey :: string
  LockOwner :: string
  LockReason :: "string option"
  LockExpiresAt :: string
  LockCreatedAt :: string
  LockUpdatedAt :: string

text \<open>
  SQLite's \<open>substr(x, -n)\<close>: the last n characters, or all of them when there are fewer. Keys are taken
  to be ASCII, where characters are bytes.
\<close>

definition last_chars :: "nat \<Rightarrow> string \<Rightarrow> string" where
  "last_chars n s = drop (length s - n) s"

text \<open>The alias predicate of the insertion: \<open>key LIKE 'kind:%'\<close> ignores ASCII case.\<close>

definition aliasPredicate :: "LockAlias \<Rightarrow> string \<Rightarrow> bool" where
  "aliasPredicate a key =
     (if \<not> aScoped a
      then has_prefix (to_lower key) (to_lower (aKind a @ '':''))
           \<and> to_lower (last_chars (length (aScopedSuffix a)) key) = to_lower (aScopedSuffix a)
      else to_lower key = to_lower (aLegacyKey a))"

definition lock_live :: "string \<Rightarrow> LockRecord \<Rightarrow> bool" where
  "lock_live nowISO r \<longleftrightarrow> LockExpiresAt r > nowISO"

definition overwrite :: "LockRecord \<Rightarrow> LockRecord \<Rightarrow> LockRecord" where
  "overwrite new r = r\<lparr>LockOwner := LockOwner new, LockReason := LockReason new,
     LockExpiresAt := LockExpiresAt new, LockUpdatedAt := LockUpdatedAt new\<rparr>"

text \<open>The insertion with its conflict clause: whether a row was inserted or updated.\<close>

definition upsert_expired :: "string \<Rightarrow> LockRecord \<Rightarrow> LockRecord list \<Rightarrow> bool \<times> LockRecord list" where
  "upsert_expired nowISO new locks =
     (if list_ex (\<lambda>r. LockKey r = LockKey new) locks
      then (list_ex (\<lambda>r. LockKey r = LockKey new \<and> \<not> lock_live nowISO r) locks,
            map (\<lambda>r. if LockKey r = LockKey new \<and> \<not> lock_live nowISO r then overwrite new r else r) locks)
      else (True, locks @ [new]))"

definition blocked_by_alias :: "string \<Rightarrow> LockRecord \<Rightarrow> LockRecord list \<Rightarrow> bool" where
  "blocked_by_alias nowISO new locks = (case lockTransitionAlias (LockKey new) of
     None \<Rightarrow> False
   | Some a \<Rightarrow> list_ex (\<lambda>r. LockKey r \<noteq> LockKey new \<and> lock_live nowISO r \<and> aliasPredicate a (LockKey r)) locks)"

definition Acquire :: "string \<Rightarrow> LockRecord \<Rightarrow> LockRecord list \<Rightarrow> bool \<times> LockRecord list" where
  "Acquire nowISO record locks =
     (if blocked_by_alias nowISO record locks then (False, locks) else upsert_expired nowISO record locks)"

definition Release :: "string \<Rightarrow> LockRecord list \<Rightarrow> LockRecord list" where
  "Release key locks = filter (\<lambda>r. LockKey r \<noteq> key) locks"

definition Get :: "string \<Rightarrow> LockRecord list \<Rightarrow> LockRecord option" where
  "Get key locks = find (\<lambda>r. LockKey r = key) locks"

definition Refresh :: "LockRecord \<Rightarrow> LockRecord list \<Rightarrow> bool \<times> LockRecord list" where
  "Refresh record locks =
     (list_ex (\<lambda>r. LockKey r = LockKey record \<and> LockOwner r = LockOwner record) locks,
      map (\<lambda>r. if LockKey r = LockKey record \<and> LockOwner r = LockOwner record
               then r\<lparr>LockReason := LockReason record, LockExpiresAt := LockExpiresAt record,
                      LockUpdatedAt := LockUpdatedAt record\<rparr> else r) locks)"

definition ListExpired :: "string \<Rightarrow> LockRecord list \<Rightarrow> LockRecord list" where
  "ListExpired nowISO locks = sort_key LockExpiresAt (filter (\<lambda>r. LockExpiresAt r \<le> nowISO) locks)"

section \<open>The worker's reacquisition on resume\<close>

definition reacquireClaimedLock :: "string \<Rightarrow> string \<Rightarrow> string \<Rightarrow> string \<Rightarrow> LockRecord list \<Rightarrow> bool \<times> LockRecord list" where
  "reacquireClaimedLock nowISO expiresAt claimedLockKey owner locks =
     (let record = \<lparr>LockKey = claimedLockKey, LockOwner = owner, LockReason = Some ''worker-run-resume'',
                    LockExpiresAt = expiresAt, LockCreatedAt = nowISO, LockUpdatedAt = nowISO\<rparr>
      in case Acquire nowISO record locks of
           (True, locks') \<Rightarrow> (True, locks')
         | (False, locks') \<Rightarrow> (case Get claimedLockKey locks' of
             None \<Rightarrow> (False, locks')
           | Some lock \<Rightarrow> if LockOwner lock \<noteq> owner then (False, locks') else Refresh record locks'))"

section \<open>Which keys exclude each other\<close>

text \<open>The keys of forge targets: the kind, the project of a scoped key, the repository, the number.\<close>

datatype ForgeKey = ForgeKey (fkKind: string) (fkProject: "string option") (fkRepo: string) (fkNumber: string)

definition base :: "ForgeKey \<Rightarrow> string" where
  "base k = fkKind k @ '':'' @ fkRepo k @ '':'' @ fkNumber k"

definition render :: "ForgeKey \<Rightarrow> string" where
  "render k = (case fkProject k of
     None \<Rightarrow> base k
   | Some p \<Rightarrow> fkKind k @ '':'' @ p @ '':'' @ fkRepo k @ '':'' @ fkNumber k)"

definition proper :: "ForgeKey \<Rightarrow> bool" where
  "proper k \<longleftrightarrow> fkKind k \<in> {''issue'', ''pr''} \<and> CHR '':'' \<notin> set (fkRepo k) \<and> CHR '':'' \<notin> set (fkNumber k)
     \<and> trim_space (fkRepo k) \<noteq> [] \<and> fkNumber k \<noteq> [] \<and> trim_space (fkNumber k) = fkNumber k
     \<and> (case fkProject k of None \<Rightarrow> True | Some p \<Rightarrow> trim_space p \<noteq> [])"

lemma IndexByte_split [simp]: "c \<notin> set a \<Longrightarrow> IndexByte (a @ c # b) c = int (length a)"
  by (simp add: IndexByte_def takeWhile_append)

lemma LastIndexByte_split [simp]: "c \<notin> set b \<Longrightarrow> LastIndexByte (a @ c # b) c = int (length a)"
  by (simp add: LastIndexByte_def takeWhile_append)

lemma kind_facts: "proper k \<Longrightarrow> CHR '':'' \<notin> set (fkKind k) \<and> fkKind k \<noteq> [] \<and> to_lower (fkKind k) = fkKind k
    \<and> \<not> is_space (hd (fkKind k))"
proof -
  have "to_lower ''issue'' = ''issue''" "to_lower ''pr'' = ''pr''" by code_simp+
  then show "proper k \<Longrightarrow> ?thesis" by (auto simp: proper_def is_space_def)
qed

lemma trim_render: "proper k \<Longrightarrow> trim_space (render k) = render k"
proof (rule trim_space_id)
  assume p: "proper k"
  then have "fkNumber k \<noteq> []" "\<not> is_space (last (fkNumber k))"
    using last_trim_space [of "fkNumber k"] by (auto simp: proper_def)
  then show "render k = [] \<or> \<not> is_space (hd (render k)) \<and> \<not> is_space (last (render k))"
    using kind_facts [OF p] by (auto simp: render_def base_def split: option.splits)
qed

lemma alias_of_proper:
  assumes "proper k"
  shows "lockTransitionAlias (render k) = Some \<lparr>aLegacyKey = base k,
     aScopedSuffix = '':'' @ fkRepo k @ '':'' @ fkNumber k, aKind = fkKind k, aScoped = (fkProject k \<noteq> None)\<rparr>"
proof -
  obtain kind pr repo n where k: "k = ForgeKey kind pr repo n" by (cases k)
  note f = kind_facts [OF assms, unfolded k ForgeKey.sel]
  note t = trim_render [OF assms]
  have p: "CHR '':'' \<notin> set repo" "CHR '':'' \<notin> set n" "trim_space repo \<noteq> []" "trim_space n \<noteq> []"
      "kind = ''issue'' \<or> kind = ''pr''" "\<And>q. pr = Some q \<Longrightarrow> trim_space q \<noteq> []"
    using assms by (auto simp: k proper_def)
  show ?thesis
  proof (cases pr)
    case None
    have r: "render k = kind @ CHR '':'' # (repo @ CHR '':'' # n)" "render k = (kind @ CHR '':'' # repo) @ CHR '':'' # n"
      by (simp_all add: render_def base_def k None)
    have i: "IndexByte (render k) CHR '':'' = int (length kind)" unfolding r(1) using f by simp
    have l: "LastIndexByte (render k) CHR '':'' = int (length kind + 1 + length repo)"
      unfolding r(2) using LastIndexByte_split [OF p(2), of "kind @ CHR '':'' # repo"] by simp
    have b: "LastIndexByte (take (length kind + 1 + length repo) (render k)) CHR '':'' = int (length kind)"
      unfolding r(1) using p(1) by simp
    show ?thesis
      unfolding lockTransitionAlias_def t Let_def i l nat_int b
      using f p by (simp add: r(1) r(1) [unfolded k None] k None base_def)
  next
    case (Some q)
    have r: "render k = kind @ CHR '':'' # (q @ CHR '':'' # repo @ CHR '':'' # n)"
      "render k = (kind @ CHR '':'' # q @ CHR '':'' # repo) @ CHR '':'' # n"
      "render k = (kind @ CHR '':'' # q) @ CHR '':'' # (repo @ CHR '':'' # n)"
      by (simp_all add: render_def k Some)
    have i: "IndexByte (render k) CHR '':'' = int (length kind)" unfolding r(1) using f by simp
    have l: "LastIndexByte (render k) CHR '':'' = int (length kind + 1 + length q + 1 + length repo)"
      unfolding r(2) using LastIndexByte_split [OF p(2), of "kind @ CHR '':'' # q @ CHR '':'' # repo"] by simp
    have b: "LastIndexByte (take (length kind + 1 + length q + 1 + length repo) (render k)) CHR '':''
        = int (length kind + 1 + length q)"
    proof -
      have "take (length kind + 1 + length q + 1 + length repo) (render k) = (kind @ CHR '':'' # q) @ CHR '':'' # repo"
        unfolding r(3) by simp
      then show ?thesis using LastIndexByte_split [OF p(1), of "kind @ CHR '':'' # q"] by simp
    qed
    have s: "slice (render k) (int (length kind) + 1) (int (length kind + 1 + length q)) = q"
      "slice (render k) (int (length kind + 1 + length q) + 1) (int (length kind + 1 + length q + 1 + length repo)) = repo"
      "drop (nat (int (length kind + 1 + length q + 1 + length repo) + 1)) (render k) = n"
      "drop (length kind + 1 + length q) (render k) = CHR '':'' # repo @ CHR '':'' # n"
      by (simp_all add: slice_def r(1) nat_add_distrib numeral_3_eq_3)
    show ?thesis
      unfolding lockTransitionAlias_def t Let_def i l nat_int b s
      using f p by (simp add: r(1) r(1) [unfolded k Some] k Some base_def)
  qed
qed

lemma lower_char_colon [simp]: "lower_char c = CHR '':'' \<longleftrightarrow> c = CHR '':''"
proof (cases "65 \<le> (of_char c :: nat) \<and> (of_char c :: nat) \<le> 90")
  case True
  then have "(of_char (lower_char c) :: nat) = of_char c + 32" by (simp add: lower_char_def of_char_of)
  moreover have "(of_char (CHR '':'') :: nat) = 58" by simp
  ultimately have "lower_char c \<noteq> CHR '':''" "c \<noteq> CHR '':''" using True by auto
  then show ?thesis by simp
qed (auto simp: lower_char_def)

definition colons :: "string \<Rightarrow> nat" where
  "colons s = length (filter (\<lambda>c. c = CHR '':'') s)"

lemma colons_simps [simp]: "colons [] = 0" "colons (a @ b) = colons a + colons b"
  "colons (c # s) = (if c = CHR '':'' then 1 else 0) + colons s" "colons (to_lower s) = colons s"
  by (induction s) (simp_all add: colons_def to_lower_def)

lemma colons_0 [simp]: "CHR '':'' \<notin> set s \<Longrightarrow> colons s = 0"
  by (induction s) auto

text \<open>Matching the last characters against a suffix that starts with a colon and has two of them.\<close>

lemma suffix_match:
  assumes s: "s = CHR '':'' # a" "colons a = 1" and t: "t = CHR '':'' # b" "colons b = 1"
  shows "to_lower (last_chars (length s) (x @ t)) = to_lower s \<longleftrightarrow> to_lower t = to_lower s"
proof
  assume eq: "to_lower (last_chars (length s) (x @ t)) = to_lower s"
  have c: "colons (last_chars (length s) (x @ t)) = 2"
    using arg_cong [OF eq, of colons] s by simp
  have len: "length (last_chars (length s) (x @ t)) = length s"
    using arg_cong [OF eq, of length] by simp
  consider (lt) "length s < length t" | (eq) "length s = length t" | (gt) "length t < length s" by linarith
  then show "to_lower t = to_lower s"
  proof cases
    case lt
    then have "last_chars (length s) (x @ t) = drop (length t - length s) t" by (simp add: last_chars_def)
    also have "\<dots> = drop (length t - length s - 1) b" using lt t by (simp add: drop_Cons')
    finally have "colons (drop (length t - length s - 1) b) = 2" using c by simp
    moreover have "colons (drop m b) \<le> colons b" for m
      using colons_simps(2) [of "take m b" "drop m b"] by simp
    ultimately show ?thesis using t(2) by (metis Suc_1 Suc_n_not_le_n)
  next
    case eq
    then show ?thesis using \<open>to_lower (last_chars (length s) (x @ t)) = to_lower s\<close> by (simp add: last_chars_def)
  next
    case gt
    let ?y = "drop (length x + length t - length s) x"
    have y: "last_chars (length s) (x @ t) = ?y @ t"
      using gt len by (simp add: last_chars_def)
    then have "?y \<noteq> []" using len gt by auto
    moreover have "hd (to_lower (?y @ t)) = CHR '':''" using eq y s by (simp add: to_lower_def)
    ultimately have "hd ?y = CHR '':''" by (cases ?y) (auto simp: to_lower_def)
    with \<open>?y \<noteq> []\<close> have "1 \<le> colons ?y" by (cases ?y) auto
    with c y t show ?thesis by simp
  qed
next
  assume eq: "to_lower t = to_lower s"
  then have "length t = length s" by (metis length_to_lower)
  with eq show "to_lower (last_chars (length s) (x @ t)) = to_lower s" by (simp add: last_chars_def)
qed

definition suffix_of :: "ForgeKey \<Rightarrow> string" where
  "suffix_of k = '':'' @ fkRepo k @ '':'' @ fkNumber k"

lemma suffix_shape: "proper k \<Longrightarrow> \<exists>a. suffix_of k = CHR '':'' # a \<and> colons a = 1"
  by (auto simp: suffix_of_def proper_def)

lemma base_suffix: "base k = fkKind k @ suffix_of k"
  by (simp add: base_def suffix_of_def)

lemma base_lower_eq: "proper k \<Longrightarrow> proper k' \<Longrightarrow> to_lower (base k) = to_lower (base k') \<longleftrightarrow>
    fkKind k = fkKind k' \<and> to_lower (suffix_of k) = to_lower (suffix_of k')"
  using kind_facts [of k] kind_facts [of k']
  by (auto simp: base_suffix suffix_of_def to_lower_append to_lower_def proper_def lower_char_def)

definition excludes :: "ForgeKey \<Rightarrow> ForgeKey \<Rightarrow> bool" where
  "excludes k k' \<longleftrightarrow> to_lower (base k) = to_lower (base k') \<and> (fkProject k = None \<or> fkProject k' = None)"

definition conflicting :: "string \<Rightarrow> string \<Rightarrow> bool" where
  "conflicting key key' = (case lockTransitionAlias key of None \<Rightarrow> False | Some a \<Rightarrow> aliasPredicate a key')"

lemma colons_base: "proper k \<Longrightarrow> colons (base k) = 2"
  using kind_facts [of k] by (auto simp: base_def proper_def)

lemma kind_prefix: "proper k \<Longrightarrow> proper k' \<Longrightarrow>
    has_prefix (to_lower (fkKind k' @ '':'' @ rest)) (to_lower (fkKind k @ '':'')) \<longleftrightarrow> fkKind k = fkKind k'"
proof -
  assume p: "proper k" "proper k'"
  have colon: "to_lower '':'' = '':''" by code_simp
  have "to_lower (fkKind k' @ '':'' @ rest) = fkKind k' @ '':'' @ to_lower rest"
    "to_lower (fkKind k @ '':'') = fkKind k @ '':''"
    using kind_facts [OF p(1)] kind_facts [OF p(2)] colon by (simp_all add: to_lower_append del: append_Cons append_Nil)
  then show ?thesis using p by (auto simp: proper_def)
qed

lemma render_split: "proper k \<Longrightarrow> \<exists>x rest. render k = x @ suffix_of k \<and> render k = fkKind k @ '':'' @ rest"
  by (auto simp: render_def base_def suffix_of_def split: option.splits)

lemma conflicting_render:
  assumes p: "proper k" "proper k'"
  shows "conflicting (render k) (render k') \<longleftrightarrow> excludes k k'"
proof (cases "fkProject k")
  case None
  obtain x rest where r: "render k' = x @ suffix_of k'" "render k' = fkKind k' @ '':'' @ rest"
    using render_split [OF p(2)] by blast
  have "conflicting (render k) (render k') \<longleftrightarrow>
      has_prefix (to_lower (render k')) (to_lower (fkKind k @ '':''))
      \<and> to_lower (last_chars (length (suffix_of k)) (render k')) = to_lower (suffix_of k)"
    unfolding conflicting_def alias_of_proper [OF p(1)] by (simp add: aliasPredicate_def None suffix_of_def)
  also have "has_prefix (to_lower (render k')) (to_lower (fkKind k @ '':'')) \<longleftrightarrow> fkKind k = fkKind k'"
    unfolding r(2) by (rule kind_prefix [OF p])
  also have "to_lower (last_chars (length (suffix_of k)) (render k')) = to_lower (suffix_of k)
      \<longleftrightarrow> to_lower (suffix_of k') = to_lower (suffix_of k)"
    unfolding r(1) using suffix_match suffix_shape [OF p(1)] suffix_shape [OF p(2)] by blast
  finally show ?thesis unfolding excludes_def base_lower_eq [OF p] None by auto
next
  case (Some q)
  then have c: "conflicting (render k) (render k') \<longleftrightarrow> to_lower (render k') = to_lower (base k)"
    unfolding conflicting_def alias_of_proper [OF p(1)] by (simp add: aliasPredicate_def)
  show ?thesis
  proof (cases "fkProject k'")
    case None
    then show ?thesis unfolding c by (auto simp: excludes_def render_def)
  next
    case (Some q')
    have "2 < colons (render k')" using Some p(2) kind_facts [OF p(2)] by (auto simp: render_def proper_def)
    then have "to_lower (render k') \<noteq> to_lower (base k)"
      using colons_base [OF p(1)] colons_simps(4) by (metis less_irrefl)
    then show ?thesis unfolding c using \<open>fkProject k = Some q\<close> Some by (simp add: excludes_def)
  qed
qed

section \<open>Histories of the table\<close>

definition forge_row :: "LockRecord \<Rightarrow> bool" where
  "forge_row r \<longleftrightarrow> (\<exists>k. proper k \<and> LockKey r = render k)"

text \<open>At an instant: one row per key, all for forge targets, and no two live rows that exclude each other.\<close>

definition exclusive :: "string \<times> LockRecord list \<Rightarrow> bool" where
  "exclusive w \<longleftrightarrow> distinct (map LockKey (snd w)) \<and> list_all forge_row (snd w)
     \<and> (\<forall>r \<in> set (snd w). \<forall>r' \<in> set (snd w). lock_live (fst w) r \<longrightarrow> lock_live (fst w) r' \<longrightarrow>
          LockKey r \<noteq> LockKey r' \<longrightarrow> \<not> conflicting (LockKey r) (LockKey r'))"

inductive lock_step :: "string \<times> LockRecord list \<Rightarrow> string \<times> LockRecord list \<Rightarrow> bool" where
  acquire: "t \<le> t' \<Longrightarrow> proper k \<Longrightarrow> LockKey record = render k \<Longrightarrow>
     lock_step (t, locks) (t', snd (Acquire t' record locks))"
| release: "t \<le> t' \<Longrightarrow> lock_step (t, locks) (t', Release key locks)"
| refresh: "t \<le> t' \<Longrightarrow>
     list_all (\<lambda>r. LockKey r = LockKey record \<and> LockOwner r = LockOwner record \<longrightarrow> lock_live t' r) locks \<Longrightarrow>
     lock_step (t, locks) (t', snd (Refresh record locks))"

definition no_locks :: "string \<times> LockRecord list \<Rightarrow> bool" where
  "no_locks w \<longleftrightarrow> snd w = []"

lemma conflicting_sym: "forge_row r \<Longrightarrow> forge_row r' \<Longrightarrow>
    conflicting (LockKey r) (LockKey r') \<Longrightarrow> conflicting (LockKey r') (LockKey r)"
  by (auto simp: forge_row_def conflicting_render excludes_def)

lemma live_earlier: "t \<le> t' \<Longrightarrow> lock_live t' r \<Longrightarrow> lock_live t r"
  by (auto simp: lock_live_def)

lemma exclusive_later: "t \<le> t' \<Longrightarrow> exclusive (t, locks) \<Longrightarrow> exclusive (t', locks)"
  using live_earlier unfolding exclusive_def by fastforce

lemma exclusive_map:
  assumes ok: "exclusive (t, locks)" and key: "\<And>r. LockKey (f r) = LockKey r"
    and live: "\<And>r. r \<in> set locks \<Longrightarrow> lock_live t (f r) \<Longrightarrow> lock_live t r"
  shows "exclusive (t, map f locks)"
  using ok key live unfolding exclusive_def forge_row_def by (auto simp: list_all_iff comp_def)

lemma exclusive_replace:
  assumes ok: "exclusive (t, locks)" and d: "distinct (map LockKey locks')"
    and rows: "\<And>r. r \<in> set locks' \<Longrightarrow> r \<in> set locks \<or> LockKey r = LockKey new" and f: "forge_row new"
    and free: "\<And>r. r \<in> set locks \<Longrightarrow> lock_live t r \<Longrightarrow> LockKey r \<noteq> LockKey new \<Longrightarrow> \<not> conflicting (LockKey new) (LockKey r)"
  shows "exclusive (t, locks')"
proof -
  have fr: "forge_row r" if "r \<in> set locks'" for r
    using rows [OF that] ok f unfolding exclusive_def forge_row_def by (auto simp: list_all_iff)
  have "\<not> conflicting (LockKey r) (LockKey r')"
    if m: "r \<in> set locks'" "r' \<in> set locks'" "lock_live t r" "lock_live t r'" "LockKey r \<noteq> LockKey r'" for r r'
  proof -
    consider "LockKey r = LockKey new" | "LockKey r' = LockKey new" | "r \<in> set locks" "r' \<in> set locks"
      using rows [OF m(1)] rows [OF m(2)] by blast
    then show ?thesis
    proof cases
      case 1
      with m rows [OF m(2)] free show ?thesis by metis
    next
      case 2
      with m rows [OF m(1)] free [of r] have "\<not> conflicting (LockKey r') (LockKey r)" by metis
      then show ?thesis using conflicting_sym fr m by blast
    next
      case 3
      with m ok show ?thesis unfolding exclusive_def by simp
    qed
  qed
  with d fr show ?thesis unfolding exclusive_def by (simp add: list_all_iff)
qed

lemma not_blocked: "\<not> blocked_by_alias t new locks \<Longrightarrow> r \<in> set locks \<Longrightarrow> lock_live t r \<Longrightarrow>
    LockKey r \<noteq> LockKey new \<Longrightarrow> \<not> conflicting (LockKey new) (LockKey r)"
  by (auto simp: blocked_by_alias_def conflicting_def list_ex_iff split: option.splits)

lemma upsert_keys: "map LockKey (map (\<lambda>r. if LockKey r = LockKey new \<and> \<not> lock_live t r then overwrite new r else r) locks)
    = map LockKey locks"
  by (simp add: overwrite_def)

lemma acquired_keys: "map LockKey (snd (Acquire t new locks)) = map LockKey locks @
   (if blocked_by_alias t new locks \<or> LockKey new \<in> set (map LockKey locks) then [] else [LockKey new])"
proof -
  have "list_ex (\<lambda>r. LockKey r = LockKey new) locks \<longleftrightarrow> LockKey new \<in> set (map LockKey locks)"
    by (induction locks) auto
  then show ?thesis
    by (simp add: Acquire_def upsert_expired_def upsert_keys del: map_map set_map)
qed

lemma find_snoc: "find P xs = None \<Longrightarrow> find P (xs @ [x]) = (if P x then Some x else None)"
  by (induction xs) (auto split: if_splits)

lemma acquire_exclusive:
  assumes ok: "exclusive (t, locks)" and k: "proper k" "LockKey new = render k"
  shows "exclusive (t, snd (Acquire t new locks))"
proof (cases "blocked_by_alias t new locks")
  case False
  have d: "distinct (map LockKey locks)" using ok by (simp add: exclusive_def)
  show ?thesis
  proof (rule exclusive_replace [OF ok, where new = new])
    show "distinct (map LockKey (snd (Acquire t new locks)))"
      unfolding acquired_keys using d by auto
    show "r \<in> set locks \<or> LockKey r = LockKey new" if "r \<in> set (snd (Acquire t new locks))" for r
      using that False by (auto simp: Acquire_def upsert_expired_def overwrite_def split: if_splits)
    show "forge_row new" using k by (auto simp: forge_row_def)
  qed (use False not_blocked in blast)
qed (use ok in \<open>simp add: Acquire_def\<close>)

lemma release_exclusive: "exclusive (t, locks) \<Longrightarrow> exclusive (t, Release key locks)"
  unfolding exclusive_def Release_def by (auto simp: list_all_iff distinct_map_filter)

lemma refresh_exclusive:
  assumes "exclusive (t, locks)"
    and "list_all (\<lambda>r. LockKey r = LockKey record \<and> LockOwner r = LockOwner record \<longrightarrow> lock_live t r) locks"
  shows "exclusive (t, snd (Refresh record locks))"
  unfolding Refresh_def snd_conv
  by (rule exclusive_map [OF assms(1)]) (use assms(2) in \<open>auto simp: list_all_iff split: if_splits\<close>)

lemma lock_step_exclusive: "lock_step w w' \<Longrightarrow> exclusive w \<Longrightarrow> exclusive w'"
  by (induction rule: lock_step.induct)
    (blast intro: acquire_exclusive release_exclusive refresh_exclusive exclusive_later)+

interpretation leases: step_invariant lock_step no_locks exclusive
proof unfold_locales
  show "no_locks w \<Longrightarrow> exclusive w" for w by (simp add: no_locks_def exclusive_def)
qed (rule lock_step_exclusive)

section \<open>Properties\<close>

text \<open>
  C26. Leases exclude each other across the key migration: along any history of acquisitions, releases
  and in-time refreshes under a clock that does not run backwards, no two live leases are for the
  same forge target unless both are scoped to a project, be their keys legacy or scoped and
  whatever the case of the repository; and there is never more than one lease per key.
\<close>

theorem leases_exclude_each_other:
  assumes "lock_step\<^sup>*\<^sup>* w (t, locks)" "no_locks w" and "r \<in> set locks" "r' \<in> set locks" "r \<noteq> r'"
    and "lock_live t r" "lock_live t r'" and "LockKey r = render k" "LockKey r' = render k'" "proper k" "proper k'"
  shows "\<not> excludes k k' \<and> LockKey r \<noteq> LockKey r'"
proof -
  have e: "exclusive (t, locks)" using leases.reachable_kept assms(1,2) by blast
  then have ne: "LockKey r \<noteq> LockKey r'" using assms(3-5) unfolding exclusive_def by (auto simp: distinct_map inj_on_def)
  then have "\<not> conflicting (LockKey r) (LockKey r')" using e assms(3,4,6,7) unfolding exclusive_def by simp
  then show ?thesis using ne conflicting_render [OF assms(10,11)] assms(8,9) by simp
qed

definition sample_lock :: "string \<Rightarrow> string \<Rightarrow> string \<Rightarrow> LockRecord" where
  "sample_lock key own till = \<lparr>LockKey = key, LockOwner = own, LockReason = None, LockExpiresAt = till,
                              LockCreatedAt = ''1'', LockUpdatedAt = ''1''\<rparr>"

abbreviation legacy_key :: ForgeKey where
  "legacy_key \<equiv> ForgeKey ''pr'' None ''Acme/App'' ''42''"

abbreviation scoped_key :: "string \<Rightarrow> ForgeKey" where
  "scoped_key p \<equiv> ForgeKey ''pr'' (Some p) ''acme/app'' ''42''"

theorem leases_exclude_each_other_witness:
  "\<not> excludes (scoped_key ''one'') (scoped_key ''two'')"
proof -
  let ?a = "sample_lock (render (scoped_key ''one'')) ''a'' ''5''" and ?b = "sample_lock (render (scoped_key ''two'')) ''b'' ''5''"
  have p: "proper (scoped_key ''one'')" "proper (scoped_key ''two'')" by code_simp+
  have s1: "snd (Acquire ''1'' ?a []) = [?a]" by code_simp
  have s2: "snd (Acquire ''1'' ?b [?a]) = [?a, ?b]" by code_simp
  have "lock_step (''1'', []) (''1'', [?a])"
    using lock_step.acquire [of "''1''" "''1''" "scoped_key ''one''" ?a "[]"] p(1) s1 by (simp add: sample_lock_def)
  moreover have "lock_step (''1'', [?a]) (''1'', [?a, ?b])"
    using lock_step.acquire [of "''1''" "''1''" "scoped_key ''two''" ?b "[?a]"] p(2) s2 by (simp add: sample_lock_def)
  ultimately have "lock_step\<^sup>*\<^sup>* (''1'', []) (''1'', [?a, ?b])" by (meson converse_rtranclp_into_rtranclp rtranclp.rtrancl_refl)
  then show ?thesis
    using leases_exclude_each_other [where w = "(''1'', [])" and t = "''1''" and locks = "[?a, ?b]" and r = ?a and r' = ?b
        and k = "scoped_key ''one''" and k' = "scoped_key ''two''"] p
    by (simp add: no_locks_def sample_lock_def lock_live_def)
qed

lemma upsert_absent:
  assumes "\<not> list_ex (\<lambda>r. LockKey r = LockKey new) locks"
  shows "fst (upsert_expired t new locks)"
    "filter (\<lambda>r. LockKey r \<noteq> LockKey new) (snd (upsert_expired t new locks)) = filter (\<lambda>r. LockKey r \<noteq> LockKey new) locks"
    "Get (LockKey new) (snd (upsert_expired t new locks)) = Some new"
proof -
  have "find (\<lambda>r. LockKey r = LockKey new) locks = None"
    using assms by (auto simp: list_ex_iff find_None_iff)
  with assms show "fst (upsert_expired t new locks)"
    "filter (\<lambda>r. LockKey r \<noteq> LockKey new) (snd (upsert_expired t new locks)) = filter (\<lambda>r. LockKey r \<noteq> LockKey new) locks"
    "Get (LockKey new) (snd (upsert_expired t new locks)) = Some new"
    by (simp_all add: upsert_expired_def Get_def find_snoc)
qed

lemma overwrite_others:
  "filter (\<lambda>r. LockKey r \<noteq> LockKey new) (map (\<lambda>x. if LockKey x = LockKey new \<and> \<not> lock_live t x then overwrite new x else x) xs)
    = filter (\<lambda>r. LockKey r \<noteq> LockKey new) xs"
  by (induction xs) (auto simp: overwrite_def)

lemma overwrite_own: "\<exists>r \<in> set xs. LockKey r = LockKey new \<Longrightarrow> \<forall>r \<in> set xs. LockKey r = LockKey new \<longrightarrow> \<not> lock_live t r \<Longrightarrow>
    map_option (\<lambda>r. (LockOwner r, LockExpiresAt r)) (Get (LockKey new)
      (map (\<lambda>x. if LockKey x = LockKey new \<and> \<not> lock_live t x then overwrite new x else x) xs))
    = Some (LockOwner new, LockExpiresAt new)"
  unfolding Get_def by (induction xs) (auto simp: overwrite_def)

lemma upsert_present:
  assumes "distinct (map LockKey locks)" and r: "r \<in> set locks" "LockKey r = LockKey new"
  shows "fst (upsert_expired t new locks) \<longleftrightarrow> \<not> lock_live t r"
    "lock_live t r \<Longrightarrow> snd (upsert_expired t new locks) = locks"
    "filter (\<lambda>r. LockKey r \<noteq> LockKey new) (snd (upsert_expired t new locks)) = filter (\<lambda>r. LockKey r \<noteq> LockKey new) locks"
    "\<not> lock_live t r \<Longrightarrow> map_option (\<lambda>r. (LockOwner r, LockExpiresAt r)) (Get (LockKey new) (snd (upsert_expired t new locks)))
       = Some (LockOwner new, LockExpiresAt new)"
proof -
  have only: "x = r" if "x \<in> set locks" "LockKey x = LockKey new" for x
    using assms that by (metis distinct_map inj_onD)
  have present: "list_ex (\<lambda>r. LockKey r = LockKey new) locks" unfolding list_ex_iff using r by blast
  have taken: "list_ex (\<lambda>r. LockKey r = LockKey new \<and> \<not> lock_live t r) locks \<longleftrightarrow> \<not> lock_live t r"
    unfolding list_ex_iff using r only by blast
  have u: "upsert_expired t new locks = (\<not> lock_live t r,
      map (\<lambda>x. if LockKey x = LockKey new \<and> \<not> lock_live t x then overwrite new x else x) locks)"
    unfolding upsert_expired_def using present taken by simp
  show "fst (upsert_expired t new locks) \<longleftrightarrow> \<not> lock_live t r" unfolding u by simp
  show "lock_live t r \<Longrightarrow> snd (upsert_expired t new locks) = locks" unfolding u using only by (auto intro!: map_idI)
  show "filter (\<lambda>r. LockKey r \<noteq> LockKey new) (snd (upsert_expired t new locks)) = filter (\<lambda>r. LockKey r \<noteq> LockKey new) locks"
    unfolding u snd_conv by (rule overwrite_others)
  show "\<not> lock_live t r \<Longrightarrow> map_option (\<lambda>r. (LockOwner r, LockExpiresAt r)) (Get (LockKey new) (snd (upsert_expired t new locks)))
       = Some (LockOwner new, LockExpiresAt new)"
    unfolding u snd_conv by (rule overwrite_own) (use r only in \<open>blast, metis\<close>)
qed

text \<open>
  C27. An acquisition succeeds exactly when it should: with one row per key, it takes the lease if and
  only if neither the key nor any alias of it has a live lease, and otherwise changes nothing;
  taking it leaves the caller's row and every other row as it was.
\<close>

theorem acquire_exact:
  assumes "distinct (map LockKey locks)"
  shows "fst (Acquire t new locks) = (\<not> list_ex (\<lambda>r. lock_live t r \<and>
       (LockKey r = LockKey new \<or> conflicting (LockKey new) (LockKey r))) locks)
    \<and> (if fst (Acquire t new locks)
       then filter (\<lambda>r. LockKey r \<noteq> LockKey new) (snd (Acquire t new locks)) = filter (\<lambda>r. LockKey r \<noteq> LockKey new) locks
            \<and> map_option (\<lambda>r. (LockOwner r, LockExpiresAt r)) (Get (LockKey new) (snd (Acquire t new locks)))
                = Some (LockOwner new, LockExpiresAt new)
       else snd (Acquire t new locks) = locks)"
proof (cases "blocked_by_alias t new locks")
  case True
  then show ?thesis
    by (auto simp: Acquire_def blocked_by_alias_def conflicting_def list_ex_iff split: option.splits)
next
  case False
  note free = not_blocked [OF False]
  have res: "Acquire t new locks = upsert_expired t new locks" using False by (simp add: Acquire_def)
  show ?thesis
  proof (cases "list_ex (\<lambda>r. LockKey r = LockKey new) locks")
    case absent: False
    then have "\<not> list_ex (\<lambda>r. lock_live t r \<and> (LockKey r = LockKey new \<or> conflicting (LockKey new) (LockKey r))) locks"
      using free by (auto simp: list_ex_iff)
    then show ?thesis unfolding res using upsert_absent [OF absent, of t] by simp
  next
    case True
    then obtain r where r: "r \<in> set locks" "LockKey r = LockKey new" by (auto simp: list_ex_iff)
    then have "list_ex (\<lambda>r. lock_live t r \<and> (LockKey r = LockKey new \<or> conflicting (LockKey new) (LockKey r))) locks
        \<longleftrightarrow> lock_live t r"
      unfolding list_ex_iff using free assms by (metis distinct_map inj_onD)
    then show ?thesis unfolding res using upsert_present [OF assms r, of t] by simp
  qed
qed

theorem acquire_exact_witness:
  "fst (Acquire ''3'' (sample_lock (render (scoped_key ''p'')) ''a'' ''8'')
     [sample_lock (render legacy_key) ''b'' ''2'']) = True"
proof -
  have "\<not> list_ex (\<lambda>r. lock_live ''3'' r \<and> (LockKey r = LockKey (sample_lock (render (scoped_key ''p'')) ''a'' ''8'')
      \<or> conflicting (LockKey (sample_lock (render (scoped_key ''p'')) ''a'' ''8'')) (LockKey r)))
      [sample_lock (render legacy_key) ''b'' ''2'']" by code_simp
  then show ?thesis
    using acquire_exact [of "[sample_lock (render legacy_key) ''b'' ''2'']" "''3''" "sample_lock (render (scoped_key ''p'')) ''a'' ''8''"]
    by simp
qed

text \<open>
  Refreshing does not look at the clock or at aliases: a worker that resumes after its lease ran out
  revives it although another holder took the target under its other key meanwhile.
\<close>

lemma late_refresh_breaks_exclusion:
  "let own = sample_lock (render (scoped_key ''p'')) ''a'' ''2''; other = sample_lock (render legacy_key) ''b'' ''9''
   in exclusive (''3'', [own, other])
      \<and> (case reacquireClaimedLock ''3'' ''8'' (render (scoped_key ''p'')) ''a'' [own, other] of
           (okay, locks) \<Rightarrow> okay \<and> \<not> exclusive (''3'', locks))"
proof -
  let ?own = "sample_lock (render (scoped_key ''p'')) ''a'' ''2''" and ?other = "sample_lock (render legacy_key) ''b'' ''9''"
  let ?new = "?own\<lparr>LockReason := Some ''worker-run-resume'', LockExpiresAt := ''8'', LockUpdatedAt := ''3''\<rparr>"
  have p: "proper (scoped_key ''p'')" "proper legacy_key" by code_simp+
  have "reacquireClaimedLock ''3'' ''8'' (render (scoped_key ''p'')) ''a'' [?own, ?other] = (True, [?new, ?other])"
    by code_simp
  moreover have "conflicting (LockKey ?new) (LockKey ?other) \<and> lock_live ''3'' ?new \<and> lock_live ''3'' ?other
      \<and> LockKey ?new \<noteq> LockKey ?other" by code_simp
  then have "\<not> exclusive (''3'', [?new, ?other])" unfolding exclusive_def by simp
  moreover have "\<not> lock_live ''3'' ?own \<and> distinct (map LockKey [?own, ?other])" by code_simp
  then have "exclusive (''3'', [?own, ?other])"
    using p unfolding exclusive_def forge_row_def by (auto simp: sample_lock_def)
  ultimately show ?thesis by simp
qed

text \<open>Releasing goes by the key alone: it also drops a live lease of another owner.\<close>

lemma release_drops_foreign_lease:
  "Release key [sample_lock key ''b'' ''9''] = []"
  by (simp add: Release_def sample_lock_def)

end
