(* ===== verification/Dispatch.thy ===== *)
theory Dispatch
  imports Labels Dep_Graph
begin

text \<open>
  The coordinator's dispatch decision (\<open>internal/coordinator/dispatch/dispatch.go\<close>): whether an
  issue gets the trigger labels of the planner or the worker, by a human's slash command or, in
  the autonomous mode, by itself after a delay; with the dependency gate of \<open>Dep_Graph\<close>.
  Instants and durations are nanoseconds as integers; an unset instant is \<open>None\<close>.
\<close>

section \<open>Issues, configuration, actions\<close>

record Comment =
  CID :: int
  CAuthor :: string
  CHasWriteAccess :: bool
  CBody :: string

record Issue =
  INumber :: int
  ILabels :: "string list"
  IComments :: "Comment list"
  ITriagedAt :: "int option"

record Config =
  CMode :: string
  CTriagedLabel :: string
  CHoldLabel :: string
  CAutonomousDelay :: int
  CAllowedUsers :: "string list"
  CSlashCommands :: "string list"
  CAssignTo :: string
  CPlannerTriggerLabels :: "string list"
  CWorkerTriggerLabels :: "string list"
  CNamespace :: Namespace

record Action =
  ANoOp :: bool
  ATriggerLabels :: "string list"
  AAssignTo :: string
  AReactionCommentID :: int
  AReactionContent :: string
  AFailureCommentBody :: string

definition ModeAutonomous :: string where
  "ModeAutonomous = ''autonomous''"

definition empty_action :: Action where
  "empty_action = \<lparr>ANoOp = False, ATriggerLabels = [], AAssignTo = [], AReactionCommentID = 0,
                   AReactionContent = [], AFailureCommentBody = []\<rparr>"

definition no_op :: Action where
  "no_op = empty_action\<lparr>ANoOp := True\<rparr>"

section \<open>Slash commands\<close>

definition command_allowed :: "string \<Rightarrow> string list \<Rightarrow> bool" where
  "command_allowed command configured \<longleftrightarrow> command \<in> set (map trim_space configured)"

definition commandBoundary :: "string \<Rightarrow> nat \<Rightarrow> bool" where
  "commandBoundary value index =
     (if length value = index then True else value ! index \<in> {CHR '' '', CHR 0x09, CHR 0x0D})"

definition is_command :: "string list \<Rightarrow> string \<Rightarrow> string \<Rightarrow> bool" where
  "is_command configured trimmed command \<longleftrightarrow> command_allowed command configured
     \<and> has_prefix trimmed command \<and> commandBoundary trimmed (length command)"

definition is_fence :: "string \<Rightarrow> bool" where
  "is_fence trimmed \<longleftrightarrow> has_prefix trimmed (replicate 3 (CHR 0x60)) \<or> has_prefix trimmed ''~~~''"

fun parse_lines :: "string list \<Rightarrow> bool \<Rightarrow> string list \<Rightarrow> string option" where
  "parse_lines configured inFence [] = None"
| "parse_lines configured inFence (line # rest) = (let trimmed = trim_space line in
     if is_fence trimmed then parse_lines configured (\<not> inFence) rest
     else if inFence \<or> has_prefix trimmed ''>'' then parse_lines configured inFence rest
     else if is_command configured trimmed ''/plan'' then Some ''/plan''
     else if is_command configured trimmed ''/implement'' then Some ''/implement''
     else parse_lines configured inFence rest)"

definition ParseSlashCommand :: "string \<Rightarrow> string list \<Rightarrow> string option" where
  "ParseSlashCommand body configured = parse_lines configured False (split_on (CHR 0x0A) body)"

definition isAllowedUser :: "Comment \<Rightarrow> string list \<Rightarrow> bool" where
  "isAllowedUser comment allowedUsers =
     (list_ex (\<lambda>user. equal_fold (trim_space user) (CAuthor comment)) allowedUsers \<or> CHasWriteAccess comment)"

text \<open>The loop from the last comment to the first.\<close>

fun latest_command :: "Comment list \<Rightarrow> string list \<Rightarrow> string list \<Rightarrow> (Comment \<times> string) option" where
  "latest_command [] slashCommands allowedUsers = None"
| "latest_command (comment # earlier) slashCommands allowedUsers =
     (case ParseSlashCommand (CBody comment) slashCommands of
        None \<Rightarrow> latest_command earlier slashCommands allowedUsers
      | Some command \<Rightarrow> if \<not> isAllowedUser comment allowedUsers then latest_command earlier slashCommands allowedUsers
                         else Some (comment, command))"

definition latestCommandAttempt :: "Comment list \<Rightarrow> string list \<Rightarrow> string list \<Rightarrow> (Comment \<times> string) option" where
  "latestCommandAttempt comments = latest_command (rev comments)"

section \<open>Labels\<close>

definition hasLabel :: "string list \<Rightarrow> string \<Rightarrow> bool" where
  "hasLabel itemLabels want = (if trim_space want = [] then False else Has itemLabels want)"

fun single_dispatch :: "Namespace \<Rightarrow> string list \<Rightarrow> string \<Rightarrow> string option" where
  "single_dispatch namespace [] configured = (if configured = [] then None else Some configured)"
| "single_dispatch namespace (label # rest) configured =
     (if \<not> IsConfiguredDispatch namespace label then single_dispatch namespace rest configured
      else if configured \<noteq> [] then None
      else if IsConfiguredDispatchPlan namespace label then single_dispatch namespace rest (DispatchPlan namespace)
      else single_dispatch namespace rest (DispatchImplement namespace))"

definition singleDispatchLabelForNamespace :: "string list \<Rightarrow> Namespace \<Rightarrow> string option" where
  "singleDispatchLabelForNamespace issueLabels namespace = single_dispatch namespace issueLabels []"

definition compactLabels :: "string list \<Rightarrow> string list" where
  "compactLabels ls = filter (\<lambda>l. l \<noteq> []) (map trim_space ls)"

definition missingLabels :: "string list \<Rightarrow> string list \<Rightarrow> string list" where
  "missingLabels existing want = filter (\<lambda>l. \<not> hasLabel existing l) want"

definition triggerLabelsForDispatch :: "string \<Rightarrow> Config \<Rightarrow> string list" where
  "triggerLabelsForDispatch dispatchLabel cfg =
     (let namespace = (if trim_space (NsPrefix (CNamespace cfg)) = [] then DefaultNamespace else CNamespace cfg) in
      if IsConfiguredDispatchPlan namespace dispatchLabel then compactLabels (CPlannerTriggerLabels cfg)
      else if IsConfiguredDispatchImplement namespace dispatchLabel then compactLabels (CWorkerTriggerLabels cfg)
      else [])"

definition commandDispatchLabelForNamespace :: "string \<Rightarrow> Namespace \<Rightarrow> string" where
  "commandDispatchLabelForNamespace command namespace =
     (if command = ''/plan'' then DispatchPlan namespace
      else if command = ''/implement'' then DispatchImplement namespace else [])"

definition autonomousDispatchHeldForNamespace :: "string list \<Rightarrow> string \<Rightarrow> Namespace \<Rightarrow> bool" where
  "autonomousDispatchHeldForNamespace issueLabels legacyHoldLabel namespace =
     (hasLabel issueLabels (HoldGlobal namespace) \<or> hasLabel issueLabels (trim_space legacyHoldLabel))"

section \<open>The failure report\<close>

definition blockerReference :: "Blocker \<Rightarrow> string" where
  "blockerReference b = (let repo = trim_space (BRepo b) in
     if repo \<noteq> [] then repo @ ''#'' @ itoa (BNumber b) else ''#'' @ itoa (BNumber b))"

definition blockerStateReason :: "Blocker \<Rightarrow> string" where
  "blockerStateReason b =
     (if \<not> BReachable b then ''unreachable''
      else if trim_space (BReason b) \<noteq> [] then trim_space (BReason b)
      else if trim_space (BState b) \<noteq> [] then trim_space (BState b)
      else ''unknown'')"

definition dependencyFailureBody :: "Blocker list \<Rightarrow> string" where
  "dependencyFailureBody bs = join [CHR 0x0A]
     (''Coordinator can't dispatch because blocked_by is still unsatisfied:'' #
      map (\<lambda>b. ''- '' @ blockerReference b @ '' ('' @ blockerStateReason b @ '')'') bs)"

definition fail_action :: "Action \<Rightarrow> string \<Rightarrow> Action" where
  "fail_action action body = action\<lparr>ANoOp := True, AReactionContent := ''confused'', AFailureCommentBody := trim_space body\<rparr>"

section \<open>Decisions\<close>

text \<open>The methods of a nil graph find nothing unsatisfied.\<close>

definition unsatisfied_in :: "DependencyGraph option \<Rightarrow> int \<Rightarrow> Blocker list" where
  "unsatisfied_in graph n = (case graph of None \<Rightarrow> [] | Some g \<Rightarrow> Unsatisfied g n)"

definition decideHumanGated :: "Issue \<Rightarrow> Config \<Rightarrow> DependencyGraph option \<Rightarrow> Action" where
  "decideHumanGated issue cfg graph =
     (case latestCommandAttempt (IComments issue) (CSlashCommands cfg) (CAllowedUsers cfg) of
        None \<Rightarrow> no_op
      | Some (comment, command) \<Rightarrow>
        let action = empty_action\<lparr>AReactionCommentID := CID comment\<rparr> in
        if \<not> hasLabel (ILabels issue) (CTriagedLabel cfg)
        then fail_action action ''Coordinator can't dispatch until triage finishes.''
        else case singleDispatchLabelForNamespace (ILabels issue) (CNamespace cfg) of
          None \<Rightarrow> fail_action action ''Coordinator can't dispatch because triage did not set a dispatch label.''
        | Some dispatchLabel \<Rightarrow>
          if \<not> Has [dispatchLabel] (commandDispatchLabelForNamespace command (CNamespace cfg))
          then fail_action action ''Coordinator can't dispatch because the slash command does not match triage.''
          else let triggerLabels = triggerLabelsForDispatch dispatchLabel cfg in
          if triggerLabels = []
          then fail_action action ''Coordinator can't dispatch because the trigger label is not configured.''
          else let missing = missingLabels (ILabels issue) triggerLabels in
          if missing = [] then action\<lparr>ANoOp := True, AReactionContent := ''+1''\<rparr>
          else let bs = unsatisfied_in graph (INumber issue) in
          if bs \<noteq> [] then fail_action action (dependencyFailureBody bs)
          else action\<lparr>AAssignTo := trim_space (CAssignTo cfg), ATriggerLabels := missing, AReactionContent := ''+1''\<rparr>)"

definition triage_settled :: "Issue \<Rightarrow> Config \<Rightarrow> int \<Rightarrow> bool" where
  "triage_settled issue cfg now = (case ITriagedAt issue of
     None \<Rightarrow> False | Some t \<Rightarrow> \<not> now < t + CAutonomousDelay cfg)"

definition decideAutonomous :: "Issue \<Rightarrow> Config \<Rightarrow> int \<Rightarrow> DependencyGraph option \<Rightarrow> Action" where
  "decideAutonomous issue cfg now graph =
     (if \<not> hasLabel (ILabels issue) (CTriagedLabel cfg) then no_op
      else case singleDispatchLabelForNamespace (ILabels issue) (CNamespace cfg) of
        None \<Rightarrow> no_op
      | Some dispatchLabel \<Rightarrow>
        let triggerLabels = triggerLabelsForDispatch dispatchLabel cfg in
        if triggerLabels = [] then no_op
        else if autonomousDispatchHeldForNamespace (ILabels issue) (CHoldLabel cfg) (CNamespace cfg)
                \<or> missingLabels (ILabels issue) triggerLabels = [] then no_op
        else if \<not> triage_settled issue cfg now then no_op
        else if unsatisfied_in graph (INumber issue) \<noteq> [] then no_op
        else empty_action\<lparr>AAssignTo := trim_space (CAssignTo cfg), ATriggerLabels := missingLabels (ILabels issue) triggerLabels\<rparr>)"

definition Decide :: "Issue \<Rightarrow> Config \<Rightarrow> int \<Rightarrow> DependencyGraph option \<Rightarrow> Action" where
  "Decide issue cfg now graph =
     (if CMode cfg = ModeAutonomous then decideAutonomous issue cfg now graph else decideHumanGated issue cfg graph)"

definition humanNeedsDependencyGate :: "Issue \<Rightarrow> Config \<Rightarrow> bool" where
  "humanNeedsDependencyGate issue cfg =
     (case latestCommandAttempt (IComments issue) (CSlashCommands cfg) (CAllowedUsers cfg) of
        None \<Rightarrow> False
      | Some (_, command) \<Rightarrow>
        if \<not> hasLabel (ILabels issue) (CTriagedLabel cfg) then False
        else case singleDispatchLabelForNamespace (ILabels issue) (CNamespace cfg) of
          None \<Rightarrow> False
        | Some dispatchLabel \<Rightarrow>
          if \<not> Has [dispatchLabel] (commandDispatchLabelForNamespace command (CNamespace cfg)) then False
          else let triggerLabels = triggerLabelsForDispatch dispatchLabel cfg in
          if triggerLabels = [] then False
          else missingLabels (ILabels issue) triggerLabels \<noteq> [])"

definition autonomousNeedsDependencyGate :: "Issue \<Rightarrow> Config \<Rightarrow> int \<Rightarrow> bool" where
  "autonomousNeedsDependencyGate issue cfg now =
     (if \<not> hasLabel (ILabels issue) (CTriagedLabel cfg) then False
      else case singleDispatchLabelForNamespace (ILabels issue) (CNamespace cfg) of
        None \<Rightarrow> False
      | Some dispatchLabel \<Rightarrow>
        let triggerLabels = triggerLabelsForDispatch dispatchLabel cfg in
        if triggerLabels = [] \<or> autonomousDispatchHeldForNamespace (ILabels issue) (CHoldLabel cfg) (CNamespace cfg)
           \<or> missingLabels (ILabels issue) triggerLabels = [] then False
        else triage_settled issue cfg now)"

definition NeedsDependencyGate :: "Issue \<Rightarrow> Config \<Rightarrow> int \<Rightarrow> bool" where
  "NeedsDependencyGate issue cfg now =
     (if CMode cfg = ModeAutonomous then autonomousNeedsDependencyGate issue cfg now else humanNeedsDependencyGate issue cfg)"

section \<open>Facts\<close>

lemma unsatisfied_rows_Nil: "unsatisfied_rows rows n = [] \<longleftrightarrow> (\<forall>(issue, bs) \<in> set rows. Number issue = n \<longrightarrow> bs = [])"
  by (induction rows n rule: unsatisfied_rows.induct) auto

lemma unsatisfied_none_released:
  assumes "Unsatisfied (Dep_Graph.Build tracked snapshot) n = []" and "0 < n"
    and r: "r \<in> set (uniqueSortedRefs tracked)" "Number r = n"
  shows "released snapshot r"
proof (rule ccontr)
  assume "\<not> released snapshot r"
  then have "open_blockers snapshot r \<noteq> []" using open_blockers_Nil assms(2) r(2) by simp
  then have "map_of (blockers (Dep_Graph.Build tracked snapshot)) r = Some (open_blockers snapshot r)"
    using r(1) by (simp add: Build_fields)
  then have "(r, open_blockers snapshot r) \<in> set (blockers (Dep_Graph.Build tracked snapshot))" by (rule map_of_SomeD)
  then show False
    using assms(1,2) r(2) \<open>open_blockers snapshot r \<noteq> []\<close> unfolding Unsatisfied_def
    by (auto simp: unsatisfied_rows_Nil split: if_splits)
qed

lemma fail_triggers [simp]: "ATriggerLabels (fail_action a b) = ATriggerLabels a"
  by (simp add: fail_action_def)

lemma empty_triggers [simp]: "ATriggerLabels empty_action = []" "ATriggerLabels no_op = []"
  by (simp_all add: empty_action_def no_op_def)

lemma unsatisfied_in_None [simp]: "unsatisfied_in None n = []"
  by (simp add: unsatisfied_in_def)

lemma fail_graph_free [simp]: "ATriggerLabels (fail_action a b) \<noteq> [] \<longleftrightarrow> ATriggerLabels a \<noteq> []"
  by simp

text \<open>Both decisions in one line each: what is decided before the graph is looked at, and then.\<close>

lemma human_gate:
  "if humanNeedsDependencyGate issue cfg
   then (ATriggerLabels (decideHumanGated issue cfg graph) \<noteq> []) = (unsatisfied_in graph (INumber issue) = [])
   else decideHumanGated issue cfg graph = decideHumanGated issue cfg None
        \<and> ATriggerLabels (decideHumanGated issue cfg graph) = []"
proof (cases "latestCommandAttempt (IComments issue) (CSlashCommands cfg) (CAllowedUsers cfg)")
  case None
  then show ?thesis by (simp add: humanNeedsDependencyGate_def decideHumanGated_def)
next
  case latest: (Some attempt)
  obtain comment command where a: "attempt = (comment, command)" by (cases attempt)
  show ?thesis
  proof (cases "singleDispatchLabelForNamespace (ILabels issue) (CNamespace cfg)")
    case None
    then show ?thesis using latest a by (simp add: humanNeedsDependencyGate_def decideHumanGated_def Let_def)
  next
    case (Some dispatchLabel)
    then show ?thesis using latest a
      by (simp add: humanNeedsDependencyGate_def decideHumanGated_def Let_def)
  qed
qed

lemma autonomous_gate:
  "if autonomousNeedsDependencyGate issue cfg now
   then (ATriggerLabels (decideAutonomous issue cfg now graph) \<noteq> []) = (unsatisfied_in graph (INumber issue) = [])
   else decideAutonomous issue cfg now graph = decideAutonomous issue cfg now None
        \<and> ATriggerLabels (decideAutonomous issue cfg now graph) = []"
proof (cases "singleDispatchLabelForNamespace (ILabels issue) (CNamespace cfg)")
  case None
  then show ?thesis by (simp add: autonomousNeedsDependencyGate_def decideAutonomous_def)
next
  case (Some dispatchLabel)
  then show ?thesis by (simp add: autonomousNeedsDependencyGate_def decideAutonomous_def Let_def)
qed

lemma Decide_None_NeedsDependencyGate:
  assumes "ATriggerLabels (Decide issue cfg now graph) \<noteq> []"
  shows "NeedsDependencyGate issue cfg now" "unsatisfied_in graph (INumber issue) = []"
    "hasLabel (ILabels issue) (CTriagedLabel cfg)"
proof -
  show gate: "NeedsDependencyGate issue cfg now"
    using assms human_gate [of issue cfg graph] autonomous_gate [of issue cfg now graph]
    by (auto simp: NeedsDependencyGate_def Decide_def split: if_splits)
  then show "unsatisfied_in graph (INumber issue) = []"
    using assms human_gate [of issue cfg graph] autonomous_gate [of issue cfg now graph]
    by (auto simp: NeedsDependencyGate_def Decide_def split: if_splits)
  show "hasLabel (ILabels issue) (CTriagedLabel cfg)"
    using gate by (auto simp: NeedsDependencyGate_def autonomousNeedsDependencyGate_def humanNeedsDependencyGate_def
        split: if_splits option.splits)
qed

lemma human_triggers:
  "ATriggerLabels (decideHumanGated issue cfg graph) \<noteq> [] \<Longrightarrow>
   \<exists>d. singleDispatchLabelForNamespace (ILabels issue) (CNamespace cfg) = Some d
     \<and> ATriggerLabels (decideHumanGated issue cfg graph) = missingLabels (ILabels issue) (triggerLabelsForDispatch d cfg)"
  unfolding decideHumanGated_def Let_def
  by (cases "latestCommandAttempt (IComments issue) (CSlashCommands cfg) (CAllowedUsers cfg)";
      cases "singleDispatchLabelForNamespace (ILabels issue) (CNamespace cfg)") (simp_all add: case_prod_beta del: Has.simps split: if_splits)

lemma autonomous_triggers:
  "ATriggerLabels (decideAutonomous issue cfg now graph) \<noteq> [] \<Longrightarrow>
   \<exists>d. singleDispatchLabelForNamespace (ILabels issue) (CNamespace cfg) = Some d
     \<and> ATriggerLabels (decideAutonomous issue cfg now graph) = missingLabels (ILabels issue) (triggerLabelsForDispatch d cfg)"
  unfolding decideAutonomous_def Let_def
  by (cases "singleDispatchLabelForNamespace (ILabels issue) (CNamespace cfg)") (simp_all split: if_splits)

lemma Decide_triggers_missing:
  "l \<in> set (ATriggerLabels (Decide issue cfg now graph)) \<Longrightarrow> \<not> hasLabel (ILabels issue) l"
proof -
  assume l: "l \<in> set (ATriggerLabels (Decide issue cfg now graph))"
  then have "ATriggerLabels (Decide issue cfg now graph) \<noteq> []" by auto
  then obtain d where "ATriggerLabels (Decide issue cfg now graph) = missingLabels (ILabels issue) (triggerLabelsForDispatch d cfg)"
    using human_triggers [of issue cfg graph] autonomous_triggers [of issue cfg now graph] unfolding Decide_def
    by (metis (full_types))
  then show ?thesis using l by (simp add: missingLabels_def)
qed

section \<open>Where a slash command stands\<close>

definition fences :: "string list \<Rightarrow> nat" where
  "fences ls = length (filter (\<lambda>l. is_fence (trim_space l)) ls)"

text \<open>A line that is read: not a fence, outside every fenced block, not quoted.\<close>

definition plain_at :: "bool \<Rightarrow> string list \<Rightarrow> nat \<Rightarrow> bool" where
  "plain_at inFence ls i \<longleftrightarrow> i < length ls \<and> inFence = odd (fences (take i ls)) \<and> \<not> is_fence (trim_space (ls ! i))
     \<and> \<not> has_prefix (trim_space (ls ! i)) ''>''"

lemma fences_simps [simp]: "fences [] = 0" "fences (l # ls) = (if is_fence (trim_space l) then Suc (fences ls) else fences ls)"
  by (simp_all add: fences_def)

definition reads_command :: "string list \<Rightarrow> string \<Rightarrow> string \<Rightarrow> bool" where
  "reads_command configured line command \<longleftrightarrow>
     (command = ''/plan'' \<and> is_command configured (trim_space line) ''/plan''
      \<or> command = ''/implement'' \<and> is_command configured (trim_space line) ''/implement'')"

lemma reads_command_unique: "reads_command configured line c \<Longrightarrow> reads_command configured line c' \<Longrightarrow> c = c'"
  by (auto simp: reads_command_def is_command_def prefix_def)

lemma plain_at_Suc: "plain_at inFence (l # ls) (Suc i) = plain_at (if is_fence (trim_space l) then \<not> inFence else inFence) ls i"
  by (auto simp: plain_at_def)

lemma plain_at_0: "plain_at inFence (l # ls) 0
    \<longleftrightarrow> \<not> inFence \<and> \<not> is_fence (trim_space l) \<and> \<not> has_prefix (trim_space l) ''>''"
  by (auto simp: plain_at_def)

text \<open>The first plain line that carries a configured command.\<close>

definition first_command :: "string list \<Rightarrow> bool \<Rightarrow> string list \<Rightarrow> string \<Rightarrow> nat \<Rightarrow> bool" where
  "first_command configured inFence ls c i \<longleftrightarrow> plain_at inFence ls i \<and> reads_command configured (ls ! i) c
     \<and> (\<forall>j < i. plain_at inFence ls j \<longrightarrow> (\<forall>c'. \<not> reads_command configured (ls ! j) c'))"

lemma first_command_Nil [simp]: "\<not> first_command configured inFence [] c i"
  by (simp add: first_command_def plain_at_def)

lemma first_command_0: "first_command configured inFence (l # ls) c 0
    \<longleftrightarrow> plain_at inFence (l # ls) 0 \<and> reads_command configured l c"
  by (simp add: first_command_def)

lemma first_command_Suc: "first_command configured inFence (l # ls) c (Suc i)
    \<longleftrightarrow> first_command configured (if is_fence (trim_space l) then \<not> inFence else inFence) ls c i
      \<and> \<not> (plain_at inFence (l # ls) 0 \<and> (\<exists>c'. reads_command configured l c'))"
proof -
  have split: "(\<forall>j < Suc i. P j) \<longleftrightarrow> P 0 \<and> (\<forall>j < i. P (Suc j))" for P :: "nat \<Rightarrow> bool"
    using less_Suc_eq_0_disj by auto
  show ?thesis unfolding first_command_def split by (auto simp: plain_at_Suc)
qed

lemma ex_nat_split: "(\<exists>i. P i) \<longleftrightarrow> P 0 \<or> (\<exists>i. P (Suc i))" for P :: "nat \<Rightarrow> bool"
  by (metis not0_implies_Suc)

lemma first_command_Cons: "(\<exists>i. first_command configured inFence (l # ls) c i) \<longleftrightarrow>
    (if plain_at inFence (l # ls) 0 \<and> (\<exists>c'. reads_command configured l c') then reads_command configured l c
     else \<exists>i. first_command configured (if is_fence (trim_space l) then \<not> inFence else inFence) ls c i)"
  by (subst ex_nat_split) (auto simp: first_command_0 first_command_Suc)

lemma reads_some: "(\<exists>c'. reads_command configured l c')
    \<longleftrightarrow> is_command configured (trim_space l) ''/plan'' \<or> is_command configured (trim_space l) ''/implement''"
  by (auto simp: reads_command_def)

lemma parse_lines_exact: "parse_lines configured inFence ls = Some c \<longleftrightarrow> (\<exists>i. first_command configured inFence ls c i)"
proof (induction configured inFence ls rule: parse_lines.induct)
  case (1 configured inFence)
  then show ?case by simp
next
  case (2 configured inFence line rest)
  have both: "\<not> (is_command configured (trim_space line) ''/plan'' \<and> is_command configured (trim_space line) ''/implement'')"
    by (auto simp: is_command_def prefix_def)
  show ?case
    using 2 both by (auto simp: first_command_Cons plain_at_0 reads_some Let_def) (auto simp: reads_command_def)
qed

section \<open>Properties\<close>

text \<open>
  The coordinator may skip loading the dependency graph exactly when it says so: if the gate is not
  needed, the decision is the same for every graph; if it is needed, trigger labels are set
  exactly when the graph names no unsatisfied blocker of the issue.
\<close>

theorem dependency_gate_needed_exactly:
  "if NeedsDependencyGate issue cfg now
   then (ATriggerLabels (Decide issue cfg now graph) \<noteq> []) = (unsatisfied_in graph (INumber issue) = [])
   else Decide issue cfg now graph = Decide issue cfg now None"
  using human_gate [of issue cfg graph] autonomous_gate [of issue cfg now graph]
  by (auto simp: NeedsDependencyGate_def Decide_def split: if_splits)

text \<open>
  A comment asks for a command exactly if one of its lines carries a configured command at its
  start, followed by nothing, a blank or a tab, and that line is outside every fenced block and is
  not quoted; the first such line decides.
\<close>

theorem slash_command_exact:
  "ParseSlashCommand body configured = Some c
     \<longleftrightarrow> (\<exists>i. first_command configured False (split_on (CHR 0x0A) body) c i)"
  unfolding ParseSlashCommand_def by (rule parse_lines_exact)

end
