(* ===== verification/Dispatch_Pass.thy ===== *)
theory Dispatch_Pass
  imports Dispatch
begin

text \<open>
  A dispatch pass of the coordinator (\<open>internal/coordinator/runner.go\<close>): which of the loaded issues
  the dependency gate tracks, the snapshot of their blockers as the forge lists them, and the actions
  decided for the issues of the pass. The forge's answers are arguments: the blockers listed for an
  issue number, which may fail, and the state of a blocker listed without one. Order,
  budget and application of the actions are not modelled.
\<close>

section \<open>Tracked issues\<close>

definition hasExactLabel :: "string list \<Rightarrow> string \<Rightarrow> bool" where
  "hasExactLabel labels want = list_ex (\<lambda>label. label = want) labels"

definition removeExistingLabels :: "string list \<Rightarrow> string list \<Rightarrow> string list" where
  "removeExistingLabels labels existing = filter (\<lambda>label. \<not> hasExactLabel existing label) labels"

definition issueDispatchLabelForNamespace :: "string list \<Rightarrow> Namespace \<Rightarrow> string option" where
  "issueDispatchLabelForNamespace issueLabels namespace = single_dispatch namespace issueLabels []"

definition configuredTriggerLabels :: "string \<Rightarrow> Config \<Rightarrow> string list" where
  "configuredTriggerLabels dispatchLabel cfg =
     (if IsConfiguredDispatchPlan (CNamespace cfg) dispatchLabel then CPlannerTriggerLabels cfg
      else if IsConfiguredDispatchImplement (CNamespace cfg) dispatchLabel then CWorkerTriggerLabels cfg
      else [])"

definition dependencyTrackedIssue :: "string list \<Rightarrow> string \<Rightarrow> Config \<Rightarrow> bool" where
  "dependencyTrackedIssue issueLabels triagedLabel cfg =
     (if \<not> hasExactLabel issueLabels triagedLabel then False
      else case issueDispatchLabelForNamespace issueLabels (CNamespace cfg) of
        None \<Rightarrow> False
      | Some dispatchLabel \<Rightarrow>
        let triggerLabels = configuredTriggerLabels dispatchLabel cfg in
        if triggerLabels = [] then False else removeExistingLabels triggerLabels issueLabels \<noteq> [])"

definition normalizeDependencyRepo :: "string \<Rightarrow> string" where
  "normalizeDependencyRepo repo0 = (let
       slash = (\<lambda>c. c = CHR ''/'');
       repo = rev (dropWhile slash (rev (dropWhile slash (trim_space repo0))));
       parts = split_on (CHR ''/'') repo
     in if length parts \<ge> 3 then join ''/'' (drop (length parts - 2) parts) else repo)"

section \<open>The snapshot\<close>

record DependencyIssue =
  DiNumber :: int
  DiRepo :: string
  DiState :: string
  DiReason :: string

definition dependencyIssueRef :: "string \<Rightarrow> DependencyIssue \<Rightarrow> IssueRef" where
  "dependencyIssueRef defaultRepo issue = (let repo = trim_space (DiRepo issue) in
     IssueRef (normalizeDependencyRepo (if repo = [] then defaultRepo else repo)) (DiNumber issue))"

record loadedIssue =
  LdIssue :: Issue
  LdState :: IssueState

type_synonym blocker_lists = "int \<Rightarrow> DependencyIssue list option"
type_synonym issue_states = "IssueRef \<Rightarrow> IssueState option"

text \<open>\<open>loadBlockerState\<close>, from the forge's answer after the retries; \<open>None\<close> is an unreachable blocker.\<close>

definition loadBlockerState :: "issue_states \<Rightarrow> IssueRef \<Rightarrow> IssueState option" where
  "loadBlockerState getState ref = map_option (\<lambda>st. \<lparr>IState = to_lower (trim_space (IState st)),
     IReason = to_lower (trim_space (IReason st))\<rparr>) (getState ref)"

text \<open>One blocker: listed for the issue, and its state noted, looked up when the listing has none.\<close>

definition add_blocker :: "issue_states \<Rightarrow> string \<Rightarrow> IssueRef \<Rightarrow> DependencyIssue \<Rightarrow> Snapshot \<Rightarrow> Snapshot" where
  "add_blocker getState repo ref blocker snapshot = (let
       blockerRef = dependencyIssueRef repo blocker;
       stateInfo = \<lparr>IState = to_lower (trim_space (DiState blocker)), IReason = to_lower (trim_space (DiReason blocker))\<rparr>;
       st = (if IState stateInfo = []
         then (case loadBlockerState getState blockerRef of Some resolved \<Rightarrow> resolved | None \<Rightarrow> stateInfo)
         else stateInfo)
     in snapshot\<lparr>SBlockedBy := put ref (deps_at (SBlockedBy snapshot) ref @ [blockerRef]) (SBlockedBy snapshot),
          SIssues := put blockerRef st (SIssues snapshot)\<rparr>)"

fun scan_loaded :: "blocker_lists \<Rightarrow> issue_states \<Rightarrow> string \<Rightarrow> string \<Rightarrow> Config \<Rightarrow> loadedIssue list
    \<Rightarrow> Snapshot \<times> (int \<times> IssueRef) list \<Rightarrow> (Snapshot \<times> (int \<times> IssueRef) list) option" where
  "scan_loaded listBlockedBy getState repo triagedLabel cfg [] acc = Some acc"
| "scan_loaded listBlockedBy getState repo triagedLabel cfg (item # loaded) (snapshot, tracked) =
     (let number = INumber (LdIssue item); ref = IssueRef (normalizeDependencyRepo repo) number in
      if \<not> dependencyTrackedIssue (ILabels (LdIssue item)) triagedLabel cfg
      then scan_loaded listBlockedBy getState repo triagedLabel cfg loaded (snapshot, tracked)
      else (case listBlockedBy number of
          None \<Rightarrow> None
        | Some found \<Rightarrow> scan_loaded listBlockedBy getState repo triagedLabel cfg loaded
            (fold (add_blocker getState repo ref) found
               (snapshot\<lparr>SIssues := put ref (LdState item) (SIssues snapshot)\<rparr>),
             tracked @ [(number, ref)])))"

definition no_snapshot :: Snapshot where
  "no_snapshot = \<lparr>SBlockedBy = [], SIssues = [], SUnreachable = []\<rparr>"

section \<open>The state of the gate\<close>

record dependencyState =
  DsEnabled :: bool
  DsGraph :: DependencyGraph
  DsReady :: "IssueRef list"
  DsTracked :: "(int \<times> IssueRef) list"
  DsRetriage :: "int list"

definition no_dependencies :: "bool \<Rightarrow> dependencyState" where
  "no_dependencies enabled = \<lparr>DsEnabled = enabled, DsGraph = \<lparr>readySet = [], cycles = [], unreachable = [], blockers = []\<rparr>,
     DsReady = [], DsTracked = [], DsRetriage = []\<rparr>"

text \<open>Issues on a cycle, and issues one of whose blockers was closed without being done.\<close>

definition retriage_numbers :: "DependencyGraph \<Rightarrow> IssueRef list \<Rightarrow> int list" where
  "retriage_numbers graph refs = map Number (concat (map butlast (cycles graph)))
     @ map Number (filter (\<lambda>ref. list_ex BRequiresReTriage (BlockersOf graph ref)) refs)"

definition buildDependencyState :: "blocker_lists \<Rightarrow> issue_states \<Rightarrow> bool \<Rightarrow> string \<Rightarrow> string \<Rightarrow> Config
    \<Rightarrow> loadedIssue list \<Rightarrow> dependencyState option" where
  "buildDependencyState listBlockedBy getState enabled repo triagedLabel cfg loaded =
     (if \<not> enabled then Some (no_dependencies False)
      else (case scan_loaded listBlockedBy getState repo triagedLabel cfg loaded (no_snapshot, []) of
          None \<Rightarrow> None
        | Some (snapshot, tracked) \<Rightarrow>
            (if tracked = [] then Some (no_dependencies True)
             else (let graph = Build (map snd tracked) snapshot in
               Some \<lparr>DsEnabled = True, DsGraph = graph, DsReady = readySet graph, DsTracked = tracked,
                 DsRetriage = retriage_numbers graph (map snd tracked)\<rparr>))))"

section \<open>The decisions of a pass\<close>

definition dependencyFailureCommentBody :: "Blocker list \<Rightarrow> string" where
  "dependencyFailureCommentBody bs = (let
       state = (\<lambda>b. if BUnreachable b then ''unreachable'' else if trim_space (BReason b) \<noteq> [] then BReason b
          else if trim_space (BState b) = [] then ''blocking'' else BState b);
       parts = map (\<lambda>b. IssueRef_String (BIssue b) @ '' ('' @ state b @ '')'') bs
     in if parts = [] then ''Coordinator can't dispatch until the dependency gate releases.''
        else ''Coordinator can't dispatch until the dependency gate releases. Blocked by: '' @ join '', '' parts @ ''.'')"

definition applyHumanDependencyGate :: "Action \<Rightarrow> int \<Rightarrow> dependencyState \<Rightarrow> Action" where
  "applyHumanDependencyGate action issueNumber deps =
     (if \<not> DsEnabled deps \<or> AReactionCommentID action = 0 \<or> ATriggerLabels action = []
         \<or> trim_space (AFailureCommentBody action) \<noteq> [] then action
      else (case map_of (DsTracked deps) issueNumber of
          None \<Rightarrow> action
        | Some ref \<Rightarrow> (if ref \<in> set (DsReady deps) then action
            else action\<lparr>ANoOp := True, ATriggerLabels := [], AAssignTo := [], AReactionContent := ''confused'',
              AFailureCommentBody := dependencyFailureCommentBody (BlockersOf (DsGraph deps) ref)\<rparr>)))"

definition hasDispatchWork :: "Action \<Rightarrow> bool" where
  "hasDispatchWork action \<longleftrightarrow> AReactionCommentID action \<noteq> 0 \<or> ATriggerLabels action \<noteq> [] \<or> AFailureCommentBody action \<noteq> []"

definition intersectExactLabels :: "string list \<Rightarrow> string list \<Rightarrow> string list" where
  "intersectExactLabels left right = filter (\<lambda>label. label \<in> set right) left"

definition workerAdmissionIntent :: "Issue \<Rightarrow> Action \<Rightarrow> Config \<Rightarrow> string list option" where
  "workerAdmissionIntent issue action cfg = (let desired = CWorkerTriggerLabels cfg in
     if desired = [] then None
     else if intersectExactLabels (ATriggerLabels action) desired \<noteq> [] then Some desired
     else if IsDispatchPlanForLabels (CNamespace cfg) (ILabels issue) then None
     else if intersectExactLabels (ILabels issue) desired \<noteq> [] then Some desired
     else None)"

text \<open>The issues with work, each with its action: applied one by one, or candidates for the budget.\<close>

definition human_dispatches :: "Config \<Rightarrow> int \<Rightarrow> dependencyState \<Rightarrow> loadedIssue list \<Rightarrow> (Issue \<times> Action) list" where
  "human_dispatches cfg now deps loaded = filter
     (\<lambda>(i, a). hasDispatchWork a \<or> workerAdmissionIntent i a cfg \<noteq> None)
     (map (\<lambda>i. (i, applyHumanDependencyGate (Decide i cfg now (Some (DsGraph deps))) (INumber i) deps))
       (filter (\<lambda>i. INumber i \<notin> set (DsRetriage deps)) (map LdIssue loaded)))"

definition autonomous_candidates :: "Config \<Rightarrow> int \<Rightarrow> dependencyState \<Rightarrow> loadedIssue list \<Rightarrow> (Issue \<times> Action) list" where
  "autonomous_candidates cfg now deps loaded = filter
     (\<lambda>(i, a). trim_space (AFailureCommentBody a) = []
        \<and> (hasDispatchWork a \<or> workerAdmissionIntent i a cfg \<noteq> None)
        \<and> (DsEnabled deps \<longrightarrow> (case map_of (DsTracked deps) (INumber i) of
             None \<Rightarrow> True | Some ref \<Rightarrow> ref \<in> set (DsReady deps))))
     (map (\<lambda>i. (i, Decide i cfg now (Some (DsGraph deps))))
       (filter (\<lambda>i. INumber i \<notin> set (DsRetriage deps)) (map LdIssue loaded)))"

definition applyDispatches :: "Config \<Rightarrow> int \<Rightarrow> dependencyState \<Rightarrow> loadedIssue list \<Rightarrow> (Issue \<times> Action) list" where
  "applyDispatches cfg now deps loaded =
     (if CMode cfg = ModeAutonomous then autonomous_candidates cfg now deps loaded
      else human_dispatches cfg now deps loaded)"

section \<open>What is decided is tracked\<close>

lemma dispatch_label_agrees:
  "issueDispatchLabelForNamespace ls n = singleDispatchLabelForNamespace ls n"
  by (simp add: issueDispatchLabelForNamespace_def singleDispatchLabelForNamespace_def)

lemma blank_namespace:
  assumes "trim_space (NsPrefix n) = []"
  shows "IsConfiguredDispatchPlan DefaultNamespace = IsConfiguredDispatchPlan n"
    and "IsConfiguredDispatchImplement DefaultNamespace = IsConfiguredDispatchImplement n"
proof -
  have "ns_normalized DefaultNamespace = DefaultNamespace" by code_simp
  moreover have "ns_normalized n = DefaultNamespace" using assms by (simp add: ns_normalized_def)
  ultimately have "Label DefaultNamespace suf = Label n suf" for suf by (simp only: Label_def)
  then show "IsConfiguredDispatchPlan DefaultNamespace = IsConfiguredDispatchPlan n"
    "IsConfiguredDispatchImplement DefaultNamespace = IsConfiguredDispatchImplement n"
    by (simp_all add: fun_eq_iff IsConfiguredDispatchPlan_def IsConfiguredDispatchImplement_def
        DispatchPlan_def DispatchImplement_def)
qed

lemma triggers_configured:
  "triggerLabelsForDispatch d cfg = compactLabels (configuredTriggerLabels d cfg)"
  by (simp add: triggerLabelsForDispatch_def configuredTriggerLabels_def Let_def blank_namespace compactLabels_def)

lemma missing_not_carried:
  assumes "missingLabels existing (compactLabels want) \<noteq> []"
  shows "removeExistingLabels want existing \<noteq> []"
proof -
  obtain t where "t \<in> set (compactLabels want)" "\<not> hasLabel existing t"
    using assms by (auto simp: missingLabels_def filter_empty_conv)
  then obtain r where r: "r \<in> set want" "trim_space r \<noteq> []" "\<not> Has existing (trim_space r)"
    by (auto simp: compactLabels_def hasLabel_def split: if_splits)
  then have "r \<notin> set existing" using Has_member by blast
  with r(1) show ?thesis by (auto simp: removeExistingLabels_def hasExactLabel_def filter_empty_conv list_ex_iff)
qed

lemma decided_label:
  assumes "ATriggerLabels (Decide i cfg now graph) \<noteq> []"
  obtains d where "singleDispatchLabelForNamespace (ILabels i) (CNamespace cfg) = Some d"
    and "ATriggerLabels (Decide i cfg now graph) = missingLabels (ILabels i) (triggerLabelsForDispatch d cfg)"
  using assms human_triggers [of i cfg graph] autonomous_triggers [of i cfg now graph]
  by (auto simp: Decide_def split: if_splits)

lemma decided_tracked:
  assumes d: "ATriggerLabels (Decide i cfg now graph) \<noteq> []" and "CTriagedLabel cfg \<in> set (ILabels i)"
  shows "dependencyTrackedIssue (ILabels i) (CTriagedLabel cfg) cfg"
proof -
  obtain l where l: "singleDispatchLabelForNamespace (ILabels i) (CNamespace cfg) = Some l"
    "missingLabels (ILabels i) (triggerLabelsForDispatch l cfg) \<noteq> []"
    using d by (rule decided_label) (use d in simp)
  from missing_not_carried [OF l(2) [unfolded triggers_configured]]
  have "removeExistingLabels (configuredTriggerLabels l cfg) (ILabels i) \<noteq> []" .
  moreover from this have "configuredTriggerLabels l cfg \<noteq> []" by (auto simp: removeExistingLabels_def)
  ultimately show ?thesis
    using assms(2) l(1) by (simp add: dependencyTrackedIssue_def dispatch_label_agrees hasExactLabel_def list_ex_iff Let_def)
qed

section \<open>What the snapshot lists\<close>

lemma add_blocker_deps:
  "set (deps_at (SBlockedBy (add_blocker getState repo ref b s)) k)
    = set (deps_at (SBlockedBy s) k) \<union> (if k = ref then {dependencyIssueRef repo b} else {})"
  by (simp add: add_blocker_def Let_def)

lemma add_blockers_deps:
  "set (deps_at (SBlockedBy (fold (add_blocker getState repo ref) bs s)) k)
    = set (deps_at (SBlockedBy s) k) \<union> (if k = ref then dependencyIssueRef repo ` set bs else {})"
  by (induction bs arbitrary: s) (auto simp: add_blocker_deps)

abbreviation own_ref :: "string \<Rightarrow> int \<Rightarrow> IssueRef" where
  "own_ref repo n \<equiv> IssueRef (normalizeDependencyRepo repo) n"

lemma scan_loaded_grows:
  assumes "scan_loaded blocked getState repo triaged cfg loaded (s0, t0) = Some (s, t)"
  shows "set t0 \<subseteq> set t \<and> set (deps_at (SBlockedBy s0) k) \<subseteq> set (deps_at (SBlockedBy s) k)"
  using assms
proof (induction loaded arbitrary: s0 t0)
  case (Cons x xs)
  then show ?case
    by (fastforce simp: Let_def add_blockers_deps split: if_splits option.splits)
qed simp

lemma scan_loaded_lists:
  assumes "scan_loaded blocked getState repo triaged cfg loaded (s0, t0) = Some (s, t)"
    and "item \<in> set loaded" and "dependencyTrackedIssue (ILabels (LdIssue item)) triaged cfg"
  shows "(INumber (LdIssue item), own_ref repo (INumber (LdIssue item))) \<in> set t
      \<and> (\<exists>bs. blocked (INumber (LdIssue item)) = Some bs \<and>
          dependencyIssueRef repo ` set bs \<subseteq> set (deps_at (SBlockedBy s) (own_ref repo (INumber (LdIssue item)))))"
  using assms
proof (induction loaded arbitrary: s0 t0)
  case (Cons x xs)
  let ?n = "INumber (LdIssue x)"
  show ?case
  proof (cases "dependencyTrackedIssue (ILabels (LdIssue x)) triaged cfg")
    case False
    with Cons show ?thesis by (auto simp: Let_def)
  next
    case True
    with Cons.prems(1) obtain bs where b: "blocked ?n = Some bs"
      and r: "scan_loaded blocked getState repo triaged cfg xs
        (fold (add_blocker getState repo (own_ref repo ?n)) bs (s0\<lparr>SIssues := put (own_ref repo ?n) (LdState x) (SIssues s0)\<rparr>),
         t0 @ [(?n, own_ref repo ?n)]) = Some (s, t)"
      by (auto simp: Let_def split: option.splits)
    show ?thesis
    proof (cases "item = x")
      case True
      have "dependencyIssueRef repo ` set bs \<subseteq> set (deps_at (SBlockedBy s) (own_ref repo ?n))"
        using scan_loaded_grows [OF r, of "own_ref repo ?n"] by (auto simp: add_blockers_deps)
      with True b scan_loaded_grows [OF r] show ?thesis by auto
    next
      case False
      with Cons.prems(2,3) Cons.IH [OF r] show ?thesis by simp
    qed
  qed
qed simp

lemma dep_listed:
  assumes "d \<in> set (deps_at (SBlockedBy s) k)" and "0 < Number d"
  shows "normalizeRef d \<in> set (listed_deps s (normalizeRef k))"
proof -
  obtain ds where "map_of (SBlockedBy s) k = Some ds" "d \<in> set ds"
    using assms(1) by (cases "map_of (SBlockedBy s) k") (auto simp: deps_at_def)
  then have "(k, ds) \<in> set (SBlockedBy s)" "d \<in> set ds" by (auto dest: map_of_SomeD)
  with assms(2) show ?thesis by (force simp: listed_deps_def)
qed

lemma Number_dependencyIssueRef [simp]: "Number (dependencyIssueRef repo b) = DiNumber b"
  by (simp add: dependencyIssueRef_def Let_def)

lemma completed_normalizeRef [simp]: "completed s (normalizeRef d) = completed s d"
  by (simp add: completed_def listed_state_def)

section \<open>Properties\<close>

lemma pass_decides:
  assumes "(i, a) \<in> set (applyDispatches cfg now deps loaded)" and "ATriggerLabels a \<noteq> []"
  shows "i \<in> LdIssue ` set loaded" and "ATriggerLabels (Decide i cfg now (Some (DsGraph deps))) = ATriggerLabels a"
    and "INumber i \<notin> set (DsRetriage deps)"
  using assms by (auto simp: applyDispatches_def human_dispatches_def autonomous_candidates_def
      applyHumanDependencyGate_def split: if_splits option.splits)

lemma gate_graph:
  assumes "buildDependencyState blocked getState True repo triaged cfg loaded = Some deps"
    and "item \<in> set loaded" and "dependencyTrackedIssue (ILabels (LdIssue item)) triaged cfg"
  obtains s t where "scan_loaded blocked getState repo triaged cfg loaded (no_snapshot, []) = Some (s, t)"
    and "DsGraph deps = Dep_Graph.Build (map snd t) s"
proof -
  obtain s t where st: "scan_loaded blocked getState repo triaged cfg loaded (no_snapshot, []) = Some (s, t)"
    using assms(1) by (auto simp: buildDependencyState_def split: option.splits)
  from scan_loaded_lists [OF st assms(2,3)] have "t \<noteq> []" by auto
  with assms(1) st have "DsGraph deps = Dep_Graph.Build (map snd t) s"
    by (auto simp: buildDependencyState_def Let_def)
  with st that show thesis by blast
qed

text \<open>
  C39. No issue is handed to the planner or the worker ahead of its dependencies: when a pass with the
  dependency gate on decides trigger labels for a loaded issue that carries the triaged label as it
  is configured, the forge's list of its blockers was read in that pass, every blocker of the list
  (an entry without a positive number is ignored) is, by the last state the pass noted for it, closed as completed, the issue is not up for
  triage again, and it lacks each of the labels. (An issue that carries the triaged label in another
  spelling is not tracked; see \<open>respelled_label_ungated\<close>.)
\<close>

theorem dispatch_waits_for_blockers:
  assumes "buildDependencyState listBlockedBy getState True repo (CTriagedLabel cfg) cfg loaded = Some deps"
    and "(i, a) \<in> set (applyDispatches cfg now deps loaded)" and "ATriggerLabels a \<noteq> []"
    and "CTriagedLabel cfg \<in> set (ILabels i)" and "0 < INumber i"
  shows "(\<exists>snapshot tracked found.
      scan_loaded listBlockedBy getState repo (CTriagedLabel cfg) cfg loaded (no_snapshot, []) = Some (snapshot, tracked)
      \<and> listBlockedBy (INumber i) = Some found
      \<and> (\<forall>b \<in> set found. 0 < DiNumber b \<longrightarrow> completed snapshot (dependencyIssueRef repo b)))
    \<and> INumber i \<notin> set (DsRetriage deps)
    \<and> (\<forall>l \<in> set (ATriggerLabels a). \<not> hasLabel (ILabels i) l)"
proof -
  note p = pass_decides [OF assms(2,3)]
  have d: "ATriggerLabels (Decide i cfg now (Some (DsGraph deps))) \<noteq> []" using p(2) assms(3) by simp
  note tracked = decided_tracked [OF d assms(4)]
  obtain item where item: "item \<in> set loaded" "LdIssue item = i" using p(1) by blast
  obtain s t where st: "scan_loaded listBlockedBy getState repo (CTriagedLabel cfg) cfg loaded (no_snapshot, []) = Some (s, t)"
    and g: "DsGraph deps = Dep_Graph.Build (map snd t) s"
    using gate_graph [OF assms(1) item(1)] tracked item(2) by blast
  obtain bs where ref: "(INumber i, own_ref repo (INumber i)) \<in> set t" and bs: "listBlockedBy (INumber i) = Some bs"
    "dependencyIssueRef repo ` set bs \<subseteq> set (deps_at (SBlockedBy s) (own_ref repo (INumber i)))"
    using scan_loaded_lists [OF st item(1)] tracked item(2) by blast
  have "Unsatisfied (Dep_Graph.Build (map snd t) s) (INumber i) = []"
    using Decide_None_NeedsDependencyGate(2) [OF d] by (simp add: unsatisfied_in_def g)
  moreover have "normalizeRef (own_ref repo (INumber i)) \<in> set (uniqueSortedRefs (map snd t))"
    using ref assms(5) by (force simp: uniqueSortedRefs_set)
  ultimately have "released s (normalizeRef (own_ref repo (INumber i)))"
    using unsatisfied_none_released assms(5) by simp
  then have "completed s (dependencyIssueRef repo b)" if "b \<in> set bs" "0 < DiNumber b" for b
    using dep_listed [of "dependencyIssueRef repo b" s "own_ref repo (INumber i)"] bs(2) that
    by (auto simp: released_def list_all_iff image_subset_iff)
  then show ?thesis using st bs(1) p(2,3) Decide_triggers_missing by (metis (no_types, lifting))
qed

text \<open>A human-gated project, and an issue whose implementation a user asks for.\<close>

definition sample_config :: Config where
  "sample_config = \<lparr>CMode = ''human-gated'', CTriagedLabel = ''triaged'', CHoldLabel = [], CAutonomousDelay = 0,
     CAllowedUsers = [''ann''], CSlashCommands = [''/plan'', ''/implement''], CAssignTo = ''bot'',
     CPlannerTriggerLabels = [''looper:plan''], CWorkerTriggerLabels = [''looper:worker-ready''], CNamespace = DefaultNamespace\<rparr>"

definition sample_issue :: Issue where
  "sample_issue = \<lparr>INumber = 7, ILabels = [''triaged'', ''looper:dispatch:implement''],
     IComments = [\<lparr>CID = 5, CAuthor = ''Ann'', CHasWriteAccess = False, CBody = ''/implement now''\<rparr>], ITriagedAt = None\<rparr>"

text \<open>An issue one of whose blockers is done, and one that is blocked.\<close>

definition sample_loaded :: "string \<Rightarrow> loadedIssue" where
  "sample_loaded triaged = \<lparr>LdIssue = sample_issue\<lparr>ILabels := [triaged, ''looper:dispatch:implement'']\<rparr>,
     LdState = \<lparr>IState = ''open'', IReason = []\<rparr>\<rparr>"

definition sample_listing :: "string \<Rightarrow> string \<Rightarrow> blocker_lists" where
  "sample_listing st reason = (\<lambda>n. if n = 7 then Some [\<lparr>DiNumber = 3, DiRepo = [], DiState = st, DiReason = reason\<rparr>] else None)"

definition sample_pass :: "string \<Rightarrow> string \<Rightarrow> string \<Rightarrow> (Issue \<times> Action) list option" where
  "sample_pass triaged st reason = map_option (\<lambda>deps. applyDispatches sample_config 0 deps [sample_loaded triaged])
     (buildDependencyState (sample_listing st reason) (\<lambda>_. None) True ''acme/looper'' ''triaged'' sample_config [sample_loaded triaged])"

lemma dispatch_waits_for_blockers_witness:
  "\<exists>snapshot. completed snapshot (IssueRef ''acme/looper'' 3)
     \<and> map_option (map (ATriggerLabels \<circ> snd)) (sample_pass ''triaged'' ''closed'' ''Completed'') = Some [[''looper:worker-ready'']]"
proof -
  have p: "map_option (map (ATriggerLabels \<circ> snd)) (sample_pass ''triaged'' ''closed'' ''Completed'') = Some [[''looper:worker-ready'']]"
    by code_simp
  have l: "CTriagedLabel sample_config = ''triaged''" "CTriagedLabel sample_config \<in> set (ILabels (LdIssue (sample_loaded ''triaged'')))"
    "INumber (LdIssue (sample_loaded ''triaged'')) = 7"
    "dependencyIssueRef ''acme/looper'' \<lparr>DiNumber = 3, DiRepo = [], DiState = ''closed'', DiReason = ''Completed''\<rparr> = IssueRef ''acme/looper'' 3"
    by code_simp+
  obtain deps where b: "buildDependencyState (sample_listing ''closed'' ''Completed'') (\<lambda>_. None) True ''acme/looper''
      (CTriagedLabel sample_config) sample_config [sample_loaded ''triaged''] = Some deps"
    and a: "map (ATriggerLabels \<circ> snd) (applyDispatches sample_config 0 deps [sample_loaded ''triaged'']) = [[''looper:worker-ready'']]"
    using p by (auto simp: sample_pass_def l(1))
  obtain i act where ia: "(i, act) \<in> set (applyDispatches sample_config 0 deps [sample_loaded ''triaged''])" "ATriggerLabels act \<noteq> []"
    using a by (cases "applyDispatches sample_config 0 deps [sample_loaded ''triaged'']") auto
  from pass_decides(1) [OF ia] have i: "i = LdIssue (sample_loaded ''triaged'')" by simp
  from dispatch_waits_for_blockers [OF b ia] l(2-4) show ?thesis
    unfolding i by (auto simp: sample_listing_def p)
qed

text \<open>
  The gate tracks the triaged label as it is configured, the decision accepts any spelling of it: a
  blocked issue labelled \<open>Triaged\<close> is dispatched where one labelled \<open>triaged\<close> is refused.
\<close>

lemma respelled_label_ungated:
  "map_option (map (ATriggerLabels \<circ> snd)) (sample_pass ''triaged'' ''open'' []) = Some [[]]"
  "map_option (map (ATriggerLabels \<circ> snd)) (sample_pass ''Triaged'' ''open'' []) = Some [[''looper:worker-ready'']]"
  by code_simp+

end
