(* ===== verification/Active_Executions.thy ===== *)
theory Active_Executions
  imports Prelude "HOL-Library.AList"
begin

text \<open>
  The in-process registry of live agent executions (\<open>internal/runtime/active_executions.go\<close>,
  \<open>operation_lease.go\<close>): spawn leases, bound containment handles, stop gates of loops, operation
  leases of queue claims, tracked non-agent handles. Every method body between \<open>r.mu.Lock()\<close> and
  \<open>r.mu.Unlock()\<close> is one function here, so that the theories above can interleave them; what a method does
  outside the lock is a function of its own. Leases, entries, gates and wait channels are shared by
  pointer in the code: they live in heaps of the registry record and are named by their index. An error is the list of the
  errors joined in it, so \<open>[]\<close> is nil. Map iteration order is that of the lists.
\<close>

section \<open>State\<close>

datatype go_err =
    ErrSpawnAdmissionClosed | ErrSpawnLoopStopping | ErrSpawnStoppedDuringBind
  | ErrContext | ErrAdmission string | ErrRebindInProgress | ErrKill string | ErrSoftKill string
  | ErrLoopStopWaitTimeout | ErrShutdownDrainTimeout
  | ErrOperationAdmissionClosed | ErrOperationLeaseCancelled | ErrQueueItemIDRequired

type_synonym error = "go_err list"

record SpawnMeta =
  MLoopID :: string
  MRunID :: string
  MExecutionID :: string
  MVendor :: string
  MBrownoutProbe :: bool
  MHasProbeRelease :: bool

record spawnLease =
  lMeta :: SpawnMeta
  lCancelled :: bool
  lReleased :: bool
  lHandle :: "nat option"
  lBrownoutProbe :: bool
  lBrownoutObserved :: bool
  lSpawnDone :: bool
  lRebinding :: bool
  lRebindDone :: "nat option"
  lUnownedDrainErr :: error

record ownedExecution =
  eLoopID :: string
  eRunID :: string
  eExecutionID :: string
  eHandle :: nat
  eLease :: nat

record operationLease =
  oVendor :: string
  oCancelled :: bool
  oReleased :: bool
  oBound :: bool
  oQueueItemID :: string
  oLoopID :: string
  oPendingDone :: bool

record registry =
  rLeases :: "nat \<Rightarrow> spawnLease"
  rNextLeaseID :: nat
  rPending :: "nat list"
  rActive :: "nat list"
  rEntries :: "nat \<Rightarrow> ownedExecution"
  rNextEntry :: nat
  rExecutions :: "(string \<times> nat) list"
  rStoppingLoops :: "(string \<times> nat) list"
  rGateRefs :: "nat \<Rightarrow> nat"
  rNextGate :: nat
  rStopDrained :: "string list"
  rChanClosed :: "nat \<Rightarrow> bool"
  rNextChan :: nat
  rOps :: "nat \<Rightarrow> operationLease"
  rNextOpLeaseID :: nat
  rPendingOps :: "nat list"
  rBoundOps :: "nat list"
  rBoundByQueueItem :: "(string \<times> nat) list"
  rNonAgentHandles :: "(nat \<times> nat) list"
  rNextNonAgentID :: nat
  rNonAgentDrainErr :: error
  rAdmissionClosed :: bool
  rShutdownReason :: string

definition blank_lease :: spawnLease where
  "blank_lease = \<lparr>lMeta = \<lparr>MLoopID = [], MRunID = [], MExecutionID = [], MVendor = [], MBrownoutProbe = False, MHasProbeRelease = False\<rparr>,
     lCancelled = False, lReleased = False, lHandle = None, lBrownoutProbe = False, lBrownoutObserved = False,
     lSpawnDone = False, lRebinding = False, lRebindDone = None, lUnownedDrainErr = []\<rparr>"

definition blank_op :: operationLease where
  "blank_op = \<lparr>oVendor = [], oCancelled = False, oReleased = False, oBound = False, oQueueItemID = [], oLoopID = [],
     oPendingDone = False\<rparr>"

definition NewActiveExecutionRegistry :: registry where
  "NewActiveExecutionRegistry = \<lparr>rLeases = (\<lambda>_. blank_lease), rNextLeaseID = 0, rPending = [], rActive = [],
     rEntries = (\<lambda>_. \<lparr>eLoopID = [], eRunID = [], eExecutionID = [], eHandle = 0, eLease = 0\<rparr>), rNextEntry = 0,
     rExecutions = [], rStoppingLoops = [], rGateRefs = (\<lambda>_. 0), rNextGate = 0, rStopDrained = [],
     rChanClosed = (\<lambda>_. False), rNextChan = 0, rOps = (\<lambda>_. blank_op), rNextOpLeaseID = 0, rPendingOps = [],
     rBoundOps = [], rBoundByQueueItem = [], rNonAgentHandles = [], rNextNonAgentID = 0, rNonAgentDrainErr = [],
     rAdmissionClosed = False, rShutdownReason = []\<rparr>"

definition activeExecutionKey :: "string \<Rightarrow> string \<Rightarrow> string \<Rightarrow> string" where
  "activeExecutionKey loopID runID executionID = loopID @ [CHR 0x00] @ runID @ [CHR 0x00] @ executionID"

definition lease_key :: "spawnLease \<Rightarrow> string" where
  "lease_key l = activeExecutionKey (MLoopID (lMeta l)) (MRunID (lMeta l)) (MExecutionID (lMeta l))"

definition entry_key :: "ownedExecution \<Rightarrow> string" where
  "entry_key e = activeExecutionKey (eLoopID e) (eRunID e) (eExecutionID e)"

definition upd_lease :: "nat \<Rightarrow> (spawnLease \<Rightarrow> spawnLease) \<Rightarrow> registry \<Rightarrow> registry" where
  "upd_lease i f r = r\<lparr>rLeases := (rLeases r)(i := f (rLeases r i))\<rparr>"

definition upd_op :: "nat \<Rightarrow> (operationLease \<Rightarrow> operationLease) \<Rightarrow> registry \<Rightarrow> registry" where
  "upd_op i f r = r\<lparr>rOps := (rOps r)(i := f (rOps r i))\<rparr>"

definition without :: "'a \<Rightarrow> 'a list \<Rightarrow> 'a list" where
  "without x = filter (\<lambda>y. y \<noteq> x)"

lemma set_without [simp]: "set (without x xs) = set xs - {x}"
  by (auto simp: without_def)

section \<open>Stop gates\<close>

definition stopping :: "registry \<Rightarrow> string \<Rightarrow> bool" where
  "stopping r loopID \<longleftrightarrow> loopID \<noteq> [] \<and> map_of (rStoppingLoops r) loopID \<noteq> None"

definition incLoopStopLocked :: "string \<Rightarrow> registry \<Rightarrow> nat \<times> registry" where
  "incLoopStopLocked loopID r =
     (case map_of (rStoppingLoops r) loopID of
        None \<Rightarrow> (rNextGate r, r\<lparr>rStoppingLoops := put loopID (rNextGate r) (rStoppingLoops r),
                   rGateRefs := (rGateRefs r)(rNextGate r := 1), rNextGate := rNextGate r + 1\<rparr>)
      | Some gate \<Rightarrow> (gate, r\<lparr>rGateRefs := (rGateRefs r)(gate := rGateRefs r gate + 1)\<rparr>))"

definition clearStopDrainedForLoopLocked :: "string \<Rightarrow> registry \<Rightarrow> registry" where
  "clearStopDrainedForLoopLocked loopID r =
     (if loopID = [] then r
      else r\<lparr>rStopDrained := filter (\<lambda>k. \<not> has_prefix k (loopID @ [CHR 0x00])) (rStopDrained r)\<rparr>)"

text \<open>The closure \<open>BeginLoopStop\<close> returns, at its first call: \<open>gate\<close> is the pointer it captured.\<close>

definition release_gate :: "string \<Rightarrow> nat \<Rightarrow> registry \<Rightarrow> registry" where
  "release_gate loopID gate r =
     (if map_of (rStoppingLoops r) loopID \<noteq> Some gate then r
      else if rGateRefs r gate \<le> 1
      then clearStopDrainedForLoopLocked loopID (r\<lparr>rStoppingLoops := AList.delete loopID (rStoppingLoops r)\<rparr>)
      else r\<lparr>rGateRefs := (rGateRefs r)(gate := rGateRefs r gate - 1)\<rparr>)"

definition ClearLoopStop :: "string \<Rightarrow> registry \<Rightarrow> bool \<times> registry" where
  "ClearLoopStop loopID r =
     (if loopID = [] then (False, r)
      else (map_of (rStoppingLoops r) loopID \<noteq> None,
            clearStopDrainedForLoopLocked loopID (r\<lparr>rStoppingLoops := AList.delete loopID (rStoppingLoops r)\<rparr>)))"

definition LoopStopActive :: "registry \<Rightarrow> string \<Rightarrow> bool" where
  "LoopStopActive r loopID = (if loopID = [] then False else map_of (rStoppingLoops r) loopID \<noteq> None)"

section \<open>Spawn leases\<close>

definition closeSpawnDone :: "nat \<Rightarrow> registry \<Rightarrow> registry" where
  "closeSpawnDone i = upd_lease i (\<lambda>l. l\<lparr>lSpawnDone := True\<rparr>)"

definition cancel_lease :: "nat \<Rightarrow> registry \<Rightarrow> registry" where
  "cancel_lease i = upd_lease i (\<lambda>l. l\<lparr>lCancelled := True\<rparr>)"

text \<open>\<open>AdmitSpawn\<close>: what is read before the admission callback is asked, and the second critical section.\<close>

definition AdmitSpawn_look :: "registry \<Rightarrow> SpawnMeta \<Rightarrow> bool \<times> bool" where
  "AdmitSpawn_look r m = (rAdmissionClosed r, stopping r (MLoopID m))"

definition AdmitSpawn_commit :: "SpawnMeta \<Rightarrow> bool \<Rightarrow> registry \<Rightarrow> (go_err + nat) \<times> registry" where
  "AdmitSpawn_commit m ctx_err r =
     (if rAdmissionClosed r then (Inl ErrSpawnAdmissionClosed, r)
      else if stopping r (MLoopID m) then (Inl ErrSpawnLoopStopping, r)
      else let i = rNextLeaseID r + 1 in
        (Inr i, r\<lparr>rNextLeaseID := i,
           rLeases := (rLeases r)(i := blank_lease\<lparr>lMeta := m, lCancelled := ctx_err, lBrownoutProbe := MBrownoutProbe m\<rparr>),
           rPending := i # rPending r\<rparr>))"

text \<open>The whole method: the registry at its first and at its second critical section, and the
  callback's verdict in between. The last component counts calls of the probe's release hook.\<close>

definition AdmitSpawn :: "SpawnMeta \<Rightarrow> bool \<Rightarrow> (SpawnMeta \<Rightarrow> error) option \<Rightarrow> registry \<Rightarrow> registry \<Rightarrow>
    (error + nat) \<times> registry \<times> nat" where
  "AdmitSpawn m ctx_err allow r1 r2 =
     (let probe = of_bool (MHasProbeRelease m) in
      if ctx_err then (Inl [ErrContext], r2, 0)
      else let (closed, stops) = AdmitSpawn_look r1 m;
               refusal = (case allow of None \<Rightarrow> [] | Some f \<Rightarrow> f m) in
      if refusal \<noteq> [] then (Inl (ErrSpawnAdmissionClosed # refusal), r2, probe)
      else if closed then (Inl [ErrSpawnAdmissionClosed], r2, probe)
      else if stops then (Inl [ErrSpawnLoopStopping], r2, probe)
      else case AdmitSpawn_commit m False r2 of
        (Inl err, r) \<Rightarrow> (Inl [err], r, probe)
      | (Inr i, r) \<Rightarrow> (Inr i, r, 0))"

text \<open>\<open>BindHandle\<close> under the lock: bound; refused because the lease left the pending set, after which
  only the kill follows; or refused at the gate, after which the lease is cancelled, the handle
  killed and the wait channel closed, in this order.\<close>

datatype bind_result = Bound | BindLost | BindRefused

definition BindHandle_locked :: "nat \<Rightarrow> nat \<Rightarrow> registry \<Rightarrow> bind_result \<times> registry" where
  "BindHandle_locked i h r =
     (let l = rLeases r i in
      if lReleased l \<or> i \<notin> set (rPending r) then (BindLost, r)
      else if rAdmissionClosed r \<or> stopping r (MLoopID (lMeta l))
      then (BindRefused, r\<lparr>rPending := without i (rPending r)\<rparr>)
      else let e = rNextEntry r in
        (Bound, closeSpawnDone i (upd_lease i (\<lambda>l. l\<lparr>lHandle := Some h\<rparr>) r
           \<lparr>rEntries := (rEntries r)(e := \<lparr>eLoopID = MLoopID (lMeta l), eRunID = MRunID (lMeta l),
               eExecutionID = MExecutionID (lMeta l), eHandle = h, eLease = i\<rparr>),
            rNextEntry := e + 1,
            rExecutions := put (lease_key l) e (rExecutions r),
            rActive := i # rActive r,
            rPending := without i (rPending r)\<rparr>)))"

definition publishUnownedDrainErr :: "nat \<Rightarrow> error \<Rightarrow> registry \<Rightarrow> registry" where
  "publishUnownedDrainErr i err =
     (if err = [] then (\<lambda>r. r) else upd_lease i (\<lambda>l. l\<lparr>lUnownedDrainErr := lUnownedDrainErr l @ err\<rparr>))"

definition takeUnownedDrainErr :: "nat \<Rightarrow> registry \<Rightarrow> error \<times> registry" where
  "takeUnownedDrainErr i r = (lUnownedDrainErr (rLeases r i), upd_lease i (\<lambda>l. l\<lparr>lUnownedDrainErr := []\<rparr>) r)"

text \<open>The error \<open>killUnowned\<close> returns, given what the handle's \<open>Kill\<close> returned.\<close>

definition killUnowned :: "go_err \<Rightarrow> error \<Rightarrow> nat \<Rightarrow> registry \<Rightarrow> error \<times> registry" where
  "killUnowned base kill_err i r = (base # kill_err, publishUnownedDrainErr i kill_err r)"

definition endRebindLocked :: "nat \<Rightarrow> registry \<Rightarrow> registry" where
  "endRebindLocked i r = (let l = rLeases r i in
     if \<not> lRebinding l then r
     else (case lRebindDone l of
         None \<Rightarrow> upd_lease i (\<lambda>l. l\<lparr>lRebinding := False\<rparr>) r
       | Some c \<Rightarrow> upd_lease i (\<lambda>l. l\<lparr>lRebinding := False, lRebindDone := None\<rparr>) (r\<lparr>rChanClosed := (rChanClosed r)(c := True)\<rparr>)))"

definition BeginRebind :: "nat \<Rightarrow> registry \<Rightarrow> error \<times> registry" where
  "BeginRebind i r = (let l = rLeases r i in
     if lReleased l then ([ErrSpawnAdmissionClosed], r)
     else if lRebinding l then ([ErrRebindInProgress], r)
     else if rAdmissionClosed r then ([ErrSpawnAdmissionClosed], r)
     else if stopping r (MLoopID (lMeta l)) then ([ErrSpawnLoopStopping], r)
     else if lCancelled l then ([ErrSpawnLoopStopping], r)
     else ([], upd_lease i (\<lambda>l. l\<lparr>lRebinding := True, lRebindDone := Some (rNextChan r)\<rparr>)
                 (r\<lparr>rNextChan := rNextChan r + 1, rChanClosed := (rChanClosed r)(rNextChan r := False)\<rparr>)))"

datatype rebind_result = Rebound | RebindLost | RebindRefused

definition RebindHandle_locked :: "nat \<Rightarrow> nat \<Rightarrow> registry \<Rightarrow> rebind_result \<times> registry" where
  "RebindHandle_locked i h r =
     (let l = rLeases r i in
      if lReleased l then (RebindLost, r)
      else if rAdmissionClosed r \<or> stopping r (MLoopID (lMeta l)) then (RebindRefused, r)
      else let (e, r1) = (case map_of (rExecutions r) (lease_key l) of
          Some e \<Rightarrow> (e, r)
        | None \<Rightarrow> (rNextEntry r, r\<lparr>rNextEntry := rNextEntry r + 1, rExecutions := put (lease_key l) (rNextEntry r) (rExecutions r),
             rEntries := (rEntries r)(rNextEntry r := \<lparr>eLoopID = MLoopID (lMeta l), eRunID = MRunID (lMeta l),
               eExecutionID = MExecutionID (lMeta l), eHandle = h, eLease = i\<rparr>)\<rparr>)) in
        (Rebound, endRebindLocked i (upd_lease i (\<lambda>l. l\<lparr>lHandle := Some h\<rparr>)
           (r1\<lparr>rEntries := (rEntries r1)(e := (rEntries r1 e)\<lparr>eHandle := h\<rparr>)\<rparr>))))"

text \<open>\<open>Release\<close> in two steps: the lease's flag and its cancellation, then the registry.\<close>

definition Release_mark :: "nat \<Rightarrow> registry \<Rightarrow> bool \<times> registry" where
  "Release_mark i r = (let l = rLeases r i in
     if lReleased l then (False, r)
     else (lBrownoutProbe l \<and> \<not> lBrownoutObserved l \<and> MHasProbeRelease (lMeta l),
           upd_lease i (\<lambda>l. l\<lparr>lReleased := True, lCancelled := True\<rparr>) r))"

definition Release_locked :: "nat \<Rightarrow> registry \<Rightarrow> registry" where
  "Release_locked i r0 =
     (let r = closeSpawnDone i ((endRebindLocked i r0)\<lparr>rPending := without i (rPending r0), rActive := without i (rActive r0)\<rparr>);
          key = lease_key (rLeases r i) in
      case map_of (rExecutions r) key of
        None \<Rightarrow> r
      | Some e \<Rightarrow> if Some (eHandle (rEntries r e)) = lHandle (rLeases r i)
                  then r\<lparr>rExecutions := AList.delete key (rExecutions r)\<rparr> else r)"

text \<open>\<open>markBrownoutObserved\<close>, as \<open>ReportAgentOutcome\<close> reaches it.\<close>

definition ReportAgentOutcome :: "bool \<Rightarrow> bool \<Rightarrow> string \<Rightarrow> string \<Rightarrow> string \<Rightarrow> registry \<Rightarrow> registry" where
  "ReportAgentOutcome has_observer probe loopID runID executionID r =
     (if has_observer \<and> probe then
        (case map_of (rExecutions r) (activeExecutionKey loopID runID executionID) of
           None \<Rightarrow> r
         | Some e \<Rightarrow> upd_lease (eLease (rEntries r e)) (\<lambda>l. if lBrownoutProbe l then l\<lparr>lBrownoutObserved := True\<rparr> else l) r)
      else r)"
section \<open>Operation leases\<close>

definition cancel_op :: "nat \<Rightarrow> registry \<Rightarrow> registry" where
  "cancel_op i = upd_op i (\<lambda>o'. o'\<lparr>oCancelled := True\<rparr>)"

definition AdmitOperation :: "string \<Rightarrow> bool \<Rightarrow> registry \<Rightarrow> (error + nat) \<times> registry" where
  "AdmitOperation vendor ctx_err r =
     (if ctx_err then (Inl [ErrContext], r)
      else if rAdmissionClosed r then (Inl [ErrOperationAdmissionClosed], r)
      else let i = rNextOpLeaseID r + 1 in
        (Inr i, r\<lparr>rNextOpLeaseID := i, rOps := (rOps r)(i := blank_op\<lparr>oVendor := vendor\<rparr>), rPendingOps := i # rPendingOps r\<rparr>))"

definition AdmitDetachedOperation :: "string \<Rightarrow> bool \<Rightarrow> error \<Rightarrow> registry \<Rightarrow> (error + nat) \<times> registry" where
  "AdmitDetachedOperation vendor ctx_err refusal r =
     (if ctx_err then (Inl [ErrContext], r)
      else if refusal \<noteq> [] then (Inl (ErrOperationAdmissionClosed # refusal), r)
      else if rAdmissionClosed r then (Inl [ErrOperationAdmissionClosed], r)
      else let i = rNextOpLeaseID r + 1 in
        (Inr i, r\<lparr>rNextOpLeaseID := i, rOps := (rOps r)(i := blank_op\<lparr>oVendor := vendor, oBound := True, oPendingDone := True\<rparr>),
           rBoundOps := i # rBoundOps r\<rparr>))"

text \<open>A queue item as the lease reads it: its id and its loop, which may be absent.\<close>

definition bind_op :: "nat \<Rightarrow> string \<Rightarrow> string \<Rightarrow> registry \<Rightarrow> registry" where
  "bind_op i item loopID r = upd_op i (\<lambda>o'. o'\<lparr>oBound := True, oQueueItemID := item, oLoopID := loopID, oPendingDone := True\<rparr>)
     (r\<lparr>rPendingOps := without i (rPendingOps r), rBoundOps := i # rBoundOps r,
        rBoundByQueueItem := put item i (rBoundByQueueItem r)\<rparr>)"

definition BindClaim :: "nat \<Rightarrow> string \<Rightarrow> string option \<Rightarrow> registry \<Rightarrow> (go_err + (nat \<times> string)) \<times> registry" where
  "BindClaim i item itemLoop r =
     (if item = [] then (Inl ErrQueueItemIDRequired, r)
      else let l = rOps r i in
      if oReleased l \<or> i \<notin> set (rPendingOps r) then (Inl ErrOperationLeaseCancelled, r)
      else let loopID = (case itemLoop of None \<Rightarrow> [] | Some x \<Rightarrow> x) in
      if rAdmissionClosed r \<or> stopping r loopID \<or> oCancelled l
      then (Inl ErrOperationLeaseCancelled, bind_op i item loopID r)
      else (Inr (i, item), bind_op i item loopID r))"

definition PermitValid :: "nat \<times> string \<Rightarrow> bool" where
  "PermitValid p \<longleftrightarrow> fst p \<noteq> 0 \<and> snd p \<noteq> []"

definition ReleaseOperation :: "nat \<Rightarrow> registry \<Rightarrow> registry" where
  "ReleaseOperation i r =
     (let l = rOps r i; item = oQueueItemID l in
      if oReleased l then r
      else upd_op i (\<lambda>o'. o'\<lparr>oReleased := True, oCancelled := True, oPendingDone := True\<rparr>)
        (r\<lparr>rPendingOps := without i (rPendingOps r), rBoundOps := without i (rBoundOps r),
           rBoundByQueueItem := (if item \<noteq> [] \<and> map_of (rBoundByQueueItem r) item = Some i
             then AList.delete item (rBoundByQueueItem r) else rBoundByQueueItem r)\<rparr>))"

definition SetVendor :: "nat \<Rightarrow> string \<Rightarrow> registry \<Rightarrow> registry" where
  "SetVendor i vendor = upd_op i (\<lambda>o'. o'\<lparr>oVendor := trim_space vendor\<rparr>)"

definition Owns :: "registry \<Rightarrow> nat \<Rightarrow> string \<Rightarrow> bool" where
  "Owns r i item \<longleftrightarrow> item \<noteq> [] \<and> \<not> oReleased (rOps r i) \<and> oBound (rOps r i) \<and> oQueueItemID (rOps r i) = item"

definition OwnsQueueClaim :: "registry \<Rightarrow> string \<Rightarrow> bool" where
  "OwnsQueueClaim r item =
     (if item = [] then False
      else case map_of (rBoundByQueueItem r) item of
        None \<Rightarrow> False
      | Some i \<Rightarrow> i \<in> set (rBoundOps r) \<and> \<not> oReleased (rOps r i) \<and> oBound (rOps r i) \<and> oQueueItemID (rOps r i) = item)"

definition cancelPendingOperationsLocked :: "registry \<Rightarrow> nat list \<times> registry" where
  "cancelPendingOperationsLocked r = (rPendingOps r, fold cancel_op (rPendingOps r) r)"

definition cancelBoundOperationsLocked :: "string \<Rightarrow> registry \<Rightarrow> registry" where
  "cancelBoundOperationsLocked loopID r =
     fold cancel_op (filter (\<lambda>i. loopID = [] \<or> oLoopID (rOps r i) = loopID) (rBoundOps r)) r"

section \<open>Stopping a loop, shutting down\<close>

record loopStopTargets =
  tCancel :: "nat list"
  tSpawnWait :: "nat list"
  tRebindWait :: "nat list"
  tKill :: "nat list"

definition rebind_wait :: "registry \<Rightarrow> nat list \<Rightarrow> nat list" where
  "rebind_wait r ids = List.map_filter (\<lambda>i. if lRebinding (rLeases r i) then lRebindDone (rLeases r i) else None) ids"

text \<open>The leases and entries in scope: those of a loop, or all.\<close>

definition in_scope :: "string option \<Rightarrow> string \<Rightarrow> bool" where
  "in_scope scope loopID = (case scope of None \<Rightarrow> True | Some s \<Rightarrow> loopID = s)"

definition scoped_leases :: "string option \<Rightarrow> registry \<Rightarrow> nat list \<Rightarrow> nat list" where
  "scoped_leases scope r = filter (\<lambda>i. in_scope scope (MLoopID (lMeta (rLeases r i))))"

definition scoped_entries :: "string option \<Rightarrow> registry \<Rightarrow> nat list" where
  "scoped_entries scope r = filter (\<lambda>e. in_scope scope (eLoopID (rEntries r e))) (map snd (rExecutions r))"

definition stop_targets :: "string option \<Rightarrow> registry \<Rightarrow> loopStopTargets" where
  "stop_targets scope r = (let ps = scoped_leases scope r (rPending r); as = scoped_leases scope r (rActive r) in
     \<lparr>tCancel = ps @ as, tSpawnWait = ps, tRebindWait = rebind_wait r ps @ rebind_wait r as, tKill = scoped_entries scope r\<rparr>)"

definition collectLoopStopTargetsLocked :: "string \<Rightarrow> registry \<Rightarrow> loopStopTargets \<times> registry" where
  "collectLoopStopTargetsLocked loopID r =
     (stop_targets (Some loopID) r,
      fold cancel_op (filter (\<lambda>i. oLoopID (rOps r i) = loopID) (rBoundOps r)) r)"

text \<open>The critical section that opens \<open>BeginLoopStop\<close> and \<open>RestoreLoopStop\<close>.\<close>

definition BeginLoopStop_locked :: "string \<Rightarrow> registry \<Rightarrow> (nat \<times> loopStopTargets) \<times> registry" where
  "BeginLoopStop_locked loopID r =
     (let (gate, r1) = incLoopStopLocked loopID r; (t, r2) = collectLoopStopTargetsLocked loopID r1 in ((gate, t), r2))"

definition BeginShutdown_locked :: "string \<Rightarrow> registry \<Rightarrow> (loopStopTargets \<times> nat list) \<times> registry" where
  "BeginShutdown_locked reason r =
     (let r1 = r\<lparr>rAdmissionClosed := True, rShutdownReason := (if reason \<noteq> [] then reason else rShutdownReason r)\<rparr>;
          t = stop_targets None r1; (opWait, r2) = cancelPendingOperationsLocked r1 in
      ((t, opWait), cancelBoundOperationsLocked [] r2))"

text \<open>\<open>rememberStopDrain\<close>, given the kill's error and whether the handle is confirmed dead.\<close>

definition rememberStopDrain :: "nat \<Rightarrow> error \<Rightarrow> bool \<Rightarrow> registry \<Rightarrow> registry" where
  "rememberStopDrain e kill_err confirmed_dead r =
     (if kill_err \<noteq> [] \<and> \<not> confirmed_dead then r
      else r\<lparr>rStopDrained := List.insert (entry_key (rEntries r e)) (rStopDrained r)\<rparr>)"

text \<open>\<open>Kill\<close>: the entry to kill, or the answer.\<close>

definition Kill_look :: "string \<Rightarrow> string \<Rightarrow> string \<Rightarrow> registry \<Rightarrow> nat + bool" where
  "Kill_look loopID runID executionID r = (let key = activeExecutionKey loopID runID executionID in
     case map_of (rExecutions r) key of Some e \<Rightarrow> Inl e | None \<Rightarrow> Inr (key \<in> set (rStopDrained r)))"

definition HasLiveHandle :: "registry \<Rightarrow> string \<Rightarrow> string \<Rightarrow> string \<Rightarrow> bool" where
  "HasLiveHandle r loopID runID executionID = (map_of (rExecutions r) (activeExecutionKey loopID runID executionID) \<noteq> None)"

section \<open>Non-agent handles, queries\<close>

definition Track :: "nat \<Rightarrow> registry \<Rightarrow> nat \<times> registry" where
  "Track h r = (let i = rNextNonAgentID r + 1 in
     (i, r\<lparr>rNextNonAgentID := i, rNonAgentHandles := put i h (rNonAgentHandles r)\<rparr>))"

definition untrack :: "nat \<Rightarrow> registry \<Rightarrow> registry" where
  "untrack i r = r\<lparr>rNonAgentHandles := AList.delete i (rNonAgentHandles r)\<rparr>"

definition ReportDrainFailure :: "error \<Rightarrow> registry \<Rightarrow> registry" where
  "ReportDrainFailure err r = (if err = [] then r else r\<lparr>rNonAgentDrainErr := rNonAgentDrainErr r @ err\<rparr>)"

record DrainSnapshot =
  LiveExecutions :: nat
  PendingSpawns :: nat
  BoundOperations :: nat
  PendingOperations :: nat
  NonAgentHandles :: nat
  WorkProducersActive :: nat

definition Drained :: "DrainSnapshot \<Rightarrow> bool" where
  "Drained s \<longleftrightarrow> LiveExecutions s = 0 \<and> PendingSpawns s = 0 \<and> BoundOperations s = 0 \<and> PendingOperations s = 0
     \<and> NonAgentHandles s = 0 \<and> WorkProducersActive s = 0"

definition DrainSnapshot_of :: "registry \<Rightarrow> DrainSnapshot" where
  "DrainSnapshot_of r = \<lparr>LiveExecutions = length (rExecutions r), PendingSpawns = length (rPending r),
     BoundOperations = length (rBoundOps r), PendingOperations = length (rPendingOps r),
     NonAgentHandles = length (rNonAgentHandles r), WorkProducersActive = 0\<rparr>"

definition AgentVendors :: "registry \<Rightarrow> string list" where
  "AgentVendors r = sort_key (\<lambda>s. map (of_char :: char \<Rightarrow> nat) s)
     (remdups (filter (\<lambda>v. v \<noteq> [])
       (map trim_space (map (\<lambda>i. MVendor (lMeta (rLeases r i))) (rPending r @ rActive r)
          @ map (\<lambda>i. trim_space (oVendor (rOps r i))) (rPendingOps r @ rBoundOps r)))))"

end
