(* ===== verification/Stop_Gates.thy ===== *)
theory Stop_Gates
  imports Active_Executions
begin

text \<open>
  Stop gates of loops: the reference-counted, generation-checked gates of
  \<open>internal/runtime/active_executions.go\<close> refine a plain set of holds. Abstractly every
  \<open>BeginLoopStop\<close> and \<open>RestoreLoopStop\<close> takes a hold on its loop, a release gives up its own hold,
  \<open>ClearLoopStop\<close> voids all holds of the loop, and a loop is stopped exactly while some hold on it exists.
\<close>

section \<open>Histories of gate operations\<close>

text \<open>A token stands for one closure returned by \<open>BeginLoopStop\<close>, with the gate it captured and whether
  its \<open>sync.Once\<close> has fired; a token of \<open>RestoreLoopStop\<close> has no closure.\<close>

record token =
  kLoop :: string
  kGate :: nat
  kSticky :: bool
  kDone :: bool

record gate_world =
  gReg :: registry
  gTokens :: "token list"

datatype gate_op = BeginStop string | ReleaseStop nat | ClearStop string | RestoreStop string

definition take_hold :: "string \<Rightarrow> bool \<Rightarrow> gate_world \<Rightarrow> gate_world" where
  "take_hold L sticky w = (let ((gate, t), r) = BeginLoopStop_locked L (gReg w) in
     \<lparr>gReg = r, gTokens = gTokens w @ [\<lparr>kLoop = L, kGate = gate, kSticky = sticky, kDone = False\<rparr>]\<rparr>)"

fun exec_gate :: "gate_op \<Rightarrow> gate_world \<Rightarrow> gate_world" where
  "exec_gate (BeginStop L) w = take_hold L False w"
| "exec_gate (RestoreStop L) w = (if L = [] then w else take_hold L True w)"
| "exec_gate (ClearStop L) w = w\<lparr>gReg := snd (ClearLoopStop L (gReg w))\<rparr>"
| "exec_gate (ReleaseStop i) w =
     (if i < length (gTokens w) \<and> \<not> kSticky (gTokens w ! i) \<and> \<not> kDone (gTokens w ! i)
      then \<lparr>gReg = release_gate (kLoop (gTokens w ! i)) (kGate (gTokens w ! i)) (gReg w),
            gTokens = (gTokens w)[i := (gTokens w ! i)\<lparr>kDone := True\<rparr>]\<rparr>
      else w)"

definition gate_start :: gate_world where
  "gate_start = \<lparr>gReg = NewActiveExecutionRegistry, gTokens = []\<rparr>"

section \<open>The specification\<close>

text \<open>Holds by number, in the order in which they were taken: the loop held, and whether it is sticky.\<close>

record holds =
  hAt :: "nat \<Rightarrow> (string \<times> bool) option"
  hNext :: nat

fun exec_hold :: "gate_op \<Rightarrow> holds \<Rightarrow> holds" where
  "exec_hold (BeginStop L) s = s\<lparr>hAt := (hAt s)(hNext s \<mapsto> (L, False)), hNext := hNext s + 1\<rparr>"
| "exec_hold (RestoreStop L) s = (if L = [] then s else s\<lparr>hAt := (hAt s)(hNext s \<mapsto> (L, True)), hNext := hNext s + 1\<rparr>)"
| "exec_hold (ClearStop L) s = (if L = [] then s
     else s\<lparr>hAt := (\<lambda>i. case hAt s i of None \<Rightarrow> None | Some (L', b) \<Rightarrow> if L' = L then None else Some (L', b))\<rparr>)"
| "exec_hold (ReleaseStop i) s = (case hAt s i of
       Some (L, False) \<Rightarrow> s\<lparr>hAt := (hAt s)(i := None)\<rparr>
     | _ \<Rightarrow> s)"

definition no_holds :: holds where
  "no_holds = \<lparr>hAt = (\<lambda>_. None), hNext = 0\<rparr>"

definition held :: "holds \<Rightarrow> string \<Rightarrow> bool" where
  "held s L \<longleftrightarrow> (\<exists>i b. hAt s i = Some (L, b))"

section \<open>The refinement\<close>

definition live_token :: "registry \<Rightarrow> token \<Rightarrow> bool" where
  "live_token r k \<longleftrightarrow> \<not> kDone k \<and> map_of (rStoppingLoops r) (kLoop k) = Some (kGate k)"

definition abs_gates :: "gate_world \<Rightarrow> holds" where
  "abs_gates w = \<lparr>hAt = (\<lambda>i. if i < length (gTokens w) \<and> live_token (gReg w) (gTokens w ! i)
       then Some (kLoop (gTokens w ! i), kSticky (gTokens w ! i)) else None), hNext = length (gTokens w)\<rparr>"

definition holders_of :: "token list \<Rightarrow> string \<Rightarrow> nat \<Rightarrow> nat" where
  "holders_of ks L g = length (filter (\<lambda>k. kLoop k = L \<and> kGate k = g \<and> \<not> kDone k) ks)"

definition gates_ok :: "gate_world \<Rightarrow> bool" where
  "gates_ok w \<longleftrightarrow>
     (\<forall>L g. map_of (rStoppingLoops (gReg w)) L = Some g \<longrightarrow>
        g < rNextGate (gReg w) \<and> 0 < rGateRefs (gReg w) g \<and> rGateRefs (gReg w) g = holders_of (gTokens w) L g)
   \<and> (\<forall>L L' g. map_of (rStoppingLoops (gReg w)) L = Some g \<longrightarrow> map_of (rStoppingLoops (gReg w)) L' = Some g \<longrightarrow> L = L')
   \<and> (\<forall>k \<in> set (gTokens w). kGate k < rNextGate (gReg w))"

lemma fold_cancel_op_fields [simp]:
  "rStoppingLoops (fold cancel_op xs r) = rStoppingLoops r" "rGateRefs (fold cancel_op xs r) = rGateRefs r"
  "rNextGate (fold cancel_op xs r) = rNextGate r"
  by (induction xs arbitrary: r) (simp_all add: cancel_op_def upd_op_def)

lemma clearStopDrained_fields [simp]:
  "rStoppingLoops (clearStopDrainedForLoopLocked L r) = rStoppingLoops r"
  "rGateRefs (clearStopDrainedForLoopLocked L r) = rGateRefs r"
  "rNextGate (clearStopDrainedForLoopLocked L r) = rNextGate r"
  by (simp_all add: clearStopDrainedForLoopLocked_def)

lemma take_hold_new:
  assumes "map_of (rStoppingLoops (gReg w)) L = None"
  shows "rStoppingLoops (gReg (take_hold L b w)) = put L (rNextGate (gReg w)) (rStoppingLoops (gReg w))"
    "rGateRefs (gReg (take_hold L b w)) = (rGateRefs (gReg w))(rNextGate (gReg w) := 1)"
    "rNextGate (gReg (take_hold L b w)) = rNextGate (gReg w) + 1"
    "gTokens (take_hold L b w) = gTokens w @ [\<lparr>kLoop = L, kGate = rNextGate (gReg w), kSticky = b, kDone = False\<rparr>]"
  using assms by (simp_all add: take_hold_def BeginLoopStop_locked_def incLoopStopLocked_def collectLoopStopTargetsLocked_def)

lemma take_hold_old:
  assumes "map_of (rStoppingLoops (gReg w)) L = Some g"
  shows "rStoppingLoops (gReg (take_hold L b w)) = rStoppingLoops (gReg w)"
    "rGateRefs (gReg (take_hold L b w)) = (rGateRefs (gReg w))(g := rGateRefs (gReg w) g + 1)"
    "rNextGate (gReg (take_hold L b w)) = rNextGate (gReg w)"
    "gTokens (take_hold L b w) = gTokens w @ [\<lparr>kLoop = L, kGate = g, kSticky = b, kDone = False\<rparr>]"
  using assms by (simp_all add: take_hold_def BeginLoopStop_locked_def incLoopStopLocked_def collectLoopStopTargetsLocked_def)

lemma holders_of_append: "holders_of (ks @ [k]) L g = holders_of ks L g + of_bool (kLoop k = L \<and> kGate k = g \<and> \<not> kDone k)"
  by (simp add: holders_of_def)

lemma no_holders: "(\<forall>k \<in> set ks. kGate k < n) \<Longrightarrow> holders_of ks L n = 0"
  by (auto simp: holders_of_def filter_empty_conv)

lemma gates_okD:
  assumes "gates_ok w"
  shows "map_of (rStoppingLoops (gReg w)) L = Some g \<Longrightarrow> g < rNextGate (gReg w)"
    "map_of (rStoppingLoops (gReg w)) L = Some g \<Longrightarrow> 0 < rGateRefs (gReg w) g"
    "map_of (rStoppingLoops (gReg w)) L = Some g \<Longrightarrow> rGateRefs (gReg w) g = holders_of (gTokens w) L g"
    "map_of (rStoppingLoops (gReg w)) L = Some g \<Longrightarrow> map_of (rStoppingLoops (gReg w)) L' = Some g \<Longrightarrow> L = L'"
    "k \<in> set (gTokens w) \<Longrightarrow> kGate k < rNextGate (gReg w)"
  using assms unfolding gates_ok_def by blast+

lemma take_hold_ok: assumes ok: "gates_ok w" shows "gates_ok (take_hold L b w)"
proof (cases "map_of (rStoppingLoops (gReg w)) L")
  case None
  note D = gates_okD [OF ok]
  have lt: "map_of (rStoppingLoops (gReg w)) M = Some g \<Longrightarrow> g \<noteq> rNextGate (gReg w)" for M g using D(1) by blast
  have z: "holders_of (gTokens w) L (rNextGate (gReg w)) = 0" using D(5) by (intro no_holders) auto
  show ?thesis
    unfolding gates_ok_def take_hold_new [OF None] map_of_put
    using D lt z by (auto simp: holders_of_append less_Suc_eq split: if_splits)
next
  case (Some g)
  note D = gates_okD [OF ok]
  have inj: "map_of (rStoppingLoops (gReg w)) M = Some g \<Longrightarrow> M = L" for M using D(4) [OF Some] by auto
  show ?thesis
    unfolding gates_ok_def take_hold_old [OF Some]
    using D inj Some by (auto simp: holders_of_append less_Suc_eq) (metis D(4))
qed

lemma take_hold_abs: assumes ok: "gates_ok w"
  shows "abs_gates (take_hold L b w) = (abs_gates w)\<lparr>hAt := (hAt (abs_gates w))(length (gTokens w) \<mapsto> (L, b)), hNext := length (gTokens w) + 1\<rparr>"
proof (cases "map_of (rStoppingLoops (gReg w)) L")
  case None
  have "kGate (gTokens w ! i) \<noteq> rNextGate (gReg w)" if "i < length (gTokens w)" for i
    using gates_okD(5) [OF ok nth_mem [OF that]] by simp
  then show ?thesis
    unfolding abs_gates_def take_hold_new [OF None] live_token_def map_of_put
    using None by (auto simp: nth_append fun_eq_iff less_Suc_eq) blast
next
  case (Some g)
  then show ?thesis
    unfolding abs_gates_def take_hold_old [OF Some] live_token_def
    by (auto simp: nth_append fun_eq_iff less_Suc_eq)
qed
lemma delete_gone: "map_of (AList.delete L xs) M = (if M = L then None else map_of xs M)"
  by (simp add: delete_conv')

lemma clear_fields:
  "L \<noteq> [] \<Longrightarrow> rStoppingLoops (snd (ClearLoopStop L r)) = AList.delete L (rStoppingLoops r)"
  "rGateRefs (snd (ClearLoopStop L r)) = rGateRefs r" "rNextGate (snd (ClearLoopStop L r)) = rNextGate r"
  "ClearLoopStop [] r = (False, r)"
  by (simp_all add: ClearLoopStop_def)

lemma clear_ok: assumes ok: "gates_ok w" shows "gates_ok (exec_gate (ClearStop L) w)"
proof (cases "L = []")
  case False
  note D = gates_okD [OF ok]
  from False show ?thesis
    unfolding gates_ok_def
    by (auto simp: clear_fields delete_gone intro: D split: if_splits)
qed (use ok in \<open>simp add: clear_fields\<close>)

lemma clear_abs: "abs_gates (exec_gate (ClearStop L) w) = exec_hold (ClearStop L) (abs_gates w)"
  by (cases "L = []") (auto simp: abs_gates_def live_token_def clear_fields delete_gone fun_eq_iff)

lemma holders_of_done: "i < length ks \<Longrightarrow> holders_of (ks[i := (ks ! i)\<lparr>kDone := True\<rparr>]) L g
    + of_bool (kLoop (ks ! i) = L \<and> kGate (ks ! i) = g \<and> \<not> kDone (ks ! i)) = holders_of ks L g"
  unfolding holders_of_def
  using length_filter_update [of i ks "\<lambda>k. kLoop k = L \<and> kGate k = g \<and> \<not> kDone k" "(ks ! i)\<lparr>kDone := True\<rparr>"] by simp

text \<open>The first call of a closure: nothing if its gate was retired, otherwise one hold less, and the gate
  opens with the last one.\<close>

lemma release_fields:
  assumes "map_of (rStoppingLoops r) L = Some g"
  shows "map_of (rStoppingLoops (release_gate L g r)) M = (if M = L \<and> rGateRefs r g \<le> 1 then None else map_of (rStoppingLoops r) M)"
    "rGateRefs (release_gate L g r) = (if rGateRefs r g \<le> 1 then rGateRefs r else (rGateRefs r)(g := rGateRefs r g - 1))"
    "rNextGate (release_gate L g r) = rNextGate r"
  using assms by (simp_all add: release_gate_def delete_gone)

lemma release_retired: "map_of (rStoppingLoops r) L \<noteq> Some g \<Longrightarrow> release_gate L g r = r"
  by (simp add: release_gate_def)

lemma member_done: "k \<in> set (ks[i := (ks ! i)\<lparr>kDone := True\<rparr>]) \<Longrightarrow> i < length ks \<Longrightarrow> \<exists>k' \<in> set ks. kGate k = kGate k'"
  using set_update_subset_insert [of ks i] nth_mem [of i ks] by fastforce

lemma single_holder:
  assumes "holders_of ks L g \<le> 1" "i < length ks" "kLoop (ks ! i) = L" "kGate (ks ! i) = g" "\<not> kDone (ks ! i)"
    and "j < length ks" "kLoop (ks ! j) = L" "kGate (ks ! j) = g" "\<not> kDone (ks ! j)"
  shows "j = i"
proof (rule ccontr)
  assume "j \<noteq> i"
  then have "ks ! j \<in> set (ks[i := (ks ! i)\<lparr>kDone := True\<rparr>])"
    using assms(6) by (metis length_list_update nth_list_update_neq nth_mem)
  then have "0 < holders_of (ks[i := (ks ! i)\<lparr>kDone := True\<rparr>]) L g"
    using assms(7-9) unfolding holders_of_def by (auto simp: filter_empty_conv)
  then show False using holders_of_done [OF assms(2), of L g] assms(1-5) by simp
qed

lemma release_ok_abs:
  assumes ok: "gates_ok w"
  shows "gates_ok (exec_gate (ReleaseStop i) w) \<and> abs_gates (exec_gate (ReleaseStop i) w) = exec_hold (ReleaseStop i) (abs_gates w)"
proof (cases "i < length (gTokens w) \<and> \<not> kSticky (gTokens w ! i) \<and> \<not> kDone (gTokens w ! i)")
  case False
  then have "exec_hold (ReleaseStop i) (abs_gates w) = abs_gates w" "exec_gate (ReleaseStop i) w = w"
    by (auto simp: abs_gates_def live_token_def)
  with ok show ?thesis by simp
next
  case True
  note D = gates_okD [OF ok]
  let ?k = "gTokens w ! i" and ?ks = "gTokens w" and ?ks' = "(gTokens w)[i := (gTokens w ! i)\<lparr>kDone := True\<rparr>]"
  let ?L = "kLoop ?k" and ?g = "kGate ?k" and ?r = "gReg w" and ?r' = "release_gate (kLoop (gTokens w ! i)) (kGate (gTokens w ! i)) (gReg w)"
  have exec: "exec_gate (ReleaseStop i) w = \<lparr>gReg = ?r', gTokens = ?ks'\<rparr>" using True by simp
  have less: "kGate k < rNextGate ?r" if "k \<in> set ?ks'" for k using member_done [OF that] True D(5) by auto
  have count: "holders_of ?ks' M h + of_bool (?L = M \<and> ?g = h) = holders_of ?ks M h" for M h
    using holders_of_done [of i ?ks M h] True by simp
  show ?thesis
  proof (cases "map_of (rStoppingLoops ?r) ?L = Some ?g")
    case live: True
    have at_i: "hAt (abs_gates w) i = Some (?L, False)" using live True by (simp add: abs_gates_def live_token_def)
    have only: "j = i" if "rGateRefs ?r ?g \<le> 1" "j < length ?ks" "live_token ?r (?ks ! j)" "kLoop (?ks ! j) = ?L" for j
    proof (rule single_holder [OF _ _ refl refl _ that(2,4)])
      show "holders_of ?ks ?L ?g \<le> 1" using that(1) unfolding D(3) [OF live] .
      show "kGate (?ks ! j) = ?g" "\<not> kDone (?ks ! j)"
        using that(3) live unfolding live_token_def that(4) by simp_all
    qed (use True in simp_all)
    have ok': "gates_ok \<lparr>gReg = ?r', gTokens = ?ks'\<rparr>"
    proof -
      have "rGateRefs ?r' h = holders_of ?ks' M h \<and> 0 < rGateRefs ?r' h"
        if m: "map_of (rStoppingLoops ?r) M = Some h" "M = ?L \<longrightarrow> \<not> rGateRefs ?r ?g \<le> 1" for M h
        using D(2,3) [OF m(1)] D(4) [OF live, of M] m live count [of M h] by (auto simp: release_fields [OF live] split: if_splits)
      moreover have "map_of (rStoppingLoops ?r) M = Some h \<and> (M = ?L \<longrightarrow> \<not> rGateRefs ?r ?g \<le> 1)"
        if "map_of (rStoppingLoops ?r') M = Some h" for M h
        using that by (auto simp: release_fields [OF live] split: if_splits)
      ultimately show ?thesis
        using D(1,4) less unfolding gates_ok_def gate_world.simps release_fields(3) [OF live] by blast
    qed
    have "abs_gates \<lparr>gReg = ?r', gTokens = ?ks'\<rparr> = (abs_gates w)\<lparr>hAt := (hAt (abs_gates w))(i := None)\<rparr>"
      using True only by (auto simp: abs_gates_def live_token_def release_fields [OF live] fun_eq_iff nth_list_update)
    with ok' at_i show ?thesis by (simp add: exec del: exec_gate.simps)
  next
    case retired: False
    have none: "hAt (abs_gates w) i = None" using retired by (simp add: abs_gates_def live_token_def)
    have "rGateRefs ?r h = holders_of ?ks' M h" if m: "map_of (rStoppingLoops ?r) M = Some h" for M h
      using D(3) [OF m] count [of M h] retired m by (cases "?L = M \<and> ?g = h") auto
    then have "gates_ok \<lparr>gReg = ?r', gTokens = ?ks'\<rparr>"
      unfolding release_retired [OF retired] gates_ok_def gate_world.simps using D(1,2,4) less by blast
    moreover have "abs_gates \<lparr>gReg = ?r', gTokens = ?ks'\<rparr> = abs_gates w"
      unfolding release_retired [OF retired] using True retired
      by (auto simp: abs_gates_def live_token_def fun_eq_iff nth_list_update)
    ultimately show ?thesis using none by (simp add: exec del: exec_gate.simps)
  qed
qed

lemma hNext_abs [simp]: "hNext (abs_gates w) = length (gTokens w)"
  by (simp add: abs_gates_def)

lemma gate_step:
  assumes ok: "gates_ok w"
  shows "gates_ok (exec_gate op w) \<and> abs_gates (exec_gate op w) = exec_hold op (abs_gates w)"
proof (cases op)
  case (BeginStop L)
  then show ?thesis using take_hold_ok [OF ok] take_hold_abs [OF ok] by simp
next
  case (RestoreStop L)
  then show ?thesis using take_hold_ok [OF ok] take_hold_abs [OF ok] ok by simp
next
  case (ClearStop L)
  then show ?thesis using clear_ok [OF ok] clear_abs by blast
next
  case (ReleaseStop i)
  then show ?thesis using release_ok_abs [OF ok] by blast
qed

lemma gate_start_ok: "gates_ok gate_start" "abs_gates gate_start = no_holds"
  by (simp_all add: gate_start_def gates_ok_def abs_gates_def no_holds_def NewActiveExecutionRegistry_def)

interpretation gates: operation_invariant exec_gate "\<lambda>_. True" gates_ok
  by unfold_locales (use gate_step in blast)

lemma holders_of_some: "0 < holders_of ks L g \<Longrightarrow> \<exists>i < length ks. kLoop (ks ! i) = L \<and> kGate (ks ! i) = g \<and> \<not> kDone (ks ! i)"
  unfolding holders_of_def by (auto simp: filter_empty_conv) (metis in_set_conv_nth)

lemma stopping_iff_held: "gates_ok w \<Longrightarrow> (map_of (rStoppingLoops (gReg w)) L \<noteq> None) = held (abs_gates w) L"
proof
  assume ok: "gates_ok w" and "map_of (rStoppingLoops (gReg w)) L \<noteq> None"
  then obtain g where g: "map_of (rStoppingLoops (gReg w)) L = Some g" by auto
  then have "0 < holders_of (gTokens w) L g" using gates_okD(2,3) [OF ok g] by simp
  from holders_of_some [OF this] obtain i where
    "i < length (gTokens w)" "kLoop (gTokens w ! i) = L" "kGate (gTokens w ! i) = g" "\<not> kDone (gTokens w ! i)" by blast
  then show "held (abs_gates w) L" using g unfolding held_def abs_gates_def live_token_def by auto
qed (auto simp: held_def abs_gates_def live_token_def split: if_splits)

lemma history_refines: "abs_gates (fold exec_gate ops gate_start) = fold exec_hold ops no_holds"
proof (induction ops rule: rev_induct)
  case (snoc op ops)
  have "gates_ok (fold exec_gate ops gate_start)"
    by (rule gates.history_kept) (simp_all add: gate_start_ok list_all_iff)
  with snoc show ?case using gate_step [of "fold exec_gate ops gate_start" op] by simp
qed (simp add: gate_start_ok)

lemma LoopStopActive_iff: "LoopStopActive (gReg (fold exec_gate ops gate_start)) L
    \<longleftrightarrow> L \<noteq> [] \<and> held (fold exec_hold ops no_holds) L"
proof -
  have "gates_ok (fold exec_gate ops gate_start)"
    by (rule gates.history_kept) (simp_all add: gate_start_ok list_all_iff)
  from stopping_iff_held [OF this] show ?thesis by (auto simp: LoopStopActive_def history_refines)
qed

section \<open>Holds\<close>

lemma exec_hold_keeps:
  "hAt s n = Some (L, b) \<Longrightarrow> n < hNext s \<Longrightarrow> op \<noteq> ClearStop L \<Longrightarrow> b \<or> op \<noteq> ReleaseStop n \<Longrightarrow>
   hAt (exec_hold op s) n = Some (L, b) \<and> n < hNext (exec_hold op s)"
  by (cases op) (auto split: option.splits prod.splits bool.splits)

lemma fold_hold_keeps:
  "hAt s n = Some (L, b) \<Longrightarrow> n < hNext s \<Longrightarrow> ClearStop L \<notin> set ops \<Longrightarrow> b \<or> ReleaseStop n \<notin> set ops \<Longrightarrow>
   hAt (fold exec_hold ops s) n = Some (L, b)"
proof (induction ops arbitrary: s)
  case (Cons op ops)
  then have "hAt (exec_hold op s) n = Some (L, b) \<and> n < hNext (exec_hold op s)" by (intro exec_hold_keeps) auto
  with Cons show ?case by auto
qed simp

lemma exec_hold_gone:
  "hAt s n = None \<Longrightarrow> n < hNext s \<Longrightarrow> hAt (exec_hold op s) n = None \<and> n < hNext (exec_hold op s)"
  by (cases op) (auto split: option.splits prod.splits bool.splits)

lemma fold_hold_gone: "hAt s n = None \<Longrightarrow> n < hNext s \<Longrightarrow> hAt (fold exec_hold ops s) n = None"
proof (induction ops arbitrary: s)
  case (Cons op ops)
  then show ?case using exec_hold_gone [of s n op] by simp
qed simp

section \<open>Properties\<close>

text \<open>
  C21. The gates refine holds: after any history of stops, releases, clears and restores the reference
  counts and generations represent exactly the set of holds of the specification, and
  \<open>LoopStopActive\<close> answers whether the loop is held.
\<close>

theorem gates_refine_holds:
  "abs_gates (fold exec_gate ops gate_start) = fold exec_hold ops no_holds
   \<and> LoopStopActive (gReg (fold exec_gate ops gate_start)) L = (L \<noteq> [] \<and> held (fold exec_hold ops no_holds) L)"
  by (simp add: history_refines LoopStopActive_iff)

text \<open>
  Spawn admission of a loop stays closed while a hold stands: after \<open>RestoreLoopStop\<close> until the next
  \<open>ClearLoopStop\<close>, whatever other closures are released meanwhile, and after \<open>BeginLoopStop\<close> until its own
  release or a clear.
\<close>

theorem gate_closed_while_held:
  assumes "L \<noteq> []" and "op = RestoreStop L \<or> op = BeginStop L \<and> ReleaseStop (length (gTokens (fold exec_gate before gate_start))) \<notin> set after'"
    and "ClearStop L \<notin> set after'"
  shows "LoopStopActive (gReg (fold exec_gate (before @ op # after') gate_start)) L"
proof -
  let ?s = "fold exec_hold before no_holds" and ?n = "length (gTokens (fold exec_gate before gate_start))"
  have n: "hNext ?s = ?n" using history_refines [of before] hNext_abs by metis
  obtain b where op: "hAt (exec_hold op ?s) ?n = Some (L, b)" "?n < hNext (exec_hold op ?s)" "b \<or> ReleaseStop ?n \<notin> set after'"
    using assms(1,2) n by fastforce
  then have "hAt (fold exec_hold (before @ op # after') no_holds) ?n = Some (L, b)"
    using fold_hold_keeps [OF op(1,2) assms(3) op(3)] by simp
  then show ?thesis using assms(1) unfolding LoopStopActive_iff held_def by blast
qed

theorem gate_closed_while_held_witness:
  "LoopStopActive (gReg (fold exec_gate ([BeginStop ''l'', ClearStop ''l''] @ RestoreStop ''l'' # [ReleaseStop 0]) gate_start)) ''l''"
  by (rule gate_closed_while_held) simp_all

text \<open>
  A closure whose generation was retired owns nothing: released after a \<open>ClearLoopStop\<close> that came
  later than its \<open>BeginLoopStop\<close>, it leaves every hold as it is.
\<close>

theorem retired_release_changes_nothing:
  assumes "i < length (gTokens (fold exec_gate before gate_start))" "kLoop (gTokens (fold exec_gate before gate_start) ! i) = L" "L \<noteq> []"
    and w: "w = fold exec_gate (before @ ClearStop L # after') gate_start"
  shows "abs_gates (exec_gate (ReleaseStop i) w) = abs_gates w"
proof -
  let ?s = "fold exec_hold before no_holds"
  have ok: "gates_ok w" unfolding w by (rule gates.history_kept) (simp_all add: gate_start_ok list_all_iff)
  have n: "i < hNext ?s" using history_refines [of before] hNext_abs assms(1) by metis
  have at: "hAt ?s i = None \<or> (\<exists>b. hAt ?s i = Some (L, b))"
    using assms(1,2) history_refines [of before, symmetric] by (auto simp: abs_gates_def)
  have "hAt (exec_hold (ClearStop L) ?s) i = None" "i < hNext (exec_hold (ClearStop L) ?s)"
    using at assms(3) n by auto
  moreover have "abs_gates w = fold exec_hold after' (exec_hold (ClearStop L) ?s)"
    unfolding w history_refines by (simp del: exec_hold.simps)
  ultimately have "hAt (abs_gates w) i = None" using fold_hold_gone by metis
  then show ?thesis using gate_step [OF ok, of "ReleaseStop i"] by (simp del: exec_gate.simps)
qed

theorem retired_release_changes_nothing_witness:
  "abs_gates (exec_gate (ReleaseStop 0) (fold exec_gate ([BeginStop ''l''] @ ClearStop ''l'' # [BeginStop ''l'']) gate_start))
     = abs_gates (fold exec_gate ([BeginStop ''l''] @ ClearStop ''l'' # [BeginStop ''l'']) gate_start)"
  by (rule retired_release_changes_nothing [where before = "[BeginStop ''l'']" and after' = "[BeginStop ''l'']" and L = "''l''"])
    (simp_all add: take_hold_def gate_start_def BeginLoopStop_locked_def collectLoopStopTargetsLocked_def split: prod.splits)

end
