(* ===== verification/Stop_Barrier.thy ===== *)
theory Stop_Barrier
  imports Active_Executions
begin

text \<open>
  Stops and spawns interleaved: what \<open>BeginLoopStop\<close>, \<open>RestoreLoopStop\<close> and \<open>BeginShutdown\<close>
  (\<open>internal/runtime/active_executions.go\<close>) promise when they return without an error, against
  agent executions that are admitted, started, bound, restarted (native resume fallback) and
  released at the same time, as \<open>internal/agent/executor.go\<close> does it. A step is one critical
  section or one effect outside the lock. A containment handle is a number, and alive until it dies
  or its \<open>Kill\<close> succeeds, which confirms its death (a process is identified with its handle); \<open>Kill\<close> may fail, and a wait may time out. What a
  stop does about operation leases and non-agent handles only delays it or adds an error, and is left out here.
\<close>

section \<open>Executions\<close>

text \<open>Where the goroutine that owns a spawn lease stands; a handle is mentioned while only the
  goroutine knows it.\<close>

datatype spawn_pc = Absent | Admitted | Started nat | Killing nat bool | BindKilled bool | BindFailed
  | Running | RebindOpen | Restarted nat | RebindKilling nat | RebindKilled nat | RebindFailed nat | Marked | Over

record stop =
  sScope :: "string option"
  sGate :: nat
  sCancel :: "nat list"
  sKill :: "nat list"
  sSpawnWait :: "nat list"
  sRebindWait :: "nat list"
  sTake :: "nat list"
  sHadWaits :: bool
  sSecond :: "nat list option"
  sErr :: error
  sSole :: bool

record world =
  bReg :: registry
  bPc :: "nat \<Rightarrow> spawn_pc"
  bLive :: "nat \<Rightarrow> bool"
  bOwner :: "nat \<Rightarrow> nat"
  bNext :: nat
  bStops :: "nat \<Rightarrow> stop"
  bNextStop :: nat

definition loop_of :: "world \<Rightarrow> nat \<Rightarrow> string" where
  "loop_of w i = MLoopID (lMeta (rLeases (bReg w) i))"

definition handle_loop :: "world \<Rightarrow> nat \<Rightarrow> string" where
  "handle_loop w h = loop_of w (bOwner w h)"

definition finished :: "stop \<Rightarrow> bool" where
  "finished s \<longleftrightarrow> sCancel s = [] \<and> sKill s = [] \<and> sSpawnWait s = [] \<and> sRebindWait s = [] \<and> sTake s = []
     \<and> (sSecond s = Some [] \<or> \<not> sHadWaits s \<and> sSecond s = None)"

definition overlap :: "string option \<Rightarrow> string option \<Rightarrow> bool" where
  "overlap a b \<longleftrightarrow> a = None \<or> b = None \<or> a = b"

text \<open>No process in scope belongs to a spawn that an earlier gate refused.\<close>

definition settled :: "world \<Rightarrow> string option \<Rightarrow> bool" where
  "settled w scope \<longleftrightarrow> (\<forall>h < bNext w. bLive w h \<and> in_scope scope (handle_loop w h) \<longrightarrow>
     bPc w (bOwner w h) \<in> {Started h, Running, Restarted h, RebindKilling h})"

definition alone :: "world \<Rightarrow> string option \<Rightarrow> bool" where
  "alone w scope \<longleftrightarrow> settled w scope \<and> (\<forall>j < bNextStop w. overlap scope (sScope (bStops w j)) \<longrightarrow> finished (bStops w j))"

definition new_stop :: "world \<Rightarrow> string option \<Rightarrow> nat \<Rightarrow> loopStopTargets \<Rightarrow> stop" where
  "new_stop w scope gate t = \<lparr>sScope = scope, sGate = gate, sCancel = tCancel t, sKill = tKill t, sSpawnWait = tSpawnWait t,
     sRebindWait = tRebindWait t, sTake = tCancel t, sHadWaits = (tSpawnWait t \<noteq> [] \<or> tRebindWait t \<noteq> []), sSecond = None,
     sErr = [], sSole = alone w scope\<rparr>"

text \<open>A stop that begins disturbs the overlapping ones that are not finished.\<close>

definition add_stop :: "world \<Rightarrow> string option \<Rightarrow> nat \<Rightarrow> loopStopTargets \<Rightarrow> registry \<Rightarrow> world" where
  "add_stop w scope gate t r = w\<lparr>bReg := r,
     bStops := (\<lambda>j. let s = bStops w j in if overlap scope (sScope s) \<and> \<not> finished s then s\<lparr>sSole := False\<rparr> else s)
       (bNextStop w := new_stop w scope gate t), bNextStop := bNextStop w + 1\<rparr>"

definition move :: "nat \<Rightarrow> spawn_pc \<Rightarrow> registry \<Rightarrow> world \<Rightarrow> world" where
  "move i p r w = w\<lparr>bReg := r, bPc := (bPc w)(i := p)\<rparr>"

definition spawn :: "nat \<Rightarrow> (nat \<Rightarrow> spawn_pc) \<Rightarrow> world \<Rightarrow> world" where
  "spawn i p w = w\<lparr>bPc := (bPc w)(i := p (bNext w)), bLive := (bLive w)(bNext w := True),
     bOwner := (bOwner w)(bNext w := i), bNext := bNext w + 1\<rparr>"

definition kill :: "nat \<Rightarrow> world \<Rightarrow> world" where
  "kill h w = w\<lparr>bLive := (bLive w)(h := False)\<rparr>"

definition set_stop :: "nat \<Rightarrow> stop \<Rightarrow> world \<Rightarrow> world" where
  "set_stop j s w = w\<lparr>bStops := (bStops w)(j := s)\<rparr>"

text \<open>\<open>killOwned\<close> by a stop: the handle's death if \<open>Kill\<close> succeeds, the joined error, the record of it.\<close>

definition kill_entry :: "nat \<Rightarrow> error \<Rightarrow> error \<Rightarrow> world \<Rightarrow> world" where
  "kill_entry e soft err w = (let w' = (if err = [] then kill (eHandle (rEntries (bReg w) e)) w else w) in
     w'\<lparr>bReg := rememberStopDrain e (soft @ err) (\<not> bLive w' (eHandle (rEntries (bReg w) e))) (bReg w)\<rparr>)"

definition bind_pc :: "bind_result \<Rightarrow> nat \<Rightarrow> spawn_pc" where
  "bind_pc res h = (case res of Bound \<Rightarrow> Running | BindLost \<Rightarrow> Killing h False | BindRefused \<Rightarrow> Killing h True)"

definition rebind_pc :: "rebind_result \<Rightarrow> nat \<Rightarrow> spawn_pc" where
  "rebind_pc res h = (case res of Rebound \<Rightarrow> Running | RebindLost \<Rightarrow> RebindKilling h | RebindRefused \<Rightarrow> RebindKilling h)"

section \<open>Steps\<close>

inductive step :: "world \<Rightarrow> world \<Rightarrow> bool" where
  admit: "AdmitSpawn_commit m False (bReg w) = (Inr i, r) \<Longrightarrow>
     (\<forall>k. 0 < k \<and> k \<le> rNextLeaseID (bReg w) \<longrightarrow>
        lease_key (rLeases (bReg w) k) \<noteq> activeExecutionKey (MLoopID m) (MRunID m) (MExecutionID m)) \<Longrightarrow>
     step w (move i Admitted r w)"
| start: "bPc w i = Admitted \<Longrightarrow> step w (spawn i Started w)"
| bind: "bPc w i = Started h \<Longrightarrow> BindHandle_locked i h (bReg w) = (res, r) \<Longrightarrow>
     step w (move i (bind_pc res h) (if res = BindRefused then cancel_lease i r else r) w)"
| bind_kill: "bPc w i = Killing h b \<Longrightarrow> step w (kill h (move i (BindKilled b) (bReg w) w))"
| bind_kill_fails: "bPc w i = Killing h b \<Longrightarrow> err \<noteq> [] \<Longrightarrow>
     step w (move i (BindKilled b) (publishUnownedDrainErr i err (bReg w)) w)"
| bind_fails: "bPc w i = BindKilled b \<Longrightarrow>
     step w (move i BindFailed (if b then closeSpawnDone i (bReg w) else bReg w) w)"
| rebind_begin: "bPc w i = Running \<Longrightarrow> lHandle (rLeases (bReg w) i) = Some h \<Longrightarrow> \<not> bLive w h \<Longrightarrow>
     BeginRebind i (bReg w) = ([], r) \<Longrightarrow> step w (move i RebindOpen r w)"
| restart: "bPc w i = RebindOpen \<Longrightarrow> step w (spawn i Restarted w)"
| rebind_abort: "bPc w i = RebindOpen \<Longrightarrow> step w (move i Running (endRebindLocked i (bReg w)) w)"
| rebind: "bPc w i = Restarted h \<Longrightarrow> RebindHandle_locked i h (bReg w) = (res, r) \<Longrightarrow>
     step w (move i (rebind_pc res h) (if res = RebindRefused then cancel_lease i r else r) w)"
| rebind_kill: "bPc w i = RebindKilling h \<Longrightarrow> step w (kill h (move i (RebindKilled h) (bReg w) w))"
| rebind_kill_fails: "bPc w i = RebindKilling h \<Longrightarrow> err \<noteq> [] \<Longrightarrow>
     step w (move i (RebindKilled h) (publishUnownedDrainErr i err (bReg w)) w)"
| rebind_fails: "bPc w i = RebindKilled h \<Longrightarrow>
     step w (move i (RebindFailed h) (endRebindLocked i (bReg w)) w)"
| mark: "bPc w i = Admitted \<or> bPc w i = BindFailed \<or> bPc w i = RebindFailed h \<and> \<not> bLive w h
       \<or> bPc w i = Running \<and> lHandle (rLeases (bReg w) i) = Some h \<and> \<not> bLive w h \<Longrightarrow>
     step w (move i Marked (snd (Release_mark i (bReg w))) w)"
| release: "bPc w i = Marked \<Longrightarrow> step w (move i Over (Release_locked i (bReg w)) w)"
| die: "bLive w h \<Longrightarrow> step w (kill h w)"
| begin_stop: "BeginLoopStop_locked L (bReg w) = ((g, t), r) \<Longrightarrow> step w (add_stop w (Some L) g t r)"
| begin_shutdown: "BeginShutdown_locked reason (bReg w) = ((t, ops), r) \<Longrightarrow> step w (add_stop w None 0 t r)"
| clear_stop: "step w (w\<lparr>bReg := snd (ClearLoopStop L (bReg w))\<rparr>)"
| release_stop: "step w (w\<lparr>bReg := release_gate L g (bReg w)\<rparr>)"
| stop_cancel: "j < bNextStop w \<Longrightarrow> sCancel (bStops w j) = i # rest \<Longrightarrow>
     step w (set_stop j ((bStops w j)\<lparr>sCancel := rest\<rparr>) (w\<lparr>bReg := cancel_lease i (bReg w)\<rparr>))"
| stop_kill: "j < bNextStop w \<Longrightarrow> sCancel (bStops w j) = [] \<Longrightarrow> sKill (bStops w j) = e # rest \<Longrightarrow>
     step w (set_stop j ((bStops w j)\<lparr>sKill := rest, sErr := sErr (bStops w j) @ soft @ err\<rparr>) (kill_entry e soft err w))"
| stop_spawn_wait: "j < bNextStop w \<Longrightarrow> sCancel (bStops w j) = [] \<Longrightarrow> sKill (bStops w j) = [] \<Longrightarrow>
     sSpawnWait (bStops w j) = i # rest \<Longrightarrow>
     s = (if timeout then (bStops w j)\<lparr>sSpawnWait := rest, sErr := sErr (bStops w j) @ [ErrLoopStopWaitTimeout]\<rparr>
          else (bStops w j)\<lparr>sSpawnWait := rest\<rparr>) \<Longrightarrow>
     timeout \<or> lSpawnDone (rLeases (bReg w) i) \<Longrightarrow> step w (set_stop j s w)"
| stop_rebind_wait: "j < bNextStop w \<Longrightarrow> sCancel (bStops w j) = [] \<Longrightarrow> sKill (bStops w j) = [] \<Longrightarrow>
     sSpawnWait (bStops w j) = [] \<Longrightarrow> sRebindWait (bStops w j) = c # rest \<Longrightarrow>
     s = (if timeout then (bStops w j)\<lparr>sRebindWait := rest, sErr := sErr (bStops w j) @ [ErrLoopStopWaitTimeout]\<rparr>
          else (bStops w j)\<lparr>sRebindWait := rest\<rparr>) \<Longrightarrow>
     timeout \<or> rChanClosed (bReg w) c \<Longrightarrow> step w (set_stop j s w)"
| stop_take: "j < bNextStop w \<Longrightarrow> sCancel (bStops w j) = [] \<Longrightarrow> sKill (bStops w j) = [] \<Longrightarrow>
     sSpawnWait (bStops w j) = [] \<Longrightarrow> sRebindWait (bStops w j) = [] \<Longrightarrow> sTake (bStops w j) = i # rest \<Longrightarrow>
     takeUnownedDrainErr i (bReg w) = (err, r) \<Longrightarrow>
     step w (set_stop j ((bStops w j)\<lparr>sTake := rest, sErr := sErr (bStops w j) @ err\<rparr>) (w\<lparr>bReg := r\<rparr>))"
| stop_second: "j < bNextStop w \<Longrightarrow> sCancel (bStops w j) = [] \<Longrightarrow> sKill (bStops w j) = [] \<Longrightarrow>
     sSpawnWait (bStops w j) = [] \<Longrightarrow> sRebindWait (bStops w j) = [] \<Longrightarrow> sTake (bStops w j) = [] \<Longrightarrow>
     sHadWaits (bStops w j) \<Longrightarrow> sSecond (bStops w j) = None \<Longrightarrow>
     step w (set_stop j ((bStops w j)\<lparr>sSecond := Some (scoped_entries (sScope (bStops w j)) (bReg w))\<rparr>) w)"
| stop_kill_second: "j < bNextStop w \<Longrightarrow> sCancel (bStops w j) = [] \<Longrightarrow> sKill (bStops w j) = [] \<Longrightarrow>
     sSpawnWait (bStops w j) = [] \<Longrightarrow> sRebindWait (bStops w j) = [] \<Longrightarrow> sTake (bStops w j) = [] \<Longrightarrow>
     sSecond (bStops w j) = Some (e # rest) \<Longrightarrow>
     step w (set_stop j ((bStops w j)\<lparr>sSecond := Some rest, sErr := sErr (bStops w j) @ soft @ err\<rparr>) (kill_entry e soft err w))"

inductive_cases step_elim: "step w w'"

definition start_world :: "world \<Rightarrow> bool" where
  "start_world w \<longleftrightarrow> bReg w = NewActiveExecutionRegistry \<and> bPc w = (\<lambda>_. Absent) \<and> bLive w = (\<lambda>_. False)
     \<and> bNext w = 0 \<and> bNextStop w = 0"

definition reachable_world :: "world \<Rightarrow> bool" where
  "reachable_world w \<longleftrightarrow> (\<exists>w0. start_world w0 \<and> step\<^sup>*\<^sup>* w0 w)"
section \<open>The invariant\<close>

fun pc_handle :: "spawn_pc \<Rightarrow> nat option" where
  "pc_handle (Started h) = Some h"
| "pc_handle (Killing h _) = Some h"
| "pc_handle (Restarted h) = Some h"
| "pc_handle (RebindKilling h) = Some h"
| "pc_handle (RebindKilled h) = Some h"
| "pc_handle (RebindFailed h) = Some h"
| "pc_handle _ = None"

fun is_spawning :: "spawn_pc \<Rightarrow> bool" where
  "is_spawning Admitted = True"
| "is_spawning (Started _) = True"
| "is_spawning _ = False"

fun is_killing :: "spawn_pc \<Rightarrow> bool" where
  "is_killing (Killing _ _) = True"
| "is_killing _ = False"

fun awaits_rebind :: "spawn_pc \<Rightarrow> bool" where
  "awaits_rebind RebindOpen = True"
| "awaits_rebind (Restarted _) = True"
| "awaits_rebind (RebindKilling _) = True"
| "awaits_rebind _ = False"

fun is_refused :: "spawn_pc \<Rightarrow> bool" where
  "is_refused (RebindKilled _) = True"
| "is_refused (RebindFailed _) = True"
| "is_refused (BindKilled _) = True"
| "is_refused BindFailed = True"
| "is_refused Marked = True"
| "is_refused Over = True"
| "is_refused _ = False"

fun is_dropped :: "spawn_pc \<Rightarrow> bool" where
  "is_dropped (BindKilled _) = True"
| "is_dropped BindFailed = True"
| "is_dropped Marked = True"
| "is_dropped Over = True"
| "is_dropped _ = False"

definition in_window :: "spawn_pc \<Rightarrow> bool" where
  "in_window p \<longleftrightarrow> awaits_rebind p \<or> (\<exists>h. p = RebindKilled h)"

definition lease_ok :: "registry \<Rightarrow> spawn_pc \<Rightarrow> nat \<Rightarrow> bool" where
  "lease_ok r p i \<longleftrightarrow>
     (p \<noteq> Absent \<longrightarrow> 0 < i \<and> i \<le> rNextLeaseID r)
   \<and> (is_spawning p \<longrightarrow> i \<in> set (rPending r) \<and> \<not> lReleased (rLeases r i))
   \<and> (is_spawning p \<or> is_killing p \<longrightarrow> \<not> lSpawnDone (rLeases r i))
   \<and> (\<forall>h. p \<noteq> Killing h False)
   \<and> (p = Running \<or> in_window p \<longrightarrow> i \<in> set (rActive r) \<and> \<not> lReleased (rLeases r i))
   \<and> (in_window p \<longrightarrow> lRebinding (rLeases r i) \<and> (\<exists>c. lRebindDone (rLeases r i) = Some c \<and> \<not> rChanClosed r c))"

definition handle_ok :: "registry \<Rightarrow> spawn_pc \<Rightarrow> nat \<Rightarrow> nat \<Rightarrow> bool" where
  "handle_ok r p i h \<longleftrightarrow> pc_handle p = Some h \<or> is_dropped p
     \<or> p = Running \<and> lHandle (rLeases r i) = Some h
       \<and> (\<exists>e. map_of (rExecutions r) (lease_key (rLeases r i)) = Some e \<and> eHandle (rEntries r e) = h)"

definition spawns_ok :: "registry \<Rightarrow> bool" where
  "spawns_ok r \<longleftrightarrow>
     (\<forall>i \<in> set (rPending r) \<union> set (rActive r). i \<le> rNextLeaseID r)
   \<and> (\<forall>i k. 0 < i \<and> i \<le> rNextLeaseID r \<and> 0 < k \<and> k \<le> rNextLeaseID r \<and> lease_key (rLeases r i) = lease_key (rLeases r k) \<longrightarrow> i = k)
   \<and> (\<forall>k e. map_of (rExecutions r) k = Some e \<longrightarrow> e < rNextEntry r \<and> entry_key (rEntries r e) = k
        \<and> (\<exists>i. 0 < i \<and> i \<le> rNextLeaseID r \<and> lease_key (rLeases r i) = k \<and> eLoopID (rEntries r e) = MLoopID (lMeta (rLeases r i))))
   \<and> (\<forall>i c. lRebindDone (rLeases r i) = Some c \<longrightarrow> c < rNextChan r)
   \<and> (\<forall>i k c. lRebindDone (rLeases r i) = Some c \<and> lRebindDone (rLeases r k) = Some c \<longrightarrow> i = k)
   \<and> (\<forall>L g. map_of (rStoppingLoops r) L = Some g \<longrightarrow> g < rNextGate r)
   \<and> distinct (map fst (rExecutions r))"

definition gated :: "registry \<Rightarrow> stop \<Rightarrow> bool" where
  "gated r s \<longleftrightarrow> (case sScope s of None \<Rightarrow> rAdmissionClosed r
     | Some L \<Rightarrow> L \<noteq> [] \<and> map_of (rStoppingLoops r) L = Some (sGate s))"

definition watching :: "registry \<Rightarrow> stop \<Rightarrow> bool" where
  "watching r s \<longleftrightarrow> gated r s \<and> sSole s \<and> sErr s = []"

text \<open>What a stop has recorded of the leases in its scope, as long as its gate is closed and nothing failed.\<close>

definition tracked :: "world \<Rightarrow> stop \<Rightarrow> nat \<Rightarrow> bool" where
  "tracked w s i \<longleftrightarrow>
     (is_spawning (bPc w i) \<or> (\<exists>h b. bPc w i = Killing h b \<and> bLive w h \<and> bOwner w h = i) \<longrightarrow> i \<in> set (sSpawnWait s) \<and> i \<in> set (sTake s))
   \<and> (awaits_rebind (bPc w i) \<longrightarrow> i \<in> set (sTake s) \<and> (\<exists>c. lRebindDone (rLeases (bReg w) i) = Some c \<and> c \<in> set (sRebindWait s)))
   \<and> (\<forall>h. bPc w i = Running \<and> lHandle (rLeases (bReg w) i) = Some h \<and> bLive w h \<and> bOwner w h = i \<longrightarrow>
        (\<exists>e \<in> set (sKill s). eHandle (rEntries (bReg w) e) = h))
   \<and> (\<forall>h. is_refused (bPc w i) \<and> bLive w h \<and> bOwner w h = i \<longrightarrow>
        lUnownedDrainErr (rLeases (bReg w) i) \<noteq> [] \<and> i \<in> set (sTake s))"

definition stop_ok :: "world \<Rightarrow> stop \<Rightarrow> bool" where
  "stop_ok w s \<longleftrightarrow>
     (\<forall>i \<in> set (sTake s). i \<le> rNextLeaseID (bReg w) \<and> in_scope (sScope s) (loop_of w i))
   \<and> (\<forall>e \<in> set (sKill s). e < rNextEntry (bReg w) \<and> in_scope (sScope s) (eLoopID (rEntries (bReg w) e)))
   \<and> (sScope s \<noteq> None \<longrightarrow> sGate s < rNextGate (bReg w))
   \<and> (sScope s = None \<longrightarrow> rAdmissionClosed (bReg w))
   \<and> (watching (bReg w) s \<longrightarrow> (\<forall>i. bPc w i \<noteq> Absent \<and> in_scope (sScope s) (loop_of w i) \<longrightarrow> tracked w s i))"

definition stops_ok :: "world \<Rightarrow> bool" where
  "stops_ok w \<longleftrightarrow> (\<forall>j < bNextStop w. stop_ok w (bStops w j))
   \<and> (\<forall>j < bNextStop w. \<forall>k < bNextStop w. j \<noteq> k \<and> overlap (sScope (bStops w j)) (sScope (bStops w k))
        \<and> sSole (bStops w j) \<and> \<not> finished (bStops w j) \<longrightarrow> finished (bStops w k))"

definition world_ok :: "world \<Rightarrow> bool" where
  "world_ok w \<longleftrightarrow> spawns_ok (bReg w) \<and> (\<forall>i. lease_ok (bReg w) (bPc w i) i)
   \<and> (\<forall>h. bLive w h \<longrightarrow> h < bNext w \<and> bPc w (bOwner w h) \<noteq> Absent \<and> handle_ok (bReg w) (bPc w (bOwner w h)) (bOwner w h) h)
   \<and> stops_ok w"

lemma start_world_ok: "start_world w \<Longrightarrow> world_ok w"
  by (simp add: start_world_def world_ok_def NewActiveExecutionRegistry_def spawns_ok_def lease_ok_def in_window_def
      stops_ok_def blank_lease_def)

section \<open>What the steps leave alone\<close>

lemma lease_key_cong: "lMeta l = lMeta l' \<Longrightarrow> lease_key l = lease_key l'"
  by (simp add: lease_key_def)

text \<open>A critical section of the owner of lease \<open>i\<close>: the other leases, the keys, gates and the other
  leases' entries stay.\<close>

definition frame :: "nat \<Rightarrow> registry \<Rightarrow> registry \<Rightarrow> bool" where
  "frame i r r' \<longleftrightarrow> rNextLeaseID r' = rNextLeaseID r \<and> rNextEntry r \<le> rNextEntry r' \<and> rNextChan r \<le> rNextChan r'
   \<and> rNextGate r' = rNextGate r \<and> rAdmissionClosed r' = rAdmissionClosed r \<and> rStoppingLoops r' = rStoppingLoops r
   \<and> (\<forall>k. k \<noteq> i \<longrightarrow> rLeases r' k = rLeases r k) \<and> lMeta (rLeases r' i) = lMeta (rLeases r i)
   \<and> (\<forall>k. k \<noteq> i \<longrightarrow> (k \<in> set (rPending r') \<longleftrightarrow> k \<in> set (rPending r)) \<and> (k \<in> set (rActive r') \<longleftrightarrow> k \<in> set (rActive r)))
   \<and> (\<forall>k. k \<noteq> lease_key (rLeases r i) \<longrightarrow> map_of (rExecutions r') k = map_of (rExecutions r) k)
   \<and> (\<forall>e. e < rNextEntry r \<longrightarrow> eLoopID (rEntries r' e) = eLoopID (rEntries r e)
        \<and> entry_key (rEntries r' e) = entry_key (rEntries r e)
        \<and> (eHandle (rEntries r' e) \<noteq> eHandle (rEntries r e) \<longrightarrow> map_of (rExecutions r) (lease_key (rLeases r i)) = Some e))
   \<and> (\<forall>e. map_of (rExecutions r') (lease_key (rLeases r i)) = Some e \<longrightarrow>
        e < rNextEntry r' \<and> entry_key (rEntries r' e) = lease_key (rLeases r i)
        \<and> eLoopID (rEntries r' e) = MLoopID (lMeta (rLeases r i)))
   \<and> (\<forall>c. lRebindDone (rLeases r' i) = Some c \<longrightarrow> c < rNextChan r' \<and> (lRebindDone (rLeases r i) = Some c \<or> rNextChan r \<le> c))
   \<and> (\<forall>c. rChanClosed r' c \<noteq> rChanClosed r c \<longrightarrow> lRebindDone (rLeases r i) = Some c \<or> rNextChan r \<le> c)
   \<and> (rAdmissionClosed r \<or> stopping r (MLoopID (lMeta (rLeases r i))) \<longrightarrow>
        (\<forall>e < rNextEntry r. eHandle (rEntries r' e) = eHandle (rEntries r e)))
   \<and> (distinct (map fst (rExecutions r)) \<longrightarrow> distinct (map fst (rExecutions r')))"

lemma spawns_okD:
  assumes "spawns_ok r"
  shows "i \<in> set (rPending r) \<Longrightarrow> i \<le> rNextLeaseID r" "i \<in> set (rActive r) \<Longrightarrow> i \<le> rNextLeaseID r"
    "0 < i \<Longrightarrow> i \<le> rNextLeaseID r \<Longrightarrow> 0 < k \<Longrightarrow> k \<le> rNextLeaseID r \<Longrightarrow> lease_key (rLeases r i) = lease_key (rLeases r k) \<Longrightarrow> i = k"
    "map_of (rExecutions r) key = Some e \<Longrightarrow> e < rNextEntry r"
    "map_of (rExecutions r) key = Some e \<Longrightarrow> entry_key (rEntries r e) = key"
    "map_of (rExecutions r) key = Some e \<Longrightarrow>
       \<exists>i. 0 < i \<and> i \<le> rNextLeaseID r \<and> lease_key (rLeases r i) = key \<and> eLoopID (rEntries r e) = MLoopID (lMeta (rLeases r i))"
    "lRebindDone (rLeases r i) = Some c \<Longrightarrow> c < rNextChan r"
    "lRebindDone (rLeases r i) = Some c \<Longrightarrow> lRebindDone (rLeases r k) = Some c \<Longrightarrow> i = k"
    "map_of (rStoppingLoops r) L = Some g \<Longrightarrow> g < rNextGate r"
    "distinct (map fst (rExecutions r))"
  using assms unfolding spawns_ok_def by blast+

lemma spawns_okI:
  assumes "\<And>i. i \<in> set (rPending r) \<or> i \<in> set (rActive r) \<Longrightarrow> i \<le> rNextLeaseID r"
    and "\<And>i k. 0 < i \<Longrightarrow> i \<le> rNextLeaseID r \<Longrightarrow> 0 < k \<Longrightarrow> k \<le> rNextLeaseID r \<Longrightarrow>
      lease_key (rLeases r i) = lease_key (rLeases r k) \<Longrightarrow> i = k"
    and "\<And>key e. map_of (rExecutions r) key = Some e \<Longrightarrow> e < rNextEntry r \<and> entry_key (rEntries r e) = key
       \<and> (\<exists>i. 0 < i \<and> i \<le> rNextLeaseID r \<and> lease_key (rLeases r i) = key \<and> eLoopID (rEntries r e) = MLoopID (lMeta (rLeases r i)))"
    and "\<And>i c. lRebindDone (rLeases r i) = Some c \<Longrightarrow> c < rNextChan r"
    and "\<And>i k c. lRebindDone (rLeases r i) = Some c \<Longrightarrow> lRebindDone (rLeases r k) = Some c \<Longrightarrow> i = k"
    and "\<And>L g. map_of (rStoppingLoops r) L = Some g \<Longrightarrow> g < rNextGate r"
    and "distinct (map fst (rExecutions r))"
  shows "spawns_ok r"
  unfolding spawns_ok_def using assms by blast

lemma frameD:
  assumes "frame i r r'"
  shows "rNextLeaseID r' = rNextLeaseID r" "rNextEntry r \<le> rNextEntry r'" "rNextChan r \<le> rNextChan r'"
    "rNextGate r' = rNextGate r" "rAdmissionClosed r' = rAdmissionClosed r" "rStoppingLoops r' = rStoppingLoops r"
    "k \<noteq> i \<Longrightarrow> rLeases r' k = rLeases r k" "lMeta (rLeases r' k) = lMeta (rLeases r k)"
    "k \<noteq> i \<Longrightarrow> k \<in> set (rPending r') \<longleftrightarrow> k \<in> set (rPending r)" "k \<noteq> i \<Longrightarrow> k \<in> set (rActive r') \<longleftrightarrow> k \<in> set (rActive r)"
    "key \<noteq> lease_key (rLeases r i) \<Longrightarrow> map_of (rExecutions r') key = map_of (rExecutions r) key"
    "e < rNextEntry r \<Longrightarrow> eLoopID (rEntries r' e) = eLoopID (rEntries r e)"
    "e < rNextEntry r \<Longrightarrow> entry_key (rEntries r' e) = entry_key (rEntries r e)"
    "e < rNextEntry r \<Longrightarrow> eHandle (rEntries r' e) \<noteq> eHandle (rEntries r e) \<Longrightarrow>
       map_of (rExecutions r) (lease_key (rLeases r i)) = Some e"
    "map_of (rExecutions r') (lease_key (rLeases r i)) = Some e \<Longrightarrow> e < rNextEntry r'"
    "map_of (rExecutions r') (lease_key (rLeases r i)) = Some e \<Longrightarrow> entry_key (rEntries r' e) = lease_key (rLeases r i)"
    "map_of (rExecutions r') (lease_key (rLeases r i)) = Some e \<Longrightarrow> eLoopID (rEntries r' e) = MLoopID (lMeta (rLeases r i))"
    "lRebindDone (rLeases r' i) = Some c \<Longrightarrow> c < rNextChan r'"
    "lRebindDone (rLeases r' i) = Some c \<Longrightarrow> lRebindDone (rLeases r i) = Some c \<or> rNextChan r \<le> c"
    "rChanClosed r' c \<noteq> rChanClosed r c \<Longrightarrow> lRebindDone (rLeases r i) = Some c \<or> rNextChan r \<le> c"
    "rAdmissionClosed r \<or> stopping r (MLoopID (lMeta (rLeases r i))) \<Longrightarrow> e < rNextEntry r \<Longrightarrow>
       eHandle (rEntries r' e) = eHandle (rEntries r e)"
    "lease_key (rLeases r' k) = lease_key (rLeases r k)"
    "distinct (map fst (rExecutions r)) \<Longrightarrow> distinct (map fst (rExecutions r'))"
proof -
  show same: "lMeta (rLeases r' k) = lMeta (rLeases r k)" using assms by (cases "k = i") (simp_all add: frame_def)
  show "lease_key (rLeases r' k) = lease_key (rLeases r k)" by (rule lease_key_cong [OF same])
qed (use assms in \<open>unfold frame_def, blast+\<close>)

lemma registry_frame:
  assumes ok: "spawns_ok r" and f: "frame i r r'" and i: "0 < i" "i \<le> rNextLeaseID r"
  shows "spawns_ok r'"
proof (rule spawns_okI)
  note F = frameD [OF f] and R = spawns_okD [OF ok]
  show "k \<le> rNextLeaseID r'" if "k \<in> set (rPending r') \<or> k \<in> set (rActive r')" for k
    using that F(1) F(9) [of k] F(10) [of k] R(1,2) [of k] i by (cases "k = i") auto
  show "j = k" if "0 < j" "j \<le> rNextLeaseID r'" "0 < k" "k \<le> rNextLeaseID r'" "lease_key (rLeases r' j) = lease_key (rLeases r' k)" for j k
    using that R(3) unfolding F by blast
  show "e < rNextEntry r' \<and> entry_key (rEntries r' e) = key \<and> (\<exists>i. 0 < i \<and> i \<le> rNextLeaseID r' \<and>
        lease_key (rLeases r' i) = key \<and> eLoopID (rEntries r' e) = MLoopID (lMeta (rLeases r' i)))"
    if e: "map_of (rExecutions r') key = Some e" for key e
  proof (cases "key = lease_key (rLeases r i)")
    case True
    then show ?thesis using F(15,16,17) [of e] e i unfolding F(1,8,22) by blast
  next
    case False
    then have "map_of (rExecutions r) key = Some e" using e F(11) by simp
    from R(4,5,6) [OF this] show ?thesis using F(2) F(12,13) [of e] unfolding F(1,8,22) by auto
  qed
  have chan: "lRebindDone (rLeases r' k) = Some c \<Longrightarrow>
      c < rNextChan r' \<and> (lRebindDone (rLeases r k) = Some c \<or> k = i \<and> rNextChan r \<le> c)" for k c
    using F(7) [of k] F(18,19) [of c] F(3) R(7) [of k c] by (cases "k = i") auto
  then show "c < rNextChan r'" if "lRebindDone (rLeases r' k) = Some c" for k c using that by blast
  show "k = m" if "lRebindDone (rLeases r' k) = Some c" "lRebindDone (rLeases r' m) = Some c" for k m c
    using chan [OF that(1)] chan [OF that(2)] R(8) [of k c m] R(7) [of k c] R(7) [of m c] by auto
  show "g < rNextGate r'" if "map_of (rStoppingLoops r') L = Some g" for L g using that R(9) unfolding F by blast
  show "distinct (map fst (rExecutions r'))" by (rule F(23) [OF R(10)])
qed

lemma lease_frame:
  assumes ok: "spawns_ok r" and f: "frame i r r'" and k: "k \<noteq> i" and l: "lease_ok r p k"
  shows "lease_ok r' p k"
proof -
  note F = frameD [OF f] and R = spawns_okD [OF ok]
  have "\<not> rChanClosed r' c" if "lRebindDone (rLeases r k) = Some c" "\<not> rChanClosed r c" for c
    using that F(20) [of c] R(7) [OF that(1)] R(8) [OF that(1), of i] k by auto
  then show ?thesis using l unfolding lease_ok_def F(1) F(7) [OF k] F(9) [OF k] F(10) [OF k] by auto
qed

lemma handle_frame:
  assumes ok: "spawns_ok r" and f: "frame i r r'" and k: "k \<noteq> i" "0 < k" "k \<le> rNextLeaseID r" "0 < i" "i \<le> rNextLeaseID r"
    and h: "handle_ok r p k h"
  shows "handle_ok r' p k h"
proof -
  note F = frameD [OF f] and R = spawns_okD [OF ok]
  have key: "lease_key (rLeases r k) \<noteq> lease_key (rLeases r i)" using R(3) k by blast
  have "map_of (rExecutions r') (lease_key (rLeases r k)) = Some e \<and> eHandle (rEntries r' e) = h"
    if e: "map_of (rExecutions r) (lease_key (rLeases r k)) = Some e" "eHandle (rEntries r e) = h" for e
  proof -
    have "map_of (rExecutions r) (lease_key (rLeases r i)) \<noteq> Some e" using R(5) [OF e(1)] R(5) [of _ e] key by metis
    then have "eHandle (rEntries r' e) = eHandle (rEntries r e)" using R(4) [OF e(1)] F(14) [of e] by blast
    then show ?thesis using e F(11) [OF key] by simp
  qed
  then show ?thesis using h unfolding handle_ok_def F(7) [OF k(1)] by blast
qed

lemma move_simps [simp]:
  "bReg (move i p r w) = r" "bPc (move i p r w) = (bPc w)(i := p)" "bLive (move i p r w) = bLive w"
  "bOwner (move i p r w) = bOwner w" "bNext (move i p r w) = bNext w" "bStops (move i p r w) = bStops w"
  "bNextStop (move i p r w) = bNextStop w"
  by (simp_all add: move_def)

lemma kill_simps [simp]:
  "bReg (kill h w) = bReg w" "bPc (kill h w) = bPc w" "bLive (kill h w) = (bLive w)(h := False)"
  "bOwner (kill h w) = bOwner w" "bNext (kill h w) = bNext w" "bStops (kill h w) = bStops w"
  "bNextStop (kill h w) = bNextStop w"
  by (simp_all add: kill_def)

lemma world_okD:
  assumes "world_ok w"
  shows "spawns_ok (bReg w)" "lease_ok (bReg w) (bPc w i) i"
    "bLive w h \<Longrightarrow> h < bNext w" "bLive w h \<Longrightarrow> bPc w (bOwner w h) \<noteq> Absent"
    "bLive w h \<Longrightarrow> handle_ok (bReg w) (bPc w (bOwner w h)) (bOwner w h) h"
    "stops_ok w"
  using assms unfolding world_ok_def by blast+

lemma lease_range: "lease_ok r p i \<Longrightarrow> p \<noteq> Absent \<Longrightarrow> 0 < i \<and> i \<le> rNextLeaseID r"
  by (simp add: lease_ok_def)

lemma gated_closes:
  "gated r s \<Longrightarrow> in_scope (sScope s) L \<Longrightarrow> rAdmissionClosed r \<or> stopping r L"
  by (auto simp: gated_def in_scope_def stopping_def split: option.splits)

lemma stops_okD:
  assumes "stops_ok w"
  shows "j < bNextStop w \<Longrightarrow> stop_ok w (bStops w j)"
    "j < bNextStop w \<Longrightarrow> k < bNextStop w \<Longrightarrow> j \<noteq> k \<Longrightarrow> overlap (sScope (bStops w j)) (sScope (bStops w k)) \<Longrightarrow>
       sSole (bStops w j) \<Longrightarrow> \<not> finished (bStops w j) \<Longrightarrow> finished (bStops w k)"
  using assms unfolding stops_ok_def by blast+

lemma stop_okD:
  assumes "stop_ok w s"
  shows "i \<in> set (sTake s) \<Longrightarrow> i \<le> rNextLeaseID (bReg w)" "i \<in> set (sTake s) \<Longrightarrow> in_scope (sScope s) (loop_of w i)"
    "e \<in> set (sKill s) \<Longrightarrow> e < rNextEntry (bReg w)" "e \<in> set (sKill s) \<Longrightarrow> in_scope (sScope s) (eLoopID (rEntries (bReg w) e))"
    "sScope s \<noteq> None \<Longrightarrow> sGate s < rNextGate (bReg w)"
    "watching (bReg w) s \<Longrightarrow> bPc w i \<noteq> Absent \<Longrightarrow> in_scope (sScope s) (loop_of w i) \<Longrightarrow> tracked w s i"
    "sScope s = None \<Longrightarrow> rAdmissionClosed (bReg w)"
  using assms unfolding stop_ok_def by blast+

lemma stop_okI:
  assumes "\<And>i. i \<in> set (sTake s) \<Longrightarrow> i \<le> rNextLeaseID (bReg w) \<and> in_scope (sScope s) (loop_of w i)"
    and "\<And>e. e \<in> set (sKill s) \<Longrightarrow> e < rNextEntry (bReg w) \<and> in_scope (sScope s) (eLoopID (rEntries (bReg w) e))"
    and "sScope s \<noteq> None \<Longrightarrow> sGate s < rNextGate (bReg w)"
    and "sScope s = None \<Longrightarrow> rAdmissionClosed (bReg w)"
    and "\<And>i. watching (bReg w) s \<Longrightarrow> bPc w i \<noteq> Absent \<Longrightarrow> in_scope (sScope s) (loop_of w i) \<Longrightarrow> tracked w s i"
  shows "stop_ok w s"
  unfolding stop_ok_def using assms by blast

lemma world_okI:
  assumes "spawns_ok (bReg w)" and "\<And>i. lease_ok (bReg w) (bPc w i) i"
    and "\<And>h. bLive w h \<Longrightarrow> h < bNext w \<and> bPc w (bOwner w h) \<noteq> Absent \<and> handle_ok (bReg w) (bPc w (bOwner w h)) (bOwner w h) h"
    and "\<And>j. j < bNextStop w \<Longrightarrow> stop_ok w (bStops w j)"
    and "\<And>j k. j < bNextStop w \<Longrightarrow> k < bNextStop w \<Longrightarrow> j \<noteq> k \<Longrightarrow> overlap (sScope (bStops w j)) (sScope (bStops w k)) \<Longrightarrow>
       sSole (bStops w j) \<Longrightarrow> \<not> finished (bStops w j) \<Longrightarrow> finished (bStops w k)"
  shows "world_ok w"
  unfolding world_ok_def stops_ok_def using assms by blast

lemma gated_cong: "rAdmissionClosed r' = rAdmissionClosed r \<Longrightarrow> rStoppingLoops r' = rStoppingLoops r \<Longrightarrow> gated r' s = gated r s"
  by (simp add: gated_def split: option.splits)

lemma frame_watching: "frame i r r' \<Longrightarrow> watching r' s = watching r s"
  by (simp add: watching_def gated_def frameD split: option.splits)

lemma frame_loop_of: "frame i (bReg w) r' \<Longrightarrow> loop_of (move k p r' w) = loop_of w"
  by (simp add: loop_of_def frameD fun_eq_iff)

lemma tracked_frame:
  assumes ok: "spawns_ok (bReg w)" and f: "frame i (bReg w) r'" and i: "0 < i" "i \<le> rNextLeaseID (bReg w)" and k: "k \<noteq> i"
    and s: "stop_ok w s" "gated (bReg w) s" and t: "tracked w s k"
  shows "tracked (move i p r' w) s k"
proof -
  note F = frameD [OF f] and R = spawns_okD [OF ok]
  have "eHandle (rEntries r' e) = eHandle (rEntries (bReg w) e)" if e: "e \<in> set (sKill s)" for e
  proof (rule ccontr)
    assume ne: "\<not> ?thesis"
    have lt: "e < rNextEntry (bReg w)" by (rule stop_okD(3) [OF s(1) e])
    have m: "map_of (rExecutions (bReg w)) (lease_key (rLeases (bReg w) i)) = Some e" using F(14) [OF lt ne] .
    from R(6) [OF m] obtain n where n: "0 < n" "n \<le> rNextLeaseID (bReg w)"
      "lease_key (rLeases (bReg w) n) = lease_key (rLeases (bReg w) i)"
      "eLoopID (rEntries (bReg w) e) = MLoopID (lMeta (rLeases (bReg w) n))" by blast
    with R(3) [OF n(1,2) i] have "eLoopID (rEntries (bReg w) e) = MLoopID (lMeta (rLeases (bReg w) i))" by blast
    then have "in_scope (sScope s) (MLoopID (lMeta (rLeases (bReg w) i)))" using stop_okD(4) [OF s(1) e] by simp
    from F(21) [OF gated_closes [OF s(2) this] lt] ne show False by simp
  qed
  then show ?thesis using t k unfolding tracked_def by (simp add: F(7) [OF k])
qed

lemma move_ok:
  assumes ok: "world_ok w" and f: "frame i (bReg w) r'" and pc: "bPc w i \<noteq> Absent"
    and p: "p \<noteq> Absent" and l: "lease_ok r' p i"
    and h: "\<And>h. bLive w h \<Longrightarrow> bOwner w h = i \<Longrightarrow> handle_ok r' p i h"
    and t: "\<And>s. rAdmissionClosed (bReg w) \<or> stopping (bReg w) (loop_of w i) \<Longrightarrow> tracked w s i \<Longrightarrow> tracked (move i p r' w) s i"
  shows "world_ok (move i p r' w)"
proof -
  note F = frameD [OF f] and W = world_okD [OF ok]
  have i: "0 < i" "i \<le> rNextLeaseID (bReg w)" using lease_range [OF W(2) pc] by auto
  have "stop_ok (move i p r' w) s" if s: "stop_ok w s" for s
  proof -
    have "tracked (move i p r' w) s k" if k: "watching (bReg w) s" "bPc w k \<noteq> Absent" "in_scope (sScope s) (loop_of w k)" for k
    proof (cases "k = i")
      case True
      have "gated (bReg w) s" using k(1) by (simp add: watching_def)
      from gated_closes [OF this k(3)] show ?thesis using t [of s] stop_okD(6) [OF s k] True by blast
    next
      case False
      from k(1) have "gated (bReg w) s" by (simp add: watching_def)
      from tracked_frame [OF W(1) f i False s this stop_okD(6) [OF s k]] show ?thesis .
    qed
    note tracked' = this
    show ?thesis
    proof (rule stop_okI)
      show "k \<le> rNextLeaseID (bReg (move i p r' w)) \<and> in_scope (sScope s) (loop_of (move i p r' w) k)" if "k \<in> set (sTake s)" for k
        using stop_okD(1,2) [OF s that] F(1) by (simp add: frame_loop_of [OF f])
      show "e < rNextEntry (bReg (move i p r' w)) \<and> in_scope (sScope s) (eLoopID (rEntries (bReg (move i p r' w)) e))"
        if "e \<in> set (sKill s)" for e
        using stop_okD(3,4) [OF s that] F(2) F(12) [of e] by simp
      show "sGate s < rNextGate (bReg (move i p r' w))" if "sScope s \<noteq> None"
        using stop_okD(5) [OF s that] F(4) by simp
      show "rAdmissionClosed (bReg (move i p r' w))" if "sScope s = None"
        using stop_okD(7) [OF s that] F(5) by simp
      show "tracked (move i p r' w) s k"
        if "watching (bReg (move i p r' w)) s" "bPc (move i p r' w) k \<noteq> Absent" "in_scope (sScope s) (loop_of (move i p r' w) k)" for k
        using tracked' [of k] that pc unfolding frame_loop_of [OF f] move_simps frame_watching [OF f]
        by (cases "k = i") simp_all
    qed
  qed
  note stops = this
  show ?thesis
  proof (rule world_okI)
    show "spawns_ok (bReg (move i p r' w))" using registry_frame [OF W(1) f i] by simp
    show "lease_ok (bReg (move i p r' w)) (bPc (move i p r' w) k) k" for k
      using l lease_frame [OF W(1) f _ W(2), of k] by simp
    show "x < bNext (move i p r' w) \<and> bPc (move i p r' w) (bOwner (move i p r' w) x) \<noteq> Absent \<and>
        handle_ok (bReg (move i p r' w)) (bPc (move i p r' w) (bOwner (move i p r' w) x)) (bOwner (move i p r' w) x) x"
      if "bLive (move i p r' w) x" for x
    proof -
      have x: "bLive w x" using that by simp
      show ?thesis
        using h [OF x] handle_frame [OF W(1) f _ _ _ i W(5) [OF x]] lease_range [OF W(2) W(4) [OF x]] W(3,4) [OF x] p
        by simp
    qed
    show "stop_ok (move i p r' w) (bStops (move i p r' w) j)" if "j < bNextStop (move i p r' w)" for j
      using stops stops_okD(1) [OF W(6)] that by simp
  qed (use stops_okD(2) [OF W(6)] in simp)
qed

lemma kill_ok: assumes ok: "world_ok w" shows "world_ok (kill h w)"
proof (rule world_okI)
  note W = world_okD [OF ok]
  show "stop_ok (kill h w) (bStops (kill h w) j)" if "j < bNextStop (kill h w)" for j
  proof -
    have s: "stop_ok w (bStops w j)" using stops_okD(1) [OF W(6)] that by simp
    have loop: "loop_of (kill h w) = loop_of w" by (simp add: loop_of_def fun_eq_iff)
    have "tracked w s i \<Longrightarrow> tracked (kill h w) s i" for s i by (auto simp: tracked_def)
    then show ?thesis using stop_okD [OF s] by (intro stop_okI) (simp_all add: loop)
  qed
  show "lease_ok (bReg (kill h w)) (bPc (kill h w) i) i" for i using W(2) by simp
  show "spawns_ok (bReg (kill h w))" using W(1) by simp
qed (use world_okD(3-5) [OF ok] stops_okD(2) [OF world_okD(6) [OF ok]] in \<open>auto split: if_splits\<close>)

section \<open>The steps of spawns\<close>

lemma frame_refl:
  assumes ok: "spawns_ok r" and i: "0 < i" "i \<le> rNextLeaseID r"
  shows "frame i r r"
proof -
  note R = spawns_okD [OF ok]
  have "eLoopID (rEntries r e) = MLoopID (lMeta (rLeases r i))" if "map_of (rExecutions r) (lease_key (rLeases r i)) = Some e" for e
    using R(6) [OF that] R(3) [OF _ _ i] by metis
  then show ?thesis using R(4,5,7) unfolding frame_def by simp
qed

lemma frame_upd:
  assumes "frame i r r'" and "\<And>l. lMeta (f l) = lMeta l" "\<And>l. lRebindDone (f l) = lRebindDone l"
  shows "frame i r (upd_lease i f r')"
  using assms by (simp add: frame_def upd_lease_def)

lemma upd_lease_fields [simp]:
  "rNextLeaseID (upd_lease i f r) = rNextLeaseID r" "rPending (upd_lease i f r) = rPending r" "rActive (upd_lease i f r) = rActive r"
  "rEntries (upd_lease i f r) = rEntries r" "rNextEntry (upd_lease i f r) = rNextEntry r" "rExecutions (upd_lease i f r) = rExecutions r"
  "rStoppingLoops (upd_lease i f r) = rStoppingLoops r" "rNextGate (upd_lease i f r) = rNextGate r"
  "rChanClosed (upd_lease i f r) = rChanClosed r" "rNextChan (upd_lease i f r) = rNextChan r"
  "rAdmissionClosed (upd_lease i f r) = rAdmissionClosed r"
  "rLeases (upd_lease i f r) k = (if k = i then f (rLeases r i) else rLeases r k)"
  by (simp_all add: upd_lease_def)

lemma frame_end: "frame i r r \<Longrightarrow> frame i r (endRebindLocked i r)"
  by (auto simp: endRebindLocked_def Let_def frame_def split: option.splits)

lemma frame_bind:
  assumes ok: "spawns_ok r" and i: "0 < i" "i \<le> rNextLeaseID r" and b: "BindHandle_locked i h r = (res, r')"
  shows "frame i r r'"
proof -
  note f = frame_refl [OF ok i]
  show ?thesis
  proof (cases res)
    case Bound
    then have r': "r' = closeSpawnDone i (upd_lease i (\<lambda>l. l\<lparr>lHandle := Some h\<rparr>) r
           \<lparr>rEntries := (rEntries r)(rNextEntry r := \<lparr>eLoopID = MLoopID (lMeta (rLeases r i)), eRunID = MRunID (lMeta (rLeases r i)),
               eExecutionID = MExecutionID (lMeta (rLeases r i)), eHandle = h, eLease = i\<rparr>),
            rNextEntry := rNextEntry r + 1, rExecutions := put (lease_key (rLeases r i)) (rNextEntry r) (rExecutions r),
            rActive := i # rActive r, rPending := without i (rPending r)\<rparr>)"
      using b by (auto simp: BindHandle_locked_def Let_def split: if_splits)
    show ?thesis using f unfolding r' closeSpawnDone_def
      by (intro frame_upd) (simp_all add: frame_def upd_lease_def map_of_put distinct_keys_put lease_key_def entry_key_def)
  qed (use b f in \<open>auto simp: BindHandle_locked_def Let_def frame_def split: if_splits\<close>)
qed

lemma frame_rebind_begin:
  assumes ok: "spawns_ok r" and i: "0 < i" "i \<le> rNextLeaseID r" and b: "BeginRebind i r = ([], r')"
  shows "frame i r r'"
  using frame_refl [OF ok i] b by (auto simp: BeginRebind_def Let_def frame_def upd_lease_def split: if_splits)

lemma frame_endRebind: "frame i r r' \<Longrightarrow> lRebindDone (rLeases r' i) = lRebindDone (rLeases r i) \<Longrightarrow> frame i r (endRebindLocked i r')"
  by (auto simp: endRebindLocked_def Let_def frame_def split: option.splits)

lemma entry_key_eHandle [simp]: "entry_key (e\<lparr>eHandle := h\<rparr>) = entry_key e"
  by (simp add: entry_key_def)

lemma frame_rebind:
  assumes ok: "spawns_ok r" and i: "0 < i" "i \<le> rNextLeaseID r" and b: "RebindHandle_locked i h r = (res, r')"
  shows "frame i r r'"
proof (cases res)
  case Rebound
  note f = frame_refl [OF ok i]
  let ?l = "rLeases r i"
  have open_gate: "\<not> (rAdmissionClosed r \<or> stopping r (MLoopID (lMeta ?l)))"
    using b Rebound by (auto simp: RebindHandle_locked_def Let_def split: if_splits)
  show ?thesis
  proof (cases "map_of (rExecutions r) (lease_key ?l)")
    case None
    then have r': "r' = endRebindLocked i (upd_lease i (\<lambda>l. l\<lparr>lHandle := Some h\<rparr>)
        (r\<lparr>rNextEntry := rNextEntry r + 1, rExecutions := put (lease_key ?l) (rNextEntry r) (rExecutions r),
           rEntries := (rEntries r)(rNextEntry r := \<lparr>eLoopID = MLoopID (lMeta ?l), eRunID = MRunID (lMeta ?l),
               eExecutionID = MExecutionID (lMeta ?l), eHandle = h, eLease = i\<rparr>)\<rparr>))"
      using b Rebound by (auto simp: RebindHandle_locked_def Let_def split: if_splits)
    show ?thesis using f open_gate unfolding r'
      by (intro frame_endRebind frame_upd) (simp_all add: frame_def map_of_put distinct_keys_put lease_key_def entry_key_def)
  next
    case (Some e)
    then have r': "r' = endRebindLocked i (upd_lease i (\<lambda>l. l\<lparr>lHandle := Some h\<rparr>)
        (r\<lparr>rEntries := (rEntries r)(e := (rEntries r e)\<lparr>eHandle := h\<rparr>)\<rparr>))"
      using b Rebound by (auto simp: RebindHandle_locked_def Let_def split: if_splits)
    show ?thesis using f open_gate Some unfolding r'
      by (intro frame_endRebind frame_upd) (simp_all add: frame_def)
  qed
qed (use b frame_refl [OF ok i] in \<open>auto simp: RebindHandle_locked_def Let_def split: if_splits prod.splits\<close>)

lemma frame_release:
  assumes f: "frame i r r"
  shows "frame i r (Release_locked i r)"
proof -
  let ?r = "closeSpawnDone i ((endRebindLocked i r)\<lparr>rPending := without i (rPending r), rActive := without i (rActive r)\<rparr>)"
  have f1: "frame i r ?r"
    unfolding closeSpawnDone_def by (intro frame_upd) (use frame_end [OF f] in \<open>simp_all add: frame_def\<close>)
  have key: "lease_key (rLeases ?r i) = lease_key (rLeases r i)" by (rule frameD(22) [OF f1])
  have f2: "frame i r (?r\<lparr>rExecutions := AList.delete (lease_key (rLeases ?r i)) (rExecutions ?r)\<rparr>)"
    using f1 unfolding key by (simp add: frame_def delete_conv' distinct_delete)
  show ?thesis using f1 f2 unfolding Release_locked_def Let_def by (auto split: option.splits)
qed

lemma handle_unique:
  "handle_ok r p i h \<Longrightarrow> pc_handle p = Some h' \<Longrightarrow> \<not> is_dropped p \<Longrightarrow> p \<noteq> Running \<Longrightarrow> h = h'"
  by (auto simp: handle_ok_def)

lemma not_handled: "handle_ok r p i h \<Longrightarrow> pc_handle p = None \<Longrightarrow> \<not> is_dropped p \<Longrightarrow> p \<noteq> Running \<Longrightarrow> False"
  by (auto simp: handle_ok_def)

lemma bind_ok:
  assumes ok: "world_ok w" and pc: "bPc w i = Started h" and b: "BindHandle_locked i h (bReg w) = (res, r)"
  shows "world_ok (move i (bind_pc res h) (if res = BindRefused then cancel_lease i r else r) w)"
proof -
  note W = world_okD [OF ok]
  have l: "lease_ok (bReg w) (Started h) i" using W(2) [of i] pc by simp
  have i: "0 < i" "i \<le> rNextLeaseID (bReg w)" using lease_range [OF l] by simp_all
  have in_pending: "i \<in> set (rPending (bReg w))" "\<not> lReleased (rLeases (bReg w) i)" "\<not> lSpawnDone (rLeases (bReg w) i)"
    using l by (simp_all add: lease_ok_def)
  have own: "h' = h" if "bLive w h'" "bOwner w h' = i" for h' using W(5) [OF that(1)] pc that(2) by (simp add: handle_ok_def)
  have f: "frame i (bReg w) (if res = BindRefused then cancel_lease i r else r)"
    using frame_bind [OF W(1) i b] unfolding cancel_lease_def by (auto intro: frame_upd)
  show ?thesis
  proof (rule move_ok [OF ok f])
    show "lease_ok (if res = BindRefused then cancel_lease i r else r) (bind_pc res h) i"
      using in_pending i b by (auto simp: BindHandle_locked_def Let_def bind_pc_def lease_ok_def in_window_def
          closeSpawnDone_def cancel_lease_def split: if_splits)
    show "handle_ok (if res = BindRefused then cancel_lease i r else r) (bind_pc res h) i h'" if "bLive w h'" "bOwner w h' = i" for h'
      using own [OF that] b in_pending by (auto simp: BindHandle_locked_def Let_def bind_pc_def handle_ok_def map_of_put
          closeSpawnDone_def cancel_lease_def lease_key_def split: if_splits)
    show "tracked (move i (bind_pc res h) (if res = BindRefused then cancel_lease i r else r) w) s i"
      if "rAdmissionClosed (bReg w) \<or> stopping (bReg w) (loop_of w i)" "tracked w s i" for s
      using that pc b in_pending by (auto simp: BindHandle_locked_def Let_def bind_pc_def tracked_def loop_of_def split: if_splits)
  qed (simp_all add: pc bind_pc_def split: bind_result.splits)
qed

lemma new_handle_ok:
  assumes ok: "world_ok w" and p: "bPc w i = Started (bNext w) \<or> bPc w i = Restarted (bNext w)"
  shows "world_ok (w\<lparr>bLive := (bLive w)(bNext w := True), bOwner := (bOwner w)(bNext w := i), bNext := bNext w + 1\<rparr>)"
    (is "world_ok ?w")
proof (rule world_okI)
  note W = world_okD [OF ok]
  have not_live: "\<not> bLive w (bNext w)" using W(3) by blast
  show "stop_ok ?w (bStops ?w j)" if "j < bNextStop ?w" for j
  proof -
    have s: "stop_ok w (bStops w j)" using stops_okD(1) [OF W(6)] that by simp
    have "tracked w s k \<Longrightarrow> tracked ?w s k" for s k
      using p not_live by (auto simp: tracked_def)
    then show ?thesis using stop_okD [OF s] by (intro stop_okI) (simp_all add: loop_of_def)
  qed
  show "h < bNext ?w \<and> bPc ?w (bOwner ?w h) \<noteq> Absent \<and> handle_ok (bReg ?w) (bPc ?w (bOwner ?w h)) (bOwner ?w h) h" if "bLive ?w h" for h
    using that W(3-5) [of h] p by (cases "h = bNext w") (auto simp: handle_ok_def)
qed (use world_okD(1,2) [OF ok] stops_okD(2) [OF world_okD(6) [OF ok]] in simp_all)

lemma spawn_move: "spawn i p w = (move i (p (bNext w)) (bReg w) w)\<lparr>bLive := (bLive w)(bNext w := True),
    bOwner := (bOwner w)(bNext w := i), bNext := bNext w + 1\<rparr>"
  by (simp add: spawn_def move_def)

lemma frame_here: "world_ok w \<Longrightarrow> bPc w i \<noteq> Absent \<Longrightarrow> frame i (bReg w) (bReg w)"
  using frame_refl [OF world_okD(1)] lease_range [OF world_okD(2)] by blast

lemma owned_ok: "world_ok w \<Longrightarrow> bLive w h \<Longrightarrow> bOwner w h = i \<Longrightarrow> handle_ok (bReg w) (bPc w i) i h"
  using world_okD(5) by blast

lemma spawn_start_ok: assumes ok: "world_ok w" and pc: "bPc w i = Admitted" shows "world_ok (spawn i Started w)"
proof -
  have "world_ok (move i (Started (bNext w)) (bReg w) w)"
  proof (rule move_ok [OF ok frame_here [OF ok]])
    show "lease_ok (bReg w) (Started (bNext w)) i" using world_okD(2) [OF ok, of i] pc by (simp add: lease_ok_def in_window_def)
    show "handle_ok (bReg w) (Started (bNext w)) i h" if "bLive w h" "bOwner w h = i" for h
      using owned_ok [OF ok that] pc by (simp add: handle_ok_def)
    show "tracked (move i (Started (bNext w)) (bReg w) w) s i" if "tracked w s i" for s
      using that pc by (simp add: tracked_def)
  qed (simp_all add: pc)
  from new_handle_ok [OF this, of i] show ?thesis by (simp add: spawn_move)
qed

lemma restart_ok: assumes ok: "world_ok w" and pc: "bPc w i = RebindOpen" shows "world_ok (spawn i Restarted w)"
proof -
  have "world_ok (move i (Restarted (bNext w)) (bReg w) w)"
  proof (rule move_ok [OF ok frame_here [OF ok]])
    show "lease_ok (bReg w) (Restarted (bNext w)) i" using world_okD(2) [OF ok, of i] pc by (simp add: lease_ok_def in_window_def)
    show "handle_ok (bReg w) (Restarted (bNext w)) i h" if "bLive w h" "bOwner w h = i" for h
      using owned_ok [OF ok that] pc by (simp add: handle_ok_def)
    show "tracked (move i (Restarted (bNext w)) (bReg w) w) s i" if "tracked w s i" for s
      using that pc by (simp add: tracked_def)
  qed (simp_all add: pc)
  from new_handle_ok [OF this, of i] show ?thesis by (simp add: spawn_move)
qed

lemma publish_ok:
  assumes ok: "world_ok w" and err: "err \<noteq> []"
    and pc: "bPc w i = Killing h b \<and> p = BindKilled b \<or> bPc w i = RebindKilling h \<and> p = RebindKilled h"
  shows "world_ok (move i p (publishUnownedDrainErr i err (bReg w)) w)"
proof (rule move_ok [OF ok])
  have f: "frame i (bReg w) (bReg w)" using frame_here [OF ok, of i] pc by auto
  show "frame i (bReg w) (publishUnownedDrainErr i err (bReg w))"
    unfolding publishUnownedDrainErr_def using f frame_upd [OF f] by simp
  show "lease_ok (publishUnownedDrainErr i err (bReg w)) p i"
    using pc by (elim disjE conjE; use world_okD(2) [OF ok, of i] in \<open>simp add: lease_ok_def publishUnownedDrainErr_def in_window_def\<close>)
  show "handle_ok (publishUnownedDrainErr i err (bReg w)) p i h'" if "bLive w h'" "bOwner w h' = i" for h'
    using owned_ok [OF ok that] pc by (auto simp: handle_ok_def)
  have own: "h' = h" if "bLive w h'" "bOwner w h' = i" for h' using owned_ok [OF ok that] pc by (auto simp: handle_ok_def)
  show "tracked (move i p (publishUnownedDrainErr i err (bReg w)) w) s i" if t: "tracked w s i" for s
  proof -
    have take: "i \<in> set (sTake s)" if "bLive w h'" "bOwner w h' = i" for h'
      using t pc that own [OF that] unfolding tracked_def by auto
    from pc show ?thesis
      unfolding tracked_def by (elim disjE conjE; simp add: publishUnownedDrainErr_def err; use take in blast)
  qed
qed (use pc in auto)

lemma killed_ok:
  assumes ok: "world_ok w"
    and pc: "bPc w i = Killing h b \<and> p = BindKilled b \<or> bPc w i = RebindKilling h \<and> p = RebindKilled h"
  shows "world_ok (kill h (move i p (bReg w) w))"
proof -
  have "world_ok (move i p (bReg (kill h w)) (kill h w))"
  proof (rule move_ok [OF kill_ok [OF ok]])
    show "frame i (bReg (kill h w)) (bReg (kill h w))" using frame_here [OF ok, of i] pc by auto
    show "lease_ok (bReg (kill h w)) p i"
      using pc by (elim disjE conjE; use world_okD(2) [OF ok, of i] in \<open>simp add: lease_ok_def in_window_def\<close>)
    show "handle_ok (bReg (kill h w)) p i h'" if "bLive (kill h w) h'" "bOwner (kill h w) h' = i" for h'
      using that owned_ok [OF ok, of h' i] pc by (auto simp: handle_ok_def split: if_splits)
    have own: "h' = h" if "bLive w h'" "bOwner w h' = i" for h' using owned_ok [OF ok that] pc by (auto simp: handle_ok_def)
    show "tracked (move i p (bReg (kill h w)) (kill h w)) s i" if "tracked (kill h w) s i" for s
    proof -
      have none: "bLive w h' \<Longrightarrow> h' \<noteq> h \<Longrightarrow> bOwner w h' = i \<Longrightarrow> False" for h' using own [of h'] by blast
      from pc show ?thesis
        unfolding tracked_def by (elim disjE conjE; simp; use none in blast)
    qed
  qed (use pc in auto)
  moreover have "kill h (move i p (bReg w) w) = move i p (bReg (kill h w)) (kill h w)" by (simp add: kill_def move_def)
  ultimately show ?thesis by (simp only:)
qed

lemma bind_fails_ok:
  assumes ok: "world_ok w" and pc: "bPc w i = BindKilled b"
  shows "world_ok (move i BindFailed (if b then closeSpawnDone i (bReg w) else bReg w) w)"
proof (rule move_ok [OF ok])
  have f: "frame i (bReg w) (bReg w)" using frame_here [OF ok, of i] pc by auto
  then show "frame i (bReg w) (if b then closeSpawnDone i (bReg w) else bReg w)"
    by (auto simp: closeSpawnDone_def intro: frame_upd)
  show "lease_ok (if b then closeSpawnDone i (bReg w) else bReg w) BindFailed i"
    using world_okD(2) [OF ok, of i] pc by (auto simp: lease_ok_def closeSpawnDone_def in_window_def)
  show "tracked (move i BindFailed (if b then closeSpawnDone i (bReg w) else bReg w) w) s i" if "tracked w s i" for s
    using that pc by (auto simp: tracked_def closeSpawnDone_def)
qed (simp_all add: pc handle_ok_def)

lemma rebind_begin_ok:
  assumes ok: "world_ok w" and pc: "bPc w i = Running" and h: "lHandle (rLeases (bReg w) i) = Some h" "\<not> bLive w h"
    and b: "BeginRebind i (bReg w) = ([], r)"
  shows "world_ok (move i RebindOpen r w)"
proof (rule move_ok [OF ok])
  have l: "lease_ok (bReg w) Running i" using world_okD(2) [OF ok, of i] pc by simp
  have i: "0 < i" "i \<le> rNextLeaseID (bReg w)" using lease_range [OF l] by simp_all
  have r: "r = upd_lease i (\<lambda>l. l\<lparr>lRebinding := True, lRebindDone := Some (rNextChan (bReg w))\<rparr>)
      ((bReg w)\<lparr>rNextChan := rNextChan (bReg w) + 1, rChanClosed := (rChanClosed (bReg w))(rNextChan (bReg w) := False)\<rparr>)"
    and gate: "\<not> (rAdmissionClosed (bReg w) \<or> stopping (bReg w) (loop_of w i))"
    using b by (auto simp: BeginRebind_def Let_def loop_of_def split: if_splits)
  show "frame i (bReg w) r" by (rule frame_rebind_begin [OF world_okD(1) [OF ok] i b])
  show "lease_ok r RebindOpen i" using l unfolding r by (simp add: lease_ok_def in_window_def)
  show "handle_ok r RebindOpen i h'" if "bLive w h'" "bOwner w h' = i" for h'
    using owned_ok [OF ok that] pc h that by (simp add: handle_ok_def)
  show "tracked (move i RebindOpen r w) s i" if "rAdmissionClosed (bReg w) \<or> stopping (bReg w) (loop_of w i)" for s
    using gate that by blast
qed (simp_all add: pc)

lemma endRebind_lease:
  "lReleased (rLeases (endRebindLocked i r) i) = lReleased (rLeases r i)"
  "lSpawnDone (rLeases (endRebindLocked i r) i) = lSpawnDone (rLeases r i)"
  "lHandle (rLeases (endRebindLocked i r) i) = lHandle (rLeases r i)"
  "lMeta (rLeases (endRebindLocked i r) i) = lMeta (rLeases r i)"
  "lUnownedDrainErr (rLeases (endRebindLocked i r) i) = lUnownedDrainErr (rLeases r i)"
  "rPending (endRebindLocked i r) = rPending r" "rActive (endRebindLocked i r) = rActive r"
  "rNextLeaseID (endRebindLocked i r) = rNextLeaseID r" "rExecutions (endRebindLocked i r) = rExecutions r"
  "rEntries (endRebindLocked i r) = rEntries r"
  by (simp_all add: endRebindLocked_def Let_def split: option.splits)

lemma rebind_abort_ok:
  assumes ok: "world_ok w" and pc: "bPc w i = RebindOpen"
  shows "world_ok (move i Running (endRebindLocked i (bReg w)) w)"
proof (rule move_ok [OF ok])
  have none: "\<not> (bLive w h \<and> bOwner w h = i)" for h using owned_ok [OF ok, of h i] pc by (auto simp: handle_ok_def)
  show "frame i (bReg w) (endRebindLocked i (bReg w))" using frame_here [OF ok, of i] pc by (simp add: frame_end)
  show "lease_ok (endRebindLocked i (bReg w)) Running i"
    using world_okD(2) [OF ok, of i] pc by (simp add: lease_ok_def endRebind_lease in_window_def)
  show "handle_ok (endRebindLocked i (bReg w)) Running i h" if "bLive w h" "bOwner w h = i" for h using none that by blast
  show "tracked (move i Running (endRebindLocked i (bReg w)) w) s i" for s
    unfolding tracked_def using none by (simp; blast)
qed (simp_all add: pc)

lemma rebind_fails_ok:
  assumes ok: "world_ok w" and pc: "bPc w i = RebindKilled h"
  shows "world_ok (move i (RebindFailed h) (endRebindLocked i (bReg w)) w)"
proof (rule move_ok [OF ok])
  show "frame i (bReg w) (endRebindLocked i (bReg w))" using frame_here [OF ok, of i] pc by (simp add: frame_end)
  show "lease_ok (endRebindLocked i (bReg w)) (RebindFailed h) i"
    using world_okD(2) [OF ok, of i] pc by (simp add: lease_ok_def endRebind_lease in_window_def)
  show "handle_ok (endRebindLocked i (bReg w)) (RebindFailed h) i h'" if "bLive w h'" "bOwner w h' = i" for h'
    using owned_ok [OF ok that] pc by (simp add: handle_ok_def)
  show "tracked (move i (RebindFailed h) (endRebindLocked i (bReg w)) w) s i" if "tracked w s i" for s
    using that pc by (simp add: tracked_def endRebind_lease)
qed (simp_all add: pc)

lemma rebound_fields:
  assumes "RebindHandle_locked i h r = (Rebound, r')"
  shows "lReleased (rLeases r' i) = lReleased (rLeases r i)" "lHandle (rLeases r' i) = Some h" "rActive r' = rActive r"
    "rNextLeaseID r' = rNextLeaseID r" "lMeta (rLeases r' i) = lMeta (rLeases r i)"
    "\<exists>e. map_of (rExecutions r') (lease_key (rLeases r i)) = Some e \<and> eHandle (rEntries r' e) = h"
    "\<not> (rAdmissionClosed r \<or> stopping r (MLoopID (lMeta (rLeases r i))))"
  using assms
  by (auto simp: RebindHandle_locked_def Let_def endRebind_lease map_of_put split: if_splits option.splits)

lemma rebind_ok:
  assumes ok: "world_ok w" and pc: "bPc w i = Restarted h" and b: "RebindHandle_locked i h (bReg w) = (res, r)"
  shows "world_ok (move i (rebind_pc res h) (if res = RebindRefused then cancel_lease i r else r) w)"
proof -
  note W = world_okD [OF ok]
  have l: "lease_ok (bReg w) (Restarted h) i" using W(2) [of i] pc by simp
  have i: "0 < i" "i \<le> rNextLeaseID (bReg w)" using lease_range [OF l] by simp_all
  have own: "h' = h" if "bLive w h'" "bOwner w h' = i" for h' using owned_ok [OF ok that] pc by (simp add: handle_ok_def)
  show ?thesis
  proof (cases res)
    case Rebound
    note B = rebound_fields [OF b [unfolded Rebound]]
    have key: "lease_key (rLeases r i) = lease_key (rLeases (bReg w) i)" by (rule lease_key_cong [OF B(5)])
    have "world_ok (move i Running r w)"
    proof (rule move_ok [OF ok frame_rebind [OF W(1) i b]])
      show "lease_ok r Running i" using l B(1,3,4) by (simp add: lease_ok_def in_window_def)
      show "handle_ok r Running i h'" if "bLive w h'" "bOwner w h' = i" for h'
        using own [OF that] B(2,6) by (simp add: handle_ok_def key)
      show "tracked (move i Running r w) s i" if "rAdmissionClosed (bReg w) \<or> stopping (bReg w) (loop_of w i)" for s
        using that B(7) by (simp add: loop_of_def)
    qed (simp_all add: pc)
    with Rebound show ?thesis by (simp add: rebind_pc_def)
  next
    case RebindLost
    then have False using b l by (auto simp: RebindHandle_locked_def Let_def lease_ok_def in_window_def split: if_splits prod.splits)
    then show ?thesis ..
  next
    case RebindRefused
    then have r: "r = bReg w" using b by (auto simp: RebindHandle_locked_def Let_def split: if_splits prod.splits)
    have "world_ok (move i (RebindKilling h) (cancel_lease i (bReg w)) w)"
    proof (rule move_ok [OF ok])
      show "frame i (bReg w) (cancel_lease i (bReg w))"
        unfolding cancel_lease_def using frame_refl [OF W(1) i] by (intro frame_upd) simp_all
      show "lease_ok (cancel_lease i (bReg w)) (RebindKilling h) i"
        using l by (simp add: lease_ok_def in_window_def cancel_lease_def)
      show "handle_ok (cancel_lease i (bReg w)) (RebindKilling h) i h'" if "bLive w h'" "bOwner w h' = i" for h'
        using own [OF that] by (simp add: handle_ok_def)
      show "tracked (move i (RebindKilling h) (cancel_lease i (bReg w)) w) s i" if "tracked w s i" for s
        using that pc by (simp add: tracked_def cancel_lease_def)
    qed (simp_all add: pc)
    with RebindRefused r show ?thesis by (simp add: rebind_pc_def)
  qed
qed

lemma mark_ok:
  assumes ok: "world_ok w"
    and pc: "bPc w i = Admitted \<or> bPc w i = BindFailed \<or> bPc w i = RebindFailed h \<and> \<not> bLive w h
       \<or> bPc w i = Running \<and> lHandle (rLeases (bReg w) i) = Some h \<and> \<not> bLive w h"
  shows "world_ok (move i Marked (snd (Release_mark i (bReg w))) w)"
proof (rule move_ok [OF ok])
  have f: "frame i (bReg w) (bReg w)" using frame_here [OF ok, of i] pc by auto
  then show "frame i (bReg w) (snd (Release_mark i (bReg w)))"
    by (auto simp: Release_mark_def Let_def intro: frame_upd)
  have "0 < i \<and> i \<le> rNextLeaseID (bReg w)" using lease_range [OF world_okD(2) [OF ok, of i]] pc by auto
  then show "lease_ok (snd (Release_mark i (bReg w))) Marked i"
    by (simp add: lease_ok_def in_window_def Release_mark_def Let_def)
  show "tracked (move i Marked (snd (Release_mark i (bReg w))) w) s i" if t: "tracked w s i" for s
  proof -
    have "lUnownedDrainErr (rLeases (bReg w) i) \<noteq> [] \<and> i \<in> set (sTake s)" if "bLive w h'" "bOwner w h' = i" for h'
    proof (cases "bPc w i = BindFailed")
      case True
      then show ?thesis using t that by (simp add: tracked_def; blast)
    next
      case False
      then show ?thesis using owned_ok [OF ok that] pc that by (auto simp: handle_ok_def)
    qed
    then show ?thesis unfolding tracked_def by (simp add: Release_mark_def Let_def; blast)
  qed
qed (use pc in \<open>auto simp: handle_ok_def\<close>)

lemma release_lease:
  "lUnownedDrainErr (rLeases (Release_locked i r) i) = lUnownedDrainErr (rLeases r i)" "rNextLeaseID (Release_locked i r) = rNextLeaseID r"
  by (simp_all add: Release_locked_def Let_def closeSpawnDone_def endRebind_lease split: option.splits)

lemma release_ok:
  assumes ok: "world_ok w" and pc: "bPc w i = Marked"
  shows "world_ok (move i Over (Release_locked i (bReg w)) w)"
proof (rule move_ok [OF ok])
  show "frame i (bReg w) (Release_locked i (bReg w))" using frame_here [OF ok, of i] pc by (simp add: frame_release)
  show "lease_ok (Release_locked i (bReg w)) Over i"
    using lease_range [OF world_okD(2) [OF ok, of i]] pc by (simp add: lease_ok_def in_window_def release_lease)
  show "tracked (move i Over (Release_locked i (bReg w)) w) s i" if "tracked w s i" for s
    using that pc by (simp add: tracked_def release_lease)
qed (simp_all add: pc handle_ok_def)

lemma admit_fields:
  assumes "AdmitSpawn_commit m False r = (Inr i, r')"
  shows "i = rNextLeaseID r + 1"
    "r' = r\<lparr>rNextLeaseID := i, rLeases := (rLeases r)(i := blank_lease\<lparr>lMeta := m, lBrownoutProbe := MBrownoutProbe m\<rparr>), rPending := i # rPending r\<rparr>"
    "\<not> (rAdmissionClosed r \<or> stopping r (MLoopID m))"
  using assms by (auto simp: AdmitSpawn_commit_def Let_def blank_lease_def split: if_splits)

lemma blank_lease_sel [simp]: "lReleased blank_lease = False" "lSpawnDone blank_lease = False" "lRebindDone blank_lease = None"
  by (simp_all add: blank_lease_def)

lemma admit_ok:
  assumes ok: "world_ok w" and a: "AdmitSpawn_commit m False (bReg w) = (Inr i, r)"
    and fresh: "\<forall>k. 0 < k \<and> k \<le> rNextLeaseID (bReg w) \<longrightarrow>
        lease_key (rLeases (bReg w) k) \<noteq> activeExecutionKey (MLoopID m) (MRunID m) (MExecutionID m)"
  shows "world_ok (move i Admitted r w)"
proof (rule world_okI)
  note W = world_okD [OF ok] and A = admit_fields [OF a]
  note R = spawns_okD [OF W(1)]
  have old: "k \<noteq> i" if "k \<le> rNextLeaseID (bReg w)" for k using that A(1) by simp
  have pc_old: "k \<noteq> i" if "bPc w k \<noteq> Absent" for k using lease_range [OF W(2) that] old by blast
  have gates: "gated r s = gated (bReg w) s" for s by (rule gated_cong) (simp_all add: A(2))
  have key: "lease_key (blank_lease\<lparr>lMeta := m, lBrownoutProbe := b\<rparr>) = activeExecutionKey (MLoopID m) (MRunID m) (MExecutionID m)" for b
    by (simp add: lease_key_def)
  have sel: "rLeases r k = (if k = i then blank_lease\<lparr>lMeta := m, lBrownoutProbe := MBrownoutProbe m\<rparr> else rLeases (bReg w) k)" for k
    by (simp add: A(2))
  show "spawns_ok (bReg (move i Admitted r w))"
  proof (rule spawns_okI)
    show "j = k" if "0 < j" "j \<le> rNextLeaseID (bReg (move i Admitted r w))" "0 < k" "k \<le> rNextLeaseID (bReg (move i Admitted r w))"
      "lease_key (rLeases (bReg (move i Admitted r w)) j) = lease_key (rLeases (bReg (move i Admitted r w)) k)" for j k
      using that fresh R(3) [of j k] A(1) by (simp add: A(2) key le_Suc_eq split: if_splits) metis+
    show "e < rNextEntry (bReg (move i Admitted r w)) \<and> entry_key (rEntries (bReg (move i Admitted r w)) e) = ky \<and>
       (\<exists>n. 0 < n \<and> n \<le> rNextLeaseID (bReg (move i Admitted r w)) \<and> lease_key (rLeases (bReg (move i Admitted r w)) n) = ky
          \<and> eLoopID (rEntries (bReg (move i Admitted r w)) e) = MLoopID (lMeta (rLeases (bReg (move i Admitted r w)) n)))"
      if "map_of (rExecutions (bReg (move i Admitted r w))) ky = Some e" for ky e
    proof -
      have m: "map_of (rExecutions (bReg w)) ky = Some e" using that by (simp add: A(2))
      from R(6) [OF m] obtain n where "0 < n" "n \<le> rNextLeaseID (bReg w)" "lease_key (rLeases (bReg w) n) = ky"
        "eLoopID (rEntries (bReg w) e) = MLoopID (lMeta (rLeases (bReg w) n))" by blast
      then show ?thesis using R(4,5) [OF m] old [of n] A(1) by (auto simp: A(2) intro!: exI [of _ n])
    qed
  qed (use R A(1) in \<open>auto simp: A(2) le_Suc_eq split: if_splits\<close>)
  show "lease_ok (bReg (move i Admitted r w)) (bPc (move i Admitted r w) k) k" for k
    using W(2) [of k] A(1) by (cases "k = i") (auto simp: A(2) lease_ok_def in_window_def)
  show "h < bNext (move i Admitted r w) \<and> bPc (move i Admitted r w) (bOwner (move i Admitted r w) h) \<noteq> Absent \<and>
      handle_ok (bReg (move i Admitted r w)) (bPc (move i Admitted r w) (bOwner (move i Admitted r w) h)) (bOwner (move i Admitted r w) h) h"
    if "bLive (move i Admitted r w) h" for h
    using W(3-5) [of h] pc_old [of "bOwner w h"] that by (simp add: A(2) handle_ok_def)
  show "stop_ok (move i Admitted r w) (bStops (move i Admitted r w) j)" if "j < bNextStop (move i Admitted r w)" for j
  proof (rule stop_okI)
    note S = stop_okD [OF stops_okD(1) [OF W(6), of j]]
    have j: "j < bNextStop w" using that by simp
    show "k \<le> rNextLeaseID (bReg (move i Admitted r w)) \<and> in_scope (sScope (bStops (move i Admitted r w) j)) (loop_of (move i Admitted r w) k)"
      if "k \<in> set (sTake (bStops (move i Admitted r w) j))" for k
      using S(1,2) [OF j, of k] that old [of k] A(1) by (simp add: A(2) loop_of_def)
    show "tracked (move i Admitted r w) (bStops (move i Admitted r w) j) k"
      if k: "watching (bReg (move i Admitted r w)) (bStops (move i Admitted r w) j)" "bPc (move i Admitted r w) k \<noteq> Absent"
        "in_scope (sScope (bStops (move i Admitted r w) j)) (loop_of (move i Admitted r w) k)" for k
    proof (cases "k = i")
      case True
      have "gated (bReg w) (bStops w j)" using k(1) by (simp add: watching_def gates)
      moreover have "in_scope (sScope (bStops w j)) (MLoopID m)" using k(3) True by (simp add: loop_of_def sel)
      ultimately show ?thesis using gated_closes A(3) by blast
    next
      case False
      have "tracked w (bStops w j) k"
        using S(6) [OF j, of k] k False by (simp add: watching_def gates loop_of_def sel)
      then show ?thesis using False by (simp add: tracked_def sel) (simp add: A(2))
    qed
  qed (use stop_okD [OF stops_okD(1) [OF W(6), of j]] that in \<open>simp_all add: A(2)\<close>)
qed (use stops_okD(2) [OF world_okD(6) [OF ok]] in simp)

section \<open>The steps of stops\<close>

text \<open>A registry that differs in nothing the invariant reads, gates apart.\<close>

definition same_work :: "registry \<Rightarrow> registry \<Rightarrow> bool" where
  "same_work r r' \<longleftrightarrow>
     (\<forall>k. lMeta (rLeases r' k) = lMeta (rLeases r k) \<and> lReleased (rLeases r' k) = lReleased (rLeases r k)
        \<and> lHandle (rLeases r' k) = lHandle (rLeases r k) \<and> lSpawnDone (rLeases r' k) = lSpawnDone (rLeases r k)
        \<and> lRebinding (rLeases r' k) = lRebinding (rLeases r k) \<and> lRebindDone (rLeases r' k) = lRebindDone (rLeases r k))
   \<and> rNextLeaseID r' = rNextLeaseID r \<and> rPending r' = rPending r \<and> rActive r' = rActive r
   \<and> rEntries r' = rEntries r \<and> rNextEntry r' = rNextEntry r \<and> rExecutions r' = rExecutions r
   \<and> rChanClosed r' = rChanClosed r \<and> rNextChan r' = rNextChan r"

lemma same_workD:
  assumes "same_work r r'"
  shows "lMeta (rLeases r' k) = lMeta (rLeases r k)" "lReleased (rLeases r' k) = lReleased (rLeases r k)"
    "lHandle (rLeases r' k) = lHandle (rLeases r k)" "lSpawnDone (rLeases r' k) = lSpawnDone (rLeases r k)"
    "lRebinding (rLeases r' k) = lRebinding (rLeases r k)" "lRebindDone (rLeases r' k) = lRebindDone (rLeases r k)"
    "rNextLeaseID r' = rNextLeaseID r" "rPending r' = rPending r" "rActive r' = rActive r" "rEntries r' = rEntries r"
    "rNextEntry r' = rNextEntry r" "rExecutions r' = rExecutions r" "rChanClosed r' = rChanClosed r" "rNextChan r' = rNextChan r"
    "lease_key (rLeases r' k) = lease_key (rLeases r k)"
proof -
  show same: "lMeta (rLeases r' k) = lMeta (rLeases r k)" using assms by (simp add: same_work_def)
  show "lease_key (rLeases r' k) = lease_key (rLeases r k)" by (rule lease_key_cong [OF same])
qed (use assms in \<open>simp_all add: same_work_def\<close>)

lemma registry_same:
  assumes "spawns_ok r" "same_work r r'" and "\<And>L g. map_of (rStoppingLoops r') L = Some g \<Longrightarrow> g < rNextGate r'"
  shows "spawns_ok r'"
proof (rule spawns_okI)
  note S = same_workD [OF assms(2)]
  show "i \<le> rNextLeaseID r'" if "i \<in> set (rPending r') \<or> i \<in> set (rActive r')" for i
    using that spawns_okD(1,2) [OF assms(1), of i] unfolding S by blast
qed (use spawns_okD(3-10) [OF assms(1)] assms(3) in \<open>simp_all add: same_workD [OF assms(2)]\<close>)

lemma stop_targets_same: "same_work r r' \<Longrightarrow> stop_targets scope r' = stop_targets scope r"
  by (simp add: stop_targets_def scoped_leases_def scoped_entries_def rebind_wait_def same_workD cong: if_cong)

lemma reg_change_ok:
  assumes ok: "world_ok w" and same: "same_work (bReg w) r'"
    and gates: "rNextGate (bReg w) \<le> rNextGate r'" "\<And>L g. map_of (rStoppingLoops r') L = Some g \<Longrightarrow> g < rNextGate r'"
    and closed: "rAdmissionClosed (bReg w) \<Longrightarrow> rAdmissionClosed r'"
    and gated: "\<And>j. j < bNextStop w \<Longrightarrow> gated r' (bStops w j) \<Longrightarrow> gated (bReg w) (bStops w j)"
    and err: "\<And>j k. j < bNextStop w \<Longrightarrow> k \<in> set (sTake (bStops w j)) \<Longrightarrow> sSole (bStops w j) \<Longrightarrow>
        sErr (bStops w j) = [] \<Longrightarrow> lUnownedDrainErr (rLeases (bReg w) k) \<noteq> [] \<Longrightarrow> lUnownedDrainErr (rLeases r' k) \<noteq> []"
  shows "world_ok (w\<lparr>bReg := r'\<rparr>)"
proof (rule world_okI)
  note W = world_okD [OF ok] and S = same_workD [OF same]
  show "spawns_ok (bReg (w\<lparr>bReg := r'\<rparr>))" using registry_same [OF W(1) same gates(2)] by simp
  show "lease_ok (bReg (w\<lparr>bReg := r'\<rparr>)) (bPc (w\<lparr>bReg := r'\<rparr>) i) i" for i using W(2) [of i] by (simp add: lease_ok_def S)
  show "h < bNext (w\<lparr>bReg := r'\<rparr>) \<and> bPc (w\<lparr>bReg := r'\<rparr>) (bOwner (w\<lparr>bReg := r'\<rparr>) h) \<noteq> Absent \<and>
      handle_ok (bReg (w\<lparr>bReg := r'\<rparr>)) (bPc (w\<lparr>bReg := r'\<rparr>) (bOwner (w\<lparr>bReg := r'\<rparr>) h)) (bOwner (w\<lparr>bReg := r'\<rparr>) h) h"
    if "bLive (w\<lparr>bReg := r'\<rparr>) h" for h
    using W(3-5) [of h] that by (simp add: handle_ok_def S)
  show "stop_ok (w\<lparr>bReg := r'\<rparr>) (bStops (w\<lparr>bReg := r'\<rparr>) j)" if "j < bNextStop (w\<lparr>bReg := r'\<rparr>)" for j
  proof -
    have j: "j < bNextStop w" using that by simp
    note T = stop_okD [OF stops_okD(1) [OF W(6) j]]
    have "tracked (w\<lparr>bReg := r'\<rparr>) (bStops w j) k"
      if "watching r' (bStops w j)" "bPc w k \<noteq> Absent" "in_scope (sScope (bStops w j)) (loop_of w k)" for k
    proof -
      have sole: "watching (bReg w) (bStops w j)" "sSole (bStops w j)" "sErr (bStops w j) = []"
        using that(1) gated [OF j] by (simp_all add: watching_def)
      then have "tracked w (bStops w j) k" using T(6) that by blast
      then show ?thesis using err [OF j _ sole(2,3), of k] unfolding tracked_def by (simp add: S; blast)
    qed
    then show ?thesis
      using T gates(1) closed by (intro stop_okI) (simp_all add: loop_of_def S)
  qed
qed (use stops_okD(2) [OF world_okD(6) [OF ok]] in simp)

lemma same_work_refl: "same_work r r"
  by (simp add: same_work_def)

lemma cancel_ok: assumes ok: "world_ok w" shows "world_ok (w\<lparr>bReg := cancel_lease i (bReg w)\<rparr>)"
  by (rule reg_change_ok [OF ok])
    (use spawns_okD(9) [OF world_okD(1) [OF ok]] in \<open>auto simp: same_work_def cancel_lease_def gated_def split: option.splits\<close>)

lemma gates_change_ok:
  assumes ok: "world_ok w" and same: "same_work (bReg w) r'" "rLeases r' = rLeases (bReg w)" "rNextGate r' = rNextGate (bReg w)"
    "rAdmissionClosed r' = rAdmissionClosed (bReg w)"
    and sub: "\<And>L g. map_of (rStoppingLoops r') L = Some g \<Longrightarrow> map_of (rStoppingLoops (bReg w)) L = Some g"
  shows "world_ok (w\<lparr>bReg := r'\<rparr>)"
  by (rule reg_change_ok [OF ok same(1)])
    (use same sub spawns_okD(9) [OF world_okD(1) [OF ok]] in \<open>auto simp: gated_def split: option.splits\<close>)

lemma clear_drained_fields:
  "same_work r (clearStopDrainedForLoopLocked L r)" "rLeases (clearStopDrainedForLoopLocked L r) = rLeases r"
  "rNextGate (clearStopDrainedForLoopLocked L r) = rNextGate r" "rAdmissionClosed (clearStopDrainedForLoopLocked L r) = rAdmissionClosed r"
  "rStoppingLoops (clearStopDrainedForLoopLocked L r) = rStoppingLoops r"
  by (simp_all add: clearStopDrainedForLoopLocked_def same_work_def)

lemma clear_stop_ok: "world_ok w \<Longrightarrow> world_ok (w\<lparr>bReg := snd (ClearLoopStop L (bReg w))\<rparr>)"
  by (rule gates_change_ok) (auto simp: ClearLoopStop_def clearStopDrainedForLoopLocked_def same_work_def delete_conv' split: if_splits)

lemma release_stop_ok: "world_ok w \<Longrightarrow> world_ok (w\<lparr>bReg := release_gate L g (bReg w)\<rparr>)"
  by (rule gates_change_ok) (auto simp: release_gate_def clearStopDrainedForLoopLocked_def same_work_def delete_conv' split: if_splits)

lemma remember_ok: "world_ok w \<Longrightarrow> world_ok (w\<lparr>bReg := rememberStopDrain e err dead (bReg w)\<rparr>)"
  by (rule gates_change_ok) (auto simp: rememberStopDrain_def same_work_def split: if_splits)

lemma kill_entry_ok: "world_ok w \<Longrightarrow> world_ok (kill_entry e soft err w)"
  using remember_ok kill_ok unfolding kill_entry_def Let_def by (simp add: kill_def) (metis kill_def kill_ok kill_simps(1) remember_ok)

lemma entries_in_scope:
  assumes ok: "spawns_ok r" and i: "0 < i" "i \<le> rNextLeaseID r" and m: "map_of (rExecutions r) (lease_key (rLeases r i)) = Some e"
  shows "eLoopID (rEntries r e) = MLoopID (lMeta (rLeases r i))"
  using spawns_okD(6) [OF ok m] spawns_okD(3) [OF ok _ _ i] by metis

lemma scoped_entries_member: "spawns_ok r \<Longrightarrow> e \<in> set (scoped_entries scope r)
    \<longleftrightarrow> (\<exists>key. map_of (rExecutions r) key = Some e) \<and> in_scope scope (eLoopID (rEntries r e))"
  using spawns_okD(10) [of r] by (force simp: scoped_entries_def)

text \<open>What a stop collects covers everything alive in its scope that was not refused before.\<close>

lemma collected_tracked:
  assumes ok: "world_ok w" and i: "bPc w i \<noteq> Absent" "in_scope scope (loop_of w i)" and clean: "settled w scope"
    and t: "t = stop_targets scope (bReg w)"
  shows "tracked w (new_stop w0 scope g t) i"
proof -
  note W = world_okD [OF ok]
  have l: "lease_ok (bReg w) (bPc w i) i" by (rule W(2))
  have range: "0 < i" "i \<le> rNextLeaseID (bReg w)" using lease_range [OF l i(1)] by simp_all
  have refused: "bPc w i \<in> {Started h, Running, Restarted h, RebindKilling h}" if "bLive w h" "bOwner w h = i" for h
    using clean that i(2) W(3) [OF that(1)] unfolding settled_def handle_loop_def by blast
  have pend: "i \<in> set (rPending (bReg w)) \<Longrightarrow> i \<in> set (tSpawnWait t) \<and> i \<in> set (tCancel t)"
    using i(2) by (simp add: t stop_targets_def scoped_leases_def loop_of_def Let_def)
  have act: "i \<in> set (rActive (bReg w)) \<Longrightarrow> i \<in> set (tCancel t)"
    using i(2) by (simp add: t stop_targets_def scoped_leases_def loop_of_def Let_def)
  have chan: "c \<in> set (tRebindWait t)" if "i \<in> set (rActive (bReg w))" "lRebinding (rLeases (bReg w) i)" "lRebindDone (rLeases (bReg w) i) = Some c" for c
    using i(2) that by (auto simp: t stop_targets_def scoped_leases_def loop_of_def Let_def rebind_wait_def List.map_filter_def)
      (metis (mono_tags, lifting) image_eqI mem_Collect_eq option.sel)
  show ?thesis
    unfolding tracked_def
  proof (intro conjI impI allI)
    assume "is_spawning (bPc w i) \<or> (\<exists>h b. bPc w i = Killing h b \<and> bLive w h \<and> bOwner w h = i)"
    moreover have "\<not> (bPc w i = Killing h b \<and> bLive w h \<and> bOwner w h = i)" for h b using refused [of h] by auto
    ultimately have "is_spawning (bPc w i)" by blast
    then show "i \<in> set (sSpawnWait (new_stop w0 scope g t))" "i \<in> set (sTake (new_stop w0 scope g t))"
      using l pend by (simp_all add: lease_ok_def new_stop_def)
  next
    assume a: "awaits_rebind (bPc w i)"
    then have "i \<in> set (rActive (bReg w))" "lRebinding (rLeases (bReg w) i)" "\<exists>c. lRebindDone (rLeases (bReg w) i) = Some c"
      using l by (auto simp: lease_ok_def in_window_def)
    then show "i \<in> set (sTake (new_stop w0 scope g t))"
      "\<exists>c. lRebindDone (rLeases (bReg w) i) = Some c \<and> c \<in> set (sRebindWait (new_stop w0 scope g t))"
      using act chan by (auto simp: new_stop_def)
  next
    fix h assume h: "bPc w i = Running \<and> lHandle (rLeases (bReg w) i) = Some h \<and> bLive w h \<and> bOwner w h = i"
    then obtain e where e: "map_of (rExecutions (bReg w)) (lease_key (rLeases (bReg w) i)) = Some e" "eHandle (rEntries (bReg w) e) = h"
      using W(5) [of h] by (auto simp: handle_ok_def)
    have "in_scope scope (eLoopID (rEntries (bReg w) e))"
      using entries_in_scope [OF W(1) range e(1)] i(2) by (simp add: loop_of_def)
    then have "e \<in> set (tKill t)" using e(1) scoped_entries_member [OF W(1)] by (auto simp: t stop_targets_def Let_def)
    then show "\<exists>e \<in> set (sKill (new_stop w0 scope g t)). eHandle (rEntries (bReg w) e) = h"
      using e(2) by (auto simp: new_stop_def)
  next
    fix h assume h: "is_refused (bPc w i) \<and> bLive w h \<and> bOwner w h = i"
    then have False using refused [of h] by auto
    then show "lUnownedDrainErr (rLeases (bReg w) i) \<noteq> []" "i \<in> set (sTake (new_stop w0 scope g t))" by simp_all
  qed
qed

lemma disturbed [simp]: "finished (s\<lparr>sSole := b\<rparr>) = finished s" "gated r (s\<lparr>sSole := b\<rparr>) = gated r s"
  by (simp_all add: finished_def gated_def split: option.splits)

lemma add_stop_ok:
  assumes ok: "world_ok (w\<lparr>bReg := r\<rparr>)" and meta: "\<And>i. lMeta (rLeases r i) = lMeta (rLeases (bReg w) i)"
    and t: "t = stop_targets scope r"
    and gate: "scope \<noteq> None \<Longrightarrow> g < rNextGate r" "scope = None \<Longrightarrow> rAdmissionClosed r"
  shows "world_ok (add_stop w scope g t r)"
proof -
  let ?w = "w\<lparr>bReg := r\<rparr>" and ?v = "add_stop w scope g t r" and ?n = "bNextStop w"
  note W = world_okD [OF ok]
  have same: "bReg ?v = r" "bPc ?v = bPc w" "bLive ?v = bLive w" "bOwner ?v = bOwner w" "bNext ?v = bNext w" "bNextStop ?v = ?n + 1"
    by (simp_all add: add_stop_def)
  have old: "sScope (bStops ?v j) = sScope (bStops w j)" "finished (bStops ?v j) = finished (bStops w j)"
    "sSole (bStops ?v j) \<Longrightarrow> sSole (bStops w j) \<and> (overlap scope (sScope (bStops w j)) \<longrightarrow> finished (bStops w j))"
    "watching r (bStops ?v j) \<Longrightarrow> watching r (bStops w j)" "sTake (bStops ?v j) = sTake (bStops w j)"
    "sKill (bStops ?v j) = sKill (bStops w j)" "sGate (bStops ?v j) = sGate (bStops w j)"
    "tracked ?w (bStops w j) i \<Longrightarrow> tracked ?v (bStops ?v j) i" if "j \<noteq> ?n" for j i
    using that by (cases "overlap scope (sScope (bStops w j)) \<and> \<not> finished (bStops w j)";
      force simp: add_stop_def Let_def watching_def tracked_def)+
  have new: "bStops ?v ?n = new_stop w scope g t" by (simp add: add_stop_def)
  have loop: "loop_of ?v = loop_of ?w" "loop_of ?w = loop_of w" by (simp_all add: loop_of_def same meta fun_eq_iff)
  have settled: "settled ?w scope" if "alone w scope"
    using that by (simp add: alone_def settled_def handle_loop_def loop_of_def meta)
  have cancels: "i \<in> set (tCancel t) \<longleftrightarrow> i \<in> set (rPending r) \<union> set (rActive r) \<and> in_scope scope (loop_of w i)" for i
    unfolding t stop_targets_def scoped_leases_def Let_def by (auto simp: loop_of_def meta)
  have kills: "tKill t = scoped_entries scope r" by (simp add: t stop_targets_def Let_def)
  have new_ok: "stop_ok ?v (new_stop w scope g t)"
  proof (rule stop_okI)
    show "i \<le> rNextLeaseID (bReg ?v) \<and> in_scope (sScope (new_stop w scope g t)) (loop_of ?v i)"
      if "i \<in> set (sTake (new_stop w scope g t))" for i
      using that spawns_okD(1,2) [OF W(1), of i] cancels [of i] by (auto simp: new_stop_def same loop)
    show "e < rNextEntry (bReg ?v) \<and> in_scope (sScope (new_stop w scope g t)) (eLoopID (rEntries (bReg ?v) e))"
      if "e \<in> set (sKill (new_stop w scope g t))" for e
    proof -
      have "e \<in> set (scoped_entries scope r)" using that by (simp add: new_stop_def kills)
      then show ?thesis
        using scoped_entries_member [of r e scope] spawns_okD(4) [of r] W(1) by (auto simp: same new_stop_def)
    qed
    show "tracked ?v (new_stop w scope g t) i"
      if "watching (bReg ?v) (new_stop w scope g t)" "bPc ?v i \<noteq> Absent" "in_scope (sScope (new_stop w scope g t)) (loop_of ?v i)" for i
    proof -
      have "alone w scope" using that(1) by (simp add: watching_def new_stop_def)
      moreover have "bPc ?w i \<noteq> Absent" "t = stop_targets scope (bReg ?w)" using that(2) t unfolding same by simp_all
      moreover have "in_scope scope (loop_of ?w i)" using that(3) unfolding loop(1) by (simp add: new_stop_def)
      ultimately have "tracked ?w (new_stop w scope g t) i" using collected_tracked [OF ok _ _ settled] by blast
      then show ?thesis by (simp add: tracked_def same)
    qed
  qed (use gate in \<open>unfold same, simp_all add: new_stop_def\<close>)
  show ?thesis
  proof (rule world_okI)
    show "stop_ok ?v (bStops ?v j)" if "j < bNextStop ?v" for j
    proof (cases "j = ?n")
      case True
      then show ?thesis using new_ok new by simp
    next
      case False
      then have j: "j < bNextStop ?w" using that same by simp
      note T = stop_okD [OF stops_okD(1) [OF W(6) j]]
      show ?thesis
        using T old [OF False] by (intro stop_okI) (simp_all add: same loop)
    qed
    show "finished (bStops ?v k)"
      if "j < bNextStop ?v" "k < bNextStop ?v" "j \<noteq> k" "overlap (sScope (bStops ?v j)) (sScope (bStops ?v k))"
        "sSole (bStops ?v j)" "\<not> finished (bStops ?v j)" for j k
    proof (cases "j = ?n")
      case True
      then have "alone w scope" "overlap scope (sScope (bStops w k))" "k < ?n"
        using that new old(1) [of k] same by (auto simp: new_stop_def)
      then show ?thesis using old(2) [of k] by (simp add: alone_def)
    next
      case j: False
      show ?thesis
      proof (cases "k = ?n")
        case True
        then have "overlap scope (sScope (bStops w j))" using that(4) old(1) [OF j] new by (auto simp: overlap_def new_stop_def)
        then show ?thesis using old(2,3) [OF j] that(5,6) by blast
      next
        case False
        then show ?thesis
          using stops_okD(2) [OF W(6), of j k] that old(1-3) [OF j] old(1,2) [OF False] j same by simp
      qed
    qed
  qed (use world_okD(1-5) [OF ok] in \<open>simp_all add: same\<close>)
qed

lemma set_stop_simps [simp]:
  "bReg (set_stop j s w) = bReg w" "bPc (set_stop j s w) = bPc w" "bLive (set_stop j s w) = bLive w"
  "bOwner (set_stop j s w) = bOwner w" "bNext (set_stop j s w) = bNext w" "bNextStop (set_stop j s w) = bNextStop w"
  "bStops (set_stop j s w) = (bStops w)(j := s)"
  by (simp_all add: set_stop_def)

lemma set_stop_reg: "(set_stop j s w)\<lparr>bReg := r\<rparr> = set_stop j s (w\<lparr>bReg := r\<rparr>)"
  by (cases w) (simp add: set_stop_def)

text \<open>A stop that moves on: it was not finished, so no overlapping stop that has not finished is sole.\<close>

lemma set_stop_ok:
  assumes ok: "world_ok w" and j: "j < bNextStop w" and nf: "\<not> finished (bStops w j)"
    and s: "sScope s = sScope (bStops w j)" "sGate s = sGate (bStops w j)" "sSole s = sSole (bStops w j)"
      "set (sTake s) \<subseteq> set (sTake (bStops w j))" "set (sKill s) \<subseteq> set (sKill (bStops w j))"
      "\<exists>err. sErr s = sErr (bStops w j) @ err"
    and t: "\<And>i. sErr s = [] \<Longrightarrow> bPc w i \<noteq> Absent \<Longrightarrow> in_scope (sScope s) (loop_of w i) \<Longrightarrow> tracked w (bStops w j) i \<Longrightarrow> tracked w s i"
  shows "world_ok (set_stop j s w)"
proof (rule world_okI)
  note W = world_okD [OF ok]
  note T = stop_okD [OF stops_okD(1) [OF W(6) j]]
  have loop: "loop_of (set_stop j s w) = loop_of w" by (simp add: loop_of_def fun_eq_iff)
  have tr: "tracked (set_stop j s w) s' i = tracked w s' i" for s' i by (simp add: tracked_def)
  have "stop_ok w s"
  proof (rule stop_okI)
    show "tracked w s i" if "watching (bReg w) s" "bPc w i \<noteq> Absent" "in_scope (sScope s) (loop_of w i)" for i
    proof -
      have "watching (bReg w) (bStops w j)" using that(1) s(1,2,3,6) by (auto simp: watching_def gated_def split: option.splits)
      then have "tracked w (bStops w j) i" using T(6) that s(1) by simp
      then show ?thesis using t that by (simp add: watching_def)
    qed
  qed (use T s in auto)
  then have new: "stop_ok (set_stop j s w) s" by (simp add: stop_ok_def loop tr)
  show "stop_ok (set_stop j s w) (bStops (set_stop j s w) k)" if "k < bNextStop (set_stop j s w)" for k
    using new stops_okD(1) [OF W(6), of k] that by (simp add: stop_ok_def loop tr)
  show "finished (bStops (set_stop j s w) k)"
    if "i < bNextStop (set_stop j s w)" "k < bNextStop (set_stop j s w)" "i \<noteq> k"
      "overlap (sScope (bStops (set_stop j s w) i)) (sScope (bStops (set_stop j s w) k))"
      "sSole (bStops (set_stop j s w) i)" "\<not> finished (bStops (set_stop j s w) i)" for i k
    using stops_okD(2) [OF W(6), of i k] that nf s(1,3) by (auto split: if_splits)
qed (use world_okD(1-5) [OF ok] in simp_all)

lemma sole_others:
  assumes ok: "world_ok w" and j: "j < bNextStop w" "i \<in> set (sTake (bStops w j))" "\<not> finished (bStops w j)"
    and k: "k < bNextStop w" "k \<noteq> j" "i \<in> set (sTake (bStops w k))"
  shows "\<not> sSole (bStops w k)"
proof
  assume sole: "sSole (bStops w k)"
  note W = world_okD [OF ok]
  have "in_scope (sScope (bStops w j)) (loop_of w i)" "in_scope (sScope (bStops w k)) (loop_of w i)"
    using stop_okD(2) [OF stops_okD(1) [OF W(6) j(1)] j(2)] stop_okD(2) [OF stops_okD(1) [OF W(6) k(1)] k(3)] by simp_all
  then have "overlap (sScope (bStops w k)) (sScope (bStops w j))" by (auto simp: overlap_def in_scope_def split: option.splits)
  moreover have "\<not> finished (bStops w k)" using k(3) by (auto simp: finished_def)
  ultimately show False using stops_okD(2) [OF W(6) k(1) j(1) k(2) _ sole] j(3) by blast
qed

lemma take_ok:
  assumes ok: "world_ok w" and j: "j < bNextStop w" and s: "sSpawnWait (bStops w j) = []" "sRebindWait (bStops w j) = []"
    "sTake (bStops w j) = i # rest" and take: "takeUnownedDrainErr i (bReg w) = (err, r)"
  shows "world_ok (set_stop j ((bStops w j)\<lparr>sTake := rest, sErr := sErr (bStops w j) @ err\<rparr>) (w\<lparr>bReg := r\<rparr>))"
proof -
  let ?s = "(bStops w j)\<lparr>sTake := rest, sErr := sErr (bStops w j) @ err\<rparr>"
  have r: "err = lUnownedDrainErr (rLeases (bReg w) i)" "r = upd_lease i (\<lambda>l. l\<lparr>lUnownedDrainErr := []\<rparr>) (bReg w)"
    using take by (simp_all add: takeUnownedDrainErr_def)
  have nf: "\<not> finished (bStops w j)" using s by (simp add: finished_def)
  have w1: "world_ok (set_stop j ?s w)"
  proof (rule set_stop_ok [OF ok j nf])
    show "tracked w ?s k" if "sErr ?s = []" "tracked w (bStops w j) k" for k
      using that s unfolding tracked_def by (auto simp: r(1))
  qed (use s in auto)
  have "world_ok ((set_stop j ?s w)\<lparr>bReg := r\<rparr>)"
  proof (rule reg_change_ok [OF w1])
    show "same_work (bReg (set_stop j ?s w)) r" by (simp add: r same_work_def)
    show "gated (bReg (set_stop j ?s w)) s'" if "gated r s'" for s'
      using that gated_cong [of r "bReg w" s'] by (simp add: r)
    show "lUnownedDrainErr (rLeases r m) \<noteq> []"
      if "k < bNextStop (set_stop j ?s w)" "m \<in> set (sTake (bStops (set_stop j ?s w) k))" "sSole (bStops (set_stop j ?s w) k)"
        "sErr (bStops (set_stop j ?s w) k) = []" "lUnownedDrainErr (rLeases (bReg (set_stop j ?s w)) m) \<noteq> []" for k m
    proof (cases "m = i")
      case True
      have "k = j \<Longrightarrow> lUnownedDrainErr (rLeases (bReg w) i) = []" using that(4) by (simp add: r(1))
      moreover have "k = j" using sole_others [OF ok j _ nf, of i k] that s True by (auto split: if_splits)
      ultimately show ?thesis using that(5) True by simp
    next
      case False
      then show ?thesis using that(5) by (simp add: r)
    qed
  qed (use spawns_okD(9) [OF world_okD(1) [OF ok]] in \<open>simp_all add: r\<close>)
  then show ?thesis by (simp only: set_stop_reg)
qed

lemma incLoopStop_fields:
  assumes "incLoopStopLocked L r = (g, r')"
  shows "same_work r r'" "rLeases r' = rLeases r" "rAdmissionClosed r' = rAdmissionClosed r" "rNextGate r \<le> rNextGate r'"
    "map_of (rStoppingLoops r') M = (if M = L then Some g else map_of (rStoppingLoops r) M)"
    "map_of (rStoppingLoops r) L = Some g \<or> g = rNextGate r \<and> map_of (rStoppingLoops r) L = None \<and> rNextGate r' = rNextGate r + 1"
    "map_of (rStoppingLoops r) L = Some g \<Longrightarrow> rNextGate r' = rNextGate r"
  using assms by (auto simp: incLoopStopLocked_def same_work_def map_of_put split: option.splits)

lemma fold_cancel_op_same:
  "same_work r (fold cancel_op xs r)" "rLeases (fold cancel_op xs r) = rLeases r"
  "rAdmissionClosed (fold cancel_op xs r) = rAdmissionClosed r" "rNextGate (fold cancel_op xs r) = rNextGate r"
  "rStoppingLoops (fold cancel_op xs r) = rStoppingLoops r"
proof (induction xs arbitrary: r)
  case (Cons x xs)
  { case 1
    have "same_work r (cancel_op x r)" by (simp add: cancel_op_def upd_op_def same_work_def)
    then show ?case using Cons(1) [of "cancel_op x r"] by (simp add: same_work_def) }
qed (simp_all add: cancel_op_def upd_op_def same_work_def)

lemma begin_stop_ok:
  assumes ok: "world_ok w" and b: "BeginLoopStop_locked L (bReg w) = ((g, t), r)"
  shows "world_ok (add_stop w (Some L) g t r)"
proof -
  note W = world_okD [OF ok]
  obtain r1 where r1: "incLoopStopLocked L (bReg w) = (g, r1)" and t: "t = stop_targets (Some L) r1"
    and r: "r = fold cancel_op (filter (\<lambda>i. oLoopID (rOps r1 i) = L) (rBoundOps r1)) r1"
    using b by (auto simp: BeginLoopStop_locked_def collectLoopStopTargetsLocked_def split: prod.splits)
  note I = incLoopStop_fields [OF r1]
  have same: "same_work (bReg w) r" "rLeases r = rLeases (bReg w)" "rAdmissionClosed r = rAdmissionClosed (bReg w)"
    "rNextGate r = rNextGate r1" "rStoppingLoops r = rStoppingLoops r1"
    using I fold_cancel_op_same unfolding r by (simp_all add: same_work_def)
  have old: "M \<noteq> L \<or> map_of (rStoppingLoops (bReg w)) L = Some h" if "map_of (rStoppingLoops r1) M = Some h" "h < rNextGate (bReg w)" for M h
    using that I(5) [of M] I(6) by (auto split: if_splits)
  have small: "h < rNextGate r" if "map_of (rStoppingLoops r) M = Some h" for M h
    using that spawns_okD(9) [OF W(1), of M h] spawns_okD(9) [OF W(1), of L g] I(4,6) I(5) [of M]
    unfolding same(4,5) by (auto split: if_splits)
  have "world_ok (w\<lparr>bReg := r\<rparr>)"
  proof (rule reg_change_ok [OF ok same(1) _ small])
    show "rNextGate (bReg w) \<le> rNextGate r" using I(4) same(4) by simp
    show "gated (bReg w) (bStops w j)" if j: "j < bNextStop w" "gated r (bStops w j)" for j
    proof (cases "sScope (bStops w j)")
      case None
      then show ?thesis using j(2) same(3) by (simp add: gated_def)
    next
      case (Some M)
      then have "map_of (rStoppingLoops r1) M = Some (sGate (bStops w j))" "M \<noteq> []" "sGate (bStops w j) < rNextGate (bReg w)"
        using j stop_okD(5) [OF stops_okD(1) [OF W(6) j(1)]] by (simp_all add: gated_def same(5))
      then show ?thesis using Some old [of M "sGate (bStops w j)"] I(5) [of M] by (auto simp: gated_def split: if_splits)
    qed
  qed (simp_all add: same(2,3))
  moreover have "g < rNextGate r" using small [of L g] I(5) [of L] same(5) by simp
  moreover have "t = stop_targets (Some L) r" unfolding t r using stop_targets_same [OF fold_cancel_op_same(1)] by simp
  ultimately show ?thesis by (intro add_stop_ok) (simp_all add: same(2))
qed

lemma begin_shutdown_ok:
  assumes ok: "world_ok w" and b: "BeginShutdown_locked reason (bReg w) = ((t, ops), r)"
  shows "world_ok (add_stop w None 0 t r)"
proof -
  note W = world_okD [OF ok]
  let ?r1 = "(bReg w)\<lparr>rAdmissionClosed := True, rShutdownReason := (if reason \<noteq> [] then reason else rShutdownReason (bReg w))\<rparr>"
  have t: "t = stop_targets None ?r1" and r: "r = cancelBoundOperationsLocked [] (fold cancel_op (rPendingOps ?r1) ?r1)"
    using b by (auto simp: BeginShutdown_locked_def cancelPendingOperationsLocked_def Let_def)
  have same: "same_work (bReg w) r" "rLeases r = rLeases (bReg w)" "rAdmissionClosed r" "rNextGate r = rNextGate (bReg w)"
    "rStoppingLoops r = rStoppingLoops (bReg w)"
    unfolding r cancelBoundOperationsLocked_def using fold_cancel_op_same by (simp_all add: same_work_def)
  have s1: "same_work ?r1 r" using same(1,2) by (simp add: same_work_def)
  have "world_ok (w\<lparr>bReg := r\<rparr>)"
  proof (rule reg_change_ok [OF ok same(1)])
    show "gated (bReg w) (bStops w j)" if j: "j < bNextStop w" "gated r (bStops w j)" for j
      using j stop_okD(7) [OF stops_okD(1) [OF W(6) j(1)]] same(5) by (simp add: gated_def split: option.splits)
  qed (use spawns_okD(9) [OF W(1)] in \<open>simp_all add: same(2-5)\<close>)
  moreover have "t = stop_targets None r" unfolding t by (rule stop_targets_same [OF s1, symmetric])
  ultimately show ?thesis by (intro add_stop_ok) (simp_all add: same(2,3))
qed

lemma kill_entry_simps [simp]:
  "bStops (kill_entry e soft err w) = bStops w" "bNextStop (kill_entry e soft err w) = bNextStop w"
  "rEntries (bReg (kill_entry e soft err w)) = rEntries (bReg w)"
  "err = [] \<Longrightarrow> \<not> bLive (kill_entry e soft err w) (eHandle (rEntries (bReg w) e))"
  by (simp_all add: kill_entry_def Let_def rememberStopDrain_def kill_def)

lemma stop_kill_ok:
  assumes ok: "world_ok w" and j: "j < bNextStop w" and s: "sKill (bStops w j) = e # rest"
  shows "world_ok (set_stop j ((bStops w j)\<lparr>sKill := rest, sErr := sErr (bStops w j) @ soft @ err\<rparr>) (kill_entry e soft err w))"
proof -
  let ?v = "kill_entry e soft err w" and ?s = "(bStops w j)\<lparr>sKill := rest, sErr := sErr (bStops w j) @ soft @ err\<rparr>"
  have "world_ok (set_stop j ?s ?v)"
  proof (rule set_stop_ok [OF kill_entry_ok [OF ok]])
    show "tracked ?v ?s i" if "sErr ?s = []" "tracked ?v (bStops ?v j) i" for i
    proof -
      have "\<not> bLive ?v (eHandle (rEntries (bReg w) e))" using that(1) by (intro kill_entry_simps) simp
      then show ?thesis using that(2) s unfolding tracked_def by auto
    qed
  qed (use j s in \<open>auto simp: finished_def\<close>)
  then show ?thesis .
qed

lemma stop_second_kill_ok:
  assumes ok: "world_ok w" and j: "j < bNextStop w" and s: "sSecond (bStops w j) = Some (e # rest)"
  shows "world_ok (set_stop j ((bStops w j)\<lparr>sSecond := Some rest, sErr := sErr (bStops w j) @ soft @ err\<rparr>) (kill_entry e soft err w))"
  by (rule set_stop_ok [OF kill_entry_ok [OF ok]]) (use j s in \<open>auto simp: finished_def tracked_def\<close>)

lemma stop_spawn_wait_ok:
  assumes ok: "world_ok w" and j: "j < bNextStop w" and s: "sSpawnWait (bStops w j) = i # rest"
    and s': "s = (if timeout then (bStops w j)\<lparr>sSpawnWait := rest, sErr := sErr (bStops w j) @ [ErrLoopStopWaitTimeout]\<rparr>
          else (bStops w j)\<lparr>sSpawnWait := rest\<rparr>)" and c: "timeout \<or> lSpawnDone (rLeases (bReg w) i)"
  shows "world_ok (set_stop j s w)"
proof (rule set_stop_ok [OF ok j])
  show "tracked w s k" if "sErr s = []" "tracked w (bStops w j) k" for k
  proof -
    have "\<not> timeout" using that(1) s' by (auto split: if_splits)
    then have "lSpawnDone (rLeases (bReg w) i)" and s1: "s = (bStops w j)\<lparr>sSpawnWait := rest\<rparr>" using c s' by simp_all
    then have "\<not> (is_spawning (bPc w i) \<or> is_killing (bPc w i))" using world_okD(2) [OF ok, of i] by (auto simp: lease_ok_def)
    then have "k \<noteq> i \<or> \<not> (is_spawning (bPc w k) \<or> (\<exists>h b. bPc w k = Killing h b \<and> bLive w h \<and> bOwner w h = k))" by auto
    then show ?thesis using that(2) unfolding tracked_def s1 by (auto simp: s)
  qed
qed (use s s' in \<open>auto simp: finished_def\<close>)

lemma stop_rebind_wait_ok:
  assumes ok: "world_ok w" and j: "j < bNextStop w" and s: "sRebindWait (bStops w j) = ch # rest"
    and s': "s = (if timeout then (bStops w j)\<lparr>sRebindWait := rest, sErr := sErr (bStops w j) @ [ErrLoopStopWaitTimeout]\<rparr>
          else (bStops w j)\<lparr>sRebindWait := rest\<rparr>)" and c: "timeout \<or> rChanClosed (bReg w) ch"
  shows "world_ok (set_stop j s w)"
proof (rule set_stop_ok [OF ok j])
  show "tracked w s k" if "sErr s = []" "tracked w (bStops w j) k" for k
  proof -
    have "\<not> timeout" using that(1) s' by (auto split: if_splits)
    then have closed: "rChanClosed (bReg w) ch" and s1: "s = (bStops w j)\<lparr>sRebindWait := rest\<rparr>" using c s' by simp_all
    have "lRebindDone (rLeases (bReg w) k) \<noteq> Some ch" if "awaits_rebind (bPc w k)"
      using world_okD(2) [OF ok, of k] that closed by (auto simp: lease_ok_def in_window_def)
    then show ?thesis using that(2) unfolding tracked_def s1 by (auto simp: s)
  qed
qed (use s s' in \<open>auto simp: finished_def\<close>)

lemma stop_quiet_ok:
  assumes ok: "world_ok w" and j: "j < bNextStop w" and nf: "\<not> finished (bStops w j)"
    and s: "s = (bStops w j)\<lparr>sCancel := xs\<rparr> \<or> s = (bStops w j)\<lparr>sSecond := ys\<rparr>"
  shows "world_ok (set_stop j s w)"
  by (rule set_stop_ok [OF ok j nf]) (use s in \<open>auto simp: tracked_def\<close>)

lemma stop_step_ok: "step w w' \<Longrightarrow> world_ok w \<Longrightarrow> world_ok w'"
proof (induction rule: step.induct)
  case (stop_cancel j w i rest)
  then have "world_ok (set_stop j ((bStops w j)\<lparr>sCancel := rest\<rparr>) w)"
    by (intro stop_quiet_ok) (auto simp: finished_def)
  from cancel_ok [OF this, of i] show ?case by (simp add: set_stop_reg)
next
  case (stop_kill_second j w e rest soft err)
  then show ?case by (intro stop_second_kill_ok) simp_all
next
  case (bind w i h res r)
  then show ?case by (intro bind_ok)
next
  case (bind_fails w i b)
  then show ?case by (intro bind_fails_ok)
next
  case (rebind w i h res r)
  then show ?case by (intro rebind_ok)
qed (auto intro: admit_ok spawn_start_ok killed_ok publish_ok rebind_begin_ok restart_ok rebind_abort_ok rebind_fails_ok mark_ok release_ok kill_ok begin_stop_ok begin_shutdown_ok clear_stop_ok release_stop_ok
    stop_kill_ok stop_spawn_wait_ok stop_rebind_wait_ok take_ok stop_quiet_ok simp: finished_def)

interpretation stops: step_invariant step start_world world_ok
  by unfold_locales (auto intro: start_world_ok stop_step_ok)

lemma reachable_world_ok: "reachable_world w \<Longrightarrow> world_ok w"
  unfolding reachable_world_def using stops.reachable_kept by blast

section \<open>Properties\<close>

text \<open>
  C20. The stop barrier: a loop stop or shutdown that ran to its end without an error, undisturbed by an
  overlapping one and with no earlier refused spawn still dying when it began, leaves no process of
  its scope alive as long as its gate stays closed, whatever was spawned, bound or restarted meanwhile.
\<close>

theorem stop_leaves_no_process:
  assumes "reachable_world w" and j: "j < bNextStop w" "finished (bStops w j)" "sErr (bStops w j) = []" "sSole (bStops w j)"
    and gate: "gated (bReg w) (bStops w j)"
    and h: "in_scope (sScope (bStops w j)) (handle_loop w h)"
  shows "\<not> bLive w h"
proof
  assume live: "bLive w h"
  note W = world_okD [OF reachable_world_ok [OF assms(1)]]
  let ?s = "bStops w j" and ?i = "bOwner w h"
  have "tracked w ?s ?i"
    using stop_okD(6) [OF stops_okD(1) [OF W(6) j(1)]] W(4) [OF live] j gate h by (simp add: watching_def handle_loop_def)
  moreover have "sTake ?s = []" "sKill ?s = []" "sSpawnWait ?s = []" "sRebindWait ?s = []" using j(2) by (simp_all add: finished_def)
  ultimately have "\<not> is_spawning (bPc w ?i)" "\<not> awaits_rebind (bPc w ?i)" "\<not> is_refused (bPc w ?i)"
    "\<not> (bPc w ?i = Running \<and> lHandle (rLeases (bReg w) ?i) = Some h)" "bPc w ?i \<noteq> Killing h b" for b
    using live by (auto simp: tracked_def)
  then show False
    using W(5) [OF live] W(4) [OF live] by (cases "bPc w ?i") (auto simp: handle_ok_def)
qed

section \<open>A run of a stop against a spawn in flight\<close>

definition demo_meta :: SpawnMeta where
  "demo_meta = \<lparr>MLoopID = ''l'', MRunID = ''r'', MExecutionID = ''e'', MVendor = ''v'', MBrownoutProbe = False, MHasProbeRelease = False\<rparr>"

definition demo_start :: world where
  "demo_start = \<lparr>bReg = NewActiveExecutionRegistry, bPc = (\<lambda>_. Absent), bLive = (\<lambda>_. False), bOwner = (\<lambda>_. 0), bNext = 0,
     bStops = (\<lambda>_. \<lparr>sScope = None, sGate = 0, sCancel = [], sKill = [], sSpawnWait = [], sRebindWait = [], sTake = [],
       sHadWaits = False, sSecond = None, sErr = [], sSole = False\<rparr>), bNextStop = 0\<rparr>"

definition run_stop :: "string \<Rightarrow> world \<Rightarrow> world" where
  "run_stop L w = (case BeginLoopStop_locked L (bReg w) of ((g, t), r) \<Rightarrow> add_stop w (Some L) g t r)"

definition run_bind :: "nat \<Rightarrow> nat \<Rightarrow> world \<Rightarrow> world" where
  "run_bind i h w = (case BindHandle_locked i h (bReg w) of (res, r) \<Rightarrow>
     move i (bind_pc res h) (if res = BindRefused then cancel_lease i r else r) w)"

lemma run_stop_step: "step w (run_stop L w)"
  unfolding run_stop_def by (cases "BeginLoopStop_locked L (bReg w)") (auto intro: step.begin_stop split: prod.splits)

lemma run_bind_step: "bPc w i = Started h \<Longrightarrow> step w (run_bind i h w)"
  unfolding run_bind_def by (cases "BindHandle_locked i h (bReg w)") (simp add: step.bind)

text \<open>A process is started while its lease is pending; then the loop is stopped.\<close>

definition demo_spawned :: world where
  "demo_spawned = spawn 1 Started (move 1 Admitted (snd (AdmitSpawn_commit demo_meta False (bReg demo_start))) demo_start)"

definition demo_stopped :: world where
  "demo_stopped = run_stop ''l'' demo_spawned"

definition demo_refused :: world where
  "demo_refused = run_bind 1 0 demo_stopped"

lemma demo_spawned_reachable: "reachable_world demo_spawned"
proof -
  let ?r = "snd (AdmitSpawn_commit demo_meta False (bReg demo_start))"
  have "step demo_start (move 1 Admitted ?r demo_start)"
  proof (rule step.admit)
    show "AdmitSpawn_commit demo_meta False (bReg demo_start) = (Inr 1, ?r)"
      by (simp add: AdmitSpawn_commit_def demo_start_def NewActiveExecutionRegistry_def stopping_def Let_def)
  qed (simp add: demo_start_def NewActiveExecutionRegistry_def)
  moreover have "step (move 1 Admitted ?r demo_start) demo_spawned"
    unfolding demo_spawned_def by (rule step.start) simp
  moreover have "start_world demo_start" by (simp add: start_world_def demo_start_def)
  ultimately show ?thesis unfolding reachable_world_def by (metis converse_rtranclp_into_rtranclp r_into_rtranclp)
qed

lemma reachable_step: "reachable_world w \<Longrightarrow> step w w' \<Longrightarrow> reachable_world w'"
  unfolding reachable_world_def by (metis rtranclp.rtrancl_into_rtrancl)

definition demo_lease :: spawnLease where "demo_lease = blank_lease\<lparr>lMeta := demo_meta\<rparr>"

definition demo_reg :: registry where
  "demo_reg = NewActiveExecutionRegistry\<lparr>rNextLeaseID := 1, rLeases := (\<lambda>_. blank_lease)(1 := demo_lease), rPending := [1]\<rparr>"

definition demo_gated :: registry where
  "demo_gated = demo_reg\<lparr>rStoppingLoops := [(''l'', 0)], rGateRefs := (\<lambda>_. 0)(0 := 1), rNextGate := 1\<rparr>"

lemma demo_lease_sel [simp]: "lMeta demo_lease = demo_meta" "MLoopID demo_meta = ''l''" "lReleased demo_lease = False"
  "lRebinding demo_lease = False" "lSpawnDone demo_lease = False"
  by (simp_all add: demo_lease_def demo_meta_def blank_lease_def)

lemma new_registry_sel [simp]:
  "rStoppingLoops NewActiveExecutionRegistry = []" "rBoundOps NewActiveExecutionRegistry = []" "rActive NewActiveExecutionRegistry = []"
  "rExecutions NewActiveExecutionRegistry = []" "rAdmissionClosed NewActiveExecutionRegistry = False"
  "rNextGate NewActiveExecutionRegistry = 0" "rGateRefs NewActiveExecutionRegistry = (\<lambda>_. 0)"
  by (simp_all add: NewActiveExecutionRegistry_def)

lemma demo_spawned_sel: "bReg demo_spawned = demo_reg"
  "bPc demo_spawned = (\<lambda>_. Absent)(1 := Started 0)" "bLive demo_spawned = (\<lambda>_. False)(0 := True)"
  "bOwner demo_spawned = (\<lambda>_. 0)(0 := 1)" "bNext demo_spawned = 1" "bNextStop demo_spawned = 0"
  by (simp_all add: demo_spawned_def spawn_def AdmitSpawn_commit_def demo_start_def NewActiveExecutionRegistry_def stopping_def
     Let_def demo_lease_def blank_lease_def demo_meta_def demo_reg_def)

lemma demo_begin: "BeginLoopStop_locked ''l'' demo_reg = ((0, \<lparr>tCancel = [1], tSpawnWait = [1], tRebindWait = [], tKill = []\<rparr>), demo_gated)"
  by (simp add: BeginLoopStop_locked_def incLoopStopLocked_def collectLoopStopTargetsLocked_def
   stop_targets_def scoped_leases_def scoped_entries_def rebind_wait_def in_scope_def Let_def List.map_filter_def demo_reg_def demo_gated_def)

lemma demo_alone: "alone demo_spawned (Some ''l'')"
  by (simp add: alone_def settled_def demo_spawned_sel)

lemma demo_stopped_sel: "bReg demo_stopped = demo_gated"
  "bPc demo_stopped = (\<lambda>_. Absent)(1 := Started 0)" "bLive demo_stopped = (\<lambda>_. False)(0 := True)"
  "bOwner demo_stopped = (\<lambda>_. 0)(0 := 1)" "bNext demo_stopped = 1" "bNextStop demo_stopped = 1"
  "bStops demo_stopped 0 = \<lparr>sScope = Some ''l'', sGate = 0, sCancel = [1], sKill = [], sSpawnWait = [1], sRebindWait = [], sTake = [1],
     sHadWaits = True, sSecond = None, sErr = [], sSole = True\<rparr>"
  by (simp_all add: demo_stopped_def run_stop_def demo_spawned_sel demo_begin add_stop_def new_stop_def demo_alone)

lemma demo_bind: "BindHandle_locked 1 0 demo_gated = (BindRefused, demo_gated\<lparr>rPending := []\<rparr>)"
  by (simp add: BindHandle_locked_def Let_def demo_gated_def demo_reg_def stopping_def without_def)

lemma demo_refused_sel: "bReg demo_refused = cancel_lease 1 (demo_gated\<lparr>rPending := []\<rparr>)"
  "bPc demo_refused = (\<lambda>_. Absent)(1 := Killing 0 True)" "bLive demo_refused = (\<lambda>_. False)(0 := True)"
  "bOwner demo_refused = (\<lambda>_. 0)(0 := 1)" "bNext demo_refused = 1" "bNextStop demo_refused = 1"
  "bStops demo_refused 0 = bStops demo_stopped 0"
  by (simp_all add: demo_refused_def run_bind_def demo_stopped_sel demo_bind bind_pc_def del: One_nat_def)

lemma demo_refused_reachable: "reachable_world demo_refused"
proof -
  have "reachable_world demo_stopped"
    unfolding demo_stopped_def by (rule reachable_step [OF demo_spawned_reachable run_stop_step])
  then show ?thesis unfolding demo_refused_def by (rule reachable_step [OF _ run_bind_step]) (simp add: demo_stopped_sel)
qed

lemma demo_second: "BeginLoopStop_locked ''l'' (bReg demo_refused) =
    ((0, \<lparr>tCancel = [], tSpawnWait = [], tRebindWait = [], tKill = []\<rparr>), (bReg demo_refused)\<lparr>rGateRefs := (\<lambda>_. 0)(0 := 2)\<rparr>)"
  by (simp add: BeginLoopStop_locked_def incLoopStopLocked_def collectLoopStopTargetsLocked_def
   stop_targets_def scoped_leases_def scoped_entries_def rebind_wait_def in_scope_def Let_def List.map_filter_def demo_refused_sel
   demo_reg_def demo_gated_def cancel_lease_def upd_lease_def numeral_2_eq_2)

text \<open>
  Two stops of one loop: the gate of the first refuses the bind and takes the lease out of the pending
  set before its process is killed, so the second collects nothing, waits for nothing and returns without
  an error while the process lives. (The same holds of a shutdown that begins then.)
\<close>

lemma overlapping_stop_misses_refused_spawn:
  "\<exists>w j h. reachable_world w \<and> j < bNextStop w \<and> finished (bStops w j) \<and> sErr (bStops w j) = []
     \<and> gated (bReg w) (bStops w j) \<and> in_scope (sScope (bStops w j)) (handle_loop w h) \<and> bLive w h"
proof (intro exI)
  let ?w = "run_stop ''l'' demo_refused"
  have w: "?w = add_stop demo_refused (Some ''l'') 0 \<lparr>tCancel = [], tSpawnWait = [], tRebindWait = [], tKill = []\<rparr>
      ((bReg demo_refused)\<lparr>rGateRefs := (\<lambda>_. 0)(0 := 2)\<rparr>)"
    by (simp add: run_stop_def demo_second)
  have "reachable_world ?w" by (rule reachable_step [OF demo_refused_reachable run_stop_step])
  then show "reachable_world ?w \<and> 1 < bNextStop ?w \<and> finished (bStops ?w 1) \<and> sErr (bStops ?w 1) = []
     \<and> gated (bReg ?w) (bStops ?w 1) \<and> in_scope (sScope (bStops ?w 1)) (handle_loop ?w 0) \<and> bLive ?w 0"
    by (simp add: w add_stop_def demo_refused_sel new_stop_def finished_def gated_def in_scope_def handle_loop_def loop_of_def
      cancel_lease_def upd_lease_def demo_gated_def demo_reg_def)
qed

text \<open>The first stop, run to its end: it waits for the refused process to be killed, finds no error and
  nothing left to kill.\<close>

definition demo_dead :: world where
  "demo_dead = (let w = kill 0 (move 1 (BindKilled True) (bReg demo_refused) demo_refused) in
     move 1 BindFailed (closeSpawnDone 1 (bReg w)) w)"

definition advance :: "(stop \<Rightarrow> stop) \<Rightarrow> (registry \<Rightarrow> registry) \<Rightarrow> world \<Rightarrow> world" where
  "advance f g w = set_stop 0 (f (bStops w 0)) (w\<lparr>bReg := g (bReg w)\<rparr>)"

definition demo_waited :: world where
  "demo_waited = advance (\<lambda>s. s\<lparr>sSpawnWait := []\<rparr>) (\<lambda>r. r) (advance (\<lambda>s. s\<lparr>sCancel := []\<rparr>) (cancel_lease 1) demo_dead)"

definition demo_done :: world where
  "demo_done = advance (\<lambda>s. s\<lparr>sSecond := Some []\<rparr>) (\<lambda>r. r)
     (advance (\<lambda>s. s\<lparr>sTake := [], sErr := sErr s @ []\<rparr>) (\<lambda>r. snd (takeUnownedDrainErr 1 r)) demo_waited)"

lemma advance_sel [simp]: "bStops (advance f g w) 0 = f (bStops w 0)" "bReg (advance f g w) = g (bReg w)"
  "bNextStop (advance f g w) = bNextStop w" "bPc (advance f g w) = bPc w" "bOwner (advance f g w) = bOwner w"
  by (simp_all add: advance_def)

lemma demo_dead_reachable: "reachable_world demo_dead"
proof -
  let ?w = "kill 0 (move 1 (BindKilled True) (bReg demo_refused) demo_refused)"
  have "step demo_refused ?w" by (rule step.bind_kill) (simp add: demo_refused_sel)
  moreover have "step ?w (move 1 BindFailed (if True then closeSpawnDone 1 (bReg ?w) else bReg ?w) ?w)"
    by (rule step.bind_fails) simp
  ultimately show ?thesis
    unfolding demo_dead_def Let_def using reachable_step demo_refused_reachable by (metis (full_types))
qed

lemma demo_dead_sel: "bNextStop demo_dead = 1" "bStops demo_dead 0 = bStops demo_stopped 0"
  "lSpawnDone (rLeases (bReg demo_dead) 1)" "lUnownedDrainErr (rLeases (bReg demo_dead) 1) = []" "rExecutions (bReg demo_dead) = []"
  "rStoppingLoops (bReg demo_dead) = [(''l'', 0)]" "bOwner demo_dead 0 = 1" "MLoopID (lMeta (rLeases (bReg demo_dead) 1)) = ''l''"
  by (simp_all add: demo_dead_def Let_def demo_refused_sel closeSpawnDone_def cancel_lease_def upd_lease_def demo_gated_def demo_reg_def
      demo_lease_def blank_lease_def)

lemma demo_waited_reachable: "reachable_world demo_waited"
proof -
  let ?v = "advance (\<lambda>s. s\<lparr>sCancel := []\<rparr>) (cancel_lease 1) demo_dead"
  have "step demo_dead ?v" unfolding advance_def by (rule step.stop_cancel) (simp_all add: demo_dead_sel demo_stopped_sel)
  moreover have "step ?v (set_stop 0 ((bStops ?v 0)\<lparr>sSpawnWait := []\<rparr>) ?v)"
    by (rule step.stop_spawn_wait [where timeout = False and i = 1 and rest = "[]"])
      (simp_all add: demo_dead_sel demo_stopped_sel cancel_lease_def del: One_nat_def)
  moreover have "demo_waited = set_stop 0 ((bStops ?v 0)\<lparr>sSpawnWait := []\<rparr>) ?v"
    by (simp add: demo_waited_def advance_def [of _ "\<lambda>r. r"])
  ultimately show ?thesis using reachable_step [OF reachable_step [OF demo_dead_reachable]] by metis
qed

lemma demo_waited_sel: "bNextStop demo_waited = 1" "rExecutions (bReg demo_waited) = []" "lUnownedDrainErr (rLeases (bReg demo_waited) 1) = []"
  "bStops demo_waited 0 = (bStops demo_stopped 0)\<lparr>sCancel := [], sSpawnWait := []\<rparr>"
  "rStoppingLoops (bReg demo_waited) = [(''l'', 0)]" "bOwner demo_waited 0 = 1" "MLoopID (lMeta (rLeases (bReg demo_waited) 1)) = ''l''"
  by (simp_all add: demo_waited_def demo_dead_sel cancel_lease_def del: One_nat_def)

lemma demo_done_reachable: "reachable_world demo_done"
proof -
  let ?v = "advance (\<lambda>s. s\<lparr>sTake := [], sErr := sErr s @ []\<rparr>) (\<lambda>r. snd (takeUnownedDrainErr 1 r)) demo_waited"
  have take: "takeUnownedDrainErr 1 (bReg demo_waited) = ([], snd (takeUnownedDrainErr 1 (bReg demo_waited)))"
    using demo_waited_sel(3) by (simp add: takeUnownedDrainErr_def del: One_nat_def)
  have "step demo_waited ?v"
    unfolding advance_def
    by (rule step.stop_take [OF _ _ _ _ _ _ take]) (simp_all add: demo_waited_sel demo_stopped_sel del: One_nat_def)
  moreover have "step ?v (set_stop 0 ((bStops ?v 0)\<lparr>sSecond := Some (scoped_entries (sScope (bStops ?v 0)) (bReg ?v))\<rparr>) ?v)"
    by (rule step.stop_second) (simp_all add: demo_waited_sel demo_stopped_sel)
  moreover have "scoped_entries (sScope (bStops ?v 0)) (bReg ?v) = []"
    by (simp add: scoped_entries_def demo_waited_sel takeUnownedDrainErr_def)
  moreover have "demo_done = set_stop 0 ((bStops ?v 0)\<lparr>sSecond := Some []\<rparr>) ?v"
    by (simp add: demo_done_def advance_def [of _ "\<lambda>r. r"])
  ultimately show ?thesis using reachable_step [OF reachable_step [OF demo_waited_reachable]] by metis
qed

theorem stop_leaves_no_process_witness: "\<not> bLive demo_done 0"
proof (rule stop_leaves_no_process [OF demo_done_reachable, of 0])
  show "gated (bReg demo_done) (bStops demo_done 0)"
    by (simp add: demo_done_def gated_def demo_waited_sel demo_stopped_sel takeUnownedDrainErr_def)
  show "in_scope (sScope (bStops demo_done 0)) (handle_loop demo_done 0)"
    by (simp add: demo_done_def in_scope_def handle_loop_def loop_of_def demo_waited_sel demo_stopped_sel takeUnownedDrainErr_def del: One_nat_def)
qed (simp_all add: demo_done_def finished_def demo_waited_sel demo_stopped_sel)

end
