(* ===== verification/Operation_Leases.thy ===== *)
theory Operation_Leases
  imports Active_Executions
begin

text \<open>
  Ownership of queue claims (\<open>internal/runtime/operation_lease.go\<close>) along any history of registry
  operations: a claim bound to an operation lease is owned until that lease is released, and after
  \<open>BeginShutdown\<close> nothing is admitted any more, so the registry only drains.
\<close>

section \<open>Histories\<close>

datatype reg_op =
    OpAdmit string bool | OpDetach string bool error | OpBind nat string "string option" | OpRelease nat | OpSetVendor nat string
  | OpStop string | OpClear string | OpReleaseGate string nat | OpShutdown string
  | SpAdmit SpawnMeta | SpBind nat nat | SpBeginRebind nat | SpRebind nat nat | SpEndRebind nat | SpMark nat | SpRelease nat

fun exec_reg :: "reg_op \<Rightarrow> registry \<Rightarrow> registry" where
  "exec_reg (OpAdmit vendor ctx_err) r = snd (AdmitOperation vendor ctx_err r)"
| "exec_reg (OpDetach vendor ctx_err refusal) r = snd (AdmitDetachedOperation vendor ctx_err refusal r)"
| "exec_reg (OpBind i item loopID) r = snd (BindClaim i item loopID r)"
| "exec_reg (OpRelease i) r = ReleaseOperation i r"
| "exec_reg (OpSetVendor i vendor) r = SetVendor i vendor r"
| "exec_reg (OpStop loopID) r = snd (BeginLoopStop_locked loopID r)"
| "exec_reg (OpClear loopID) r = snd (ClearLoopStop loopID r)"
| "exec_reg (OpReleaseGate loopID g) r = release_gate loopID g r"
| "exec_reg (OpShutdown reason) r = snd (BeginShutdown_locked reason r)"
| "exec_reg (SpAdmit m) r = snd (AdmitSpawn_commit m False r)"
| "exec_reg (SpBind i h) r = snd (BindHandle_locked i h r)"
| "exec_reg (SpBeginRebind i) r = snd (BeginRebind i r)"
| "exec_reg (SpRebind i h) r = snd (RebindHandle_locked i h r)"
| "exec_reg (SpEndRebind i) r = endRebindLocked i r"
| "exec_reg (SpMark i) r = snd (Release_mark i r)"
| "exec_reg (SpRelease i) r = Release_locked i r"

section \<open>The invariant\<close>

definition ops_ok :: "registry \<Rightarrow> bool" where
  "ops_ok r \<longleftrightarrow> distinct (rPendingOps r @ rBoundOps r)
     \<and> (\<forall>i \<in> set (rPendingOps r). i \<le> rNextOpLeaseID r \<and> \<not> oReleased (rOps r i) \<and> oQueueItemID (rOps r i) = [])
     \<and> (\<forall>i \<in> set (rBoundOps r). i \<le> rNextOpLeaseID r \<and> \<not> oReleased (rOps r i) \<and> oBound (rOps r i))
     \<and> (\<forall>item i. map_of (rBoundByQueueItem r) item = Some i \<longrightarrow>
          item \<noteq> [] \<and> i \<in> set (rBoundOps r) \<and> oQueueItemID (rOps r i) = item)"

text \<open>What cancelling operation leases leaves alone.\<close>

definition ops_view :: "registry \<Rightarrow> nat list \<times> nat list \<times> (string \<times> nat) list \<times> nat \<times> (nat \<Rightarrow> bool \<times> bool \<times> string)" where
  "ops_view r = (rPendingOps r, rBoundOps r, rBoundByQueueItem r, rNextOpLeaseID r,
     (\<lambda>i. (oReleased (rOps r i), oBound (rOps r i), oQueueItemID (rOps r i))))"

lemma ops_viewD:
  assumes "ops_view r' = ops_view r"
  shows "rPendingOps r' = rPendingOps r" "rBoundOps r' = rBoundOps r" "rBoundByQueueItem r' = rBoundByQueueItem r"
    "rNextOpLeaseID r' = rNextOpLeaseID r" "oReleased (rOps r' i) = oReleased (rOps r i)"
    "oBound (rOps r' i) = oBound (rOps r i)" "oQueueItemID (rOps r' i) = oQueueItemID (rOps r i)"
  using assms by (auto simp: ops_view_def fun_eq_iff)

lemma ops_view_ok: "ops_view r' = ops_view r \<Longrightarrow> ops_ok r' = ops_ok r"
  unfolding ops_ok_def by (simp add: ops_viewD [of r' r])

lemma ops_view_owns: "ops_view r' = ops_view r \<Longrightarrow> OwnsQueueClaim r' item = OwnsQueueClaim r item"
  by (simp add: OwnsQueueClaim_def ops_viewD [of r' r] split: option.splits)

lemma ops_view_cancel: "ops_view (cancel_op i r) = ops_view r"
  by (simp add: ops_view_def cancel_op_def upd_op_def fun_eq_iff)

lemma ops_view_fold: "ops_view (fold cancel_op xs r) = ops_view r"
  by (induction xs arbitrary: r) (simp_all add: ops_view_cancel)

lemma ops_view_same: "rPendingOps r' = rPendingOps r \<Longrightarrow> rBoundOps r' = rBoundOps r \<Longrightarrow>
    rBoundByQueueItem r' = rBoundByQueueItem r \<Longrightarrow> rNextOpLeaseID r' = rNextOpLeaseID r \<Longrightarrow> rOps r' = rOps r \<Longrightarrow>
    ops_view r' = ops_view r"
  by (simp add: ops_view_def)

definition touches_ops :: "reg_op \<Rightarrow> bool" where
  "touches_ops p \<longleftrightarrow> (case p of OpAdmit _ _ \<Rightarrow> True | OpDetach _ _ _ \<Rightarrow> True | OpBind _ _ _ \<Rightarrow> True | OpRelease _ \<Rightarrow> True | _ \<Rightarrow> False)"

lemmas spawn_defs = AdmitSpawn_commit_def BindHandle_locked_def BeginRebind_def RebindHandle_locked_def endRebindLocked_def
  Release_mark_def Release_locked_def closeSpawnDone_def upd_lease_def ClearLoopStop_def release_gate_def clearStopDrainedForLoopLocked_def

lemma endRebind_ops: "ops_view (endRebindLocked i r) = ops_view r"
  by (rule ops_view_same) (simp_all add: endRebindLocked_def upd_lease_def Let_def split: option.splits)

lemma rebind_ops: "ops_view (snd (RebindHandle_locked i h r)) = ops_view r"
  by (rule ops_view_same)
    (simp_all add: RebindHandle_locked_def endRebindLocked_def upd_lease_def Let_def split: option.splits prod.splits)

lemma release_ops: "ops_view (Release_locked i r) = ops_view r"
  by (rule ops_view_same) (simp_all add: Release_locked_def closeSpawnDone_def endRebindLocked_def upd_lease_def Let_def split: option.splits)

lemma stop_ops: "ops_view (snd (BeginLoopStop_locked L r)) = ops_view r"
proof -
  obtain g r1 where r1: "incLoopStopLocked L r = (g, r1)" by (cases "incLoopStopLocked L r")
  have "ops_view r1 = ops_view r" using r1 by (intro ops_view_same) (auto simp: incLoopStopLocked_def split: option.splits)
  then show ?thesis by (simp add: BeginLoopStop_locked_def r1 collectLoopStopTargetsLocked_def ops_view_fold)
qed

lemma shutdown_ops: "ops_view (snd (BeginShutdown_locked reason r)) = ops_view r"
proof -
  have "ops_view (r\<lparr>rAdmissionClosed := True, rShutdownReason := x\<rparr>) = ops_view r" for x by (rule ops_view_same) simp_all
  then show ?thesis
    by (simp add: BeginShutdown_locked_def Let_def cancelPendingOperationsLocked_def cancelBoundOperationsLocked_def ops_view_fold)
qed

lemma vendor_ops: "ops_view (SetVendor i v r) = ops_view r"
  by (simp add: ops_view_def SetVendor_def upd_op_def fun_eq_iff)

lemma untouched: "\<not> touches_ops p \<Longrightarrow> ops_view (exec_reg p r) = ops_view r"
proof (cases p)
  case (SpAdmit m)
  then show ?thesis by (auto intro!: ops_view_same simp: AdmitSpawn_commit_def Let_def)
next
  case (SpBind i h)
  then show ?thesis by (auto intro!: ops_view_same simp: BindHandle_locked_def closeSpawnDone_def upd_lease_def Let_def)
qed (auto intro!: ops_view_same simp: touches_ops_def stop_ops shutdown_ops vendor_ops rebind_ops release_ops endRebind_ops
    BeginRebind_def upd_lease_def Let_def Release_mark_def ClearLoopStop_def release_gate_def clearStopDrainedForLoopLocked_def)

lemma ops_okD:
  assumes "ops_ok r"
  shows "distinct (rPendingOps r)" "distinct (rBoundOps r)" "i \<in> set (rPendingOps r) \<Longrightarrow> i \<notin> set (rBoundOps r)"
    "i \<in> set (rPendingOps r) \<Longrightarrow> i \<le> rNextOpLeaseID r \<and> \<not> oReleased (rOps r i) \<and> oQueueItemID (rOps r i) = []"
    "i \<in> set (rBoundOps r) \<Longrightarrow> i \<le> rNextOpLeaseID r \<and> \<not> oReleased (rOps r i) \<and> oBound (rOps r i)"
    "map_of (rBoundByQueueItem r) item = Some i \<Longrightarrow> item \<noteq> [] \<and> i \<in> set (rBoundOps r) \<and> oQueueItemID (rOps r i) = item"
  using assms unfolding ops_ok_def by auto
lemma distinct_without: "distinct xs \<Longrightarrow> distinct (without x xs)"
  by (simp add: without_def)

lemma ops_okI:
  assumes "distinct (rPendingOps r)" "distinct (rBoundOps r)" "\<And>i. i \<in> set (rPendingOps r) \<Longrightarrow> i \<notin> set (rBoundOps r)"
    "\<And>i. i \<in> set (rPendingOps r) \<Longrightarrow> i \<le> rNextOpLeaseID r \<and> \<not> oReleased (rOps r i) \<and> oQueueItemID (rOps r i) = []"
    "\<And>i. i \<in> set (rBoundOps r) \<Longrightarrow> i \<le> rNextOpLeaseID r \<and> \<not> oReleased (rOps r i) \<and> oBound (rOps r i)"
    "\<And>item i. map_of (rBoundByQueueItem r) item = Some i \<Longrightarrow> item \<noteq> [] \<and> i \<in> set (rBoundOps r) \<and> oQueueItemID (rOps r i) = item"
  shows "ops_ok r"
  unfolding ops_ok_def using assms by auto

lemma fresh_op:
  assumes "ops_ok r" and "i = rNextOpLeaseID r + 1"
  shows "i \<notin> set (rPendingOps r)" "i \<notin> set (rBoundOps r)" "map_of (rBoundByQueueItem r) item \<noteq> Some i"
  using ops_okD(4,5) [OF assms(1), of i] ops_okD(5,6) [OF assms(1)] assms(2) by fastforce+

lemma admit_op_ok: assumes ok: "ops_ok r" shows "ops_ok (snd (AdmitOperation vendor ctx_err r))"
proof (cases "ctx_err \<or> rAdmissionClosed r")
  case False
  note D = ops_okD [OF ok] and F = fresh_op [OF ok refl]
  have r: "snd (AdmitOperation vendor ctx_err r) = r\<lparr>rNextOpLeaseID := rNextOpLeaseID r + 1,
      rOps := (rOps r)(rNextOpLeaseID r + 1 := blank_op\<lparr>oVendor := vendor\<rparr>), rPendingOps := (rNextOpLeaseID r + 1) # rPendingOps r\<rparr>"
    using False by (simp add: AdmitOperation_def Let_def)
  show ?thesis unfolding r
  proof (rule ops_okI, goal_cases)
    case (4 i)
    then show ?case using D(4) [of i] by (cases "i = rNextOpLeaseID r + 1") (auto simp: blank_op_def)
  next
    case (5 i)
    then show ?case using D(5) [of i] F by (cases "i = rNextOpLeaseID r + 1") auto
  next
    case (6 item i)
    then show ?case using D(6) [of item i] F by (cases "i = rNextOpLeaseID r + 1") auto
  qed (use D F in auto)
qed (use ok in \<open>auto simp: AdmitOperation_def\<close>)

lemma detach_op_ok: assumes ok: "ops_ok r" shows "ops_ok (snd (AdmitDetachedOperation vendor ctx_err refusal r))"
proof (cases "ctx_err \<or> refusal \<noteq> [] \<or> rAdmissionClosed r")
  case False
  note D = ops_okD [OF ok] and F = fresh_op [OF ok refl]
  have r: "snd (AdmitDetachedOperation vendor ctx_err refusal r) = r\<lparr>rNextOpLeaseID := rNextOpLeaseID r + 1,
      rOps := (rOps r)(rNextOpLeaseID r + 1 := blank_op\<lparr>oVendor := vendor, oBound := True, oPendingDone := True\<rparr>),
      rBoundOps := (rNextOpLeaseID r + 1) # rBoundOps r\<rparr>"
    using False by (simp add: AdmitDetachedOperation_def Let_def)
  show ?thesis unfolding r
  proof (rule ops_okI, goal_cases)
    case (4 i)
    then show ?case using D(4) [of i] F by (cases "i = rNextOpLeaseID r + 1") auto
  next
    case (5 i)
    then show ?case using D(5) [of i] by (cases "i = rNextOpLeaseID r + 1") (auto simp: blank_op_def)
  next
    case (6 item i)
    then show ?case using D(6) [of item i] F by (cases "i = rNextOpLeaseID r + 1") auto
  qed (use D F in auto)
qed (use ok in \<open>auto simp: AdmitDetachedOperation_def\<close>)

lemma bind_op_ok:
  assumes ok: "ops_ok r" and i: "i \<in> set (rPendingOps r)" and item: "item \<noteq> []"
  shows "ops_ok (bind_op i item loopID r)"
proof -
  note D = ops_okD [OF ok]
  have "k \<noteq> i" if "map_of (rBoundByQueueItem r) q = Some k" for q k using D(6) [OF that] D(3) [OF i] by auto
  then show ?thesis
    using D D(3-4) [OF i] item unfolding ops_ok_def bind_op_def upd_op_def
    by (auto simp: distinct_without map_of_put)
qed

lemma bind_claim_ok: "ops_ok r \<Longrightarrow> ops_ok (snd (BindClaim i item loopID r))"
  by (auto simp: BindClaim_def Let_def bind_op_ok)

lemma release_op_ok:
  assumes ok: "ops_ok r"
  shows "ops_ok (ReleaseOperation i r)"
proof (cases "oReleased (rOps r i)")
  case False
  note D = ops_okD [OF ok]
  let ?r = "ReleaseOperation i r"
  have "map_of (rBoundByQueueItem ?r) q = Some k \<Longrightarrow> map_of (rBoundByQueueItem r) q = Some k \<and> k \<noteq> i" for q k
    using False D(6) [of q i] D(6) [of q k]
    by (auto simp: ReleaseOperation_def Let_def upd_op_def delete_conv' split: if_splits)
  moreover have "rPendingOps ?r = without i (rPendingOps r)" "rBoundOps ?r = without i (rBoundOps r)"
    "rNextOpLeaseID ?r = rNextOpLeaseID r" "\<And>k. k \<noteq> i \<Longrightarrow> rOps ?r k = rOps r k"
    using False by (simp_all add: ReleaseOperation_def Let_def upd_op_def)
  ultimately show ?thesis
  proof (intro ops_okI, goal_cases)
    case (6 item k)
    from 6(1) [OF 6(6)] have "map_of (rBoundByQueueItem r) item = Some k" "k \<noteq> i" by simp_all
    then show ?case using D(6) [of item k] 6(3,5) by simp
  qed (use D in \<open>auto simp: distinct_without\<close>)
qed (use ok in \<open>simp add: ReleaseOperation_def\<close>)

lemma new_ops_ok: "ops_ok NewActiveExecutionRegistry"
  by (simp add: ops_ok_def NewActiveExecutionRegistry_def)

lemma exec_reg_ok: assumes ok: "ops_ok r" shows "ops_ok (exec_reg p r)"
proof (cases "touches_ops p")
  case True
  then show ?thesis
    using ok by (cases p) (simp_all add: touches_ops_def admit_op_ok detach_op_ok bind_claim_ok release_op_ok)
next
  case False
  from ops_view_ok [OF untouched [OF this]] ok show ?thesis by blast
qed

interpretation op_leases: operation_invariant exec_reg "\<lambda>_. True" ops_ok
  by unfold_locales (rule exec_reg_ok)

lemma history_ops_ok: "ops_ok (fold exec_reg ops NewActiveExecutionRegistry)"
  by (rule op_leases.history_kept) (simp_all add: new_ops_ok list_all_iff)

section \<open>Ownership\<close>

text \<open>Lease \<open>i\<close> owns the claim of \<open>item\<close>.\<close>

definition owned_by :: "registry \<Rightarrow> nat \<Rightarrow> string \<Rightarrow> bool" where
  "owned_by r i item \<longleftrightarrow> item \<noteq> [] \<and> map_of (rBoundByQueueItem r) item = Some i \<and> i \<in> set (rBoundOps r)
     \<and> \<not> oReleased (rOps r i) \<and> oBound (rOps r i) \<and> oQueueItemID (rOps r i) = item"

lemma owned_by_owns: "owned_by r i item \<Longrightarrow> OwnsQueueClaim r item \<and> Owns r i item"
  by (simp add: owned_by_def OwnsQueueClaim_def Owns_def)

lemma owned_by_view: "ops_view r' = ops_view r \<Longrightarrow> owned_by r' i item = owned_by r i item"
  by (simp add: owned_by_def ops_viewD [of r' r])

lemma bind_owned:
  "i \<in> set (rPendingOps r) \<Longrightarrow> \<not> oReleased (rOps r i) \<Longrightarrow> item \<noteq> [] \<Longrightarrow> owned_by (snd (BindClaim i item loopID r)) i item"
  by (auto simp: owned_by_def BindClaim_def Let_def bind_op_def upd_op_def map_of_put)

definition interferes :: "nat \<Rightarrow> string \<Rightarrow> reg_op \<Rightarrow> bool" where
  "interferes i item p \<longleftrightarrow> p = OpRelease i \<or> (\<exists>k loopID. p = OpBind k item loopID)"

lemma owned_step:
  assumes ok: "ops_ok r" and own: "owned_by r i item" and p: "\<not> interferes i item p"
  shows "owned_by (exec_reg p r) i item"
proof (cases "touches_ops p")
  case False
  from owned_by_view [OF untouched [OF this]] own show ?thesis by blast
next
  case True
  note D = ops_okD [OF ok]
  have i: "i \<le> rNextOpLeaseID r" "i \<notin> set (rPendingOps r)" using D(3,5) own by (auto simp: owned_by_def)
  show ?thesis
  proof (cases p)
    case (OpBind k q loopID)
    then have "q \<noteq> item" using p by (auto simp: interferes_def)
    then show ?thesis
      using own i by (auto simp: OpBind BindClaim_def Let_def bind_op_def upd_op_def owned_by_def map_of_put)
  next
    case (OpRelease k)
    then have k: "k \<noteq> i" using p by (auto simp: interferes_def)
    then show ?thesis using own unfolding OpRelease exec_reg.simps
      by (auto simp: ReleaseOperation_def Let_def upd_op_def owned_by_def delete_conv')
  qed (use True own i in \<open>auto simp: touches_ops_def AdmitOperation_def AdmitDetachedOperation_def Let_def owned_by_def\<close>)
qed

lemma owned_history:
  "ops_ok r \<Longrightarrow> owned_by r i item \<Longrightarrow> list_all (\<lambda>p. \<not> interferes i item p) ops \<Longrightarrow> owned_by (fold exec_reg ops r) i item"
  by (induction ops arbitrary: r) (auto intro: owned_step exec_reg_ok)

section \<open>Closed admission\<close>

definition work :: "registry \<Rightarrow> nat" where
  "work r = length (rExecutions r) + length (rPending r) + length (rPendingOps r) + length (rBoundOps r)"

definition admits :: "reg_op \<Rightarrow> registry \<Rightarrow> bool" where
  "admits p r \<longleftrightarrow> (case p of
      OpAdmit vendor c \<Rightarrow> \<exists>i. fst (AdmitOperation vendor c r) = Inr i
    | OpDetach vendor c refusal \<Rightarrow> \<exists>i. fst (AdmitDetachedOperation vendor c refusal r) = Inr i
    | OpBind i item loopID \<Rightarrow> \<exists>permit. fst (BindClaim i item loopID r) = Inr permit
    | SpAdmit m \<Rightarrow> \<exists>i. fst (AdmitSpawn_commit m False r) = Inr i
    | SpBind i h \<Rightarrow> fst (BindHandle_locked i h r) = Bound
    | SpBeginRebind i \<Rightarrow> fst (BeginRebind i r) = []
    | SpRebind i h \<Rightarrow> fst (RebindHandle_locked i h r) = Rebound
    | _ \<Rightarrow> False)"

lemma closed_admits_nothing: "rAdmissionClosed r \<Longrightarrow> \<not> admits p r"
  by (cases p) (auto simp: admits_def AdmitOperation_def AdmitDetachedOperation_def BindClaim_def AdmitSpawn_commit_def
      BindHandle_locked_def BeginRebind_def RebindHandle_locked_def Let_def)

lemma length_delete_le: "length (AList.delete k xs) \<le> length xs"
  by (induction xs) auto

lemma length_without_le: "length (without x xs) \<le> length xs"
  by (simp add: without_def)

lemma length_without_member: "x \<in> set xs \<Longrightarrow> length (without x xs) < length xs"
  unfolding without_def by (rule length_filter_less) auto

lemma work_view:
  "ops_view r' = ops_view r \<Longrightarrow> length (rExecutions r') + length (rPending r') \<le> length (rExecutions r) + length (rPending r) \<Longrightarrow>
   work r' \<le> work r"
  by (simp add: work_def ops_viewD [of r' r])

lemma fold_cancel_spawn [simp]: "rExecutions (fold cancel_op xs r) = rExecutions r" "rPending (fold cancel_op xs r) = rPending r"
  "rAdmissionClosed (fold cancel_op xs r) = rAdmissionClosed r"
  by (induction xs arbitrary: r) (simp_all add: cancel_op_def upd_op_def)

lemma stop_spawn:
  "rExecutions (snd (BeginLoopStop_locked L r)) = rExecutions r" "rPending (snd (BeginLoopStop_locked L r)) = rPending r"
  "rAdmissionClosed (snd (BeginLoopStop_locked L r)) = rAdmissionClosed r"
  by (auto simp: BeginLoopStop_locked_def incLoopStopLocked_def collectLoopStopTargetsLocked_def split: option.splits)

lemma shutdown_spawn:
  "rExecutions (snd (BeginShutdown_locked c r)) = rExecutions r" "rPending (snd (BeginShutdown_locked c r)) = rPending r"
  "rAdmissionClosed (snd (BeginShutdown_locked c r))"
  by (simp_all add: BeginShutdown_locked_def Let_def cancelPendingOperationsLocked_def cancelBoundOperationsLocked_def)

lemma endRebind_spawn:
  "rExecutions (endRebindLocked i r) = rExecutions r" "rPending (endRebindLocked i r) = rPending r"
  "rAdmissionClosed (endRebindLocked i r) = rAdmissionClosed r"
  by (simp_all add: endRebindLocked_def upd_lease_def Let_def split: option.splits)

lemma release_spawn:
  "length (rExecutions (Release_locked i r)) \<le> length (rExecutions r)" "rPending (Release_locked i r) = without i (rPending r)"
  "rAdmissionClosed (Release_locked i r) = rAdmissionClosed r"
  by (simp_all add: Release_locked_def closeSpawnDone_def upd_lease_def endRebind_spawn length_delete_le Let_def split: option.splits)

lemma closed_stays: "rAdmissionClosed r \<Longrightarrow> rAdmissionClosed (exec_reg p r)"
  by (cases p)
    (simp_all add: stop_spawn shutdown_spawn endRebind_spawn release_spawn AdmitOperation_def AdmitDetachedOperation_def BindClaim_def
      bind_op_def upd_op_def ReleaseOperation_def SetVendor_def ClearLoopStop_def clearStopDrainedForLoopLocked_def release_gate_def
      AdmitSpawn_commit_def BindHandle_locked_def BeginRebind_def RebindHandle_locked_def Release_mark_def upd_lease_def Let_def)

lemma closed_bind: "rAdmissionClosed r \<Longrightarrow> rExecutions (snd (BindHandle_locked i h r)) = rExecutions r
    \<and> length (rPending (snd (BindHandle_locked i h r))) \<le> length (rPending r)"
  by (simp add: BindHandle_locked_def Let_def length_without_le)

lemma closed_spawn_step:
  assumes "rAdmissionClosed r" "\<not> touches_ops p"
  shows "length (rExecutions (exec_reg p r)) + length (rPending (exec_reg p r)) \<le> length (rExecutions r) + length (rPending r)"
proof (cases p)
  case (SpBind i h)
  then show ?thesis using closed_bind [OF assms(1), of i h] by simp
next
  case (SpRelease i)
  then show ?thesis using release_spawn [of i r] length_without_le [of i "rPending r"] by simp
qed (use assms in \<open>simp_all add: touches_ops_def stop_spawn shutdown_spawn endRebind_spawn SetVendor_def upd_op_def ClearLoopStop_def
      clearStopDrainedForLoopLocked_def release_gate_def AdmitSpawn_commit_def BeginRebind_def RebindHandle_locked_def Release_mark_def
      upd_lease_def Let_def\<close>)

lemma closed_step:
  assumes "rAdmissionClosed r" shows "work (exec_reg p r) \<le> work r"
proof (cases "touches_ops p")
  case False
  from work_view [OF untouched [OF False] closed_spawn_step [OF assms False]] show ?thesis .
next
  case True
  then show ?thesis
  proof (cases p)
    case (OpBind i item loopID)
    have "work (bind_op i item l r) \<le> work r" if "i \<in> set (rPendingOps r)" for l
      using length_without_member [OF that] by (simp add: work_def bind_op_def upd_op_def)
    then show ?thesis by (auto simp: OpBind BindClaim_def Let_def)
  next
    case (OpRelease i)
    then show ?thesis
      using length_without_le [of i "rPendingOps r"] length_without_le [of i "rBoundOps r"]
      by (simp add: work_def ReleaseOperation_def upd_op_def Let_def)
  qed (use assms in \<open>simp_all add: touches_ops_def AdmitOperation_def AdmitDetachedOperation_def\<close>)
qed

lemma closed_history: "rAdmissionClosed r \<Longrightarrow> rAdmissionClosed (fold exec_reg ops r) \<and> work (fold exec_reg ops r) \<le> work r"
proof (induction ops arbitrary: r)
  case (Cons p ops)
  then show ?case using closed_stays [OF Cons.prems, of p] closed_step [OF Cons.prems, of p] by fastforce
qed simp

section \<open>Properties\<close>

text \<open>
  C22. No claimed item without an owner: once \<open>BindClaim\<close> ran for a lease waiting to be bound, with a permit or
  refused because of a stop, a shutdown or a cancellation, the item stays owned by that lease,
  through whatever else happens in the registry, until the lease is released or the item is bound again.
\<close>

theorem claim_owned_until_release:
  assumes r: "r = fold exec_reg before NewActiveExecutionRegistry" and i: "i \<in> set (rPendingOps r)" and item: "item \<noteq> []"
    and after_ops: "list_all (\<lambda>p. \<not> interferes i item p) ops"
  shows "OwnsQueueClaim (fold exec_reg ops (snd (BindClaim i item loopID r))) item
    \<and> Owns (fold exec_reg ops (snd (BindClaim i item loopID r))) i item"
proof -
  have ok: "ops_ok r" unfolding r by (rule history_ops_ok)
  have "owned_by (snd (BindClaim i item loopID r)) i item"
    using ops_okD(4) [OF ok i] by (intro bind_owned i item) simp
  from owned_by_owns [OF owned_history [OF bind_claim_ok [OF ok] this after_ops]] show ?thesis .
qed

theorem claim_owned_until_release_witness:
  "OwnsQueueClaim (fold exec_reg [OpStop ''l'', OpRelease 2, OpShutdown ''bye'']
     (snd (BindClaim 1 ''q'' (Some ''l'') (fold exec_reg [OpAdmit ''v'' False, OpAdmit ''v'' False] NewActiveExecutionRegistry)))) ''q''"
  by (rule claim_owned_until_release [THEN conjunct1, OF refl])
    (simp_all add: interferes_def AdmitOperation_def NewActiveExecutionRegistry_def)

text \<open>
  A shutdown only drains: from \<open>BeginShutdown\<close> on no operation of any later history admits, binds or
  rebinds anything, and the number of live executions, pending spawns and pending or bound
  operations never grows.
\<close>

theorem shutdown_only_drains:
  "\<not> admits p (fold exec_reg ops (exec_reg (OpShutdown reason) r))
   \<and> work (fold exec_reg (ops @ later) (exec_reg (OpShutdown reason) r)) \<le> work (fold exec_reg ops (exec_reg (OpShutdown reason) r))"
proof -
  have "rAdmissionClosed (exec_reg (OpShutdown reason) r)" by (simp add: shutdown_spawn)
  then have "rAdmissionClosed (fold exec_reg ops (exec_reg (OpShutdown reason) r))" using closed_history by blast
  then show ?thesis using closed_admits_nothing closed_history by simp
qed

end
