(* ===== verification/Convergence.thy ===== *)
theory Convergence
  imports Prelude
begin

text \<open>
  Progress of a reviewer/fixer dialogue (\<open>internal/reviewer/convergence/convergence.go\<close>, severities of
  \<open>internal/reviewitem\<close>) and what the runner makes of a decision and of a human's answer
  (\<open>internal/reviewer/convergence_runtime.go\<close>). Counters are integers; the items of a state are an
  association list from ids.
\<close>

section \<open>Severities, items, policies\<close>

definition SeverityBlocking :: string where "SeverityBlocking = ''blocking''"
definition SeverityNonBlocking :: string where "SeverityNonBlocking = ''non_blocking''"
definition SeverityNit :: string where "SeverityNit = ''nit''"

definition ParseSeverity :: "string \<Rightarrow> string option" where
  "ParseSeverity value = (let severity = to_lower (trim_space value) in
     if severity \<in> {SeverityBlocking, SeverityNonBlocking, SeverityNit} then Some severity else None)"

definition SeverityFloorBlocking :: string where "SeverityFloorBlocking = ''blocking''"
definition SeverityFloorNonBlocking :: string where "SeverityFloorNonBlocking = ''non_blocking''"
definition SeverityFloorAll :: string where "SeverityFloorAll = ''all''"

definition ItemStatusOpen :: string where "ItemStatusOpen = ''open''"
definition ItemStatusResolved :: string where "ItemStatusResolved = ''resolved''"
definition ItemStatusSuperseded :: string where "ItemStatusSuperseded = ''superseded''"
definition ItemStatusDeferred :: string where "ItemStatusDeferred = ''deferred''"

definition FixerResultFixed :: string where "FixerResultFixed = ''fixed''"
definition FixerResultDeclined :: string where "FixerResultDeclined = ''declined''"
definition FixerResultDeferred :: string where "FixerResultDeferred = ''deferred''"

datatype Action = ActionNone | ActionContinue | ActionComplete | ActionEscalate
datatype Reason = ReasonNone | ReasonConverging | ReasonSeverityFloorReached | ReasonStalled | ReasonAbsoluteCeiling

record Policy =
  MaxConsecutiveUnproductive :: int
  MaxFixerAttemptsPerItem :: int
  MaxTotalRounds :: int
  SeverityFloor :: string

record Item =
  ItemID :: string
  Severity :: string
  ItemStatus :: string
  FixerResult :: string
  FixerAttemptKey :: string
  FixerAttempts :: int
  Stuck :: bool

record RoundSummary =
  RNumber :: int
  RProductive :: bool
  NewItemIDs :: "string list"
  ClosedItemIDs :: "string list"
  StuckItemIDs :: "string list"
  OpenItemIDs :: "string list"

record State =
  TotalRounds :: int
  ConsecutiveUnproductive :: int
  Items :: "(string \<times> Item) list"
  History :: "RoundSummary list"

record Decision =
  DState :: State
  DAction :: Action
  DReason :: Reason
  DProductive :: bool

datatype convergence_error =
    NonPositive string | UnsupportedFloor string | IDRequired | BadSeverity string | BadStatus string string
  | BadFixerResult string string | NegativeAttempts string int | NegativeCounter string
  | DuplicateItem string | SeverityChanged string string string | StuckAttempt string | Reopened string string

definition DefaultPolicy :: Policy where
  "DefaultPolicy = \<lparr>MaxConsecutiveUnproductive = 3, MaxFixerAttemptsPerItem = 4, MaxTotalRounds = 40,
     SeverityFloor = SeverityFloorNonBlocking\<rparr>"

text \<open>\<open>None\<close> is a nil error.\<close>

definition Policy_Validate :: "Policy \<Rightarrow> convergence_error option" where
  "Policy_Validate p =
     (if MaxConsecutiveUnproductive p \<le> 0 then Some (NonPositive ''max consecutive unproductive rounds'')
      else if MaxFixerAttemptsPerItem p \<le> 0 then Some (NonPositive ''max fixer attempts per item'')
      else if MaxTotalRounds p \<le> 0 then Some (NonPositive ''max total rounds'')
      else if SeverityFloor p \<in> {SeverityFloorBlocking, SeverityFloorNonBlocking, SeverityFloorAll} then None
      else Some (UnsupportedFloor (SeverityFloor p)))"

definition known_status :: "string \<Rightarrow> bool" where
  "known_status s \<longleftrightarrow> s \<in> {ItemStatusOpen, ItemStatusResolved, ItemStatusSuperseded, ItemStatusDeferred}"

definition known_result :: "string \<Rightarrow> bool" where
  "known_result s \<longleftrightarrow> s \<in> {[], FixerResultFixed, FixerResultDeclined, FixerResultDeferred}"

definition Item_Validate :: "Item \<Rightarrow> convergence_error option" where
  "Item_Validate i =
     (if trim_space (ItemID i) = [] then Some IDRequired
      else if ParseSeverity (Severity i) = None then Some (BadSeverity (ItemID i))
      else if \<not> known_status (ItemStatus i) then Some (BadStatus (ItemID i) (ItemStatus i))
      else if \<not> known_result (FixerResult i) then Some (BadFixerResult (ItemID i) (FixerResult i))
      else if FixerAttempts i < 0 then Some (NegativeAttempts (ItemID i) (FixerAttempts i))
      else None)"

fun first_error :: "('a \<Rightarrow> convergence_error option) \<Rightarrow> 'a list \<Rightarrow> convergence_error option" where
  "first_error f [] = None"
| "first_error f (x # xs) = (case f x of Some e \<Rightarrow> Some e | None \<Rightarrow> first_error f xs)"

definition State_Validate :: "State \<Rightarrow> convergence_error option" where
  "State_Validate s =
     (if TotalRounds s < 0 then Some (NegativeCounter ''total rounds'')
      else if ConsecutiveUnproductive s < 0 then Some (NegativeCounter ''consecutive unproductive'')
      else case first_error (\<lambda>(_, i). Item_Validate i) (Items s) of
        Some e \<Rightarrow> Some e
      | None \<Rightarrow> first_error (\<lambda>r. if RNumber r < 0 then Some (NegativeCounter ''round number'') else None) (History s))"

definition normalizeItem :: "Item \<Rightarrow> convergence_error + Item" where
  "normalizeItem item =
     (let trimmed = trim_space (ItemID item) in
      if trimmed = [] then Inl IDRequired
      else case ParseSeverity (Severity item) of
        None \<Rightarrow> Inl (BadSeverity trimmed)
      | Some severity \<Rightarrow>
        if \<not> known_status (ItemStatus item) then Inl (BadStatus trimmed (ItemStatus item))
        else if \<not> known_result (FixerResult item) then Inl (BadFixerResult trimmed (FixerResult item))
        else Inr (item\<lparr>ItemID := trimmed, Severity := severity\<rparr>))"

definition Includes :: "Policy \<Rightarrow> string \<Rightarrow> bool" where
  "Includes p severity =
     (if SeverityFloor p = SeverityFloorBlocking then severity = SeverityBlocking
      else if SeverityFloor p = SeverityFloorNonBlocking then severity \<in> {SeverityBlocking, SeverityNonBlocking}
      else if SeverityFloor p = SeverityFloorAll then severity \<in> {SeverityBlocking, SeverityNonBlocking, SeverityNit}
      else False)"

definition fixerAttemptObserved :: "Item option \<Rightarrow> Item \<Rightarrow> bool" where
  "fixerAttemptObserved previous current = (case previous of
     None \<Rightarrow> True
   | Some prior \<Rightarrow>
     if FixerAttemptKey current \<noteq> [] \<or> FixerAttemptKey prior \<noteq> []
     then FixerAttemptKey current \<noteq> FixerAttemptKey prior \<or> FixerResult current \<noteq> FixerResult prior
     else FixerResult prior = [])"

section \<open>One observed round\<close>

text \<open>What an observed item becomes next to the item recorded before.\<close>

definition carry_over :: "Item option \<Rightarrow> Item \<Rightarrow> convergence_error + Item" where
  "carry_over existing item = (case existing of
     None \<Rightarrow> Inr (item\<lparr>FixerAttempts := 0, Stuck := False\<rparr>)
   | Some prior \<Rightarrow>
     if Severity prior \<noteq> Severity item then Inl (SeverityChanged (ItemID item) (Severity prior) (Severity item))
     else let item = item\<lparr>FixerAttempts := FixerAttempts prior, Stuck := Stuck prior\<rparr> in
       if Stuck prior \<and> ItemStatus prior = ItemStatusDeferred \<and> ItemStatus item = ItemStatusOpen
       then (if FixerResult item \<noteq> [] then Inl (StuckAttempt (ItemID item)) else Inr (item\<lparr>ItemStatus := ItemStatusDeferred\<rparr>))
       else if ItemStatus prior \<noteq> ItemStatusOpen \<and> ItemStatus item = ItemStatusOpen
       then Inl (Reopened (ItemID item) (ItemStatus prior))
       else Inr item)"

definition count_attempt :: "Policy \<Rightarrow> Item option \<Rightarrow> Item \<Rightarrow> Item \<times> bool" where
  "count_attempt policy existing item =
     (let item = (if FixerResult item \<noteq> [] \<and> fixerAttemptObserved existing item
                  then item\<lparr>FixerAttempts := FixerAttempts item + 1\<rparr> else item) in
      if ItemStatus item = ItemStatusOpen \<and> FixerAttempts item \<ge> MaxFixerAttemptsPerItem policy
      then (item\<lparr>ItemStatus := ItemStatusDeferred, Stuck := True\<rparr>, True) else (item, False))"

definition note_item :: "Policy \<Rightarrow> Item option \<Rightarrow> Item \<Rightarrow> bool \<Rightarrow> RoundSummary \<Rightarrow> RoundSummary" where
  "note_item policy existing item got_stuck summary =
     (let s = (if got_stuck then summary\<lparr>StuckItemIDs := StuckItemIDs summary @ [ItemID item]\<rparr> else summary) in
      if \<not> Includes policy (Severity item) then s
      else case existing of
        None \<Rightarrow> s\<lparr>NewItemIDs := NewItemIDs s @ [ItemID item], RProductive := True\<rparr>
      | Some prior \<Rightarrow>
        if ItemStatus prior = ItemStatusOpen \<and> ItemStatus item \<in> {ItemStatusResolved, ItemStatusSuperseded}
        then s\<lparr>ClosedItemIDs := ClosedItemIDs s @ [ItemID item], RProductive := True\<rparr> else s)"

fun observe :: "Policy \<Rightarrow> Item list \<Rightarrow> string list \<Rightarrow> (string \<times> Item) list \<Rightarrow> RoundSummary \<Rightarrow>
    convergence_error + (string \<times> Item) list \<times> RoundSummary" where
  "observe policy [] seen its summary = Inr (its, summary)"
| "observe policy (observed # rest) seen its summary =
     (case normalizeItem observed of
        Inl e \<Rightarrow> Inl e
      | Inr item \<Rightarrow>
        if ItemID item \<in> set seen then Inl (DuplicateItem (ItemID item))
        else case carry_over (map_of its (ItemID item)) item of
          Inl e \<Rightarrow> Inl e
        | Inr carried \<Rightarrow>
          (case count_attempt policy (map_of its (ItemID item)) carried of (counted, got_stuck) \<Rightarrow>
             observe policy rest (ItemID item # seen) (put (ItemID item) counted its)
               (note_item policy (map_of its (ItemID item)) counted got_stuck summary)))"

definition open_ids :: "Policy \<Rightarrow> (string \<times> Item) list \<Rightarrow> string list" where
  "open_ids policy its = map fst (filter (\<lambda>(_, item). Includes policy (Severity item) \<and> ItemStatus item = ItemStatusOpen) its)"

definition decide :: "Policy \<Rightarrow> State \<Rightarrow> bool \<Rightarrow> Action \<times> Reason" where
  "decide policy s some_open =
     (if \<not> some_open then (ActionComplete, ReasonSeverityFloorReached)
      else if TotalRounds s \<ge> MaxTotalRounds policy then (ActionEscalate, ReasonAbsoluteCeiling)
      else if ConsecutiveUnproductive s \<ge> MaxConsecutiveUnproductive policy then (ActionEscalate, ReasonStalled)
      else (ActionContinue, ReasonConverging))"

definition Evaluate :: "State \<Rightarrow> Item list \<Rightarrow> Policy \<Rightarrow> convergence_error + Decision" where
  "Evaluate previous round policy = (case Policy_Validate policy of
     Some e \<Rightarrow> Inl e
   | None \<Rightarrow>
     let total = TotalRounds previous + 1 in
     (case observe policy round [] (Items previous)
         \<lparr>RNumber = total, RProductive = False, NewItemIDs = [], ClosedItemIDs = [], StuckItemIDs = [], OpenItemIDs = []\<rparr> of
        Inl e \<Rightarrow> Inl e
      | Inr (its, summary) \<Rightarrow>
        let summary = summary\<lparr>NewItemIDs := sort (NewItemIDs summary), ClosedItemIDs := sort (ClosedItemIDs summary),
              StuckItemIDs := sort (StuckItemIDs summary), OpenItemIDs := sort (open_ids policy its)\<rparr>;
            next = previous\<lparr>TotalRounds := total,
              ConsecutiveUnproductive := (if RProductive summary then 0 else ConsecutiveUnproductive previous + 1),
              Items := its, History := History previous @ [summary]\<rparr>;
            (action, reason) = decide policy next (OpenItemIDs summary \<noteq> []) in
        Inr \<lparr>DState = next, DAction = action, DReason = reason, DProductive = RProductive summary\<rparr>))"

section \<open>The record the runner keeps\<close>

text \<open>
  \<open>convergenceMetadata\<close> and the lifecycle label of \<open>convergence.Status\<close>. A policy is resolved per
  project: \<open>roles\<close> is \<open>None\<close> when the runner has no role configuration and \<open>Some None\<close> when
  that configuration leaves the behaviour unset.
\<close>

definition StatusActive :: string where "StatusActive = ''active''"
definition StatusAwaitingHuman :: string where "StatusAwaitingHuman = ''awaiting_human''"
definition StatusCompleted :: string where "StatusCompleted = ''completed''"

definition ValidStatus :: "string \<Rightarrow> bool" where
  "ValidStatus s \<longleftrightarrow> s \<in> {[], StatusActive, StatusAwaitingHuman, StatusCompleted}"

record ConvergenceMetadata =
  CPolicy :: Policy
  CState :: State
  CAction :: Action
  CReason :: Reason
  CStatus :: string

definition empty_state :: State where
  "empty_state = \<lparr>TotalRounds = 0, ConsecutiveUnproductive = 0, Items = [], History = []\<rparr>"

definition zero_policy :: Policy where
  "zero_policy = \<lparr>MaxConsecutiveUnproductive = 0, MaxFixerAttemptsPerItem = 0, MaxTotalRounds = 0, SeverityFloor = []\<rparr>"

definition convergencePolicyForProject :: "Policy option option \<Rightarrow> Policy \<Rightarrow> Policy" where
  "convergencePolicyForProject roles runner =
     (let cfg = (case roles of
            Some (Some c) \<Rightarrow> c
          | Some None \<Rightarrow> DefaultPolicy
          | None \<Rightarrow> if MaxConsecutiveUnproductive runner > 0 \<or> MaxFixerAttemptsPerItem runner > 0
                      \<or> MaxTotalRounds runner > 0 \<or> SeverityFloor runner \<noteq> [] then runner else DefaultPolicy)
      in \<lparr>MaxConsecutiveUnproductive = (if MaxConsecutiveUnproductive cfg = 0 then 3 else MaxConsecutiveUnproductive cfg),
          MaxFixerAttemptsPerItem = (if MaxFixerAttemptsPerItem cfg = 0 then 4 else MaxFixerAttemptsPerItem cfg),
          MaxTotalRounds = (if MaxTotalRounds cfg = 0 then 40 else MaxTotalRounds cfg),
          SeverityFloor = (if SeverityFloor cfg = [] then SeverityFloorNonBlocking else SeverityFloor cfg)\<rparr>)"

definition snapshotConvergencePolicy :: "ConvergenceMetadata option \<Rightarrow> Policy \<Rightarrow> ConvergenceMetadata" where
  "snapshotConvergencePolicy persisted policy = (case persisted of
     Some m \<Rightarrow> m
   | None \<Rightarrow> \<lparr>CPolicy = policy, CState = empty_state, CAction = ActionNone, CReason = ReasonNone, CStatus = StatusActive\<rparr>)"

text \<open>The record after an observed round, and whether the loop is to be suspended for a human.\<close>

definition recordConvergenceProgress ::
  "Policy \<Rightarrow> ConvergenceMetadata option \<Rightarrow> Item list \<Rightarrow> convergence_error + ConvergenceMetadata \<times> bool" where
  "recordConvergenceProgress policy parsed round =
     (let persisted = (case parsed of
            Some m \<Rightarrow> m
          | None \<Rightarrow> \<lparr>CPolicy = zero_policy, CState = empty_state, CAction = ActionNone, CReason = ReasonNone, CStatus = []\<rparr>);
          persisted = (if parsed = None \<or> MaxTotalRounds (CPolicy persisted) = 0
                       then persisted\<lparr>CPolicy := policy\<rparr> else persisted) in
      case Evaluate (CState persisted) round (CPolicy persisted) of
        Inl e \<Rightarrow> Inl e
      | Inr d \<Rightarrow> Inr (persisted\<lparr>CState := DState d, CAction := DAction d, CReason := DReason d,
            CStatus := (if DAction d = ActionEscalate then StatusAwaitingHuman else StatusActive)\<rparr>,
          DAction d = ActionEscalate))"

text \<open>
  The answer of a human. \<open>NotAwaiting\<close> lets the step go on, \<open>StillAwaiting\<close> suspends the loop again,
  \<open>Answered\<close> carries the record that is written back.
\<close>

datatype human_outcome = NotAwaiting | StillAwaiting | Answered ConvergenceMetadata

definition handleConvergenceHumanAnswer ::
  "ConvergenceMetadata option \<Rightarrow> (string \<times> string) option \<Rightarrow> human_outcome" where
  "handleConvergenceHumanAnswer parsed ask = (case parsed of
     None \<Rightarrow> NotAwaiting
   | Some m \<Rightarrow>
     if CStatus m \<noteq> StatusAwaitingHuman then NotAwaiting
     else case ask of
       None \<Rightarrow> StillAwaiting
     | Some (status, text) \<Rightarrow>
       if status \<noteq> ''answered'' then StillAwaiting
       else let answer = to_lower (trim_space text) in
         if answer \<in> {''resume'', ''continue'', ''retry''}
         then Answered (m\<lparr>CStatus := StatusActive, CAction := ActionNone, CReason := ReasonConverging,
                          CState := (CState m)\<lparr>ConsecutiveUnproductive := 0\<rparr>\<rparr>)
         else if answer \<in> {''close'', ''stop'', ''terminate''}
         then Answered (m\<lparr>CStatus := StatusCompleted, CAction := ActionComplete, CReason := ReasonSeverityFloorReached\<rparr>)
         else StillAwaiting)"

definition convergenceLoopStatus :: "ConvergenceMetadata option \<Rightarrow> string" where
  "convergenceLoopStatus parsed = (case parsed of
     None \<Rightarrow> []
   | Some m \<Rightarrow> if CStatus m = StatusCompleted then StatusCompleted
               else if CStatus m = StatusAwaitingHuman then StatusAwaitingHuman else [])"

definition openConvergenceItemIDs :: "State \<Rightarrow> string list" where
  "openConvergenceItemIDs s = sort (map fst (filter (\<lambda>(_, i). ItemStatus i = ItemStatusOpen \<and> \<not> Stuck i) (Items s)))"

section \<open>What one round does to an item\<close>

lemmas severity_names = SeverityBlocking_def SeverityNonBlocking_def SeverityNit_def
lemmas status_names = ItemStatusOpen_def ItemStatusResolved_def ItemStatusSuperseded_def ItemStatusDeferred_def

lemma ParseSeverity_idem:
  assumes "ParseSeverity v = Some s"
  shows "ParseSeverity s = Some s"
proof -
  from assms have s: "s = to_lower (trim_space v)" and m: "s \<in> {SeverityBlocking, SeverityNonBlocking, SeverityNit}"
    by (simp_all only: ParseSeverity_def Let_def option.simps split: if_splits)
  from s have "to_lower (trim_space s) = s" by (simp add: go_str)
  then show ?thesis using m by (simp only: ParseSeverity_def Let_def if_True)
qed

lemma deferred_not_open [simp]: "ItemStatusDeferred \<noteq> ItemStatusOpen" "known_status ItemStatusDeferred"
  by (simp_all add: status_names known_status_def)

lemma normalizeItem_ok:
  assumes "normalizeItem o1 = Inr item"
  shows "trim_space (ItemID item) = ItemID item" and "ItemID item \<noteq> []" and "ParseSeverity (Severity item) \<noteq> None"
    and "known_status (ItemStatus item)" and "known_result (FixerResult item)"
  using assms by (auto simp: normalizeItem_def Let_def dest: ParseSeverity_idem split: if_splits option.splits)

lemma carry_over_ok:
  assumes "carry_over existing item = Inr c"
  shows "ItemID c = ItemID item" and "Severity c = Severity item" and "FixerResult c = FixerResult item"
    and "known_status (ItemStatus item) \<Longrightarrow> known_status (ItemStatus c)"
    and "FixerAttempts c = (case existing of None \<Rightarrow> 0 | Some p \<Rightarrow> FixerAttempts p)"
    and "existing = Some p \<Longrightarrow> Severity p = Severity item"
    and "existing = Some p \<Longrightarrow> ItemStatus p \<noteq> ItemStatusOpen \<Longrightarrow> ItemStatus c \<noteq> ItemStatusOpen"
  using assms by (auto simp: carry_over_def Let_def split: if_splits option.splits)

lemma count_attempt_ok:
  assumes "count_attempt p existing c = (k, stuck)"
  shows "ItemID k = ItemID c" and "Severity k = Severity c" and "FixerResult k = FixerResult c"
    and "known_status (ItemStatus c) \<Longrightarrow> known_status (ItemStatus k)"
    and "FixerAttempts c \<le> FixerAttempts k" and "FixerAttempts k \<le> FixerAttempts c + 1"
    and "ItemStatus k = ItemStatusOpen \<Longrightarrow> FixerAttempts k < MaxFixerAttemptsPerItem p"
    and "ItemStatus c \<noteq> ItemStatusOpen \<Longrightarrow> ItemStatus k \<noteq> ItemStatusOpen"
    and "FixerResult c = [] \<Longrightarrow> FixerAttempts k = FixerAttempts c"
  using assms by (auto simp: count_attempt_def Let_def split: if_splits)

lemma observe_ConsE:
  assumes "observe p (o1 # rest) seen its sm = Inr res"
  obtains item c k stuck where "normalizeItem o1 = Inr item" "ItemID item \<notin> set seen"
    "carry_over (map_of its (ItemID item)) item = Inr c"
    "count_attempt p (map_of its (ItemID item)) c = (k, stuck)"
    "observe p rest (ItemID item # seen) (put (ItemID item) k its)
       (note_item p (map_of its (ItemID item)) k stuck sm) = Inr res"
  using assms by (auto split: sum.splits if_splits prod.splits)


lemma Evaluate_okE:
  assumes "Evaluate prev round p = Inr d"
  obtains its sm h where "Policy_Validate p = None"
    "observe p round [] (Items prev) \<lparr>RNumber = TotalRounds prev + 1, RProductive = False, NewItemIDs = [],
       ClosedItemIDs = [], StuckItemIDs = [], OpenItemIDs = []\<rparr> = Inr (its, sm)"
    "Items (DState d) = its" "TotalRounds (DState d) = TotalRounds prev + 1"
    "History (DState d) = History prev @ [h]" "RNumber h = RNumber sm" "DProductive d = RProductive sm"
    "ConsecutiveUnproductive (DState d) = (if RProductive sm then 0 else ConsecutiveUnproductive prev + 1)"
    "(DAction d, DReason d) = decide p (DState d) (open_ids p its \<noteq> [])"
proof -
  have sn: "sort xs = [] \<longleftrightarrow> xs = []" for xs :: "string list"
    by (metis sorted_sort set_sort set_empty)
  show ?thesis
    using assms that unfolding Evaluate_def Let_def
    by (auto simp: sn split: option.splits sum.splits prod.splits)
qed

lemma note_item_number [simp]: "RNumber (note_item p e k stuck sm) = RNumber sm"
  by (simp add: note_item_def Let_def split: option.split)

lemma observe_number: "observe p round seen its sm = Inr (its', sm') \<Longrightarrow> RNumber sm' = RNumber sm"
proof (induction round arbitrary: seen its sm)
  case (Cons o1 rest)
  from Cons.prems show ?case by (elim observe_ConsE) (auto dest: Cons.IH)
qed simp

text \<open>An item of a state, and a state whose items carry their keys and pass \<open>Item.Validate\<close>.\<close>

definition item_ok :: "string \<times> Item \<Rightarrow> bool" where
  "item_ok e \<longleftrightarrow> ItemID (snd e) = fst e \<and> Item_Validate (snd e) = None"

definition below_budget :: "Policy \<Rightarrow> string \<times> Item \<Rightarrow> bool" where
  "below_budget p e \<longleftrightarrow> (ItemStatus (snd e) = ItemStatusOpen \<longrightarrow> FixerAttempts (snd e) < MaxFixerAttemptsPerItem p)"

lemma set_putE:
  assumes "e \<in> set (put k v ps)"
  obtains "e = (k, v)" | "e \<in> set ps"
  using assms by (induction ps) (auto split: if_splits)

lemma Item_Validate_attempts: "Item_Validate i = None \<Longrightarrow> 0 \<le> FixerAttempts i"
  by (simp add: Item_Validate_def split: if_splits)

lemma settled_item_ok:
  assumes n: "normalizeItem o1 = Inr item" and c: "carry_over existing item = Inr c"
    and k: "count_attempt p existing c = (k, stuck)"
    and e: "case existing of None \<Rightarrow> True | Some i \<Rightarrow> 0 \<le> FixerAttempts i"
  shows "item_ok (ItemID item, k)"
proof -
  have "0 \<le> FixerAttempts k"
    using carry_over_ok(5) [OF c] count_attempt_ok(5) [OF k] e by (auto split: option.splits)
  then show ?thesis
    using normalizeItem_ok [OF n] carry_over_ok(1-4) [OF c] count_attempt_ok(1-4) [OF k]
    by (auto simp: item_ok_def Item_Validate_def)
qed

lemma observe_items_ok:
  assumes "observe p round seen its sm = Inr (its', sm')" and "\<forall>e\<in>set its. item_ok e"
  shows "\<forall>e\<in>set its'. item_ok e"
  using assms
proof (induction round arbitrary: seen its sm)
  case (Cons o1 rest)
  from Cons.prems(1) show ?case
  proof (elim observe_ConsE)
    fix item c k stuck
    assume n: "normalizeItem o1 = Inr item" and c: "carry_over (map_of its (ItemID item)) item = Inr c"
      and k: "count_attempt p (map_of its (ItemID item)) c = (k, stuck)"
      and r: "observe p rest (ItemID item # seen) (put (ItemID item) k its)
        (note_item p (map_of its (ItemID item)) k stuck sm) = Inr (its', sm')"
    have "case map_of its (ItemID item) of None \<Rightarrow> True | Some i \<Rightarrow> 0 \<le> FixerAttempts i"
      using Cons.prems(2) by (auto simp: item_ok_def split: option.split dest!: map_of_SomeD Item_Validate_attempts)
    then have "item_ok (ItemID item, k)" by (rule settled_item_ok [OF n c k])
    then have "\<forall>e\<in>set (put (ItemID item) k its). item_ok e"
      using Cons.prems(2) by (auto elim!: set_putE)
    then show ?case by (rule Cons.IH [OF r])
  qed
qed simp

lemma observe_below_budget:
  assumes "observe p round seen its sm = Inr (its', sm')" and "\<forall>e\<in>set its. below_budget p e"
  shows "\<forall>e\<in>set its'. below_budget p e"
  using assms
proof (induction round arbitrary: seen its sm)
  case (Cons o1 rest)
  from Cons.prems(1) show ?case
  proof (elim observe_ConsE)
    fix item c k stuck
    assume k: "count_attempt p (map_of its (ItemID item)) c = (k, stuck)"
      and r: "observe p rest (ItemID item # seen) (put (ItemID item) k its)
        (note_item p (map_of its (ItemID item)) k stuck sm) = Inr (its', sm')"
    have "below_budget p (ItemID item, k)"
      using count_attempt_ok(7) [OF k] by (simp add: below_budget_def)
    then have "\<forall>e\<in>set (put (ItemID item) k its). below_budget p e"
      using Cons.prems(2) by (auto elim!: set_putE)
    then show ?case by (rule Cons.IH [OF r])
  qed
qed simp

text \<open>How an item may change over a round.\<close>

definition item_advances :: "Item \<Rightarrow> Item \<Rightarrow> bool" where
  "item_advances i j \<longleftrightarrow> Severity j = Severity i \<and> (ItemStatus i \<noteq> ItemStatusOpen \<longrightarrow> ItemStatus j \<noteq> ItemStatusOpen)
     \<and> FixerAttempts i \<le> FixerAttempts j \<and> FixerAttempts j \<le> FixerAttempts i + 1"

lemma item_advances_refl [simp]: "item_advances i i"
  by (simp add: item_advances_def)

lemma settled_item_advances:
  assumes "carry_over (Some i) item = Inr c" and "count_attempt p (Some i) c = (k, stuck)"
  shows "item_advances i k"
  using carry_over_ok [OF assms(1)] count_attempt_ok [OF assms(2)] by (simp add: item_advances_def)

lemma observe_seen:
  assumes "observe p round seen its sm = Inr (its', sm')" and "k \<in> set seen"
  shows "map_of its' k = map_of its k"
  using assms
proof (induction round arbitrary: seen its sm)
  case (Cons o1 rest)
  from Cons.prems show ?case by (elim observe_ConsE) (auto simp: go_list dest!: Cons.IH)
qed simp

lemma observe_advances:
  assumes "observe p round seen its sm = Inr (its', sm')" and "map_of its k = Some i"
  shows "\<exists>j. map_of its' k = Some j \<and> item_advances i j \<and> (j \<noteq> i \<longrightarrow> k \<in> trim_space ` ItemID ` set round)"
  using assms
proof (induction round arbitrary: seen its sm)
  case (Cons o1 rest)
  from Cons.prems(1) show ?case
  proof (elim observe_ConsE)
    fix item c w stuck
    assume n: "normalizeItem o1 = Inr item" and c: "carry_over (map_of its (ItemID item)) item = Inr c"
      and w: "count_attempt p (map_of its (ItemID item)) c = (w, stuck)"
      and r: "observe p rest (ItemID item # seen) (put (ItemID item) w its)
        (note_item p (map_of its (ItemID item)) w stuck sm) = Inr (its', sm')"
    show ?case
    proof (cases "ItemID item = k")
      case True
      then have "map_of its' k = Some w" using observe_seen [OF r, of k] by (simp add: go_list)
      moreover have "item_advances i w" using c w Cons.prems(2) True by (intro settled_item_advances) auto
      moreover have "k = trim_space (ItemID o1)"
        using n True by (auto simp: normalizeItem_def Let_def split: if_splits option.splits)
      ultimately show ?thesis by simp
    next
      case False
      then have "map_of (put (ItemID item) w its) k = Some i" using Cons.prems(2) by (simp add: go_list)
      from Cons.IH [OF r this] show ?thesis by auto
    qed
  qed
qed simp


section \<open>What the evaluation promises\<close>

definition valid_state :: "State \<Rightarrow> bool" where
  "valid_state s \<longleftrightarrow> State_Validate s = None \<and> (\<forall>(k, i)\<in>set (Items s). ItemID i = k)"

lemma first_error_None_iff: "first_error f xs = None \<longleftrightarrow> (\<forall>x\<in>set xs. f x = None)"
  by (induction xs) (auto split: option.splits)

lemma State_Validate_None_iff:
  "State_Validate s = None \<longleftrightarrow> 0 \<le> TotalRounds s \<and> 0 \<le> ConsecutiveUnproductive s
     \<and> first_error (\<lambda>(_, i). Item_Validate i) (Items s) = None
     \<and> first_error (\<lambda>r. if RNumber r < 0 then Some (NegativeCounter ''round number'') else None) (History s) = None"
  by (auto simp: State_Validate_def split: option.splits)

lemma valid_state_iff:
  "valid_state s \<longleftrightarrow> 0 \<le> TotalRounds s \<and> 0 \<le> ConsecutiveUnproductive s \<and> (\<forall>e\<in>set (Items s). item_ok e)
     \<and> (\<forall>r\<in>set (History s). 0 \<le> RNumber r)"
  by (auto simp: valid_state_def State_Validate_None_iff first_error_None_iff item_ok_def split: if_splits)

lemma valid_state_kept:
  assumes "valid_state s" and "Evaluate s round p = Inr d"
  shows "valid_state (DState d)"
  using assms(2)
proof (rule Evaluate_okE)
  fix its sm h
  assume o: "observe p round [] (Items s) \<lparr>RNumber = TotalRounds s + 1, RProductive = False, NewItemIDs = [],
       ClosedItemIDs = [], StuckItemIDs = [], OpenItemIDs = []\<rparr> = Inr (its, sm)"
    and d: "Items (DState d) = its" "TotalRounds (DState d) = TotalRounds s + 1"
      "History (DState d) = History s @ [h]" "RNumber h = RNumber sm"
      "ConsecutiveUnproductive (DState d) = (if RProductive sm then 0 else ConsecutiveUnproductive s + 1)"
  have "\<forall>e\<in>set its. item_ok e"
    by (rule observe_items_ok [OF o]) (use assms(1) in \<open>simp add: valid_state_iff\<close>)
  moreover have "RNumber sm = TotalRounds s + 1" using observe_number [OF o] by simp
  ultimately show ?thesis
    using assms(1) d by (auto simp: valid_state_iff)
qed

text \<open>
  C36. A round that is accepted turns a valid state into a valid state: counters stay
  non-negative, every item passes its own validation and is filed under its id.
\<close>

theorem evaluate_keeps_valid:
  assumes "valid_state s" and "Evaluate s round p = Inr d"
  shows "valid_state (DState d)"
  using assms by (rule valid_state_kept)

definition sample_item :: Item where
  "sample_item = \<lparr>ItemID = ''a'', Severity = ''Blocking'', ItemStatus = ''open'', FixerResult = [], FixerAttemptKey = [],
     FixerAttempts = 0, Stuck = False\<rparr>"

theorem evaluate_keeps_valid_witness:
  "\<exists>d. Evaluate empty_state [sample_item] DefaultPolicy = Inr d \<and> Items (DState d) \<noteq> [] \<and> valid_state (DState d)"
proof -
  have e: "is_ok (Evaluate empty_state [sample_item] DefaultPolicy)
      \<and> Items (DState (projr (Evaluate empty_state [sample_item] DefaultPolicy))) \<noteq> []"
    by code_simp
  then obtain d where d: "Evaluate empty_state [sample_item] DefaultPolicy = Inr d" and n: "Items (DState d) \<noteq> []"
    by (auto simp: is_ok_iff)
  have "valid_state empty_state" by (simp add: valid_state_iff empty_state_def)
  from evaluate_keeps_valid [OF this d] d n show ?thesis by blast
qed

text \<open>
  The rounds of a dialogue as long as the decision is to continue, with the decisions taken.
\<close>

fun run_rounds :: "Policy \<Rightarrow> State \<Rightarrow> Item list list \<Rightarrow> convergence_error + Decision list" where
  "run_rounds p s [] = Inr []"
| "run_rounds p s (r # rs) = (case Evaluate s r p of
     Inl e \<Rightarrow> Inl e
   | Inr d \<Rightarrow> if DAction d = ActionContinue
             then (case run_rounds p (DState d) rs of Inl e \<Rightarrow> Inl e | Inr ds \<Rightarrow> Inr (d # ds)) else Inr [d])"

lemma decide_Continue_iff:
  "decide p s some_open = (ActionContinue, r) \<longleftrightarrow> some_open \<and> TotalRounds s < MaxTotalRounds p
     \<and> ConsecutiveUnproductive s < MaxConsecutiveUnproductive p \<and> r = ReasonConverging"
  by (auto simp: decide_def)

text \<open>
  C35. Whatever rounds are observed, a dialogue takes at most as many decisions as
  rounds are left below the ceiling, and the ceiling itself ends it: its last decision is not to
  continue once that many rounds were observed.
\<close>

theorem dialogue_ends:
  assumes "run_rounds p s rs = Inr ds" and "TotalRounds s < MaxTotalRounds p"
  shows "int (length ds) \<le> MaxTotalRounds p - TotalRounds s
    \<and> (MaxTotalRounds p - TotalRounds s \<le> int (length rs) \<longrightarrow> ds \<noteq> [] \<and> DAction (last ds) \<noteq> ActionContinue)"
  using assms
proof (induction rs arbitrary: s ds)
  case (Cons r rs)
  from Cons.prems(1) obtain d where ev: "Evaluate s r p = Inr d" by (auto split: sum.splits)
  then obtain b where tot: "TotalRounds (DState d) = TotalRounds s + 1"
    and dec: "(DAction d, DReason d) = decide p (DState d) b" by (rule Evaluate_okE) blast
  show ?case
  proof (cases "DAction d = ActionContinue")
    case True
    then obtain ds' where ds: "ds = d # ds'" "run_rounds p (DState d) rs = Inr ds'"
      using Cons.prems(1) ev by (auto split: sum.splits)
    from True dec have "decide p (DState d) b = (ActionContinue, DReason d)" by simp
    then have "TotalRounds (DState d) < MaxTotalRounds p" by (simp add: decide_Continue_iff)
    from Cons.IH [OF ds(2) this] show ?thesis using tot ds(1) True by auto
  next
    case False
    then have "ds = [d]" using Cons.prems(1) ev by simp
    then show ?thesis using False Cons.prems(2) tot by simp
  qed
qed simp

theorem dialogue_ends_witness:
  "\<exists>ds. run_rounds (DefaultPolicy\<lparr>MaxTotalRounds := 2\<rparr>) empty_state [[sample_item], [], []] = Inr ds
     \<and> length ds = 2 \<and> DAction (last ds) = ActionEscalate \<and> int (length ds) \<le> 2"
proof -
  let ?p = "DefaultPolicy\<lparr>MaxTotalRounds := 2\<rparr>" and ?rs = "[[sample_item], [], []]"
  have "is_ok (run_rounds ?p empty_state ?rs) \<and> length (projr (run_rounds ?p empty_state ?rs)) = 2
      \<and> DAction (last (projr (run_rounds ?p empty_state ?rs))) = ActionEscalate"
    by code_simp
  then obtain ds where ds: "run_rounds ?p empty_state ?rs = Inr ds"
    and l: "length ds = 2" "DAction (last ds) = ActionEscalate" by (auto simp: is_ok_iff)
  have "int (length ds) \<le> 2"
    using dialogue_ends [OF ds] by (simp add: empty_state_def)
  with ds l show ?thesis by blast
qed


text \<open>
  No round forgets, reopens or reclassifies an item: an item of the record stays
  there with its severity, never returns to open, its attempts grow by at most one, and it changes
  only when the round names it.
\<close>

theorem round_advances_items:
  assumes "Evaluate s round p = Inr d" and "map_of (Items s) k = Some i"
  shows "\<exists>j. map_of (Items (DState d)) k = Some j \<and> Severity j = Severity i
    \<and> (ItemStatus j = ItemStatusOpen \<longrightarrow> ItemStatus i = ItemStatusOpen)
    \<and> FixerAttempts i \<le> FixerAttempts j \<and> FixerAttempts j \<le> FixerAttempts i + 1
    \<and> (k \<notin> trim_space ` ItemID ` set round \<longrightarrow> j = i)"
  using assms(1)
proof (rule Evaluate_okE)
  fix its sm
  assume o: "observe p round [] (Items s) \<lparr>RNumber = TotalRounds s + 1, RProductive = False, NewItemIDs = [],
       ClosedItemIDs = [], StuckItemIDs = [], OpenItemIDs = []\<rparr> = Inr (its, sm)"
    and its: "Items (DState d) = its"
  from observe_advances [OF o assms(2)] show ?thesis unfolding its item_advances_def by blast
qed

theorem round_advances_items_witness:
  "\<exists>s d j. Evaluate s [sample_item\<lparr>ItemStatus := ItemStatusResolved\<rparr>] DefaultPolicy = Inr d
     \<and> map_of (Items (DState d)) ''a'' = Some j \<and> ItemStatus j = ItemStatusResolved \<and> Severity j = SeverityBlocking"
proof -
  let ?i = "sample_item\<lparr>Severity := SeverityBlocking\<rparr>"
  let ?s = "empty_state\<lparr>Items := [(''a'', ?i)]\<rparr>" and ?r = "[sample_item\<lparr>ItemStatus := ItemStatusResolved\<rparr>]"
  have "is_ok (Evaluate ?s ?r DefaultPolicy)
      \<and> map_option ItemStatus (map_of (Items (DState (projr (Evaluate ?s ?r DefaultPolicy)))) ''a'') = Some ItemStatusResolved"
    by code_simp
  then obtain d where d: "Evaluate ?s ?r DefaultPolicy = Inr d"
    and st: "map_option ItemStatus (map_of (Items (DState d)) ''a'') = Some ItemStatusResolved"
    by (auto simp: is_ok_iff)
  have "map_of (Items ?s) ''a'' = Some ?i" by simp
  from round_advances_items [OF d this] d st show ?thesis by fastforce
qed

lemma open_ids_empty_iff:
  "open_ids p its = [] \<longleftrightarrow> (\<forall>(k, i)\<in>set its. Includes p (Severity i) \<longrightarrow> ItemStatus i \<noteq> ItemStatusOpen)"
  by (auto simp: open_ids_def filter_empty_conv)

text \<open>
  The decision is determined by the record after the round. It completes exactly
  when no item at or above the severity floor is open, and otherwise escalates exactly at the
  ceiling of rounds or after too many unproductive ones.
\<close>

theorem decision_exact:
  assumes "Evaluate s round p = Inr d"
  shows "(DAction d = ActionComplete \<longleftrightarrow>
       (\<forall>(k, i)\<in>set (Items (DState d)). Includes p (Severity i) \<longrightarrow> ItemStatus i \<noteq> ItemStatusOpen))
    \<and> (DAction d = ActionEscalate \<longleftrightarrow> DAction d \<noteq> ActionComplete
       \<and> (TotalRounds s + 1 \<ge> MaxTotalRounds p
          \<or> \<not> DProductive d \<and> ConsecutiveUnproductive s + 1 \<ge> MaxConsecutiveUnproductive p))
    \<and> DAction d \<noteq> ActionNone"
  using assms
proof (rule Evaluate_okE)
  fix its sm
  assume pv: "Policy_Validate p = None" and d: "Items (DState d) = its" "TotalRounds (DState d) = TotalRounds s + 1"
    "DProductive d = RProductive sm"
    "ConsecutiveUnproductive (DState d) = (if RProductive sm then 0 else ConsecutiveUnproductive s + 1)"
    and dec: "(DAction d, DReason d) = decide p (DState d) (open_ids p its \<noteq> [])"
  from pv have pos: "0 < MaxConsecutiveUnproductive p" by (simp add: Policy_Validate_def split: if_splits)
  show ?thesis
    using dec pos unfolding d(1) open_ids_empty_iff [symmetric]
    by (auto simp: decide_def d split: if_splits)
qed

theorem decision_exact_witness:
  "\<exists>d. Evaluate empty_state [sample_item] DefaultPolicy = Inr d \<and> DAction d = ActionContinue
     \<and> (\<exists>(k, i)\<in>set (Items (DState d)). ItemStatus i = ItemStatusOpen)"
proof -
  have "is_ok (Evaluate empty_state [sample_item] DefaultPolicy)
      \<and> DAction (projr (Evaluate empty_state [sample_item] DefaultPolicy)) = ActionContinue"
    by code_simp
  then obtain d where d: "Evaluate empty_state [sample_item] DefaultPolicy = Inr d" and c: "DAction d = ActionContinue"
    by (auto simp: is_ok_iff)
  from decision_exact [OF d] c d show ?thesis by fastforce
qed

section \<open>The record over the life of a loop\<close>

datatype convergence_event = Observed "Item list" | HumanSaid "(string \<times> string) option"

text \<open>A rejected round and an unusable answer write nothing back.\<close>

fun exec_event :: "Policy \<Rightarrow> convergence_event \<Rightarrow> ConvergenceMetadata \<Rightarrow> ConvergenceMetadata" where
  "exec_event p (Observed round) m = (case recordConvergenceProgress p (Some m) round of Inl e \<Rightarrow> m | Inr (m', _) \<Rightarrow> m')"
| "exec_event p (HumanSaid ask) m = (case handleConvergenceHumanAnswer (Some m) ask of Answered m' \<Rightarrow> m' | _ \<Rightarrow> m)"

definition record_ok :: "Policy \<Rightarrow> ConvergenceMetadata \<Rightarrow> bool" where
  "record_ok p m \<longleftrightarrow> CPolicy m = p \<and> MaxTotalRounds p \<noteq> 0 \<and> valid_state (CState m)
     \<and> (\<forall>e\<in>set (Items (CState m)). below_budget p e) \<and> ValidStatus (CStatus m)
     \<and> (CStatus m = StatusAwaitingHuman \<longleftrightarrow> CAction m = ActionEscalate)"

lemmas record_status_names = StatusActive_def StatusAwaitingHuman_def StatusCompleted_def

lemma exec_observed_ok:
  assumes ok: "record_ok p m"
  shows "record_ok p (exec_event q (Observed round) m)"
proof (cases "Evaluate (CState m) round p")
  case (Inr d)
  from ok have "CPolicy m = p" "MaxTotalRounds p \<noteq> 0" by (simp_all add: record_ok_def)
  then have e: "exec_event q (Observed round) m = m\<lparr>CState := DState d, CAction := DAction d, CReason := DReason d,
      CStatus := (if DAction d = ActionEscalate then StatusAwaitingHuman else StatusActive)\<rparr>"
    using Inr by (simp add: recordConvergenceProgress_def)
  have "valid_state (DState d)" using ok Inr by (auto simp: record_ok_def dest: valid_state_kept)
  moreover have "\<forall>e\<in>set (Items (DState d)). below_budget p e"
    using Inr ok by (elim Evaluate_okE) (simp add: record_ok_def observe_below_budget)
  ultimately show ?thesis
    using ok unfolding e by (simp add: record_ok_def ValidStatus_def record_status_names)
qed (use ok in \<open>simp add: record_ok_def recordConvergenceProgress_def\<close>)

lemma exec_answer_ok:
  assumes ok: "record_ok p m"
  shows "record_ok p (exec_event q (HumanSaid ask) m)"
  using ok unfolding exec_event.simps handleConvergenceHumanAnswer_def
  by (auto simp: record_ok_def valid_state_iff ValidStatus_def record_status_names Let_def split: option.splits)

interpretation convergence_record: operation_invariant "exec_event q" "\<lambda>_. True" "record_ok p"
proof
  fix e m assume "record_ok p m"
  then show "record_ok p (exec_event q e m)"
    by (cases e) (simp_all only: exec_observed_ok exec_answer_ok)
qed

text \<open>
  C34. From the snapshot of a valid policy on, over any sequence of observed rounds and
  human answers and under any later configuration, the record keeps its policy, its state is valid,
  every open item has been attempted fewer times than the policy allows, and the loop awaits a
  human exactly after an escalation.
\<close>

theorem convergence_record_kept:
  assumes "Policy_Validate p = None" and "m = fold (exec_event q) events (snapshotConvergencePolicy None p)"
  shows "CPolicy m = p \<and> valid_state (CState m)
    \<and> (\<forall>(k, i)\<in>set (Items (CState m)). ItemStatus i = ItemStatusOpen \<longrightarrow> FixerAttempts i < MaxFixerAttemptsPerItem p)
    \<and> (CStatus m = StatusAwaitingHuman \<longleftrightarrow> CAction m = ActionEscalate)"
proof -
  have "record_ok p (snapshotConvergencePolicy None p)"
    using assms(1) by (auto simp: record_ok_def snapshotConvergencePolicy_def empty_state_def valid_state_iff
        ValidStatus_def record_status_names Policy_Validate_def split: if_splits)
  then have "record_ok p m"
    unfolding assms(2) by (intro convergence_record.history_kept) (simp_all add: list_all_iff)
  then show ?thesis by (auto simp: record_ok_def below_budget_def)
qed

theorem convergence_record_kept_witness:
  "let m = fold (exec_event DefaultPolicy) (replicate 4 (Observed [sample_item]) @ [HumanSaid (Some (''answered'', '' Resume''))])
        (snapshotConvergencePolicy None DefaultPolicy)
   in Items (CState m) \<noteq> [] \<and> CStatus m = StatusActive \<and> valid_state (CState m)"
proof -
  let ?m = "fold (exec_event DefaultPolicy) (replicate 4 (Observed [sample_item]) @ [HumanSaid (Some (''answered'', '' Resume''))])
        (snapshotConvergencePolicy None DefaultPolicy)"
  have "Policy_Validate DefaultPolicy = None" by code_simp
  from convergence_record_kept [OF this refl] have "valid_state (CState ?m)" by blast
  moreover have "Items (CState ?m) \<noteq> [] \<and> CStatus ?m = StatusActive" by code_simp
  ultimately show ?thesis unfolding Let_def by blast
qed

text \<open>
  After the ceiling a human's \<open>resume\<close>, announced as \<open>continue on the next reviewer/fixer round\<close>,
  never continues: the next round escalates again unless nothing is open.
\<close>

lemma resume_after_ceiling_escalates:
  assumes "handleConvergenceHumanAnswer (Some m) ask = Answered m'" and "MaxTotalRounds (CPolicy m) \<le> TotalRounds (CState m)"
    and "Evaluate (CState m') round (CPolicy m) = Inr d"
  shows "DAction d = ActionEscalate \<or> DAction d = ActionComplete"
proof -
  have "TotalRounds (CState m') = TotalRounds (CState m)"
    using assms(1) by (auto simp: handleConvergenceHumanAnswer_def Let_def split: option.splits if_splits prod.splits)
  then show ?thesis
    using assms(2,3) by (elim Evaluate_okE) (auto simp: decide_def split: if_splits)
qed

text \<open>One fixer marker, seen before and after a round that shows the item without it, counts twice.\<close>

lemma marker_counted_twice:
  "let marked = sample_item\<lparr>FixerResult := FixerResultDeclined, FixerAttemptKey := ''k''\<rparr>;
       m = fold (exec_event DefaultPolicy) [Observed [marked], Observed [marked], Observed [sample_item], Observed [marked]]
         (snapshotConvergencePolicy None DefaultPolicy)
   in map_option FixerAttempts (map_of (Items (CState m)) ''a'') = Some 2"
  by code_simp

end
