(* ===== verification/Review_Item.thy ===== *)
theory Review_Item
  imports Convergence
begin

text \<open>
  The machine-readable severity marker of a review comment (\<open>internal/reviewitem/reviewitem.go\<close>) and
  the observation of a round from a pull request's comments (\<open>convergenceItemsFromDetail\<close>).
  The regular expression \<open>(?i)<!--\s*looper:review-item\s+severity=([a-z_]+)\s*-->\<close> is matched by
  direct recursion: each repetition is followed by a character outside its class, so the greedy match
  is the only one. Its case folding is that of the ASCII range.
\<close>

section \<open>The marker pattern\<close>

text \<open>\<open>\s\<close> of Go's regular expressions has no vertical tab.\<close>

definition re_space :: "char \<Rightarrow> bool" where
  "re_space c \<longleftrightarrow> c \<in> {CHR 0x09, CHR 0x0A, CHR 0x0C, CHR 0x0D, CHR '' ''}"

definition re_word :: "char \<Rightarrow> bool" where
  "re_word c \<longleftrightarrow> 97 \<le> (of_char (lower_char c) :: nat) \<and> (of_char (lower_char c) :: nat) \<le> 122 \<or> c = CHR ''_''"

text \<open>A literal under \<open>(?i)\<close>; what is left of the text after it.\<close>

definition lit :: "string \<Rightarrow> string \<Rightarrow> string option" where
  "lit p s = (if to_lower (take (length p) s) = p then Some (drop (length p) s) else None)"

definition marker_at :: "string \<Rightarrow> (string \<times> string) option" where
  "marker_at s = (case lit ''<!--'' s of
     None \<Rightarrow> None
   | Some a \<Rightarrow> (case lit ''looper:review-item'' (dropWhile re_space a) of
       None \<Rightarrow> None
     | Some b \<Rightarrow> if takeWhile re_space b = [] then None
       else (case lit ''severity='' (dropWhile re_space b) of
         None \<Rightarrow> None
       | Some c \<Rightarrow> if takeWhile re_word c = [] then None
         else (case lit ''-->'' (dropWhile re_space (dropWhile re_word c)) of
           None \<Rightarrow> None
         | Some d \<Rightarrow> Some (takeWhile re_word c, d)))))"

lemma lit_length: "lit p s = Some t \<Longrightarrow> length s = length p + length t"
proof -
  assume "lit p s = Some t"
  then have "length (take (length p) s) = length p" and t: "t = drop (length p) s"
    by (metis lit_def length_to_lower option.distinct(1)) (metis \<open>lit p s = Some t\<close> lit_def option.inject option.distinct(1))
  then show ?thesis by simp
qed

lemma marker_at_length: "marker_at s = Some (w, t) \<Longrightarrow> length t < length s"
proof -
  have d: "length (dropWhile P xs) \<le> length xs" for P :: "char \<Rightarrow> bool" and xs
    by (rule length_dropWhile_le)
  assume "marker_at s = Some (w, t)"
  then obtain a b c where a: "lit ''<!--'' s = Some a" and b: "lit ''looper:review-item'' (dropWhile re_space a) = Some b"
    and c: "lit ''severity='' (dropWhile re_space b) = Some c"
    and t: "lit ''-->'' (dropWhile re_space (dropWhile re_word c)) = Some t"
    by (auto simp: marker_at_def split: option.splits if_splits)
  show ?thesis
    using lit_length [OF a] lit_length [OF b] lit_length [OF c] lit_length [OF t]
      d [of re_space a] d [of re_space b] d [of re_word c] d [of re_space "dropWhile re_word c"]
    by simp
qed

text \<open>\<open>FindAllStringSubmatch\<close>: leftmost matches, each search going on where the last one ended.\<close>

function markers :: "string \<Rightarrow> string list" where
  "markers s = (case marker_at s of
     Some (w, t) \<Rightarrow> w # markers t
   | None \<Rightarrow> (case s of [] \<Rightarrow> [] | _ # s' \<Rightarrow> markers s'))"
  by pat_completeness auto
termination by (relation "measure length") (auto dest: marker_at_length)

declare markers.simps [simp del]

section \<open>Reading and writing the marker\<close>

definition Marker :: "string \<Rightarrow> string option" where
  "Marker severity = map_option (\<lambda>parsed. ''<!-- looper:review-item severity='' @ parsed @ '' -->'') (ParseSeverity severity)"

datatype marker_error = AlreadyMarked | EmptyBody | UnsupportedSeverity

definition AttachMarker :: "string \<Rightarrow> string \<Rightarrow> marker_error + string" where
  "AttachMarker body severity =
     (if markers body \<noteq> [] then Inl AlreadyMarked
      else let body = trim_space body in
        if body = [] then Inl EmptyBody
        else case Marker severity of
          None \<Rightarrow> Inl UnsupportedSeverity
        | Some marker \<Rightarrow> Inr (body @ [CHR 0x0A, CHR 0x0A] @ marker))"

definition SeverityFromBody :: "string \<Rightarrow> string option" where
  "SeverityFromBody body = (case markers body of [w] \<Rightarrow> ParseSeverity w | _ \<Rightarrow> None)"
section \<open>Matching in a longer text\<close>

lemma lit_append:
  assumes "lit p s = Some t"
  shows "lit p (s @ u) = Some (t @ u)"
proof -
  have "length p \<le> length s" using lit_length [OF assms] by simp
  then show ?thesis using assms by (simp add: lit_def split: if_splits)
qed

lemma lit_nonempty: "lit p s = Some t \<Longrightarrow> p \<noteq> [] \<Longrightarrow> s \<noteq> []"
  using lit_length [of p s t] by auto

lemma dropWhile_append_ne: "dropWhile P a \<noteq> [] \<Longrightarrow> dropWhile P (a @ u) = dropWhile P a @ u"
  by (induction a) auto

lemma takeWhile_append_ne: "dropWhile P a \<noteq> [] \<Longrightarrow> takeWhile P (a @ u) = takeWhile P a"
  by (induction a) auto

lemma marker_atE:
  assumes "marker_at s = Some (w, t)"
  obtains a b c where "lit ''<!--'' s = Some a" "lit ''looper:review-item'' (dropWhile re_space a) = Some b"
    "takeWhile re_space b \<noteq> []" "lit ''severity='' (dropWhile re_space b) = Some c" "w = takeWhile re_word c" "w \<noteq> []"
    "lit ''-->'' (dropWhile re_space (dropWhile re_word c)) = Some t"
  using assms by (auto simp: marker_at_def split: option.splits if_splits)

lemma marker_atI:
  assumes "lit ''<!--'' s = Some a" "lit ''looper:review-item'' (dropWhile re_space a) = Some b"
    "takeWhile re_space b \<noteq> []" "lit ''severity='' (dropWhile re_space b) = Some c" "w = takeWhile re_word c" "w \<noteq> []"
    "lit ''-->'' (dropWhile re_space (dropWhile re_word c)) = Some t"
  shows "marker_at s = Some (w, t)"
  using assms by (simp add: marker_at_def)

lemma marker_at_append:
  assumes "marker_at s = Some (w, t)"
  shows "marker_at (s @ u) = Some (w, t @ u)"
  using assms
proof (rule marker_atE)
  fix a b c
  assume a: "lit ''<!--'' s = Some a" and b: "lit ''looper:review-item'' (dropWhile re_space a) = Some b"
    and bs: "takeWhile re_space b \<noteq> []" and c: "lit ''severity='' (dropWhile re_space b) = Some c"
    and w: "w = takeWhile re_word c" "w \<noteq> []" and t: "lit ''-->'' (dropWhile re_space (dropWhile re_word c)) = Some t"
  have ne: "dropWhile re_space a \<noteq> []" "dropWhile re_space b \<noteq> []" "dropWhile re_space (dropWhile re_word c) \<noteq> []"
    using lit_nonempty [OF b] lit_nonempty [OF c] lit_nonempty [OF t] by simp_all
  moreover from ne(3) have "dropWhile re_word c \<noteq> []" by (metis dropWhile.simps(1))
  ultimately show ?thesis
    using lit_append [OF a] lit_append [OF b] lit_append [OF c] lit_append [OF t] bs w
    by (intro marker_atI [where a = "a @ u" and b = "b @ u" and c = "c @ u"])
      (simp_all add: dropWhile_append_ne takeWhile_append_ne)
qed

text \<open>A match that starts in a text cannot reach over a blank line into the marker behind it.\<close>

definition behind :: "string \<Rightarrow> string" where
  "behind v = CHR 0x0A # CHR 0x0A # CHR ''<'' # v"

lemma lower_newline: "lower_char (CHR 0x0A) = CHR 0x0A"
  by code_simp

lemma lit_behind:
  assumes "lit p (s @ behind v) = Some x" and "CHR 0x0A \<notin> set p"
  shows "\<exists>t. lit p s = Some t \<and> x = t @ behind v"
proof (cases "length p \<le> length s")
  case True
  then show ?thesis using assms(1) by (simp add: lit_def split: if_splits)
next
  case False
  then have "take (length p) (s @ behind v) = s @ CHR 0x0A # take (length p - length s - 1) (CHR 0x0A # CHR ''<'' # v)"
    by (cases "length p - length s") (simp_all add: behind_def)
  moreover have "p = to_lower (take (length p) (s @ behind v))"
    using assms(1) by (simp add: lit_def split: if_splits)
  ultimately have "p = to_lower (s @ CHR 0x0A # take (length p - length s - 1) (CHR 0x0A # CHR ''<'' # v))"
    by (simp only:)
  then have "lower_char (CHR 0x0A) \<in> set p"
    by (metis in_set_conv_decomp list.simps(9) map_append to_lower_def)
  with assms(2) show ?thesis by (simp only: lower_newline)
qed

lemma space_behind: "dropWhile re_space (behind v) = CHR ''<'' # v" "dropWhile re_word (behind v) = behind v"
  by (simp_all add: behind_def re_space_def re_word_def lower_newline)

lemma lit_lt: "p \<noteq> [] \<Longrightarrow> hd p \<noteq> CHR ''<'' \<Longrightarrow> lit p (CHR ''<'' # v) = None"
proof -
  assume p: "p \<noteq> []" "hd p \<noteq> CHR ''<''"
  have "lower_char (CHR ''<'') = CHR ''<''" by code_simp
  with p show ?thesis by (cases p) (auto simp: lit_def to_lower_def)
qed

lemma lit_space_behind:
  assumes "lit p (dropWhile re_space (a @ behind v)) = Some x" and "p \<noteq> []" "hd p \<noteq> CHR ''<''" "CHR 0x0A \<notin> set p"
  shows "\<exists>t. lit p (dropWhile re_space a) = Some t \<and> x = t @ behind v"
proof (cases "dropWhile re_space a = []")
  case True
  then have "dropWhile re_space (a @ behind v) = CHR ''<'' # v"
    by (simp add: dropWhile_append space_behind flip: dropWhile_eq_Nil_conv)
  then show ?thesis using assms by (simp add: lit_lt)
next
  case False
  then have "lit p (dropWhile re_space a @ behind v) = Some x"
    using assms(1) by (simp only: dropWhile_append_ne not_False_eq_True)
  then show ?thesis by (rule lit_behind) (rule assms(4))
qed

lemma word_behind: "takeWhile re_word (c @ behind v) = takeWhile re_word c"
  by (induction c) (simp_all add: behind_def re_word_def lower_newline)

lemma marker_at_behind:
  assumes "marker_at (s @ behind v) = Some (w, t)"
  shows "marker_at s \<noteq> None"
  using assms
proof (rule marker_atE)
  fix a b c
  assume a: "lit ''<!--'' (s @ behind v) = Some a" and b: "lit ''looper:review-item'' (dropWhile re_space a) = Some b"
    and bs: "takeWhile re_space b \<noteq> []" and c: "lit ''severity='' (dropWhile re_space b) = Some c"
    and w: "w = takeWhile re_word c" "w \<noteq> []" and t: "lit ''-->'' (dropWhile re_space (dropWhile re_word c)) = Some t"
  from lit_behind [OF a] obtain a' where a': "lit ''<!--'' s = Some a'" "a = a' @ behind v" by auto
  from b lit_space_behind [of "''looper:review-item''" a' v b] obtain b'
    where b': "lit ''looper:review-item'' (dropWhile re_space a') = Some b'" "b = b' @ behind v" unfolding a'(2) by auto
  from c lit_space_behind [of "''severity=''" b' v c] obtain c'
    where c': "lit ''severity='' (dropWhile re_space b') = Some c'" "c = c' @ behind v" unfolding b'(2) by auto
  have d: "dropWhile re_word c = dropWhile re_word c' @ behind v"
    unfolding c'(2) by (cases "dropWhile re_word c' = []")
      (simp_all add: dropWhile_append dropWhile_append_ne space_behind flip: dropWhile_eq_Nil_conv)
  from t lit_space_behind [of "''-->''" "dropWhile re_word c'" v t] obtain t'
    where t': "lit ''-->'' (dropWhile re_space (dropWhile re_word c')) = Some t'" unfolding d by auto
  have "takeWhile re_word c = takeWhile re_word c'"
    unfolding c'(2) by (rule word_behind)
  moreover have "takeWhile re_space b = takeWhile re_space b'"
    unfolding b'(2) using lit_nonempty [OF c'(1)] by (simp add: takeWhile_append_ne)
  ultimately show ?thesis
    using marker_atI [OF a'(1) b'(1) _ c'(1) refl _ t'] bs w by simp
qed

section \<open>The round trip\<close>

lemma markers_Cons_None: "marker_at (x # s) = None \<Longrightarrow> markers (x # s) = markers s"
  by (subst markers.simps) simp

lemma markers_behind: "markers s = [] \<Longrightarrow> markers (s @ behind v) = markers (CHR ''<'' # v)"
proof (induction s)
  case Nil
  have "lower_char (CHR 0x0A) \<noteq> CHR ''<''" by (simp add: lower_newline)
  then have n: "marker_at (CHR 0x0A # y) = None" for y by (simp add: marker_at_def lit_def to_lower_def)
  show ?case by (simp add: behind_def markers_Cons_None n)
next
  case (Cons x s)
  from Cons.prems have n: "marker_at (x # s) = None"
    by (subst (asm) markers.simps) (auto split: option.splits)
  then have "markers s = []" using Cons.prems by (simp add: markers_Cons_None)
  moreover have "marker_at ((x # s) @ behind v) = None" using n marker_at_behind [of "x # s" v]
    by (metis not_Some_eq surj_pair)
  ultimately show ?case using Cons.IH by (simp add: markers_Cons_None)
qed

lemma markers_Nil_iff: "markers s = [] \<longleftrightarrow> (\<forall>t. suffix t s \<longrightarrow> marker_at t = None)"
proof (induction s)
  case Nil
  have "marker_at [] = None" by code_simp
  then show ?case by (subst markers.simps) simp
next
  case (Cons x s)
  have "markers (x # s) = [] \<longleftrightarrow> marker_at (x # s) = None \<and> markers s = []"
    by (subst markers.simps) (auto split: option.splits)
  then show ?case by (auto simp: Cons.IH suffix_Cons)
qed

lemma trim_space_sublist: "\<exists>x y. s = x @ trim_space s @ y"
proof -
  let ?d = "dropWhile is_space s"
  have 1: "s = takeWhile is_space s @ ?d" by simp
  have "rev ?d = takeWhile is_space (rev ?d) @ dropWhile is_space (rev ?d)" by simp
  then have "rev (rev ?d) = rev (dropWhile is_space (rev ?d)) @ rev (takeWhile is_space (rev ?d))"
    by (metis rev_append)
  then have "?d = trim_space s @ rev (takeWhile is_space (rev ?d))" by (simp add: trim_space_def)
  with 1 show ?thesis by metis
qed

lemma markers_trim_space: "markers s = [] \<Longrightarrow> markers (trim_space s) = []"
proof -
  assume m: "markers s = []"
  obtain x y where s: "s = x @ trim_space s @ y" using trim_space_sublist by blast
  have "marker_at t = None" if t: "suffix t (trim_space s)" for t
  proof (rule ccontr)
    assume "marker_at t \<noteq> None"
    then obtain w r where "marker_at t = Some (w, r)" by auto
    then have "marker_at (t @ y) \<noteq> None" by (simp add: marker_at_append)
    moreover have "suffix (t @ y) s" using t s by (metis append_assoc suffix_def)
    ultimately show False using m by (simp add: markers_Nil_iff)
  qed
  then show ?thesis by (simp add: markers_Nil_iff)
qed

lemma Marker_markers:
  assumes "ParseSeverity sev = Some s"
  shows "markers (''<!-- looper:review-item severity='' @ s @ '' -->'') = [s]"
proof -
  have "s \<in> {SeverityBlocking, SeverityNonBlocking, SeverityNit}"
    using assms by (auto simp: ParseSeverity_def Let_def split: if_splits)
  moreover have "markers (''<!-- looper:review-item severity='' @ SeverityBlocking @ '' -->'') = [SeverityBlocking]"
    "markers (''<!-- looper:review-item severity='' @ SeverityNonBlocking @ '' -->'') = [SeverityNonBlocking]"
    "markers (''<!-- looper:review-item severity='' @ SeverityNit @ '' -->'') = [SeverityNit]"
    by code_simp+
  ultimately show ?thesis by blast
qed

text \<open>
  C37. Round trip: a body to which a severity was attached carries exactly one marker, whatever its
  text, and reading it gives back the severity.
\<close>

theorem severity_marker_roundtrip:
  assumes "AttachMarker body sev = Inr out"
  shows "SeverityFromBody out = ParseSeverity sev \<and> ParseSeverity sev \<noteq> None"
proof -
  from assms obtain s where m: "markers body = []" and s: "ParseSeverity sev = Some s"
    and out: "out = trim_space body @ [CHR 0x0A, CHR 0x0A] @ ''<!-- looper:review-item severity='' @ s @ '' -->''"
    by (auto simp: AttachMarker_def Marker_def Let_def split: if_splits option.splits)
  have "out = trim_space body @ behind (''!-- looper:review-item severity='' @ s @ '' -->'')"
    by (simp add: out behind_def)
  then have "markers out = [s]"
    using markers_behind [OF markers_trim_space [OF m]] Marker_markers [OF s] by simp
  then show ?thesis using ParseSeverity_idem [OF s] s by (simp add: SeverityFromBody_def)
qed

theorem severity_marker_roundtrip_witness:
  "\<exists>out. AttachMarker ''Fix <!-- looper:review-item severity=nit'' '' Blocking'' = Inr out \<and> SeverityFromBody out = Some SeverityBlocking"
proof -
  have "is_ok (AttachMarker ''Fix <!-- looper:review-item severity=nit'' '' Blocking'')
      \<and> ParseSeverity '' Blocking'' = Some SeverityBlocking"
    by code_simp
  then obtain out where "AttachMarker ''Fix <!-- looper:review-item severity=nit'' '' Blocking'' = Inr out"
    and "ParseSeverity '' Blocking'' = Some SeverityBlocking"
    by (auto simp: is_ok_iff)
  with severity_marker_roundtrip [OF this(1)] show ?thesis by auto
qed

section \<open>The round observed in a pull request's comments\<close>

text \<open>
  A comment as captured from the forge: each field is \<open>None\<close> when the key is absent or no string;
  \<open>RawResolved\<close> is a boolean \<open>isResolved\<close> that is true.
\<close>

record RawComment =
  RawID :: "string option"
  RawThreadID :: "string option"
  RawSeverity :: "string option"
  RawBody :: "string option"
  RawState :: "string option"
  RawResolved :: bool
  RawFixerResult :: "string option"
  RawFixerAttemptKey :: "string option"

definition stringFromAny :: "string option \<Rightarrow> string" where
  "stringFromAny v = (case v of None \<Rightarrow> [] | Some text \<Rightarrow> if trim_space text = [] then [] else text)"

definition comment_id :: "nat \<Rightarrow> RawComment \<Rightarrow> string" where
  "comment_id index raw =
     (let i = stringFromAny (RawID raw); i = (if i = [] then stringFromAny (RawThreadID raw) else i)
      in if i = [] then ''comment-'' @ itoa (int index) else i)"

definition comment_severity :: "RawComment \<Rightarrow> string option" where
  "comment_severity raw =
     (let text = stringFromAny (RawSeverity raw);
          text = (if text = [] then (case SeverityFromBody (stringFromAny (RawBody raw)) of Some s \<Rightarrow> s | None \<Rightarrow> []) else text)
      in ParseSeverity text)"

definition comment_status :: "RawComment \<Rightarrow> string" where
  "comment_status raw =
     (let state = to_lower (trim_space (stringFromAny (RawState raw))) in
      if RawResolved raw then ItemStatusResolved
      else if state \<in> {''resolved'', ''true''} then ItemStatusResolved
      else if state = ''superseded'' then ItemStatusSuperseded
      else if state = ''deferred'' then ItemStatusDeferred else ItemStatusOpen)"

definition comment_result :: "RawComment \<Rightarrow> string" where
  "comment_result raw =
     (let text = to_lower (trim_space (stringFromAny (RawFixerResult raw)))
      in if text \<in> {FixerResultFixed, FixerResultDeclined, FixerResultDeferred} then text else [])"

fun items_from :: "nat \<Rightarrow> RawComment list \<Rightarrow> Item list" where
  "items_from index [] = []"
| "items_from index (raw # rest) = (case comment_severity raw of
     None \<Rightarrow> items_from (index + 1) rest
   | Some severity \<Rightarrow> \<lparr>ItemID = comment_id index raw, Severity = severity, ItemStatus = comment_status raw,
       FixerResult = comment_result raw, FixerAttemptKey = stringFromAny (RawFixerAttemptKey raw),
       FixerAttempts = 0, Stuck = False\<rparr> # items_from (index + 1) rest)"

definition convergenceItemsFromDetail :: "RawComment list \<Rightarrow> Item list" where
  "convergenceItemsFromDetail comments = items_from 0 comments"

lemma comment_id_not_blank: "trim_space (comment_id index raw) \<noteq> []"
proof -
  have ne: "stringFromAny v \<noteq> [] \<Longrightarrow> trim_space (stringFromAny v) \<noteq> []" for v
    by (auto simp add: stringFromAny_def split: option.splits if_splits)
  have "trim_space (''comment-'' @ d) \<noteq> []" for d
  proof -
    have "CHR ''c'' \<in> set (dropWhile is_space (rev (''comment-'' @ d)))"
      by (induction d rule: rev_induct) (simp_all add: is_space_def)
    moreover have "dropWhile is_space (''comment-'' @ d) = ''comment-'' @ d" by (simp add: is_space_def)
    ultimately show ?thesis unfolding trim_space_def by (metis empty_iff list.set(1) rev_is_Nil_conv)
  qed
  with ne show ?thesis by (simp add: comment_id_def Let_def)
qed

lemma normalizeItem_accepts:
  "trim_space (ItemID i) \<noteq> [] \<Longrightarrow> ParseSeverity (Severity i) \<noteq> None \<Longrightarrow> known_status (ItemStatus i)
    \<Longrightarrow> known_result (FixerResult i) \<Longrightarrow> 0 \<le> FixerAttempts i \<Longrightarrow> is_ok (normalizeItem i) \<and> Item_Validate i = None"
  by (auto simp: normalizeItem_def Item_Validate_def Let_def)

text \<open>Every item taken from the comments is acceptable to the evaluation on its own.\<close>

lemma observed_items_normalize:
  "item \<in> set (items_from n comments) \<Longrightarrow> is_ok (normalizeItem item) \<and> Item_Validate item = None"
proof (induction comments arbitrary: n)
  case (Cons raw rest)
  have k: "known_status (comment_status raw)" "known_result (comment_result raw)"
    by (simp_all add: known_status_def known_result_def comment_status_def comment_result_def Let_def)
  show ?case
  proof (cases "comment_severity raw")
    case None
    with Cons show ?thesis by simp
  next
    case (Some s)
    then have "ParseSeverity s \<noteq> None" by (auto simp: comment_severity_def Let_def dest: ParseSeverity_idem)
    with k have new: "is_ok (normalizeItem i) \<and> Item_Validate i = None"
      if "i = \<lparr>ItemID = comment_id n raw, Severity = s, ItemStatus = comment_status raw, FixerResult = comment_result raw,
        FixerAttemptKey = stringFromAny (RawFixerAttemptKey raw), FixerAttempts = 0, Stuck = False\<rparr>" for i
      unfolding that by (intro normalizeItem_accepts) (simp_all add: comment_id_not_blank)
    have "item = \<lparr>ItemID = comment_id n raw, Severity = s, ItemStatus = comment_status raw,
        FixerResult = comment_result raw, FixerAttemptKey = stringFromAny (RawFixerAttemptKey raw), FixerAttempts = 0,
        Stuck = False\<rparr> \<or> item \<in> set (items_from (n + 1) rest)"
      using Cons.prems Some by simp
    then show ?thesis by (elim disjE) (rule new, assumption, rule Cons.IH)
  qed
qed simp

end
