(* ===== verification/Admission.thy ===== *)
theory Admission
  imports Prelude
begin

text \<open>
  Daemon admission (\<open>internal/runtime/admission.go\<close>) and the runtime code that opens, closes and
  drains it (\<open>internal/runtime/runtime.go\<close>: \<open>CompleteStartup\<close>, \<open>BeginDrain\<close>, \<open>MarkDegraded\<close>,
  \<open>BeginShutdown\<close>, the drain join and the admitted mutations). The methods of \<open>Admission\<close> are
  atomic (one mutex); receivers are not nil. A callback run under the mutex is a function on the
  state \<open>'w\<close> it may touch.
\<close>

section \<open>The admission state machine\<close>

datatype AdmissionState = AdmissionStarting | AdmissionReady | AdmissionDraining | AdmissionStopping | AdmissionDegraded

datatype admission_error = ErrAdmissionNotReady | ErrAdmissionDraining | ErrAdmissionStopping | ErrAdmissionDegraded
  | ErrAdmissionIllegalMove AdmissionState AdmissionState

record Admission =
  aState :: AdmissionState
  aReason :: string

definition NewAdmission :: Admission where
  "NewAdmission = \<lparr>aState = AdmissionStarting, aReason = []\<rparr>"

definition legalAdmissionTransition :: "AdmissionState \<Rightarrow> AdmissionState \<Rightarrow> bool" where
  "legalAdmissionTransition source to \<longleftrightarrow>
     (if source = to then True
      else case source of
        AdmissionStarting \<Rightarrow> to \<in> {AdmissionReady, AdmissionStopping, AdmissionDegraded}
      | AdmissionReady \<Rightarrow> to \<in> {AdmissionDraining, AdmissionStopping, AdmissionDegraded}
      | AdmissionDraining \<Rightarrow> to \<in> {AdmissionStopping, AdmissionDegraded}
      | AdmissionDegraded \<Rightarrow> to = AdmissionStopping
      | AdmissionStopping \<Rightarrow> False)"

definition set_reason :: "string \<Rightarrow> Admission \<Rightarrow> Admission" where
  "set_reason reason a = (if reason \<noteq> [] then a\<lparr>aReason := reason\<rparr> else a)"

text \<open>\<open>None\<close> is a nil error.\<close>

definition BeginDrain :: "string \<Rightarrow> Admission \<Rightarrow> admission_error option \<times> Admission" where
  "BeginDrain reason a =
     (if aState a = AdmissionDraining then (None, set_reason reason a)
      else if \<not> legalAdmissionTransition (aState a) AdmissionDraining
      then (Some (ErrAdmissionIllegalMove (aState a) AdmissionDraining), a)
      else (None, set_reason reason (a\<lparr>aState := AdmissionDraining\<rparr>)))"

definition BeginVerifyHold :: "string \<Rightarrow> Admission \<Rightarrow> admission_error option \<times> Admission" where
  "BeginVerifyHold reason a =
     (if aState a = AdmissionDraining then (None, set_reason reason a)
      else if aState a \<noteq> AdmissionStarting then (Some (ErrAdmissionIllegalMove (aState a) AdmissionDraining), a)
      else (None, set_reason reason (a\<lparr>aState := AdmissionDraining\<rparr>)))"

definition Transition :: "AdmissionState \<Rightarrow> string \<Rightarrow> Admission \<Rightarrow> admission_error option \<times> Admission" where
  "Transition to reason a =
     (if \<not> legalAdmissionTransition (aState a) to then (Some (ErrAdmissionIllegalMove (aState a) to), a)
      else (None, set_reason reason (a\<lparr>aState := to\<rparr>)))"

definition MarkReady :: "string \<Rightarrow> Admission \<Rightarrow> admission_error option \<times> Admission" where
  "MarkReady reason a = Transition AdmissionReady reason a"

definition MarkDegraded :: "string \<Rightarrow> Admission \<Rightarrow> admission_error option \<times> Admission" where
  "MarkDegraded reason a = Transition AdmissionDegraded reason a"

definition BeginShutdown :: "string \<Rightarrow> Admission \<Rightarrow> admission_error option \<times> Admission" where
  "BeginShutdown reason a =
     (if aState a = AdmissionStopping then (None, set_reason reason a)
      else if \<not> legalAdmissionTransition (aState a) AdmissionStopping
      then (Some (ErrAdmissionIllegalMove (aState a) AdmissionStopping), a)
      else (None, set_reason reason (a\<lparr>aState := AdmissionStopping\<rparr>)))"

definition TransitionThen :: "AdmissionState \<Rightarrow> string \<Rightarrow> ('w \<Rightarrow> 'w) \<Rightarrow> Admission \<times> 'w
    \<Rightarrow> admission_error option \<times> Admission \<times> 'w" where
  "TransitionThen to reason callback aw = (case aw of (a, w) \<Rightarrow>
     if \<not> legalAdmissionTransition (aState a) to then (Some (ErrAdmissionIllegalMove (aState a) to), a, w)
     else (None, set_reason reason (a\<lparr>aState := to\<rparr>), callback w))"

definition BeginShutdownThen :: "string \<Rightarrow> ('w \<Rightarrow> 'w) \<Rightarrow> Admission \<times> 'w \<Rightarrow> admission_error option \<times> Admission \<times> 'w" where
  "BeginShutdownThen reason callback aw = (case aw of (a, w) \<Rightarrow>
     if aState a = AdmissionStopping then (None, set_reason reason a, callback w)
     else if \<not> legalAdmissionTransition (aState a) AdmissionStopping
     then (Some (ErrAdmissionIllegalMove (aState a) AdmissionStopping), a, w)
     else (None, set_reason reason (a\<lparr>aState := AdmissionStopping\<rparr>), callback w))"

definition allowWorkLocked :: "Admission \<Rightarrow> admission_error option" where
  "allowWorkLocked a = (case aState a of
     AdmissionReady \<Rightarrow> None
   | AdmissionStopping \<Rightarrow> Some ErrAdmissionStopping
   | AdmissionDraining \<Rightarrow> Some ErrAdmissionDraining
   | AdmissionDegraded \<Rightarrow> Some ErrAdmissionDegraded
   | AdmissionStarting \<Rightarrow> Some ErrAdmissionNotReady)"

definition AllowMutations :: "Admission \<Rightarrow> admission_error option" where
  "AllowMutations a = allowWorkLocked a"

definition AllowClaim :: "Admission \<Rightarrow> admission_error option" where
  "AllowClaim a = allowWorkLocked a"

definition WithAllowWork :: "('w \<Rightarrow> 'w) \<Rightarrow> Admission \<times> 'w \<Rightarrow> admission_error option \<times> Admission \<times> 'w" where
  "WithAllowWork callback aw = (case aw of (a, w) \<Rightarrow>
     case allowWorkLocked a of Some e \<Rightarrow> (Some e, a, w) | None \<Rightarrow> (None, a, callback w))"

definition WithState :: "(AdmissionState \<Rightarrow> 'w \<Rightarrow> 'e option \<times> 'w) \<Rightarrow> Admission \<times> 'w \<Rightarrow> 'e option \<times> Admission \<times> 'w" where
  "WithState callback aw = (case aw of (a, w) \<Rightarrow> case callback (aState a) w of (e, w') \<Rightarrow> (e, a, w'))"

definition AllowsReads :: "Admission \<Rightarrow> bool" where
  "AllowsReads a = True"

definition IsReady :: "Admission \<Rightarrow> bool" where
  "IsReady a \<longleftrightarrow> aState a = AdmissionReady"

lemmas admission_ops = BeginDrain_def BeginVerifyHold_def Transition_def MarkReady_def MarkDegraded_def BeginShutdown_def

lemma aState_set_reason [simp]: "aState (set_reason r a) = aState a"
  by (simp add: set_reason_def)

lemma allowWork_iff [simp]: "allowWorkLocked a = None \<longleftrightarrow> aState a = AdmissionReady"
  by (simp add: allowWorkLocked_def split: AdmissionState.split)

section \<open>Histories of the state machine\<close>

text \<open>The calls on one admission, with a log of the callbacks that ran as the callback state.\<close>

datatype admission_op = OpDrain string | OpVerifyHold string | OpTransition AdmissionState string | OpShutdown string
  | OpTransitionThen AdmissionState string | OpShutdownThen string | OpWork

fun exec_admission :: "admission_op \<Rightarrow> Admission \<times> AdmissionState list \<Rightarrow> Admission \<times> AdmissionState list" where
  "exec_admission (OpDrain r) (a, w) = (snd (BeginDrain r a), w)"
| "exec_admission (OpVerifyHold r) (a, w) = (snd (BeginVerifyHold r a), w)"
| "exec_admission (OpTransition to r) (a, w) = (snd (Transition to r a), w)"
| "exec_admission (OpShutdown r) (a, w) = (snd (BeginShutdown r a), w)"
| "exec_admission (OpTransitionThen to r) (a, w) = snd (TransitionThen to r id (a, w))"
| "exec_admission (OpShutdownThen r) (a, w) = snd (BeginShutdownThen r id (a, w))"
| "exec_admission OpWork (a, w) = snd (WithAllowWork (\<lambda>log. aState a # log) (a, w))"

text \<open>How far a life has gone; no call goes back.\<close>

fun stage :: "AdmissionState \<Rightarrow> nat" where
  "stage AdmissionStarting = 0"
| "stage AdmissionReady = 1"
| "stage AdmissionDraining = 2"
| "stage AdmissionDegraded = 3"
| "stage AdmissionStopping = 4"

lemma legal_stage: "legalAdmissionTransition s t \<Longrightarrow> stage s \<le> stage t"
  by (cases s; cases t) (simp_all add: legalAdmissionTransition_def)

lemma exec_stage: "stage (aState (fst aw)) \<le> stage (aState (fst (exec_admission p aw)))"
proof (cases aw)
  case (Pair a w)
  have m: "stage (aState a) \<le> stage t" if "legalAdmissionTransition (aState a) t" for t using that by (rule legal_stage)
  show ?thesis
    using m [of AdmissionDraining] m [of AdmissionStopping]
    by (cases p) (auto simp add: Pair admission_ops TransitionThen_def BeginShutdownThen_def WithAllowWork_def m
        split: option.split)
qed

lemma history_stage: "stage (aState (fst aw)) \<le> stage (aState (fst (fold exec_admission ops aw)))"
proof (induction ops arbitrary: aw)
  case (Cons p ops)
  then show ?case using exec_stage [of aw p] by (metis comp_apply fold_Cons order_trans)
qed simp

lemma exec_work_log:
  "(\<forall>s\<in>set (snd aw). s = AdmissionReady) \<Longrightarrow> (\<forall>s\<in>set (snd (exec_admission p aw)). s = AdmissionReady)"
  by (cases aw; cases p) (auto simp: TransitionThen_def BeginShutdownThen_def WithAllowWork_def split: option.splits if_splits)

interpretation admitted_work: operation_invariant exec_admission "\<lambda>_. True" "\<lambda>aw. \<forall>s\<in>set (snd aw). s = AdmissionReady"
  by unfold_locales (rule exec_work_log)

text \<open>
  C25. Over any history of calls, gated work only ever ran while the admission was ready, and once the
  admission is past ready it never admits work again.
\<close>

theorem admission_one_way:
  assumes "fold exec_admission ops (NewAdmission, []) = (a, work)"
  shows "(\<forall>s\<in>set work. s = AdmissionReady)
    \<and> (aState a \<notin> {AdmissionStarting, AdmissionReady} \<longrightarrow>
        (\<forall>later. snd (fold exec_admission later (a, work)) = work \<and> AllowMutations (fst (fold exec_admission later (a, work))) \<noteq> None))"
proof (intro conjI impI allI)
  have "\<forall>s\<in>set (snd (fold exec_admission ops (NewAdmission, []))). s = AdmissionReady"
    by (rule admitted_work.history_kept) (simp_all add: list_all_iff)
  then show "\<forall>s\<in>set work. s = AdmissionReady" by (simp add: assms)
next
  fix later
  assume "aState a \<notin> {AdmissionStarting, AdmissionReady}"
  then have past: "1 < stage (aState a)" by (cases "aState a") simp_all
  have nr: "aState (fst aw) \<noteq> AdmissionReady" if "1 < stage (aState (fst aw))" for aw :: "Admission \<times> AdmissionState list"
    using that by (cases "aState (fst aw)") simp_all
  from past history_stage [of "(a, work)" later] nr
  show "AllowMutations (fst (fold exec_admission later (a, work))) \<noteq> None" by (simp add: AllowMutations_def)
  have "1 < stage (aState (fst aw)) \<Longrightarrow> snd (fold exec_admission later aw) = snd aw" for aw :: "Admission \<times> AdmissionState list"
  proof (induction later arbitrary: aw)
    case (Cons p later)
    have "snd (exec_admission p aw) = snd aw"
      using nr [OF Cons.prems]
      by (cases aw; cases p) (auto simp: TransitionThen_def BeginShutdownThen_def WithAllowWork_def split: option.splits)
    moreover have "1 < stage (aState (fst (exec_admission p aw)))" using exec_stage [of aw p] Cons.prems by simp
    ultimately show ?case using Cons.IH by simp
  qed simp
  with past show "snd (fold exec_admission later (a, work)) = work" by simp
qed

theorem admission_one_way_witness:
  "fold exec_admission [OpWork, OpTransition AdmissionReady [], OpWork, OpDrain ''cutover'', OpTransition AdmissionReady [], OpWork]
     (NewAdmission, []) = (\<lparr>aState = AdmissionDraining, aReason = ''cutover''\<rparr>, [AdmissionReady])
   \<and> AllowMutations \<lparr>aState = AdmissionDraining, aReason = ''cutover''\<rparr> \<noteq> None"
proof -
  have e: "fold exec_admission [OpWork, OpTransition AdmissionReady [], OpWork, OpDrain ''cutover'', OpTransition AdmissionReady [], OpWork]
     (NewAdmission, []) = (\<lparr>aState = AdmissionDraining, aReason = ''cutover''\<rparr>, [AdmissionReady])"
    by code_simp
  from admission_one_way [OF e]
  have "\<forall>later. AllowMutations (fst (fold exec_admission later (\<lparr>aState = AdmissionDraining, aReason = ''cutover''\<rparr>, [AdmissionReady]))) \<noteq> None"
    by simp
  from this [THEN spec, of "[]"] e show ?thesis by simp
qed

end
