(* ===== verification/Drain.thy ===== *)
theory Drain
  imports Admission
begin

text \<open>
  Opening, closing and draining a running daemon (\<open>internal/runtime/runtime.go\<close>): the producers that
  \<open>CompleteStartup\<close> starts, the closers \<open>MarkDegraded\<close> and \<open>BeginShutdown\<close>, which collect the cancel
  functions first and close the admission afterwards, \<open>BeginDrain\<close> with its background join, and the
  admitted mutations. Each function is one critical section; the relation \<open>rstep\<close> interleaves them.
  Project discovery, webhook deliveries and the execution registry appear as the number of other
  active units they report; a producer may take any time to exit, so every wait may time out.
\<close>

section \<open>State\<close>

datatype producer = Scheduler | Recovery | Cleanup

text \<open>
  The background join of a drain: not started, launched, stopping (with the done channels it
  collected and the loops still to stop), all stopped, residuals published, finished.
\<close>

datatype join_pc = JNone | JPending | JStopping "producer list" "producer list" | JStopped "producer list" | JPublished | JDone

datatype startup_pc = SBegin | SScheduled | SCleaning | SReady | SArmed | SEnd

text \<open>
  \<open>wReg\<close>: producers whose cancel and done fields are set; \<open>wLive\<close>: contexts not cancelled;
  \<open>wRunning\<close>: done channels not closed; \<open>wClosers\<close>: the snapshots of closers that have not closed yet.
\<close>

record rworld =
  wAdm :: Admission
  wReg :: "producer list"
  wLive :: "producer list"
  wRunning :: "producer list"
  wJoin :: join_pc
  wJoinActive :: bool
  wResidual :: "producer list"
  wStartup :: startup_pc
  wClosers :: "producer list list"
  wMutations :: nat
  wOthers :: nat

definition initial_rworld :: rworld where
  "initial_rworld = \<lparr>wAdm = NewAdmission, wReg = [], wLive = [], wRunning = [], wJoin = JNone, wJoinActive = False,
     wResidual = [], wStartup = SBegin, wClosers = [], wMutations = 0, wOthers = 0\<rparr>"

section \<open>Startup\<close>

definition register :: "producer \<Rightarrow> rworld \<Rightarrow> rworld" where
  "register p w = w\<lparr>wReg := p # wReg w, wLive := p # wLive w, wRunning := p # wRunning w\<rparr>"

definition startSchedulerLoop :: "rworld \<Rightarrow> rworld" where
  "startSchedulerLoop w = (register Scheduler w)\<lparr>wStartup := SScheduled\<rparr>"

definition startWorktreeCleanupLoop :: "rworld \<Rightarrow> rworld" where
  "startWorktreeCleanupLoop w = (if Cleanup \<in> set (wReg w) then w else register Cleanup w)\<lparr>wStartup := SCleaning\<rparr>"

definition startup_verify_hold :: "rworld \<Rightarrow> rworld" where
  "startup_verify_hold w = w\<lparr>wAdm := snd (BeginVerifyHold ''upgrade-verify-hold'' (wAdm w)), wStartup := SEnd\<rparr>"

definition startup_mark_ready :: "rworld \<Rightarrow> rworld" where
  "startup_mark_ready w = (case MarkReady ''complete startup'' (wAdm w) of
     (None, a) \<Rightarrow> w\<lparr>wAdm := a, wStartup := SReady\<rparr>
   | (Some _, a) \<Rightarrow> w\<lparr>wAdm := a, wStartup := SEnd\<rparr>)"

text \<open>The two halves of \<open>startDeferredReviewerRecovery\<close>: check and register, then check again.\<close>

definition arm_recovery :: "rworld \<Rightarrow> rworld" where
  "arm_recovery w = (if aState (wAdm w) \<noteq> AdmissionReady then w\<lparr>wStartup := SEnd\<rparr>
     else (register Recovery w)\<lparr>wStartup := SArmed\<rparr>)"

definition recheck_recovery :: "rworld \<Rightarrow> rworld" where
  "recheck_recovery w = (if AllowClaim (wAdm w) \<noteq> None then w\<lparr>wLive := removeAll Recovery (wLive w), wStartup := SEnd\<rparr>
     else w\<lparr>wStartup := SEnd\<rparr>)"

section \<open>Closing\<close>

definition snapshotWorkProducerCancels :: "rworld \<Rightarrow> producer list" where
  "snapshotWorkProducerCancels w = filter (\<lambda>p. p \<in> set (wReg w)) [Scheduler, Recovery, Cleanup]"

definition cancel_all :: "producer list \<Rightarrow> producer list \<Rightarrow> producer list" where
  "cancel_all snapshot live = filter (\<lambda>p. p \<notin> set snapshot) live"

definition close_degraded :: "string \<Rightarrow> producer list \<Rightarrow> rworld \<Rightarrow> rworld" where
  "close_degraded reason snapshot w =
     (case TransitionThen AdmissionDegraded reason (cancel_all snapshot) (wAdm w, wLive w) of
        (_, a, live) \<Rightarrow> w\<lparr>wAdm := a, wLive := live\<rparr>)"

definition close_stopping :: "string \<Rightarrow> producer list \<Rightarrow> rworld \<Rightarrow> rworld" where
  "close_stopping reason snapshot w =
     (case BeginShutdownThen reason (cancel_all snapshot) (wAdm w, wLive w) of
        (_, a, live) \<Rightarrow> w\<lparr>wAdm := a, wLive := live\<rparr>)"

section \<open>Draining\<close>

text \<open>\<open>Runtime.BeginDrain\<close> holds the runtime mutex over the transition; a refusal rolls the latch back.\<close>

definition BeginDrain_runtime :: "string \<Rightarrow> rworld \<Rightarrow> admission_error option \<times> rworld" where
  "BeginDrain_runtime reason w = (case BeginDrain reason (wAdm w) of
     (Some e, _) \<Rightarrow> (Some e, w)
   | (None, a) \<Rightarrow> (None, if wJoin w = JNone then w\<lparr>wAdm := a, wJoin := JPending, wJoinActive := True\<rparr> else w\<lparr>wAdm := a\<rparr>))"

definition join_collect :: "rworld \<Rightarrow> rworld" where
  "join_collect w = w\<lparr>wJoin := JStopping (snapshotWorkProducerCancels w) [Scheduler, Recovery, Cleanup]\<rparr>"

definition stop_loop :: "producer \<Rightarrow> rworld \<Rightarrow> rworld" where
  "stop_loop p w = w\<lparr>wReg := removeAll p (wReg w), wLive := removeAll p (wLive w)\<rparr>"

definition join_publish :: "producer list \<Rightarrow> rworld \<Rightarrow> rworld" where
  "join_publish residual w = w\<lparr>wResidual := filter (\<lambda>p. p \<in> set (wRunning w)) residual, wJoin := JPublished\<rparr>"

definition join_finish :: "rworld \<Rightarrow> rworld" where
  "join_finish w = w\<lparr>wJoinActive := False, wJoin := JDone\<rparr>"

definition watchResidualProducerDone :: "producer \<Rightarrow> rworld \<Rightarrow> rworld" where
  "watchResidualProducerDone p w = w\<lparr>wResidual := filter (\<lambda>q. q \<noteq> p \<and> q \<in> set (wRunning w)) (wResidual w)\<rparr>"

definition countActiveWorkProducers :: "rworld \<Rightarrow> nat" where
  "countActiveWorkProducers w = of_bool (wJoinActive w) + length (wResidual w) + wOthers w + wMutations w"

definition Drained :: "rworld \<Rightarrow> bool" where
  "Drained w \<longleftrightarrow> countActiveWorkProducers w = 0"

section \<open>Mutations\<close>

definition BeginAdmittedMutationIfAllowed :: "rworld \<Rightarrow> admission_error option \<times> rworld" where
  "BeginAdmittedMutationIfAllowed w =
     (case WithAllowWork Suc (wAdm w, wMutations w) of (e, a, n) \<Rightarrow> (e, w\<lparr>wAdm := a, wMutations := n\<rparr>))"

datatype backup_error = BackupNotDrained | BackupRefused

definition BeginBackupMutationIfAllowed :: "rworld \<Rightarrow> backup_error option \<times> rworld" where
  "BeginBackupMutationIfAllowed w =
     (case WithState (\<lambda>state n. case state of
          AdmissionReady \<Rightarrow> (None, Suc n)
        | AdmissionDraining \<Rightarrow> if Drained w then (None, Suc n) else (Some BackupNotDrained, n)
        | _ \<Rightarrow> (Some BackupRefused, n)) (wAdm w, wMutations w)
      of (e, a, n) \<Rightarrow> (e, w\<lparr>wAdm := a, wMutations := n\<rparr>))"

section \<open>Interleavings\<close>

inductive rstep :: "rworld \<Rightarrow> rworld \<Rightarrow> bool" where
  start_scheduler: "wStartup w = SBegin \<Longrightarrow> rstep w (startSchedulerLoop w)"
| verify_hold: "wStartup w = SBegin \<Longrightarrow> rstep w (startup_verify_hold w)"
| start_cleanup: "wStartup w = SScheduled \<Longrightarrow> rstep w (startWorktreeCleanupLoop w)"
| ready: "wStartup w = SCleaning \<Longrightarrow> rstep w (startup_mark_ready w)"
| arm: "wStartup w = SReady \<Longrightarrow> rstep w (arm_recovery w)"
| recheck: "wStartup w = SArmed \<Longrightarrow> rstep w (recheck_recovery w)"
| exits: "p \<in> set (wRunning w) \<Longrightarrow> rstep w (w\<lparr>wRunning := removeAll p (wRunning w)\<rparr>)"
| close_collect: "rstep w (w\<lparr>wClosers := snapshotWorkProducerCancels w # wClosers w\<rparr>)"
| degrade: "snapshot \<in> set (wClosers w) \<Longrightarrow> rstep w (close_degraded reason snapshot w)"
| shutdown: "snapshot \<in> set (wClosers w) \<Longrightarrow> rstep w (close_stopping reason snapshot w)"
| drain: "rstep w (snd (BeginDrain_runtime reason w))"
| collect: "wJoin w = JPending \<Longrightarrow> rstep w (join_collect w)"
| stop: "wJoin w = JStopping ds (p # ps) \<Longrightarrow> rstep w ((stop_loop p w)\<lparr>wJoin := JStopping ds ps\<rparr>)"
| stopped: "wJoin w = JStopping ds [] \<Longrightarrow> rstep w (w\<lparr>wJoin := JStopped ds\<rparr>)"
| publish: "wJoin w = JStopped ds \<Longrightarrow> rstep w (join_publish ds w)"
| finish: "wJoin w = JPublished \<Longrightarrow> rstep w (join_finish w)"
| watch: "p \<in> set (wResidual w) \<Longrightarrow> p \<notin> set (wRunning w) \<Longrightarrow> rstep w (watchResidualProducerDone p w)"
| admit: "rstep w (snd (BeginAdmittedMutationIfAllowed w))"
| backup: "rstep w (snd (BeginBackupMutationIfAllowed w))"
| release: "0 < wMutations w \<Longrightarrow> rstep w (w\<lparr>wMutations := wMutations w - 1\<rparr>)"
| others: "rstep w (w\<lparr>wOthers := n\<rparr>)"

lemmas rworld_ops = startSchedulerLoop_def startWorktreeCleanupLoop_def startup_verify_hold_def startup_mark_ready_def
  arm_recovery_def recheck_recovery_def register_def close_degraded_def close_stopping_def BeginDrain_runtime_def
  join_collect_def stop_loop_def join_publish_def join_finish_def watchResidualProducerDone_def
  BeginAdmittedMutationIfAllowed_def BeginBackupMutationIfAllowed_def

lemmas admission_calls = admission_ops TransitionThen_def BeginShutdownThen_def WithAllowWork_def WithState_def

section \<open>The invariant\<close>

definition past_startup :: "rworld \<Rightarrow> bool" where
  "past_startup w \<longleftrightarrow> wStartup w \<in> {SReady, SArmed, SEnd}"

definition closed :: "rworld \<Rightarrow> bool" where
  "closed w \<longleftrightarrow> aState (wAdm w) \<notin> {AdmissionStarting, AdmissionReady}"

text \<open>Every running producer is visible to the drain: registered, collected by the join, or residual.\<close>

definition visible :: "rworld \<Rightarrow> producer list" where
  "visible w = (case wJoin w of JNone \<Rightarrow> wReg w | JPending \<Rightarrow> wReg w | JStopping ds _ \<Rightarrow> ds | JStopped ds \<Rightarrow> ds
     | JPublished \<Rightarrow> wResidual w | JDone \<Rightarrow> wResidual w)"

definition drain_ok :: "rworld \<Rightarrow> bool" where
  "drain_ok w \<longleftrightarrow> set (wRunning w) \<subseteq> set (visible w)
     \<and> (wJoin w \<noteq> JNone \<longrightarrow> past_startup w \<and> closed w)
     \<and> (wJoinActive w \<longleftrightarrow> wJoin w \<notin> {JNone, JDone})
     \<and> (aState (wAdm w) = AdmissionDraining \<longrightarrow> wJoin w = JNone \<longrightarrow> wRunning w = [] \<and> past_startup w)
     \<and> (aState (wAdm w) = AdmissionReady \<longrightarrow> past_startup w)
     \<and> (wStartup w = SBegin \<longrightarrow> wRunning w = [])"

lemma drain_okI:
  assumes "set (wRunning w) \<subseteq> set (visible w)" and "wJoin w \<noteq> JNone \<Longrightarrow> past_startup w" and "wJoin w \<noteq> JNone \<Longrightarrow> closed w"
    and "wJoinActive w \<longleftrightarrow> wJoin w \<notin> {JNone, JDone}"
    and "aState (wAdm w) = AdmissionDraining \<Longrightarrow> wJoin w = JNone \<Longrightarrow> wRunning w = []"
    and "aState (wAdm w) = AdmissionDraining \<Longrightarrow> wJoin w = JNone \<Longrightarrow> past_startup w"
    and "aState (wAdm w) = AdmissionReady \<Longrightarrow> past_startup w" and "wStartup w = SBegin \<Longrightarrow> wRunning w = []"
  shows "drain_ok w"
  using assms by (simp add: drain_ok_def)

lemma set_snapshot [simp]: "set (snapshotWorkProducerCancels w) = set (wReg w)"
proof (intro set_eqI)
  fix q show "q \<in> set (snapshotWorkProducerCancels w) \<longleftrightarrow> q \<in> set (wReg w)"
    by (cases q) (simp_all add: snapshotWorkProducerCancels_def)
qed

lemma drain_ok_initial: "drain_ok initial_rworld"
  by (rule drain_okI) (simp_all add: initial_rworld_def visible_def NewAdmission_def)

text \<open>What a refused or granted transition does to the admission state.\<close>

lemma BeginDrain_cases:
  obtains e where "BeginDrain r a = (Some e, a)" "aState a \<notin> {AdmissionReady, AdmissionDraining}"
  | a' where "BeginDrain r a = (None, a')" "aState a \<in> {AdmissionReady, AdmissionDraining}" "aState a' = AdmissionDraining"
  by (cases "aState a") (simp_all add: BeginDrain_def legalAdmissionTransition_def)

lemma closer_state:
  "fst (snd (TransitionThen AdmissionDegraded r f (a, l))) = a' \<Longrightarrow>
     aState a' = (if aState a = AdmissionStopping then AdmissionStopping else AdmissionDegraded)"
  "fst (snd (BeginShutdownThen r f (a, l))) = b' \<Longrightarrow> aState b' = AdmissionStopping"
  by (cases "aState a"; auto simp: TransitionThen_def BeginShutdownThen_def legalAdmissionTransition_def)+

lemma drain_ok_startup:
  assumes "drain_ok w"
  shows "wStartup w = SBegin \<Longrightarrow> drain_ok (startSchedulerLoop w)"
    and "wStartup w = SBegin \<Longrightarrow> drain_ok (startup_verify_hold w)"
    and "wStartup w = SScheduled \<Longrightarrow> drain_ok (startWorktreeCleanupLoop w)"
    and "wStartup w = SCleaning \<Longrightarrow> drain_ok (startup_mark_ready w)"
    and "wStartup w = SReady \<Longrightarrow> drain_ok (arm_recovery w)"
    and "wStartup w = SArmed \<Longrightarrow> drain_ok (recheck_recovery w)"
proof -
  have early: "wJoin w = JNone \<and> aState (wAdm w) \<noteq> AdmissionDraining \<and> aState (wAdm w) \<noteq> AdmissionReady" if "\<not> past_startup w"
    using assms that by (auto simp: drain_ok_def)
  show "drain_ok (startSchedulerLoop w)" if "wStartup w = SBegin"
    using assms early that
    by (intro drain_okI) (auto simp: drain_ok_def visible_def past_startup_def startSchedulerLoop_def register_def)
  show "drain_ok (startup_verify_hold w)" if "wStartup w = SBegin"
    using assms early that
    by (intro drain_okI) (auto simp: drain_ok_def visible_def past_startup_def startup_verify_hold_def BeginVerifyHold_def)
  show "drain_ok (startWorktreeCleanupLoop w)" if "wStartup w = SScheduled"
    using assms early that
    by (cases "Cleanup \<in> set (wReg w)"; intro drain_okI)
      (auto simp: drain_ok_def visible_def past_startup_def startWorktreeCleanupLoop_def register_def)
  show "drain_ok (startup_mark_ready w)" if "wStartup w = SCleaning"
    using assms early that
    by (intro drain_okI) (auto simp: drain_ok_def visible_def past_startup_def startup_mark_ready_def MarkReady_def Transition_def)
  show "drain_ok (arm_recovery w)" if "wStartup w = SReady"
    using assms that
    by (intro drain_okI) (auto simp: drain_ok_def visible_def past_startup_def closed_def arm_recovery_def register_def split: join_pc.splits)
  show "drain_ok (recheck_recovery w)" if "wStartup w = SArmed"
    using assms that
    by (intro drain_okI) (auto simp: drain_ok_def visible_def past_startup_def closed_def recheck_recovery_def split: join_pc.splits)
qed

lemma drain_ok_adm:
  assumes "drain_ok w" and "wJoin t = wJoin w" "wReg t = wReg w" "wRunning t = wRunning w" "wResidual t = wResidual w"
    "wJoinActive t = wJoinActive w" "wStartup t = wStartup w"
    and "wAdm t = wAdm w \<or> aState (wAdm t) \<in> {AdmissionDegraded, AdmissionStopping}"
  shows "drain_ok t"
proof -
  have v: "visible t = visible w" by (simp add: visible_def assms(2-7) split: join_pc.split)
  have p: "past_startup t = past_startup w" by (simp add: past_startup_def assms(2-7))
  from assms(8) show ?thesis
  proof
    assume "wAdm t = wAdm w"
    then have "drain_ok t = drain_ok w" by (simp add: drain_ok_def v p closed_def assms(2-7))
    with assms(1) show ?thesis by simp
  next
    assume "aState (wAdm t) \<in> {AdmissionDegraded, AdmissionStopping}"
    with assms(1) show ?thesis
      by (intro drain_okI) (auto simp: v p closed_def assms(2-7) drain_ok_def)
  qed
qed

lemma drain_ok_close:
  assumes "drain_ok w"
  shows "drain_ok (close_degraded reason snapshot w)" and "drain_ok (close_stopping reason snapshot w)"
proof -
  obtain e a l where d: "TransitionThen AdmissionDegraded reason (cancel_all snapshot) (wAdm w, wLive w) = (e, a, l)"
    by (metis prod_cases3)
  obtain e' b m where s: "BeginShutdownThen reason (cancel_all snapshot) (wAdm w, wLive w) = (e', b, m)"
    by (metis prod_cases3)
  have "aState a \<in> {AdmissionDegraded, AdmissionStopping}" using closer_state(1) [of reason _ _ _ a] d by (metis fst_conv snd_conv insert_iff)
  then show "drain_ok (close_degraded reason snapshot w)"
    using d by (intro drain_ok_adm [OF assms]) (simp_all add: close_degraded_def)
  have "aState b = AdmissionStopping" using closer_state(2) [of reason _ _ _ b] s by (metis fst_conv snd_conv)
  then show "drain_ok (close_stopping reason snapshot w)"
    using s by (intro drain_ok_adm [OF assms]) (simp_all add: close_stopping_def)
qed

lemma drain_ok_drain:
  assumes "drain_ok w"
  shows "drain_ok (snd (BeginDrain_runtime reason w))"
proof (rule BeginDrain_cases [of reason "wAdm w"])
  fix a'
  assume b: "BeginDrain reason (wAdm w) = (None, a')" "aState (wAdm w) \<in> {AdmissionReady, AdmissionDraining}" "aState a' = AdmissionDraining"
  have ps: "past_startup w" using assms b(2) by (cases "wJoin w = JNone") (auto simp: drain_ok_def)
  show ?thesis
    using assms b ps by (cases "wJoin w"; intro drain_okI)
      (auto simp: BeginDrain_runtime_def drain_ok_def visible_def past_startup_def closed_def)
qed (use assms in \<open>simp add: BeginDrain_runtime_def\<close>)

lemma drain_ok_join:
  assumes "drain_ok w"
  shows "wJoin w = JPending \<Longrightarrow> drain_ok (join_collect w)"
    and "wJoin w = JStopping ds (p # ps) \<Longrightarrow> drain_ok ((stop_loop p w)\<lparr>wJoin := JStopping ds ps\<rparr>)"
    and "wJoin w = JStopping ds [] \<Longrightarrow> drain_ok (w\<lparr>wJoin := JStopped ds\<rparr>)"
    and "wJoin w = JStopped ds \<Longrightarrow> drain_ok (join_publish ds w)"
    and "wJoin w = JPublished \<Longrightarrow> drain_ok (join_finish w)"
    and "p \<notin> set (wRunning w) \<Longrightarrow> drain_ok (watchResidualProducerDone p w)"
    and "drain_ok (w\<lparr>wRunning := removeAll p (wRunning w)\<rparr>)"
proof -
  show "drain_ok (join_collect w)" if "wJoin w = JPending"
    using assms that by (intro drain_okI) (auto simp: drain_ok_def visible_def past_startup_def closed_def join_collect_def)
  show "drain_ok ((stop_loop p w)\<lparr>wJoin := JStopping ds ps\<rparr>)" if "wJoin w = JStopping ds (p # ps)"
    using assms that by (intro drain_okI) (auto simp: drain_ok_def visible_def past_startup_def closed_def stop_loop_def)
  show "drain_ok (w\<lparr>wJoin := JStopped ds\<rparr>)" if "wJoin w = JStopping ds []"
    using assms that by (intro drain_okI) (auto simp: drain_ok_def visible_def past_startup_def closed_def)
  show "drain_ok (join_publish ds w)" if "wJoin w = JStopped ds"
    using assms that by (intro drain_okI) (auto simp: drain_ok_def visible_def past_startup_def closed_def join_publish_def)
  show "drain_ok (join_finish w)" if "wJoin w = JPublished"
    using assms that by (intro drain_okI) (auto simp: drain_ok_def visible_def past_startup_def closed_def join_finish_def)
  show "drain_ok (watchResidualProducerDone p w)" if "p \<notin> set (wRunning w)"
    using assms that by (intro drain_okI)
      (auto simp: drain_ok_def visible_def past_startup_def closed_def watchResidualProducerDone_def split: join_pc.splits)
  show "drain_ok (w\<lparr>wRunning := removeAll p (wRunning w)\<rparr>)"
    using assms by (intro drain_okI) (auto simp: drain_ok_def visible_def past_startup_def closed_def split: join_pc.splits)
qed

lemma drain_ok_mutations:
  assumes "drain_ok w"
  shows "drain_ok (snd (BeginAdmittedMutationIfAllowed w))" and "drain_ok (snd (BeginBackupMutationIfAllowed w))"
    and "drain_ok (w\<lparr>wMutations := n\<rparr>)" and "drain_ok (w\<lparr>wOthers := n\<rparr>)" and "drain_ok (w\<lparr>wClosers := cs\<rparr>)"
  by (rule drain_ok_adm [OF assms]; simp add: BeginAdmittedMutationIfAllowed_def BeginBackupMutationIfAllowed_def
      WithAllowWork_def WithState_def split: option.split prod.split)+

lemma drain_ok_step: "rstep w t \<Longrightarrow> drain_ok w \<Longrightarrow> drain_ok t"
  by (induction rule: rstep.induct)
    (rule drain_ok_startup drain_ok_close drain_ok_drain drain_ok_join drain_ok_mutations; assumption)+

interpretation drain: step_invariant rstep "\<lambda>w. w = initial_rworld" drain_ok
  by unfold_locales (simp_all add: drain_ok_initial drain_ok_step)

section \<open>What a drain promises\<close>

text \<open>Once closed after startup with nothing running, nothing runs again.\<close>

definition quiet :: "rworld \<Rightarrow> bool" where
  "quiet w \<longleftrightarrow> closed w \<and> past_startup w \<and> wRunning w = []"

lemma closed_kept: "rstep w t \<Longrightarrow> closed w \<Longrightarrow> wStartup w \<noteq> SBegin \<Longrightarrow> closed t"
proof (induction rule: rstep.induct)
  case (ready w)
  then show ?case by (cases "aState (wAdm w)")
      (simp_all add: closed_def startup_mark_ready_def MarkReady_def Transition_def legalAdmissionTransition_def)
next
  case (degrade snapshot w reason)
  then show ?case by (cases "aState (wAdm w)")
      (simp_all add: closed_def close_degraded_def TransitionThen_def legalAdmissionTransition_def)
next
  case (shutdown snapshot w reason)
  then show ?case by (cases "aState (wAdm w)")
      (simp_all add: closed_def close_stopping_def BeginShutdownThen_def legalAdmissionTransition_def)
next
  case (drain w reason)
  then show ?case by (cases "aState (wAdm w)")
      (simp_all add: closed_def BeginDrain_runtime_def BeginDrain_def legalAdmissionTransition_def)
qed (auto simp: closed_def rworld_ops WithAllowWork_def WithState_def split: option.split prod.split)

lemma quiet_kept: "rstep w t \<Longrightarrow> quiet w \<Longrightarrow> quiet t"
proof -
  assume s: "rstep w t" and q: "quiet w"
  then have "closed t" using closed_kept [OF s] by (auto simp: quiet_def past_startup_def)
  moreover have "past_startup t \<and> wRunning t = []"
    using s q by (induction rule: rstep.induct)
      (auto simp: quiet_def past_startup_def closed_def rworld_ops split: option.splits prod.splits if_splits)
  ultimately show ?thesis by (simp add: quiet_def)
qed

lemma quiet_later: "rstep\<^sup>*\<^sup>* w t \<Longrightarrow> quiet w \<Longrightarrow> quiet t"
  by (induction rule: rtranclp_induct) (simp_all add: quiet_kept)

lemma drained_quiet:
  assumes ok: "drain_ok w" and "aState (wAdm w) = AdmissionDraining" and "Drained w"
  shows "quiet w"
proof (cases "wJoin w = JNone")
  case True
  then show ?thesis using assms by (auto simp: drain_ok_def quiet_def closed_def)
next
  case False
  from \<open>Drained w\<close> have "\<not> wJoinActive w" "wResidual w = []" by (simp_all add: Drained_def countActiveWorkProducers_def)
  with False ok have "wJoin w = JDone" "past_startup w" "closed w" by (auto simp: drain_ok_def)
  with ok \<open>wResidual w = []\<close> show ?thesis by (simp add: drain_ok_def quiet_def visible_def)
qed

text \<open>
  C24. However startup, drains, closers and mutations interleave: when a draining daemon reports that it
  is drained, no scheduler, recovery or cleanup loop is running, none ever runs again, and no
  mutation other than a backup is admitted from then on.
\<close>

theorem drained_means_quiet:
  assumes "rstep\<^sup>*\<^sup>* initial_rworld w" and "aState (wAdm w) = AdmissionDraining" and "Drained w"
  shows "wRunning w = [] \<and> wMutations w = 0
    \<and> (\<forall>t. rstep\<^sup>*\<^sup>* w t \<longrightarrow> wRunning t = [] \<and> BeginAdmittedMutationIfAllowed t = (AllowMutations (wAdm t), t)
         \<and> AllowMutations (wAdm t) \<noteq> None)"
proof -
  from assms(1) have "drain_ok w" by (rule drain.reachable_kept) simp
  then have q: "quiet w" using assms(2,3) by (rule drained_quiet)
  have "wRunning t = [] \<and> BeginAdmittedMutationIfAllowed t = (AllowMutations (wAdm t), t) \<and> AllowMutations (wAdm t) \<noteq> None"
    if "rstep\<^sup>*\<^sup>* w t" for t
  proof -
    from quiet_later [OF that q] have "quiet t" .
    then show ?thesis
      by (auto simp: quiet_def closed_def AllowMutations_def BeginAdmittedMutationIfAllowed_def WithAllowWork_def split: option.split)
  qed
  then show ?thesis using q assms(3) by (simp add: quiet_def Drained_def countActiveWorkProducers_def)
qed

text \<open>A whole drain of a started daemon, for the witness.\<close>

definition ready_rworld :: rworld where
  "ready_rworld = startup_mark_ready (startWorktreeCleanupLoop (startSchedulerLoop initial_rworld))"

definition drained_rworld :: rworld where
  "drained_rworld = initial_rworld\<lparr>wAdm := \<lparr>aState = AdmissionDraining, aReason = ''upgrade-verify-hold''\<rparr>, wStartup := SEnd\<rparr>"

lemma ready_reachable: "rstep\<^sup>*\<^sup>* initial_rworld ready_rworld"
proof -
  let ?s = "startSchedulerLoop initial_rworld"
  have "rstep initial_rworld ?s" by (rule start_scheduler) (simp add: initial_rworld_def)
  moreover have "rstep ?s (startWorktreeCleanupLoop ?s)" by (rule start_cleanup) (simp add: startSchedulerLoop_def)
  moreover have "rstep (startWorktreeCleanupLoop ?s) ready_rworld"
    unfolding ready_rworld_def by (rule ready) (simp add: startWorktreeCleanupLoop_def)
  ultimately show ?thesis by (meson converse_rtranclp_into_rtranclp rtranclp.rtrancl_refl)
qed

theorem drained_means_quiet_witness:
  "rstep\<^sup>*\<^sup>* initial_rworld drained_rworld \<and> Drained drained_rworld \<and> AllowMutations (wAdm drained_rworld) = Some ErrAdmissionDraining
   \<and> wRunning drained_rworld = []"
proof -
  have e: "drained_rworld = startup_verify_hold initial_rworld"
    by (simp add: drained_rworld_def startup_verify_hold_def initial_rworld_def BeginVerifyHold_def NewAdmission_def set_reason_def)
  have "rstep initial_rworld drained_rworld" unfolding e by (rule verify_hold) (simp add: initial_rworld_def)
  then have r: "rstep\<^sup>*\<^sup>* initial_rworld drained_rworld" by simp
  have d: "aState (wAdm drained_rworld) = AdmissionDraining" "Drained drained_rworld"
    by (simp_all add: drained_rworld_def initial_rworld_def Drained_def countActiveWorkProducers_def)
  from drained_means_quiet [OF r d] r d show ?thesis by (simp add: AllowMutations_def allowWorkLocked_def)
qed

section \<open>A closer that collected too early\<close>

text \<open>
  \<open>MarkDegraded\<close> announces that there is no window where admission is closed while a producer's
  context is live. It collects the cancel functions before it takes the admission lock: a recovery
  registered and re-checked in between runs on, uncancelled, in the degraded daemon.
\<close>

lemma degrade_misses_recovery:
  "\<exists>w. rstep\<^sup>*\<^sup>* initial_rworld w \<and> aState (wAdm w) = AdmissionDegraded \<and> Recovery \<in> set (wLive w)
     \<and> Recovery \<in> set (wRunning w) \<and> wStartup w = SEnd"
proof -
  let ?a = "ready_rworld\<lparr>wClosers := snapshotWorkProducerCancels ready_rworld # wClosers ready_rworld\<rparr>"
  let ?b = "arm_recovery ?a" let ?c = "recheck_recovery ?b"
  let ?d = "close_degraded [] (snapshotWorkProducerCancels ready_rworld) ?c"
  have sn: "snapshotWorkProducerCancels ready_rworld = [Scheduler, Cleanup]" by code_simp
  have st: "wStartup ?a = SReady" "wStartup ?b = SArmed" "snapshotWorkProducerCancels ready_rworld \<in> set (wClosers ?c)"
    unfolding sn by code_simp+
  have "rstep\<^sup>*\<^sup>* initial_rworld ?a" using ready_reachable close_collect by (rule rtranclp.rtrancl_into_rtrancl)
  then have "rstep\<^sup>*\<^sup>* initial_rworld ?b" using arm [OF st(1)] by (rule rtranclp.rtrancl_into_rtrancl)
  then have "rstep\<^sup>*\<^sup>* initial_rworld ?c" using recheck [OF st(2)] by (rule rtranclp.rtrancl_into_rtrancl)
  then have "rstep\<^sup>*\<^sup>* initial_rworld ?d" using degrade [OF st(3)] by (rule rtranclp.rtrancl_into_rtrancl)
  moreover have "aState (wAdm ?d) = AdmissionDegraded \<and> Recovery \<in> set (wLive ?d) \<and> Recovery \<in> set (wRunning ?d) \<and> wStartup ?d = SEnd"
    unfolding sn by code_simp
  ultimately show ?thesis by blast
qed

end
