(* ===== verification/Gate_Paths.thy ===== *)
theory Gate_Paths
  imports Prelude
begin

text \<open>
  The protected-path gate of the merge gatekeeper (\<open>internal/gatekeeper/protected_paths.go\<close>):
  repository-relative globs matched segment by segment, with Go's \<open>path.Match\<close> inside a segment. A
  segment is a list of ASCII characters. Go matches a star by the leftmost chunk that fits; on
  segments, which hold no slash, that is the backtracking match defined here, and a malformed
  pattern, which Go reports as an error the code ignores, matches nothing.
\<close>

section \<open>\<open>path.Match\<close>\<close>

definition get_esc :: "string \<Rightarrow> (char \<times> string) option" where
  "get_esc s = (case s of
     [] \<Rightarrow> None
   | c # cs \<Rightarrow> if c = CHR ''-'' \<or> c = CHR '']'' then None
     else (case (if c = CHR 0x5C then cs else s) of
         [] \<Rightarrow> None | d # ds \<Rightarrow> if ds = [] then None else Some (d, ds)))"

lemma get_esc_length: "get_esc s = Some (c, t) \<Longrightarrow> length t < length s"
  by (auto simp: get_esc_def split: list.splits if_splits)

function class_ranges :: "bool \<Rightarrow> string \<Rightarrow> char \<Rightarrow> bool \<Rightarrow> (string \<times> bool) option" where
  "class_ranges some s x found =
     (if some \<and> s \<noteq> [] \<and> hd s = CHR '']'' then Some (tl s, found)
      else (case get_esc s of
        None \<Rightarrow> None
      | Some (lo, s1) \<Rightarrow>
        if hd s1 = CHR ''-''
        then (case get_esc (tl s1) of
            None \<Rightarrow> None | Some (hi, s2) \<Rightarrow> class_ranges True s2 x (found \<or> lo \<le> x \<and> x \<le> hi))
        else class_ranges True s1 x (found \<or> x = lo)))"
  by pat_completeness auto
termination by (relation "measure (\<lambda>(_, s, _, _). length s)") (auto dest!: get_esc_length)

declare class_ranges.simps [simp del]

lemma class_ranges_length: "class_ranges some s x found = Some (t, m) \<Longrightarrow> length t \<le> length s"
proof (induction some s x found rule: class_ranges.induct)
  case (1 some s x found)
  show ?case
  proof (cases "some \<and> s \<noteq> [] \<and> hd s = CHR '']''")
    case True
    then show ?thesis using "1.prems" by (subst (asm) class_ranges.simps) auto
  next
    case False
    from "1.prems" False obtain lo s1 where e: "get_esc s = Some (lo, s1)"
      by (subst (asm) class_ranges.simps) (auto split: option.splits)
    show ?thesis
    proof (cases "hd s1 = CHR ''-''")
      case True
      with "1.prems" False e obtain hi s2 where h: "get_esc (tl s1) = Some (hi, s2)"
        and r: "class_ranges True s2 x (found \<or> lo \<le> x \<and> x \<le> hi) = Some (t, m)"
        by (subst (asm) class_ranges.simps) (auto split: option.splits)
      from "1.IH"(1) [OF False e refl True h refl r] get_esc_length [OF h] get_esc_length [OF e] show ?thesis by simp
    next
      case dash: False
      with "1.prems" False e have r: "class_ranges True s1 x (found \<or> x = lo) = Some (t, m)"
        by (subst (asm) class_ranges.simps) auto
      from "1.IH"(2) [OF False e refl dash r] get_esc_length [OF e] show ?thesis by simp
    qed
  qed
qed

text \<open>What is left of the pattern after \<open>[\<close>, and whether the class admits the character.\<close>

definition char_class :: "string \<Rightarrow> char \<Rightarrow> (string \<times> bool) option" where
  "char_class p x = (let negated = (p \<noteq> [] \<and> hd p = CHR ''^'') in
     map_option (\<lambda>(rest, found). (rest, found \<noteq> negated)) (class_ranges False (if negated then tl p else p) x False))"

lemma char_class_length: "char_class p x = Some (t, m) \<Longrightarrow> length t \<le> length p"
  by (auto simp: char_class_def Let_def dest!: class_ranges_length split: if_splits)

function path_match :: "string \<Rightarrow> string \<Rightarrow> bool" where
  "path_match [] name = (name = [])"
| "path_match (c # p) name =
     (if c = CHR ''*''
      then path_match p name \<or> (case name of [] \<Rightarrow> False | x # xs \<Rightarrow> x \<noteq> CHR ''/'' \<and> path_match (c # p) xs)
      else (case name of
        [] \<Rightarrow> False
      | x # xs \<Rightarrow>
        if c = CHR ''['' then (case char_class p x of None \<Rightarrow> False | Some (rest, ok) \<Rightarrow> ok \<and> path_match rest xs)
        else if c = CHR ''?'' then x \<noteq> CHR ''/'' \<and> path_match p xs
        else if c = CHR 0x5C then (case p of [] \<Rightarrow> False | d # ds \<Rightarrow> d = x \<and> path_match ds xs)
        else c = x \<and> path_match p xs))"
  by pat_completeness auto
termination by (relation "measure (\<lambda>(p, name). length p + length name)") (auto dest!: char_class_length)

section \<open>Segments\<close>

definition normalizeRepositoryPath :: "string \<Rightarrow> string" where
  "normalizeRepositoryPath value =
     trim_prefix (trim_space (map (\<lambda>c. if c = CHR 0x5C then CHR ''/'' else c) value)) ''./''"

text \<open>
  The memoised search: \<open>seen\<close> and \<open>memo\<close> are the two Go maps, an index is below or at the length.
\<close>

type_synonym memo_state = "(nat \<times> nat) list \<times> ((nat \<times> nat) \<times> bool) list"

definition memo_at :: "memo_state \<Rightarrow> nat \<times> nat \<Rightarrow> bool" where
  "memo_at st key \<longleftrightarrow> map_of (snd st) key = Some True"

function match_from :: "string list \<Rightarrow> string list \<Rightarrow> nat \<Rightarrow> nat \<Rightarrow> memo_state \<Rightarrow> bool \<times> memo_state" where
  "match_from pattern changed i j st =
     (if (i, j) \<in> set (fst st) then (memo_at st (i, j), st)
      else
        let st = ((i, j) # fst st, snd st);
            (result, st) =
              (if length pattern \<le> i then (j = length changed, st)
               else if pattern ! i = ''**'' then
                 (case match_from pattern changed (i + 1) j st of
                    (True, st) \<Rightarrow> (True, st)
                  | (False, st) \<Rightarrow> if j < length changed then match_from pattern changed i (j + 1) st else (False, st))
               else if j < length changed then
                 (if path_match (pattern ! i) (changed ! j) then match_from pattern changed (i + 1) (j + 1) st else (False, st))
               else (False, st))
        in (result, (fst st, put (i, j) result (snd st))))"
  by pat_completeness auto
termination by (relation "measure (\<lambda>(pattern, changed, i, j, _). (length pattern - i) + (length changed - j))") auto

declare match_from.simps [simp del]

definition protectedPathSegments :: "string list \<Rightarrow> string list \<Rightarrow> bool" where
  "protectedPathSegments pattern changed = fst (match_from pattern changed 0 0 ([], []))"

definition protectedPathMatch :: "string \<Rightarrow> string \<Rightarrow> bool" where
  "protectedPathMatch pattern changed =
     (let pattern = normalizeRepositoryPath pattern; changed = normalizeRepositoryPath changed in
      if pattern = [] \<or> changed = [] then False
      else if CHR ''/'' \<notin> set pattern then list_ex (path_match pattern) (split_on (CHR ''/'') changed)
      else protectedPathSegments (split_on (CHR ''/'') pattern) (split_on (CHR ''/'') changed))"

fun protected_loop :: "string list \<Rightarrow> string list \<Rightarrow> string list \<Rightarrow> string list" where
  "protected_loop patterns [] matched = matched"
| "protected_loop patterns (c # cs) matched =
     (let changed = normalizeRepositoryPath c in
      if changed = [] then protected_loop patterns cs matched
      else if list_ex (\<lambda>p. protectedPathMatch p changed) patterns \<and> changed \<notin> set matched
      then protected_loop patterns cs (matched @ [changed]) else protected_loop patterns cs matched)"

definition matchedProtectedPaths :: "string list \<Rightarrow> string list \<Rightarrow> string list" where
  "matchedProtectedPaths changedPaths patterns = protected_loop patterns changedPaths []"

definition maxProtectedPathReasonSubject :: nat where "maxProtectedPathReasonSubject = 2048"

text \<open>The ellipsis is three bytes.\<close>

definition more_suffix :: "nat \<Rightarrow> string" where
  "more_suffix n = [CHR '' '', CHR 0xE2, CHR 0x80, CHR 0xA6] @ '' (+'' @ itoa (int n) @ '' more)''"

fun fit_paths :: "string list \<Rightarrow> nat \<Rightarrow> string option" where
  "fit_paths paths 0 = None"
| "fit_paths paths (Suc k) =
     (let suffix = more_suffix (length paths - Suc k); shown = join '', '' (take (Suc k) paths) in
      if length shown + length suffix \<le> maxProtectedPathReasonSubject then Some (shown @ suffix) else fit_paths paths k)"

definition protectedPathReasonSubject :: "string list \<Rightarrow> string" where
  "protectedPathReasonSubject paths =
     (if paths = [] then []
      else let full = join '', '' paths in
        if length full \<le> maxProtectedPathReasonSubject then full
        else (case fit_paths paths (length paths) of Some s \<Rightarrow> s | None \<Rightarrow> itoa (int (length paths)) @ '' protected paths''))"

section \<open>The memoised search and its specification\<close>

text \<open>
  The plain recursion, and what it decides: a double star covers any run of segments, any other
  segment of the pattern covers exactly one.
\<close>

fun seg_match :: "string list \<Rightarrow> string list \<Rightarrow> bool" where
  "seg_match [] changed = (changed = [])"
| "seg_match (p # ps) [] = (p = ''**'' \<and> seg_match ps [])"
| "seg_match (p # ps) (c # cs) =
     (if p = ''**'' then seg_match ps (c # cs) \<or> seg_match (p # ps) cs else path_match p c \<and> seg_match ps cs)"

inductive covers :: "string list \<Rightarrow> string list \<Rightarrow> bool" where
  done_: "covers [] []"
| one: "p \<noteq> ''**'' \<Longrightarrow> path_match p c \<Longrightarrow> covers ps cs \<Longrightarrow> covers (p # ps) (c # cs)"
| run: "covers ps cs \<Longrightarrow> covers (''**'' # ps) (xs @ cs)"

inductive_cases covers_NilE [elim!]: "covers [] cs"
inductive_cases covers_ConsE: "covers (p # ps) cs"

lemma seg_match_run: "seg_match ps cs \<Longrightarrow> seg_match (''**'' # ps) (xs @ cs)"
proof (induction xs)
  case Nil
  then show ?case by (cases cs) simp_all
qed simp

lemma covers_star_Cons: "covers (''**'' # ps) cs \<Longrightarrow> covers (''**'' # ps) (c # cs)"
proof (erule covers_ConsE)
  fix cs' xs assume "covers ps cs'" "cs = xs @ cs'"
  then show "covers (''**'' # ps) (c # cs)" using covers.run [of ps cs' "c # xs"] by simp
qed simp

lemma covers_star: "covers ps cs \<Longrightarrow> covers (''**'' # ps) cs"
  using covers.run [of ps cs "[]"] by simp

lemma seg_match_covers: "seg_match ps cs \<longleftrightarrow> covers ps cs"
proof
  show "seg_match ps cs \<Longrightarrow> covers ps cs"
    by (induction ps cs rule: seg_match.induct)
      (auto split: if_splits intro: covers.done_ covers.one covers_star covers_star_Cons)
  show "seg_match ps cs" if "covers ps cs"
    using that
  proof (induction rule: covers.induct)
    case (run ps cs xs)
    from run.IH show ?case by (rule seg_match_run)
  qed simp_all
qed

text \<open>
  \<open>sp\<close> is the answer each index pair should get; the entries of pairs that lie on the current path
  of the recursion are not there yet, and their sums are below \<open>n\<close>.
\<close>

definition spec_at :: "string list \<Rightarrow> string list \<Rightarrow> nat \<times> nat \<Rightarrow> bool" where
  "spec_at pattern changed k = seg_match (drop (fst k) pattern) (drop (snd k) changed)"

definition correct_from :: "(nat \<times> nat \<Rightarrow> bool) \<Rightarrow> nat \<Rightarrow> memo_state \<Rightarrow> bool" where
  "correct_from sp n st \<longleftrightarrow> (\<forall>k\<in>set (fst st). n \<le> fst k + snd k \<longrightarrow> memo_at st k = sp k)"

definition same_below :: "nat \<Rightarrow> memo_state \<Rightarrow> memo_state \<Rightarrow> bool" where
  "same_below n st st' \<longleftrightarrow> (\<forall>k. fst k + snd k < n \<longrightarrow>
     (k \<in> set (fst st') \<longleftrightarrow> k \<in> set (fst st)) \<and> map_of (snd st') k = map_of (snd st) k)"

lemma same_belowD:
  assumes "same_below n st st'" and "fst k + snd k < n"
  shows "k \<in> set (fst st') \<longleftrightarrow> k \<in> set (fst st)" and "map_of (snd st') k = map_of (snd st) k"
  using assms unfolding same_below_def by blast+

lemma correct_weaken:
  assumes "correct_from sp m st" and "correct_from sp n st'" and "same_below n st st'"
  shows "correct_from sp m st'"
  unfolding correct_from_def
proof (intro ballI impI)
  fix k assume k: "k \<in> set (fst st')" "m \<le> fst k + snd k"
  show "memo_at st' k = sp k"
  proof (cases "n \<le> fst k + snd k")
    case True
    then show ?thesis using assms(2) k by (simp add: correct_from_def)
  next
    case False
    then have "k \<in> set (fst st)" "map_of (snd st') k = map_of (snd st) k"
      using same_belowD [OF assms(3), of k] k by simp_all
    then show ?thesis using assms(1) k by (simp add: correct_from_def memo_at_def)
  qed
qed

lemma same_below_mono: "same_below n st st' \<Longrightarrow> m \<le> n \<Longrightarrow> same_below m st st'"
  by (simp add: same_below_def)

lemma same_below_trans: "same_below n a b \<Longrightarrow> same_below n b c \<Longrightarrow> same_below n a c"
  by (simp add: same_below_def)

lemma correct_record:
  assumes st: "correct_from sp (i + j) st" and c: "correct_from sp (i + j + 1) st1"
    and s: "same_below (i + j + 1) ((i, j) # fst st, snd st) st1" and r: "r = sp (i, j)"
  shows "correct_from sp (i + j) (fst st1, put (i, j) r (snd st1))"
    and "same_below (i + j) st (fst st1, put (i, j) r (snd st1))"
proof -
  show "correct_from sp (i + j) (fst st1, put (i, j) r (snd st1))"
    unfolding correct_from_def
  proof (intro ballI impI)
    fix k assume k: "k \<in> set (fst (fst st1, put (i, j) r (snd st1)))" "i + j \<le> fst k + snd k"
    consider "k = (i, j)" | "k \<noteq> (i, j)" "fst k + snd k = i + j" | "k \<noteq> (i, j)" "i + j + 1 \<le> fst k + snd k"
      using k(2) by linarith
    then show "memo_at (fst st1, put (i, j) r (snd st1)) k = sp k"
    proof cases
      case 1
      then show ?thesis using r by (simp add: memo_at_def go_list)
    next
      case 2
      then have "k \<in> set (fst st)" "map_of (snd st1) k = map_of (snd st) k" using same_belowD [OF s, of k] k by simp_all
      then show ?thesis using st 2 by (simp add: correct_from_def memo_at_def go_list)
    next
      case 3
      then show ?thesis using c k by (simp add: correct_from_def memo_at_def go_list)
    qed
  qed
  show "same_below (i + j) st (fst st1, put (i, j) r (snd st1))"
    using s by (auto simp: same_below_def go_list)
qed

lemma match_from_correct:
  assumes "correct_from (spec_at pattern changed) (i + j) st" and "i \<le> length pattern" and "j \<le> length changed"
  shows "fst (match_from pattern changed i j st) = spec_at pattern changed (i, j)
    \<and> correct_from (spec_at pattern changed) (i + j) (snd (match_from pattern changed i j st))
    \<and> same_below (i + j) st (snd (match_from pattern changed i j st))"
  using assms
proof (induction "(length pattern - i) + (length changed - j)" arbitrary: i j st rule: less_induct)
  case less
  let ?st = "((i, j) # fst st, snd st)"
  have c0: "correct_from (spec_at pattern changed) (i + j + 1) ?st"
    using less.prems(1) by (auto simp: correct_from_def memo_at_def)
  define body where "body =
      (if length pattern \<le> i then (j = length changed, ?st)
       else if pattern ! i = ''**'' then
         (case match_from pattern changed (i + 1) j ?st of
            (True, st) \<Rightarrow> (True, st)
          | (False, st) \<Rightarrow> if j < length changed then match_from pattern changed i (j + 1) st else (False, st))
       else if j < length changed then
         (if path_match (pattern ! i) (changed ! j) then match_from pattern changed (i + 1) (j + 1) ?st else (False, ?st))
       else (False, ?st))"
  have body: "fst body = spec_at pattern changed (i, j) \<and> correct_from (spec_at pattern changed) (i + j + 1) (snd body) \<and> same_below (i + j + 1) ?st (snd body)"
  proof (cases "length pattern \<le> i")
    case True
    then show ?thesis using c0 less.prems(3) by (auto simp add: body_def spec_at_def same_below_def)
  next
    case False
    then have d: "drop i pattern = pattern ! i # drop (i + 1) pattern" by (simp add: Cons_nth_drop_Suc)
    have dj: "drop j changed = changed ! j # drop (j + 1) changed" if "j < length changed" using that by (simp add: Cons_nth_drop_Suc)
    show ?thesis
    proof (cases "pattern ! i = ''**''")
      case True
      obtain r1 st1 where m1: "match_from pattern changed (i + 1) j ?st = (r1, st1)" by (metis surj_pair)
      have 1: "r1 = spec_at pattern changed (i + 1, j)" "correct_from (spec_at pattern changed) (i + j + 1) st1" "same_below (i + j + 1) ?st st1"
        using less.hyps [of "i + 1" j ?st] False c0 less.prems(3) m1 by simp_all
      show ?thesis
      proof (cases "\<not> r1 \<and> j < length changed")
        case go: True
        have "fst (match_from pattern changed i (j + 1) st1) = spec_at pattern changed (i, j + 1)
            \<and> correct_from (spec_at pattern changed) (i + (j + 1)) (snd (match_from pattern changed i (j + 1) st1))
            \<and> same_below (i + (j + 1)) st1 (snd (match_from pattern changed i (j + 1) st1))"
          by (rule less.hyps) (use go 1(2) less.prems(2) in auto)
        moreover have "spec_at pattern changed (i, j) = (spec_at pattern changed (i + 1, j) \<or> spec_at pattern changed (i, j + 1))"
          using d dj go True by (simp add: spec_at_def)
        ultimately show ?thesis
          using False True m1 go 1 by (auto simp: body_def intro: same_below_trans)
      next
        case stop: False
        then have "spec_at pattern changed (i, j) = spec_at pattern changed (i + 1, j)" if "\<not> r1"
          using d True that less.prems(3) by (simp add: spec_at_def)
        moreover have "spec_at pattern changed (i, j)" if "r1"
          using d True that 1(1) seg_match_run [of "drop (i + 1) pattern" "drop j changed" "[]"] by (simp add: spec_at_def)
        ultimately show ?thesis using False True m1 stop 1 by (cases r1) (auto simp: body_def)
      qed
    next
      case lit: False
      show ?thesis
      proof (cases "j < length changed \<and> path_match (pattern ! i) (changed ! j)")
        case True
        have c2: "correct_from (spec_at pattern changed) (i + 1 + (j + 1)) ?st" using c0 by (simp add: correct_from_def)
        have 2: "fst (match_from pattern changed (i + 1) (j + 1) ?st) = spec_at pattern changed (i + 1, j + 1)
            \<and> correct_from (spec_at pattern changed) (i + 1 + (j + 1)) (snd (match_from pattern changed (i + 1) (j + 1) ?st))
            \<and> same_below (i + 1 + (j + 1)) ?st (snd (match_from pattern changed (i + 1) (j + 1) ?st))"
          by (rule less.hyps) (use False True c2 in auto)
        moreover have "spec_at pattern changed (i, j) = spec_at pattern changed (i + 1, j + 1)" using d dj True lit by (simp add: spec_at_def)
        moreover have "correct_from (spec_at pattern changed) (i + j + 1) (snd (match_from pattern changed (i + 1) (j + 1) ?st))"
          by (rule correct_weaken [OF c0]) (use 2 in blast)+
        moreover have "same_below (i + j + 1) ?st (snd (match_from pattern changed (i + 1) (j + 1) ?st))"
          by (rule same_below_mono [of "i + 1 + (j + 1)"]) (use 2 in auto)
        ultimately show ?thesis using False lit True by (simp add: body_def)
      next
        case no: False
        then have "\<not> spec_at pattern changed (i, j)" using d dj lit less.prems(3) by (cases "j < length changed") (simp_all add: spec_at_def)
        then show ?thesis using False lit no c0 by (auto simp: body_def same_below_def)
      qed
    qed
  qed
  show ?case
  proof (cases "(i, j) \<in> set (fst st)")
    case True
    then show ?thesis using less.prems(1)
      by (subst match_from.simps, subst match_from.simps, subst match_from.simps) (simp add: correct_from_def same_below_def)
  next
    case False
    then have m: "match_from pattern changed i j st = (fst body, (fst (snd body), put (i, j) (fst body) (snd (snd body))))"
      by (subst match_from.simps) (simp add: body_def [symmetric] Let_def split_beta)
    show ?thesis
      unfolding m using correct_record [OF less.prems(1), of "snd body" "fst body"] body by simp
  qed
qed

lemma protectedPathSegments_seg_match: "protectedPathSegments pattern changed = seg_match pattern changed"
  using match_from_correct [of pattern changed 0 0 "([], [])"]
  by (simp add: protectedPathSegments_def correct_from_def spec_at_def)

text \<open>
  C6. The memoised search decides the glob: it accepts a path exactly when the pattern's segments cover
  the path's segments in order, a double star covering any run of them, also an empty one.
\<close>

theorem protected_segments_exact: "protectedPathSegments pattern changed \<longleftrightarrow> covers pattern changed"
  by (simp add: protectedPathSegments_seg_match seg_match_covers)

section \<open>The gate\<close>

lemma protected_loop_set:
  "set (protected_loop patterns cs matched) = set matched \<union>
     {c. c \<noteq> [] \<and> (\<exists>x\<in>set cs. c = normalizeRepositoryPath x) \<and> (\<exists>p\<in>set patterns. protectedPathMatch p c)}"
  by (induction cs arbitrary: matched) (auto simp: Let_def list_ex_iff)

lemma protected_loop_distinct: "distinct matched \<Longrightarrow> distinct (protected_loop patterns cs matched)"
  by (induction cs arbitrary: matched) (auto simp: Let_def)

text \<open>
  The paths a pull request is stopped for are, each once, exactly the non-blank changed paths that
  some protected pattern matches.
\<close>

lemma matched_protected_exact:
  "distinct (matchedProtectedPaths changed patterns)
   \<and> (c \<in> set (matchedProtectedPaths changed patterns) \<longleftrightarrow>
       c \<noteq> [] \<and> c \<in> normalizeRepositoryPath ` set changed \<and> (\<exists>p\<in>set patterns. protectedPathMatch p c))"
  by (auto simp: matchedProtectedPaths_def protected_loop_set protected_loop_distinct)

lemma nat_digits_length: "n < 10 ^ k \<Longrightarrow> 0 < k \<Longrightarrow> length (nat_digits n) \<le> k"
proof (induction k arbitrary: n)
  case (Suc k)
  show ?case
  proof (cases "n < 10")
    case True
    then show ?thesis by (subst nat_digits.simps) simp
  next
    case False
    with Suc.prems have "0 < k" by (cases k) auto
    moreover have "n div 10 < 10 ^ k" using Suc.prems by (simp add: less_mult_imp_div_less mult.commute)
    ultimately have "length (nat_digits (n div 10)) \<le> k" by (rule Suc.IH [rotated])
    then show ?thesis using False by (subst nat_digits.simps) simp
  qed
qed simp

lemma fit_paths_bound: "fit_paths paths k = Some s \<Longrightarrow> length s \<le> maxProtectedPathReasonSubject"
  by (induction k) (auto simp: Let_def split: if_splits)

text \<open>However many paths are protected, the subject of the reason stays within its bound.\<close>

theorem protected_subject_bounded:
  assumes "length paths < 2 ^ 63"
  shows "length (protectedPathReasonSubject paths) \<le> maxProtectedPathReasonSubject"
proof -
  have "length paths < 10 ^ 19" using assms by simp
  then have "length (itoa (int (length paths))) \<le> 19" using nat_digits_length [of "length paths" 19] by (simp add: itoa_def)
  moreover have "protectedPathReasonSubject paths = [] \<or> length (protectedPathReasonSubject paths) \<le> maxProtectedPathReasonSubject
      \<or> protectedPathReasonSubject paths = itoa (int (length paths)) @ '' protected paths''"
    by (auto simp: protectedPathReasonSubject_def Let_def dest: fit_paths_bound split: option.splits)
  ultimately show ?thesis by (auto simp: maxProtectedPathReasonSubject_def)
qed

theorem protected_subject_bounded_witness:
  "length (protectedPathReasonSubject [''go.mod'', ''.github/ci.yml'']) \<le> maxProtectedPathReasonSubject
   \<and> protectedPathReasonSubject [''go.mod'', ''.github/ci.yml''] = ''go.mod, .github/ci.yml''"
  using protected_subject_bounded [of "[''go.mod'', ''.github/ci.yml'']"]
  by (simp add: protectedPathReasonSubject_def maxProtectedPathReasonSubject_def)

lemma glob_examples:
  "protectedPathMatch ''**/*.go'' ''main.go'' \<and> protectedPathMatch ''.github/**'' ''.github/workflows/ci.yml''
   \<and> \<not> protectedPathMatch ''internal/*'' ''internal/a/b.go'' \<and> protectedPathMatch ''go.[ms]*'' ''vendor/go.sum''"
  by code_simp

end
