(* ===== verification/Gate_Evidence.thy ===== *)
theory Gate_Evidence
  imports Labels Convergence Gate_Paths
begin

text \<open>
  What the merge gatekeeper makes of single pieces of evidence
  (\<open>internal/gatekeeper/runner.go\<close>, \<open>review.go\<close>, \<open>convergence.go\<close>, \<open>review_provenance.go\<close>,
  \<open>internal/infra/github/mergeability.go\<close>): required checks, the durable review event of the current
  head, the reviewer's convergence record, mergeability, the diff budget. JSON payloads appear
  decoded, with \<open>None\<close> for one that does not decode.
\<close>

text \<open>\<open>strings.ToUpper\<close>.\<close>

definition upper_char :: "char \<Rightarrow> char" where
  "upper_char c = (if 97 \<le> (of_char c :: nat) \<and> (of_char c :: nat) \<le> 122
                   then char_of ((of_char c :: nat) - 32) else c)"

definition to_upper :: "string \<Rightarrow> string" where
  "to_upper s = map upper_char s"

section \<open>Reasons\<close>

datatype ReasonCode = ReasonHeadStale | ReasonBaseStale | ReasonPullRequestNotOpen | ReasonPullRequestDraft
  | ReasonMergeConflict | ReasonMergeabilityNotClean | ReasonCheckMissing | ReasonCheckPending | ReasonCheckFailed
  | ReasonCheckCancelled | ReasonReviewRequired | ReasonReviewChangesRequested | ReasonCodexReviewMissing
  | ReasonUnresolvedReviewThread | ReasonReviewerConvergence | ReasonCodexReviewRequired | ReasonCodexReviewBlocked
  | ReasonGatekeeperCheckRequired | ReasonProjectPolicyDenied | ReasonHold | ReasonDoNotMerge | ReasonDiffBudgetExceeded
  | ReasonProtectedPathTouched | ReasonProviderStateUnavailable | ReasonProviderStateAmbiguous
  | ReasonRoutingProjectionFailed | ReasonRouteTemporarilyBlocked | ReasonRouteRevoked

fun code_name :: "ReasonCode \<Rightarrow> string" where
  "code_name ReasonHeadStale = ''head_stale''"
| "code_name ReasonBaseStale = ''base_stale''"
| "code_name ReasonPullRequestNotOpen = ''pull_request_not_open''"
| "code_name ReasonPullRequestDraft = ''pull_request_draft''"
| "code_name ReasonMergeConflict = ''merge_conflict''"
| "code_name ReasonMergeabilityNotClean = ''mergeability_not_clean''"
| "code_name ReasonCheckMissing = ''required_check_missing''"
| "code_name ReasonCheckPending = ''required_check_pending''"
| "code_name ReasonCheckFailed = ''required_check_failed''"
| "code_name ReasonCheckCancelled = ''required_check_cancelled''"
| "code_name ReasonReviewRequired = ''required_review_missing''"
| "code_name ReasonReviewChangesRequested = ''review_changes_requested''"
| "code_name ReasonCodexReviewMissing = ''codex_review_missing''"
| "code_name ReasonUnresolvedReviewThread = ''unresolved_review_thread''"
| "code_name ReasonReviewerConvergence = ''reviewer_convergence_blocked''"
| "code_name ReasonCodexReviewRequired = ''codex_review_required''"
| "code_name ReasonCodexReviewBlocked = ''codex_review_blocked''"
| "code_name ReasonGatekeeperCheckRequired = ''gatekeeper_check_not_required''"
| "code_name ReasonProjectPolicyDenied = ''project_policy_denied''"
| "code_name ReasonHold = ''hold''"
| "code_name ReasonDoNotMerge = ''do_not_merge''"
| "code_name ReasonDiffBudgetExceeded = ''diff_budget_exceeded''"
| "code_name ReasonProtectedPathTouched = ''protected_path_touched''"
| "code_name ReasonProviderStateUnavailable = ''provider_state_unavailable''"
| "code_name ReasonProviderStateAmbiguous = ''provider_state_ambiguous''"
| "code_name ReasonRoutingProjectionFailed = ''routing_projection_failed''"
| "code_name ReasonRouteTemporarilyBlocked = ''route_temporarily_blocked''"
| "code_name ReasonRouteRevoked = ''route_revoked''"

record Reason =
  Code :: ReasonCode
  Subject :: string

abbreviation reason :: "ReasonCode \<Rightarrow> string \<Rightarrow> Reason" where
  "reason c s \<equiv> \<lparr>Code = c, Subject = s\<rparr>"

definition reason_key :: "Reason \<Rightarrow> string list" where
  "reason_key r = [code_name (Code r), Subject r]"

definition sortReasons :: "Reason list \<Rightarrow> Reason list" where
  "sortReasons rs = sort_key reason_key rs"

definition hasReasonCode :: "Reason list \<Rightarrow> ReasonCode \<Rightarrow> bool" where
  "hasReasonCode rs want \<longleftrightarrow> list_ex (\<lambda>r. Code r = want) rs"

definition withoutReasonCodes :: "Reason list \<Rightarrow> ReasonCode list \<Rightarrow> Reason list" where
  "withoutReasonCodes rs codes = filter (\<lambda>r. Code r \<notin> set codes) rs"

section \<open>Required checks\<close>

record RequiredCheckRule =
  RuleContext :: string
  RuleAppID :: int

record CheckRun =
  RunName :: string
  RunStatus :: string
  RunConclusion :: string
  RunAppID :: int

record CommitStatus =
  StatusContext :: string
  StatusState :: string

record CheckRuns =
  TotalCount :: int
  Runs :: "CheckRun list"
  Statuses :: "CommitStatus list"

record CheckEvidence =
  EvName :: string
  EvAppID :: int
  EvStatus :: string
  EvConclusion :: string

definition RequiredStatusContext :: string where "RequiredStatusContext = ''Looper Gatekeeper''"

definition fold_name :: "string \<Rightarrow> string" where
  "fold_name s = to_lower (trim_space s)"

definition matchingCheckRuns :: "CheckRun list \<Rightarrow> int \<Rightarrow> CheckRun list" where
  "matchingCheckRuns checks appID = (if appID = 0 then checks else filter (\<lambda>c. RunAppID c = appID) checks)"

text \<open>The loop of \<open>aggregateCheckRuns\<close>: an unfinished run returns at once.\<close>

fun aggregate_loop :: "CheckRun list \<Rightarrow> string \<Rightarrow> string \<Rightarrow> string \<times> string \<times> bool" where
  "aggregate_loop [] status conclusion = (status, conclusion, False)"
| "aggregate_loop (c # cs) status conclusion =
     (let s = fold_name (RunStatus c); k = fold_name (RunConclusion c) in
      if s \<noteq> ''completed'' then (s, k, True)
      else if k = ''cancelled'' then aggregate_loop cs s k
      else if k \<noteq> ''success'' \<and> conclusion = ''success'' then aggregate_loop cs s k
      else aggregate_loop cs status conclusion)"

definition aggregateCheckRuns :: "CheckRun list \<Rightarrow> string \<times> string \<times> ReasonCode option" where
  "aggregateCheckRuns checks = (case aggregate_loop checks ''completed'' ''success'' of
     (status, conclusion, True) \<Rightarrow> (status, conclusion, Some ReasonCheckPending)
   | (status, conclusion, False) \<Rightarrow>
       (status, conclusion, if conclusion = ''success'' then None
          else if conclusion = ''cancelled'' then Some ReasonCheckCancelled else Some ReasonCheckFailed))"

definition requiredCheckSubject :: "string \<Rightarrow> int \<Rightarrow> string" where
  "requiredCheckSubject name appID = (if appID = 0 then name else name @ ''@app:'' @ itoa appID)"

definition runs_named :: "CheckRuns \<Rightarrow> string \<Rightarrow> CheckRun list" where
  "runs_named checks key = (if key = [] then [] else filter (\<lambda>c. fold_name (RunName c) = key) (Runs checks))"

text \<open>The map of statuses keeps the last one of a context.\<close>

definition status_named :: "CheckRuns \<Rightarrow> string \<Rightarrow> CommitStatus option" where
  "status_named checks key = find (\<lambda>s. fold_name (StatusContext s) = key) (rev (Statuses checks))"

definition evaluate_rule :: "CheckRuns \<Rightarrow> RequiredCheckRule \<Rightarrow> Reason list \<times> CheckEvidence" where
  "evaluate_rule checks rule =
     (let name = trim_space (RuleContext rule); key = to_lower name; app = RuleAppID rule;
          subject = requiredCheckSubject name app; matching = matchingCheckRuns (runs_named checks key) app in
      if matching \<noteq> [] then
        (case aggregateCheckRuns matching of (status, conclusion, code) \<Rightarrow>
           (case code of None \<Rightarrow> [] | Some c \<Rightarrow> [reason c subject],
            \<lparr>EvName = name, EvAppID = app, EvStatus = status, EvConclusion = conclusion\<rparr>))
      else (case (if app = 0 then status_named checks key else None) of
          Some s \<Rightarrow>
            let state = fold_name (StatusState s) in
            (if state = ''success'' then [] else if state = ''pending'' then [reason ReasonCheckPending subject]
             else [reason ReasonCheckFailed subject], \<lparr>EvName = name, EvAppID = 0, EvStatus = state, EvConclusion = []\<rparr>)
        | None \<Rightarrow> ([reason ReasonCheckMissing subject], \<lparr>EvName = name, EvAppID = app, EvStatus = [], EvConclusion = []\<rparr>)))"

definition evaluateRequiredChecks :: "RequiredCheckRule list \<Rightarrow> CheckRuns \<Rightarrow> Reason list \<times> CheckEvidence list" where
  "evaluateRequiredChecks required checks =
     (concat (map (fst \<circ> evaluate_rule checks) required), map (snd \<circ> evaluate_rule checks) required)"

definition containsRequiredCheck :: "string list \<Rightarrow> string \<Rightarrow> bool" where
  "containsRequiredCheck checks want \<longleftrightarrow> list_ex (\<lambda>c. equal_fold (trim_space c) (trim_space want)) checks"

definition withoutRequiredCheck :: "RequiredCheckRule list \<Rightarrow> string \<Rightarrow> RequiredCheckRule list" where
  "withoutRequiredCheck rules name =
     filter (\<lambda>r. \<not> (equal_fold (trim_space (RuleContext r)) (trim_space name) \<and> RuleAppID r = 0)) rules"

fun unique_fold :: "string list \<Rightarrow> string list \<Rightarrow> string list" where
  "unique_fold [] seen = []"
| "unique_fold (v # vs) seen =
     (let v = trim_space v in
      if v = [] \<or> to_lower v \<in> set seen then unique_fold vs seen else v # unique_fold vs (to_lower v # seen))"

definition sortedUnique :: "string list \<Rightarrow> string list" where
  "sortedUnique values = sort (unique_fold values [])"

section \<open>Mergeability and the diff budget\<close>

definition IsUnknown :: "string \<Rightarrow> bool" where
  "IsUnknown state \<longleftrightarrow> state \<notin> {''behind'', ''blocked'', ''clean'', ''dirty'', ''draft'', ''has_hooks'', ''unstable''}"

definition IsClean :: "string \<Rightarrow> bool" where "IsClean state \<longleftrightarrow> state = ''clean''"
definition HasConflict :: "string \<Rightarrow> bool" where "HasConflict state \<longleftrightarrow> state = ''dirty''"

definition IsAmbiguousPolicyState :: "string \<Rightarrow> bool" where
  "IsAmbiguousPolicyState state \<longleftrightarrow> state \<in> {''blocked'', ''has_hooks'', ''unstable''}"

record GatekeeperDiffBudget =
  MaxChangedFiles :: int
  MaxDeletions :: int

record PullRequestDiffStats =
  ChangedFiles :: int
  StatDeletions :: int

definition diffBudgetExceededSubject :: "PullRequestDiffStats \<Rightarrow> GatekeeperDiffBudget \<Rightarrow> string" where
  "diffBudgetExceededSubject stats budget = join ''; ''
     ((if MaxChangedFiles budget > 0 \<and> ChangedFiles stats > MaxChangedFiles budget
       then [''changed files '' @ itoa (ChangedFiles stats) @ '' > max '' @ itoa (MaxChangedFiles budget)] else [])
      @ (if MaxDeletions budget > 0 \<and> StatDeletions stats > MaxDeletions budget
       then [''deletions '' @ itoa (StatDeletions stats) @ '' > max '' @ itoa (MaxDeletions budget)] else []))"

datatype GatekeeperTrustLevel = GatekeeperTrustObserve | GatekeeperTrustAdvise | GatekeeperTrustAuto

fun trust_name :: "GatekeeperTrustLevel \<Rightarrow> string" where
  "trust_name GatekeeperTrustObserve = ''observe''"
| "trust_name GatekeeperTrustAdvise = ''advise''"
| "trust_name GatekeeperTrustAuto = ''auto''"

definition trust_of :: "string \<Rightarrow> GatekeeperTrustLevel" where
  "trust_of configured =
     (let level = to_lower (trim_space configured) in
      if level = ''advise'' then GatekeeperTrustAdvise else if level = ''auto'' then GatekeeperTrustAuto else GatekeeperTrustObserve)"

definition DefaultRequiredReviewChangedLines :: int where "DefaultRequiredReviewChangedLines = 200"

definition requiredReviewChangedLinesFor :: "int option \<Rightarrow> int" where
  "requiredReviewChangedLinesFor configured = (case configured of
     None \<Rightarrow> DefaultRequiredReviewChangedLines
   | Some t \<Rightarrow> if t < 0 then DefaultRequiredReviewChangedLines else t)"

section \<open>The review event of the current head\<close>

record ReviewPayload =
  PayRepo :: string
  PayPRNumber :: int
  PayEvent :: string
  PayOutcome :: string
  PayHeadSHA :: string
  PayMarkerVerified :: bool

record ReviewEvent =
  RevEventType :: string
  RevProjectID :: "string option"
  RevActorID :: "string option"
  RevCreatedAt :: string
  RevPayload :: "ReviewPayload option"

record CodexReviewEvidence =
  RequiredHeadSHA :: string
  ReviewedHeadSHA :: string
  RevEvent :: string
  RevOutcome :: string
  RecordedAt :: string
  CurrentHeadValid :: bool

definition reviewEventBelongsToProject :: "ReviewEvent \<Rightarrow> string \<Rightarrow> bool" where
  "reviewEventBelongsToProject e projectID \<longleftrightarrow> RevProjectID e = Some projectID"

definition reviewEventActorIsReviewer :: "ReviewEvent \<Rightarrow> bool" where
  "reviewEventActorIsReviewer e = (case RevActorID e of
     None \<Rightarrow> False | Some a \<Rightarrow> trim_space a \<noteq> [] \<and> equal_fold (trim_space a) ''reviewer-loop'')"

definition review_counts :: "string \<Rightarrow> string \<Rightarrow> int \<Rightarrow> ReviewEvent \<Rightarrow> ReviewPayload option" where
  "review_counts projectID repo prNumber e =
     (if RevEventType e \<noteq> ''pr.review.posted'' \<or> \<not> reviewEventBelongsToProject e projectID \<or> \<not> reviewEventActorIsReviewer e
      then None
      else case RevPayload e of
        None \<Rightarrow> None
      | Some p \<Rightarrow>
        let event = to_upper (trim_space (PayEvent p)); outcome = to_lower (trim_space (PayOutcome p)) in
        if trim_space (PayRepo p) \<noteq> [] \<and> \<not> equal_fold (trim_space (PayRepo p)) (trim_space repo) then None
        else if PayPRNumber p \<noteq> 0 \<and> PayPRNumber p \<noteq> prNumber then None
        else if trim_space (PayHeadSHA p) = [] then None
        else if \<not> PayMarkerVerified p then None
        else if event = ''COMMENT''
        then (if outcome \<in> {[], ''clean'', ''non_blocking'', ''actionable'', ''blocking''} then Some p else None)
        else if event = ''APPROVE'' then (if outcome \<in> {[], ''clean''} then Some p else None)
        else if event = ''REQUEST_CHANGES'' then (if outcome \<in> {[], ''blocking''} then Some p else None)
        else None)"

fun latest_review :: "string \<Rightarrow> string \<Rightarrow> int \<Rightarrow> ReviewEvent list \<Rightarrow> CodexReviewEvidence \<Rightarrow> CodexReviewEvidence" where
  "latest_review projectID repo prNumber [] ev = ev"
| "latest_review projectID repo prNumber (e # es) ev = latest_review projectID repo prNumber es
     (case review_counts projectID repo prNumber e of
        None \<Rightarrow> ev
      | Some p \<Rightarrow> ev\<lparr>ReviewedHeadSHA := trim_space (PayHeadSHA p), RevEvent := to_upper (trim_space (PayEvent p)),
          RevOutcome := to_lower (trim_space (PayOutcome p)), RecordedAt := RevCreatedAt e\<rparr>)"

definition no_review :: "string \<Rightarrow> CodexReviewEvidence" where
  "no_review head = \<lparr>RequiredHeadSHA = trim_space head, ReviewedHeadSHA = [], RevEvent = [], RevOutcome = [],
     RecordedAt = [], CurrentHeadValid = False\<rparr>"

definition latestCodexReviewForHead ::
  "string \<Rightarrow> string \<Rightarrow> int \<Rightarrow> string \<Rightarrow> ReviewEvent list \<Rightarrow> CodexReviewEvidence" where
  "latestCodexReviewForHead projectID repo prNumber head events =
     (let ev = latest_review projectID repo prNumber events (no_review head)
      in ev\<lparr>CurrentHeadValid := ReviewedHeadSHA ev \<noteq> [] \<and> equal_fold (ReviewedHeadSHA ev) (RequiredHeadSHA ev)\<rparr>)"

definition codexReviewReasonSubject :: "CodexReviewEvidence \<Rightarrow> string" where
  "codexReviewReasonSubject ev =
     (if ReviewedHeadSHA ev = [] then ''reviewed=none;required='' @ RequiredHeadSHA ev
      else ''reviewed='' @ ReviewedHeadSHA ev @ '';required='' @ RequiredHeadSHA ev)"

section \<open>The reviewer's convergence\<close>

text \<open>A loop row with its decoded metadata and the head of its last completed review.\<close>

record ReviewerLoop =
  RLProjectID :: string
  RLType :: string
  RLStatus :: string
  RLConvergence :: "ConvergenceMetadata option"
  RLUpdatedAt :: string
  RLReviewedHead :: string

record ReviewerConvergenceEvidence =
  CEStatus :: string
  CEAction :: Action
  CEReason :: Convergence.Reason
  CEFloor :: string
  CETotalRounds :: int
  CEOpenItemIDs :: "string list"
  CEReviewedHeadSHA :: string
  CEUpdatedAt :: string
  CEHeadStale :: bool
  CEPendingStart :: bool

definition reviewerLoopMayStillConverge :: "string \<Rightarrow> bool" where
  "reviewerLoopMayStillConverge status \<longleftrightarrow>
     trim_space status \<notin> {''stopped'', ''terminated'', ''completed'', ''failed'', ''interrupted''}"

definition validConvergenceState :: "State \<Rightarrow> bool" where
  "validConvergenceState state \<longleftrightarrow> (\<forall>(k, i)\<in>set (Items state).
     trim_space k \<noteq> [] \<and> trim_space (ItemID i) \<noteq> [] \<and> k = ItemID i
     \<and> ParseSeverity (Severity i) \<noteq> None \<and> known_status (ItemStatus i))"

definition reviewerConvergenceFromLoop :: "ReviewerLoop \<Rightarrow> ReviewerConvergenceEvidence option" where
  "reviewerConvergenceFromLoop loop = (case RLConvergence loop of
     None \<Rightarrow> None
   | Some m \<Rightarrow>
     if Policy_Validate (CPolicy m) \<noteq> None \<or> \<not> ValidStatus (CStatus m) \<or> \<not> validConvergenceState (CState m) then None
     else Some \<lparr>CEStatus = CStatus m, CEAction = CAction m, CEReason = CReason m, CEFloor = SeverityFloor (CPolicy m),
       CETotalRounds = TotalRounds (CState m), CEOpenItemIDs = sort (open_ids (CPolicy m) (Items (CState m))),
       CEReviewedHeadSHA = trim_space (RLReviewedHead loop), CEUpdatedAt = RLUpdatedAt loop,
       CEHeadStale = False, CEPendingStart = False\<rparr>)"

definition pending_start :: ReviewerConvergenceEvidence where
  "pending_start = \<lparr>CEStatus = [], CEAction = ActionNone, CEReason = ReasonNone, CEFloor = [], CETotalRounds = 0,
     CEOpenItemIDs = [], CEReviewedHeadSHA = [], CEUpdatedAt = [], CEHeadStale = False, CEPendingStart = True\<rparr>"

text \<open>The loops of the pull request come newest first; only the newest reviewer loop counts.\<close>

fun latestReviewerConvergence :: "string \<Rightarrow> string \<Rightarrow> ReviewerLoop list \<Rightarrow> ReviewerConvergenceEvidence option" where
  "latestReviewerConvergence projectID observedHead [] = None"
| "latestReviewerConvergence projectID observedHead (loop # rest) =
     (if RLProjectID loop \<noteq> projectID \<or> RLType loop \<noteq> ''reviewer'' then latestReviewerConvergence projectID observedHead rest
      else case reviewerConvergenceFromLoop loop of
        Some ev \<Rightarrow> Some (ev\<lparr>CEHeadStale := CEReviewedHeadSHA ev \<noteq> observedHead\<rparr>)
      | None \<Rightarrow> if reviewerLoopMayStillConverge (RLStatus loop) then Some pending_start else None)"

fun reason_name :: "Convergence.Reason \<Rightarrow> string" where
  "reason_name ReasonNone = []"
| "reason_name ReasonConverging = ''converging''"
| "reason_name ReasonSeverityFloorReached = ''severity_floor_reached''"
| "reason_name ReasonStalled = ''stalled''"
| "reason_name ReasonAbsoluteCeiling = ''absolute_round_ceiling''"

fun action_name :: "Action \<Rightarrow> string" where
  "action_name ActionNone = []"
| "action_name ActionContinue = ''continue''"
| "action_name ActionComplete = ''complete''"
| "action_name ActionEscalate = ''escalate''"

definition reviewerConvergenceReasonSubject :: "ReviewerConvergenceEvidence \<Rightarrow> string" where
  "reviewerConvergenceReasonSubject ev =
     (if CEPendingStart ev then ''loop_pending_start''
      else join '';'' ([''floor='' @ CEFloor ev]
        @ (if CEStatus ev \<noteq> [] then [''status='' @ CEStatus ev] else [])
        @ (if CEReason ev \<noteq> ReasonNone then [''reason='' @ reason_name (CEReason ev)] else [])
        @ (if CEOpenItemIDs ev \<noteq> [] then [''open='' @ join '','' (CEOpenItemIDs ev)] else [])))"

definition reviewerConvergenceBlocks :: "ReviewerConvergenceEvidence \<Rightarrow> bool" where
  "reviewerConvergenceBlocks ev \<longleftrightarrow>
     (if CEPendingStart ev then True
      else if CEStatus ev = ''awaiting_human'' \<or> CEOpenItemIDs ev \<noteq> [] then True
      else if CEAction ev \<noteq> ActionComplete then True
      else CEHeadStale ev)"

definition convergenceRevision :: "ReviewerConvergenceEvidence \<Rightarrow> string" where
  "convergenceRevision ev = join [CHR 0x1F]
     [if CEPendingStart ev then ''pending'' else [], CEUpdatedAt ev, CEReviewedHeadSHA ev, action_name (CEAction ev),
      itoa (CETotalRounds ev), join '','' (CEOpenItemIDs ev)]"

section \<open>Review provenance\<close>

datatype ReviewProvenanceStatus = ReviewProvenanceUnobserved | ReviewProvenanceReviewed | ReviewProvenanceRefused
  | ReviewProvenanceAbsent | ReviewProvenanceUnknown

record ReviewSummary =
  SumAuthor :: string
  SumIsBot :: bool
  SumState :: string

record CommentInfo =
  CommentID :: int
  CommentAuthor :: string
  CommentIsBot :: bool
  CommentBody :: string

record ReviewProvenance =
  ProvStatus :: ReviewProvenanceStatus
  CompletedReviews :: int
  Reviewers :: "(string \<times> bool \<times> string) list"
  Refusals :: "(string \<times> string \<times> int) list"

definition accountLogin :: "string \<Rightarrow> string" where
  "accountLogin login = trim_suffix (to_lower (trim_space login)) ''[bot]''"

definition detectRefusal :: "CommentInfo \<Rightarrow> string option" where
  "detectRefusal comment =
     (if accountLogin (CommentAuthor comment) = ''coderabbitai'' \<and> CommentIsBot comment
         \<and> contains (CommentBody comment) ''Review limit reached'' then Some ''coderabbit_review_limit'' else None)"

definition isCompletedReviewState :: "string \<Rightarrow> bool" where
  "isCompletedReviewState state \<longleftrightarrow> to_upper (trim_space state) \<in> {''APPROVED'', ''CHANGES_REQUESTED'', ''COMMENTED''}"

definition reviewsObservedFrom :: "ReviewSummary list \<Rightarrow> ReviewProvenance" where
  "reviewsObservedFrom reviews =
     (let counted = filter (\<lambda>r. trim_space (SumAuthor r) \<noteq> [] \<and> isCompletedReviewState (SumState r)) reviews in
      \<lparr>ProvStatus = (if counted \<noteq> [] then ReviewProvenanceReviewed else ReviewProvenanceAbsent),
       CompletedReviews = int (length counted),
       Reviewers = map (\<lambda>r. (trim_space (SumAuthor r), SumIsBot r, to_upper (trim_space (SumState r)))) counted,
       Refusals = []\<rparr>)"

definition withRefusalsFrom :: "ReviewProvenance \<Rightarrow> CommentInfo list \<Rightarrow> ReviewProvenance" where
  "withRefusalsFrom provenance comments =
     (let refusals = Refusals provenance @ concat (map (\<lambda>c. case detectRefusal c of
            None \<Rightarrow> [] | Some d \<Rightarrow> [(trim_space (CommentAuthor c), d, CommentID c)]) comments) in
      provenance\<lparr>Refusals := refusals,
        ProvStatus := (if ProvStatus provenance = ReviewProvenanceAbsent \<and> refusals \<noteq> []
          then ReviewProvenanceRefused else ProvStatus provenance)\<rparr>)"

text \<open>\<open>observeReviewProvenance\<close> with what the two reads returned.\<close>

definition observeReviewProvenance :: "ReviewSummary list option \<Rightarrow> CommentInfo list option \<Rightarrow> ReviewProvenance" where
  "observeReviewProvenance reviews comments =
     (let unknown = \<lparr>ProvStatus = ReviewProvenanceUnknown, CompletedReviews = 0, Reviewers = [], Refusals = []\<rparr> in
      case reviews of
        None \<Rightarrow> unknown
      | Some rs \<Rightarrow> let observed = reviewsObservedFrom rs in
        (case comments of
           None \<Rightarrow> if CompletedReviews observed > 0 then observed else unknown
         | Some cs \<Rightarrow> withRefusalsFrom observed cs))"

section \<open>Facts about single gates\<close>

lemma aggregate_loop_cancelled:
  "aggregate_loop cs s ''cancelled'' = (s', k, False) \<Longrightarrow> k = ''cancelled''"
  by (induction cs arbitrary: s) (auto simp: Let_def split: if_splits)

lemma aggregate_loop_success:
  "aggregate_loop cs s c = (s', ''success'', False) \<longleftrightarrow>
     c = ''success'' \<and> s' = s \<and> (\<forall>r\<in>set cs. fold_name (RunStatus r) = ''completed'' \<and> fold_name (RunConclusion r) = ''success'')"
proof (induction cs arbitrary: s c)
  case (Cons r cs)
  then show ?case by (cases "fold_name (RunConclusion r) = ''success''") (auto simp: Let_def)
qed auto

text \<open>A set of runs raises no reason exactly when every one of them completed with success.\<close>

lemma aggregate_clean_iff:
  "snd (snd (aggregateCheckRuns runs)) = None \<longleftrightarrow>
     (\<forall>r\<in>set runs. fold_name (RunStatus r) = ''completed'' \<and> fold_name (RunConclusion r) = ''success'')"
proof -
  obtain s k d where l: "aggregate_loop runs ''completed'' ''success'' = (s, k, d)" by (metis prod_cases3)
  show ?thesis
    using aggregate_loop_success [of runs "''completed''" "''success''" "''completed''"]
      aggregate_loop_success [of runs "''completed''" "''success''" s] l
    by (cases d) (auto simp: aggregateCheckRuns_def split: if_splits)
qed

definition rule_satisfied :: "CheckRuns \<Rightarrow> RequiredCheckRule \<Rightarrow> bool" where
  "rule_satisfied checks rule \<longleftrightarrow>
     (let key = fold_name (RuleContext rule); runs = matchingCheckRuns (runs_named checks key) (RuleAppID rule) in
      if runs \<noteq> [] then (\<forall>r\<in>set runs. fold_name (RunStatus r) = ''completed'' \<and> fold_name (RunConclusion r) = ''success'')
      else RuleAppID rule = 0 \<and> (\<exists>s. status_named checks key = Some s \<and> fold_name (StatusState s) = ''success''))"

lemma evaluate_rule_clean_iff: "fst (evaluate_rule checks rule) = [] \<longleftrightarrow> rule_satisfied checks rule"
proof -
  let ?runs = "matchingCheckRuns (runs_named checks (fold_name (RuleContext rule))) (RuleAppID rule)"
  show ?thesis
  proof (cases "?runs = []")
    case True
    then show ?thesis
      by (auto simp: evaluate_rule_def rule_satisfied_def Let_def fold_name_def split: option.splits)
  next
    case False
    then show ?thesis using aggregate_clean_iff [of ?runs]
      by (auto simp: evaluate_rule_def rule_satisfied_def Let_def fold_name_def split: option.splits prod.splits)
  qed
qed

text \<open>
  No required check raises a reason exactly when each of them is satisfied: by runs that all
  completed with success (of the bound app, if it is bound), or, unbound and without runs, by a
  successful commit status.
\<close>

lemma required_checks_clean_iff:
  "fst (evaluateRequiredChecks rules checks) = [] \<longleftrightarrow> (\<forall>rule\<in>set rules. rule_satisfied checks rule)"
  by (auto simp: evaluateRequiredChecks_def evaluate_rule_clean_iff)

lemma diff_budget_subject_iff:
  "diffBudgetExceededSubject stats budget = [] \<longleftrightarrow>
     (MaxChangedFiles budget \<le> 0 \<or> ChangedFiles stats \<le> MaxChangedFiles budget)
     \<and> (MaxDeletions budget \<le> 0 \<or> StatDeletions stats \<le> MaxDeletions budget)"
  by (auto simp: diffBudgetExceededSubject_def)

end
