(* ===== verification/Gatekeeper.thy ===== *)
theory Gatekeeper
  imports Gate_Evidence
begin

text \<open>
  The evaluation of a pull request by the merge gatekeeper (\<open>EvaluatePullRequest\<close> and the stamping
  half of \<open>persist\<close>, \<open>internal/gatekeeper/runner.go\<close>). What each read of the forge and of the local
  store returned is an argument (\<open>None\<close> for an error), so reads may answer for different moments.
  The evaluation is the sequence of its gates; an early return is \<open>Inl\<close> of the report.
\<close>

section \<open>Inputs and the report\<close>

record PullRequestDetail =
  DNumber :: int
  DState :: string
  DClosedAt :: string
  DMergedAt :: string
  DIsDraft :: bool
  DReviewDecision :: string
  DLabels :: "string list"
  DBaseRefName :: string
  DHeadSHA :: string
  DBaseSHA :: string
  DAdditions :: int
  DDeletions :: int
  DAdditionsKnown :: bool
  DDeletionsKnown :: bool
  DDiffStats :: "PullRequestDiffStats option"
  DChangedFiles :: "string list"
  DMergeable :: "bool option"
  DMergeableState :: string

record BranchProtection =
  RequiredChecks :: "string list"
  RequiredCheckRules :: "RequiredCheckRule list"
  HasRequiredReviews :: bool
  RequiredApprovingReviewCount :: int

record gate_config =
  GProjectID :: string
  GRepo :: string
  GIdentity :: string
  GPRNumber :: int
  GExpectedHeadSHA :: string
  GExpectedBaseSHA :: string
  GTrust :: string
  GBudget :: GatekeeperDiffBudget
  GReviewLines :: "int option"
  GProtected :: "string list"
  GPermits :: "string \<Rightarrow> bool"
  GHoldLabel :: string

record gate_reads =
  ReadDetail :: "PullRequestDetail option"
  ReadMergeability :: "PullRequestDetail option"
  ReadReviewEvents :: "ReviewEvent list option"
  ReadReviews :: "ReviewSummary list option"
  ReadComments :: "CommentInfo list option"
  ReadProtection :: "BranchProtection option"
  ReadChecks :: "CheckRuns option"
  ReadThreads :: "(string \<times> bool) list option"
  ReadLoops :: "ReviewerLoop list option"
  ReadHeadAndBase :: "(string \<times> string) option"
  ReadHead :: "string option"
  ReadLogin :: "string option"
  ReadMarker :: "(bool \<times> string) option"

record DiffBudgetEvidence =
  BudgetStats :: PullRequestDiffStats
  BudgetBaseSHA :: string
  BudgetBounds :: GatekeeperDiffBudget

record Evidence =
  EState :: string
  EClosedAt :: string
  EMergedAt :: string
  EDraft :: bool
  EBaseRefName :: string
  EBaseSHA :: string
  EMergeable :: "bool option"
  EMergeableState :: string
  ERequiredChecks :: "string list"
  EChecks :: "CheckEvidence list"
  ERequiredApprovals :: int
  EReviewDecision :: string
  ECodexReview :: "CodexReviewEvidence option"
  EUnresolved :: "string list"
  EHoldLabels :: "string list"
  EDoNotMergeVeto :: bool
  EDiffBudget :: "DiffBudgetEvidence option"
  EProtectedPaths :: "string list"
  EConvergence :: "ReviewerConvergenceEvidence option"
  EPolicyPermits :: bool
  EFinalHead :: string
  EFinalBase :: string
  ECodexOutcome :: string
  EProvenance :: ReviewProvenance
  EChangedLines :: int
  EReviewRequired :: bool

record Report =
  RMode :: string
  RStatus :: string
  REligible :: bool
  RProjectID :: string
  RRepo :: string
  RIdentity :: string
  RPRNumber :: int
  RObservedHead :: string
  RReasons :: "Reason list"
  REvidence :: Evidence
  REvaluatedAt :: string
  RSourceFingerprint :: string
  RRouteEstablished :: "bool option"
  RPendingProjection :: bool

definition no_evidence :: Evidence where
  "no_evidence = \<lparr>EState = [], EClosedAt = [], EMergedAt = [], EDraft = False, EBaseRefName = [], EBaseSHA = [],
     EMergeable = None, EMergeableState = [], ERequiredChecks = [], EChecks = [], ERequiredApprovals = 0, EReviewDecision = [],
     ECodexReview = None, EUnresolved = [], EHoldLabels = [], EDoNotMergeVeto = False, EDiffBudget = None,
     EProtectedPaths = [], EConvergence = None, EPolicyPermits = False, EFinalHead = [], EFinalBase = [], ECodexOutcome = [],
     EProvenance = \<lparr>ProvStatus = ReviewProvenanceUnobserved, CompletedReviews = 0, Reviewers = [], Refusals = []\<rparr>,
     EChangedLines = 0, EReviewRequired = False\<rparr>"

definition new_report :: "gate_config \<Rightarrow> string \<Rightarrow> string \<Rightarrow> Report" where
  "new_report cfg now fingerprint = \<lparr>RMode = [], RStatus = ''blocked'', REligible = False, RProjectID = GProjectID cfg,
     RRepo = trim_space (GRepo cfg), RIdentity = GIdentity cfg, RPRNumber = GPRNumber cfg, RObservedHead = [], RReasons = [],
     REvidence = no_evidence, REvaluatedAt = now, RSourceFingerprint = fingerprint, RRouteEstablished = None,
     RPendingProjection = False\<rparr>"

definition evidence :: "(Evidence \<Rightarrow> Evidence) \<Rightarrow> Report \<Rightarrow> Report" where
  "evidence f rep = rep\<lparr>REvidence := f (REvidence rep)\<rparr>"

definition add_reasons :: "Reason list \<Rightarrow> Report \<Rightarrow> Report" where
  "add_reasons rs rep = rep\<lparr>RReasons := RReasons rep @ rs\<rparr>"

definition waive_review :: "Report \<Rightarrow> Report" where
  "waive_review rep = rep\<lparr>RReasons := withoutReasonCodes (RReasons rep) [ReasonCodexReviewMissing, ReasonCodexReviewRequired]\<rparr>"

text \<open>A report that is returned at once, with one reason.\<close>

definition stopped :: "ReasonCode \<Rightarrow> string \<Rightarrow> Report \<Rightarrow> Report + 'a" where
  "stopped code subject rep = Inl (rep\<lparr>RReasons := [reason code subject]\<rparr>)"

section \<open>The gates\<close>

definition trustFor :: "gate_config \<Rightarrow> GatekeeperTrustLevel" where
  "trustFor cfg = trust_of (GTrust cfg)"

definition budgetEnabled :: "gate_config \<Rightarrow> bool" where
  "budgetEnabled cfg \<longleftrightarrow> MaxChangedFiles (GBudget cfg) > 0 \<or> MaxDeletions (GBudget cfg) > 0"

definition reviewThreshold :: "gate_config \<Rightarrow> int" where
  "reviewThreshold cfg = requiredReviewChangedLinesFor (GReviewLines cfg)"

definition reviewPolicyEnabled :: "gate_config \<Rightarrow> bool" where
  "reviewPolicyEnabled cfg \<longleftrightarrow> trustFor cfg = GatekeeperTrustAuto \<and> reviewThreshold cfg > 0"

definition view_gate :: "gate_config \<Rightarrow> PullRequestDetail option \<Rightarrow> Report \<Rightarrow> Report + Report \<times> PullRequestDetail" where
  "view_gate cfg read rep = (case read of
     None \<Rightarrow> stopped ReasonProviderStateUnavailable ''pull_request'' rep
   | Some d \<Rightarrow>
     let lines = max (DAdditions d) 0 + max (DDeletions d) 0;
         rep = evidence (\<lambda>e. e\<lparr>EState := to_upper (trim_space (DState d)), EClosedAt := trim_space (DClosedAt d),
           EMergedAt := trim_space (DMergedAt d), EDraft := DIsDraft d, EBaseRefName := trim_space (DBaseRefName d),
           EBaseSHA := trim_space (DBaseSHA d), EReviewDecision := to_upper (trim_space (DReviewDecision d)),
           EChangedLines := lines, EReviewRequired := reviewPolicyEnabled cfg \<and> lines \<ge> reviewThreshold cfg\<rparr>)
           (rep\<lparr>RObservedHead := trim_space (DHeadSHA d)\<rparr>) in
     if trim_space (GExpectedHeadSHA cfg) \<noteq> [] \<and> RObservedHead rep \<noteq> trim_space (GExpectedHeadSHA cfg)
     then stopped ReasonHeadStale [] rep
     else if trim_space (GExpectedBaseSHA cfg) \<noteq> [] \<and> EBaseSHA (REvidence rep) \<noteq> trim_space (GExpectedBaseSHA cfg)
     then stopped ReasonBaseStale [] rep
     else if DNumber d \<noteq> GPRNumber cfg \<or> RObservedHead rep = [] \<or> EBaseRefName (REvidence rep) = []
     then stopped ReasonProviderStateAmbiguous ''pull_request'' rep
     else Inr (rep, d))"

definition codex_gate :: "gate_config \<Rightarrow> ReviewEvent list option \<Rightarrow> Report \<Rightarrow> Report + Report \<times> CodexReviewEvidence" where
  "codex_gate cfg read rep = (case read of
     None \<Rightarrow> stopped ReasonProviderStateUnavailable ''codex_review''
       (evidence (\<lambda>e. e\<lparr>ECodexReview := Some (no_review (RObservedHead rep))\<rparr>) rep)
   | Some events \<Rightarrow>
     let ev = latestCodexReviewForHead (GProjectID cfg) (trim_space (GRepo cfg)) (GPRNumber cfg) (RObservedHead rep) events;
         outcome = to_lower (trim_space (RevOutcome ev));
         rep = evidence (\<lambda>e. e\<lparr>ECodexReview := Some ev, ECodexOutcome := outcome\<rparr>) rep;
         rep = (if CurrentHeadValid ev then rep else add_reasons [reason ReasonCodexReviewMissing (codexReviewReasonSubject ev)] rep);
         rep = (if CurrentHeadValid ev \<and> outcome = ''blocking'' then add_reasons [reason ReasonCodexReviewBlocked outcome] rep else rep);
         rep = (if trustFor cfg = GatekeeperTrustAuto \<and> \<not> EReviewRequired (REvidence rep) then waive_review rep else rep)
     in Inr (rep, ev))"

definition local_gates :: "gate_config \<Rightarrow> PullRequestDetail \<Rightarrow> ReviewProvenance \<Rightarrow> Report \<Rightarrow> Report" where
  "local_gates cfg d provenance rep =
     (let protected = matchedProtectedPaths (DChangedFiles d) (GProtected cfg);
          held = Has (DLabels d) (GHoldLabel cfg);
          veto = Has (DLabels d) Labels.DoNotMerge;
          permits = GPermits cfg (EBaseRefName (REvidence rep));
          rep = evidence (\<lambda>e. e\<lparr>EProvenance := provenance, EProtectedPaths := protected,
            EHoldLabels := (if held then EHoldLabels e @ [GHoldLabel cfg] else EHoldLabels e),
            EDoNotMergeVeto := (if veto then True else EDoNotMergeVeto e), EPolicyPermits := permits\<rparr>) rep
      in add_reasons
        ((if protected \<noteq> [] then [reason ReasonProtectedPathTouched (protectedPathReasonSubject protected)] else [])
         @ (if EState (REvidence rep) \<noteq> ''OPEN'' then [reason ReasonPullRequestNotOpen []] else [])
         @ (if DIsDraft d then [reason ReasonPullRequestDraft []] else [])
         @ (if held then [reason ReasonHold (GHoldLabel cfg)] else [])
         @ (if veto then [reason ReasonDoNotMerge Labels.DoNotMerge] else [])
         @ (if permits then [] else [reason ReasonProjectPolicyDenied []])) rep)"

definition mergeability_gate ::
  "gate_config \<Rightarrow> PullRequestDetail option \<Rightarrow> Report \<Rightarrow> Report + Report \<times> PullRequestDetail" where
  "mergeability_gate cfg read rep = (case read of
     None \<Rightarrow> stopped ReasonProviderStateUnavailable ''mergeability'' rep
   | Some m \<Rightarrow>
     if trim_space (DHeadSHA m) \<noteq> RObservedHead rep
     then stopped ReasonHeadStale []
       (evidence (\<lambda>e. e\<lparr>EFinalHead := trim_space (DHeadSHA m), EFinalBase := trim_space (DBaseSHA m)\<rparr>) rep)
     else
       let state = DMergeableState m;
           rep = evidence (\<lambda>e. e\<lparr>EMergeable := DMergeable m, EMergeableState := state\<rparr>) rep in
       (case DMergeable m of
          None \<Rightarrow> stopped ReasonProviderStateAmbiguous ''mergeability'' rep
        | Some mergeable \<Rightarrow>
          if IsUnknown state then stopped ReasonProviderStateAmbiguous ''mergeability'' rep
          else if \<not> mergeable \<or> HasConflict state then Inr (add_reasons [reason ReasonMergeConflict []] rep, m)
          else if IsAmbiguousPolicyState state
          then (if trustFor cfg \<noteq> GatekeeperTrustAuto \<or> state \<noteq> ''blocked''
                then Inr (add_reasons [reason ReasonProviderStateAmbiguous (''mergeability:'' @ state)] rep, m) else Inr (rep, m))
          else if \<not> IsClean state then Inr (add_reasons [reason ReasonMergeabilityNotClean state] rep, m)
          else Inr (rep, m)))"

text \<open>
  The observation the size-dependent gates accept: the one of the mergeability read when the base
  moved since the first.
\<close>

definition sized_by :: "PullRequestDetail \<Rightarrow> PullRequestDetail \<Rightarrow> PullRequestDetail" where
  "sized_by d m = (if trim_space (DBaseSHA m) \<noteq> trim_space (DBaseSHA d) then m else d)"

definition reviewCapacityStatsKnown :: "PullRequestDetail \<Rightarrow> bool" where
  "reviewCapacityStatsKnown s \<longleftrightarrow> (DAdditionsKnown s \<or> DAdditions s \<noteq> 0) \<and> (DDeletionsKnown s \<or> DDeletions s \<noteq> 0)"

definition capacity_gate ::
  "gate_config \<Rightarrow> PullRequestDetail \<Rightarrow> PullRequestDetail \<Rightarrow> CodexReviewEvidence \<Rightarrow> Report \<Rightarrow> Report + Report" where
  "capacity_gate cfg d m codex rep =
     (if \<not> reviewPolicyEnabled cfg then Inr rep
      else
        let s = sized_by d m in
        if trim_space (DBaseSHA s) \<noteq> [] \<and> \<not> reviewCapacityStatsKnown s
        then stopped ReasonProviderStateUnavailable ''review_capacity_stats'' rep
        else
          let lines = max (DAdditions s) 0 + max (DDeletions s) 0; required = (lines \<ge> reviewThreshold cfg);
              rep = evidence (\<lambda>e. e\<lparr>EChangedLines := lines, EReviewRequired := required\<rparr>) rep;
              rep = (if required then rep else waive_review rep)
          in Inr (if required \<and> \<not> CurrentHeadValid codex \<and> \<not> hasReasonCode (RReasons rep) ReasonCodexReviewMissing
                  then add_reasons [reason ReasonCodexReviewMissing (codexReviewReasonSubject codex)] rep else rep))"

definition budget_gate :: "gate_config \<Rightarrow> PullRequestDetail \<Rightarrow> PullRequestDetail \<Rightarrow> Report \<Rightarrow> Report + Report" where
  "budget_gate cfg d m rep =
     (if \<not> budgetEnabled cfg then Inr rep
      else case DDiffStats (sized_by d m) of
        None \<Rightarrow> stopped ReasonProviderStateUnavailable ''diff_stats'' rep
      | Some stats \<Rightarrow>
        let base = trim_space (DBaseSHA (sized_by d m)) in
        if base = [] then stopped ReasonProviderStateAmbiguous ''diff_budget_base'' rep
        else
          let subject = diffBudgetExceededSubject stats (GBudget cfg);
              rep = evidence (\<lambda>e. e\<lparr>EDiffBudget := Some \<lparr>BudgetStats = stats, BudgetBaseSHA = base, BudgetBounds = GBudget cfg\<rparr>\<rparr>) rep
          in Inr (if subject \<noteq> [] then add_reasons [reason ReasonDiffBudgetExceeded subject] rep else rep))"

definition capacity_base_gate :: "gate_config \<Rightarrow> PullRequestDetail \<Rightarrow> PullRequestDetail \<Rightarrow> Report \<Rightarrow> Report + Report" where
  "capacity_base_gate cfg d m rep =
     (if reviewPolicyEnabled cfg \<and> trim_space (DBaseSHA (sized_by d m)) = []
      then stopped ReasonProviderStateAmbiguous ''review_capacity_base'' rep else Inr rep)"

definition required_rules :: "BranchProtection \<Rightarrow> RequiredCheckRule list" where
  "required_rules protection =
     (if RequiredCheckRules protection = []
      then map (\<lambda>name. \<lparr>RuleContext = name, RuleAppID = 0\<rparr>) (sortedUnique (RequiredChecks protection))
      else RequiredCheckRules protection)"

definition judged_rules :: "gate_config \<Rightarrow> BranchProtection \<Rightarrow> RequiredCheckRule list" where
  "judged_rules cfg protection =
     (if trustFor cfg = GatekeeperTrustAuto then withoutRequiredCheck (required_rules protection) RequiredStatusContext
      else required_rules protection)"

definition own_status_reasons :: "gate_config \<Rightarrow> BranchProtection \<Rightarrow> Reason list" where
  "own_status_reasons cfg protection =
     (if trustFor cfg \<noteq> GatekeeperTrustAuto then []
      else (if containsRequiredCheck (sortedUnique (RequiredChecks protection)) RequiredStatusContext then []
            else [reason ReasonGatekeeperCheckRequired RequiredStatusContext])
        @ map (\<lambda>rule. reason ReasonGatekeeperCheckRequired (requiredCheckSubject (RuleContext rule) (RuleAppID rule)))
            (filter (\<lambda>rule. equal_fold (trim_space (RuleContext rule)) RequiredStatusContext \<and> RuleAppID rule \<noteq> 0)
              (required_rules protection)))"

definition checks_gate ::
  "gate_config \<Rightarrow> BranchProtection option \<Rightarrow> CheckRuns option \<Rightarrow> Report \<Rightarrow> Report + Report \<times> BranchProtection" where
  "checks_gate cfg read_protection read_checks rep = (case read_protection of
     None \<Rightarrow> stopped ReasonProviderStateUnavailable ''branch_protection'' rep
   | Some protection \<Rightarrow>
     let rep = evidence (\<lambda>e. e\<lparr>ERequiredChecks := sortedUnique (RequiredChecks protection),
           ERequiredApprovals := RequiredApprovingReviewCount protection\<rparr>) rep in
     (case read_checks of
        None \<Rightarrow> stopped ReasonProviderStateUnavailable ''checks'' rep
      | Some checks \<Rightarrow>
        if TotalCount checks > int (length (Runs checks)) then stopped ReasonProviderStateAmbiguous ''checks_truncated'' rep
        else case evaluateRequiredChecks (judged_rules cfg protection) checks of (reasons, found) \<Rightarrow>
          Inr (add_reasons (own_status_reasons cfg protection @ reasons) (evidence (\<lambda>e. e\<lparr>EChecks := found\<rparr>) rep), protection)))"

definition review_decision_gate :: "BranchProtection \<Rightarrow> Report \<Rightarrow> Report" where
  "review_decision_gate protection rep =
     (let decision = EReviewDecision (REvidence rep) in
      add_reasons (if decision = ''CHANGES_REQUESTED'' then [reason ReasonReviewChangesRequested []]
        else if decision = ''REVIEW_REQUIRED'' then [reason ReasonReviewRequired []]
        else if (HasRequiredReviews protection \<or> RequiredApprovingReviewCount protection > 0) \<and> decision \<noteq> ''APPROVED''
        then [reason ReasonReviewRequired []] else []) rep)"

definition threads_gate :: "(string \<times> bool) list option \<Rightarrow> Report \<Rightarrow> Report + Report" where
  "threads_gate read rep = (case read of
     None \<Rightarrow> stopped ReasonProviderStateUnavailable ''review_threads'' rep
   | Some threads \<Rightarrow>
     if length threads = 1000 then stopped ReasonProviderStateAmbiguous ''review_threads'' rep
     else
       let unresolved = map fst (filter (\<lambda>(_, resolved). \<not> resolved) threads) in
       Inr (add_reasons (map (reason ReasonUnresolvedReviewThread) unresolved)
             (evidence (\<lambda>e. e\<lparr>EUnresolved := sort (EUnresolved e @ unresolved)\<rparr>) rep)))"

definition convergence_gate :: "gate_config \<Rightarrow> ReviewerLoop list option \<Rightarrow> Report \<Rightarrow> Report + Report" where
  "convergence_gate cfg read rep = (case read of
     None \<Rightarrow> stopped ReasonProviderStateUnavailable ''reviewer_convergence'' rep
   | Some loops \<Rightarrow>
     (case latestReviewerConvergence (GProjectID cfg) (RObservedHead rep) loops of
        None \<Rightarrow> Inr rep
      | Some ev \<Rightarrow>
        let rep = evidence (\<lambda>e. e\<lparr>EConvergence := Some ev\<rparr>) rep in
        Inr (if reviewerConvergenceBlocks ev
             then add_reasons [reason ReasonReviewerConvergence (reviewerConvergenceReasonSubject ev)] rep else rep)))"

definition clean_comment :: "Report \<Rightarrow> bool" where
  "clean_comment rep \<longleftrightarrow> (case ECodexReview (REvidence rep) of
     None \<Rightarrow> False
   | Some ev \<Rightarrow> CurrentHeadValid ev \<and> RevEvent ev = ''COMMENT'' \<and> equal_fold (trim_space (RevOutcome ev)) ''clean'')"

definition marker_gate :: "gate_config \<Rightarrow> string option \<Rightarrow> (bool \<times> string) option \<Rightarrow> Report \<Rightarrow> Report + Report" where
  "marker_gate cfg read_login read_marker rep =
     (if trustFor cfg \<noteq> GatekeeperTrustAuto then Inr rep
      else
        let rep = (if reviewPolicyEnabled cfg then rep else waive_review rep) in
        (case read_login of
           None \<Rightarrow> stopped ReasonProviderStateUnavailable ''codex_reviewer_identity'' rep
         | Some login \<Rightarrow>
           if trim_space login = [] then stopped ReasonProviderStateUnavailable ''codex_reviewer_identity'' rep
           else (case read_marker of
             None \<Rightarrow> stopped ReasonProviderStateUnavailable ''codex_review'' rep
           | Some (True, out) \<Rightarrow>
             let outcome = to_lower (trim_space out);
                 rep = rep\<lparr>RReasons := withoutReasonCodes (RReasons rep) [ReasonCodexReviewMissing]\<rparr>;
                 rep = evidence (\<lambda>e. e\<lparr>ECodexOutcome := outcome\<rparr>) rep
             in Inr (if outcome = ''blocking'' then add_reasons [reason ReasonCodexReviewBlocked outcome] rep else rep)
           | Some (False, _) \<Rightarrow>
             if clean_comment rep then Inr (evidence (\<lambda>e. e\<lparr>ECodexOutcome := ''clean''\<rparr>) rep)
             else if EReviewRequired (REvidence rep) \<and>
               \<not> equal_fold (trim_space (case ECodexReview (REvidence rep) of Some ev \<Rightarrow> RevOutcome ev | None \<Rightarrow> [])) ''blocking''
             then Inr (add_reasons [reason ReasonCodexReviewRequired ''current_head''] rep)
             else Inr rep)))"

definition baseSensitive :: "gate_config \<Rightarrow> bool" where
  "baseSensitive cfg \<longleftrightarrow> budgetEnabled cfg \<or> reviewPolicyEnabled cfg \<or> GProtected cfg \<noteq> []"

text \<open>The final read: head and base when some gate depends on the base, the head alone otherwise.\<close>

definition final_read :: "gate_config \<Rightarrow> gate_reads \<Rightarrow> Report \<Rightarrow> (string \<times> string) option" where
  "final_read cfg rd rep = (if baseSensitive cfg then ReadHeadAndBase rd
     else map_option (\<lambda>h. (h, EBaseSHA (REvidence rep))) (ReadHead rd))"

definition revalidation_gate ::
  "gate_config \<Rightarrow> PullRequestDetail \<Rightarrow> PullRequestDetail \<Rightarrow> (string \<times> string) option \<Rightarrow> Report \<Rightarrow> Report + Report" where
  "revalidation_gate cfg d m read rep = (case read of
     None \<Rightarrow> stopped ReasonProviderStateUnavailable ''head_revalidation'' rep
   | Some (finalHead, finalBase) \<Rightarrow>
     let rep = evidence (\<lambda>e. e\<lparr>EFinalHead := trim_space finalHead, EFinalBase := trim_space finalBase\<rparr>) rep in
     if trim_space finalHead = [] then stopped ReasonProviderStateAmbiguous ''head_revalidation'' rep
     else if trim_space finalBase = [] then stopped ReasonProviderStateAmbiguous ''base_revalidation'' rep
     else
       let rep = (if trim_space finalHead \<noteq> RObservedHead rep then add_reasons [reason ReasonHeadStale []] rep else rep);
           sizedBase = trim_space (DBaseSHA (sized_by d m)) in
       if budgetEnabled cfg \<and> sizedBase \<noteq> [] \<and> trim_space finalBase \<noteq> sizedBase
       then stopped ReasonProviderStateAmbiguous ''diff_budget_base'' rep
       else if reviewPolicyEnabled cfg \<and> trim_space finalBase \<noteq> sizedBase
       then stopped ReasonProviderStateAmbiguous ''review_capacity_base'' rep
       else Inr (if \<not> budgetEnabled cfg \<and> GProtected cfg \<noteq> [] \<and> trim_space finalBase \<noteq> EBaseSHA (REvidence rep)
                 then add_reasons [reason ReasonBaseStale []] rep else rep))"

section \<open>The evaluation\<close>

definition run_gates :: "gate_config \<Rightarrow> gate_reads \<Rightarrow> Report \<Rightarrow> Report + Report" where
  "run_gates cfg rd rep =
     bind_result (view_gate cfg (ReadDetail rd) rep) (\<lambda>(rep, d).
     bind_result (codex_gate cfg (ReadReviewEvents rd) rep) (\<lambda>(rep, codex).
     bind_result (mergeability_gate cfg (ReadMergeability rd)
       (local_gates cfg d (observeReviewProvenance (ReadReviews rd) (ReadComments rd)) rep)) (\<lambda>(rep, m).
     bind_result (capacity_gate cfg d m codex rep) (\<lambda>rep.
     bind_result (budget_gate cfg d m rep) (\<lambda>rep.
     bind_result (capacity_base_gate cfg d m rep) (\<lambda>rep.
     bind_result (checks_gate cfg (ReadProtection rd) (ReadChecks rd) rep) (\<lambda>(rep, protection).
     bind_result (threads_gate (ReadThreads rd) (review_decision_gate protection rep)) (\<lambda>rep.
     bind_result (convergence_gate cfg (ReadLoops rd) rep) (\<lambda>rep.
     bind_result (marker_gate cfg (ReadLogin rd) (ReadMarker rd) rep) (\<lambda>rep.
     revalidation_gate cfg d m (final_read cfg rd rep) rep))))))))))"

text \<open>The verdict that \<open>persist\<close> stamps on any report, returned early or not.\<close>

definition stamp :: "gate_config \<Rightarrow> Report \<Rightarrow> Report" where
  "stamp cfg rep =
     (let rep = rep\<lparr>RReasons := sortReasons (RReasons rep)\<rparr> in
      rep\<lparr>REligible := (RReasons rep = []), RStatus := (if RReasons rep = [] then ''eligible'' else ''blocked''),
          RMode := trust_name (trustFor cfg), RRouteEstablished := Some False\<rparr>)"

datatype gate_input_error = GateInputMissing

definition EvaluatePullRequest :: "gate_config \<Rightarrow> string \<Rightarrow> string \<Rightarrow> gate_reads \<Rightarrow> gate_input_error + Report" where
  "EvaluatePullRequest cfg now fingerprint rd =
     (if trim_space (GProjectID cfg) = [] \<or> trim_space (GRepo cfg) = [] \<or> GPRNumber cfg \<le> 0 then Inl GateInputMissing
      else Inr (stamp cfg (case run_gates cfg rd (new_report cfg now fingerprint) of Inl rep \<Rightarrow> rep | Inr rep \<Rightarrow> rep)))"

section \<open>Reasons along the gates\<close>

text \<open>
  Only the two codes of a missing review are ever taken back; \<open>no_hard\<close> says a report carries no
  other reason.
\<close>

definition soft :: "Reason \<Rightarrow> bool" where
  "soft r \<longleftrightarrow> Code r \<in> {ReasonCodexReviewMissing, ReasonCodexReviewRequired}"

definition no_hard :: "Report \<Rightarrow> bool" where
  "no_hard rep \<longleftrightarrow> (\<forall>r\<in>set (RReasons rep). soft r)"

lemma report_updates [simp]:
  "REvidence (evidence f rep) = f (REvidence rep)" "RObservedHead (evidence f rep) = RObservedHead rep"
  "RReasons (evidence f rep) = RReasons rep" "REvidence (add_reasons rs rep) = REvidence rep"
  "RObservedHead (add_reasons rs rep) = RObservedHead rep" "RReasons (add_reasons rs rep) = RReasons rep @ rs"
  "REvidence (waive_review rep) = REvidence rep" "RObservedHead (waive_review rep) = RObservedHead rep"
  by (simp_all add: evidence_def add_reasons_def waive_review_def)

lemma no_hard_updates [simp]:
  "no_hard (evidence f rep) = no_hard rep" "no_hard (add_reasons rs rep) \<longleftrightarrow> no_hard rep \<and> (\<forall>r\<in>set rs. soft r)"
  "no_hard (waive_review rep) = no_hard rep" "no_hard (rep\<lparr>RObservedHead := h\<rparr>) = no_hard rep"
  "no_hard (rep\<lparr>RReasons := withoutReasonCodes (RReasons rep) [ReasonCodexReviewMissing]\<rparr>) = no_hard rep"
  by (auto simp: no_hard_def waive_review_def withoutReasonCodes_def soft_def)

lemma ball_set_if:
  "(\<forall>x\<in>set (if b then xs else ys). P x) = (if b then (\<forall>x\<in>set xs. P x) else (\<forall>x\<in>set ys. P x))"
  by simp

lemma stopped_not_Inr [simp]: "stopped code subject rep \<noteq> Inr x"
  by (simp add: stopped_def)

lemma stopped_reasons: "stopped code subject rep = Inl rep' \<Longrightarrow> RReasons rep' \<noteq> []"
  by (auto simp: stopped_def)

text \<open>The facts the later gates may not touch.\<close>

definition keeps :: "Report \<Rightarrow> Report \<Rightarrow> bool" where
  "keeps rep rep' \<longleftrightarrow> RObservedHead rep' = RObservedHead rep \<and> EState (REvidence rep') = EState (REvidence rep)
     \<and> EBaseRefName (REvidence rep') = EBaseRefName (REvidence rep) \<and> EBaseSHA (REvidence rep') = EBaseSHA (REvidence rep)
     \<and> EReviewDecision (REvidence rep') = EReviewDecision (REvidence rep)
     \<and> ECodexReview (REvidence rep') = ECodexReview (REvidence rep)"

lemma keeps_trans: "keeps a b \<Longrightarrow> keeps b c \<Longrightarrow> keeps a c"
  by (simp add: keeps_def)

definition extends :: "Report \<Rightarrow> Report \<Rightarrow> bool" where
  "extends rep rep' \<longleftrightarrow> keeps rep rep' \<and> EReviewRequired (REvidence rep') = EReviewRequired (REvidence rep)
     \<and> set (RReasons rep) \<subseteq> set (RReasons rep')"

lemma extends_trans: "extends a b \<Longrightarrow> extends b c \<Longrightarrow> extends a c"
  unfolding extends_def by (blast intro: keeps_trans order_trans elim: trans)

lemma extends_keeps: "extends a b \<Longrightarrow> keeps a b"
  by (simp add: extends_def)

lemma view_gate_ok:
  assumes "view_gate cfg read rep = Inr (rep', d)"
  shows "read = Some d" and "RObservedHead rep' = trim_space (DHeadSHA d)" and "RObservedHead rep' \<noteq> []"
    and "EState (REvidence rep') = to_upper (trim_space (DState d))"
    and "EBaseRefName (REvidence rep') = trim_space (DBaseRefName d)" and "EBaseSHA (REvidence rep') = trim_space (DBaseSHA d)"
    and "EReviewDecision (REvidence rep') = to_upper (trim_space (DReviewDecision d))"
    and "no_hard rep' = no_hard rep" and "RReasons rep' = RReasons rep"
  using assms by (auto simp: view_gate_def Let_def split: option.splits if_splits)

lemma codex_gate_ok:
  assumes "codex_gate cfg read rep = Inr (rep', ev)"
  shows "\<exists>events. read = Some events \<and> ev = latestCodexReviewForHead (GProjectID cfg) (trim_space (GRepo cfg)) (GPRNumber cfg) (RObservedHead rep) events"
    and "ECodexReview (REvidence rep') = Some ev" and "RObservedHead rep' = RObservedHead rep"
    and "EState (REvidence rep') = EState (REvidence rep)" and "EBaseRefName (REvidence rep') = EBaseRefName (REvidence rep)"
    and "EBaseSHA (REvidence rep') = EBaseSHA (REvidence rep)" and "EReviewDecision (REvidence rep') = EReviewDecision (REvidence rep)"
    and "no_hard rep' \<Longrightarrow> no_hard rep \<and> (CurrentHeadValid ev \<longrightarrow> to_lower (trim_space (RevOutcome ev)) \<noteq> ''blocking'')"
  using assms by (auto simp: codex_gate_def Let_def soft_def split: option.splits if_splits)

lemma local_gates_ok:
  shows "extends rep (local_gates cfg d pv rep)"
    and "no_hard (local_gates cfg d pv rep) \<longleftrightarrow> no_hard rep \<and> matchedProtectedPaths (DChangedFiles d) (GProtected cfg) = []
      \<and> EState (REvidence rep) = ''OPEN'' \<and> \<not> DIsDraft d \<and> \<not> Has (DLabels d) (GHoldLabel cfg)
      \<and> \<not> Has (DLabels d) Labels.DoNotMerge \<and> GPermits cfg (EBaseRefName (REvidence rep))"
  by (simp add: local_gates_def Let_def keeps_def extends_def)
    (simp add: local_gates_def Let_def soft_def ball_Un ball_set_if)

lemma mergeability_gate_ok:
  assumes "mergeability_gate cfg read rep = Inr (rep', m)"
  shows "read = Some m" and "trim_space (DHeadSHA m) = RObservedHead rep" and "extends rep rep'"
    and "no_hard rep' \<Longrightarrow> no_hard rep \<and> DMergeable m = Some True \<and>
      (DMergeableState m = ''clean'' \<or> trustFor cfg = GatekeeperTrustAuto \<and> DMergeableState m = ''blocked'')"
  using assms by (auto simp: mergeability_gate_def Let_def keeps_def extends_def soft_def IsClean_def IsAmbiguousPolicyState_def
      HasConflict_def split: option.splits if_splits)

lemma capacity_gate_ok:
  assumes "capacity_gate cfg d m codex rep = Inr rep'"
  shows "keeps rep rep'" and "no_hard rep' \<Longrightarrow> no_hard rep"
  using assms by (auto simp: capacity_gate_def Let_def keeps_def soft_def split: if_splits)

lemma budget_gate_ok:
  assumes "budget_gate cfg d m rep = Inr rep'"
  shows "extends rep rep'" and "no_hard rep' \<Longrightarrow> no_hard rep"
    and "no_hard rep' \<Longrightarrow> budgetEnabled cfg \<Longrightarrow> \<exists>stats. DDiffStats (sized_by d m) = Some stats
      \<and> trim_space (DBaseSHA (sized_by d m)) \<noteq> [] \<and> diffBudgetExceededSubject stats (GBudget cfg) = []"
  using assms by (auto simp: budget_gate_def Let_def keeps_def extends_def soft_def split: if_splits option.splits)

lemma capacity_base_gate_ok: "capacity_base_gate cfg d m rep = Inr rep' \<Longrightarrow> rep' = rep"
  by (simp add: capacity_base_gate_def split: if_splits)

lemma checks_gate_ok:
  assumes "checks_gate cfg rp rc rep = Inr (rep', pr)"
  shows "rp = Some pr" and "extends rep rep'" and "no_hard rep' \<Longrightarrow> no_hard rep"
    and "no_hard rep' \<Longrightarrow> \<exists>checks. rc = Some checks \<and> TotalCount checks \<le> int (length (Runs checks))
      \<and> (\<forall>rule\<in>set (judged_rules cfg pr). rule_satisfied checks rule)"
    and "no_hard rep' \<Longrightarrow> own_status_reasons cfg pr = []"
proof -
  have sf: "(\<forall>r\<in>set (fst (evaluateRequiredChecks rules checks)). soft r) \<longleftrightarrow> fst (evaluateRequiredChecks rules checks) = []"
    for rules checks
  proof -
    have "\<not> soft r" if "r \<in> set (fst (evaluate_rule checks rule))" for r rule
      using that by (auto simp: evaluate_rule_def Let_def aggregateCheckRuns_def soft_def split: if_splits option.splits prod.splits bool.splits)
    then have "fst (evaluate_rule checks rule) = []" if "\<forall>r\<in>set (fst (evaluate_rule checks rule)). soft r" for rule
      using that by (metis list.set_intros(1) neq_Nil_conv)
    then show ?thesis by (auto simp: evaluateRequiredChecks_def)
  qed
  have own: "(\<forall>r\<in>set (own_status_reasons cfg pr). soft r) \<longleftrightarrow> own_status_reasons cfg pr = []"
    by (simp add: own_status_reasons_def soft_def ball_Un ball_set_if filter_empty_conv) blast
  from assms obtain checks where c: "rc = Some checks" "rp = Some pr" "TotalCount checks \<le> int (length (Runs checks))"
    and r: "RReasons rep' = RReasons rep @ own_status_reasons cfg pr @ fst (evaluateRequiredChecks (judged_rules cfg pr) checks)"
    and k: "extends rep rep'"
    by (auto simp: checks_gate_def Let_def keeps_def extends_def split: option.splits if_splits prod.splits)
  show "rp = Some pr" "extends rep rep'" using c k by simp_all
  assume "no_hard rep'"
  then have h: "no_hard rep" "own_status_reasons cfg pr = []" "fst (evaluateRequiredChecks (judged_rules cfg pr) checks) = []"
    using own sf unfolding no_hard_def r by auto
  show "no_hard rep" "own_status_reasons cfg pr = []" using h by simp_all
  show "\<exists>checks. rc = Some checks \<and> TotalCount checks \<le> int (length (Runs checks))
      \<and> (\<forall>rule\<in>set (judged_rules cfg pr). rule_satisfied checks rule)"
    using h(3) c required_checks_clean_iff by blast
qed

lemma review_decision_gate_ok:
  shows "extends rep (review_decision_gate pr rep)"
    and "no_hard (review_decision_gate pr rep) \<longleftrightarrow> no_hard rep
      \<and> EReviewDecision (REvidence rep) \<notin> {''CHANGES_REQUESTED'', ''REVIEW_REQUIRED''}
      \<and> (HasRequiredReviews pr \<or> RequiredApprovingReviewCount pr > 0 \<longrightarrow> EReviewDecision (REvidence rep) = ''APPROVED'')"
  by (auto simp: review_decision_gate_def Let_def keeps_def extends_def soft_def)

lemma threads_gate_ok:
  assumes "threads_gate read rep = Inr rep'"
  shows "extends rep rep'" and "no_hard rep' \<Longrightarrow> no_hard rep"
    and "no_hard rep' \<Longrightarrow> \<exists>threads. read = Some threads \<and> length threads \<noteq> 1000 \<and> (\<forall>t\<in>set threads. snd t)"
proof -
  have unresolved: "(\<forall>r\<in>set (map (reason ReasonUnresolvedReviewThread) (map fst (filter (\<lambda>(_, resolved). \<not> resolved) ts))). soft r)
      \<longleftrightarrow> (\<forall>t\<in>set ts. snd t)" for ts
    by (simp add: soft_def) (metis prod.collapse snd_conv)
  from assms obtain ts where ts: "read = Some ts" "length ts \<noteq> 1000"
    and rep': "rep' = add_reasons (map (reason ReasonUnresolvedReviewThread) (map fst (filter (\<lambda>(_, resolved). \<not> resolved) ts)))
      (evidence (\<lambda>e. e\<lparr>EUnresolved := sort (EUnresolved e @ map fst (filter (\<lambda>(_, resolved). \<not> resolved) ts))\<rparr>) rep)"
    by (simp add: threads_gate_def Let_def stopped_def split: option.splits if_splits)
  show "extends rep rep'" by (simp add: rep' keeps_def extends_def)
  assume n: "no_hard rep'"
  then have "\<forall>t\<in>set ts. snd t" unfolding rep' no_hard_updates unresolved by simp
  then show "\<exists>threads. read = Some threads \<and> length threads \<noteq> 1000 \<and> (\<forall>t\<in>set threads. snd t)" using ts by simp
  show "no_hard rep" using n by (simp add: rep')
qed

lemma convergence_gate_ok:
  assumes "convergence_gate cfg read rep = Inr rep'"
  shows "extends rep rep'" and "no_hard rep' \<Longrightarrow> no_hard rep"
    and "no_hard rep' \<Longrightarrow> \<exists>loops. read = Some loops \<and>
      (\<forall>ev. latestReviewerConvergence (GProjectID cfg) (RObservedHead rep) loops = Some ev \<longrightarrow> \<not> reviewerConvergenceBlocks ev)"
  using assms by (auto simp: convergence_gate_def Let_def keeps_def extends_def soft_def split: option.splits if_splits)

lemma marker_gate_ok:
  assumes "marker_gate cfg rl rm rep = Inr rep'"
  shows "keeps rep rep'" and "no_hard rep' \<Longrightarrow> no_hard rep"
    and "no_hard rep' \<Longrightarrow> trustFor cfg = GatekeeperTrustAuto \<Longrightarrow>
      \<exists>found out. rm = Some (found, out) \<and> (found \<longrightarrow> to_lower (trim_space out) \<noteq> ''blocking'')"
proof -
  have "keeps rep rep' \<and> (no_hard rep' \<longrightarrow> no_hard rep \<and> (trustFor cfg = GatekeeperTrustAuto \<longrightarrow>
      (\<exists>found out. rm = Some (found, out) \<and> (found \<longrightarrow> to_lower (trim_space out) \<noteq> ''blocking''))))"
  proof (cases "trustFor cfg = GatekeeperTrustAuto")
    case False
    then show ?thesis using assms by (simp add: marker_gate_def keeps_def)
  next
    case True
    then obtain login found out where r: "rl = Some login" "trim_space login \<noteq> []" "rm = Some (found, out)"
      using assms by (cases rl; cases rm) (auto simp: marker_gate_def Let_def split: if_splits)
    define rep1 where "rep1 = (if reviewPolicyEnabled cfg then rep else waive_review rep)"
    have k: "keeps rep rep1" "no_hard rep1 = no_hard rep" by (simp_all add: rep1_def keeps_def)
    show ?thesis
    proof (cases found)
      case f: True
      have "rep' = (let rep2 = evidence (\<lambda>e. e\<lparr>ECodexOutcome := to_lower (trim_space out)\<rparr>)
            (rep1\<lparr>RReasons := withoutReasonCodes (RReasons rep1) [ReasonCodexReviewMissing]\<rparr>) in
          if to_lower (trim_space out) = ''blocking''
          then add_reasons [reason ReasonCodexReviewBlocked (to_lower (trim_space out))] rep2 else rep2)"
        using assms True r f by (simp add: marker_gate_def rep1_def Let_def)
      then show ?thesis using k r by (simp add: Let_def keeps_def soft_def)
    next
      case f: False
      have "rep' = evidence (\<lambda>e. e\<lparr>ECodexOutcome := ''clean''\<rparr>) rep1
          \<or> rep' = add_reasons [reason ReasonCodexReviewRequired ''current_head''] rep1 \<or> rep' = rep1"
        using assms True r f by (simp add: marker_gate_def rep1_def [symmetric] Let_def split: if_split_asm)
      then show ?thesis using k r f by (elim disjE) (simp_all add: keeps_def soft_def ex_bool_eq)
    qed
  qed
  then show "keeps rep rep'" "no_hard rep' \<Longrightarrow> no_hard rep"
    "no_hard rep' \<Longrightarrow> trustFor cfg = GatekeeperTrustAuto \<Longrightarrow>
      \<exists>found out. rm = Some (found, out) \<and> (found \<longrightarrow> to_lower (trim_space out) \<noteq> ''blocking'')"
    by simp_all
qed

lemma revalidation_gate_ok:
  assumes "revalidation_gate cfg d m read rep = Inr rep'"
  shows "no_hard rep' \<Longrightarrow> no_hard rep" and "no_hard rep' \<Longrightarrow> \<exists>h b. read = Some (h, b) \<and> trim_space h = RObservedHead rep
      \<and> (budgetEnabled cfg \<and> trim_space (DBaseSHA (sized_by d m)) \<noteq> [] \<or> reviewPolicyEnabled cfg \<longrightarrow>
          trim_space b = trim_space (DBaseSHA (sized_by d m)))
      \<and> (\<not> budgetEnabled cfg \<and> GProtected cfg \<noteq> [] \<longrightarrow> trim_space b = EBaseSHA (REvidence rep))"
  using assms by (auto simp: revalidation_gate_def Let_def soft_def split: option.splits if_splits)

lemma codex_gate_review:
  assumes "codex_gate cfg read rep = Inr (rep', ev)"
  shows "trustFor cfg \<noteq> GatekeeperTrustAuto \<Longrightarrow> \<not> CurrentHeadValid ev \<Longrightarrow> hasReasonCode (RReasons rep') ReasonCodexReviewMissing"
    and "EReviewRequired (REvidence rep') = EReviewRequired (REvidence rep)"
  using assms by (auto simp: codex_gate_def Let_def hasReasonCode_def split: option.splits if_splits)

text \<open>Past the capacity gate a required review that is missing has its reason.\<close>

lemma capacity_gate_review:
  assumes "capacity_gate cfg d m codex rep = Inr rep'"
  shows "trustFor cfg \<noteq> GatekeeperTrustAuto \<Longrightarrow> rep' = rep"
    and "reviewPolicyEnabled cfg \<Longrightarrow>
      EReviewRequired (REvidence rep') = (max (DAdditions (sized_by d m)) 0 + max (DDeletions (sized_by d m)) 0 \<ge> reviewThreshold cfg)"
    and "reviewPolicyEnabled cfg \<Longrightarrow> EReviewRequired (REvidence rep') \<Longrightarrow> \<not> CurrentHeadValid codex \<Longrightarrow>
      hasReasonCode (RReasons rep') ReasonCodexReviewMissing"
  using assms by (auto simp: capacity_gate_def Let_def reviewPolicyEnabled_def hasReasonCode_def split: if_splits)

lemma hasReasonCode_mono: "hasReasonCode rs c \<Longrightarrow> set rs \<subseteq> set rs' \<Longrightarrow> hasReasonCode rs' c"
  by (auto simp: hasReasonCode_def list_ex_iff)

lemma marker_gate_review:
  assumes "marker_gate cfg rl rm rep = Inr rep'"
  shows "trustFor cfg \<noteq> GatekeeperTrustAuto \<Longrightarrow> rep' = rep"
    and "trustFor cfg = GatekeeperTrustAuto \<Longrightarrow> reviewPolicyEnabled cfg \<Longrightarrow> rm = Some (False, out) \<Longrightarrow> \<not> clean_comment rep \<Longrightarrow>
      extends rep rep' \<and> (EReviewRequired (REvidence rep) \<longrightarrow> hasReasonCode (RReasons rep') ReasonCodexReviewRequired
        \<or> equal_fold (trim_space (case ECodexReview (REvidence rep) of Some ev \<Rightarrow> RevOutcome ev | None \<Rightarrow> [])) ''blocking'')"
  using assms by (auto simp: marker_gate_def Let_def hasReasonCode_def extends_def keeps_def split: option.splits if_splits)

lemma revalidation_gate_grows:
  "revalidation_gate cfg d m read rep = Inr rep' \<Longrightarrow> set (RReasons rep) \<subseteq> set (RReasons rep') \<and> RObservedHead rep' = RObservedHead rep"
  by (auto simp: revalidation_gate_def Let_def split: option.splits if_splits)

section \<open>What an eligible report promises\<close>

definition changed_lines :: "PullRequestDetail \<Rightarrow> int" where
  "changed_lines s = max (DAdditions s) 0 + max (DDeletions s) 0"

text \<open>The observations of the pull request itself, with the head they are about.\<close>

definition change_allowed :: "gate_config \<Rightarrow> PullRequestDetail \<Rightarrow> PullRequestDetail \<Rightarrow> string \<Rightarrow> bool" where
  "change_allowed cfg d m head \<longleftrightarrow> head \<noteq> [] \<and> trim_space (DHeadSHA d) = head \<and> trim_space (DHeadSHA m) = head
     \<and> to_upper (trim_space (DState d)) = ''OPEN'' \<and> \<not> DIsDraft d
     \<and> \<not> Has (DLabels d) (GHoldLabel cfg) \<and> \<not> Has (DLabels d) Labels.DoNotMerge
     \<and> GPermits cfg (trim_space (DBaseRefName d)) \<and> matchedProtectedPaths (DChangedFiles d) (GProtected cfg) = []
     \<and> DMergeable m = Some True
     \<and> (DMergeableState m = ''clean'' \<or> trustFor cfg = GatekeeperTrustAuto \<and> DMergeableState m = ''blocked'')
     \<and> (budgetEnabled cfg \<longrightarrow> (\<exists>stats. DDiffStats (sized_by d m) = Some stats \<and> diffBudgetExceededSubject stats (GBudget cfg) = []))"

text \<open>The evidence on the forge: protection and checks, review decision, review threads.\<close>

definition evidence_allows ::
  "gate_config \<Rightarrow> PullRequestDetail \<Rightarrow> BranchProtection \<Rightarrow> CheckRuns \<Rightarrow> (string \<times> bool) list \<Rightarrow> bool" where
  "evidence_allows cfg d pr checks threads \<longleftrightarrow>
     own_status_reasons cfg pr = [] \<and> TotalCount checks \<le> int (length (Runs checks))
     \<and> (\<forall>rule\<in>set (judged_rules cfg pr). rule_satisfied checks rule)
     \<and> (let decision = to_upper (trim_space (DReviewDecision d)) in decision \<notin> {''CHANGES_REQUESTED'', ''REVIEW_REQUIRED''}
         \<and> (HasRequiredReviews pr \<or> RequiredApprovingReviewCount pr > 0 \<longrightarrow> decision = ''APPROVED''))
     \<and> length threads \<noteq> 1000 \<and> (\<forall>t\<in>set threads. snd t)"

text \<open>
  The review: a durable review event of this head, or, under auto trust, a marker that does not
  block, with a clean review required once the change reaches the configured size.
\<close>

definition review_allows ::
  "gate_config \<Rightarrow> PullRequestDetail \<Rightarrow> PullRequestDetail \<Rightarrow> ReviewEvent list \<Rightarrow> string \<Rightarrow> (bool \<times> string) option \<Rightarrow> bool" where
  "review_allows cfg d m events head marker \<longleftrightarrow>
     (let ev = latestCodexReviewForHead (GProjectID cfg) (trim_space (GRepo cfg)) (GPRNumber cfg) head events in
      (CurrentHeadValid ev \<longrightarrow> to_lower (trim_space (RevOutcome ev)) \<noteq> ''blocking'') \<and>
      (if trustFor cfg \<noteq> GatekeeperTrustAuto then CurrentHeadValid ev
       else \<exists>found out. marker = Some (found, out) \<and> (found \<longrightarrow> to_lower (trim_space out) \<noteq> ''blocking'')
         \<and> (reviewPolicyEnabled cfg \<and> changed_lines (sized_by d m) \<ge> reviewThreshold cfg \<longrightarrow>
             found \<or> CurrentHeadValid ev \<and> RevEvent ev = ''COMMENT'' \<and> equal_fold (trim_space (RevOutcome ev)) ''clean'')))"

text \<open>The final read: the head has not moved, nor the base the size-dependent gates were judged at.\<close>

definition final_allows :: "gate_config \<Rightarrow> gate_reads \<Rightarrow> PullRequestDetail \<Rightarrow> PullRequestDetail \<Rightarrow> string \<Rightarrow> bool" where
  "final_allows cfg rd d m head \<longleftrightarrow> (if baseSensitive cfg
     then \<exists>h b. ReadHeadAndBase rd = Some (h, b) \<and> trim_space h = head
       \<and> (budgetEnabled cfg \<or> reviewPolicyEnabled cfg \<longrightarrow> trim_space b = trim_space (DBaseSHA (sized_by d m)))
       \<and> (\<not> budgetEnabled cfg \<and> GProtected cfg \<noteq> [] \<longrightarrow> trim_space b = trim_space (DBaseSHA d))
     else \<exists>h. ReadHead rd = Some h \<and> trim_space h = head)"

definition merge_allowed :: "gate_config \<Rightarrow> gate_reads \<Rightarrow> string \<Rightarrow> bool" where
  "merge_allowed cfg rd head \<longleftrightarrow> (\<exists>d m events pr checks threads loops.
     ReadDetail rd = Some d \<and> ReadMergeability rd = Some m \<and> ReadReviewEvents rd = Some events
     \<and> ReadProtection rd = Some pr \<and> ReadChecks rd = Some checks \<and> ReadThreads rd = Some threads \<and> ReadLoops rd = Some loops
     \<and> change_allowed cfg d m head \<and> evidence_allows cfg d pr checks threads
     \<and> review_allows cfg d m events head (ReadMarker rd)
     \<and> (\<forall>ev. latestReviewerConvergence (GProjectID cfg) head loops = Some ev \<longrightarrow> \<not> reviewerConvergenceBlocks ev)
     \<and> final_allows cfg rd d m head)"

lemma bind_resultE:
  assumes "bind_result r f = Inr c"
  obtains a where "r = Inr a" "f a = Inr c"
  using assms by (auto simp: bind_result_Inr_iff)

lemma bind_result_pairE:
  assumes "bind_result r (\<lambda>(a, b). f a b) = Inr c"
  obtains a b where "r = Inr (a, b)" "f a b = Inr c"
  using assms by (auto simp: bind_result_Inr_iff)

text \<open>The reports between the gates of an evaluation that was not cut short.\<close>

lemma run_gatesE:
  assumes "run_gates cfg rd rep0 = Inr rep"
  obtains rep1 d rep2 codex rep3 m rep4 rep5 rep6 pr rep7 rep8 rep9 where
    "view_gate cfg (ReadDetail rd) rep0 = Inr (rep1, d)" "codex_gate cfg (ReadReviewEvents rd) rep1 = Inr (rep2, codex)"
    "mergeability_gate cfg (ReadMergeability rd)
       (local_gates cfg d (observeReviewProvenance (ReadReviews rd) (ReadComments rd)) rep2) = Inr (rep3, m)"
    "capacity_gate cfg d m codex rep3 = Inr rep4" "budget_gate cfg d m rep4 = Inr rep5" "capacity_base_gate cfg d m rep5 = Inr rep5"
    "checks_gate cfg (ReadProtection rd) (ReadChecks rd) rep5 = Inr (rep6, pr)"
    "threads_gate (ReadThreads rd) (review_decision_gate pr rep6) = Inr rep7" "convergence_gate cfg (ReadLoops rd) rep7 = Inr rep8"
    "marker_gate cfg (ReadLogin rd) (ReadMarker rd) rep8 = Inr rep9" "revalidation_gate cfg d m (final_read cfg rd rep9) rep9 = Inr rep"
proof -
  show thesis
    using assms unfolding run_gates_def
    by - ((erule bind_result_pairE)+, erule bind_resultE, erule bind_resultE, erule bind_resultE, erule bind_result_pairE,
      (erule bind_resultE)+, frule capacity_base_gate_ok, hypsubst, rule that)
qed

text \<open>
  The review the evaluation insists on, from the reports around the gates that judge it: between
  the capacity gate and the marker gate reasons are only added.
\<close>

lemma review_insisted:
  assumes codex: "codex_gate cfg rv rep1 = Inr (rep2, ev)" and ext: "extends rep2 rep3"
    and capacity: "capacity_gate cfg d m ev rep3 = Inr rep4" and ext': "extends rep4 rep8"
    and marker: "marker_gate cfg rl rm rep8 = Inr rep9" and "keeps rep2 rep8" and clean: "RReasons rep9 = []"
    and nb: "CurrentHeadValid ev \<longrightarrow> to_lower (trim_space (RevOutcome ev)) \<noteq> ''blocking''"
  shows "trustFor cfg \<noteq> GatekeeperTrustAuto \<Longrightarrow> CurrentHeadValid ev"
    and "reviewPolicyEnabled cfg \<Longrightarrow> changed_lines (sized_by d m) \<ge> reviewThreshold cfg \<Longrightarrow> rm = Some (False, out) \<Longrightarrow>
      CurrentHeadValid ev \<and> RevEvent ev = ''COMMENT'' \<and> equal_fold (trim_space (RevOutcome ev)) ''clean''"
proof -
  have no: "\<not> hasReasonCode (RReasons rep9) c" for c using clean by (simp add: hasReasonCode_def)
  assume t: "trustFor cfg \<noteq> GatekeeperTrustAuto"
  have "set (RReasons rep2) \<subseteq> set (RReasons rep9)"
    using ext ext' capacity_gate_review(1) [OF capacity t] marker_gate_review(1) [OF marker t] by (auto simp: extends_def)
  then show "CurrentHeadValid ev" using codex_gate_review(1) [OF codex t] no hasReasonCode_mono by blast
next
  assume p: "reviewPolicyEnabled cfg" and l: "changed_lines (sized_by d m) \<ge> reviewThreshold cfg" and rm: "rm = Some (False, out)"
  have auto_trust: "trustFor cfg = GatekeeperTrustAuto" using p by (simp add: reviewPolicyEnabled_def)
  have ev: "ECodexReview (REvidence rep8) = Some ev"
    using codex_gate_ok(2) [OF codex] \<open>keeps rep2 rep8\<close> by (simp add: keeps_def)
  have no: "\<not> hasReasonCode (RReasons rep9) c" for c using clean by (simp add: hasReasonCode_def)
  have required: "EReviewRequired (REvidence rep4)" "EReviewRequired (REvidence rep8)"
    using capacity_gate_review(2) [OF capacity p] l ext' by (simp_all add: changed_lines_def extends_def)
  have "clean_comment rep8"
  proof (rule ccontr)
    assume c: "\<not> clean_comment rep8"
    note mk = marker_gate_review(2) [OF marker auto_trust p rm c]
    have "equal_fold (trim_space (RevOutcome ev)) ''blocking''" using mk required(2) no ev by simp
    then have "\<not> CurrentHeadValid ev" using nb by (auto simp: equal_fold_def to_lower_def lower_char_def)
    then have "hasReasonCode (RReasons rep4) ReasonCodexReviewMissing"
      using capacity_gate_review(3) [OF capacity p required(1)] by simp
    then have "hasReasonCode (RReasons rep9) ReasonCodexReviewMissing"
      using ext' mk hasReasonCode_mono unfolding extends_def by (meson order_trans)
    then show False using no by simp
  qed
  then show "CurrentHeadValid ev \<and> RevEvent ev = ''COMMENT'' \<and> equal_fold (trim_space (RevOutcome ev)) ''clean''"
    using ev by (simp add: clean_comment_def)
qed

lemma run_gates_sound:
  assumes run: "run_gates cfg rd rep0 = Inr rep" and clean: "RReasons rep = []"
  shows "merge_allowed cfg rd (RObservedHead rep)"
proof -
  from run obtain rep1 d rep2 codex rep3 m rep4 rep5 rep6 pr rep7 rep8 rep9 where
    view: "view_gate cfg (ReadDetail rd) rep0 = Inr (rep1, d)" and codex: "codex_gate cfg (ReadReviewEvents rd) rep1 = Inr (rep2, codex)"
    and merge: "mergeability_gate cfg (ReadMergeability rd)
       (local_gates cfg d (observeReviewProvenance (ReadReviews rd) (ReadComments rd)) rep2) = Inr (rep3, m)"
    and capacity: "capacity_gate cfg d m codex rep3 = Inr rep4" and budget: "budget_gate cfg d m rep4 = Inr rep5"
    and checks: "checks_gate cfg (ReadProtection rd) (ReadChecks rd) rep5 = Inr (rep6, pr)"
    and threads: "threads_gate (ReadThreads rd) (review_decision_gate pr rep6) = Inr rep7"
    and conv: "convergence_gate cfg (ReadLoops rd) rep7 = Inr rep8"
    and marker: "marker_gate cfg (ReadLogin rd) (ReadMarker rd) rep8 = Inr rep9"
    and final: "revalidation_gate cfg d m (final_read cfg rd rep9) rep9 = Inr rep"
    by (rule run_gatesE)
  let ?local = "local_gates cfg d (observeReviewProvenance (ReadReviews rd) (ReadComments rd)) rep2"
  have n: "no_hard rep" using clean by (simp add: no_hard_def)
  note n9 = revalidation_gate_ok(1) [OF final n] and f9 = revalidation_gate_ok(2) [OF final n]
  note n8 = marker_gate_ok(2) [OF marker n9] and f8 = marker_gate_ok(3) [OF marker n9]
  note n7 = convergence_gate_ok(2) [OF conv n8] and f7 = convergence_gate_ok(3) [OF conv n8]
  note n6' = threads_gate_ok(2) [OF threads n7] and f6 = threads_gate_ok(3) [OF threads n7]
  have n6: "no_hard rep6" using n6' by (simp add: review_decision_gate_ok(2))
  note n5 = checks_gate_ok(3) [OF checks n6] and f5 = checks_gate_ok(4,5) [OF checks n6]
  note n4 = budget_gate_ok(2) [OF budget n5] and f4 = budget_gate_ok(3) [OF budget n5]
  note n3 = capacity_gate_ok(2) [OF capacity n4]
  have fl: "no_hard ?local" and f3: "DMergeable m = Some True"
      "DMergeableState m = ''clean'' \<or> trustFor cfg = GatekeeperTrustAuto \<and> DMergeableState m = ''blocked''"
    using mergeability_gate_ok(4) [OF merge n3] by simp_all
  have n2: "no_hard rep2" using fl by (simp add: local_gates_ok(2))
  note e48 = extends_trans [OF budget_gate_ok(1) [OF budget] extends_trans [OF checks_gate_ok(2) [OF checks]
    extends_trans [OF review_decision_gate_ok(1) extends_trans [OF threads_gate_ok(1) [OF threads] convergence_gate_ok(1) [OF conv]]]]]
  note e23 = extends_trans [OF local_gates_ok(1) mergeability_gate_ok(3) [OF merge]]
  note k34 = capacity_gate_ok(1) [OF capacity] and k89 = marker_gate_ok(1) [OF marker]
  have k28: "keeps rep2 rep8" using e23 e48 k34 by (meson extends_keeps keeps_trans)
  have k26: "keeps rep2 rep6" using e23 k34 budget_gate_ok(1) [OF budget] checks_gate_ok(2) [OF checks]
    by (meson extends_keeps keeps_trans)
  have k27: "keeps rep2 rep7"
    using k26 extends_keeps [OF review_decision_gate_ok(1)] extends_keeps [OF threads_gate_ok(1) [OF threads]] by (meson keeps_trans)
  define H where "H = trim_space (DHeadSHA d)"
  have h2: "RObservedHead rep2 = H" "RObservedHead rep1 = H" and e2: "EState (REvidence rep2) = to_upper (trim_space (DState d))"
      "EBaseRefName (REvidence rep2) = trim_space (DBaseRefName d)" "EBaseSHA (REvidence rep2) = trim_space (DBaseSHA d)"
      "EReviewDecision (REvidence rep2) = to_upper (trim_space (DReviewDecision d))"
    using view_gate_ok [OF view] codex_gate_ok [OF codex] by (simp_all add: H_def)
  have h: "RObservedHead rep7 = H" "RObservedHead rep9 = H" "RObservedHead rep = H" "EBaseSHA (REvidence rep9) = trim_space (DBaseSHA d)"
    "EReviewDecision (REvidence rep6) = to_upper (trim_space (DReviewDecision d))"
    using h2 e2 k26 k27 k28 k89 revalidation_gate_grows [OF final] by (simp_all add: keeps_def)
  obtain events where ev: "ReadReviewEvents rd = Some events"
      "codex = latestCodexReviewForHead (GProjectID cfg) (trim_space (GRepo cfg)) (GPRNumber cfg) H events"
    using codex_gate_ok(1) [OF codex] h2 by auto
  have "change_allowed cfg d m H"
    using fl f3 f4 e2 h2 mergeability_gate_ok(2) [OF merge] local_gates_ok(1) view_gate_ok(3) [OF view]
    by (auto simp: change_allowed_def local_gates_ok(2) extends_def keeps_def H_def)
  moreover obtain ck ts where "ReadChecks rd = Some ck" "ReadThreads rd = Some ts" "evidence_allows cfg d pr ck ts"
    using f5 f6 n6' h(5) unfolding evidence_allows_def Let_def review_decision_gate_ok(2) by auto
  moreover have "final_allows cfg rd d m H"
    using f9 f4 h by (auto simp: final_allows_def final_read_def baseSensitive_def split: if_splits)
  moreover obtain loops where "ReadLoops rd = Some loops"
      "\<forall>ev. latestReviewerConvergence (GProjectID cfg) H loops = Some ev \<longrightarrow> \<not> reviewerConvergenceBlocks ev"
    using f7 h by auto
  moreover have "review_allows cfg d m events H (ReadMarker rd)"
  proof -
    have clean9: "RReasons rep9 = []" using revalidation_gate_grows [OF final] clean by simp
    have nb: "CurrentHeadValid codex \<longrightarrow> to_lower (trim_space (RevOutcome codex)) \<noteq> ''blocking''"
      using codex_gate_ok(8) [OF codex n2] by simp
    note insisted = review_insisted [OF codex e23 capacity e48 marker k28 clean9 nb]
    show ?thesis
    proof (cases "trustFor cfg = GatekeeperTrustAuto")
      case False
      then show ?thesis using insisted(1) nb ev(2) by (simp add: review_allows_def)
    next
      case True
      then obtain found out where mk: "ReadMarker rd = Some (found, out)" "found \<longrightarrow> to_lower (trim_space out) \<noteq> ''blocking''"
        using f8 by auto
      then show ?thesis using insisted(2) nb ev(2) True by (cases found) (simp_all add: review_allows_def Let_def ex_bool_eq)
    qed
  qed
  ultimately show ?thesis
    unfolding merge_allowed_def h(3)
    using view_gate_ok(1) [OF view] mergeability_gate_ok(1) [OF merge] checks_gate_ok(1) [OF checks] ev(1) by blast
qed

section \<open>Evaluations cut short\<close>

definition stop_codes :: "ReasonCode set" where
  "stop_codes = {ReasonProviderStateUnavailable, ReasonProviderStateAmbiguous, ReasonHeadStale, ReasonBaseStale}"

definition stops :: "Report \<Rightarrow> bool" where
  "stops rep \<longleftrightarrow> (\<exists>code subject. RReasons rep = [reason code subject] \<and> code \<in> stop_codes)"

lemma stopped_stops: "stopped code subject rep = Inl rep' \<Longrightarrow> code \<in> stop_codes \<Longrightarrow> stops rep'"
  by (auto simp: stopped_def stops_def)

lemma gates_stop:
  shows "view_gate cfg rv rep = Inl rep' \<Longrightarrow> stops rep'"
    and "codex_gate cfg rc rep = Inl rep' \<Longrightarrow> stops rep'"
    and "mergeability_gate cfg rm rep = Inl rep' \<Longrightarrow> stops rep'"
    and "capacity_gate cfg d m ev rep = Inl rep' \<Longrightarrow> stops rep'"
    and "budget_gate cfg d m rep = Inl rep' \<Longrightarrow> stops rep'"
    and "capacity_base_gate cfg d m rep = Inl rep' \<Longrightarrow> stops rep'"
    and "checks_gate cfg rp rk rep = Inl rep' \<Longrightarrow> stops rep'"
    and "threads_gate rt rep = Inl rep' \<Longrightarrow> stops rep'"
    and "convergence_gate cfg rl rep = Inl rep' \<Longrightarrow> stops rep'"
    and "marker_gate cfg rlog rmk rep = Inl rep' \<Longrightarrow> stops rep'"
    and "revalidation_gate cfg d m rf rep = Inl rep' \<Longrightarrow> stops rep'"
  by (auto simp: view_gate_def codex_gate_def mergeability_gate_def capacity_gate_def budget_gate_def capacity_base_gate_def
      checks_gate_def threads_gate_def convergence_gate_def marker_gate_def revalidation_gate_def Let_def stop_codes_def
      split: option.splits if_splits prod.splits bool.splits elim!: stopped_stops)

lemma bind_result_InlE:
  assumes "bind_result r f = Inl e"
  obtains "r = Inl e" | a where "r = Inr a" "f a = Inl e"
  using assms by (cases r) auto

lemma run_gates_stops:
  assumes "run_gates cfg rd rep = Inl rep'"
  shows "stops rep'"
  using assms unfolding run_gates_def case_prod_beta
  by (elim bind_result_InlE) (simp_all add: gates_stop)

lemma gates_read:
  shows "view_gate cfg rv rep = Inr x \<Longrightarrow> rv \<noteq> None"
    and "codex_gate cfg rc rep = Inr x1 \<Longrightarrow> rc \<noteq> None"
    and "mergeability_gate cfg rm rep = Inr x2 \<Longrightarrow> rm \<noteq> None"
    and "checks_gate cfg rp rk rep = Inr x3 \<Longrightarrow> rp \<noteq> None \<and> rk \<noteq> None"
    and "threads_gate rt rep = Inr rep' \<Longrightarrow> rt \<noteq> None"
    and "convergence_gate cfg rl rep = Inr rep' \<Longrightarrow> rl \<noteq> None"
    and "marker_gate cfg rlog rmk rep = Inr rep' \<Longrightarrow> trustFor cfg = GatekeeperTrustAuto \<Longrightarrow> rlog \<noteq> None \<and> rmk \<noteq> None"
    and "revalidation_gate cfg d m rf rep = Inr rep' \<Longrightarrow> rf \<noteq> None"
  by (auto simp: view_gate_def codex_gate_def mergeability_gate_def checks_gate_def threads_gate_def convergence_gate_def
      marker_gate_def revalidation_gate_def Let_def split: option.splits if_splits)

text \<open>The reads an evaluation rests on.\<close>

definition read_failed :: "gate_config \<Rightarrow> gate_reads \<Rightarrow> bool" where
  "read_failed cfg rd \<longleftrightarrow> ReadDetail rd = None \<or> ReadMergeability rd = None \<or> ReadReviewEvents rd = None
     \<or> ReadProtection rd = None \<or> ReadChecks rd = None \<or> ReadThreads rd = None \<or> ReadLoops rd = None
     \<or> (if baseSensitive cfg then ReadHeadAndBase rd = None else ReadHead rd = None)
     \<or> trustFor cfg = GatekeeperTrustAuto \<and> (ReadLogin rd = None \<or> ReadMarker rd = None)"

lemma run_gates_reads: "run_gates cfg rd rep0 = Inr rep \<Longrightarrow> \<not> read_failed cfg rd"
proof (erule run_gatesE)
  fix rep1 d rep2 codex rep3 m rep5 rep6 pr rep7 rep8 rep9
  assume g: "view_gate cfg (ReadDetail rd) rep0 = Inr (rep1, d)" "codex_gate cfg (ReadReviewEvents rd) rep1 = Inr (rep2, codex)"
    "mergeability_gate cfg (ReadMergeability rd)
       (local_gates cfg d (observeReviewProvenance (ReadReviews rd) (ReadComments rd)) rep2) = Inr (rep3, m)"
    "checks_gate cfg (ReadProtection rd) (ReadChecks rd) rep5 = Inr (rep6, pr)"
    "threads_gate (ReadThreads rd) (review_decision_gate pr rep6) = Inr rep7" "convergence_gate cfg (ReadLoops rd) rep7 = Inr rep8"
    "marker_gate cfg (ReadLogin rd) (ReadMarker rd) rep8 = Inr rep9" "revalidation_gate cfg d m (final_read cfg rd rep9) rep9 = Inr rep"
  then have "final_read cfg rd rep9 \<noteq> None" by (rule_tac gates_read(8))
  then show "\<not> read_failed cfg rd"
    using gates_read(1) [OF g(1)] gates_read(2) [OF g(2)] gates_read(3) [OF g(3)] gates_read(4) [OF g(4)]
      gates_read(5) [OF g(5)] gates_read(6) [OF g(6)] gates_read(7) [OF g(7)]
    by (simp add: read_failed_def final_read_def split: if_splits)
qed

lemma sortReasons_empty [simp]: "sortReasons rs = [] \<longleftrightarrow> rs = []"
  by (metis length_0_conv length_sort sortReasons_def)

section \<open>A pull request and its reads\<close>

definition sample_detail :: "string \<Rightarrow> string list \<Rightarrow> PullRequestDetail" where
  "sample_detail base files = \<lparr>DNumber = 7, DState = ''open'', DClosedAt = [], DMergedAt = [], DIsDraft = False, DReviewDecision = [],
     DLabels = [], DBaseRefName = ''main'', DHeadSHA = ''abc'', DBaseSHA = base, DAdditions = 3, DDeletions = 1,
     DAdditionsKnown = True, DDeletionsKnown = True, DDiffStats = Some \<lparr>ChangedFiles = 1, StatDeletions = 1\<rparr>,
     DChangedFiles = files, DMergeable = Some True, DMergeableState = ''clean''\<rparr>"

definition sample_review :: ReviewEvent where
  "sample_review = \<lparr>RevEventType = ''pr.review.posted'', RevProjectID = Some ''p'', RevActorID = Some ''reviewer-loop'', RevCreatedAt = ''t'',
     RevPayload = Some \<lparr>PayRepo = ''o/r'', PayPRNumber = 7, PayEvent = ''COMMENT'', PayOutcome = ''clean'', PayHeadSHA = ''abc'',
       PayMarkerVerified = True\<rparr>\<rparr>"

definition sample_config :: "string \<Rightarrow> int \<Rightarrow> gate_config" where
  "sample_config trust files = \<lparr>GProjectID = ''p'', GRepo = ''o/r'', GIdentity = [], GPRNumber = 7, GExpectedHeadSHA = [],
     GExpectedBaseSHA = [], GTrust = trust, GBudget = \<lparr>MaxChangedFiles = files, MaxDeletions = 0\<rparr>, GReviewLines = None,
     GProtected = [''secret''], GPermits = (\<lambda>_. True), GHoldLabel = ''looper:hold''\<rparr>"

definition sample_reads :: "PullRequestDetail \<Rightarrow> PullRequestDetail \<Rightarrow> gate_reads" where
  "sample_reads d m = \<lparr>ReadDetail = Some d, ReadMergeability = Some m, ReadReviewEvents = Some [sample_review], ReadReviews = None,
     ReadComments = None, ReadProtection = Some \<lparr>RequiredChecks = [''build''], RequiredCheckRules = [],
       HasRequiredReviews = False, RequiredApprovingReviewCount = 0\<rparr>,
     ReadChecks = Some \<lparr>TotalCount = 1, Runs = [\<lparr>RunName = ''build'', RunStatus = ''completed'', RunConclusion = ''success'', RunAppID = 0\<rparr>],
       Statuses = []\<rparr>,
     ReadThreads = Some [(''t1'', True)], ReadLoops = Some [], ReadHeadAndBase = Some (''abc'', DBaseSHA m), ReadHead = Some ''abc'',
     ReadLogin = Some ''bot'', ReadMarker = Some (False, [])\<rparr>"

lemma sample_strings:
  "trim_space ''p'' = ''p''" "trim_space ''o/r'' = ''o/r''" "trim_space ''abc'' = ''abc''" "trim_space ''main'' = ''main''"
  "trim_space ''b'' = ''b''"  "trim_space ''c'' = ''c''" "trim_space [] = []" "to_upper (trim_space ''open'') = ''OPEN''"
  "to_upper [] = []" "trust_of ''advise'' = GatekeeperTrustAdvise" "to_lower (trim_space ''clean'') = ''clean''"
  by code_simp+

lemma sample_evidence:
  "matchedProtectedPaths [''a''] [''secret''] = []" "matchedProtectedPaths [''secret''] [''secret''] = [''secret'']"
  "latestCodexReviewForHead ''p'' ''o/r'' 7 ''abc'' [sample_review] = \<lparr>RequiredHeadSHA = ''abc'', ReviewedHeadSHA = ''abc'',
     RevEvent = ''COMMENT'', RevOutcome = ''clean'', RecordedAt = ''t'', CurrentHeadValid = True\<rparr>"
  "sortedUnique [''build''] = [''build'']"
  "fst (evaluateRequiredChecks [\<lparr>RuleContext = ''build'', RuleAppID = 0\<rparr>]
     \<lparr>TotalCount = 1, Runs = [\<lparr>RunName = ''build'', RunStatus = ''completed'', RunConclusion = ''success'', RunAppID = 0\<rparr>],
       Statuses = []\<rparr>) = []"
  by code_simp+

lemmas gate_defs = run_gates_def view_gate_def codex_gate_def local_gates_def mergeability_gate_def capacity_gate_def
  budget_gate_def capacity_base_gate_def checks_gate_def review_decision_gate_def threads_gate_def convergence_gate_def
  marker_gate_def revalidation_gate_def

lemmas sample_defs = sample_config_def sample_reads_def sample_detail_def new_report_def no_evidence_def trustFor_def
  budgetEnabled_def reviewPolicyEnabled_def final_read_def baseSensitive_def sized_by_def own_status_reasons_def
  judged_rules_def required_rules_def IsUnknown_def HasConflict_def IsClean_def IsAmbiguousPolicyState_def
  diffBudgetExceededSubject_def

lemma sample_accepted:
  "\<exists>rep. EvaluatePullRequest (sample_config trust files) now fp rd = Inr rep"
  by (simp add: EvaluatePullRequest_def sample_config_def sample_strings)

lemma sample_eligible:
  "\<exists>rep. EvaluatePullRequest (sample_config ''advise'' 0) ''t'' ''f''
     (sample_reads (sample_detail ''b'' [''a'']) (sample_detail ''b'' [''a''])) = Inr rep \<and> REligible rep"
  by (simp add: EvaluatePullRequest_def gate_defs sample_defs sample_strings sample_evidence Let_def evidence_def
      add_reasons_def stamp_def case_prod_beta)

text \<open>
  With a diff budget the base may move between the first two reads: the budget is then judged at the new
  base, but the changed files that were matched against the protected paths are those of the old one.
  Without a budget the same reads are refused as stale.
\<close>

lemma protected_base_gap:
  "\<exists>rep. EvaluatePullRequest (sample_config ''advise'' 5) ''t'' ''f''
     (sample_reads (sample_detail ''b'' [''a'']) (sample_detail ''c'' [''secret''])) = Inr rep \<and> REligible rep"
  "\<exists>rep. EvaluatePullRequest (sample_config ''advise'' 0) ''t'' ''f''
     (sample_reads (sample_detail ''b'' [''a'']) (sample_detail ''c'' [''secret''])) = Inr rep \<and> \<not> REligible rep"
  by (simp_all add: EvaluatePullRequest_def gate_defs sample_defs sample_strings sample_evidence Let_def evidence_def
      add_reasons_def stamp_def case_prod_beta)

lemma eligible_ran_through:
  assumes "EvaluatePullRequest cfg now fingerprint rd = Inr rep" and "REligible rep"
  obtains r where "run_gates cfg rd (new_report cfg now fingerprint) = Inr r" "RReasons r = []" "rep = stamp cfg r"
proof -
  let ?run = "run_gates cfg rd (new_report cfg now fingerprint)"
  have e: "rep = stamp cfg (case ?run of Inl r \<Rightarrow> r | Inr r \<Rightarrow> r)"
    using assms(1) by (simp add: EvaluatePullRequest_def split: if_splits)
  have "RReasons r \<noteq> []" if "?run = Inl r" for r
    using run_gates_stops [OF that] by (auto simp: stops_def)
  then show thesis using that e assms(2) by (cases ?run) (auto simp: stamp_def Let_def)
qed

text \<open>
  C2. The merge gatekeeper never calls a pull request eligible unless everything it promises held of
  what it read: every read succeeded, the same head at all three reads of it, an open pull request that is
  neither draft, held nor vetoed, permitted by policy, touching no protected path, mergeable and
  within the diff budget; every required check satisfied by its own runs or status; the review
  decision, the review threads and the reviewer's dialogue settled; a review of this very head (under
  auto trust: no blocking marker, and a clean review once the change is large enough); and, at the
  final read, neither the head nor the base the size-dependent gates were judged at has moved.
\<close>

theorem gate_eligible_sound:
  assumes "EvaluatePullRequest cfg now fingerprint rd = Inr rep" and "REligible rep"
  shows "RStatus rep = ''eligible'' \<and> merge_allowed cfg rd (RObservedHead rep)"
proof -
  obtain r where "run_gates cfg rd (new_report cfg now fingerprint) = Inr r" "RReasons r = []" "rep = stamp cfg r"
    using eligible_ran_through [OF assms] .
  then show ?thesis using run_gates_sound by (simp add: stamp_def Let_def sortReasons_def)
qed

theorem gate_eligible_sound_witness:
  "\<exists>rep. EvaluatePullRequest (sample_config ''advise'' 0) ''t'' ''f''
       (sample_reads (sample_detail ''b'' [''a'']) (sample_detail ''b'' [''a''])) = Inr rep
     \<and> merge_allowed (sample_config ''advise'' 0)
       (sample_reads (sample_detail ''b'' [''a'']) (sample_detail ''b'' [''a''])) (RObservedHead rep)"
  using sample_eligible gate_eligible_sound by blast

text \<open>
  C3. The gatekeeper fails closed: when any read the decision rests on fails, the report is blocked and
  carries exactly one reason, which says that the state was unavailable or ambiguous, or that the
  head or base is not the expected one.
\<close>

theorem gate_fails_closed:
  assumes "EvaluatePullRequest cfg now fingerprint rd = Inr rep" and "read_failed cfg rd"
  shows "\<not> REligible rep \<and> RStatus rep = ''blocked'' \<and> (\<exists>code subject. RReasons rep = [reason code subject] \<and> code \<in> stop_codes)"
proof -
  let ?run = "run_gates cfg rd (new_report cfg now fingerprint)"
  have e: "rep = stamp cfg (case ?run of Inl r \<Rightarrow> r | Inr r \<Rightarrow> r)"
    using assms(1) by (simp add: EvaluatePullRequest_def split: if_splits)
  have "?run \<noteq> Inr r" for r using run_gates_reads [of cfg rd] assms(2) by blast
  then obtain r where r: "?run = Inl r" by (cases ?run) auto
  then obtain code subject where "RReasons r = [reason code subject]" "code \<in> stop_codes"
    using run_gates_stops unfolding stops_def by blast
  then show ?thesis using e r by (auto simp: stamp_def Let_def sortReasons_def)
qed

theorem gate_fails_closed_witness:
  "\<exists>rep. EvaluatePullRequest (sample_config ''advise'' 0) ''t'' ''f''
       (sample_reads (sample_detail ''b'' [''a'']) (sample_detail ''b'' [''a''])\<lparr>ReadChecks := None\<rparr>) = Inr rep
     \<and> RStatus rep = ''blocked''"
proof -
  have "read_failed (sample_config ''advise'' 0)
      (sample_reads (sample_detail ''b'' [''a'']) (sample_detail ''b'' [''a''])\<lparr>ReadChecks := None\<rparr>)"
    by (simp add: read_failed_def)
  then show ?thesis using sample_accepted gate_fails_closed by blast
qed

end
