(* ===== verification/Gate_Routing.thy ===== *)
theory Gate_Routing
  imports Gatekeeper
begin

text \<open>
  The routing projection of the gatekeeper (\<open>internal/gatekeeper/routing_labels.go\<close>, \<open>persist\<close> of
  \<open>runner.go\<close>, the predicates of \<open>route_reconcile.go\<close>): the two labels and the commit status the merge
  queue consumes, and the records of the gate report around them. Every write is a call that may
  fail; the calls made so far are kept in order, so a crash is a prefix of them.
\<close>

section \<open>Durable state and calls\<close>

definition AutoMerge :: string where "AutoMerge = ''auto-merge''"
definition NeedsHumanReview :: string where "NeedsHumanReview = ''needs-human-review''"

datatype route_call = AddLabel string | RemoveLabel string | SetStatus string string | AppendReport Report

record durable =
  RouteLabels :: "string set"
  StatusOf :: "string \<Rightarrow> string option"
  PLog :: "Report list"

fun perform :: "route_call \<Rightarrow> durable \<Rightarrow> durable" where
  "perform (AddLabel l) s = s\<lparr>RouteLabels := insert l (RouteLabels s)\<rparr>"
| "perform (RemoveLabel l) s = s\<lparr>RouteLabels := RouteLabels s - {l}\<rparr>"
| "perform (SetStatus sha state) s = s\<lparr>StatusOf := (StatusOf s)(sha \<mapsto> state)\<rparr>"
| "perform (AppendReport rep) s = s\<lparr>PLog := rep # PLog s\<rparr>"

text \<open>
  The run of one projection: which of its calls will succeed (all of them past the end of the
  script) and the calls made so far with their outcomes, the last one first.
\<close>

record route_run =
  Script :: "bool list"
  Calls :: "(route_call \<times> bool) list"

definition call :: "route_call \<Rightarrow> route_run \<Rightarrow> bool \<times> route_run" where
  "call c w = (let ok = (case Script w of [] \<Rightarrow> True | b # _ \<Rightarrow> b) in
     (ok, w\<lparr>Script := drop 1 (Script w), Calls := (c, ok) # Calls w\<rparr>))"

text \<open>The durable state after the calls of a run, a failed call changing nothing.\<close>

definition after :: "(route_call \<times> bool) list \<Rightarrow> durable \<Rightarrow> durable" where
  "after calls s = foldr (\<lambda>(c, ok) s. if ok then perform c s else s) calls s"

section \<open>Predicates on stored reports\<close>

definition mode_is_auto :: "Report \<Rightarrow> bool" where
  "mode_is_auto rep \<longleftrightarrow> trim_space (RMode rep) = ''auto''"

definition reportRouteEstablished :: "Report \<Rightarrow> bool" where
  "reportRouteEstablished rep = (case RRouteEstablished rep of
     Some b \<Rightarrow> b
   | None \<Rightarrow> mode_is_auto rep \<and> REligible rep \<and> \<not> hasReasonCode (RReasons rep) ReasonRoutingProjectionFailed)"

definition reportNeedsRouteRecovery :: "Report \<Rightarrow> bool" where
  "reportNeedsRouteRecovery rep \<longleftrightarrow> RRouteEstablished rep = Some False \<and> mode_is_auto rep \<and> REligible rep
     \<and> RSourceFingerprint rep = [] \<and> \<not> hasReasonCode (RReasons rep) ReasonRoutingProjectionFailed"

definition reportNeedsOutOfPageRouteRecheck :: "Report \<Rightarrow> bool" where
  "reportNeedsOutOfPageRouteRecheck rep \<longleftrightarrow> hasReasonCode (RReasons rep) ReasonRouteTemporarilyBlocked
     \<or> hasReasonCode (RReasons rep) ReasonRoutingProjectionFailed"

definition previousPublished :: "Report \<Rightarrow> bool" where
  "previousPublished rep \<longleftrightarrow> \<not> RPendingProjection rep
     \<and> (trim_space (RMode rep) \<in> {''advise'', ''auto''} \<or> hasReasonCode (RReasons rep) ReasonRoutingProjectionFailed)"

definition reportIsTerminal :: "Report \<Rightarrow> bool" where
  "reportIsTerminal rep \<longleftrightarrow> hasReasonCode (RReasons rep) ReasonPullRequestNotOpen
     \<or> (let state = to_upper (trim_space (EState (REvidence rep))) in state \<noteq> [] \<and> state \<noteq> ''OPEN'')"

definition established :: "Report option \<Rightarrow> bool" where
  "established previous = (case previous of None \<Rightarrow> False | Some p \<Rightarrow> reportRouteEstablished p)"

definition reportNeedsHumanReview :: "Report option \<Rightarrow> Report \<Rightarrow> bool" where
  "reportNeedsHumanReview previous rep \<longleftrightarrow>
     established previous \<and> (\<not> REligible rep \<or> list_ex (\<lambda>r. Code r \<in>
        {ReasonHold, ReasonUnresolvedReviewThread, ReasonReviewerConvergence, ReasonHeadStale}) (RReasons rep))
     \<or> list_ex (\<lambda>r. Code r \<in> {ReasonProtectedPathTouched, ReasonDiffBudgetExceeded}) (RReasons rep)
     \<or> (case previous of None \<Rightarrow> False
        | Some p \<Rightarrow> hasReasonCode (RReasons p) ReasonReviewChangesRequested \<and> hasReasonCode (RReasons rep) ReasonReviewChangesRequested)"

section \<open>Writing the labels\<close>

record routingLabelPlan =
  PlanAutoMerge :: bool
  PlanNeedsHuman :: bool
  PlanRevoke :: bool

datatype routing_error = RevokePending | RoutingFailed

definition revokeGatekeeperStatus :: "Report \<Rightarrow> route_run \<Rightarrow> bool \<times> route_run" where
  "revokeGatekeeperStatus rep w =
     (let final = trim_space (EFinalHead (REvidence rep));
          sha = (if final = [] then trim_space (RObservedHead rep) else final) in
      if sha = [] then (False, w) else call (SetStatus sha ''failure'') w)"

definition applyRoutingLabelPlan :: "Report \<Rightarrow> routingLabelPlan \<Rightarrow> route_run \<Rightarrow> routing_error option \<times> route_run" where
  "applyRoutingLabelPlan rep plan w =
     (if PlanAutoMerge plan then
        (case call (AddLabel AutoMerge) w of
           (False, w) \<Rightarrow> (Some RoutingFailed, w)
         | (True, w) \<Rightarrow> (case call (RemoveLabel NeedsHumanReview) w of
             (False, w) \<Rightarrow> (Some RoutingFailed, w) | (True, w) \<Rightarrow> (None, w)))
      else if PlanNeedsHuman plan then
        (case (if PlanRevoke plan then revokeGatekeeperStatus rep w else (True, w)) of (revoked, w) \<Rightarrow>
          (case call (AddLabel NeedsHumanReview) w of
             (False, w) \<Rightarrow> (case call (RemoveLabel AutoMerge) w of
                 (_, w) \<Rightarrow> (Some (if revoked then RoutingFailed else RevokePending), w))
           | (True, w) \<Rightarrow> (case call (RemoveLabel AutoMerge) w of
                 (removed, w) \<Rightarrow> (if \<not> revoked then Some RevokePending else if \<not> removed then Some RoutingFailed else None, w))))
      else
        (case call (RemoveLabel AutoMerge) w of
           (False, w) \<Rightarrow> (Some RoutingFailed, w)
         | (True, w) \<Rightarrow> (case call (RemoveLabel NeedsHumanReview) w of
             (False, w) \<Rightarrow> (Some RoutingFailed, w) | (True, w) \<Rightarrow> (None, w))))"

text \<open>The queue trigger goes; a route that was open keeps a veto.\<close>

definition retireRoutingLabels ::
  "gate_config \<Rightarrow> Report \<Rightarrow> Report option \<Rightarrow> route_run \<Rightarrow> routing_error option \<times> route_run" where
  "retireRoutingLabels cfg rep previous w =
     (let routed = trustFor cfg = GatekeeperTrustAuto \<and> established previous in
      case applyRoutingLabelPlan rep \<lparr>PlanAutoMerge = False, PlanNeedsHuman = routed, PlanRevoke = routed\<rparr> w of
        (Some RevokePending, w) \<Rightarrow> (Some RevokePending, w)
      | (_, w) \<Rightarrow> (Some RoutingFailed, w))"

section \<open>Reading the authority again\<close>

text \<open>What the reads made while the route is projected return; \<open>None\<close> (or \<open>False\<close>) for an error.\<close>

record route_reads =
  MergifyContract :: bool
  RouteDetail :: "PullRequestDetail option"
  RoutePermits :: "string \<Rightarrow> bool"
  RouteThreads :: "(string \<times> bool) list option"
  RouteLoops :: "ReviewerLoop list option"
  RouteReviews :: "ReviewEvent list option"
  RouteHeadAndBase :: "(string \<times> string) option"
  RouteHead :: "string option"

definition state_confirmed :: "gate_config \<Rightarrow> route_reads \<Rightarrow> Report \<Rightarrow> string \<Rightarrow> bool" where
  "state_confirmed cfg rr rep expectedHead = (case RouteDetail rr of
     None \<Rightarrow> False
   | Some d \<Rightarrow> let e = REvidence rep in
       (DNumber d = 0 \<or> DNumber d = RPRNumber rep) \<and> trim_space (DHeadSHA d) = expectedHead
       \<and> trim_space (EState e) \<noteq> [] \<and> equal_fold (trim_space (EState e)) (trim_space (DState d))
       \<and> EDraft e = DIsDraft d \<and> trim_space (EBaseRefName e) = trim_space (DBaseRefName d)
       \<and> equal_fold (trim_space (EReviewDecision e)) (trim_space (DReviewDecision d))
       \<and> (EHoldLabels e \<noteq> []) = Has (DLabels d) (GHoldLabel cfg)
       \<and> EDoNotMergeVeto e = Has (DLabels d) Labels.DoNotMerge
       \<and> (trim_space (EBaseRefName e) \<noteq> [] \<longrightarrow> RoutePermits rr (EBaseRefName e) = EPolicyPermits e))"

definition threads_confirmed :: "route_reads \<Rightarrow> bool" where
  "threads_confirmed rr = (case RouteThreads rr of
     None \<Rightarrow> False | Some threads \<Rightarrow> length threads \<noteq> 1000 \<and> list_all snd threads)"

definition convergence_confirmed :: "route_reads \<Rightarrow> Report \<Rightarrow> string \<Rightarrow> bool" where
  "convergence_confirmed rr rep expectedHead = (case RouteLoops rr of
     None \<Rightarrow> False
   | Some loops \<Rightarrow> (case (EConvergence (REvidence rep), latestReviewerConvergence (RProjectID rep) expectedHead loops) of
       (None, None) \<Rightarrow> True
     | (None, Some current) \<Rightarrow> \<not> reviewerConvergenceBlocks current
     | (Some _, None) \<Rightarrow> False
     | (Some old, Some current) \<Rightarrow> convergenceRevision current = convergenceRevision old \<and> CEHeadStale current = CEHeadStale old))"

definition codex_confirmed :: "route_reads \<Rightarrow> Report \<Rightarrow> string \<Rightarrow> bool" where
  "codex_confirmed rr rep expectedHead = (case RouteReviews rr of
     None \<Rightarrow> False
   | Some events \<Rightarrow>
     let current = latestCodexReviewForHead (RProjectID rep) (RRepo rep) (RPRNumber rep) expectedHead events in
     (case ECodexReview (REvidence rep) of
        None \<Rightarrow> \<not> (CurrentHeadValid current \<and> trim_space (REvaluatedAt rep) \<noteq> []
          \<and> trim_space (RecordedAt current) > trim_space (REvaluatedAt rep))
      | Some old \<Rightarrow> CurrentHeadValid current = CurrentHeadValid old
          \<and> equal_fold (ReviewedHeadSHA current) (ReviewedHeadSHA old) \<and> equal_fold (RevEvent current) (RevEvent old)
          \<and> equal_fold (RevOutcome current) (RevOutcome old) \<and> trim_space (RecordedAt current) = trim_space (RecordedAt old)))"

definition route_head :: "Report \<Rightarrow> string" where
  "route_head rep = (let final = trim_space (EFinalHead (REvidence rep)) in if final = [] then trim_space (RObservedHead rep) else final)"

definition route_base :: "Report \<Rightarrow> string" where
  "route_base rep =
     (let e = REvidence rep; final = trim_space (EFinalBase e); base = (if final = [] then trim_space (EBaseSHA e) else final)
      in case EDiffBudget e of
        Some b \<Rightarrow> if trim_space (BudgetBaseSHA b) \<noteq> [] then trim_space (BudgetBaseSHA b) else base
      | None \<Rightarrow> base)"

definition authority_confirmed :: "gate_config \<Rightarrow> route_reads \<Rightarrow> Report \<Rightarrow> string \<Rightarrow> bool" where
  "authority_confirmed cfg rr rep head \<longleftrightarrow> MergifyContract rr \<and> state_confirmed cfg rr rep head \<and> threads_confirmed rr
     \<and> convergence_confirmed rr rep head \<and> codex_confirmed rr rep head"

text \<open>The last read before the status: head and base, or the head alone; the head is returned.\<close>

definition head_confirmed :: "gate_config \<Rightarrow> route_reads \<Rightarrow> Report \<Rightarrow> string option" where
  "head_confirmed cfg rr rep =
     (let sensitive = EDiffBudget (REvidence rep) \<noteq> None \<or> reviewThreshold cfg > 0 \<or> GProtected cfg \<noteq> [];
          head = (if sensitive \<and> route_base rep \<noteq> []
            then (case RouteHeadAndBase rr of None \<Rightarrow> None | Some (h, b) \<Rightarrow> if trim_space b \<noteq> route_base rep then None else Some h)
            else RouteHead rr)
      in case head of None \<Rightarrow> None | Some h \<Rightarrow> if trim_space h \<noteq> route_head rep then None else Some (trim_space h))"

section \<open>The projection\<close>

definition routing_plan :: "gate_config \<Rightarrow> Report \<Rightarrow> Report option \<Rightarrow> routingLabelPlan" where
  "routing_plan cfg rep previous =
     (let trust = trustFor cfg; terminal = reportIsTerminal rep;
          auto_route = \<not> terminal \<and> trust = GatekeeperTrustAuto \<and> REligible rep;
          human = \<not> terminal \<and> \<not> auto_route \<and> trust \<noteq> GatekeeperTrustObserve \<and> reportNeedsHumanReview previous rep;
          demoted = trust \<noteq> GatekeeperTrustAuto \<and> established previous \<and> \<not> terminal
      in \<lparr>PlanAutoMerge = auto_route, PlanNeedsHuman = human \<or> demoted,
          PlanRevoke = demoted \<or> (trust = GatekeeperTrustAuto \<and> established previous \<and> human \<and> \<not> terminal)\<rparr>)"

definition reconcileRoutingLabels ::
  "gate_config \<Rightarrow> route_reads \<Rightarrow> Report \<Rightarrow> Report option \<Rightarrow> route_run \<Rightarrow> routing_error option \<times> route_run" where
  "reconcileRoutingLabels cfg rr rep previous w =
     (let plan = routing_plan cfg rep previous; head = route_head rep in
      if trustFor cfg = GatekeeperTrustObserve \<and> \<not> reportIsTerminal rep
         \<and> (case previous of None \<Rightarrow> True | Some p \<Rightarrow> \<not> previousPublished p) then (None, w)
      else if \<not> PlanAutoMerge plan then applyRoutingLabelPlan rep plan w
      else if head = [] then (Some RoutingFailed, w)
      else if \<not> authority_confirmed cfg rr rep head
      then retireRoutingLabels cfg rep previous w
      else (case head_confirmed cfg rr rep of
        None \<Rightarrow> retireRoutingLabels cfg rep previous w
      | Some current \<Rightarrow> (case call (SetStatus current ''success'') w of
          (False, w) \<Rightarrow> retireRoutingLabels cfg rep previous w
        | (True, w) \<Rightarrow> applyRoutingLabelPlan rep plan w)))"

section \<open>The records around it\<close>

definition pending_report :: "Report \<Rightarrow> Report" where
  "pending_report rep = rep\<lparr>RSourceFingerprint := [], RPendingProjection := True\<rparr>"

definition retry_report :: "routing_error \<Rightarrow> Report \<Rightarrow> Report" where
  "retry_report err rep = rep\<lparr>RReasons := sortReasons (RReasons rep @ [reason ReasonRoutingProjectionFailed ''routing_labels'']),
     REligible := False, RStatus := ''blocked'', RSourceFingerprint := [],
     RRouteEstablished := (if err = RevokePending then Some True else RRouteEstablished rep)\<rparr>"

definition final_report :: "gate_config \<Rightarrow> Report \<Rightarrow> Report" where
  "final_report cfg rep = (if trustFor cfg = GatekeeperTrustAuto \<and> REligible rep then rep\<lparr>RRouteEstablished := Some True\<rparr> else rep)"

datatype persist_result = Persisted Report | NotPersisted | ProjectionFailed Report

text \<open>
  \<open>persist\<close>: a pending record, the projection, then the retry or the final record. The time stamps of
  the records only order them.
\<close>

definition persist ::
  "gate_config \<Rightarrow> route_reads \<Rightarrow> Report option \<Rightarrow> Report \<Rightarrow> route_run \<Rightarrow> persist_result \<times> route_run" where
  "persist cfg rr previous rep0 w =
     (let rep = stamp cfg rep0 in
      case call (AppendReport (pending_report rep)) w of
        (False, w) \<Rightarrow> (NotPersisted, w)
      | (True, w) \<Rightarrow> (case reconcileRoutingLabels cfg rr rep previous w of
          (Some err, w) \<Rightarrow> (case call (AppendReport (retry_report err rep)) w of (_, w) \<Rightarrow> (ProjectionFailed rep, w))
        | (None, w) \<Rightarrow> (case call (AppendReport (final_report cfg rep)) w of
            (False, w) \<Rightarrow> (NotPersisted, w) | (True, w) \<Rightarrow> (Persisted (final_report cfg rep), w))))"

section \<open>The calls of a projection\<close>

lemma call_cases:
  assumes "call c w = (ok, w')"
  shows "Calls w' = (c, ok) # Calls w"
  using assms by (auto simp: call_def Let_def)

lemma after_simps [simp]:
  "after [] s = s" "after ((c, True) # cs) s = perform c (after cs s)" "after ((c, False) # cs) s = after cs s"
  by (simp_all add: after_def)

lemma apply_auto_calls:
  assumes "PlanAutoMerge plan" and "applyRoutingLabelPlan rep plan w = (err, w')"
  obtains "Calls w' = (AddLabel AutoMerge, False) # Calls w" "err = Some RoutingFailed"
  | "Calls w' = (RemoveLabel NeedsHumanReview, False) # (AddLabel AutoMerge, True) # Calls w" "err = Some RoutingFailed"
  | "Calls w' = (RemoveLabel NeedsHumanReview, True) # (AddLabel AutoMerge, True) # Calls w" "err = None"
  using assms
  by (auto simp: applyRoutingLabelPlan_def dest!: call_cases split: prod.splits bool.splits)

lemma revoke_calls:
  assumes "revokeGatekeeperStatus rep w = (ok, w')"
  shows "Calls w' = (if route_head rep = [] then [] else [(SetStatus (route_head rep) ''failure'', ok)]) @ Calls w"
    and "ok \<Longrightarrow> route_head rep \<noteq> []"
  using assms by (auto simp: revokeGatekeeperStatus_def route_head_def Let_def dest: call_cases split: if_splits)

text \<open>The veto plan: the status first, then the veto, then the trigger, whatever fails on the way.\<close>

lemma apply_human_calls:
  assumes "\<not> PlanAutoMerge plan" "PlanNeedsHuman plan" and "applyRoutingLabelPlan rep plan w = (err, w')"
  obtains revoked vetoed removed where
    "Calls w' = (RemoveLabel AutoMerge, removed) # (AddLabel NeedsHumanReview, vetoed)
       # (if PlanRevoke plan \<and> route_head rep \<noteq> [] then [(SetStatus (route_head rep) ''failure'', revoked)] else []) @ Calls w"
    "err = (if PlanRevoke plan \<and> \<not> revoked then Some RevokePending else if \<not> vetoed \<or> \<not> removed then Some RoutingFailed else None)"
    "PlanRevoke plan \<and> revoked \<longrightarrow> route_head rep \<noteq> []"
proof -
  obtain revoked w1 where r: "(if PlanRevoke plan then revokeGatekeeperStatus rep w else (True, w)) = (revoked, w1)"
    by (metis surj_pair)
  obtain vetoed w2 where v: "call (AddLabel NeedsHumanReview) w1 = (vetoed, w2)" by (metis surj_pair)
  obtain removed w3 where d: "call (RemoveLabel AutoMerge) w2 = (removed, w3)" by (metis surj_pair)
  have run: "(err, w') = (if vetoed then (if \<not> revoked then Some RevokePending else if \<not> removed then Some RoutingFailed else None, w3)
      else (Some (if revoked then RoutingFailed else RevokePending), w3))"
    using assms r v d by (cases vetoed) (simp_all add: applyRoutingLabelPlan_def)
  have c: "Calls w1 = (if PlanRevoke plan \<and> route_head rep \<noteq> [] then [(SetStatus (route_head rep) ''failure'', revoked)] else []) @ Calls w"
    "\<not> PlanRevoke plan \<longrightarrow> revoked" "PlanRevoke plan \<and> revoked \<longrightarrow> route_head rep \<noteq> []"
    using r revoke_calls [of rep w revoked w1] by (auto split: if_splits)
  show thesis
    by (rule that [of removed vetoed revoked])
      (use run c call_cases [OF v] call_cases [OF d] in \<open>auto split: if_splits\<close>)
qed

lemma apply_removal_calls:
  assumes "\<not> PlanAutoMerge plan" "\<not> PlanNeedsHuman plan" and "applyRoutingLabelPlan rep plan w = (err, w')"
  obtains "Calls w' = (RemoveLabel AutoMerge, False) # Calls w" "err = Some RoutingFailed"
  | removed where "Calls w' = (RemoveLabel NeedsHumanReview, removed) # (RemoveLabel AutoMerge, True) # Calls w"
      "err = (if removed then None else Some RoutingFailed)"
  using assms
  by (auto simp: applyRoutingLabelPlan_def dest!: call_cases split: prod.splits bool.splits)

text \<open>A route is open while it has the trigger and no veto.\<close>

definition route_open :: "durable \<Rightarrow> bool" where
  "route_open s \<longleftrightarrow> AutoMerge \<in> RouteLabels s \<and> NeedsHumanReview \<notin> RouteLabels s"

lemma routing_label_names [simp]: "AutoMerge \<noteq> NeedsHumanReview" "NeedsHumanReview \<noteq> AutoMerge"
  by (simp_all add: AutoMerge_def NeedsHumanReview_def)

text \<open>Along the calls, at every point a crash may leave behind, no route is open that was not open before.\<close>

fun closing :: "(route_call \<times> bool) list \<Rightarrow> durable \<Rightarrow> bool" where
  "closing [] s = True"
| "closing (c # cs) s = ((route_open (after (c # cs) s) \<longrightarrow> route_open s) \<and> closing cs s)"

lemma closing_drop: "closing cs s \<Longrightarrow> route_open (after (drop n cs) s) \<Longrightarrow> route_open s"
proof (induction cs arbitrary: n)
  case (Cons c cs)
  then show ?case by (cases n) auto
qed simp

text \<open>A call that neither adds the trigger nor removes the veto opens nothing.\<close>

fun harmless :: "route_call \<Rightarrow> bool" where
  "harmless (AddLabel l) \<longleftrightarrow> l \<noteq> AutoMerge"
| "harmless (RemoveLabel l) \<longleftrightarrow> l \<noteq> NeedsHumanReview"
| "harmless _ \<longleftrightarrow> True"

lemma harmless_opens: "harmless c \<Longrightarrow> route_open (perform c s) \<Longrightarrow> route_open s"
  by (cases c) (auto simp: route_open_def)

lemma closing_harmless: "harmless c \<Longrightarrow> closing cs s \<Longrightarrow> closing ((c, ok) # cs) s"
  using closing_drop [of cs s 0] harmless_opens by (cases ok) fastforce+

lemma apply_other_closing:
  assumes "\<not> PlanAutoMerge plan" and run: "applyRoutingLabelPlan rep plan w = (err, w')" and "closing (Calls w) s"
  shows "closing (Calls w') s"
proof (cases "PlanNeedsHuman plan")
  case True
  show ?thesis
    by (rule apply_human_calls [OF assms(1) True run])
      (use assms(3) in \<open>auto intro!: closing_harmless simp del: closing.simps(2)\<close>)
next
  case False
  from apply_removal_calls [OF assms(1) False run] show ?thesis
  proof cases
    case 1
    then show ?thesis using assms(3) by (auto intro!: closing_harmless simp del: closing.simps(2))
  next
    case (2 removed)
    have "closing ((RemoveLabel AutoMerge, True) # Calls w) s" using assms(3) by (auto intro!: closing_harmless simp del: closing.simps(2))
    then show ?thesis unfolding 2(1) by (cases removed) (simp_all add: route_open_def)
  qed
qed

lemma retire_closing:
  assumes "retireRoutingLabels cfg rep previous w = (err, w')" and "closing (Calls w) s"
  shows "closing (Calls w') s" and "err \<noteq> None"
proof -
  define routed where "routed \<longleftrightarrow> trustFor cfg = GatekeeperTrustAuto \<and> established previous"
  obtain e w1 where a: "applyRoutingLabelPlan rep \<lparr>PlanAutoMerge = False, PlanNeedsHuman = routed, PlanRevoke = routed\<rparr> w = (e, w1)"
    by (metis surj_pair)
  have w': "w' = w1" "err \<noteq> None"
    using assms(1) a by (auto simp: retireRoutingLabels_def routed_def [symmetric] Let_def split: option.splits routing_error.splits)
  show "closing (Calls w') s" unfolding w'(1) by (rule apply_other_closing [OF _ a assms(2)]) simp
  show "err \<noteq> None" by (rule w')
qed

text \<open>Everything that is read again before the trigger is written confirmed the report.\<close>

definition route_authorised :: "gate_config \<Rightarrow> route_reads \<Rightarrow> Report \<Rightarrow> bool" where
  "route_authorised cfg rr rep \<longleftrightarrow> trustFor cfg = GatekeeperTrustAuto \<and> REligible rep \<and> \<not> reportIsTerminal rep
     \<and> route_head rep \<noteq> [] \<and> authority_confirmed cfg rr rep (route_head rep)
     \<and> head_confirmed cfg rr rep = Some (route_head rep)"

lemma head_confirmed_head: "head_confirmed cfg rr rep = Some h \<Longrightarrow> h = route_head rep"
  by (auto simp: head_confirmed_def Let_def split: option.splits if_splits)

lemma routing_plan_auto: "PlanAutoMerge (routing_plan cfg rep previous) \<longleftrightarrow>
    trustFor cfg = GatekeeperTrustAuto \<and> REligible rep \<and> \<not> reportIsTerminal rep"
  by (auto simp: routing_plan_def Let_def)

text \<open>The projection either opens nothing or is authorised, its last but one kind of call being the status.\<close>

lemma reconcile_cases:
  assumes "reconcileRoutingLabels cfg rr rep previous w = (err, w')" and closed: "closing (Calls w) s"
  obtains "closing (Calls w') s" "err = None \<longrightarrow> \<not> PlanAutoMerge (routing_plan cfg rep previous)"
  | w'' where "route_authorised cfg rr rep" "PlanAutoMerge (routing_plan cfg rep previous)"
    "(err, w') = applyRoutingLabelPlan rep (routing_plan cfg rep previous) w''"
    "Calls w'' = (SetStatus (route_head rep) ''success'', True) # Calls w"
proof -
  let ?plan = "routing_plan cfg rep previous"
  let ?quiet = "trustFor cfg = GatekeeperTrustObserve \<and> \<not> reportIsTerminal rep
    \<and> (case previous of None \<Rightarrow> True | Some p \<Rightarrow> \<not> previousPublished p)"
  note step = assms(1) [unfolded reconcileRoutingLabels_def Let_def]
  consider (idle) "err = None" "w' = w" "trustFor cfg = GatekeeperTrustObserve"
    | (labels) "\<not> PlanAutoMerge ?plan" "applyRoutingLabelPlan rep ?plan w = (err, w')"
    | (fail) "err = Some RoutingFailed" "w' = w"
    | (retire) "retireRoutingLabels cfg rep previous w = (err, w')"
    | (status) "PlanAutoMerge ?plan" "route_head rep \<noteq> []" "authority_confirmed cfg rr rep (route_head rep)"
        "head_confirmed cfg rr rep \<noteq> None" "\<not> ?quiet"
  proof (cases ?quiet)
    case True
    show thesis by (rule idle) (use step True in \<open>simp_all only: if_True prod.inject simp_thms\<close>)
  next
    case nq: False
    note step = step [unfolded if_not_P [OF nq]]
    show thesis
    proof (cases "PlanAutoMerge ?plan")
      case False
      then show thesis using labels step by simp
    next
      case p: True
      show thesis
      proof (cases "route_head rep = []")
        case True
        then show thesis using fail step p by simp
      next
        case h: False
        show thesis
        proof (cases "authority_confirmed cfg rr rep (route_head rep)")
          case a: True
          show thesis
          proof (cases "head_confirmed cfg rr rep")
            case None
            then show thesis using retire step p h a by simp
          next
            case (Some x)
            then show thesis using status p h a nq by simp
          qed
        next
          case False
          then show thesis using retire step p h by simp
        qed
      qed
    qed
  qed
  then show thesis
  proof cases
    case status
    then have h: "head_confirmed cfg rr rep = Some (route_head rep)" using head_confirmed_head by fastforce
    obtain ok w1 where c: "call (SetStatus (route_head rep) ''success'') w = (ok, w1)" by (metis surj_pair)
    have obs: "trustFor cfg \<noteq> GatekeeperTrustObserve" using status(1) by (auto simp: routing_plan_auto)
    have run: "(err, w') = (if ok then applyRoutingLabelPlan rep ?plan w1 else retireRoutingLabels cfg rep previous w1)"
      using assms(1) status h c obs by (cases ok) (simp_all add: reconcileRoutingLabels_def Let_def)
    show thesis
    proof (cases ok)
      case True
      then show thesis
        using that(2) [of w1] run status h call_cases [OF c] by (auto simp: route_authorised_def routing_plan_auto)
    next
      case False
      have "closing (Calls w1) s" unfolding call_cases [OF c] by (rule closing_harmless [OF _ closed]) simp
      then show thesis using that(1) retire_closing [of cfg rep previous w1 err w'] run False by auto
    qed
  next
    case idle
    then show thesis using that(1) closed by (simp add: routing_plan_auto)
  next
    case labels
    then show thesis using that(1) apply_other_closing [OF _ _ closed] by blast
  next
    case fail
    then show thesis using that(1) closed by simp
  next
    case retire
    then show thesis using that(1) retire_closing [OF _ closed] by blast
  qed
qed

fun always :: "(durable \<Rightarrow> bool) \<Rightarrow> (route_call \<times> bool) list \<Rightarrow> durable \<Rightarrow> bool" where
  "always P [] s = P s"
| "always P (c # cs) s = (P (after (c # cs) s) \<and> always P cs s)"

lemma always_drop: "always P cs s \<Longrightarrow> P (after (drop n cs) s)"
proof (induction cs arbitrary: n)
  case (Cons c cs)
  then show ?case by (cases n) auto
qed simp

text \<open>An open route is an old one, or the head has the success status.\<close>

definition opened_with_status :: "durable \<Rightarrow> string \<Rightarrow> durable \<Rightarrow> bool" where
  "opened_with_status s0 head s \<longleftrightarrow> (route_open s \<longrightarrow> route_open s0 \<or> StatusOf s head = Some ''success'')"

lemma closing_always: "closing cs s \<Longrightarrow> always (opened_with_status s head) cs s"
  by (induction cs) (auto simp: opened_with_status_def)

lemma reconcile_opens:
  assumes "reconcileRoutingLabels cfg rr rep previous w = (err, w')" and closed: "closing (Calls w) s"
  shows "closing (Calls w') s \<or> route_authorised cfg rr rep \<and> always (opened_with_status s (route_head rep)) (Calls w') s"
proof (rule reconcile_cases [OF assms])
  fix w''
  assume auth: "route_authorised cfg rr rep" and plan: "PlanAutoMerge (routing_plan cfg rep previous)"
    and run: "(err, w') = applyRoutingLabelPlan rep (routing_plan cfg rep previous) w''"
    and c: "Calls w'' = (SetStatus (route_head rep) ''success'', True) # Calls w"
  have base: "always (opened_with_status s (route_head rep)) (Calls w'') s"
    unfolding c using closing_always [OF closed] by (simp add: opened_with_status_def)
  show ?thesis
    by (rule apply_auto_calls [OF plan run [symmetric]])
      (use auth base in \<open>simp_all add: c opened_with_status_def\<close>)
qed simp

lemma append_keeps:
  assumes "cs' = cs \<or> (\<exists>x b. cs' = (AppendReport x, b) # cs)"
  shows "closing cs s \<Longrightarrow> closing cs' s"
    and "always P cs s \<Longrightarrow> (\<And>x s'. P s' \<Longrightarrow> P (perform (AppendReport x) s')) \<Longrightarrow> always P cs' s"
proof -
  show "closing cs s \<Longrightarrow> closing cs' s"
    using assms by (elim disjE exE) (simp, simp only:, rule closing_harmless, simp_all)
next
  assume al: "always P cs s" and step: "\<And>x s'. P s' \<Longrightarrow> P (perform (AppendReport x) s')"
  have "P (after cs s)" using always_drop [OF al, of 0] by simp
  then have "P (after ((AppendReport x, b) # cs) s)" for x b using step [of "after cs s" x] by (cases b) (simp_all only: after_simps)
  then show "always P cs' s" using assms al by auto
qed

lemma persist_cases:
  assumes "persist cfg rr previous rep w = (res, w')"
  obtains (refused) "res = NotPersisted" "Calls w' = (AppendReport (pending_report (stamp cfg rep)), False) # Calls w"
  | (ran) w1 err w2 x b where "Calls w1 = (AppendReport (pending_report (stamp cfg rep)), True) # Calls w"
      "reconcileRoutingLabels cfg rr (stamp cfg rep) previous w1 = (err, w2)" "Calls w' = (AppendReport x, b) # Calls w2"
      "x = (case err of Some e \<Rightarrow> retry_report e (stamp cfg rep) | None \<Rightarrow> final_report cfg (stamp cfg rep))"
      "res = (if err \<noteq> None then ProjectionFailed (stamp cfg rep)
        else if b then Persisted (final_report cfg (stamp cfg rep)) else NotPersisted)"
proof -
  let ?rep = "stamp cfg rep"
  obtain ok w1 where c1: "call (AppendReport (pending_report ?rep)) w = (ok, w1)" by (metis surj_pair)
  obtain err w2 where r: "reconcileRoutingLabels cfg rr ?rep previous w1 = (err, w2)" by (metis surj_pair)
  define x where "x = (case err of Some e \<Rightarrow> retry_report e ?rep | None \<Rightarrow> final_report cfg ?rep)"
  obtain b w3 where c2: "call (AppendReport x) w2 = (b, w3)" by (metis surj_pair)
  show thesis
  proof (cases ok)
    case False
    then show thesis using refused assms c1 call_cases [OF c1] by (simp add: persist_def Let_def)
  next
    case True
    then have "(res, w') = (if err \<noteq> None then ProjectionFailed ?rep
        else if b then Persisted (final_report cfg ?rep) else NotPersisted, w3)"
      using assms c1 r c2 by (cases err; cases b) (simp_all add: persist_def Let_def x_def)
    then show thesis
      using ran [OF _ r, of x b] call_cases [OF c1] call_cases [OF c2] True by (simp add: x_def)
  qed
qed

text \<open>
  No point of a run of the gatekeeper, whatever writes fail and wherever it is cut off, leaves a merge
  route open (the trigger label without the veto) that was not open before, unless everything the
  projection reads again (merge-queue contract, pull-request state, threads, dialogue, review, head
  and base) confirmed an eligible report under auto trust, and the success status already stands on
  exactly that head.
\<close>

lemma route_opens_only_authorised:
  assumes "persist cfg rr previous rep w = (res, w')" and "Calls w = []"
    and "route_open (after (drop n (Calls w')) s)" and "\<not> route_open s"
  shows "route_authorised cfg rr (stamp cfg rep)
    \<and> StatusOf (after (drop n (Calls w')) s) (route_head (stamp cfg rep)) = Some ''success''"
proof (rule persist_cases [OF assms(1)])
  assume "Calls w' = (AppendReport (pending_report (stamp cfg rep)), False) # Calls w"
  then have "closing (Calls w') s" using assms(2) by simp
  then show ?thesis using closing_drop assms(3,4) by blast
next
  fix w1 err w2 x b
  assume w1: "Calls w1 = (AppendReport (pending_report (stamp cfg rep)), True) # Calls w"
    and r: "reconcileRoutingLabels cfg rr (stamp cfg rep) previous w1 = (err, w2)" and w': "Calls w' = (AppendReport x, b) # Calls w2"
  have closed: "closing (Calls w1) s" unfolding w1 assms(2) by (rule closing_harmless) simp_all
  have "\<not> closing (Calls w') s" using closing_drop assms(3,4) by blast
  then have "\<not> closing (Calls w2) s" using append_keeps(1) w' by blast
  then have auth: "route_authorised cfg rr (stamp cfg rep)"
    and al: "always (opened_with_status s (route_head (stamp cfg rep))) (Calls w2) s"
    using reconcile_opens [OF r closed] by blast+
  have "always (opened_with_status s (route_head (stamp cfg rep))) (Calls w') s"
    unfolding w' by (rule append_keeps(2) [OF _ al]) (auto simp: opened_with_status_def route_open_def)
  then show ?thesis using auth always_drop assms(3,4) unfolding opened_with_status_def by blast
qed

text \<open>
  C4. Under automatic trust, when a pull request that is still open is evaluated as blocked, its trigger
  label is on it and the previous record calls the route established, the projection puts the veto
  in place before it takes the trigger away, at every point a crash may leave behind (unless the veto
  itself could not be written); and once the report is recorded as final, the veto stands, the
  trigger is gone and the head's status says failure. (For a pull request that was closed or merged
  the labels are removed and no veto is written.)
\<close>

theorem blocked_route_vetoed:
  assumes "persist cfg rr previous rep w = (res, w')" and "Calls w = []" and "trustFor cfg = GatekeeperTrustAuto"
    and "established previous" and "\<not> REligible (stamp cfg rep)" and "\<not> reportIsTerminal (stamp cfg rep)"
    and open_before: "AutoMerge \<in> RouteLabels s"
  shows "(let s' = after (drop n (Calls w')) s in AutoMerge \<in> RouteLabels s' \<or> NeedsHumanReview \<in> RouteLabels s'
        \<or> (AddLabel NeedsHumanReview, False) \<in> set (Calls w'))
    \<and> (\<forall>final. res = Persisted final \<longrightarrow> (let s' = after (Calls w') s in
        NeedsHumanReview \<in> RouteLabels s' \<and> AutoMerge \<notin> RouteLabels s'
        \<and> StatusOf s' (route_head (stamp cfg rep)) = Some ''failure''))"
proof (rule persist_cases [OF assms(1)])
  assume "res = NotPersisted" and c: "Calls w' = (AppendReport (pending_report (stamp cfg rep)), False) # Calls w"
  then show ?thesis using always_drop [of "\<lambda>s'. AutoMerge \<in> RouteLabels s'" "Calls w'" s n] assms(2) open_before by simp
next
  fix w1 err w2 x b
  let ?rep = "stamp cfg rep" and ?plan = "routing_plan cfg (stamp cfg rep) previous"
  let ?ok = "\<lambda>s'. AutoMerge \<in> RouteLabels s' \<or> NeedsHumanReview \<in> RouteLabels s' \<or> (AddLabel NeedsHumanReview, False) \<in> set (Calls w')"
  assume w1: "Calls w1 = (AppendReport (pending_report ?rep), True) # Calls w"
    and r: "reconcileRoutingLabels cfg rr ?rep previous w1 = (err, w2)" and w': "Calls w' = (AppendReport x, b) # Calls w2"
    and res: "res = (if err \<noteq> None then ProjectionFailed ?rep else if b then Persisted (final_report cfg ?rep) else NotPersisted)"
  have plan: "\<not> PlanAutoMerge ?plan" "PlanNeedsHuman ?plan" "PlanRevoke ?plan"
    using assms(3-6) by (auto simp: routing_plan_def reportNeedsHumanReview_def Let_def)
  have "applyRoutingLabelPlan ?rep ?plan w1 = (err, w2)"
    using r assms(3) plan(1) by (simp add: reconcileRoutingLabels_def Let_def)
  then show ?thesis
  proof (rule apply_human_calls [OF plan(1,2)])
    fix revoked vetoed removed
    assume calls: "Calls w2 = (RemoveLabel AutoMerge, removed) # (AddLabel NeedsHumanReview, vetoed)
         # (if PlanRevoke ?plan \<and> route_head ?rep \<noteq> [] then [(SetStatus (route_head ?rep) ''failure'', revoked)] else []) @ Calls w1"
      and err: "err = (if PlanRevoke ?plan \<and> \<not> revoked then Some RevokePending else if \<not> vetoed \<or> \<not> removed then Some RoutingFailed else None)"
      and head: "PlanRevoke ?plan \<and> revoked \<longrightarrow> route_head ?rep \<noteq> []"
    have "always ?ok (Calls w') s"
      by (cases b; cases vetoed; cases removed; cases revoked)
        (simp_all add: w' calls w1 assms(2) open_before)
    note ordered = always_drop [OF this, of n]
    have "NeedsHumanReview \<in> RouteLabels (after (Calls w') s) \<and> AutoMerge \<notin> RouteLabels (after (Calls w') s)
        \<and> StatusOf (after (Calls w') s) (route_head ?rep) = Some ''failure''" if "res = Persisted final" for final
      using that res err head plan(3) by (simp add: w' calls split: if_split_asm)
    then show ?thesis using ordered by (simp only: Let_def) blast
  qed
qed

section \<open>The projection of an evaluation\<close>

lemma revalidation_gate_final:
  assumes "revalidation_gate cfg d m read rep = Inr rep'" and "RReasons rep' = []"
  shows "EState (REvidence rep') = EState (REvidence rep) \<and> EFinalHead (REvidence rep') = RObservedHead rep'"
  using assms by (auto simp: revalidation_gate_def Let_def split: option.splits if_splits)

lemma run_gates_open:
  assumes run: "run_gates cfg rd rep0 = Inr rep" and clean: "RReasons rep = []"
  shows "EState (REvidence rep) = ''OPEN'' \<and> EFinalHead (REvidence rep) = RObservedHead rep"
proof -
  from run obtain rep1 d rep2 codex rep3 m rep4 rep5 rep6 pr rep7 rep8 rep9 where
    view: "view_gate cfg (ReadDetail rd) rep0 = Inr (rep1, d)" and codex: "codex_gate cfg (ReadReviewEvents rd) rep1 = Inr (rep2, codex)"
    and merge: "mergeability_gate cfg (ReadMergeability rd)
       (local_gates cfg d (observeReviewProvenance (ReadReviews rd) (ReadComments rd)) rep2) = Inr (rep3, m)"
    and capacity: "capacity_gate cfg d m codex rep3 = Inr rep4" and budget: "budget_gate cfg d m rep4 = Inr rep5"
    and checks: "checks_gate cfg (ReadProtection rd) (ReadChecks rd) rep5 = Inr (rep6, pr)"
    and threads: "threads_gate (ReadThreads rd) (review_decision_gate pr rep6) = Inr rep7"
    and conv: "convergence_gate cfg (ReadLoops rd) rep7 = Inr rep8"
    and marker: "marker_gate cfg (ReadLogin rd) (ReadMarker rd) rep8 = Inr rep9"
    and final: "revalidation_gate cfg d m (final_read cfg rd rep9) rep9 = Inr rep"
    by (rule run_gatesE)
  have "keeps rep2 rep9"
    using extends_keeps [OF local_gates_ok(1)] extends_keeps [OF mergeability_gate_ok(3) [OF merge]] capacity_gate_ok(1) [OF capacity]
      extends_keeps [OF budget_gate_ok(1) [OF budget]] extends_keeps [OF checks_gate_ok(2) [OF checks]]
      extends_keeps [OF review_decision_gate_ok(1)] extends_keeps [OF threads_gate_ok(1) [OF threads]]
      extends_keeps [OF convergence_gate_ok(1) [OF conv]] marker_gate_ok(1) [OF marker]
    by (meson keeps_trans)
  moreover have "EState (REvidence rep2) = to_upper (trim_space (DState d))"
    using view_gate_ok(4) [OF view] codex_gate_ok(4) [OF codex] by simp
  moreover have "to_upper (trim_space (DState d)) = ''OPEN''"
    using run_gates_sound [OF run clean] view_gate_ok(1) [OF view] by (auto simp: merge_allowed_def change_allowed_def)
  ultimately show ?thesis using revalidation_gate_final [OF final clean] by (simp add: keeps_def)
qed

lemma evaluated_open:
  assumes "EvaluatePullRequest cfg now fingerprint rd = Inr rep" and "REligible rep"
  shows "\<not> reportIsTerminal rep" and "route_head rep = trim_space (RObservedHead rep)" and "stamp cfg rep = rep"
proof -
  obtain r where r: "run_gates cfg rd (new_report cfg now fingerprint) = Inr r" "RReasons r = []" "rep = stamp cfg r"
    using eligible_ran_through [OF assms] .
  then have "EState (REvidence r) = ''OPEN'' \<and> EFinalHead (REvidence r) = RObservedHead r"
    using run_gates_open by blast
  moreover have "to_upper (trim_space ''OPEN'') = ''OPEN''" by code_simp
  ultimately show "\<not> reportIsTerminal rep" "route_head rep = trim_space (RObservedHead rep)"
    using r(2,3) by (simp_all add: reportIsTerminal_def stamp_def Let_def sortReasons_def hasReasonCode_def route_head_def)
  show "stamp cfg rep = rep" using r(2,3) by (simp add: stamp_def Let_def sortReasons_def)
qed

text \<open>
  C1. Over the whole pass, from the evaluation to the projection: a merge route that is opened belongs
  to a pull request the gatekeeper found eligible, so everything \<open>merge_allowed\<close> says held of what it
  read, at the head whose status allows the merge.
\<close>

theorem routed_change_was_allowed:
  assumes "EvaluatePullRequest cfg now fingerprint rd = Inr rep" and "persist cfg rr previous rep w = (res, w')"
    and "Calls w = []" and "route_open (after (drop n (Calls w')) s)" and "\<not> route_open s"
  shows "merge_allowed cfg rd (RObservedHead rep) \<and> route_authorised cfg rr rep
    \<and> StatusOf (after (drop n (Calls w')) s) (trim_space (RObservedHead rep)) = Some ''success''"
proof -
  note opened = route_opens_only_authorised [OF assms(2-5)]
  obtain r0 where "rep = stamp cfg r0" using assms(1) by (auto simp: EvaluatePullRequest_def split: if_splits)
  then have "REligible (stamp cfg rep) = REligible rep" by (simp add: stamp_def Let_def)
  then have e: "REligible rep" using opened by (simp add: route_authorised_def)
  obtain r where "run_gates cfg rd (new_report cfg now fingerprint) = Inr r" "RReasons r = []" "rep = stamp cfg r"
    using eligible_ran_through [OF assms(1) e] .
  then have "merge_allowed cfg rd (RObservedHead rep)" using run_gates_sound by (simp add: stamp_def Let_def)
  then show ?thesis using evaluated_open [OF assms(1) e] opened by simp
qed

lemma stamp_idem: "stamp cfg (stamp cfg rep) = stamp cfg rep"
  by (simp add: stamp_def Let_def sortReasons_def sort_key_id_if_sorted)

lemma evaluated_stamped:
  assumes "EvaluatePullRequest cfg now fingerprint rd = Inr rep"
  shows "stamp cfg rep = rep" and "RRouteEstablished rep = Some False"
  using assms by (auto simp: EvaluatePullRequest_def stamp_idem stamp_def Let_def sortReasons_def sort_key_id_if_sorted split: if_splits)

lemma applied_removes_trigger:
  assumes "\<not> PlanAutoMerge plan" and "applyRoutingLabelPlan rep plan w = (None, w')"
  shows "AutoMerge \<notin> RouteLabels (after (Calls w') s)"
proof (cases "PlanNeedsHuman plan")
  case True
  show ?thesis by (rule apply_human_calls [OF assms(1) True assms(2)]) (simp split: if_splits)
next
  case False
  from apply_removal_calls [OF assms(1) False assms(2)] show ?thesis
    by cases (simp_all split: if_splits)
qed

lemma applied_keeps_log:
  assumes "\<not> PlanAutoMerge plan" and "applyRoutingLabelPlan rep plan w = (err, w')"
  shows "PLog (after (Calls w') s) = PLog (after (Calls w) s)"
proof (cases "PlanNeedsHuman plan")
  case True
  show ?thesis
  proof (rule apply_human_calls [OF assms(1) True assms(2)])
    fix revoked vetoed removed
    assume "Calls w' = (RemoveLabel AutoMerge, removed) # (AddLabel NeedsHumanReview, vetoed)
       # (if PlanRevoke plan \<and> route_head rep \<noteq> [] then [(SetStatus (route_head rep) ''failure'', revoked)] else []) @ Calls w"
    then show ?thesis by (cases removed; cases vetoed; cases revoked) simp_all
  qed
next
  case False
  from apply_removal_calls [OF assms(1) False assms(2)] show ?thesis
  proof cases
    case (2 removed)
    then show ?thesis by (cases removed) simp_all
  qed simp
qed

text \<open>
  C5. The final record agrees with the forge: after a pass that was recorded as final outside observe
  trust, the newest record is that report, and it says the route is established exactly when the
  pull request has the trigger and no veto, with the success status on the report's head; otherwise
  the trigger is gone.
\<close>

theorem final_record_agrees:
  assumes "EvaluatePullRequest cfg now fingerprint rd = Inr rep" and "persist cfg rr previous rep w = (Persisted final, w')"
    and "Calls w = []" and "trustFor cfg \<noteq> GatekeeperTrustObserve"
  shows "let s' = after (Calls w') s in PLog s' = final # pending_report rep # PLog s
    \<and> (if reportRouteEstablished final
       then route_open s' \<and> StatusOf s' (trim_space (RObservedHead rep)) = Some ''success'' else AutoMerge \<notin> RouteLabels s')"
proof (rule persist_cases [OF assms(2)])
  fix w1 err w2 x b
  note st = evaluated_stamped [OF assms(1)]
  assume w1: "Calls w1 = (AppendReport (pending_report (stamp cfg rep)), True) # Calls w"
    and r: "reconcileRoutingLabels cfg rr (stamp cfg rep) previous w1 = (err, w2)" and w': "Calls w' = (AppendReport x, b) # Calls w2"
    and x: "x = (case err of Some e \<Rightarrow> retry_report e (stamp cfg rep) | None \<Rightarrow> final_report cfg (stamp cfg rep))"
    and res: "Persisted final = (if err \<noteq> None then ProjectionFailed (stamp cfg rep)
        else if b then Persisted (final_report cfg (stamp cfg rep)) else NotPersisted)"
  let ?plan = "routing_plan cfg rep previous"
  have f: "err = None" "b" "final = final_report cfg rep" "x = final" using res x st(1) by (simp_all split: if_splits)
  have est: "reportRouteEstablished final \<longleftrightarrow> PlanAutoMerge ?plan"
    using f(3) st evaluated_open(1) [OF assms(1)] by (auto simp: final_report_def reportRouteEstablished_def routing_plan_auto)
  note r = r [unfolded st(1) f(1)]
  have closed: "closing (Calls w1) s" unfolding w1 assms(3) by (rule closing_harmless) simp_all
  show ?thesis
  proof (cases "PlanAutoMerge ?plan")
    case True
    then have e: "REligible rep" by (simp add: routing_plan_auto)
    show ?thesis
    proof (rule reconcile_cases [OF r closed])
      fix w''
      assume run: "(None, w2) = applyRoutingLabelPlan rep ?plan w''"
        and c: "Calls w'' = (SetStatus (route_head rep) ''success'', True) # Calls w1"
      show ?thesis
        by (rule apply_auto_calls [OF True run [symmetric]])
          (use True est evaluated_open(2) [OF assms(1) e] in
            \<open>simp_all add: w' f c w1 assms(3) st(1) route_open_def Let_def\<close>)
    qed (use True in simp)
  next
    case False
    then have run: "applyRoutingLabelPlan rep ?plan w1 = (None, w2)"
      using r assms(4) by (simp add: reconcileRoutingLabels_def Let_def)
    have "PLog (after (Calls w2) s) = pending_report rep # PLog s"
      using applied_keeps_log [OF False run] by (simp add: w1 assms(3) st(1))
    then show ?thesis using False est applied_removes_trigger [OF False run, of s] by (simp add: w' f Let_def)
  qed
qed simp

section \<open>Crashes and failed writes\<close>

definition no_calls :: route_run where "no_calls = \<lparr>Script = [], Calls = []\<rparr>"

lemma no_calls_fresh [simp]: "Calls no_calls = []"
  by (simp add: no_calls_def)

text \<open>A report of the given reasons, and the record of a route that was opened.\<close>

definition sample_report :: "string \<Rightarrow> Reason list \<Rightarrow> Report" where
  "sample_report head reasons = (new_report (sample_config ''auto'' 0) ''t'' ''f'')\<lparr>RObservedHead := head, RReasons := reasons,
     REvidence := no_evidence\<lparr>EState := ''OPEN'', EFinalHead := head\<rparr>\<rparr>"

definition open_route :: durable where
  "open_route = \<lparr>RouteLabels = {AutoMerge}, StatusOf = [''abc'' \<mapsto> ''success''],
     PLog = [final_report (sample_config ''auto'' 0) (stamp (sample_config ''auto'' 0) (sample_report ''abc'' []))]\<rparr>"

lemma open_route_trigger: "AutoMerge \<in> RouteLabels open_route"
  by (simp add: open_route_def)

definition no_reads :: route_reads where
  "no_reads = \<lparr>MergifyContract = False, RouteDetail = None, RoutePermits = (\<lambda>_. False), RouteThreads = None, RouteLoops = None,
     RouteReviews = None, RouteHeadAndBase = None, RouteHead = None\<rparr>"

definition latest_record :: "durable \<Rightarrow> Report option" where
  "latest_record s = (case PLog s of [] \<Rightarrow> None | r # _ \<Rightarrow> Some r)"

text \<open>One evaluation with the given reasons whose writes go as the script says, cut off after \<open>k\<close> calls.\<close>

definition pass_cut :: "nat \<Rightarrow> bool list \<Rightarrow> Reason list \<Rightarrow> durable \<Rightarrow> durable" where
  "pass_cut k script reasons s =
     (let calls = Calls (snd (persist (sample_config ''auto'' 0) no_reads (latest_record s) (sample_report ''abc'' reasons)
        (no_calls\<lparr>Script := script\<rparr>)))
      in after (drop (length calls - k) calls) s)"

lemma sample_auto: "trustFor (sample_config ''auto'' 0) = GatekeeperTrustAuto"
  by code_simp

text \<open>A pull request under auto trust, its report, and reads that confirm it.\<close>

definition auto_reads :: gate_reads where
  "auto_reads = (sample_reads (sample_detail ''b'' [''a'']) (sample_detail ''b'' [''a'']))\<lparr>ReadProtection := Some
     \<lparr>RequiredChecks = [''build'', ''Looper Gatekeeper''], RequiredCheckRules = [], HasRequiredReviews = False,
      RequiredApprovingReviewCount = 0\<rparr>\<rparr>"

definition auto_step :: "Evidence \<Rightarrow> Report" where
  "auto_step e = (new_report (sample_config ''auto'' 0) ''t'' ''f'')\<lparr>RObservedHead := ''abc'', REvidence := e\<rparr>"

definition auto_review :: CodexReviewEvidence where
  "auto_review = \<lparr>RequiredHeadSHA = ''abc'', ReviewedHeadSHA = ''abc'', RevEvent = ''COMMENT'', RevOutcome = ''clean'',
     RecordedAt = ''t'', CurrentHeadValid = True\<rparr>"

definition viewed :: Evidence where
  "viewed = no_evidence\<lparr>EState := ''OPEN'', EBaseRefName := ''main'', EBaseSHA := ''b'', EChangedLines := 4\<rparr>"

definition reviewed :: Evidence where
  "reviewed = viewed\<lparr>ECodexReview := Some auto_review, ECodexOutcome := ''clean''\<rparr>"

definition mergeable :: Evidence where
  "mergeable = reviewed\<lparr>EProvenance := observeReviewProvenance None None, EPolicyPermits := True, EMergeable := Some True,
     EMergeableState := ''clean''\<rparr>"

definition checked :: Evidence where
  "checked = mergeable\<lparr>ERequiredChecks := [''Looper Gatekeeper'', ''build''],
     EChecks := [\<lparr>EvName = ''build'', EvAppID = 0, EvStatus = ''completed'', EvConclusion = ''success''\<rparr>]\<rparr>"

definition auto_report :: Report where
  "auto_report = stamp (sample_config ''auto'' 0) (auto_step (checked\<lparr>EFinalHead := ''abc'', EFinalBase := ''b''\<rparr>))"

definition confirming_reads :: route_reads where
  "confirming_reads = \<lparr>MergifyContract = True, RouteDetail = Some (sample_detail ''b'' [''a'']), RoutePermits = (\<lambda>_. True),
     RouteThreads = Some [(''t1'', True)], RouteLoops = Some [], RouteReviews = Some [sample_review],
     RouteHeadAndBase = Some (''abc'', ''b''), RouteHead = Some ''abc''\<rparr>"

lemma auto_stages:
  defines "cfg \<equiv> sample_config ''auto'' 0" and "d \<equiv> sample_detail ''b'' [''a'']"
  shows "view_gate cfg (ReadDetail auto_reads) (new_report cfg ''t'' ''f'') = Inr (auto_step viewed, d)"
    and "codex_gate cfg (ReadReviewEvents auto_reads) (auto_step viewed) = Inr (auto_step reviewed, auto_review)"
    and "mergeability_gate cfg (ReadMergeability auto_reads)
      (local_gates cfg d (observeReviewProvenance (ReadReviews auto_reads) (ReadComments auto_reads)) (auto_step reviewed))
        = Inr (auto_step mergeable, d)"
    and "capacity_gate cfg d d auto_review (auto_step mergeable) = Inr (auto_step mergeable)"
    and "budget_gate cfg d d (auto_step mergeable) = Inr (auto_step mergeable)"
    and "capacity_base_gate cfg d d (auto_step mergeable) = Inr (auto_step mergeable)"
    and "checks_gate cfg (ReadProtection auto_reads) (ReadChecks auto_reads) (auto_step mergeable)
        = Inr (auto_step checked, the (ReadProtection auto_reads))"
    and "threads_gate (ReadThreads auto_reads) (review_decision_gate (the (ReadProtection auto_reads)) (auto_step checked))
        = Inr (auto_step checked)"
    and "convergence_gate cfg (ReadLoops auto_reads) (auto_step checked) = Inr (auto_step checked)"
    and "marker_gate cfg (ReadLogin auto_reads) (ReadMarker auto_reads) (auto_step checked) = Inr (auto_step checked)"
    and "revalidation_gate cfg d d (final_read cfg auto_reads (auto_step checked)) (auto_step checked)
        = Inr (auto_step (checked\<lparr>EFinalHead := ''abc'', EFinalBase := ''b''\<rparr>))"
  unfolding cfg_def d_def by code_simp+

lemma auto_evaluated: "EvaluatePullRequest (sample_config ''auto'' 0) ''t'' ''f'' auto_reads = Inr auto_report"
proof -
  have "run_gates (sample_config ''auto'' 0) auto_reads (new_report (sample_config ''auto'' 0) ''t'' ''f'')
      = Inr (auto_step (checked\<lparr>EFinalHead := ''abc'', EFinalBase := ''b''\<rparr>))"
    unfolding run_gates_def by (simp only: auto_stages bind_result.simps prod.case)
  then show ?thesis by (simp add: EvaluatePullRequest_def auto_report_def sample_config_def sample_strings)
qed

lemma auto_persisted:
  "fst (persist (sample_config ''auto'' 0) confirming_reads None auto_report no_calls)
     = Persisted (final_report (sample_config ''auto'' 0) auto_report)"
  "route_open (after (Calls (snd (persist (sample_config ''auto'' 0) confirming_reads None auto_report no_calls)))
     \<lparr>RouteLabels = {}, StatusOf = Map.empty, PLog = []\<rparr>)"
  by code_simp+

theorem routed_change_was_allowed_witness:
  "merge_allowed (sample_config ''auto'' 0) auto_reads (RObservedHead auto_report)"
proof -
  obtain res w' where p: "persist (sample_config ''auto'' 0) confirming_reads None auto_report no_calls = (res, w')"
    by (metis surj_pair)
  have "route_open (after (drop 0 (Calls w')) \<lparr>RouteLabels = {}, StatusOf = Map.empty, PLog = []\<rparr>)"
    using auto_persisted(2) p by simp
  from routed_change_was_allowed [OF auto_evaluated p _ this] show ?thesis by (simp add: route_open_def)
qed

theorem final_record_agrees_witness:
  "PLog (after (Calls (snd (persist (sample_config ''auto'' 0) confirming_reads None auto_report no_calls)))
     \<lparr>RouteLabels = {}, StatusOf = Map.empty, PLog = []\<rparr>)
   = [final_report (sample_config ''auto'' 0) auto_report, pending_report auto_report]"
proof -
  obtain w' where p: "persist (sample_config ''auto'' 0) confirming_reads None auto_report no_calls
      = (Persisted (final_report (sample_config ''auto'' 0) auto_report), w')"
    using auto_persisted(1) by (metis prod.collapse)
  show ?thesis
    using final_record_agrees [OF auto_evaluated p, of "\<lparr>RouteLabels = {}, StatusOf = Map.empty, PLog = []\<rparr>"]
    by (simp add: sample_auto p Let_def)
qed

text \<open>
  A crash right after the pending record of a blocked report forgets that the route was open: the next
  complete evaluation of the same blocked pull request takes the trigger away but leaves neither a veto
  nor a failure status, although the queue may have accepted the pull request. Without the crash both
  are written.
\<close>

lemma crash_forgets_route:
  shows "let s = pass_cut 4 [] [reason ReasonCheckFailed []] (pass_cut 1 [] [reason ReasonCheckFailed []] open_route) in
      NeedsHumanReview \<notin> RouteLabels s \<and> StatusOf s ''abc'' = Some ''success''"
    and "let s = pass_cut 5 [] [reason ReasonCheckFailed []] open_route in
      NeedsHumanReview \<in> RouteLabels s \<and> StatusOf s ''abc'' = Some ''failure''"
  by code_simp+

text \<open>
  When the trigger is written and only the removal of the veto fails, the record says the route is not
  established, and the crash recovery does not look at it either, although the route is open (here
  there was no veto to remove).
\<close>

lemma open_route_unrecorded:
  "(case persist (sample_config ''auto'' 0) confirming_reads None auto_report (no_calls\<lparr>Script := [True, True, True, False]\<rparr>) of
      (res, w) \<Rightarrow>
        let s = after (Calls w) \<lparr>RouteLabels = {}, StatusOf = Map.empty, PLog = []\<rparr> in
        route_open s \<and> \<not> established (latest_record s) \<and> \<not> reportNeedsRouteRecovery (hd (PLog s)))"
  by code_simp

theorem blocked_route_vetoed_witness:
  "NeedsHumanReview \<in> RouteLabels (after (Calls (snd (persist (sample_config ''auto'' 0) no_reads (latest_record open_route)
     (sample_report ''abc'' [reason ReasonCheckFailed []]) no_calls))) open_route)"
proof -
  let ?rep = "sample_report ''abc'' [reason ReasonCheckFailed []]"
  obtain final w' where p: "persist (sample_config ''auto'' 0) no_reads (latest_record open_route) ?rep no_calls = (Persisted final, w')"
  proof -
    have "case fst (persist (sample_config ''auto'' 0) no_reads (latest_record open_route) ?rep no_calls) of Persisted _ \<Rightarrow> True | _ \<Rightarrow> False"
      by code_simp
    then show thesis
      using that by (cases "persist (sample_config ''auto'' 0) no_reads (latest_record open_route) ?rep no_calls")
        (auto split: persist_result.splits)
  qed
  have "established (latest_record open_route)" "\<not> REligible (stamp (sample_config ''auto'' 0) ?rep)"
      "\<not> reportIsTerminal (stamp (sample_config ''auto'' 0) ?rep)"
    by code_simp+
  from blocked_route_vetoed [OF p _ sample_auto this, of open_route 0] show ?thesis
    by (simp add: p open_route_trigger Let_def)
qed

end
