(* ===== verification/Go_Scan.thy ===== *)
theory Go_Scan
  imports Domain
begin

text \<open>
  Reading integers the way Go's \<open>fmt\<close> package does it: \<open>fmt.Sscan\<close> into an \<open>int64\<close> accepts
  base prefixes and digit separators, \<open>fmt.Sscanf\<close> with \<open>%d\<close> plain decimal digits; both skip
  leading white space, stop at the first character that cannot belong to the number, and fail
  on an empty token or outside the 64-bit range. Both read back what \<open>%d\<close> prints.
\<close>

section \<open>Numbers as Go scans them\<close>

definition digit_of :: "char \<Rightarrow> nat" where
  "digit_of c = (let n = of_char c in
     if 48 \<le> n \<and> n \<le> 57 then n - 48
     else if 97 \<le> n \<and> n \<le> 122 then n - 87
     else if 65 \<le> n \<and> n \<le> 90 then n - 55 else 99)"

definition digit_below :: "nat \<Rightarrow> char \<Rightarrow> bool" where
  "digit_below base c \<longleftrightarrow> digit_of c < base"

text \<open>\<open>strconv.ParseUint\<close> on the digits, without its range check, which \<open>parse_int\<close> makes.\<close>

fun parse_uint :: "bool \<Rightarrow> nat \<Rightarrow> nat \<Rightarrow> string \<Rightarrow> nat option" where
  "parse_uint separators base acc [] = Some acc"
| "parse_uint separators base acc (c # cs) =
     (if separators \<and> c = CHR ''_'' then parse_uint separators base acc cs
      else if digit_below base c then parse_uint separators base (acc * base + digit_of c) cs
      else None)"

text \<open>\<open>underscoreOK\<close> of \<open>strconv\<close>: the second argument is the kind of the previous character.\<close>

datatype underscore_state = Begin | AfterDigit | AfterUnderscore | AfterOther

fun underscores :: "bool \<Rightarrow> underscore_state \<Rightarrow> string \<Rightarrow> bool" where
  "underscores hex st [] = (st \<noteq> AfterUnderscore)"
| "underscores hex st (c # cs) =
     (if digit_below 10 c \<or> (hex \<and> digit_below 16 c) then underscores hex AfterDigit cs
      else if c = CHR ''_'' then st = AfterDigit \<and> underscores hex AfterUnderscore cs
      else st \<noteq> AfterUnderscore \<and> underscores hex AfterOther cs)"

fun base_prefix :: "string \<Rightarrow> nat option" where
  "base_prefix (z # c # _) = (if z \<noteq> CHR ''0'' then None
     else if lower_char c = CHR ''b'' then Some 2
     else if lower_char c = CHR ''o'' then Some 8
     else if lower_char c = CHR ''x'' then Some 16 else None)"
| "base_prefix _ = None"

definition underscore_ok :: "string \<Rightarrow> bool" where
  "underscore_ok s = (case base_prefix s of
       Some base \<Rightarrow> underscores (base = 16) AfterDigit (drop 2 s)
     | None \<Rightarrow> underscores False Begin s)"

definition int64_of :: "bool \<Rightarrow> nat \<Rightarrow> int option" where
  "int64_of neg n = (let v = (if neg then - int n else int n)
     in if - 9223372036854775808 \<le> v \<and> v < 9223372036854775808 then Some v else None)"

fun split_sign :: "string \<Rightarrow> bool \<times> string" where
  "split_sign (c # cs) = (if c = CHR ''-'' then (True, cs) else if c = CHR ''+'' then (False, cs)
     else (False, c # cs))"
| "split_sign [] = (False, [])"

text \<open>\<open>strconv.ParseInt\<close> of the unsigned token, in base 10 and in base 0.\<close>

definition parse_decimal :: "bool \<Rightarrow> string \<Rightarrow> int option" where
  "parse_decimal neg tok = (if tok = [] then None
     else Option.bind (parse_uint False 10 0 tok) (int64_of neg))"

definition parse_any_base :: "bool \<Rightarrow> string \<Rightarrow> int option" where
  "parse_any_base neg tok = (if tok = [] then None
     else (let (base, ds) = (if hd tok \<noteq> CHR ''0'' then (10, tok)
             else case base_prefix tok of
                 Some base \<Rightarrow> (if length tok \<ge> 3 then (base, drop 2 tok) else (8, tl tok))
               | None \<Rightarrow> (8, tl tok))
           in if CHR ''_'' \<in> set tok \<and> \<not> underscore_ok tok then None
              else Option.bind (parse_uint True base 0 ds) (int64_of neg)))"

text \<open>The token \<open>fmt\<close> cuts from the input, for the verbs \<open>%d\<close> and \<open>%v\<close>.\<close>

definition decimal_token :: "string \<Rightarrow> string" where
  "decimal_token = takeWhile (digit_below 10)"

definition any_base_token :: "string \<Rightarrow> string" where
  "any_base_token s = (let digits = (\<lambda>base. takeWhile (\<lambda>c. digit_below base c \<or> c = CHR ''_'')) in
     if s = [] \<or> hd s \<noteq> CHR ''0'' then digits 10 s
     else case base_prefix s of
         Some base \<Rightarrow> take 2 s @ digits base (drop 2 s)
       | None \<Rightarrow> CHR ''0'' # digits 8 (tl s))"

text \<open>\<open>fmt.Sscan(s, &n)\<close>.\<close>

definition sscan_int :: "string \<Rightarrow> int option" where
  "sscan_int s = (let (neg, r) = split_sign (dropWhile is_space s) in parse_any_base neg (any_base_token r))"

text \<open>\<open>fmt.Sscanf(s, "%d", &n)\<close>: a line break before the number is an error.\<close>

definition sscanf_int :: "string \<Rightarrow> int option" where
  "sscanf_int s = (let (neg, r) = split_sign (dropWhile (\<lambda>c. is_space c \<and> c \<noteq> CHR 0x0A) s)
     in parse_decimal neg (decimal_token r))"

section \<open>Reading back what was printed\<close>

lemma digit_char [simp]: "k < 10 \<Longrightarrow> digit_of (char_of (48 + k)) = k"
  by (simp add: digit_of_def of_char_of Let_def)

lemma digit_char_below [simp]: "(k :: nat) < 10 \<Longrightarrow> digit_below 10 (char_of (48 + k))"
  by (simp add: digit_below_def)

lemma digits_below: "c \<in> set (nat_digits n) \<Longrightarrow> digit_below 10 c"
proof (induction n rule: nat_digits.induct)
  case (1 n)
  then show ?case by (subst (asm) nat_digits.simps) (auto split: if_splits)
qed

lemma parse_uint_append: "parse_uint u b acc (xs @ ys)
    = Option.bind (parse_uint u b acc xs) (\<lambda>a. parse_uint u b a ys)"
  by (induction xs arbitrary: acc) auto

lemma other_values: "digit_of (CHR ''_'') = 99" "digit_of (CHR ''-'') = 99" "digit_of (CHR ''+'') = 99"
  "digit_of (CHR '' '') = 99" "digit_of (CHR 0x09) = 99" "digit_of (CHR 0x0A) = 99" "digit_of (CHR 0x0B) = 99"
  "digit_of (CHR 0x0C) = 99" "digit_of (CHR 0x0D) = 99"
  by code_simp+

lemma digit_not_underscore: "digit_below 10 c \<Longrightarrow> c \<noteq> CHR ''_''"
  by (auto simp: digit_below_def other_values)

lemma parse_nat_digits: "parse_uint u 10 0 (nat_digits n) = Some n"
proof (induction n rule: nat_digits.induct)
  case (1 n)
  have sep: "(char_of (48 + k) :: char) \<noteq> CHR ''_''" if "k < 10" for k :: nat
    using digit_not_underscore [OF digit_char_below [OF that]] .
  show ?case
  proof (cases "n < 10")
    case True
    then show ?thesis by (subst nat_digits.simps) (simp add: sep)
  next
    case False
    then show ?thesis
      using "1.IH" by (subst nat_digits.simps) (simp add: parse_uint_append sep)
  qed
qed

lemma token_of_digits: "(\<And>c. digit_below 10 c \<Longrightarrow> P c) \<Longrightarrow> takeWhile P (nat_digits n) = nat_digits n"
  using digits_below by (auto simp: takeWhile_eq_all_conv)

lemma nat_digits_hd: "n > 0 \<Longrightarrow> hd (nat_digits n) \<noteq> CHR ''0''"
proof (induction n rule: nat_digits.induct)
  case (1 n)
  show ?case
  proof (cases "n < 10")
    case True
    then have one: "nat_digits n = [char_of (48 + n)]" by (subst nat_digits.simps) (simp only: if_True)
    have zero: "digit_of (CHR ''0'') = 0" by code_simp
    show ?thesis
    proof
      assume "hd (nat_digits n) = CHR ''0''"
      then have "digit_of (char_of (48 + n)) = 0" unfolding one list.sel zero [symmetric] by (rule arg_cong)
      with True "1.prems" show False by simp
    qed
  next
    case False
    then show ?thesis
      using "1.IH" by (subst nat_digits.simps) (simp add: hd_append)
  qed
qed

lemma digit_plain: "digit_below 10 c \<Longrightarrow> \<not> is_space c \<and> c \<noteq> CHR ''-'' \<and> c \<noteq> CHR ''+''"
  by (auto simp: digit_below_def is_space_def other_values)

lemma nat_digits_start: "\<exists>c cs. nat_digits n = c # cs \<and> digit_below 10 c"
  using digits_below [of _ n] by (cases "nat_digits n") auto

lemma sscan_printed: "0 < n \<Longrightarrow> n < 2 ^ 63 \<Longrightarrow> sscan_int (nat_digits n) = Some (int n)"
proof -
  assume n: "0 < n" "n < 2 ^ 63"
  obtain c cs where d: "nat_digits n = c # cs" "digit_below 10 c" using nat_digits_start by blast
  from d digit_plain have start: "dropWhile is_space (nat_digits n) = nat_digits n"
    "split_sign (nat_digits n) = (False, nat_digits n)"
    by auto
  have h: "hd (nat_digits n) \<noteq> CHR ''0''" using n nat_digits_hd by simp
  have "takeWhile (\<lambda>c. digit_below 10 c \<or> c = CHR ''_'') (nat_digits n) = nat_digits n"
    by (rule token_of_digits) simp
  with h have token: "any_base_token (nat_digits n) = nat_digits n"
    by (simp only: any_base_token_def Let_def if_True simp_thms)
  have "CHR ''_'' \<notin> set (nat_digits n)"
    using digits_below digit_not_underscore by blast
  then show ?thesis
    using n h by (simp add: sscan_int_def start token parse_any_base_def parse_nat_digits
        int64_of_def Let_def)
qed

lemma sscanf_printed: "n < 2 ^ 63 \<Longrightarrow> sscanf_int (nat_digits n) = Some (int n)"
proof -
  assume n: "n < 2 ^ 63"
  obtain c cs where d: "nat_digits n = c # cs" "digit_below 10 c" using nat_digits_start by blast
  from d digit_plain have start: "dropWhile (\<lambda>c. is_space c \<and> c \<noteq> CHR 0x0A) (nat_digits n) = nat_digits n"
    "split_sign (nat_digits n) = (False, nat_digits n)"
    by auto
  have token: "decimal_token (nat_digits n) = nat_digits n"
    unfolding decimal_token_def by (rule token_of_digits)
  from n show ?thesis
    by (simp add: sscanf_int_def start token parse_decimal_def parse_nat_digits int64_of_def)
qed

end
