(* ===== verification/Loop_Store.thy ===== *)
theory Loop_Store
  imports Queue_Facts Go_Scan
begin

text \<open>
  The loops of the store (\<open>LoopsRepository\<close> of \<open>internal/storage/repositories.go\<close>): guarded
  insertion, the sequence counter, source-issue admission and the listings. The store gains the
  \<open>loop_seq\<close> row of the counters table. Decoding a metadata document with the three Go structs
  the code uses is the JSON library's work and a parameter \<open>js\<close>; \<open>None\<close> is a decoding error.
  Every operation reads and writes in one transaction, so an error leaves the store.
\<close>

section \<open>Names of statuses, types and targets\<close>

fun status_name :: "LoopStatus \<Rightarrow> string" where
  "status_name LIdle = ''idle''"
| "status_name LQueued = ''queued''"
| "status_name LRunning = ''running''"
| "status_name LPaused = ''paused''"
| "status_name LWaiting = ''waiting''"
| "status_name LStopped = ''stopped''"
| "status_name LTerminated = ''terminated''"
| "status_name LCompleted = ''completed''"
| "status_name LFailed = ''failed''"
| "status_name LInterrupted = ''interrupted''"
| "status_name LAwaitingHuman = ''awaiting_human''"
| "status_name LHumanTakeover = ''human_takeover''"
| "status_name (OtherLoopStatus s) = s"

definition named_statuses :: "LoopStatus list" where
  "named_statuses = [LIdle, LQueued, LRunning, LPaused, LWaiting, LStopped, LTerminated, LCompleted,
     LFailed, LInterrupted, LAwaitingHuman, LHumanTakeover]"

definition status_of :: "string \<Rightarrow> LoopStatus" where
  "status_of s = (case find (\<lambda>st. status_name st = s) named_statuses of
     Some st \<Rightarrow> st | None \<Rightarrow> OtherLoopStatus s)"

fun type_name :: "LoopType \<Rightarrow> string" where
  "type_name Planner = ''planner''"
| "type_name Reviewer = ''reviewer''"
| "type_name Worker = ''worker''"
| "type_name Fixer = ''fixer''"
| "type_name (OtherLoopType s) = s"

definition type_of :: "string \<Rightarrow> LoopType" where
  "type_of s = (case find (\<lambda>t. type_name t = s) LoopTypes of Some t \<Rightarrow> t | None \<Rightarrow> OtherLoopType s)"

fun target_name :: "LoopTargetType \<Rightarrow> string" where
  "target_name TargetProject = ''project''"
| "target_name TargetPullRequest = ''pull_request''"
| "target_name TargetIssue = ''issue''"
| "target_name (OtherTarget s) = s"

definition target_of :: "string \<Rightarrow> LoopTargetType" where
  "target_of s = (case find (\<lambda>t. target_name t = s) [TargetProject, TargetPullRequest, TargetIssue] of
     Some t \<Rightarrow> t | None \<Rightarrow> OtherTarget s)"

definition conflicting_active :: "LoopRecord \<Rightarrow> bool" where
  "conflicting_active l = IsConflictingActiveLoopStatus (status_of (LoopStat l))"

section \<open>The table\<close>

record loop_db =
  DB :: store
  LoopSeqCounter :: "int option"

record metadata_json =
  decode_override :: "string \<Rightarrow> bool option"
  decode_source_worker :: "string \<Rightarrow> string option"
  decode_worker_issue :: "string \<Rightarrow> (int \<times> string \<times> string) option"

datatype loop_error =
    LoopCheckConstraint
  | LoopUniqueSeq
  | LoopForeignKey
  | ErrLoopHumanHeld string
  | IssueClaimConflictError int string string
  | SourceWorkerMismatch string string int

definition loop_row_checks :: "LoopRecord \<Rightarrow> bool" where
  "loop_row_checks l \<longleftrightarrow> LoopTargetTyp l \<in> {''project'', ''pull_request'', ''issue''}
     \<and> (case LoopPRNumber l of None \<Rightarrow> True | Some n \<Rightarrow> n > 0)"

definition loop_references :: "store \<Rightarrow> LoopRecord \<Rightarrow> bool" where
  "loop_references s l \<longleftrightarrow> find_project s (LoopProjectID l) \<noteq> None"

definition commit_loops :: "loop_db \<Rightarrow> LoopRecord list \<Rightarrow> (loop_error, loop_db) result" where
  "commit_loops db rows =
     (if \<not> list_all loop_row_checks rows then Inl LoopCheckConstraint
      else if \<not> distinct (map LoopSeq rows) then Inl LoopUniqueSeq
      else if \<not> list_all (loop_references (DB db)) rows then Inl LoopForeignKey
      else Inr (db\<lparr>DB := (DB db)\<lparr>loops := rows\<rparr>\<rparr>))"

definition loops_valid :: "loop_db \<Rightarrow> bool" where
  "loops_valid db \<longleftrightarrow> distinct (map LoopID (loops (DB db))) \<and> list_all loop_row_checks (loops (DB db))
     \<and> distinct (map LoopSeq (loops (DB db))) \<and> list_all (loop_references (DB db)) (loops (DB db))"

section \<open>Publishing a loop\<close>

text \<open>The guard of the \<open>DO UPDATE\<close>: the write neither enters nor leaves a human takeover.\<close>

definition same_hold :: "LoopRecord \<Rightarrow> LoopRecord \<Rightarrow> bool" where
  "same_hold old new \<longleftrightarrow> (LoopStat old = ''human_takeover'') = (LoopStat new = ''human_takeover'')"

definition loop_excluded :: "LoopRecord \<Rightarrow> LoopRecord \<Rightarrow> LoopRecord" where
  "loop_excluded record old = record\<lparr>LoopCreatedAt := LoopCreatedAt old\<rparr>"

definition raise_counter :: "int \<Rightarrow> loop_db \<Rightarrow> loop_db" where
  "raise_counter seq db = db\<lparr>LoopSeqCounter := Some (case LoopSeqCounter db of
     None \<Rightarrow> seq | Some v \<Rightarrow> (if seq > v then seq else v))\<rparr>"

text \<open>A row refused by both the sequence index and the guard reports the guard.\<close>

definition upsert_loop :: "LoopRecord \<Rightarrow> bool \<Rightarrow> loop_db \<Rightarrow> (loop_error, loop_db) result" where
  "upsert_loop record changeHumanHold db = bind_result
     (case find_loop (DB db) (LoopID record) of
        None \<Rightarrow> commit_loops db (loops (DB db) @ [record])
      | Some old \<Rightarrow>
         (if \<not> loop_row_checks record then Inl LoopCheckConstraint
          else if \<not> changeHumanHold \<and> \<not> same_hold old record then Inl (ErrLoopHumanHeld (LoopID record))
          else commit_loops db (update_where (\<lambda>l. LoopID l = LoopID record) (loop_excluded record)
                 (loops (DB db)))))
     (\<lambda>db'. Inr (raise_counter (LoopSeq record) db'))"

definition max_seq :: "store \<Rightarrow> int" where
  "max_seq s = (if loops s = [] then 0 else Max (set (map LoopSeq (loops s))))"

text \<open>The first allocation seeds the counter from the table.\<close>

definition AllocateSeq :: "loop_db \<Rightarrow> int \<times> loop_db" where
  "AllocateSeq db = (let next = (case LoopSeqCounter db of None \<Rightarrow> max_seq (DB db) | Some v \<Rightarrow> v) + 1
     in (next, db\<lparr>LoopSeqCounter := Some next\<rparr>))"

definition GetByID_loop :: "loop_db \<Rightarrow> string \<Rightarrow> LoopRecord option" where
  "GetByID_loop db k = find_loop (DB db) k"

definition GetBySeq :: "loop_db \<Rightarrow> int \<Rightarrow> LoopRecord option" where
  "GetBySeq db n = find (\<lambda>l. LoopSeq l = n) (loops (DB db))"

section \<open>Source-issue claims\<close>

definition loopString :: "string option \<Rightarrow> string" where
  "loopString v = (case v of None \<Rightarrow> [] | Some s \<Rightarrow> s)"

definition loopInt64 :: "int option \<Rightarrow> int" where
  "loopInt64 v = (case v of None \<Rightarrow> 0 | Some n \<Rightarrow> n)"

record issueClaim =
  ClaimRepo :: string
  ClaimIssue :: int
  ClaimSourceWorker :: string

definition LoopForcesIssueClaimAdmission :: "metadata_json \<Rightarrow> LoopRecord \<Rightarrow> bool" where
  "LoopForcesIssueClaimAdmission js record = (if LoopTyp record \<noteq> ''worker'' then False
     else (case LoopMetadataJSON record of None \<Rightarrow> False
          | Some t \<Rightarrow> decode_override js t = Some True))"

definition sourceWorkerIDFromMetadata :: "metadata_json \<Rightarrow> string option \<Rightarrow> string" where
  "sourceWorkerIDFromMetadata js metadata = (case metadata of None \<Rightarrow> []
     | Some t \<Rightarrow> (if trim_space t = [] then []
         else (case decode_source_worker js t of None \<Rightarrow> [] | Some v \<Rightarrow> trim_space v)))"

definition parseIssueTargetID :: "string \<Rightarrow> (string \<times> int) option" where
  "parseIssueTargetID targetID = (let trimmed = trim_space targetID;
       parts = split_on (CHR '':'') (trim_prefix trimmed ''issue:'')
     in if length parts < 2 \<or> \<not> has_prefix trimmed ''issue:'' then None
        else (case sscan_int (last parts) of
            None \<Rightarrow> None
          | Some number \<Rightarrow> (if number \<le> 0 then None
              else (let repo = trim_space (join '':'' (butlast parts))
                    in if repo = [] then None else Some (repo, number)))))"

definition workerIssueFromMetadata :: "metadata_json \<Rightarrow> string option \<Rightarrow> string \<Rightarrow> (string \<times> int) option" where
  "workerIssueFromMetadata js metadata fallbackRepo = (case metadata of None \<Rightarrow> None
     | Some t \<Rightarrow> (if trim_space t = [] then None
         else (case decode_worker_issue js t of None \<Rightarrow> None
           | Some (number, issueRepo, repo) \<Rightarrow> (if number \<le> 0 then None
               else (let r = first_non_empty [issueRepo, repo, fallbackRepo]
                     in if r = [] then None else Some (r, number))))))"

text \<open>\<open>ORDER BY updated_at DESC, seq DESC\<close>.\<close>

definition newest_first :: "LoopRecord list \<Rightarrow> LoopRecord list" where
  "newest_first = sort_desc (\<lambda>l. (LoopUpdatedAt l, LoopSeq l))"

text \<open>\<open>repo = ? COLLATE NOCASE\<close>.\<close>

definition nocase_eq :: "string option \<Rightarrow> string \<Rightarrow> bool" where
  "nocase_eq column v = (case column of None \<Rightarrow> False | Some r \<Rightarrow> equal_fold r v)"

definition matches_source :: "LoopRecord \<Rightarrow> string \<Rightarrow> int \<Rightarrow> LoopRecord \<Rightarrow> bool" where
  "matches_source worker repo prNumber loop \<longleftrightarrow> LoopProjectID worker = LoopProjectID loop
     \<and> LoopTyp worker = ''worker'' \<and> LoopTargetTyp worker = ''pull_request''
     \<and> equal_fold (loopString (LoopRepo worker)) repo \<and> loopInt64 (LoopPRNumber worker) = prNumber"

definition sourceWorkerForPullRequest ::
    "metadata_json \<Rightarrow> loop_db \<Rightarrow> LoopRecord \<Rightarrow> (loop_error, LoopRecord option) result" where
  "sourceWorkerForPullRequest js db loop = (let repo = loopString (LoopRepo loop);
       prNumber = loopInt64 (LoopPRNumber loop)
     in if LoopTargetTyp loop \<noteq> ''pull_request'' \<or> repo = [] \<or> prNumber \<le> 0 then Inr None
        else (let sourceWorkerID = sourceWorkerIDFromMetadata js (LoopMetadataJSON loop)
          in if sourceWorkerID \<noteq> [] then
               (case GetByID_loop db sourceWorkerID of
                  None \<Rightarrow> Inl (SourceWorkerMismatch sourceWorkerID repo prNumber)
                | Some worker \<Rightarrow> (if \<not> matches_source worker repo prNumber loop
                    then Inl (SourceWorkerMismatch sourceWorkerID repo prNumber) else Inr (Some worker)))
             else Inr (find (\<lambda>w. workerIssueFromMetadata js (LoopMetadataJSON w) (loopString (LoopRepo w)) \<noteq> None)
               (newest_first (filter (\<lambda>w. LoopProjectID w = LoopProjectID loop \<and> LoopTyp w = ''worker''
                  \<and> LoopTargetTyp w = ''pull_request'' \<and> nocase_eq (LoopRepo w) repo
                  \<and> sql_eq (LoopPRNumber w) (Some prNumber)) (loops (DB db)))))))"

definition claim_of :: "string \<Rightarrow> (string \<times> int) option \<Rightarrow> issueClaim option" where
  "claim_of sourceWorker issue = map_option (\<lambda>(repo, number).
     \<lparr>ClaimRepo = repo, ClaimIssue = number, ClaimSourceWorker = sourceWorker\<rparr>) issue"

definition issueClaimForLoop ::
    "metadata_json \<Rightarrow> loop_db \<Rightarrow> LoopRecord \<Rightarrow> (loop_error, issueClaim option) result" where
  "issueClaimForLoop js db loop =
     (if LoopTargetTyp loop = ''issue'' \<and> (LoopTyp loop = ''worker'' \<or> LoopTyp loop = ''planner'')
      then Inr (claim_of [] (parseIssueTargetID (loopString (LoopTargetID loop))))
      else if LoopTargetTyp loop \<noteq> ''pull_request''
        \<or> LoopTyp loop \<notin> {''worker'', ''fixer'', ''reviewer''} then Inr None
      else if LoopTyp loop = ''worker''
      then Inr (claim_of (LoopID loop)
             (workerIssueFromMetadata js (LoopMetadataJSON loop) (loopString (LoopRepo loop))))
      else (let repo = loopString (LoopRepo loop);
                own = claim_of [] (workerIssueFromMetadata js (LoopMetadataJSON loop) repo)
        in if repo = [] \<or> loopInt64 (LoopPRNumber loop) \<le> 0 then Inr own
           else bind_result (sourceWorkerForPullRequest js db loop) (\<lambda>source. Inr
             (case source of None \<Rightarrow> own
              | Some worker \<Rightarrow> (case workerIssueFromMetadata js (LoopMetadataJSON worker)
                    (loopString (LoopRepo worker)) of
                  Some issue \<Rightarrow> claim_of (LoopID worker) (Some issue)
                | None \<Rightarrow> own)))))"

definition issueClaimAdmissionIsForced ::
    "metadata_json \<Rightarrow> loop_db \<Rightarrow> LoopRecord \<Rightarrow> (loop_error, bool) result" where
  "issueClaimAdmissionIsForced js db record =
     (if LoopForcesIssueClaimAdmission js record then Inr True
      else if LoopTyp record \<noteq> ''fixer'' \<and> LoopTyp record \<noteq> ''reviewer'' then Inr False
      else bind_result (sourceWorkerForPullRequest js db record) (\<lambda>source. Inr
        (case source of None \<Rightarrow> False | Some worker \<Rightarrow> LoopForcesIssueClaimAdmission js worker)))"

definition same_issue :: "issueClaim \<Rightarrow> issueClaim \<Rightarrow> bool" where
  "same_issue a b \<longleftrightarrow> ClaimIssue a = ClaimIssue b \<and> equal_fold (ClaimRepo a) (ClaimRepo b)"

definition issueClaimAdmissionRequired ::
    "metadata_json \<Rightarrow> loop_db \<Rightarrow> LoopRecord option \<Rightarrow> LoopRecord \<Rightarrow> (loop_error, bool) result" where
  "issueClaimAdmissionRequired js db current candidate =
     (if \<not> conflicting_active candidate then Inr False
      else (case current of
          None \<Rightarrow> Inr True
        | Some cur \<Rightarrow> (if \<not> conflicting_active cur then Inr True
            else bind_result (issueClaimForLoop js db cur) (\<lambda>currentClaim.
              bind_result (issueClaimForLoop js db candidate) (\<lambda>candidateClaim.
                case candidateClaim of None \<Rightarrow> Inr False
                | Some cand \<Rightarrow> (case currentClaim of None \<Rightarrow> Inr True
                    | Some c \<Rightarrow> (if LoopID cur = LoopID candidate \<and> LoopTyp candidate = ''planner''
                        then Inr True else Inr (\<not> same_issue c cand))))))))"

text \<open>The rows \<open>AssertIssueClaimAdmission\<close> examines, and the scan over them.\<close>

definition claim_rows :: "loop_db \<Rightarrow> LoopRecord \<Rightarrow> LoopRecord list" where
  "claim_rows db candidate = newest_first (filter (\<lambda>l. LoopProjectID l = LoopProjectID candidate
     \<and> LoopTyp l \<in> {''worker'', ''fixer'', ''reviewer'', ''planner''}
     \<and> LoopStat l \<in> status_name ` set ConflictingActiveLoopStatuses
     \<and> LoopTargetTyp l \<in> {''issue'', ''pull_request''}) (loops (DB db)))"

fun claim_scan :: "metadata_json \<Rightarrow> loop_db \<Rightarrow> LoopRecord \<Rightarrow> issueClaim \<Rightarrow> LoopRecord list
    \<Rightarrow> loop_error option" where
  "claim_scan js db candidate claim [] = None"
| "claim_scan js db candidate claim (l # ls) =
     (if LoopID candidate \<noteq> [] \<and> LoopID l = LoopID candidate then claim_scan js db candidate claim ls
      else (case issueClaimForLoop js db l of
          Inl e \<Rightarrow> Some e
        | Inr None \<Rightarrow> claim_scan js db candidate claim ls
        | Inr (Some existing) \<Rightarrow>
           (if \<not> same_issue existing claim then claim_scan js db candidate claim ls
            else if LoopTyp l = ''planner'' \<and> LoopTyp candidate \<noteq> ''planner''
            then claim_scan js db candidate claim ls
            else if ClaimSourceWorker claim \<noteq> [] \<and> ClaimSourceWorker existing = ClaimSourceWorker claim
            then claim_scan js db candidate claim ls
            else Some (IssueClaimConflictError (ClaimIssue claim) (LoopID l) (LoopTyp l)))))"

definition AssertIssueClaimAdmission ::
    "metadata_json \<Rightarrow> LoopRecord \<Rightarrow> bool \<Rightarrow> loop_db \<Rightarrow> (loop_error, unit) result" where
  "AssertIssueClaimAdmission js candidate force db =
     (if force \<or> \<not> conflicting_active candidate then Inr ()
      else bind_result (issueClaimAdmissionIsForced js db candidate) (\<lambda>forced.
        if forced then Inr ()
        else bind_result (issueClaimForLoop js db candidate) (\<lambda>claim.
          case claim of None \<Rightarrow> Inr ()
          | Some c \<Rightarrow> (case claim_scan js db candidate c (claim_rows db candidate) of
              Some e \<Rightarrow> Inl e | None \<Rightarrow> Inr ()))))"

definition upsertWithIssueClaimAdmission ::
    "metadata_json \<Rightarrow> LoopRecord \<Rightarrow> bool \<Rightarrow> bool \<Rightarrow> loop_db \<Rightarrow> (loop_error, loop_db) result" where
  "upsertWithIssueClaimAdmission js record changeHumanHold forceIssueClaim db =
     bind_result (issueClaimAdmissionRequired js db (GetByID_loop db (LoopID record)) record) (\<lambda>required.
     bind_result (issueClaimAdmissionIsForced js db record) (\<lambda>forced.
     bind_result (if \<not> forceIssueClaim \<and> \<not> forced \<and> required
                  then AssertIssueClaimAdmission js record False db else Inr ()) (\<lambda>_.
     upsert_loop record changeHumanHold db)))"

definition Upsert_loop where
  "Upsert_loop js record = upsertWithIssueClaimAdmission js record False False"

definition UpsertChangingHumanHold where
  "UpsertChangingHumanHold js record = upsertWithIssueClaimAdmission js record True False"

definition UpsertForcingIssueClaimAdmission where
  "UpsertForcingIssueClaimAdmission js record = upsertWithIssueClaimAdmission js record False True"

definition terminable :: "string \<Rightarrow> LoopRecord \<Rightarrow> bool" where
  "terminable projectID l \<longleftrightarrow> LoopProjectID l = projectID \<and> LoopStat l \<in> {''idle'', ''queued'', ''running'',
     ''paused'', ''waiting'', ''failed'', ''interrupted''}"

definition terminated_row :: "string \<Rightarrow> LoopRecord \<Rightarrow> LoopRecord" where
  "terminated_row updatedAt l = l\<lparr>LoopStat := ''terminated'', LoopNextRunAt := None, LoopUpdatedAt := updatedAt\<rparr>"

definition TerminateByProject :: "string \<Rightarrow> string \<Rightarrow> loop_db \<Rightarrow> (loop_error, nat \<times> loop_db) result" where
  "TerminateByProject projectID updatedAt db =
     (if trim_space projectID = [] then Inr (0, db)
      else bind_result (commit_loops db (update_where (terminable projectID) (terminated_row updatedAt)
               (loops (DB db)))) (\<lambda>db'. Inr (affected (terminable projectID) (loops (DB db)), db')))"

section \<open>Listings\<close>

record ListLoopsOptions =
  OptStatus :: string
  OptProjectID :: string
  OptLimit :: int
  OptOffset :: int

definition filtered :: "loop_db \<Rightarrow> ListLoopsOptions \<Rightarrow> LoopRecord list" where
  "filtered db opts = filter (\<lambda>l.
     (trim_space (OptStatus opts) = [] \<or> LoopStat l = trim_space (OptStatus opts))
     \<and> (trim_space (OptProjectID opts) = [] \<or> LoopProjectID l = trim_space (OptProjectID opts)))
     (loops (DB db))"

definition ListFiltered :: "loop_db \<Rightarrow> ListLoopsOptions \<Rightarrow> LoopRecord list" where
  "ListFiltered db opts = (let rows = drop (nat (OptOffset opts)) (newest_first (filtered db opts))
     in if OptLimit opts > 0 then take (nat (OptLimit opts)) rows else rows)"

definition CountFiltered :: "loop_db \<Rightarrow> ListLoopsOptions \<Rightarrow> nat" where
  "CountFiltered db opts = length (filtered db opts)"

definition List_loops :: "loop_db \<Rightarrow> LoopRecord list" where
  "List_loops db = ListFiltered db \<lparr>OptStatus = [], OptProjectID = [], OptLimit = 0, OptOffset = 0\<rparr>"

definition ListByRepoAndPR :: "loop_db \<Rightarrow> string \<Rightarrow> int \<Rightarrow> LoopRecord list" where
  "ListByRepoAndPR db repo prNumber = newest_first (filter (\<lambda>l. nocase_eq (LoopRepo l) repo
     \<and> sql_eq (LoopPRNumber l) (Some prNumber)) (loops (DB db)))"

definition ListByStatuses_loop :: "loop_db \<Rightarrow> string list \<Rightarrow> LoopRecord list" where
  "ListByStatuses_loop db statuses = (if statuses = [] then []
     else newest_first (filter (\<lambda>l. LoopStat l \<in> set statuses) (loops (DB db))))"

definition ListByIDs :: "loop_db \<Rightarrow> string list \<Rightarrow> LoopRecord list" where
  "ListByIDs db ids = (if ids = [] then []
     else sort_desc (\<lambda>l. (LoopUpdatedAt l, LoopSeq l, LoopID l)) (concat (map (\<lambda>chunk.
       newest_first (filter (\<lambda>l. LoopID l \<in> set chunk) (loops (DB db)))) (chunkStrings ids sqliteMaxVariables))))"

definition CountByTypeAndStatus :: "loop_db \<Rightarrow> string \<Rightarrow> string \<Rightarrow> nat" where
  "CountByTypeAndStatus db typ status =
     length (filter (\<lambda>l. LoopTyp l = typ \<and> LoopStat l = status) (loops (DB db)))"

end
