(* ===== verification/Loop_Facts.thy ===== *)
theory Loop_Facts
  imports Loop_Store
begin

text \<open>
  What the loop table guarantees: its constraints, fresh sequence numbers, the fence of a human
  takeover against every write without authority, one owner per source issue, and the identity
  of an issue target read back from its key. Histories interleave the writes to the table with
  the statements of the queue.
\<close>

section \<open>Names\<close>

lemma find_name: "find (\<lambda>x. f x = k) xs = Some y \<Longrightarrow> y \<in> set xs \<and> f y = k"
  by (induction xs) (auto split: if_splits)

lemma status_name_of [simp]: "status_name (status_of s) = s"
  using find_name [of status_name s named_statuses]
  by (cases "find (\<lambda>st. status_name st = s) named_statuses") (simp_all add: status_of_def)

lemma type_name_of [simp]: "type_name (type_of s) = s"
  using find_name [of type_name s LoopTypes]
  by (cases "find (\<lambda>t. type_name t = s) LoopTypes") (simp_all add: type_of_def)

lemma target_name_of [simp]: "target_name (target_of s) = s"
  using find_name [of target_name s "[TargetProject, TargetPullRequest, TargetIssue]"]
  by (cases "find (\<lambda>t. target_name t = s) [TargetProject, TargetPullRequest, TargetIssue]")
    (simp_all add: target_of_def del: find.simps)

lemma status_of_name: "st \<in> set named_statuses \<Longrightarrow> status_of (status_name st) = st"
proof -
  have "list_all (\<lambda>st. status_of (status_name st) = st) named_statuses" by code_simp
  then show "st \<in> set named_statuses \<Longrightarrow> status_of (status_name st) = st" by (simp add: list_all_iff)
qed

lemma type_of_name: "t \<in> set LoopTypes \<Longrightarrow> type_of (type_name t) = t"
proof -
  have "list_all (\<lambda>t. type_of (type_name t) = t) LoopTypes" by code_simp
  then show "t \<in> set LoopTypes \<Longrightarrow> type_of (type_name t) = t" by (simp add: list_all_iff)
qed

lemma conflicting_named: "st \<in> set conflictingActiveLoopStatuses \<Longrightarrow> st \<in> set named_statuses"
proof -
  have "list_all (\<lambda>st. st \<in> set named_statuses) conflictingActiveLoopStatuses" by code_simp
  then show "st \<in> set conflictingActiveLoopStatuses \<Longrightarrow> st \<in> set named_statuses" by (simp add: list_all_iff)
qed

lemma conflicting_active_name: "conflicting_active l \<longleftrightarrow> LoopStat l \<in> status_name ` set ConflictingActiveLoopStatuses"
proof
  assume "conflicting_active l"
  then have "status_of (LoopStat l) \<in> set ConflictingActiveLoopStatuses"
    by (simp only: conflicting_active_def IsConflictingActiveLoopStatus_def
        conflictingActiveLoopStatuses_def ConflictingActiveLoopStatuses_def)
  then show "LoopStat l \<in> status_name ` set ConflictingActiveLoopStatuses"
    by (metis image_eqI status_name_of)
next
  assume "LoopStat l \<in> status_name ` set ConflictingActiveLoopStatuses"
  then obtain st where st: "st \<in> set conflictingActiveLoopStatuses" "LoopStat l = status_name st"
    unfolding ConflictingActiveLoopStatuses_def conflictingActiveLoopStatuses_def by blast
  with conflicting_named [OF st(1)] show "conflicting_active l"
    by (simp only: conflicting_active_def IsConflictingActiveLoopStatus_def status_of_name)
qed

section \<open>Constraints\<close>

lemma commit_loops_Inr: "commit_loops db rows = Inr db' \<longleftrightarrow>
    db' = db\<lparr>DB := (DB db)\<lparr>loops := rows\<rparr>\<rparr> \<and> list_all loop_row_checks rows \<and> distinct (map LoopSeq rows)
    \<and> list_all (loop_references (DB db)) rows"
  by (auto simp: commit_loops_def)

lemma find_project_loops [simp]: "find_project (s\<lparr>loops := ls\<rparr>) = find_project s"
  by (rule ext) (simp add: find_project_def)

lemma loop_references_loops [simp]: "loop_references (s\<lparr>loops := ls\<rparr>) = loop_references s"
  by (rule ext) (simp add: loop_references_def)

lemma commit_loops_valid:
  "commit_loops db rows = Inr db' \<Longrightarrow> distinct (map LoopID rows) \<Longrightarrow> loops_valid db'"
  by (auto simp: commit_loops_Inr loops_valid_def)

lemma find_loop_None: "find_loop s k = None \<longleftrightarrow> k \<notin> LoopID ` set (loops s)"
  by (auto simp: find_loop_def find_None_iff)

lemma find_loop_Some: "find_loop s k = Some l \<Longrightarrow> l \<in> set (loops s) \<and> LoopID l = k"
  by (auto simp: find_loop_def dest: find_name)

text \<open>The one row an upsert leaves behind for its id, and every other row as it was.\<close>

definition rows_put :: "LoopRecord \<Rightarrow> LoopRecord list \<Rightarrow> LoopRecord list" where
  "rows_put r rows = (if LoopID r \<notin> LoopID ` set rows then rows @ [r]
     else update_where (\<lambda>l. LoopID l = LoopID r) (loop_excluded r) rows)"

lemma loop_excluded_fields [simp]: "LoopID (loop_excluded r o') = LoopID r" "LoopSeq (loop_excluded r o') = LoopSeq r"
  "LoopProjectID (loop_excluded r o') = LoopProjectID r" "LoopTyp (loop_excluded r o') = LoopTyp r"
  "LoopTargetTyp (loop_excluded r o') = LoopTargetTyp r" "LoopTargetID (loop_excluded r o') = LoopTargetID r"
  "LoopStat (loop_excluded r o') = LoopStat r" "LoopMetadataJSON (loop_excluded r o') = LoopMetadataJSON r"
  "LoopRepo (loop_excluded r o') = LoopRepo r" "LoopPRNumber (loop_excluded r o') = LoopPRNumber r"
  "LoopUpdatedAt (loop_excluded r o') = LoopUpdatedAt r"
  by (simp_all add: loop_excluded_def)

lemma in_rows_put: "l \<in> set (rows_put r rows) \<longleftrightarrow> (l \<in> set rows \<and> LoopID l \<noteq> LoopID r)
    \<or> (l = r \<and> LoopID r \<notin> LoopID ` set rows)
    \<or> (\<exists>old \<in> set rows. LoopID old = LoopID r \<and> l = loop_excluded r old)"
proof (cases "LoopID r \<in> LoopID ` set rows")
  case True
  then show ?thesis by (auto simp: rows_put_def set_update_where)
next
  case False
  then have "LoopID l \<noteq> LoopID r" if "l \<in> set rows" for l
    using that by (metis image_eqI)
  with False show ?thesis by (auto simp: rows_put_def)
qed

lemma put_row_like: "l \<in> set (rows_put r rows) \<Longrightarrow> LoopID l = LoopID r \<Longrightarrow> \<exists>c. l = r\<lparr>LoopCreatedAt := c\<rparr>"
proof -
  assume l: "l \<in> set (rows_put r rows)" "LoopID l = LoopID r"
  then consider "l = r" | old where "l = loop_excluded r old" by (auto simp: in_rows_put)
  then show ?thesis
  proof cases
    case 1
    then have "l = r\<lparr>LoopCreatedAt := LoopCreatedAt r\<rparr>" by simp
    then show ?thesis by blast
  next
    case 2
    then show ?thesis by (auto simp: loop_excluded_def)
  qed
qed

lemma rows_put_ids: "map LoopID (rows_put r rows)
    = (if LoopID r \<in> LoopID ` set rows then map LoopID rows else map LoopID rows @ [LoopID r])"
  by (simp add: rows_put_def map_update_where)

lemma rows_put_distinct: "distinct (map LoopID rows) \<Longrightarrow> distinct (map LoopID (rows_put r rows))"
  by (simp add: rows_put_ids)

lemma upsert_loop_Inr:
  assumes "upsert_loop r h db = Inr db'"
  shows "DB db' = (DB db)\<lparr>loops := rows_put r (loops (DB db))\<rparr>"
    and "LoopSeqCounter db' = Some (case LoopSeqCounter db of None \<Rightarrow> LoopSeq r | Some v \<Rightarrow> max (LoopSeq r) v)"
    and "distinct (map LoopID (loops (DB db))) \<Longrightarrow> loops_valid db'"
    and "h \<or> find_loop (DB db) (LoopID r) = Some old \<longrightarrow> h \<or> same_hold old r"
proof -
  obtain db1 where c: "commit_loops db (rows_put r (loops (DB db))) = Inr db1"
    and db': "db' = raise_counter (LoopSeq r) db1"
    and g: "h \<or> (\<forall>old. find_loop (DB db) (LoopID r) = Some old \<longrightarrow> same_hold old r)"
  proof (cases "find_loop (DB db) (LoopID r)")
    case None
    then have "rows_put r (loops (DB db)) = loops (DB db) @ [r]"
      by (simp add: rows_put_def find_loop_None)
    with assms None that show ?thesis by (auto simp: upsert_loop_def bind_result_Inr_iff)
  next
    case (Some old)
    then have "LoopID r \<in> LoopID ` set (loops (DB db))"
      using find_loop_Some by (metis image_eqI)
    then have "rows_put r (loops (DB db))
        = update_where (\<lambda>l. LoopID l = LoopID r) (loop_excluded r) (loops (DB db))"
      by (simp add: rows_put_def)
    with assms Some that show ?thesis
      by (auto simp: upsert_loop_def bind_result_Inr_iff split: if_splits)
  qed
  then show "DB db' = (DB db)\<lparr>loops := rows_put r (loops (DB db))\<rparr>"
    by (simp add: raise_counter_def commit_loops_Inr)
  show "LoopSeqCounter db' = Some (case LoopSeqCounter db of None \<Rightarrow> LoopSeq r | Some v \<Rightarrow> max (LoopSeq r) v)"
    using c db' by (auto simp: raise_counter_def commit_loops_Inr split: option.split)
  show "loops_valid db'" if "distinct (map LoopID (loops (DB db)))"
    using commit_loops_valid [OF c] rows_put_distinct [OF that] db'
    by (simp add: loops_valid_def raise_counter_def)
  show "h \<or> find_loop (DB db) (LoopID r) = Some old \<longrightarrow> h \<or> same_hold old r"
    using g by blast
qed

lemma admitted_upsert:
  assumes "upsertWithIssueClaimAdmission js r h force db = Inr db'"
  obtains required forced where
    "issueClaimAdmissionRequired js db (find_loop (DB db) (LoopID r)) r = Inr required"
    and "issueClaimAdmissionIsForced js db r = Inr forced"
    and "\<not> force \<and> \<not> forced \<and> required \<longrightarrow> AssertIssueClaimAdmission js r False db = Inr ()"
    and "upsert_loop r h db = Inr db'"
  using assms by (auto simp: upsertWithIssueClaimAdmission_def bind_result_Inr_iff GetByID_loop_def
      split: if_splits)

lemmas loop_writes = Upsert_loop_def UpsertChangingHumanHold_def UpsertForcingIssueClaimAdmission_def

lemma terminate_project_Inr:
  assumes "TerminateByProject p t db = Inr (n, db')"
  shows "DB db' = (DB db)\<lparr>loops := update_where (\<lambda>l. trim_space p \<noteq> [] \<and> terminable p l) (terminated_row t)
      (loops (DB db))\<rparr>"
    and "LoopSeqCounter db' = LoopSeqCounter db"
    and "loops_valid db \<Longrightarrow> loops_valid db'"
proof -
  show "LoopSeqCounter db' = LoopSeqCounter db"
    using assms by (auto simp: TerminateByProject_def bind_result_Inr_iff commit_loops_Inr split: if_splits)
  show "DB db' = (DB db)\<lparr>loops := update_where (\<lambda>l. trim_space p \<noteq> [] \<and> terminable p l) (terminated_row t)
      (loops (DB db))\<rparr>"
    using assms by (cases "trim_space p = []")
      (auto simp: TerminateByProject_def bind_result_Inr_iff commit_loops_Inr)
  show "loops_valid db'" if v: "loops_valid db"
  proof (cases "trim_space p = []")
    case True
    with assms v show ?thesis by (simp add: TerminateByProject_def)
  next
    case False
    with assms obtain db1 where "commit_loops db (update_where (terminable p) (terminated_row t) (loops (DB db))) = Inr db1"
      and db1: "db' = db1"
      by (auto simp: TerminateByProject_def bind_result_Inr_iff)
    moreover have "distinct (map LoopID (update_where (terminable p) (terminated_row t) (loops (DB db))))"
      using v by (simp add: map_update_where terminated_row_def loops_valid_def)
    ultimately show ?thesis using commit_loops_valid by blast
  qed
qed

section \<open>Histories\<close>

text \<open>
  Every write of the loop table and every statement of the queue, in any order. A write that
  fails leaves the store.
\<close>

datatype loop_op =
    OpWrite LoopRecord
  | OpHoldWrite LoopRecord
  | OpForceWrite LoopRecord
  | OpAllocate
  | OpTerminateProject string string
  | OpQueue queue_op

fun loop_stored :: "loop_db \<Rightarrow> (loop_error, loop_db) result \<Rightarrow> loop_db" where
  "loop_stored db (Inl _) = db"
| "loop_stored db (Inr db') = db'"

fun exec_loop_op :: "metadata_json \<Rightarrow> loop_op \<Rightarrow> loop_db \<Rightarrow> loop_db" where
  "exec_loop_op js (OpWrite r) db = loop_stored db (Upsert_loop js r db)"
| "exec_loop_op js (OpHoldWrite r) db = loop_stored db (UpsertChangingHumanHold js r db)"
| "exec_loop_op js (OpForceWrite r) db = loop_stored db (UpsertForcingIssueClaimAdmission js r db)"
| "exec_loop_op js OpAllocate db = snd (AllocateSeq db)"
| "exec_loop_op js (OpTerminateProject p t) db =
     (case TerminateByProject p t db of Inl _ \<Rightarrow> db | Inr (_, db') \<Rightarrow> db')"
| "exec_loop_op js (OpQueue op) db = db\<lparr>DB := exec_op op (DB db)\<rparr>"

definition exec_loop_ops :: "metadata_json \<Rightarrow> loop_op list \<Rightarrow> loop_db \<Rightarrow> loop_db" where
  "exec_loop_ops js ops db = fold (exec_loop_op js) ops db"

text \<open>Statements of the queue leave the other tables.\<close>

fun keeps_loops :: "queue_op \<Rightarrow> bool" where
  "keeps_loops (OpOtherTables _ _ _) = False"
| "keeps_loops _ = True"

definition only_queue :: "store \<Rightarrow> store \<Rightarrow> bool" where
  "only_queue s s' \<longleftrightarrow> (\<exists>rows. s' = s\<lparr>queue := rows\<rparr>)"

lemma only_queue_refl [simp]: "only_queue s s"
proof -
  have "s = s\<lparr>queue := queue s\<rparr>" by simp
  then show ?thesis unfolding only_queue_def by blast
qed

lemma only_queue_set [simp]: "only_queue s (s\<lparr>queue := rows\<rparr>)"
  by (auto simp: only_queue_def)

lemma only_queue_loops: "only_queue s s' \<Longrightarrow> loops s' = loops s \<and> projects s' = projects s \<and> find_loop s' = find_loop s"
  by (auto simp: only_queue_def)

lemma only_queue_commit [simp]: "only_queue s (stored s (commit_queue s rows))"
  using stored_commit [of s rows] by auto

lemma only_queue_counted [simp]: "only_queue s (stored_snd s (counted_update P f s))"
  using stored_counted [of s P f] by auto

lemma only_queue_complete [simp]: "only_queue s (stored s (Complete k t s))"
  using stored_complete [of s k t] by auto

lemma only_queue_claim [simp]: "only_queue s (stored_snd s (claimNextMatching extra now who s))"
  by (auto simp: claimNextMatching_def Let_def commit_queue_def split: option.split)

lemma only_queue_upsert [simp]: "only_queue s (stored s (Upsert r s))"
  by (simp add: Upsert_def)

lemma exec_op_only_queue: "keeps_loops p \<Longrightarrow> only_queue s (exec_op p s)"
  by (cases p) (simp_all add: UpdateLockKey_def MarkRetry_def MarkRetryIfRunning_def Fail_def
      RequeueRunningByLoop_def RequeueLatestCancelledByLoop_def Let_def RequeueCompletedByID_def
      RequeueFailedByID_def RequeueFailedByIDWithAttempts_def requeue_failed_def
      RequeueLatestFailedByLoop_def CancelByLoop_def CancelByProject_def CancelActiveByLoopExcept_def
      CleanupStaleQueued_def)

lemma more_loops_references:
  assumes "row_references s q" and "LoopID ` set (loops s) \<subseteq> LoopID ` set ls"
  shows "row_references (s\<lparr>loops := ls\<rparr>) q"
  using assms by (auto simp: row_references_def find_loop_None split: option.splits)

lemma more_loops_queue:
  assumes "queue_valid s" and "LoopID ` set (loops s) \<subseteq> LoopID ` set ls"
  shows "queue_valid (s\<lparr>loops := ls\<rparr>)"
  using assms more_loops_references [OF _ assms(2)] by (auto simp: queue_valid_def list_all_iff)

lemma put_ids_grow: "LoopID ` set rows \<subseteq> LoopID ` set (rows_put r rows)"
  using rows_put_ids [of r rows] by (metis set_map set_append Un_upper1 order_refl)

text \<open>Both tables keep their constraints, whatever the history.\<close>

definition tables_valid :: "loop_db \<Rightarrow> bool" where
  "tables_valid db \<longleftrightarrow> loops_valid db \<and> queue_valid (DB db)"

lemma write_tables_valid:
  assumes "tables_valid db" and "upsertWithIssueClaimAdmission js r h force db = Inr db'"
  shows "tables_valid db'"
proof -
  from assms(2) have u: "upsert_loop r h db = Inr db'" by (rule admitted_upsert)
  have "queue_valid ((DB db)\<lparr>loops := rows_put r (loops (DB db))\<rparr>)"
    using assms(1) put_ids_grow by (intro more_loops_queue) (simp_all add: tables_valid_def)
  then show ?thesis
    using upsert_loop_Inr(1,3) [OF u] assms(1) by (simp add: tables_valid_def loops_valid_def)
qed

lemma stored_write_valid: "tables_valid db \<Longrightarrow> tables_valid (loop_stored db (upsertWithIssueClaimAdmission js r h force db))"
  using write_tables_valid by (cases "upsertWithIssueClaimAdmission js r h force db") auto

lemma terminate_tables_valid:
  assumes "tables_valid db" and "TerminateByProject p t db = Inr (n, db')"
  shows "tables_valid db'"
proof -
  let ?ls = "update_where (\<lambda>l. trim_space p \<noteq> [] \<and> terminable p l) (terminated_row t) (loops (DB db))"
  have "map LoopID ?ls = map LoopID (loops (DB db))"
    by (rule map_update_where) (simp add: terminated_row_def)
  then have "LoopID ` set (loops (DB db)) \<subseteq> LoopID ` set ?ls" by (metis set_map order_refl)
  then have "queue_valid ((DB db)\<lparr>loops := ?ls\<rparr>)"
    using assms(1) by (intro more_loops_queue) (simp_all add: tables_valid_def)
  then show ?thesis
    using terminate_project_Inr(1,3) [OF assms(2)] assms(1) by (simp add: tables_valid_def)
qed

lemma queue_op_tables_valid:
  assumes "tables_valid db" and "keeps_loops p" shows "tables_valid (exec_loop_op js (OpQueue p) db)"
proof -
  from exec_op_only_queue [OF assms(2)] have "only_queue (DB db) (exec_op p (DB db))" .
  then obtain rows where "exec_op p (DB db) = (DB db)\<lparr>queue := rows\<rparr>" by (auto simp: only_queue_def)
  then have "loops_valid (db\<lparr>DB := exec_op p (DB db)\<rparr>)"
    using assms(1) by (auto simp: tables_valid_def loops_valid_def list_all_iff loop_references_def)
  then show ?thesis using assms(1) exec_op_valid by (simp add: tables_valid_def)
qed

fun loop_statement :: "loop_op \<Rightarrow> bool" where
  "loop_statement (OpQueue p) = keeps_loops p"
| "loop_statement _ = True"

lemma exec_loop_op_valid: "loop_statement p \<Longrightarrow> tables_valid db \<Longrightarrow> tables_valid (exec_loop_op js p db)"
proof (cases p)
  case (OpQueue q)
  assume "loop_statement p" "tables_valid db"
  with OpQueue show ?thesis using queue_op_tables_valid by simp
next
  case OpAllocate
  assume "tables_valid db"
  with OpAllocate show ?thesis by (simp add: AllocateSeq_def Let_def tables_valid_def loops_valid_def)
next
  case (OpTerminateProject a b)
  assume "tables_valid db"
  with OpTerminateProject show ?thesis
    using terminate_tables_valid by (auto split: sum.split prod.split)
qed (simp_all add: loop_writes stored_write_valid)

section \<open>Sequence numbers\<close>

definition counter_covers :: "loop_db \<Rightarrow> bool" where
  "counter_covers db \<longleftrightarrow> (case LoopSeqCounter db of None \<Rightarrow> loops (DB db) = []
     | Some v \<Rightarrow> list_all (\<lambda>l. LoopSeq l \<le> v) (loops (DB db)))"

definition counter_reached :: "int option \<Rightarrow> loop_db \<Rightarrow> bool" where
  "counter_reached v db \<longleftrightarrow> (case v of None \<Rightarrow> True
     | Some n \<Rightarrow> (case LoopSeqCounter db of None \<Rightarrow> False | Some w \<Rightarrow> n \<le> w))"

lemma put_seqs: "l \<in> set (rows_put r rows) \<Longrightarrow> l \<in> set rows \<or> LoopSeq l = LoopSeq r"
  by (auto simp: in_rows_put)

lemma allocated_above:
  "counter_covers db \<Longrightarrow> list_all (\<lambda>l. LoopSeq l < fst (AllocateSeq db)) (loops (DB db))"
  by (auto simp: counter_covers_def AllocateSeq_def Let_def list_all_iff split: option.splits)

lemma allocate_counter: "counter_covers db \<Longrightarrow> counter_reached v db \<Longrightarrow>
    counter_covers (snd (AllocateSeq db)) \<and> counter_reached v (snd (AllocateSeq db))"
  by (auto simp: counter_covers_def counter_reached_def AllocateSeq_def Let_def list_all_iff split: option.splits)

lemma write_counter:
  assumes "upsertWithIssueClaimAdmission js r h force db = Inr db'" and "counter_covers db" and "counter_reached v db"
  shows "counter_covers db' \<and> counter_reached v db'"
proof -
  from assms(1) have u: "upsert_loop r h db = Inr db'" by (rule admitted_upsert)
  have rows: "l \<in> set (loops (DB db)) \<or> LoopSeq l = LoopSeq r" if "l \<in> set (loops (DB db'))" for l
    using that put_seqs upsert_loop_Inr(1) [OF u] by simp
  show ?thesis
    using rows assms(2,3) upsert_loop_Inr(2) [OF u]
    by (fastforce simp: counter_covers_def counter_reached_def list_all_iff split: option.splits)
qed

lemma terminate_counter:
  assumes "TerminateByProject p t db = Inr (n, db')" and "counter_covers db" and "counter_reached v db"
  shows "counter_covers db' \<and> counter_reached v db'"
proof -
  have "map LoopSeq (loops (DB db')) = map LoopSeq (loops (DB db))"
    using terminate_project_Inr(1) [OF assms(1)] by (simp add: map_update_where terminated_row_def)
  then have "(\<forall>l \<in> set (loops (DB db')). LoopSeq l \<le> w) = (\<forall>l \<in> set (loops (DB db)). LoopSeq l \<le> w)" for w
    by (metis (no_types, lifting) image_iff list.set_map)
  moreover have "loops (DB db') = [] \<longleftrightarrow> loops (DB db) = []"
    using \<open>map LoopSeq (loops (DB db')) = map LoopSeq (loops (DB db))\<close> by (metis map_is_Nil_conv)
  ultimately show ?thesis
    using assms(2,3) terminate_project_Inr(2) [OF assms(1)]
    by (simp add: counter_covers_def counter_reached_def list_all_iff split: option.splits)
qed

lemma exec_loop_op_counter: "loop_statement p \<Longrightarrow> counter_covers db \<and> counter_reached v db \<Longrightarrow>
    counter_covers (exec_loop_op js p db) \<and> counter_reached v (exec_loop_op js p db)"
proof (cases p)
  case (OpQueue q)
  assume "loop_statement p" "counter_covers db \<and> counter_reached v db"
  with OpQueue show ?thesis
    using only_queue_loops [OF exec_op_only_queue, of q "DB db"]
    by (auto simp: counter_covers_def counter_reached_def split: option.splits)
next
  case (OpTerminateProject a b)
  assume "counter_covers db \<and> counter_reached v db"
  with OpTerminateProject show ?thesis
    using terminate_counter by (auto split: sum.split prod.split)
next
  case OpAllocate
  assume "counter_covers db \<and> counter_reached v db"
  with OpAllocate show ?thesis using allocate_counter [of db v] by simp
next
  case (OpWrite r)
  assume "counter_covers db \<and> counter_reached v db"
  with OpWrite show ?thesis
    using write_counter by (cases "Upsert_loop js r db") (auto simp: loop_writes)
next
  case (OpHoldWrite r)
  assume "counter_covers db \<and> counter_reached v db"
  with OpHoldWrite show ?thesis
    using write_counter by (cases "UpsertChangingHumanHold js r db") (auto simp: loop_writes)
next
  case (OpForceWrite r)
  assume "counter_covers db \<and> counter_reached v db"
  with OpForceWrite show ?thesis
    using write_counter by (cases "UpsertForcingIssueClaimAdmission js r db") (auto simp: loop_writes)
qed

interpretation loop_sequence: operation_invariant "exec_loop_op js" loop_statement
    "\<lambda>db. counter_covers db \<and> counter_reached v db" for js v
  by unfold_locales (rule exec_loop_op_counter)

text \<open>
  C18. Sequence numbers are handles that are never reissued: after any history of loop writes, forced
  or not, terminations and queue statements, the next allocated number is above every number in
  the table and above every value the counter ever had, so above every number handed out before.
\<close>

theorem allocated_seq_fresh:
  assumes "counter_covers db" and "list_all loop_statement ops"
  shows "list_all (\<lambda>l. LoopSeq l < fst (AllocateSeq (exec_loop_ops js ops db)))
       (loops (DB (exec_loop_ops js ops db)))
    \<and> (case LoopSeqCounter db of None \<Rightarrow> True | Some v \<Rightarrow> v < fst (AllocateSeq (exec_loop_ops js ops db)))"
proof -
  have "counter_reached (LoopSeqCounter db) db" by (simp add: counter_reached_def split: option.split)
  with assms have "counter_covers (exec_loop_ops js ops db)"
    and "counter_reached (LoopSeqCounter db) (exec_loop_ops js ops db)"
    using loop_sequence.history_kept [of ops db "LoopSeqCounter db" js] by (simp_all add: exec_loop_ops_def)
  then show ?thesis
    using allocated_above by (auto simp: counter_reached_def AllocateSeq_def Let_def split: option.splits)
qed

section \<open>The takeover fence\<close>

definition held_by_human :: "string \<Rightarrow> loop_db \<Rightarrow> bool" where
  "held_by_human k db \<longleftrightarrow> (case find_loop (DB db) k of None \<Rightarrow> False
     | Some l \<Rightarrow> LoopStat l = ''human_takeover'')"

text \<open>Writes without authority over the takeover of \<open>k\<close>.\<close>

fun no_authority :: "string \<Rightarrow> loop_op \<Rightarrow> bool" where
  "no_authority k (OpHoldWrite r) = (LoopID r \<noteq> k)"
| "no_authority k p = loop_statement p"

lemma no_authority_statement: "no_authority k p \<Longrightarrow> loop_statement p"
  by (cases p) simp_all

lemma held_iff: "distinct (map LoopID (loops (DB db))) \<Longrightarrow> held_by_human k db \<longleftrightarrow>
    (\<exists>l \<in> set (loops (DB db)). LoopID l = k \<and> LoopStat l = ''human_takeover'')"
  by (auto simp: held_by_human_def split: option.split
      dest: find_loop_Some simp: find_loop_None find_loop_member)

lemma write_keeps_hold:
  assumes v: "tables_valid db" and w: "upsertWithIssueClaimAdmission js r h force db = Inr db'"
    and h: "held_by_human k db" and "h \<longrightarrow> LoopID r \<noteq> k"
  shows "held_by_human k db'"
proof -
  from w have u: "upsert_loop r h db = Inr db'" by (rule admitted_upsert)
  have d: "distinct (map LoopID (loops (DB db)))" "distinct (map LoopID (loops (DB db')))"
    using v write_tables_valid [OF v w] by (simp_all add: tables_valid_def loops_valid_def)
  obtain l where l: "l \<in> set (loops (DB db))" "LoopID l = k" "LoopStat l = ''human_takeover''"
    using h held_iff [OF d(1)] by blast
  have rows: "loops (DB db') = rows_put r (loops (DB db))" using upsert_loop_Inr(1) [OF u] by simp
  show ?thesis
  proof (cases "LoopID r = k")
    case False
    with l rows have "l \<in> set (loops (DB db'))" by (simp add: in_rows_put)
    with l held_iff [OF d(2)] show ?thesis by blast
  next
    case True
    then have "find_loop (DB db) (LoopID r) = Some l" using find_loop_member [OF d(1) l(1)] l(2) by simp
    with upsert_loop_Inr(4) [OF u, of l] assms(4) True l(3) have "LoopStat r = ''human_takeover''"
      by (simp add: same_hold_def)
    moreover have "loop_excluded r l \<in> set (loops (DB db'))"
      using rows l True by (auto simp: in_rows_put)
    ultimately show ?thesis using held_iff [OF d(2)] True by (metis loop_excluded_fields(1,7))
  qed
qed

lemma terminate_keeps_hold:
  assumes v: "tables_valid db" and t: "TerminateByProject p at db = Inr (n, db')" and h: "held_by_human k db"
  shows "held_by_human k db'"
proof -
  have d: "distinct (map LoopID (loops (DB db)))" "distinct (map LoopID (loops (DB db')))"
    using v terminate_tables_valid [OF v t] by (simp_all add: tables_valid_def loops_valid_def)
  obtain l where l: "l \<in> set (loops (DB db))" "LoopID l = k" "LoopStat l = ''human_takeover''"
    using h held_iff [OF d(1)] by blast
  then have "\<not> terminable p l" by (simp add: terminable_def)
  with l(1) have "l \<in> set (loops (DB db'))"
    using terminate_project_Inr(1) [OF t] by (auto simp: set_update_where)
  with l held_iff [OF d(2)] show ?thesis by blast
qed

lemma exec_loop_op_hold:
  assumes "no_authority k p" and v: "tables_valid db" and h: "held_by_human k db"
  shows "held_by_human k (exec_loop_op js p db)"
proof (cases p)
  case (OpWrite r)
  with v h show ?thesis
    using write_keeps_hold [OF v _ h, of js r False] by (cases "Upsert_loop js r db") (auto simp: loop_writes)
next
  case (OpHoldWrite r)
  with v h assms(1) show ?thesis
    using write_keeps_hold [OF v _ h, of js r True]
    by (cases "UpsertChangingHumanHold js r db") (auto simp: loop_writes)
next
  case (OpForceWrite r)
  with v h show ?thesis
    using write_keeps_hold [OF v _ h, of js r False]
    by (cases "UpsertForcingIssueClaimAdmission js r db") (auto simp: loop_writes)
next
  case OpAllocate
  with h show ?thesis by (simp add: AllocateSeq_def Let_def held_by_human_def)
next
  case (OpTerminateProject a b)
  with h show ?thesis
    using terminate_keeps_hold [OF v _ h] by (auto split: sum.split prod.split)
next
  case (OpQueue q)
  with h assms(1) show ?thesis
    using only_queue_loops [OF exec_op_only_queue, of q "DB db"] by (simp add: held_by_human_def)
qed

interpretation takeover_fence: operation_invariant "exec_loop_op js" "no_authority k"
    "\<lambda>db. tables_valid db \<and> held_by_human k db" for js k
  by unfold_locales (simp add: exec_loop_op_valid exec_loop_op_hold no_authority_statement)

lemma held_not_claimed:
  assumes v: "tables_valid db" and h: "held_by_human k db"
    and claim: "claimNextMatching extra now who (DB db) = Inr (Some r, s')"
  shows "QLoopID r \<noteq> Some k"
proof
  assume own: "QLoopID r = Some k"
  obtain l where l: "find_loop (DB db) k = Some l" "LoopStat l = ''human_takeover''"
    using h by (auto simp: held_by_human_def split: option.splits)
  obtain c where c: "eligible (DB db) now c" "r = claim_row now who c"
    using claimed_eligible [OF _ claim] v by (auto simp: tables_valid_def)
  with own l have "item_loop (DB db) c = Some l" "QLoopID c = Some k" by (simp_all add: item_loop_def)
  with l have "human_hold_covers l (item_loop (DB db) c) c"
    using find_loop_Some [OF l(1)] by (simp add: human_hold_covers_def)
  with c(1) find_loop_Some [OF l(1)] show False by (auto simp: eligible_def list_ex_iff)
qed

lemma fence_history:
  assumes "tables_valid db" and "held_by_human k db" and "list_all (no_authority k) ops"
  shows "tables_valid (exec_loop_ops js ops db) \<and> held_by_human k (exec_loop_ops js ops db)"
  using takeover_fence.history_kept [OF assms(3)] assms(1,2) by (simp add: exec_loop_ops_def)

text \<open>
  C10. A human takeover can only be ended by a write with the authority to end it: along any history of
  loop writes (forced claims included), terminations of whole projects and queue statements, in
  which no \<open>UpsertChangingHumanHold\<close> names the loop, the loop stays under the human, and no
  claim, whatever its restriction, ever returns one of its items.
\<close>

theorem takeover_outlasts_writes:
  assumes "tables_valid db" and "held_by_human k db" and "list_all (no_authority k) ops"
  shows "held_by_human k (exec_loop_ops js ops db)
    \<and> (case claimNextMatching extra now who (DB (exec_loop_ops js ops db)) of
        Inr (Some r, _) \<Rightarrow> QLoopID r \<noteq> Some k
      | _ \<Rightarrow> True)"
  using fence_history [OF assms, of js] held_not_claimed
  by (auto split: sum.split prod.split option.split)

section \<open>One owner per source issue\<close>

definition forces :: "metadata_json \<Rightarrow> LoopRecord \<Rightarrow> bool" where
  "forces js l = LoopForcesIssueClaimAdmission js l"

definition owns_issue :: "LoopRecord \<Rightarrow> bool" where
  "owns_issue l \<longleftrightarrow> LoopTargetTyp l = ''issue'' \<and> (LoopTyp l = ''worker'' \<or> LoopTyp l = ''planner'')
     \<and> conflicting_active l"

definition issue_of :: "LoopRecord \<Rightarrow> (string \<times> int) option" where
  "issue_of l = parseIssueTargetID (loopString (LoopTargetID l))"

definition same_source :: "LoopRecord \<Rightarrow> LoopRecord \<Rightarrow> bool" where
  "same_source a b = (case (issue_of a, issue_of b) of
     (Some (r, n), Some (r', n')) \<Rightarrow> n = n' \<and> equal_fold r r' | _ \<Rightarrow> False)"

text \<open>
  Two active loops of the same kind that own the same issue of the same project, neither of them
  forced by an operator.
\<close>

definition rivals :: "metadata_json \<Rightarrow> LoopRecord \<Rightarrow> LoopRecord \<Rightarrow> bool" where
  "rivals js a b \<longleftrightarrow> owns_issue a \<and> owns_issue b \<and> LoopID a \<noteq> LoopID b
     \<and> LoopProjectID a = LoopProjectID b \<and> LoopTyp a = LoopTyp b \<and> \<not> forces js a \<and> \<not> forces js b
     \<and> same_source a b"

definition one_owner :: "metadata_json \<Rightarrow> loop_db \<Rightarrow> bool" where
  "one_owner js db \<longleftrightarrow> (\<forall>a \<in> set (loops (DB db)). \<forall>b \<in> set (loops (DB db)). \<not> rivals js a b)"

lemma same_source_sym: "same_source a b \<Longrightarrow> same_source b a"
  by (auto simp: same_source_def equal_fold_def split: option.splits)

lemma same_source_trans: "same_source a b \<Longrightarrow> same_source b c \<Longrightarrow> same_source a c"
  by (auto simp: same_source_def equal_fold_def split: option.splits)

lemma rivals_sym: "rivals js a b \<Longrightarrow> rivals js b a"
  by (auto simp: rivals_def same_source_sym)

lemma rivals_created [simp]: "rivals js (a\<lparr>LoopCreatedAt := t\<rparr>) b = rivals js a b"
  "rivals js a (b\<lparr>LoopCreatedAt := t\<rparr>) = rivals js a b"
  by (simp_all add: rivals_def owns_issue_def conflicting_active_def forces_def
      LoopForcesIssueClaimAdmission_def same_source_def issue_of_def)

lemma owner_claim:
  "owns_issue l \<Longrightarrow> issueClaimForLoop js db l = Inr (claim_of [] (issue_of l))"
  by (auto simp: owns_issue_def issueClaimForLoop_def issue_of_def)

lemma claim_of_simps [simp]: "claim_of w None = None"
  "claim_of w (Some (r, n)) = Some \<lparr>ClaimRepo = r, ClaimIssue = n, ClaimSourceWorker = w\<rparr>"
  by (simp_all add: claim_of_def)

lemma same_source_claims:
  assumes "same_source a b"
  obtains ca cb where "claim_of [] (issue_of a) = Some ca" and "claim_of [] (issue_of b) = Some cb"
    and "same_issue ca cb" and "ClaimSourceWorker ca = []"
  using assms by (auto simp: same_source_def same_issue_def split: option.splits)

lemma claim_scan_None:
  assumes "claim_scan js db cand c ls = None" and "l \<in> set ls" and "LoopID l \<noteq> LoopID cand"
    and "issueClaimForLoop js db l = Inr (Some e)" and "same_issue e c"
    and "LoopTyp l = LoopTyp cand" and "ClaimSourceWorker c = []"
  shows False
  using assms by (induction ls) (auto split: if_splits sum.splits option.splits)

lemma set_newest_first [simp]: "set (newest_first ls) = set ls"
  by (simp add: newest_first_def sort_desc_def)

text \<open>What admission establishes for an issue loop that no operator forces.\<close>

lemma admitted_no_rival:
  assumes "AssertIssueClaimAdmission js r False db = Inr ()" and "b \<in> set (loops (DB db))"
  shows "\<not> rivals js r b"
proof
  assume riv: "rivals js r b"
  then have own: "owns_issue r" "owns_issue b" and same: "same_source r b" by (simp_all add: rivals_def)
  obtain cr cb where c: "claim_of [] (issue_of r) = Some cr" "claim_of [] (issue_of b) = Some cb"
    "same_issue cr cb" "ClaimSourceWorker cr = []"
    using same_source_claims [OF same] .
  have "issueClaimAdmissionIsForced js db r = Inr False"
    using riv own by (auto simp: issueClaimAdmissionIsForced_def rivals_def forces_def owns_issue_def)
  with assms(1) own c have "claim_scan js db r cr (claim_rows db r) = None"
    by (auto simp: AssertIssueClaimAdmission_def owner_claim owns_issue_def split: option.splits)
  moreover have "b \<in> set (claim_rows db r)"
    using riv own assms(2) conflicting_active_name [of b]
    by (auto simp: claim_rows_def rivals_def owns_issue_def)
  moreover have "same_issue cb cr" using c(3) by (auto simp: same_issue_def equal_fold_def)
  ultimately show False
    using riv own c owner_claim [OF own(2), of js db]
    by (intro claim_scan_None [of js db r cr "claim_rows db r" b cb]) (auto simp: rivals_def)
qed

text \<open>
  Writes that respect what a row already owns: no force without the recorded override, and the
  rewrite of an active issue worker keeps its project, kind and override.
\<close>

definition steady_write :: "metadata_json \<Rightarrow> loop_db \<Rightarrow> LoopRecord \<Rightarrow> bool" where
  "steady_write js db r \<longleftrightarrow> (case find_loop (DB db) (LoopID r) of None \<Rightarrow> True
     | Some cur \<Rightarrow> \<not> (owns_issue r \<and> LoopTyp r = ''worker'' \<and> \<not> forces js r \<and> conflicting_active cur)
         \<or> (owns_issue cur \<and> LoopTyp cur = ''worker'' \<and> LoopProjectID cur = LoopProjectID r \<and> \<not> forces js cur))"

fun steady :: "metadata_json \<Rightarrow> loop_db \<Rightarrow> loop_op \<Rightarrow> bool" where
  "steady js db (OpWrite r) = steady_write js db r"
| "steady js db (OpHoldWrite r) = steady_write js db r"
| "steady js db (OpForceWrite r) = (\<not> owns_issue r \<or> forces js r)"
| "steady js db p = loop_statement p"

lemma write_no_rival:
  assumes one: "one_owner js db" and w: "upsertWithIssueClaimAdmission js r h force db = Inr db'"
    and s: "if force then \<not> owns_issue r \<or> forces js r else steady_write js db r"
    and b: "b \<in> set (loops (DB db))"
  shows "\<not> rivals js r b"
proof
  assume riv: "rivals js r b"
  then have own: "owns_issue r" and free: "\<not> forces js r" by (simp_all add: rivals_def)
  with s have nf: "\<not> force" and st: "steady_write js db r" by (auto split: if_splits)
  obtain required forced where req: "issueClaimAdmissionRequired js db (find_loop (DB db) (LoopID r)) r = Inr required"
    and forced: "issueClaimAdmissionIsForced js db r = Inr forced"
    and ass: "\<not> force \<and> \<not> forced \<and> required \<longrightarrow> AssertIssueClaimAdmission js r False db = Inr ()"
    using w by (rule admitted_upsert)
  have "\<not> forced"
    using forced own free by (auto simp: issueClaimAdmissionIsForced_def forces_def owns_issue_def split: if_splits)
  with ass nf admitted_no_rival [OF _ b] riv have "\<not> required" by blast
  with req own obtain cur where cur: "find_loop (DB db) (LoopID r) = Some cur" "conflicting_active cur"
    by (auto simp: issueClaimAdmissionRequired_def owns_issue_def split: option.splits if_splits)
  have id: "LoopID cur = LoopID r" "cur \<in> set (loops (DB db))" using find_loop_Some [OF cur(1)] by simp_all
  obtain n rp where iss: "issue_of r = Some (rp, n)"
    using riv by (auto simp: rivals_def same_source_def split: option.splits)
  show False
  proof (cases "LoopTyp r = ''planner''")
    case True
    with req cur own iss id \<open>\<not> required\<close> show False
      by (auto simp: issueClaimAdmissionRequired_def owner_claim bind_result_Inr_iff owns_issue_def
          split: option.splits)
  next
    case False
    with own have "LoopTyp r = ''worker''" by (auto simp: owns_issue_def)
    with st cur own free have c: "owns_issue cur" "LoopTyp cur = ''worker''" "LoopProjectID cur = LoopProjectID r"
      "\<not> forces js cur"
      by (auto simp: steady_write_def)
    have "same_source cur r"
      using req cur own iss c(1) \<open>\<not> required\<close> False owner_claim [OF c(1), of js db] owner_claim [OF own, of js db]
      by (cases "issue_of cur") (auto simp: issueClaimAdmissionRequired_def owns_issue_def same_source_def
          same_issue_def split: if_splits)
    then have "rivals js cur b"
      using riv c id \<open>LoopTyp r = ''worker''\<close> same_source_trans by (auto simp: rivals_def)
    with one id(2) b show False by (auto simp: one_owner_def)
  qed
qed

lemma write_one_owner:
  assumes "one_owner js db" and "upsertWithIssueClaimAdmission js r h force db = Inr db'"
    and "if force then \<not> owns_issue r \<or> forces js r else steady_write js db r"
  shows "one_owner js db'"
  unfolding one_owner_def
proof (intro ballI notI)
  from assms(2) have "upsert_loop r h db = Inr db'" by (rule admitted_upsert)
  then have rows: "loops (DB db') = rows_put r (loops (DB db))" using upsert_loop_Inr(1) by simp
  fix a b
  assume ab: "a \<in> set (loops (DB db'))" "b \<in> set (loops (DB db'))" and riv: "rivals js a b"
  have old: "l \<in> set (loops (DB db))" if "l \<in> set (loops (DB db'))" "LoopID l \<noteq> LoopID r" for l
    using that rows by (auto simp: in_rows_put)
  have like: "\<exists>c. l = r\<lparr>LoopCreatedAt := c\<rparr>" if "l \<in> set (loops (DB db'))" "LoopID l = LoopID r" for l
    using that rows put_row_like by metis
  have none: "\<not> rivals js r l" if "l \<in> set (loops (DB db))" for l
    using write_no_rival [OF assms that] .
  have "LoopID a \<noteq> LoopID b" using riv by (simp add: rivals_def)
  then consider "LoopID a = LoopID r" "LoopID b \<noteq> LoopID r" | "LoopID b = LoopID r" "LoopID a \<noteq> LoopID r"
    | "LoopID a \<noteq> LoopID r" "LoopID b \<noteq> LoopID r" by metis
  then show False
  proof cases
    case 1
    with like ab riv have "rivals js r b" using rivals_created(1) by metis
    with none old ab 1 show False by blast
  next
    case 2
    with like ab riv have "rivals js r a" using rivals_created(2) rivals_sym by metis
    with none old ab 2 show False by blast
  next
    case 3
    with assms(1) old ab riv show False by (auto simp: one_owner_def)
  qed
qed

lemma terminated_not_active: "\<not> conflicting_active (terminated_row t l)"
proof -
  have "\<not> IsConflictingActiveLoopStatus (status_of ''terminated'')" by code_simp
  then show ?thesis by (simp add: conflicting_active_def terminated_row_def)
qed

lemma terminate_one_owner:
  assumes "one_owner js db" and "TerminateByProject p t db = Inr (n, db')"
  shows "one_owner js db'"
proof -
  have active: "l \<in> set (loops (DB db))" if "l \<in> set (loops (DB db'))" "conflicting_active l" for l
    using that terminated_not_active by (auto simp: terminate_project_Inr(1) [OF assms(2)] set_update_where)
  have "conflicting_active a" "conflicting_active b" if "rivals js a b" for a b
    using that by (simp_all add: rivals_def owns_issue_def)
  with active assms(1) show ?thesis unfolding one_owner_def by blast
qed

lemma exec_loop_op_owner:
  assumes "steady js db p" and o: "one_owner js db"
  shows "one_owner js (exec_loop_op js p db)"
proof (cases p)
  case (OpWrite r)
  with assms show ?thesis
    using write_one_owner [OF o, of r False False] by (cases "Upsert_loop js r db") (auto simp: loop_writes)
next
  case (OpHoldWrite r)
  with assms show ?thesis
    using write_one_owner [OF o, of r True False]
    by (cases "UpsertChangingHumanHold js r db") (auto simp: loop_writes)
next
  case (OpForceWrite r)
  with assms show ?thesis
    using write_one_owner [OF o, of r False True]
    by (cases "UpsertForcingIssueClaimAdmission js r db") (auto simp: loop_writes)
next
  case OpAllocate
  with o show ?thesis by (simp add: AllocateSeq_def Let_def one_owner_def)
next
  case (OpTerminateProject a b)
  with o show ?thesis
    using terminate_one_owner [OF o] by (auto split: sum.split prod.split)
next
  case (OpQueue q)
  with assms show ?thesis
    using only_queue_loops [OF exec_op_only_queue, of q "DB db"] by (simp add: one_owner_def)
qed

text \<open>The store under any interleaving of steady operations.\<close>

inductive loop_step :: "metadata_json \<Rightarrow> loop_db \<Rightarrow> loop_db \<Rightarrow> bool" for js where
  step: "steady js db p \<Longrightarrow> loop_step js db (exec_loop_op js p db)"

inductive_cases loop_stepE: "loop_step js db db'"

interpretation issue_owner: step_invariant "loop_step js" "one_owner js" "one_owner js" for js
  by unfold_locales (auto elim!: loop_stepE intro: exec_loop_op_owner)

text \<open>
  C11. A source issue has at most one owner of a kind: in every store that steady writes, terminations
  and queue statements can reach, two unforced active workers (or two active planners) of a project
  never own the same issue, whatever the spelling of its repository. A write is steady when, if it is
  forced, it carries the recorded override, and when a rewrite of an active issue worker keeps
  its project, kind and override; the code does not check the latter (\<open>dropped_override_unchecked\<close>).
\<close>

theorem issue_has_one_owner:
  assumes "one_owner js db" and "(loop_step js)\<^sup>*\<^sup>* db db'"
    and "a \<in> set (loops (DB db'))" and "b \<in> set (loops (DB db'))"
    and "owns_issue a" and "owns_issue b" and "LoopProjectID a = LoopProjectID b" and "LoopTyp a = LoopTyp b"
    and "\<not> LoopForcesIssueClaimAdmission js a" and "\<not> LoopForcesIssueClaimAdmission js b"
    and "parseIssueTargetID (loopString (LoopTargetID a)) = Some (repo, n)"
    and "parseIssueTargetID (loopString (LoopTargetID b)) = Some (repo', n)" and "equal_fold repo repo'"
  shows "LoopID a = LoopID b"
proof (rule ccontr)
  assume "LoopID a \<noteq> LoopID b"
  with assms have "rivals js a b"
    by (simp add: rivals_def forces_def same_source_def issue_of_def)
  with issue_owner.reachable_kept [OF assms(2,1)] assms(3,4) show False by (auto simp: one_owner_def)
qed

section \<open>Issue targets read back\<close>

lemma join_split: "join [c] (split_on c s) = s"
proof (induction s)
  case (Cons x s)
  then show ?case by (cases "split_on c s") (auto split: list.splits, (cases "tl (split_on c s)"; force)+)
qed simp

lemma split_on_nonempty [simp]: "split_on c s \<noteq> []"
  by (induction s) (auto split: list.splits)

lemma split_on_last: "c \<notin> set t \<Longrightarrow> split_on c (s @ c # t) = split_on c s @ [t]"
proof (induction s)
  case Nil
  have "c \<notin> set t \<Longrightarrow> split_on c t = [t]" by (induction t) auto
  with Nil show ?case by simp
next
  case (Cons x s)
  then show ?case by (cases "split_on c s") auto
qed

text \<open>
  C19. An issue target is read back from the key it was stored under: for every repository name that
  is not blank at either end, colons included, and every positive 64-bit number,
  \<open>parseIssueTargetID\<close> inverts \<open>LoopTargetKey\<close>.
\<close>

theorem issue_target_roundtrip:
  assumes "TargetType t = TargetIssue" and "TRepo t \<noteq> []" and "trim_space (TRepo t) = TRepo t"
    and "0 < TIssueNumber t" and "TIssueNumber t < 2 ^ 63"
  shows "parseIssueTargetID (LoopTargetKey t) = Some (TRepo t, TIssueNumber t)"
proof -
  define n where "n = nat (TIssueNumber t)"
  have n: "TIssueNumber t = int n" "0 < n" "n < 2 ^ 63" using assms(4,5) by (simp_all add: n_def)
  have key: "LoopTargetKey t = ''issue:'' @ TRepo t @ CHR '':'' # nat_digits n"
    using assms(1) n by (simp add: LoopTargetKey_def itoa_def)
  obtain c cs where d: "nat_digits n = c # cs" using nat_digits_start by blast
  have "\<not> is_space (last (nat_digits n))"
    using digits_below [OF last_in_set [OF nat_digits_nonempty]] digit_plain by blast
  then have trimmed: "trim_space (LoopTargetKey t) = LoopTargetKey t"
    unfolding key by (intro trim_space_id) (simp add: is_space_def)
  have "CHR '':'' \<notin> set (nat_digits n)" using nat_digits_plain by blast
  then have parts: "split_on (CHR '':'') (trim_prefix (LoopTargetKey t) ''issue:'')
      = split_on (CHR '':'') (TRepo t) @ [nat_digits n]"
    unfolding key by (simp add: trim_prefix_def split_on_last)
  have "length (split_on (CHR '':'') (TRepo t)) \<ge> 1"
    using split_on_nonempty [of "CHR '':''" "TRepo t"] by (simp add: Suc_le_eq del: split_on_nonempty)
  moreover have "has_prefix (LoopTargetKey t) ''issue:''" unfolding key by simp
  ultimately show ?thesis
    using assms(2,3) n unfolding parseIssueTargetID_def Let_def trimmed parts
    by (simp add: sscan_printed join_split)
qed

section \<open>Concrete loops\<close>

text \<open>
  A stand-in for the JSON library on three documents: an override, a link to a source worker, and
  a worker's issue.
\<close>

definition sample_json :: metadata_json where
  "sample_json = \<lparr>decode_override = (\<lambda>t. Some (t = ''override'')),
     decode_source_worker = (\<lambda>t. Some (if has_prefix t ''from:'' then drop 5 t else [])),
     decode_worker_issue = (\<lambda>t. if t = ''issue 7'' then Some (7, ''o/r'', []) else None)\<rparr>"

definition issue_loop :: "string \<Rightarrow> int \<Rightarrow> string \<Rightarrow> string \<Rightarrow> LoopRecord" where
  "issue_loop k seq targetID st = \<lparr>LoopID = k, LoopSeq = seq, LoopProjectID = ''p'', LoopTyp = ''worker'',
     LoopTargetTyp = ''issue'', LoopTargetID = Some targetID, LoopRepo = Some ''o/r'', LoopPRNumber = None,
     LoopStat = st, LoopConfigJSON = None, LoopMetadataJSON = None, LoopLastRunAt = None,
     LoopNextRunAt = None, LoopCreatedAt = k, LoopUpdatedAt = k\<rparr>"

definition sample_db :: loop_db where
  "sample_db = \<lparr>DB = sample_store\<lparr>loops := [issue_loop ''w1'' 1 ''issue:o/r:7'' ''running'',
       (sample_loop ''rev8'' ''reviewer'' 8 ''human_takeover'')\<lparr>LoopSeq := 2\<rparr>,
       (sample_loop ''rev7'' ''reviewer'' 7 ''queued'')\<lparr>LoopSeq := 3\<rparr>,
       (sample_loop ''fix9'' ''fixer'' 9 ''queued'')\<lparr>LoopSeq := 4\<rparr>,
       (sample_loop ''old'' ''worker'' 5 ''completed'')\<lparr>LoopSeq := 5\<rparr>]\<rparr>, LoopSeqCounter = Some 5\<rparr>"

lemma sample_db_valid: "tables_valid sample_db" "counter_covers sample_db" "held_by_human ''rev8'' sample_db"
  "one_owner sample_json sample_db"
  by code_simp+

lemma allocated_seq_fresh_witness:
  "6 < fst (AllocateSeq (exec_loop_ops sample_json
     [OpWrite (issue_loop ''w9'' 6 ''issue:o/r:9'' ''queued''), OpTerminateProject ''p'' ''2026-02-01''] sample_db))"
proof -
  let ?ops = "[OpWrite (issue_loop ''w9'' 6 ''issue:o/r:9'' ''queued''), OpTerminateProject ''p'' ''2026-02-01'']"
  have "list_ex (\<lambda>l. LoopSeq l = 6) (loops (DB (exec_loop_ops sample_json ?ops sample_db)))"
    by code_simp
  then show ?thesis
    using allocated_seq_fresh [OF sample_db_valid(2), of ?ops sample_json]
    by (auto simp: list_all_iff list_ex_iff)
qed

lemma takeover_outlasts_writes_witness:
  "held_by_human ''rev8'' (exec_loop_ops sample_json
     [OpWrite ((sample_loop ''rev8'' ''reviewer'' 8 ''running'')\<lparr>LoopSeq := 2\<rparr>),
      OpTerminateProject ''p'' ''2026-02-01'', OpQueue (OpCancelByLoop ''rev8'' ''2026-02-02'' None)] sample_db)"
  using takeover_outlasts_writes [OF sample_db_valid(1,3), of
      "[OpWrite ((sample_loop ''rev8'' ''reviewer'' 8 ''running'')\<lparr>LoopSeq := 2\<rparr>),
        OpTerminateProject ''p'' ''2026-02-01'', OpQueue (OpCancelByLoop ''rev8'' ''2026-02-02'' None)]"]
  by simp

lemma issue_has_one_owner_witness:
  "issue_loop ''w2'' 6 ''issue:O/R:7'' ''queued'' \<notin> set (loops (DB (exec_loop_op sample_json
     (OpWrite (issue_loop ''w2'' 6 ''issue:O/R:7'' ''queued'')) sample_db)))"
proof
  let ?w = "issue_loop ''w2'' 6 ''issue:O/R:7'' ''queued''" and ?o = "issue_loop ''w1'' 1 ''issue:o/r:7'' ''running''"
  let ?db = "exec_loop_op sample_json (OpWrite ?w) sample_db"
  assume w: "?w \<in> set (loops (DB ?db))"
  have facts: "steady sample_json sample_db (OpWrite ?w)" "?o \<in> set (loops (DB ?db))" "owns_issue ?w" "owns_issue ?o"
    "LoopProjectID ?o = LoopProjectID ?w" "LoopTyp ?o = LoopTyp ?w"
    "\<not> LoopForcesIssueClaimAdmission sample_json ?o" "\<not> LoopForcesIssueClaimAdmission sample_json ?w"
    "parseIssueTargetID (loopString (LoopTargetID ?o)) = Some (''o/r'', 7)"
    "parseIssueTargetID (loopString (LoopTargetID ?w)) = Some (''O/R'', 7)" "equal_fold ''o/r'' ''O/R''"
    by code_simp+
  have "(loop_step sample_json)\<^sup>*\<^sup>* sample_db ?db"
    by (intro r_into_rtranclp loop_step.step facts(1))
  then have "LoopID ?o = LoopID ?w"
    using issue_has_one_owner [OF sample_db_valid(4) _ facts(2) w facts(4,3,5,6,7,8,9,10,11)] by blast
  then show False by (simp add: issue_loop_def)
qed

text \<open>A second worker admitted by an override is rewritten without it, and no admission is asked for.\<close>

lemma dropped_override_unchecked:
  "let forced = (issue_loop ''w2'' 6 ''issue:o/r:7'' ''running'')\<lparr>LoopMetadataJSON := Some ''override''\<rparr>;
       start = exec_loop_op sample_json (OpForceWrite forced) sample_db;
       reached = exec_loop_op sample_json (OpWrite (forced\<lparr>LoopMetadataJSON := None\<rparr>)) start
   in one_owner sample_json start \<and> \<not> one_owner sample_json reached"
  by code_simp

lemma issue_target_roundtrip_witness:
  "parseIssueTargetID ''issue:host:8443/o/r:42'' = Some (''host:8443/o/r'', 42)"
proof -
  let ?t = "\<lparr>TargetType = TargetIssue, TProjectID = [], TRepo = ''host:8443/o/r'', TPRNumber = 0, TIssueNumber = 42\<rparr>"
  have "LoopTargetKey ?t = ''issue:host:8443/o/r:42''" "trim_space (TRepo ?t) = TRepo ?t" by code_simp+
  then show ?thesis using issue_target_roundtrip [of ?t] by simp
qed

text \<open>
  A descendant whose link to its source worker no longer resolves makes the admission of an
  unrelated issue of the same project fail, whatever its own claim.
\<close>

lemma broken_link_blocks_admission:
  "Upsert_loop sample_json (issue_loop ''w9'' 6 ''issue:o/r:9'' ''queued'')
     (sample_db\<lparr>DB := (DB sample_db)\<lparr>loops := (sample_loop ''orphan'' ''reviewer'' 3 ''paused'')
        \<lparr>LoopSeq := 4, LoopMetadataJSON := Some ''from:gone''\<rparr> # take 3 (loops (DB sample_db))\<rparr>\<rparr>)
   = Inl (SourceWorkerMismatch ''gone'' ''o/r'' 3)"
  by code_simp

end
