(* ===== verification/Loop_Service.thy ===== *)
theory Loop_Service
  imports Loop_Facts Lock_Store
begin

text \<open>
  The lifecycle of a loop (\<open>internal/loops/service.go\<close>, \<open>internal/loops/reactivation.go\<close> and
  the retirement of \<open>internal/storage/repositories.go\<close>): creation, status transitions, pause,
  hold, termination, resumption, and the reactivation that couples a running loop to a claimable
  queue item. Each operation is one transaction: an error leaves the store. The formatter and the
  parser of Go's \<open>time\<close> package are the parameter \<open>ck\<close>; times are nanoseconds since the epoch,
  and generated ids are arguments.
\<close>

section \<open>Revisions\<close>

record clock =
  format_seconds :: "int \<Rightarrow> string"
  parse_rfc3339 :: "string \<Rightarrow> int option"

definition millisecond :: int where
  "millisecond = 1000000"

definition pad3 :: "nat \<Rightarrow> string" where
  "pad3 n = (let d = nat_digits n in replicate (3 - length d) (CHR ''0'') @ d)"

definition FormatJavaScriptISOString :: "clock \<Rightarrow> int \<Rightarrow> string" where
  "FormatJavaScriptISOString ck v = format_seconds ck (v div (1000 * millisecond)) @ ''.''
     @ pad3 (nat (v mod (1000 * millisecond) div millisecond)) @ ''Z''"

definition NextJavaScriptISOString :: "clock \<Rightarrow> int \<Rightarrow> string \<Rightarrow> string" where
  "NextJavaScriptISOString ck now previous = (let candidate = now div millisecond * millisecond
     in FormatJavaScriptISOString ck (case parse_rfc3339 ck previous of
          None \<Rightarrow> candidate
        | Some parsed \<Rightarrow> (if candidate \<le> parsed then parsed + millisecond else candidate)))"

section \<open>Targets of records\<close>

datatype service_error =
    LoopFailure loop_error
  | QueueFailure store_error
  | DomainFailure domain_error
  | ProjectNotFound string
  | ErrLoopNotFound string
  | ErrInvalidLoopStatusTransition LoopStatus LoopStatus
  | MissingTargetData string
  | InvalidTargetID string string
  | InvalidIssueNumber string
  | ErrActiveLoopConflict string string string
  | ErrInvalidQueueTarget
  | RetirementRaced string

fun loop_result :: "(loop_error, 'a) result \<Rightarrow> (service_error, 'a) result" where
  "loop_result (Inl e) = Inl (LoopFailure e)"
| "loop_result (Inr a) = Inr a"

fun queue_result :: "(store_error, 'a) result \<Rightarrow> (service_error, 'a) result" where
  "queue_result (Inl e) = Inl (QueueFailure e)"
| "queue_result (Inr a) = Inr a"

text \<open>The loop over leading \<open>project:\<close> prefixes.\<close>

function strip_project :: "string \<Rightarrow> string" where
  "strip_project s = (if has_prefix s ''project:'' then strip_project (trim_prefix s ''project:'') else s)"
  by pat_completeness auto
termination
  by (relation "measure length") (auto simp: trim_prefix_def prefix_def)

declare strip_project.simps [simp del]

definition trimTargetPrefix :: "string \<Rightarrow> string" where
  "trimTargetPrefix targetID = strip_project (trim_space targetID)"

definition empty_target :: "LoopTargetType \<Rightarrow> LoopTarget" where
  "empty_target t = \<lparr>TargetType = t, TProjectID = [], TRepo = [], TPRNumber = 0, TIssueNumber = 0\<rparr>"

definition after_last_colon :: "string \<Rightarrow> string option" where
  "after_last_colon s = (if CHR '':'' \<notin> set s then None
     else (let rest = last (split_on (CHR '':'') s) in if rest = [] then None else Some rest))"

definition targetFromRecord :: "LoopRecord \<Rightarrow> (service_error, LoopTarget) result" where
  "targetFromRecord record = (let target = empty_target (target_of (LoopTargetTyp record)) in
     case TargetType target of
       TargetProject \<Rightarrow> (case LoopTargetID record of
           None \<Rightarrow> Inl (MissingTargetData (LoopID record))
         | Some t \<Rightarrow> Inr (target\<lparr>TProjectID := trimTargetPrefix t\<rparr>))
     | TargetIssue \<Rightarrow> (case (LoopRepo record, LoopTargetID record) of
           (Some repo, Some t) \<Rightarrow> (case after_last_colon t of
               None \<Rightarrow> Inl (InvalidTargetID (LoopID record) t)
             | Some issueNumber \<Rightarrow> (case sscanf_int issueNumber of
                   None \<Rightarrow> Inl (InvalidIssueNumber (LoopID record))
                 | Some n \<Rightarrow> Inr (target\<lparr>TRepo := repo, TIssueNumber := n\<rparr>)))
         | _ \<Rightarrow> Inl (MissingTargetData (LoopID record)))
     | _ \<Rightarrow> (case (LoopRepo record, LoopPRNumber record) of
           (Some repo, Some n) \<Rightarrow> Inr (target\<lparr>TRepo := repo, TPRNumber := n\<rparr>)
         | _ \<Rightarrow> Inl (MissingTargetData (LoopID record))))"

definition loopSummaryFromRecord :: "LoopRecord \<Rightarrow> (service_error, LoopSummary) result" where
  "loopSummaryFromRecord record = bind_result (targetFromRecord record) (\<lambda>target. Inr
     \<lparr>SumID = LoopID record, SumProjectID = LoopProjectID record, SumType = type_of (LoopTyp record),
      SumTarget = target, SumStatus = status_of (LoopStat record)\<rparr>)"

fun summaries :: "LoopRecord list \<Rightarrow> (service_error, LoopSummary list) result" where
  "summaries [] = Inr []"
| "summaries (l # ls) = bind_result (loopSummaryFromRecord l) (\<lambda>s.
     bind_result (summaries ls) (\<lambda>ss. Inr (s # ss)))"

definition repoFromTarget :: "LoopTarget \<Rightarrow> string option" where
  "repoFromTarget target = (if TargetType target = TargetProject then None else Some (TRepo target))"

definition prNumberFromTarget :: "LoopTarget \<Rightarrow> int option" where
  "prNumberFromTarget target = (if TargetType target \<noteq> TargetPullRequest then None else Some (TPRNumber target))"

definition loopTargetID :: "LoopTarget \<Rightarrow> string option" where
  "loopTargetID target = Some (LoopTargetKey target)"

section \<open>The service\<close>

record CreateInput =
  InProjectID :: string
  InType :: LoopType
  InTarget :: LoopTarget
  InStatus :: LoopStatus
  InConfigJSON :: "string option"
  InMetadataJSON :: "string option"

definition fail_with :: "domain_error option \<Rightarrow> (service_error, unit) result" where
  "fail_with e = (case e of None \<Rightarrow> Inr () | Some d \<Rightarrow> Inl (DomainFailure d))"

definition created_record :: "CreateInput \<Rightarrow> string \<Rightarrow> int \<Rightarrow> string \<Rightarrow> LoopRecord" where
  "created_record i k seq nowISO = \<lparr>LoopID = k, LoopSeq = seq, LoopProjectID = InProjectID i,
     LoopTyp = type_name (InType i), LoopTargetTyp = target_name (TargetType (InTarget i)),
     LoopTargetID = loopTargetID (InTarget i), LoopRepo = repoFromTarget (InTarget i),
     LoopPRNumber = prNumberFromTarget (InTarget i), LoopStat = status_name (InStatus i),
     LoopConfigJSON = InConfigJSON i, LoopMetadataJSON = InMetadataJSON i, LoopLastRunAt = None,
     LoopNextRunAt = (if InStatus i = LRunning then Some nowISO else None),
     LoopCreatedAt = nowISO, LoopUpdatedAt = nowISO\<rparr>"

definition Create :: "metadata_json \<Rightarrow> clock \<Rightarrow> int \<Rightarrow> string \<Rightarrow> CreateInput \<Rightarrow> loop_db
    \<Rightarrow> (service_error, LoopRecord \<times> loop_db) result" where
  "Create js ck now k i db =
     bind_result (fail_with (AssertLoopTypeMatchesTarget (InType i) (InTarget i))) (\<lambda>_.
     (case find_project (DB db) (InProjectID i) of
        None \<Rightarrow> Inl (ProjectNotFound (InProjectID i))
      | Some _ \<Rightarrow>
        bind_result (summaries (List_loops db)) (\<lambda>existing.
        bind_result (fail_with (AssertUniqueActiveLoop existing
          \<lparr>SumID = k, SumProjectID = InProjectID i, SumType = InType i, SumTarget = InTarget i,
           SumStatus = InStatus i\<rparr>)) (\<lambda>_.
        (let (seq, db1) = AllocateSeq db;
             record = created_record i k seq (FormatJavaScriptISOString ck now)
         in bind_result (loop_result (Upsert_loop js record db1)) (\<lambda>db2. Inr (record, db2)))))))"

record TransitionInput =
  TrStatus :: LoopStatus
  TrNextRunAt :: "int option"
  TrLastRunAt :: "int option"

definition with_loop :: "string \<Rightarrow> loop_db \<Rightarrow> (LoopRecord \<Rightarrow> (service_error, 'a) result)
    \<Rightarrow> (service_error, 'a) result" where
  "with_loop k db f = (case GetByID_loop db k of None \<Rightarrow> Inl (ErrLoopNotFound k) | Some loop \<Rightarrow> f loop)"

definition transitioned :: "clock \<Rightarrow> int \<Rightarrow> TransitionInput \<Rightarrow> LoopRecord \<Rightarrow> LoopRecord" where
  "transitioned ck now i loop = (let updatedAt = NextJavaScriptISOString ck now (LoopUpdatedAt loop) in
     loop\<lparr>LoopStat := status_name (TrStatus i), LoopUpdatedAt := updatedAt,
       LoopNextRunAt := (case TrNextRunAt i of
           Some t \<Rightarrow> Some (FormatJavaScriptISOString ck t)
         | None \<Rightarrow> (if TrStatus i = LQueued then Some updatedAt
                   else if TrStatus i \<noteq> LRunning then None else LoopNextRunAt loop)),
       LoopLastRunAt := (case TrLastRunAt i of
           Some t \<Rightarrow> Some (FormatJavaScriptISOString ck t) | None \<Rightarrow> LoopLastRunAt loop)\<rparr>)"

definition TransitionStatus :: "metadata_json \<Rightarrow> clock \<Rightarrow> int \<Rightarrow> string \<Rightarrow> TransitionInput \<Rightarrow> loop_db
    \<Rightarrow> (service_error, LoopRecord \<times> loop_db) result" where
  "TransitionStatus js ck now loopID i db = with_loop loopID db (\<lambda>loop.
     bind_result (fail_with (AssertLoopStatusTransition (status_of (LoopStat loop)) (TrStatus i))) (\<lambda>_.
     (let updated = transitioned ck now i loop;
          write = (if status_of (LoopStat loop) = LHumanTakeover \<or> TrStatus i = LHumanTakeover
                   then UpsertChangingHumanHold js else Upsert_loop js)
      in bind_result (loop_result (write updated db)) (\<lambda>db'. Inr (updated, db')))))"

definition Resume :: "metadata_json \<Rightarrow> clock \<Rightarrow> int \<Rightarrow> string \<Rightarrow> loop_db
    \<Rightarrow> (service_error, LoopRecord \<times> loop_db) result" where
  "Resume js ck now loopID db = TransitionStatus js ck now loopID
     \<lparr>TrStatus = LQueued, TrNextRunAt = Some now, TrLastRunAt = None\<rparr> db"

text \<open>The update \<open>Pause\<close>, \<open>Hold\<close> and \<open>Terminate\<close> share, and the cancellation that follows it.\<close>

definition parked :: "clock \<Rightarrow> int \<Rightarrow> LoopStatus \<Rightarrow> LoopRecord \<Rightarrow> LoopRecord" where
  "parked ck now st loop = loop\<lparr>LoopStat := status_name st, LoopNextRunAt := None,
     LoopUpdatedAt := NextJavaScriptISOString ck now (LoopUpdatedAt loop)\<rparr>"

definition cancel_queue :: "LoopRecord \<Rightarrow> string option \<Rightarrow> loop_db
    \<Rightarrow> (service_error, LoopRecord \<times> nat \<times> loop_db) result" where
  "cancel_queue updated reason db =
     bind_result (queue_result (CancelByLoop (LoopID updated) (LoopUpdatedAt updated) reason (DB db)))
       (\<lambda>(n, s). Inr (updated, n, db\<lparr>DB := s\<rparr>))"

definition Pause :: "metadata_json \<Rightarrow> clock \<Rightarrow> int \<Rightarrow> string \<Rightarrow> string option \<Rightarrow> loop_db
    \<Rightarrow> (service_error, LoopRecord \<times> nat \<times> loop_db) result" where
  "Pause js ck now loopID reason db = with_loop loopID db (\<lambda>loop.
     (let currentStatus = status_of (LoopStat loop); updated = parked ck now LPaused loop in
      if currentStatus \<noteq> LPaused \<and> AssertLoopStatusTransition currentStatus LPaused \<noteq> None
      then Inl (ErrInvalidLoopStatusTransition currentStatus LPaused)
      else bind_result (loop_result (Upsert_loop js updated db)) (cancel_queue updated reason)))"

definition Hold :: "metadata_json \<Rightarrow> clock \<Rightarrow> int \<Rightarrow> string \<Rightarrow> string option \<Rightarrow> loop_db
    \<Rightarrow> (service_error, LoopRecord \<times> nat \<times> loop_db) result" where
  "Hold js ck now loopID reason db = with_loop loopID db (\<lambda>loop.
     (let current = status_of (LoopStat loop); updated = parked ck now LHumanTakeover loop in
      bind_result (if current \<noteq> LHumanTakeover
                   then fail_with (AssertLoopStatusTransition current LHumanTakeover) else Inr ()) (\<lambda>_.
      bind_result (loop_result (UpsertChangingHumanHold js updated db)) (cancel_queue updated reason))))"

definition Terminate :: "metadata_json \<Rightarrow> clock \<Rightarrow> int \<Rightarrow> string \<Rightarrow> string option \<Rightarrow> loop_db
    \<Rightarrow> (service_error, LoopRecord \<times> nat \<times> loop_db) result" where
  "Terminate js ck now loopID reason db = with_loop loopID db (\<lambda>loop.
     (let currentStatus = status_of (LoopStat loop); updated = parked ck now LTerminated loop;
          write = (if currentStatus = LHumanTakeover then UpsertChangingHumanHold js else Upsert_loop js) in
      bind_result (if currentStatus \<noteq> LTerminated
                   then fail_with (AssertLoopStatusTransition currentStatus LTerminated) else Inr ()) (\<lambda>_.
      bind_result (loop_result (write updated db)) (cancel_queue updated reason))))"

text \<open>\<open>Repositories.RetireQueuedLoop\<close>: whether the loop was retired.\<close>

definition RetireQueuedLoop :: "metadata_json \<Rightarrow> string \<Rightarrow> string \<Rightarrow> string \<Rightarrow> string option \<Rightarrow> loop_db
    \<Rightarrow> (service_error, bool \<times> loop_db) result" where
  "RetireQueuedLoop js loopID queueID updatedAt reason db =
     (case (GetByID_loop db loopID, GetByID (DB db) queueID) of
        (Some loop, Some item) \<Rightarrow>
          (if QLoopID item = None \<or> LoopStat loop \<noteq> queued \<or> QStatus item \<noteq> queued
              \<or> QLoopID item \<noteq> Some loopID then Inr (False, db)
           else bind_result (loop_result (Upsert_loop js
               (loop\<lparr>LoopStat := ''paused'', LoopNextRunAt := None, LoopUpdatedAt := updatedAt\<rparr>) db)) (\<lambda>db1.
             bind_result (queue_result (counted_update
               (\<lambda>q. QID q = queueID \<and> QLoopID q = Some loopID \<and> QStatus q = queued)
               (cancel_row updatedAt reason) (DB db1))) (\<lambda>(n, s).
             if n \<noteq> 1 then Inl (RetirementRaced queueID) else Inr (True, db1\<lparr>DB := s\<rparr>))))
      | _ \<Rightarrow> Inr (False, db))"

section \<open>Reactivation\<close>

definition same_project_workers :: "LoopRecord \<Rightarrow> LoopTarget \<Rightarrow> LoopRecord \<Rightarrow> LoopTarget \<Rightarrow> bool" where
  "same_project_workers loop other candidate target \<longleftrightarrow>
     LoopProjectID loop = LoopProjectID candidate \<and> LoopTyp loop = ''worker'' \<and> LoopTyp candidate = ''worker''
     \<and> TargetType other = TargetProject \<and> TargetType target = TargetProject"

fun active_conflict :: "LoopRecord \<Rightarrow> LoopTarget \<Rightarrow> LoopRecord list \<Rightarrow> service_error option" where
  "active_conflict candidate target [] = None"
| "active_conflict candidate target (l # ls) =
     (if LoopID l = LoopID candidate \<or> \<not> conflicting_active l then active_conflict candidate target ls
      else (case targetFromRecord l of
          Inl _ \<Rightarrow> active_conflict candidate target ls
        | Inr other \<Rightarrow>
           (if same_project_workers l other candidate target then active_conflict candidate target ls
            else if LoopProjectID l = LoopProjectID candidate \<and> LoopTyp l = LoopTyp candidate
                \<and> LoopTargetKey other = LoopTargetKey target
            then Some (ErrActiveLoopConflict (LoopProjectID candidate) (LoopTyp candidate) (LoopTargetKey target))
            else active_conflict candidate target ls)))"

definition AssertUniqueActiveLoopRecords ::
    "loop_db \<Rightarrow> LoopRecord \<Rightarrow> LoopStatus \<Rightarrow> (service_error, unit) result" where
  "AssertUniqueActiveLoopRecords db candidate status =
     (if \<not> IsConflictingActiveLoopStatus status then Inr ()
      else (case targetFromRecord candidate of
          Inl _ \<Rightarrow> Inl ErrInvalidQueueTarget
        | Inr target \<Rightarrow> (case active_conflict candidate target (List_loops db) of
            None \<Rightarrow> Inr () | Some e \<Rightarrow> Inl e)))"

text \<open>
  What the queue payload takes from a metadata document, again the JSON library's work: whether
  \<open>manual\<close> is true, and the non-empty worker object encoded again.
\<close>

record payload_json =
  decode_manual :: "string \<Rightarrow> bool"
  worker_object :: "string \<Rightarrow> string option"

definition metadataBool_manual :: "payload_json \<Rightarrow> string option \<Rightarrow> bool" where
  "metadataBool_manual pj metadata = (case metadata of None \<Rightarrow> False | Some t \<Rightarrow> decode_manual pj t)"

definition workerPayloadJSON :: "payload_json \<Rightarrow> string option \<Rightarrow> string option" where
  "workerPayloadJSON pj metadata = (case metadata of None \<Rightarrow> None
     | Some t \<Rightarrow> (if trim_space t = [] then None else worker_object pj t))"

definition planner_payload :: "int \<Rightarrow> bool \<Rightarrow> string" where
  "planner_payload n manual = ''{\"issueNumber\":'' @ itoa n
     @ (if manual then '',\"manual\":true}'' else ''}'')"

definition QueuePriorityPlanner :: int where "QueuePriorityPlanner = 1"
definition QueuePriorityReviewer :: int where "QueuePriorityReviewer = 2"
definition QueuePriorityFixer :: int where "QueuePriorityFixer = 2"
definition QueuePriorityWorker :: int where "QueuePriorityWorker = 3"

definition queued_record :: "string \<Rightarrow> LoopRecord \<Rightarrow> string \<Rightarrow> int \<Rightarrow> QueueItemRecord" where
  "queued_record queueID record nowISO maxAttempts = \<lparr>QID = queueID,
     QProjectID = Some (LoopProjectID record), QLoopID = Some (LoopID record), QType = LoopTyp record,
     QTargetType = LoopTargetTyp record, QTargetID = loopString (LoopTargetID record),
     QRepo = LoopRepo record, QPRNumber = LoopPRNumber record, QDedupeKey = [], QPriority = 0,
     QStatus = queued, QAvailableAt = nowISO, QAttempts = 0, QMaxAttempts = maxAttempts,
     QClaimedBy = None, QClaimedAt = None, QStartedAt = None, QFinishedAt = None, QLockKey = None,
     QPayloadJSON = None, QLastError = None, QLastErrorKind = None, QCreatedAt = nowISO, QUpdatedAt = nowISO\<rparr>"

definition on_issue :: "string \<Rightarrow> int \<Rightarrow> QueueItemRecord \<Rightarrow> QueueItemRecord" where
  "on_issue repo n q = q\<lparr>QTargetType := ''issue'', QTargetID := ''issue:'' @ repo @ '':'' @ itoa n,
     QRepo := Some repo, QPRNumber := None\<rparr>"

definition on_pull_request :: "string \<Rightarrow> int \<Rightarrow> QueueItemRecord \<Rightarrow> QueueItemRecord" where
  "on_pull_request repo n q = q\<lparr>QTargetType := ''pull_request'', QTargetID := ''pr:'' @ repo @ '':'' @ itoa n,
     QRepo := Some repo, QPRNumber := Some n\<rparr>"

definition planner_item :: "payload_json \<Rightarrow> LoopRecord \<Rightarrow> LoopTarget \<Rightarrow> string option \<Rightarrow> QueueItemRecord
    \<Rightarrow> (service_error, QueueItemRecord) result" where
  "planner_item pj record target metadataJSON q = (let repo = trim_space (loopString (LoopRepo record));
       n = TIssueNumber target
     in if TargetType target \<noteq> TargetIssue \<or> repo = [] \<or> n \<le> 0 then Inl ErrInvalidQueueTarget
        else Inr ((on_issue repo n q)\<lparr>
          QDedupeKey := ''planner:'' @ LoopProjectID record @ '':'' @ LoopID record @ '':'' @ repo @ '':'' @ itoa n,
          QPriority := QueuePriorityPlanner, QLockKey := Some (IssueLockKey (LoopProjectID record) repo n),
          QPayloadJSON := Some (planner_payload n (metadataBool_manual pj metadataJSON))\<rparr>))"

definition pull_request_item :: "LoopRecord \<Rightarrow> QueueItemRecord \<Rightarrow> (service_error, QueueItemRecord) result" where
  "pull_request_item record q = (let repo = trim_space (loopString (LoopRepo record)) in
     case LoopPRNumber record of
       None \<Rightarrow> Inl ErrInvalidQueueTarget
     | Some pr \<Rightarrow> (if repo = [] then Inl ErrInvalidQueueTarget
         else Inr ((on_pull_request repo pr q)\<lparr>QLockKey := Some (PullRequestLockKey (LoopProjectID record) repo pr)\<rparr>)))"

text \<open>The keys of reviewer and fixer items.\<close>

definition review_item :: "LoopRecord \<Rightarrow> QueueItemRecord \<Rightarrow> (service_error, QueueItemRecord) result" where
  "review_item record q = bind_result (pull_request_item record q) (\<lambda>i. Inr (i\<lparr>
     QPriority := QueuePriorityReviewer, QDedupeKey := ''reviewer:'' @ LoopProjectID record @ '':'' @ LoopID record @ '':''
       @ loopString (QRepo i) @ '':'' @ itoa (loopInt64 (QPRNumber i))\<rparr>))"

definition fix_item :: "LoopRecord \<Rightarrow> QueueItemRecord \<Rightarrow> (service_error, QueueItemRecord) result" where
  "fix_item record q = bind_result (pull_request_item record q) (\<lambda>i. Inr (i\<lparr>
     QPriority := QueuePriorityFixer, QDedupeKey := ''fixer:'' @ LoopID record\<rparr>))"

definition worker_item :: "payload_json \<Rightarrow> LoopRecord \<Rightarrow> LoopTarget \<Rightarrow> string option \<Rightarrow> QueueItemRecord
    \<Rightarrow> (service_error, QueueItemRecord) result" where
  "worker_item pj record target metadataJSON q0 = (let
       repo = trim_space (loopString (LoopRepo record));
       q = q0\<lparr>QPriority := QueuePriorityWorker, QDedupeKey := ''worker:'' @ LoopID record,
              QLockKey := Some (''worker:'' @ LoopID record), QPayloadJSON := workerPayloadJSON pj metadataJSON\<rparr>;
       key = (\<lambda>n. ''worker:'' @ LoopProjectID record @ '':'' @ repo @ '':'' @ itoa n)
     in case TargetType target of
       TargetIssue \<Rightarrow> (let n = TIssueNumber target in
         if repo = [] \<or> n \<le> 0 then Inl ErrInvalidQueueTarget
         else Inr ((on_issue repo n q)\<lparr>QDedupeKey := key n,
                QLockKey := Some (IssueLockKey (LoopProjectID record) repo n)\<rparr>))
     | TargetPullRequest \<Rightarrow> bind_result (pull_request_item record q) (\<lambda>i. Inr (i\<lparr>
           QDedupeKey := key (loopInt64 (QPRNumber i))\<rparr>))
     | _ \<Rightarrow> Inr q)"

text \<open>\<open>None\<close>: the type of the loop has no queue items.\<close>

definition BuildQueuedLoopQueueRecord ::
    "payload_json \<Rightarrow> string \<Rightarrow> LoopRecord \<Rightarrow> LoopTarget \<Rightarrow> string \<Rightarrow> string option \<Rightarrow> int
      \<Rightarrow> (service_error, QueueItemRecord option) result" where
  "BuildQueuedLoopQueueRecord pj queueID record target nowISO metadataJSON maxAttempts =
     (let q = queued_record queueID record nowISO maxAttempts in
      case type_of (LoopTyp record) of
        Planner \<Rightarrow> bind_result (planner_item pj record target metadataJSON q) (\<lambda>i. Inr (Some i))
      | Reviewer \<Rightarrow> bind_result (review_item record q) (\<lambda>i. Inr (Some i))
      | Fixer \<Rightarrow> bind_result (fix_item record q) (\<lambda>i. Inr (Some i))
      | Worker \<Rightarrow> bind_result (worker_item pj record target metadataJSON q) (\<lambda>i. Inr (Some i))
      | OtherLoopType _ \<Rightarrow> Inr None)"

definition replacement_item :: "string \<Rightarrow> string \<Rightarrow> QueueItemRecord \<Rightarrow> QueueItemRecord" where
  "replacement_item newID nowISO latest = latest\<lparr>QID := newID, QStatus := queued, QAvailableAt := nowISO,
     QAttempts := 0, QClaimedBy := None, QClaimedAt := None, QStartedAt := None, QFinishedAt := None,
     QLastError := None, QLastErrorKind := None, QCreatedAt := nowISO, QUpdatedAt := nowISO\<rparr>"

text \<open>What follows when no cancelled item could be requeued.\<close>

definition ensure_item :: "string \<Rightarrow> string \<Rightarrow> string \<Rightarrow> QueueItemRecord \<Rightarrow> store \<Rightarrow> (store_error, store) result" where
  "ensure_item loopID newID nowISO first s =
     (if FindActiveByLoopID s loopID \<noteq> None then Inr s
      else (case GetLatestByLoopID s loopID of
          Some latest \<Rightarrow>
            (if active_status (QStatus latest) then Inr s
             else if QDedupeKey latest \<noteq> [] \<and> FindActiveByDedupe s (QDedupeKey latest) \<noteq> None then Inr s
             else bind_result (UpsertActiveByDedupeOrGetExisting (replacement_item newID nowISO latest) s)
                    (\<lambda>(_, _, s'). Inr s'))
        | None \<Rightarrow> bind_result (UpsertActiveByDedupeOrGetExisting first s) (\<lambda>(_, _, s'). Inr s')))"

definition reactivated :: "string \<Rightarrow> LoopRecord \<Rightarrow> LoopRecord" where
  "reactivated nowISO loop = loop\<lparr>LoopStat := ''running'', LoopNextRunAt := Some nowISO, LoopUpdatedAt := nowISO\<rparr>"

record reactivation =
  ReLoopID :: string
  ReNowISO :: string
  ReMaxAttempts :: int
  ReQueueID :: string
  ReEventID :: string

definition ReactivateQueue :: "metadata_json \<Rightarrow> payload_json \<Rightarrow> reactivation \<Rightarrow> loop_db
    \<Rightarrow> (service_error, LoopRecord \<times> loop_db) result" where
  "ReactivateQueue js pj i db =
     (if trim_space (ReLoopID i) = [] \<or> trim_space (ReNowISO i) = [] then Inl ErrInvalidQueueTarget
      else with_loop (ReLoopID i) db (\<lambda>current.
        bind_result (AssertUniqueActiveLoopRecords db current LRunning) (\<lambda>_.
        case targetFromRecord current of
          Inl _ \<Rightarrow> Inl ErrInvalidQueueTarget
        | Inr target \<Rightarrow>
          bind_result (BuildQueuedLoopQueueRecord pj (ReQueueID i) current target (ReNowISO i)
             (LoopMetadataJSON current) (ReMaxAttempts i)) (\<lambda>first.
          case first of None \<Rightarrow> Inl ErrInvalidQueueTarget
          | Some item \<Rightarrow>
            bind_result (loop_result (Upsert_loop js (reactivated (ReNowISO i) current) db)) (\<lambda>db1.
            bind_result (queue_result (RequeueLatestCancelledByLoop (LoopID current) (ReNowISO i) (DB db1)))
              (\<lambda>(requeued, s).
                if requeued > 0 then Inr (reactivated (ReNowISO i) current, db1\<lparr>DB := s\<rparr>)
                else bind_result (queue_result (ensure_item (LoopID current) (ReEventID i) (ReNowISO i) item s))
                       (\<lambda>s'. Inr (reactivated (ReNowISO i) current, db1\<lparr>DB := s'\<rparr>))))))))"

lemmas service_defs = Create_def TransitionStatus_def Resume_def Pause_def Hold_def Terminate_def
  RetireQueuedLoop_def ReactivateQueue_def with_loop_def

end
