(* ===== verification/Service_Facts.thy ===== *)
theory Service_Facts
  imports Loop_Service
begin

text \<open>
  What the lifecycle guarantees: at most one active loop per target under every operation that
  checks for one (and the operations that do not), a claimable item behind every reactivation, and
  the effect of a hold.
\<close>

section \<open>Targets read back\<close>

lemma sscanf_itoa:
  assumes "- 9223372036854775808 \<le> n" and "n < 9223372036854775808"
  shows "sscanf_int (itoa n) = Some n"
proof (cases "n < 0")
  case False
  then show ?thesis
    using assms sscanf_printed [of "nat n"] by (simp add: itoa_def)
next
  case True
  define m where "m = nat (- n)"
  have m: "n = - int m" using True by (simp add: m_def)
  have start: "split_sign (dropWhile (\<lambda>c. is_space c \<and> c \<noteq> CHR 0x0A) (itoa n)) = (True, nat_digits m)"
    using True by (simp add: itoa_def m_def is_space_def)
  have token: "decimal_token (nat_digits m) = nat_digits m"
    unfolding decimal_token_def by (rule token_of_digits)
  show ?thesis
    using assms m by (simp add: sscanf_int_def start [unfolded m] token parse_decimal_def parse_nat_digits int64_of_def Let_def)
qed

lemma issue_key_after_colon: "after_last_colon (''issue:'' @ repo @ CHR '':'' # itoa n) = Some (itoa n)"
proof -
  have "itoa n \<noteq> []" by (simp add: itoa_def)
  moreover have "split_on (CHR '':'') (''issue:'' @ repo @ CHR '':'' # itoa n)
      = split_on (CHR '':'') (''issue:'' @ repo) @ [itoa n]"
    using split_on_last [OF itoa_no_colon, of "''issue:'' @ repo" n] by simp
  ultimately show ?thesis by (simp add: after_last_colon_def Let_def)
qed

lemma created_target:
  assumes "AssertLoopTypeMatchesTarget (InType i) (InTarget i) = None"
    and "TargetType (InTarget i) \<noteq> TargetProject"
    and "- 9223372036854775808 \<le> TIssueNumber (InTarget i)" and "TIssueNumber (InTarget i) < 9223372036854775808"
  obtains t where "targetFromRecord (created_record i k seq now) = Inr t"
    and "TargetType t = TargetType (InTarget i)" and "LoopTargetKey t = LoopTargetKey (InTarget i)"
proof -
  have known: "TargetType (InTarget i) \<in> {TargetPullRequest, TargetIssue}"
    using assms(1,2) by (auto simp: AssertLoopTypeMatchesTarget_def AssertKnownLoopType_def LoopTypes_def
        split: option.splits LoopType.splits if_splits)
  have names: "target_of ''issue'' = TargetIssue" "target_of ''pull_request'' = TargetPullRequest"
    by code_simp+
  show ?thesis
  proof (cases "TargetType (InTarget i) = TargetIssue")
    case True
    then show ?thesis
      using assms(3,4) issue_key_after_colon [of "TRepo (InTarget i)" "TIssueNumber (InTarget i)"]
      by (intro that [of "\<lparr>TargetType = TargetIssue, TProjectID = [], TRepo = TRepo (InTarget i), TPRNumber = 0,
             TIssueNumber = TIssueNumber (InTarget i)\<rparr>"])
        (simp_all add: targetFromRecord_def created_record_def names empty_target_def repoFromTarget_def
          loopTargetID_def LoopTargetKey_def sscanf_itoa Let_def)
  next
    case False
    with known have "TargetType (InTarget i) = TargetPullRequest" by simp
    then show ?thesis
      by (intro that [of "\<lparr>TargetType = TargetPullRequest, TProjectID = [], TRepo = TRepo (InTarget i),
             TPRNumber = TPRNumber (InTarget i), TIssueNumber = 0\<rparr>"])
        (simp_all add: targetFromRecord_def created_record_def names empty_target_def repoFromTarget_def
          prNumberFromTarget_def LoopTargetKey_def Let_def)
  qed
qed

section \<open>One active loop per target\<close>

definition same_target :: "LoopRecord \<Rightarrow> LoopRecord \<Rightarrow> bool" where
  "same_target a b = (case (loopSummaryFromRecord a, loopSummaryFromRecord b) of
     (Inr x, Inr y) \<Rightarrow> claims_same x y | _ \<Rightarrow> False)"

definition loops_unique :: "loop_db \<Rightarrow> bool" where
  "loops_unique db \<longleftrightarrow> (\<forall>a \<in> set (loops (DB db)). \<forall>b \<in> set (loops (DB db)).
     same_target a b \<longrightarrow> LoopID a = LoopID b)"

lemma same_target_sym: "same_target a b \<Longrightarrow> same_target b a"
  by (auto simp: same_target_def claims_same_sym split: sum.splits)

lemma summary_eq: "loopSummaryFromRecord l = Inr s \<longleftrightarrow> (\<exists>t. targetFromRecord l = Inr t \<and>
    s = \<lparr>SumID = LoopID l, SumProjectID = LoopProjectID l, SumType = type_of (LoopTyp l), SumTarget = t,
      SumStatus = status_of (LoopStat l)\<rparr>)"
  by (auto simp: loopSummaryFromRecord_def bind_result_Inr_iff)

lemma same_target_iff: "same_target a b \<longleftrightarrow> conflicting_active a \<and> conflicting_active b
    \<and> LoopProjectID a = LoopProjectID b \<and> LoopTyp a = LoopTyp b
    \<and> (\<exists>x y. targetFromRecord a = Inr x \<and> targetFromRecord b = Inr y \<and> LoopTargetKey x = LoopTargetKey y
       \<and> \<not> (LoopTyp a = ''worker'' \<and> TargetType x = TargetProject \<and> TargetType y = TargetProject))"
proof -
  have t: "type_of x = type_of y \<longleftrightarrow> x = y" for x y by (metis type_name_of)
  have "type_of ''worker'' = Worker" by code_simp
  then have w: "type_of x = Worker \<longleftrightarrow> x = ''worker''" for x by (metis t)
  show ?thesis
  proof (cases "targetFromRecord a")
    case (Inl e)
    then show ?thesis by (simp add: same_target_def loopSummaryFromRecord_def)
  next
    case x: (Inr x)
    show ?thesis
    proof (cases "targetFromRecord b")
      case (Inl e)
      with x show ?thesis by (simp add: same_target_def loopSummaryFromRecord_def)
    next
      case (Inr y)
      with x show ?thesis
        by (auto simp: same_target_def loopSummaryFromRecord_def claims_same_def conflicting_active_def
            allowConcurrentProjectWorkers_def t w)
    qed
  qed
qed

definition same_place :: "LoopRecord \<Rightarrow> LoopRecord \<Rightarrow> bool" where
  "same_place a b \<longleftrightarrow> LoopID a = LoopID b \<and> LoopProjectID a = LoopProjectID b \<and> LoopTyp a = LoopTyp b
     \<and> LoopTargetTyp a = LoopTargetTyp b \<and> LoopTargetID a = LoopTargetID b \<and> LoopRepo a = LoopRepo b
     \<and> LoopPRNumber a = LoopPRNumber b"

lemma same_place_target:
  assumes "same_place a b" shows "targetFromRecord a = targetFromRecord b"
proof -
  from assms have eqs: "LoopID a = LoopID b" "LoopTargetTyp a = LoopTargetTyp b" "LoopTargetID a = LoopTargetID b"
    "LoopRepo a = LoopRepo b" "LoopPRNumber a = LoopPRNumber b"
    by (simp_all add: same_place_def)
  show ?thesis unfolding targetFromRecord_def eqs ..
qed

lemma target_updates [simp]: "targetFromRecord (a\<lparr>LoopCreatedAt := c\<rparr>) = targetFromRecord a"
  "targetFromRecord (a\<lparr>LoopStat := st\<rparr>) = targetFromRecord a"
  by (rule same_place_target, simp add: same_place_def)+

text \<open>
  A write keeps uniqueness when the written row shares its target with no other active loop, in
  particular when the row it replaces was active on the same target, or the new row is not active.
\<close>

lemma same_target_created [simp]: "same_target (a\<lparr>LoopCreatedAt := c\<rparr>) b = same_target a b"
  "same_target a (b\<lparr>LoopCreatedAt := c\<rparr>) = same_target a b"
  by (simp_all add: same_target_iff conflicting_active_def)

lemma write_unique:
  assumes u: "upsert_loop r h db = Inr db'" and one: "loops_unique db"
    and none: "\<And>l. l \<in> set (loops (DB db)) \<Longrightarrow> LoopID l \<noteq> LoopID r \<Longrightarrow> \<not> same_target r l"
  shows "loops_unique db'"
  unfolding loops_unique_def
proof (intro ballI impI, rule ccontr)
  have rows: "loops (DB db') = rows_put r (loops (DB db))" using upsert_loop_Inr(1) [OF u] by simp
  fix a b
  assume ab: "a \<in> set (loops (DB db'))" "b \<in> set (loops (DB db'))"
    and same: "same_target a b" and ne: "LoopID a \<noteq> LoopID b"
  have old: "l \<in> set (loops (DB db))" if "l \<in> set (loops (DB db'))" "LoopID l \<noteq> LoopID r" for l
    using that rows by (auto simp: in_rows_put)
  have like: "\<exists>c. l = r\<lparr>LoopCreatedAt := c\<rparr>" if "l \<in> set (loops (DB db'))" "LoopID l = LoopID r" for l
    using that rows put_row_like by metis
  consider "LoopID a = LoopID r" "LoopID b \<noteq> LoopID r" | "LoopID b = LoopID r" "LoopID a \<noteq> LoopID r"
    | "LoopID a \<noteq> LoopID r" "LoopID b \<noteq> LoopID r" using ne by metis
  then show False
  proof cases
    case 1
    with like ab same have "same_target r b" using same_target_created(1) by metis
    with none old ab 1 show False by blast
  next
    case 2
    with like ab same have "same_target r a" using same_target_created(2) same_target_sym by metis
    with none old ab 2 show False by blast
  next
    case 3
    with one old ab same ne show False unfolding loops_unique_def by blast
  qed
qed

lemma rewrite_unique:
  assumes "upsert_loop r h db = Inr db'" and one: "loops_unique db"
    and cur: "find_loop (DB db) (LoopID r) = Some cur" and place: "same_place r cur"
    and act: "conflicting_active r \<Longrightarrow> conflicting_active cur"
  shows "loops_unique db'"
proof (rule write_unique [OF assms(1) one])
  fix l assume l: "l \<in> set (loops (DB db))" "LoopID l \<noteq> LoopID r"
  have "cur \<in> set (loops (DB db))" "LoopID cur = LoopID r" using find_loop_Some [OF cur] by simp_all
  moreover have "same_target cur l" if "same_target r l"
    using that act place same_place_target [OF place] by (auto simp: same_target_iff same_place_def)
  ultimately show "\<not> same_target r l" using one l by (auto simp: loops_unique_def)
qed

lemma set_List_loops [simp]: "set (List_loops db) = set (loops (DB db))"
  by (simp add: List_loops_def ListFiltered_def filtered_def)

lemma summaries_Inr: "summaries ls = Inr ss \<longleftrightarrow> map loopSummaryFromRecord ls = map Inr ss"
  by (induction ls arbitrary: ss) (auto simp: bind_result_Inr_iff)

lemma active_conflict_None:
  assumes "active_conflict cand t ls = None" and "l \<in> set ls" and "LoopID l \<noteq> LoopID cand"
    and "targetFromRecord cand = Inr t"
  shows "\<not> same_target (cand\<lparr>LoopStat := st\<rparr>) l"
proof
  assume "same_target (cand\<lparr>LoopStat := st\<rparr>) l"
  then obtain y where l: "conflicting_active l" "LoopProjectID cand = LoopProjectID l" "LoopTyp cand = LoopTyp l"
    "targetFromRecord l = Inr y" "LoopTargetKey t = LoopTargetKey y"
    "\<not> (LoopTyp cand = ''worker'' \<and> TargetType t = TargetProject \<and> TargetType y = TargetProject)"
    using assms(4) by (auto simp: same_target_iff)
  have "active_conflict cand t ls \<noteq> None"
    using assms(2)
  proof (induction ls)
    case (Cons a ls)
    then show ?case
      using l assms(3) by (cases "targetFromRecord a") (auto simp: same_project_workers_def)
  qed simp
  with assms(1) show False by simp
qed

section \<open>What the operations do\<close>

text \<open>The common effect of \<open>Pause\<close>, \<open>Hold\<close> and \<open>Terminate\<close>.\<close>

definition park_effect ::
    "metadata_json \<Rightarrow> LoopRecord \<Rightarrow> string option \<Rightarrow> loop_db \<Rightarrow> nat \<Rightarrow> loop_db \<Rightarrow> bool" where
  "park_effect js updated reason db n db' \<longleftrightarrow> (\<exists>h db1 s.
     upsertWithIssueClaimAdmission js updated h False db = Inr db1
     \<and> CancelByLoop (LoopID updated) (LoopUpdatedAt updated) reason (DB db1) = Inr (n, s)
     \<and> db' = db1\<lparr>DB := s\<rparr>)"

lemma loop_result_Inr [simp]: "loop_result r = Inr a \<longleftrightarrow> r = Inr a"
  by (cases r) auto

lemma queue_result_Inr [simp]: "queue_result r = Inr a \<longleftrightarrow> r = Inr a"
  by (cases r) auto

lemma fail_with_Inr [simp]: "fail_with e = Inr u \<longleftrightarrow> e = None"
  by (cases e) (auto simp: fail_with_def)

lemma parked_fields [simp]: "LoopID (parked ck now st l) = LoopID l" "LoopStat (parked ck now st l) = status_name st"
  by (simp_all add: parked_def)

lemma with_loop_Inr: "with_loop k db f = Inr a \<longleftrightarrow> (\<exists>l. find_loop (DB db) k = Some l \<and> f l = Inr a)"
  by (auto simp: with_loop_def GetByID_loop_def split: option.splits)

lemma cancel_queue_Inr: "cancel_queue updated reason db1 = Inr (u, n, db') \<longleftrightarrow> u = updated \<and> (\<exists>s.
    CancelByLoop (LoopID updated) (LoopUpdatedAt updated) reason (DB db1) = Inr (n, s) \<and> db' = db1\<lparr>DB := s\<rparr>)"
  by (auto simp: cancel_queue_def bind_result_Inr_iff)

lemma park_steps:
  assumes "bind_result (loop_result (upsertWithIssueClaimAdmission js updated h False db))
      (cancel_queue updated reason) = Inr (u, n, db')"
  shows "u = updated \<and> park_effect js updated reason db n db'"
proof -
  from assms obtain db1 where "upsertWithIssueClaimAdmission js updated h False db = Inr db1"
    and "cancel_queue updated reason db1 = Inr (u, n, db')"
    by (auto simp: bind_result_Inr_iff)
  then show ?thesis unfolding cancel_queue_Inr park_effect_def by blast
qed

lemma hold_effect:
  assumes "Hold js ck now k reason db = Inr (u, n, db')"
  obtains l where "find_loop (DB db) k = Some l" and "u = parked ck now LHumanTakeover l"
    and "status_of (LoopStat l) = LHumanTakeover \<or> AssertLoopStatusTransition (status_of (LoopStat l)) LHumanTakeover = None"
    and "park_effect js u reason db n db'"
proof -
  from assms obtain l where l: "find_loop (DB db) k = Some l"
    and ok: "status_of (LoopStat l) = LHumanTakeover \<or> AssertLoopStatusTransition (status_of (LoopStat l)) LHumanTakeover = None"
    and st: "bind_result (loop_result (upsertWithIssueClaimAdmission js (parked ck now LHumanTakeover l) True False db))
       (cancel_queue (parked ck now LHumanTakeover l) reason) = Inr (u, n, db')"
    by (auto simp: Hold_def with_loop_Inr Let_def loop_writes bind_result_Inr_iff split: if_splits)
  from park_steps [OF st] have "u = parked ck now LHumanTakeover l \<and> park_effect js (parked ck now LHumanTakeover l) reason db n db'"
    by blast
  with l ok that show ?thesis by blast
qed

lemma pause_effect:
  assumes "Pause js ck now k reason db = Inr (u, n, db')"
  obtains l where "find_loop (DB db) k = Some l" and "u = parked ck now LPaused l"
    and "status_of (LoopStat l) = LPaused \<or> AssertLoopStatusTransition (status_of (LoopStat l)) LPaused = None"
    and "park_effect js u reason db n db'"
proof -
  from assms obtain l where l: "find_loop (DB db) k = Some l"
    and ok: "status_of (LoopStat l) = LPaused \<or> AssertLoopStatusTransition (status_of (LoopStat l)) LPaused = None"
    and st: "bind_result (loop_result (upsertWithIssueClaimAdmission js (parked ck now LPaused l) False False db))
       (cancel_queue (parked ck now LPaused l) reason) = Inr (u, n, db')"
    by (auto simp: Pause_def with_loop_Inr Let_def loop_writes split: if_splits)
  from park_steps [OF st] have "u = parked ck now LPaused l \<and> park_effect js (parked ck now LPaused l) reason db n db'"
    by blast
  with l ok that show ?thesis by blast
qed

lemma terminate_effect:
  assumes "Terminate js ck now k reason db = Inr (u, n, db')"
  obtains l where "find_loop (DB db) k = Some l" and "u = parked ck now LTerminated l"
    and "status_of (LoopStat l) = LTerminated \<or> AssertLoopStatusTransition (status_of (LoopStat l)) LTerminated = None"
    and "park_effect js u reason db n db'"
proof -
  from assms obtain l where l: "find_loop (DB db) k = Some l"
    and ok: "status_of (LoopStat l) = LTerminated \<or> AssertLoopStatusTransition (status_of (LoopStat l)) LTerminated = None"
    and st: "\<exists>h. bind_result (loop_result (upsertWithIssueClaimAdmission js (parked ck now LTerminated l) h False db))
       (cancel_queue (parked ck now LTerminated l) reason) = Inr (u, n, db')"
    by (auto simp: Terminate_def with_loop_Inr Let_def loop_writes bind_result_Inr_iff split: if_splits)
  from st obtain h where st: "bind_result (loop_result (upsertWithIssueClaimAdmission js (parked ck now LTerminated l) h False db))
       (cancel_queue (parked ck now LTerminated l) reason) = Inr (u, n, db')" by blast
  from park_steps [OF st] have "u = parked ck now LTerminated l \<and> park_effect js (parked ck now LTerminated l) reason db n db'"
    by blast
  with l ok that show ?thesis by blast
qed

lemma transition_effect:
  assumes "TransitionStatus js ck now k i db = Inr (u, db')"
  obtains l h where "find_loop (DB db) k = Some l" and "u = transitioned ck now i l"
    and "AssertLoopStatusTransition (status_of (LoopStat l)) (TrStatus i) = None"
    and "upsertWithIssueClaimAdmission js u h False db = Inr db'"
proof -
  from assms obtain l where l: "find_loop (DB db) k = Some l" "u = transitioned ck now i l"
    "AssertLoopStatusTransition (status_of (LoopStat l)) (TrStatus i) = None"
    "\<exists>h. upsertWithIssueClaimAdmission js u h False db = Inr db'"
    by (auto simp: TransitionStatus_def with_loop_Inr Let_def bind_result_Inr_iff loop_writes split: if_splits)
  with that show ?thesis by blast
qed

lemma put_member: "\<exists>r \<in> set (rows_put u rows). LoopID r = LoopID u"
proof -
  have "LoopID u \<in> set (map LoopID (rows_put u rows))" by (simp only: rows_put_ids) auto
  then show ?thesis by auto
qed

text \<open>What \<open>CancelByLoop\<close> does to a valid queue.\<close>

lemma cancelled_by_loop:
  assumes v: "queue_valid s" and c: "CancelByLoop k t reason s = Inr (n, s')"
  shows "queue_valid s'" and "only_queue s s'" and "n = CountActiveByLoopID s k"
    and "list_all (\<lambda>q. \<not> (QLoopID q = Some k \<and> active_status (QStatus q))) (queue s')"
    and "s' = s\<lparr>queue := map (\<lambda>q. if QLoopID q = Some k \<and> active_status (QStatus q)
          then cancel_row t reason q else q) (queue s)\<rparr>"
proof -
  let ?P = "\<lambda>q. QLoopID q = Some k \<and> active_status (QStatus q)"
  have s': "s' = s\<lparr>queue := update_where ?P (cancel_row t reason) (queue s)\<rparr>" and n: "n = affected ?P (queue s)"
    using c by (auto simp: CancelByLoop_def counted_update_def commit_queue_Inr split: sum.splits)
  show "queue_valid s'" using exec_op_valid [OF v, of "OpCancelByLoop k t reason"] c by simp
  show "only_queue s s'" by (simp add: s')
  show "n = CountActiveByLoopID s k" by (simp add: n affected_def CountActiveByLoopID_def)
  have "\<not> ?P (cancel_row t reason q)" for q by (simp add: cancel_row_def active_status_def)
  then show "list_all (\<lambda>q. \<not> ?P q) (queue s')"
    by (auto simp: s' list_all_iff set_update_where)
  show "s' = s\<lparr>queue := map (\<lambda>q. if ?P q then cancel_row t reason q else q) (queue s)\<rparr>"
    by (simp add: s' update_where_def)
qed

text \<open>The whole transaction: the row written, the loop's work cancelled, nothing else touched.\<close>

lemma parked_all:
  assumes v: "tables_valid db" and p: "park_effect js u reason db n db'"
  shows "tables_valid db'" and "\<exists>c. find_loop (DB db') (LoopID u) = Some (u\<lparr>LoopCreatedAt := c\<rparr>)"
    and "list_all (\<lambda>q. \<not> (QLoopID q = Some (LoopID u) \<and> active_status (QStatus q))) (queue (DB db'))"
    and "n = CountActiveByLoopID (DB db) (LoopID u)"
    and "DB db' = (DB db)\<lparr>loops := rows_put u (loops (DB db)),
        queue := map (\<lambda>q. if QLoopID q = Some (LoopID u) \<and> active_status (QStatus q)
          then cancel_row (LoopUpdatedAt u) reason q else q) (queue (DB db))\<rparr>"
proof -
  obtain h db1 s where w: "upsertWithIssueClaimAdmission js u h False db = Inr db1"
    and c: "CancelByLoop (LoopID u) (LoopUpdatedAt u) reason (DB db1) = Inr (n, s)" and db': "db' = db1\<lparr>DB := s\<rparr>"
    using p by (auto simp: park_effect_def)
  from w have up: "upsert_loop u h db = Inr db1" by (rule admitted_upsert)
  have rows: "DB db1 = (DB db)\<lparr>loops := rows_put u (loops (DB db))\<rparr>" by (rule upsert_loop_Inr(1) [OF up])
  have v1: "tables_valid db1" by (rule write_tables_valid [OF v w])
  note q = cancelled_by_loop [OF _ c]
  have qv: "queue_valid (DB db1)" using v1 by (simp add: tables_valid_def)
  have l': "loops (DB db') = loops (DB db1)" "projects (DB db') = projects (DB db1)"
    using only_queue_loops [OF q(2) [OF qv]] by (simp_all add: db')
  have "find_project (DB db') = find_project (DB db1)" by (rule ext) (simp only: find_project_def l')
  then have "loop_references (DB db') = loop_references (DB db1)" by (intro ext) (simp only: loop_references_def)
  with v1 have "loops_valid db'" by (simp only: tables_valid_def loops_valid_def l')
  moreover have "queue_valid (DB db')" using q(1) [OF qv] by (simp add: db')
  ultimately show "tables_valid db'" by (simp only: tables_valid_def)
  have "\<exists>r \<in> set (loops (DB db')). LoopID r = LoopID u"
    using l' rows put_member by simp
  then obtain r where r: "r \<in> set (loops (DB db'))" "LoopID r = LoopID u" by blast
  from r(1) have "r \<in> set (rows_put u (loops (DB db)))" by (simp add: l' rows)
  from put_row_like [OF this r(2)] have like: "\<exists>c. r = u\<lparr>LoopCreatedAt := c\<rparr>" .
  have "distinct (map LoopID (loops (DB db')))"
    using v1 by (simp only: l' tables_valid_def loops_valid_def)
  from find_loop_member [OF this r(1)] have "find_loop (DB db') (LoopID u) = Some r" by (simp only: r(2))
  with like show "\<exists>c. find_loop (DB db') (LoopID u) = Some (u\<lparr>LoopCreatedAt := c\<rparr>)"
    by (metis)
  show "list_all (\<lambda>q. \<not> (QLoopID q = Some (LoopID u) \<and> active_status (QStatus q))) (queue (DB db'))"
    using q(4) [OF qv] by (simp add: db')
  show "n = CountActiveByLoopID (DB db) (LoopID u)"
    using q(3) [OF qv] by (simp add: rows CountActiveByLoopID_def)
  show "DB db' = (DB db)\<lparr>loops := rows_put u (loops (DB db)),
        queue := map (\<lambda>q. if QLoopID q = Some (LoopID u) \<and> active_status (QStatus q)
          then cancel_row (LoopUpdatedAt u) reason q else q) (queue (DB db))\<rparr>"
    using q(5) [OF qv] by (simp add: db' rows)
qed

text \<open>The rows an upsert of a version of a loop leaves, when the ids are distinct.\<close>

lemma rows_put_version:
  assumes d: "distinct (map LoopID rows)" and f: "find (\<lambda>l. LoopID l = k) rows = Some l"
    and u: "LoopID u = k" "LoopCreatedAt u = LoopCreatedAt l"
  shows "rows_put u rows = map (\<lambda>r. if LoopID r = k then u else r) rows"
proof -
  have l: "l \<in> set rows" "LoopID l = k" using find_name [OF f] by auto
  have "loop_excluded u r = u" if "r \<in> set rows" "LoopID r = k" for r
  proof -
    have "r = l" using inj_onD [OF distinct_map [THEN iffD1, OF d, THEN conjunct2], of r l] that l by simp
    with u show ?thesis by (simp add: loop_excluded_def)
  qed
  moreover have "k \<in> LoopID ` set rows" using l by blast
  ultimately show ?thesis by (simp add: rows_put_def update_where_def u)
qed

lemma held_rows:
  assumes v: "tables_valid db" and l: "find_loop (DB db) k = Some l" "u = parked ck now LHumanTakeover l"
  shows "rows_put u (loops (DB db)) = map (\<lambda>l. if LoopID l = k then l\<lparr>LoopStat := ''human_takeover'',
      LoopNextRunAt := None, LoopUpdatedAt := LoopUpdatedAt u\<rparr> else l) (loops (DB db))"
proof -
  have d: "distinct (map LoopID (loops (DB db)))" using v by (simp add: tables_valid_def loops_valid_def)
  have m: "l \<in> set (loops (DB db))" "LoopID l = k" using find_loop_Some [OF l(1)] by auto
  have "u = r\<lparr>LoopStat := ''human_takeover'', LoopNextRunAt := None, LoopUpdatedAt := LoopUpdatedAt u\<rparr>"
    if "r \<in> set (loops (DB db))" "LoopID r = k" for r
  proof -
    have "r = l" using inj_onD [OF distinct_map [THEN iffD1, OF d, THEN conjunct2], of r l] that m by simp
    then show ?thesis by (simp add: l(2) parked_def)
  qed
  moreover have "rows_put u (loops (DB db)) = map (\<lambda>r. if LoopID r = k then u else r) (loops (DB db))"
    using l(1) m(2) by (intro rows_put_version [OF d, where l = l]) (simp_all add: find_loop_def l(2) parked_def)
  ultimately show ?thesis by (auto intro!: map_cong)
qed

text \<open>
  C12. A hold takes effect at once and lasts: when \<open>Hold\<close> succeeds the loop's row is put under the human
  without a next run, its active queue items, and only those, are cancelled with the time of the hold and
  its reason, and no other row and no other table changes. The reported count is what was cancelled, and
  no claim returns an item of the loop however long other statements run before it, until a write
  with authority over the takeover.
\<close>

theorem hold_takes_effect:
  assumes "tables_valid db" and "Hold js ck now k reason db = Inr (u, n, db')"
    and "list_all (no_authority k) ops"
  shows "held_by_human k db'
    \<and> list_all (\<lambda>q. \<not> (QLoopID q = Some k \<and> active_status (QStatus q))) (queue (DB db'))
    \<and> n = CountActiveByLoopID (DB db) k
    \<and> DB db' = (DB db)\<lparr>
        loops := map (\<lambda>l. if LoopID l = k then l\<lparr>LoopStat := ''human_takeover'', LoopNextRunAt := None,
            LoopUpdatedAt := LoopUpdatedAt u\<rparr> else l) (loops (DB db)),
        queue := map (\<lambda>q. if QLoopID q = Some k \<and> QStatus q \<in> {queued, running}
            then q\<lparr>QStatus := cancelled, QFinishedAt := Some (LoopUpdatedAt u),
              QLastError := coalesce reason (QLastError q), QUpdatedAt := LoopUpdatedAt u\<rparr>
            else q) (queue (DB db))\<rparr>
    \<and> (case claimNextMatching extra later who (DB (exec_loop_ops js ops db')) of
        Inr (Some r, _) \<Rightarrow> QLoopID r \<noteq> Some k | _ \<Rightarrow> True)"
proof -
  obtain l where l: "find_loop (DB db) k = Some l" "u = parked ck now LHumanTakeover l"
    and p: "park_effect js u reason db n db'"
    using hold_effect [OF assms(2)] by blast
  have k: "LoopID u = k" using find_loop_Some [OF l(1)] l(2) by simp
  note a = parked_all [OF assms(1) p, unfolded k]
  have h: "held_by_human k db'"
    using a(2) l(2) by (auto simp: held_by_human_def)
  have rows: "rows_put u (loops (DB db)) = map (\<lambda>l. if LoopID l = k then l\<lparr>LoopStat := ''human_takeover'',
      LoopNextRunAt := None, LoopUpdatedAt := LoopUpdatedAt u\<rparr> else l) (loops (DB db))"
    by (rule held_rows [OF assms(1) l])
  have "case claimNextMatching extra later who (DB (exec_loop_ops js ops db')) of
      Inr (Some r, _) \<Rightarrow> QLoopID r \<noteq> Some k | _ \<Rightarrow> True"
    using fence_history [OF a(1) h assms(3), of js] held_not_claimed
    by (auto split: sum.split prod.split option.split)
  with h a(3,4) a(5) [unfolded rows cancel_row_def active_status_def] show ?thesis
    by (intro conjI) simp_all
qed

section \<open>Histories of the service\<close>

datatype service_op =
    SvcCreate int string CreateInput
  | SvcTransition int string TransitionInput
  | SvcPause int string "string option"
  | SvcHold int string "string option"
  | SvcTerminate int string "string option"
  | SvcRetire string string string "string option"
  | SvcReactivate reactivation
  | SvcQueue queue_op

fun outcome :: "loop_db \<Rightarrow> (service_error, 'a \<times> loop_db) result \<Rightarrow> loop_db" where
  "outcome db (Inl _) = db"
| "outcome db (Inr (_, db')) = db'"

fun outcome3 :: "loop_db \<Rightarrow> (service_error, 'a \<times> 'b \<times> loop_db) result \<Rightarrow> loop_db" where
  "outcome3 db (Inl _) = db"
| "outcome3 db (Inr (_, _, db')) = db'"

fun exec_service :: "metadata_json \<Rightarrow> payload_json \<Rightarrow> clock \<Rightarrow> service_op \<Rightarrow> loop_db \<Rightarrow> loop_db" where
  "exec_service js pj ck (SvcCreate now k i) db = outcome db (Create js ck now k i db)"
| "exec_service js pj ck (SvcTransition now k i) db = outcome db (TransitionStatus js ck now k i db)"
| "exec_service js pj ck (SvcPause now k r) db = outcome3 db (Pause js ck now k r db)"
| "exec_service js pj ck (SvcHold now k r) db = outcome3 db (Hold js ck now k r db)"
| "exec_service js pj ck (SvcTerminate now k r) db = outcome3 db (Terminate js ck now k r db)"
| "exec_service js pj ck (SvcRetire k q t r) db = outcome db (RetireQueuedLoop js k q t r db)"
| "exec_service js pj ck (SvcReactivate i) db = outcome db (ReactivateQueue js pj i db)"
| "exec_service js pj ck (SvcQueue p) db = db\<lparr>DB := exec_op p (DB db)\<rparr>"

text \<open>
  An operation re-enters when it gives a loop that holds no claim a status that does, without the
  check \<open>Create\<close> and \<open>ReactivateQueue\<close> make. The other conditions say that a status is the
  datatype's own constructor for its name, and that issue numbers are 64-bit.
\<close>

definition reenters :: "loop_db \<Rightarrow> string \<Rightarrow> LoopStatus \<Rightarrow> bool" where
  "reenters db k st \<longleftrightarrow> (case find_loop (DB db) k of None \<Rightarrow> False
     | Some l \<Rightarrow> \<not> conflicting_active l \<and> IsConflictingActiveLoopStatus st)"

definition well_formed_input :: "CreateInput \<Rightarrow> bool" where
  "well_formed_input i \<longleftrightarrow> status_of (status_name (InStatus i)) = InStatus i
     \<and> - 9223372036854775808 \<le> TIssueNumber (InTarget i) \<and> TIssueNumber (InTarget i) < 9223372036854775808"

fun checked_op :: "loop_db \<Rightarrow> service_op \<Rightarrow> bool" where
  "checked_op db (SvcCreate _ _ i) = well_formed_input i"
| "checked_op db (SvcTransition _ k i) = (status_of (status_name (TrStatus i)) = TrStatus i \<and> \<not> reenters db k (TrStatus i))"
| "checked_op db (SvcPause _ k _) = (\<not> reenters db k LPaused)"
| "checked_op db (SvcHold _ k _) = (\<not> reenters db k LHumanTakeover)"
| "checked_op db (SvcQueue p) = keeps_loops p"
| "checked_op db _ = True"

inductive service_step :: "metadata_json \<Rightarrow> payload_json \<Rightarrow> clock \<Rightarrow> loop_db \<Rightarrow> loop_db \<Rightarrow> bool" for js pj ck where
  checked: "checked_op db p \<Longrightarrow> service_step js pj ck db (exec_service js pj ck p db)"

inductive_cases service_stepE: "service_step js pj ck db db'"

section \<open>Uniqueness along histories\<close>

lemma same_target_like:
  assumes "same_place a a'" and "LoopStat a = LoopStat a'"
  shows "same_target a l = same_target a' l"
  using assms same_place_target [OF assms(1)] by (simp add: same_target_iff conflicting_active_def same_place_def)

lemma loops_unique_only: "loops (DB db') = loops (DB db) \<Longrightarrow> loops_unique db \<Longrightarrow> loops_unique db'"
  by (simp add: loops_unique_def)

lemma key_project: "LoopTargetKey x = LoopTargetKey y \<Longrightarrow> TargetType x = TargetProject \<Longrightarrow> TargetType y = TargetProject"
  by (cases "TargetType y") (auto simp: LoopTargetKey_def)

lemma rewrite_admitted:
  assumes "upsertWithIssueClaimAdmission js r h f db = Inr db'" and "loops_unique db"
    and "find_loop (DB db) (LoopID r) = Some cur" and "same_place r cur"
    and "conflicting_active r \<Longrightarrow> conflicting_active cur"
  shows "loops_unique db'"
proof -
  from assms(1) have "upsert_loop r h db = Inr db'" by (rule admitted_upsert)
  from rewrite_unique [OF this assms(2,3,4,5)] show ?thesis .
qed

lemma park_unique:
  assumes one: "loops_unique db" and l: "find_loop (DB db) k = Some l"
    and p: "park_effect js (parked ck now st l) reason db n db'"
    and act: "IsConflictingActiveLoopStatus (status_of (status_name st)) \<Longrightarrow> conflicting_active l"
  shows "loops_unique db'"
proof -
  obtain h db1 s where w: "upsertWithIssueClaimAdmission js (parked ck now st l) h False db = Inr db1"
    and c: "CancelByLoop (LoopID (parked ck now st l)) (LoopUpdatedAt (parked ck now st l)) reason (DB db1) = Inr (n, s)"
    and db': "db' = db1\<lparr>DB := s\<rparr>"
    using p unfolding park_effect_def by blast
  have k: "LoopID l = k" using find_loop_Some [OF l] by simp
  have "loops_unique db1"
    by (rule rewrite_admitted [OF w one, of l])
      (use k l act in \<open>simp_all add: same_place_def parked_def conflicting_active_def\<close>)
  moreover have "loops s = loops (DB db1)"
    using only_queue_loops [OF exec_op_only_queue,
        of "OpCancelByLoop (LoopID (parked ck now st l)) (LoopUpdatedAt (parked ck now st l)) reason" "DB db1"] c
    by (simp del: parked_fields)
  then have "loops (DB db') = loops (DB db1)" by (simp add: db')
  ultimately show ?thesis using loops_unique_only by blast
qed

lemma name_lemmas: "status_of ''paused'' = LPaused" "status_of ''terminated'' = LTerminated"
  "status_of ''human_takeover'' = LHumanTakeover" "status_of ''running'' = LRunning" "status_of ''queued'' = LQueued"
  by code_simp+

lemma status_kinds: "IsConflictingActiveLoopStatus LPaused" "IsConflictingActiveLoopStatus LQueued"
  "IsConflictingActiveLoopStatus LRunning" "\<not> IsConflictingActiveLoopStatus LTerminated"
  by code_simp+

lemma transition_unique:
  assumes "loops_unique db" and "checked_op db (SvcTransition now k i)"
    and "TransitionStatus js ck now k i db = Inr (u, db')"
  shows "loops_unique db'"
proof -
  obtain l h where l: "find_loop (DB db) k = Some l" "u = transitioned ck now i l"
    and w: "upsertWithIssueClaimAdmission js u h False db = Inr db'"
    using transition_effect [OF assms(3)] by blast
  have k: "LoopID l = k" using find_loop_Some [OF l(1)] by simp
  have u: "LoopStat u = status_name (TrStatus i)" "same_place u l" "LoopID u = k"
    using k by (simp_all add: l(2) transitioned_def Let_def same_place_def)
  show ?thesis
    by (rule rewrite_admitted [OF w assms(1), of l])
      (use assms(2) l(1) u in \<open>auto simp: conflicting_active_def reenters_def\<close>)
qed

lemma retire_unique:
  assumes "loops_unique db" and "RetireQueuedLoop js k q t reason db = Inr (b, db')"
  shows "loops_unique db'"
proof (cases "\<exists>loop db1. GetByID_loop db k = Some loop \<and> LoopStat loop = queued
    \<and> Upsert_loop js (loop\<lparr>LoopStat := ''paused'', LoopNextRunAt := None, LoopUpdatedAt := t\<rparr>) db = Inr db1
    \<and> loops (DB db') = loops (DB db1)")
  case True
  then obtain loop db1 where l: "find_loop (DB db) k = Some loop" "LoopStat loop = ''queued''"
    and w: "upsertWithIssueClaimAdmission js (loop\<lparr>LoopStat := ''paused'', LoopNextRunAt := None, LoopUpdatedAt := t\<rparr>)
       False False db = Inr db1"
    and same: "loops (DB db') = loops (DB db1)"
    by (auto simp: GetByID_loop_def loop_writes)
  have "loops_unique db1"
    by (rule rewrite_admitted [OF w assms(1), of loop])
      (use l find_loop_Some [OF l(1)] in \<open>simp_all add: same_place_def conflicting_active_def name_lemmas status_kinds\<close>)
  with same show ?thesis using loops_unique_only by blast
next
  case False
  have "loops s = loops d" if "counted_update P f d = Inr (m, s)" for P f d m s
    using that by (auto simp: counted_update_def commit_queue_Inr split: sum.splits)
  with False have "db' = db"
    using assms(2) by (auto simp: RetireQueuedLoop_def bind_result_Inr_iff split: option.splits if_splits)
  with assms(1) show ?thesis by simp
qed

lemma create_steps:
  assumes "Create js ck now k i db = Inr (r, db')"
  obtains seq db1 ss where "AssertLoopTypeMatchesTarget (InType i) (InTarget i) = None"
    and "map loopSummaryFromRecord (List_loops db) = map Inr ss"
    and "AssertUniqueActiveLoop ss \<lparr>SumID = k, SumProjectID = InProjectID i, SumType = InType i,
           SumTarget = InTarget i, SumStatus = InStatus i\<rparr> = None"
    and "AllocateSeq db = (seq, db1)" and "r = created_record i k seq (FormatJavaScriptISOString ck now)"
    and "upsertWithIssueClaimAdmission js r False False db1 = Inr db'"
  using assms by (auto simp: Create_def bind_result_Inr_iff summaries_Inr loop_writes Let_def split: option.splits prod.splits)

lemma created_no_rival:
  assumes w: "well_formed_input i" and ty: "AssertLoopTypeMatchesTarget (InType i) (InTarget i) = None"
    and uniq: "AssertUniqueActiveLoop ss \<lparr>SumID = k, SumProjectID = InProjectID i, SumType = InType i,
           SumTarget = InTarget i, SumStatus = InStatus i\<rparr> = None"
    and s: "loopSummaryFromRecord l = Inr s" "s \<in> set ss" and id: "LoopID l \<noteq> k"
  shows "\<not> same_target (created_record i k seq t) l"
proof
  let ?r = "created_record i k seq t"
  assume same: "same_target ?r l"
  have known: "InType i \<in> set LoopTypes"
    using ty by (auto simp: AssertLoopTypeMatchesTarget_def AssertKnownLoopType_def list_ex_iff split: if_splits)
  have f: "LoopProjectID ?r = InProjectID i" "LoopTyp ?r = type_name (InType i)"
    by (simp_all add: created_record_def)
  obtain x y where xy: "targetFromRecord ?r = Inr x" "targetFromRecord l = Inr y" "LoopTargetKey x = LoopTargetKey y"
    "conflicting_active ?r" "conflicting_active l" "InProjectID i = LoopProjectID l" "type_name (InType i) = LoopTyp l"
    "\<not> (type_name (InType i) = ''worker'' \<and> TargetType x = TargetProject \<and> TargetType y = TargetProject)"
    using same unfolding same_target_iff f by (elim conjE exE) (rule that)
  show False
  proof (cases "TargetType (InTarget i) = TargetProject")
    case True
    then have "InType i = Worker"
      using ty known by (auto simp: AssertLoopTypeMatchesTarget_def LoopTypes_def split: option.splits LoopType.splits if_splits)
    moreover have "TargetType x = TargetProject"
    proof -
      have "target_of ''project'' = TargetProject" by code_simp
      then have kind: "target_of (LoopTargetTyp ?r) = TargetProject" using True by (simp add: created_record_def)
      have "LoopTargetID ?r = Some (LoopTargetKey (InTarget i))" by (simp add: created_record_def loopTargetID_def)
      with kind have read: "targetFromRecord ?r
          = Inr ((empty_target TargetProject)\<lparr>TProjectID := trimTargetPrefix (LoopTargetKey (InTarget i))\<rparr>)"
        by (simp add: targetFromRecord_def empty_target_def)
      from trans [OF xy(1) [symmetric] read]
      have "x = (empty_target TargetProject)\<lparr>TProjectID := trimTargetPrefix (LoopTargetKey (InTarget i))\<rparr>"
        by (rule sum.inject(2) [THEN iffD1])
      then show ?thesis by (simp add: empty_target_def)
    qed
    ultimately show False using key_project [OF xy(3)] xy(8) by simp
  next
    case False
    obtain x' where "targetFromRecord ?r = Inr x'" "TargetType x' = TargetType (InTarget i)"
      "LoopTargetKey x' = LoopTargetKey (InTarget i)"
      by (rule created_target [OF ty False, of k seq t]) (use w in \<open>simp_all add: well_formed_input_def\<close>)
    with xy(1,3) have key: "LoopTargetKey y = LoopTargetKey (InTarget i)" by simp
    have "s = \<lparr>SumID = LoopID l, SumProjectID = InProjectID i, SumType = InType i, SumTarget = y,
        SumStatus = status_of (LoopStat l)\<rparr>"
      using s(1) xy(2) known by (simp add: loopSummaryFromRecord_def xy(6) xy(7) [symmetric] type_of_name)
    moreover have "IsConflictingActiveLoopStatus (InStatus i)"
      using xy(4) w by (simp add: conflicting_active_def created_record_def well_formed_input_def)
    ultimately have "claims_same s \<lparr>SumID = k, SumProjectID = InProjectID i, SumType = InType i,
           SumTarget = InTarget i, SumStatus = InStatus i\<rparr>"
      using False xy(5) key by (simp add: claims_same_def allowConcurrentProjectWorkers_def conflicting_active_def)
    with uniq s(2) id \<open>s = _\<close> show False by (auto simp: AssertUniqueActiveLoop_None)
  qed
qed

lemma create_unique:
  assumes one: "loops_unique db" and w: "well_formed_input i" and c: "Create js ck now k i db = Inr (r, db')"
  shows "loops_unique db'"
proof -
  obtain seq db1 ss where ty: "AssertLoopTypeMatchesTarget (InType i) (InTarget i) = None"
    and sums: "map loopSummaryFromRecord (List_loops db) = map Inr ss"
    and uniq: "AssertUniqueActiveLoop ss \<lparr>SumID = k, SumProjectID = InProjectID i, SumType = InType i,
           SumTarget = InTarget i, SumStatus = InStatus i\<rparr> = None"
    and seq: "AllocateSeq db = (seq, db1)" and r: "r = created_record i k seq (FormatJavaScriptISOString ck now)"
    and up: "upsertWithIssueClaimAdmission js r False False db1 = Inr db'"
    using c by (rule create_steps)
  have same: "DB db1 = DB db" using seq by (auto simp: AllocateSeq_def Let_def)
  from up have "upsert_loop r False db1 = Inr db'" by (rule admitted_upsert)
  then show ?thesis
  proof (rule write_unique)
    show "loops_unique db1" using one same loops_unique_only by metis
    fix l assume l: "l \<in> set (loops (DB db1))" "LoopID l \<noteq> LoopID r"
    then have "loopSummaryFromRecord l \<in> set (map loopSummaryFromRecord (List_loops db))" by (simp add: same)
    then obtain s where "loopSummaryFromRecord l = Inr s" "s \<in> set ss" by (auto simp only: sums set_map)
    with created_no_rival [OF w ty uniq] l(2) show "\<not> same_target r l"
      by (simp add: r) (simp add: created_record_def)
  qed
qed

lemma reactivate_steps:
  assumes "ReactivateQueue js pj i db = Inr (u, db')"
  obtains cur t first db1 n s where "find_loop (DB db) (ReLoopID i) = Some cur" and "targetFromRecord cur = Inr t"
    and "active_conflict cur t (List_loops db) = None"
    and "BuildQueuedLoopQueueRecord pj (ReQueueID i) cur t (ReNowISO i) (LoopMetadataJSON cur) (ReMaxAttempts i) = Inr (Some first)"
    and "upsertWithIssueClaimAdmission js (reactivated (ReNowISO i) cur) False False db = Inr db1"
    and "RequeueLatestCancelledByLoop (LoopID cur) (ReNowISO i) (DB db1) = Inr (n, s)"
    and "u = reactivated (ReNowISO i) cur"
    and "if n > 0 then db' = db1\<lparr>DB := s\<rparr>
         else (\<exists>s'. ensure_item (LoopID cur) (ReEventID i) (ReNowISO i) first s = Inr s' \<and> db' = db1\<lparr>DB := s'\<rparr>)"
proof -
  from assms obtain cur where cur: "find_loop (DB db) (ReLoopID i) = Some cur"
    and a: "AssertUniqueActiveLoopRecords db cur LRunning = Inr ()"
    and rest: "(case targetFromRecord cur of Inl _ \<Rightarrow> Inl ErrInvalidQueueTarget
        | Inr target \<Rightarrow>
          bind_result (BuildQueuedLoopQueueRecord pj (ReQueueID i) cur target (ReNowISO i)
             (LoopMetadataJSON cur) (ReMaxAttempts i)) (\<lambda>first.
          case first of None \<Rightarrow> Inl ErrInvalidQueueTarget
          | Some item \<Rightarrow>
            bind_result (loop_result (Upsert_loop js (reactivated (ReNowISO i) cur) db)) (\<lambda>db1.
            bind_result (queue_result (RequeueLatestCancelledByLoop (LoopID cur) (ReNowISO i) (DB db1)))
              (\<lambda>(requeued, s).
                if requeued > 0 then Inr (reactivated (ReNowISO i) cur, db1\<lparr>DB := s\<rparr>)
                else bind_result (queue_result (ensure_item (LoopID cur) (ReEventID i) (ReNowISO i) item s))
                       (\<lambda>s'. Inr (reactivated (ReNowISO i) cur, db1\<lparr>DB := s'\<rparr>)))))) = Inr (u, db')"
    unfolding ReactivateQueue_def with_loop_Inr bind_result_Inr_iff
    by (auto simp: with_loop_Inr bind_result_Inr_iff split: if_splits)
  obtain t where t: "targetFromRecord cur = Inr t" "active_conflict cur t (List_loops db) = None"
    using a by (auto simp: AssertUniqueActiveLoopRecords_def status_kinds split: sum.splits option.splits)
  from rest t(1) obtain first db1 n s where
    "BuildQueuedLoopQueueRecord pj (ReQueueID i) cur t (ReNowISO i) (LoopMetadataJSON cur) (ReMaxAttempts i) = Inr (Some first)"
    "upsertWithIssueClaimAdmission js (reactivated (ReNowISO i) cur) False False db = Inr db1"
    "RequeueLatestCancelledByLoop (LoopID cur) (ReNowISO i) (DB db1) = Inr (n, s)"
    "u = reactivated (ReNowISO i) cur"
    "if n > 0 then db' = db1\<lparr>DB := s\<rparr>
     else (\<exists>s'. ensure_item (LoopID cur) (ReEventID i) (ReNowISO i) first s = Inr s' \<and> db' = db1\<lparr>DB := s'\<rparr>)"
    by (auto simp: bind_result_Inr_iff loop_writes split: option.splits if_splits)
  with that cur t show ?thesis by blast
qed

lemma upsert_active_only_queue:
  "UpsertActiveByDedupeOrGetExisting r s = Inr (q, fresh, s') \<Longrightarrow> only_queue s s'"
  by (auto simp: UpsertActiveByDedupeOrGetExisting_def Upsert_def commit_queue_Inr
      split: sum.splits if_splits option.splits)

lemma ensure_item_only_queue: "ensure_item k newID t first s = Inr s' \<Longrightarrow> only_queue s s'"
  by (auto simp: ensure_item_def bind_result_Inr_iff upsert_active_only_queue split: option.splits if_splits)

lemma requeue_only_queue: "RequeueLatestCancelledByLoop k t s = Inr (n, s') \<Longrightarrow> only_queue s s'"
  using exec_op_only_queue [of "OpRequeueCancelled k t" s] by simp

lemma reactivate_loops:
  assumes "ReactivateQueue js pj i db = Inr (u, db')"
  obtains cur t db1 where "find_loop (DB db) (ReLoopID i) = Some cur" and "targetFromRecord cur = Inr t"
    and "active_conflict cur t (List_loops db) = None" and "u = reactivated (ReNowISO i) cur"
    and "upsertWithIssueClaimAdmission js u False False db = Inr db1" and "only_queue (DB db1) (DB db')"
proof -
  obtain cur t first db1 n s where c: "find_loop (DB db) (ReLoopID i) = Some cur" "targetFromRecord cur = Inr t"
    "active_conflict cur t (List_loops db) = None"
    "upsertWithIssueClaimAdmission js (reactivated (ReNowISO i) cur) False False db = Inr db1"
    and q: "RequeueLatestCancelledByLoop (LoopID cur) (ReNowISO i) (DB db1) = Inr (n, s)"
    and u: "u = reactivated (ReNowISO i) cur"
    and d: "if n > 0 then db' = db1\<lparr>DB := s\<rparr>
         else (\<exists>s'. ensure_item (LoopID cur) (ReEventID i) (ReNowISO i) first s = Inr s' \<and> db' = db1\<lparr>DB := s'\<rparr>)"
    using assms by (rule reactivate_steps)
  have "only_queue (DB db1) s" by (rule requeue_only_queue [OF q])
  moreover have "only_queue s s'" if "ensure_item (LoopID cur) (ReEventID i) (ReNowISO i) first s = Inr s'" for s'
    using that by (rule ensure_item_only_queue)
  moreover have "only_queue a c" if "only_queue a b" "only_queue b c" for a b c
    using that by (auto simp: only_queue_def)
  ultimately have "only_queue (DB db1) (DB db')" using d by (auto split: if_splits)
  with c u that show ?thesis by blast
qed

lemma reactivate_unique:
  assumes one: "loops_unique db" and r: "ReactivateQueue js pj i db = Inr (u, db')"
  shows "loops_unique db'"
proof -
  obtain cur t db1 where cur: "find_loop (DB db) (ReLoopID i) = Some cur" "targetFromRecord cur = Inr t"
    and free: "active_conflict cur t (List_loops db) = None" and u: "u = reactivated (ReNowISO i) cur"
    and w: "upsertWithIssueClaimAdmission js u False False db = Inr db1" and q: "only_queue (DB db1) (DB db')"
    using r by (rule reactivate_loops)
  from w have "upsert_loop u False db = Inr db1" by (rule admitted_upsert)
  then have "loops_unique db1"
  proof (rule write_unique [OF _ one])
    fix l assume l: "l \<in> set (loops (DB db))" "LoopID l \<noteq> LoopID u"
    have "same_place u (cur\<lparr>LoopStat := ''running''\<rparr>)" "LoopStat u = LoopStat (cur\<lparr>LoopStat := ''running''\<rparr>)"
      by (simp_all add: u reactivated_def same_place_def)
    moreover have "\<not> same_target (cur\<lparr>LoopStat := ''running''\<rparr>) l"
      by (rule active_conflict_None [OF free _ _ cur(2)]) (use l in \<open>simp_all add: u reactivated_def\<close>)
    ultimately show "\<not> same_target u l" using same_target_like by blast
  qed
  then show ?thesis using loops_unique_only only_queue_loops [OF q] by metis
qed

lemma exec_service_unique:
  assumes ok: "checked_op db p" and one: "loops_unique db"
  shows "loops_unique (exec_service js pj ck p db)"
proof (cases p)
  case (SvcCreate now k i)
  with ok one show ?thesis
    using create_unique [OF one, of i js ck now k] by (cases "Create js ck now k i db") auto
next
  case (SvcTransition now k i)
  with ok one show ?thesis
    using transition_unique [OF one, of now k i js ck] by (cases "TransitionStatus js ck now k i db") auto
next
  case (SvcPause now k r)
  show ?thesis
  proof (cases "Pause js ck now k r db")
    case (Inr x)
    obtain u n db' where x: "x = (u, n, db')" by (cases x)
    obtain l where l: "find_loop (DB db) k = Some l" "park_effect js (parked ck now LPaused l) r db n db'"
      using pause_effect [OF Inr [unfolded x]] by blast
    have "loops_unique db'"
      by (rule park_unique [OF one l]) (use ok SvcPause l(1) in \<open>auto simp: reenters_def name_lemmas\<close>)
    then show ?thesis by (simp add: SvcPause Inr x)
  qed (simp add: SvcPause one)
next
  case (SvcHold now k r)
  show ?thesis
  proof (cases "Hold js ck now k r db")
    case (Inr x)
    obtain u n db' where x: "x = (u, n, db')" by (cases x)
    obtain l where l: "find_loop (DB db) k = Some l" "park_effect js (parked ck now LHumanTakeover l) r db n db'"
      using hold_effect [OF Inr [unfolded x]] by blast
    have "loops_unique db'"
      by (rule park_unique [OF one l]) (use ok SvcHold l(1) in \<open>auto simp: reenters_def name_lemmas\<close>)
    then show ?thesis by (simp add: SvcHold Inr x)
  qed (simp add: SvcHold one)
next
  case (SvcTerminate now k r)
  show ?thesis
  proof (cases "Terminate js ck now k r db")
    case (Inr x)
    obtain u n db' where x: "x = (u, n, db')" by (cases x)
    obtain l where l: "find_loop (DB db) k = Some l" "park_effect js (parked ck now LTerminated l) r db n db'"
      using terminate_effect [OF Inr [unfolded x]] by blast
    have "loops_unique db'"
      by (rule park_unique [OF one l]) (simp add: name_lemmas status_kinds)
    then show ?thesis by (simp add: SvcTerminate Inr x)
  qed (simp add: SvcTerminate one)
next
  case (SvcRetire k q t r)
  with one show ?thesis
    using retire_unique [OF one, of js k q t r] by (cases "RetireQueuedLoop js k q t r db") auto
next
  case (SvcReactivate i)
  with one show ?thesis
    using reactivate_unique [OF one, of js pj i] by (cases "ReactivateQueue js pj i db") auto
next
  case (SvcQueue q)
  with ok one show ?thesis
    using only_queue_loops [OF exec_op_only_queue, of q "DB db"] by (simp add: loops_unique_def)
qed

interpretation service_unique: step_invariant "service_step js pj ck" loops_unique loops_unique for js pj ck
  by unfold_locales (auto elim!: service_stepE intro: exec_service_unique)

text \<open>
  C13. At most one active loop per target, for the store as it is: along any history of creations,
  transitions, pauses, holds, terminations, retirements, reactivations and queue statements in
  which no operation but \<open>Create\<close> and \<open>ReactivateQueue\<close> brings a loop back among the active ones,
  two active loops of one project, type and target key are the same loop, unless they are workers
  on the project itself, of which the code allows several. Nothing is assumed of the records' ids, and creations may fail half way.
\<close>

theorem one_active_loop_per_target:
  assumes "loops_unique db" and "(service_step js pj ck)\<^sup>*\<^sup>* db db'"
    and "a \<in> set (loops (DB db'))" and "b \<in> set (loops (DB db'))"
    and "conflicting_active a" and "conflicting_active b"
    and "LoopProjectID a = LoopProjectID b" and "LoopTyp a = LoopTyp b"
    and "targetFromRecord a = Inr s" and "targetFromRecord b = Inr t" and "LoopTargetKey s = LoopTargetKey t"
    and "LoopTyp a \<noteq> ''worker'' \<or> TargetType s \<noteq> TargetProject"
  shows "LoopID a = LoopID b"
proof -
  have "same_target a b" unfolding same_target_iff using assms(5-12) by blast
  with service_unique.reachable_kept [OF assms(2,1)] assms(3,4) show ?thesis
    unfolding loops_unique_def by blast
qed

section \<open>Reactivation\<close>

lemma requeue_zero: "RequeueLatestCancelledByLoop k t s = Inr (0, s') \<Longrightarrow> s' = s"
proof -
  have zero: "d = s" if "counted_update P f s = Inr (0, d)" for P f d
  proof -
    from that have "d = s\<lparr>queue := update_where P f (queue s)\<rparr>" "affected P (queue s) = 0"
      by (auto simp: counted_update_def commit_queue_Inr split: sum.splits)
    then show ?thesis by (simp add: update_where_none)
  qed
  assume "RequeueLatestCancelledByLoop k t s = Inr (0, s')"
  then show ?thesis
    by (auto simp: RequeueLatestCancelledByLoop_def Let_def split: if_splits dest: zero)
qed

lemma requeue_some:
  assumes d: "distinct (map QID (queue s))" and r: "RequeueLatestCancelledByLoop k t s = Inr (n, s')" and "n > 0"
  shows "\<exists>q \<in> set (queue s'). QLoopID q = Some k \<and> active_status (QStatus q)"
proof -
  define qid where "qid = (if findLatestCancelledQueueIDByLoop s k True = []
    then findLatestCancelledQueueIDByLoop s k False else findLatestCancelledQueueIDByLoop s k True)"
  let ?P = "\<lambda>q. QID q = qid \<and> QStatus q = cancelled \<and> no_other_active s k qid"
  let ?f = "\<lambda>q. clear_errors (requeue_row t q)"
  have ne: "qid \<noteq> []" and c: "counted_update ?P ?f s = Inr (n, s')"
    using r \<open>n > 0\<close> by (auto simp: RequeueLatestCancelledByLoop_def Let_def qid_def split: if_splits)
  from c have some: "n = affected ?P (queue s)" and s': "s' = s\<lparr>queue := update_where ?P ?f (queue s)\<rparr>"
    by (auto simp: counted_update_def commit_queue_Inr split: sum.splits)
  have "\<not> (\<forall>q \<in> set (queue s). \<not> ?P q)"
    using \<open>n > 0\<close> some affected_zero [of ?P "queue s"] by (metis (no_types, lifting) less_irrefl)
  then obtain q where q: "q \<in> set (queue s)" "?P q" by blast
  obtain x where "x \<in> set (queue s)" "QID x = qid" "QLoopID x = Some k"
    using ne cancelled_id_loop [of s k _ qid] unfolding qid_def by metis
  with q d have "QLoopID q = Some k" using distinct_ids_unique by metis
  moreover have "?f q \<in> set (queue s')" using q by (auto simp: s' set_update_where)
  ultimately show ?thesis
    by (intro bexI [of _ "?f q"]) (simp_all add: clear_errors_def requeue_row_def active_status_def)
qed

lemma upsert_active_present:
  assumes "UpsertActiveByDedupeOrGetExisting r s = Inr (q, fresh, s')" and "QLoopID r = Some k" and "QStatus r = queued"
  shows "\<exists>x \<in> set (queue s'). active_status (QStatus x) \<and> (QLoopID x = Some k \<or> QDedupeKey x = QDedupeKey r)"
proof (cases "Upsert r s")
  case (Inr t)
  then have "s' = t" using assms(1) by (simp add: UpsertActiveByDedupeOrGetExisting_def)
  moreover have "\<exists>x \<in> set (queue t). QLoopID x = QLoopID r \<and> QStatus x = QStatus r"
  proof (cases "list_ex (\<lambda>q. QID q = QID r) (queue s)")
    case True
    then obtain o' where o': "o' \<in> set (queue s)" "QID o' = QID r" by (auto simp: list_ex_iff)
    with Inr True have "set_excluded r o' \<in> set (queue t)"
      by (auto simp: Upsert_def commit_queue_Inr set_update_where)
    then show ?thesis by (rule bexI [rotated]) (simp add: set_excluded_def)
  next
    case False
    with Inr show ?thesis by (auto simp: Upsert_def commit_queue_Inr)
  qed
  ultimately show ?thesis using assms(2,3) by (auto simp: active_status_def)
next
  case (Inl e)
  then obtain x where "FindActiveByDedupe s (QDedupeKey r) = Some x" "s' = s"
    using assms(1) by (auto simp: UpsertActiveByDedupeOrGetExisting_def split: if_splits option.splits)
  then show ?thesis using find_active_mem by blast
qed

lemma build_fields:
  "BuildQueuedLoopQueueRecord pj k record t now m n = Inr (Some q) \<Longrightarrow> QLoopID q = Some (LoopID record) \<and> QStatus q = queued"
  by (auto simp: BuildQueuedLoopQueueRecord_def Let_def bind_result_Inr_iff planner_item_def review_item_def
      fix_item_def pull_request_item_def worker_item_def on_issue_def on_pull_request_def queued_record_def
      split: LoopType.splits LoopTargetType.splits option.splits if_splits)

text \<open>The dedupe key of the item a reactivation falls back on.\<close>

definition fallback_key :: "payload_json \<Rightarrow> reactivation \<Rightarrow> loop_db \<Rightarrow> string option" where
  "fallback_key pj i db = (case GetLatestByLoopID (DB db) (ReLoopID i) of
     Some latest \<Rightarrow> Some (QDedupeKey latest)
   | None \<Rightarrow> (case find_loop (DB db) (ReLoopID i) of None \<Rightarrow> None
     | Some cur \<Rightarrow> (case targetFromRecord cur of Inl _ \<Rightarrow> None
       | Inr t \<Rightarrow> (case BuildQueuedLoopQueueRecord pj (ReQueueID i) cur t (ReNowISO i) (LoopMetadataJSON cur)
             (ReMaxAttempts i) of Inr (Some q) \<Rightarrow> Some (QDedupeKey q) | _ \<Rightarrow> None))))"

lemma ensured_item:
  assumes e: "ensure_item k newID t first s = Inr s'" and f: "QLoopID first = Some k" "QStatus first = queued"
  shows "\<exists>q \<in> set (queue s'). active_status (QStatus q) \<and> (QLoopID q = Some k
    \<or> QDedupeKey q = (case GetLatestByLoopID s k of Some l \<Rightarrow> QDedupeKey l | None \<Rightarrow> QDedupeKey first))"
proof (cases "FindActiveByLoopID s k")
  case (Some q)
  with e have "s' = s" by (simp add: ensure_item_def)
  moreover have "q \<in> set (queue s) \<and> QLoopID q = Some k \<and> active_status (QStatus q)"
    using Some by (auto simp: FindActiveByLoopID_def dest!: first_max_Some)
  ultimately show ?thesis by blast
next
  case None
  show ?thesis
  proof (cases "GetLatestByLoopID s k")
    case no_latest: None
    with e None obtain q fresh where "UpsertActiveByDedupeOrGetExisting first s = Inr (q, fresh, s')"
      by (auto simp: ensure_item_def bind_result_Inr_iff)
    from upsert_active_present [OF this f] no_latest show ?thesis by auto
  next
    case (Some l)
    then have l: "l \<in> set (queue s)" "QLoopID l = Some k"
      by (auto simp: GetLatestByLoopID_def dest!: first_max_Some)
    consider "active_status (QStatus l)" "s' = s"
      | x where "FindActiveByDedupe s (QDedupeKey l) = Some x" "s' = s"
      | q fresh where "UpsertActiveByDedupeOrGetExisting (replacement_item newID t l) s = Inr (q, fresh, s')"
      using e None Some by (auto simp: ensure_item_def bind_result_Inr_iff split: if_splits)
    then show ?thesis
    proof cases
      case 1 with l show ?thesis by blast
    next
      case 2 with find_active_mem [OF 2(1)] Some show ?thesis by auto
    next
      case 3
      from upsert_active_present [OF 3, of k] l Some show ?thesis
        by (simp add: replacement_item_def)
    qed
  qed
qed

text \<open>
  C14. A reactivation ends with work to claim: on a valid store it refuses a loop under a human, and
  when it succeeds the loop is stored as running and the queue has an active item of the loop, or
  an active item under the dedupe key the loop's own item would have had.
\<close>

theorem reactivation_leaves_work:
  assumes v: "tables_valid db" and r: "ReactivateQueue js pj i db = Inr (u, db')"
  shows "\<not> held_by_human (ReLoopID i) db \<and> LoopStat u = ''running''
    \<and> (\<exists>c. find_loop (DB db') (ReLoopID i) = Some (u\<lparr>LoopCreatedAt := c\<rparr>))
    \<and> (\<exists>q \<in> set (queue (DB db')). active_status (QStatus q)
        \<and> (QLoopID q = Some (ReLoopID i) \<or> Some (QDedupeKey q) = fallback_key pj i db))"
proof -
  obtain cur t first db1 n s where c: "find_loop (DB db) (ReLoopID i) = Some cur" "targetFromRecord cur = Inr t"
    and b: "BuildQueuedLoopQueueRecord pj (ReQueueID i) cur t (ReNowISO i) (LoopMetadataJSON cur) (ReMaxAttempts i) = Inr (Some first)"
    and w: "upsertWithIssueClaimAdmission js (reactivated (ReNowISO i) cur) False False db = Inr db1"
    and q: "RequeueLatestCancelledByLoop (LoopID cur) (ReNowISO i) (DB db1) = Inr (n, s)"
    and u: "u = reactivated (ReNowISO i) cur"
    and d: "if n > 0 then db' = db1\<lparr>DB := s\<rparr>
         else (\<exists>s'. ensure_item (LoopID cur) (ReEventID i) (ReNowISO i) first s = Inr s' \<and> db' = db1\<lparr>DB := s'\<rparr>)"
    using r by (rule reactivate_steps)
  have k: "LoopID cur = ReLoopID i" "LoopID u = ReLoopID i" using find_loop_Some [OF c(1)] by (simp_all add: u reactivated_def)
  from w have up: "upsert_loop u False db = Inr db1" unfolding u by (rule admitted_upsert)
  have rows: "DB db1 = (DB db)\<lparr>loops := rows_put u (loops (DB db))\<rparr>" by (rule upsert_loop_Inr(1) [OF up])
  have v1: "tables_valid db1" by (rule write_tables_valid [OF v w])
  have "LoopStat cur \<noteq> ''human_takeover''"
    using upsert_loop_Inr(4) [OF up, of cur] c(1) k by (simp add: u reactivated_def same_hold_def)
  then have free: "\<not> held_by_human (ReLoopID i) db" by (simp add: held_by_human_def c(1))
  have dq: "distinct (map QID (queue (DB db1)))" using v1 by (simp add: tables_valid_def queue_valid_def)
  have item: "only_queue (DB db1) (DB db') \<and> (\<exists>q \<in> set (queue (DB db')). active_status (QStatus q)
      \<and> (QLoopID q = Some (ReLoopID i) \<or> Some (QDedupeKey q) = fallback_key pj i db))"
  proof (cases "n > 0")
    case True
    with d have db': "db' = db1\<lparr>DB := s\<rparr>" by simp
    from requeue_some [OF dq q True] requeue_only_queue [OF q] show ?thesis by (auto simp: db' k)
  next
    case False
    with d obtain s' where e: "ensure_item (LoopID cur) (ReEventID i) (ReNowISO i) first s = Inr s'"
      and db': "db' = db1\<lparr>DB := s'\<rparr>" by auto
    have s: "s = DB db1" using q False requeue_zero by simp
    have f: "QLoopID first = Some (LoopID cur)" "QStatus first = queued" using build_fields [OF b] by simp_all
    have "GetLatestByLoopID s (LoopID cur) = GetLatestByLoopID (DB db) (ReLoopID i)"
      by (simp add: s rows GetLatestByLoopID_def k)
    then have "fallback_key pj i db = Some (case GetLatestByLoopID s (LoopID cur) of Some l \<Rightarrow> QDedupeKey l
        | None \<Rightarrow> QDedupeKey first)"
      using b c by (simp add: fallback_key_def split: option.split)
    with ensured_item [OF e f] ensure_item_only_queue [OF e] show ?thesis by (auto simp: db' k s)
  qed
  obtain x where x: "x \<in> set (loops (DB db1))" "LoopID x = LoopID u" using put_member rows by fastforce
  have "find_loop (DB db1) (LoopID u) = Some x"
    using find_loop_member [OF _ x(1)] x(2) v1 by (simp add: tables_valid_def loops_valid_def)
  moreover have "\<exists>c. x = u\<lparr>LoopCreatedAt := c\<rparr>" using put_row_like [OF _ x(2)] x(1) rows by simp
  moreover have "find_loop (DB db') = find_loop (DB db1)" using item only_queue_loops by blast
  ultimately have "\<exists>c. find_loop (DB db') (ReLoopID i) = Some (u\<lparr>LoopCreatedAt := c\<rparr>)" using k by auto
  moreover have "LoopStat u = ''running''" by (simp add: u reactivated_def)
  ultimately show ?thesis using free item by blast
qed

section \<open>Concrete lifecycles\<close>

definition sample_clock :: clock where
  "sample_clock = \<lparr>format_seconds = itoa, parse_rfc3339 = (\<lambda>_. None)\<rparr>"

definition sample_payload :: payload_json where
  "sample_payload = \<lparr>decode_manual = (\<lambda>_. False), worker_object = (\<lambda>_. None)\<rparr>"

definition with_loops :: "LoopRecord list \<Rightarrow> loop_db" where
  "with_loops ls = sample_db\<lparr>DB := (DB sample_db)\<lparr>loops := loops (DB sample_db) @ ls\<rparr>\<rparr>"

definition restart :: "string \<Rightarrow> reactivation" where
  "restart k = \<lparr>ReLoopID = k, ReNowISO = ''2026-03-01'', ReMaxAttempts = -1, ReQueueID = ''q1'', ReEventID = ''q2''\<rparr>"

lemma hold_takes_effect_witness:
  "case Hold sample_json sample_clock 5 ''fix9'' None sample_db of
     Inl _ \<Rightarrow> False | Inr (_, n, db') \<Rightarrow> held_by_human ''fix9'' db' \<and> n = 1"
proof -
  have ok: "is_ok (Hold sample_json sample_clock 5 ''fix9'' None sample_db)"
    and n: "CountActiveByLoopID (DB sample_db) ''fix9'' = 1"
    by code_simp+
  then obtain u n db' where "Hold sample_json sample_clock 5 ''fix9'' None sample_db = Inr (u, n, db')"
    by (auto simp: is_ok_iff)
  with hold_takes_effect [OF sample_db_valid(1) this, of "[]"] n show ?thesis by simp
qed

lemma reactivation_leaves_work_witness:
  "case ReactivateQueue sample_json sample_payload (restart ''old'') (with_loops []) of
     Inl _ \<Rightarrow> False | Inr (_, db') \<Rightarrow> list_ex (\<lambda>q. active_status (QStatus q)) (queue (DB db'))"
proof -
  have v: "tables_valid (with_loops [])"
    and "is_ok (ReactivateQueue sample_json sample_payload (restart ''old'') (with_loops []))"
    by code_simp+
  then obtain u db' where r: "ReactivateQueue sample_json sample_payload (restart ''old'') (with_loops []) = Inr (u, db')"
    by (auto simp: is_ok_iff)
  from reactivation_leaves_work [OF v r] show ?thesis by (auto simp: r list_ex_iff)
qed

lemma one_active_loop_per_target_witness:
  "LoopStat (the (find_loop (DB (exec_service sample_json sample_payload sample_clock (SvcReactivate (restart ''w2''))
     (with_loops [issue_loop ''w2'' 6 ''issue:o/r:7'' ''failed'']))) ''w2'')) \<noteq> ''running''"
proof
  let ?start = "with_loops [issue_loop ''w2'' 6 ''issue:o/r:7'' ''failed'']"
  let ?db = "exec_service sample_json sample_payload sample_clock (SvcReactivate (restart ''w2'')) ?start"
  let ?o = "issue_loop ''w1'' 1 ''issue:o/r:7'' ''running''"
  assume run: "LoopStat (the (find_loop (DB ?db) ''w2'')) = ''running''"
  have unique: "loops_unique ?start" by code_simp
  have step: "(service_step sample_json sample_payload sample_clock)\<^sup>*\<^sup>* ?start ?db"
    by (rule r_into_rtranclp, rule service_step.checked) simp
  have found: "case find_loop (DB ?db) ''w2'' of None \<Rightarrow> False
      | Some w \<Rightarrow> LoopProjectID w = ''p'' \<and> LoopTyp w = ''worker'' \<and> targetFromRecord w = targetFromRecord ?o"
    and o: "?o \<in> set (loops (DB ?db))" and oa: "conflicting_active ?o"
    and ot: "targetFromRecord ?o = Inr \<lparr>TargetType = TargetIssue, TProjectID = [], TRepo = ''o/r'', TPRNumber = 0, TIssueNumber = 7\<rparr>"
    by code_simp+
  from found obtain w where w: "find_loop (DB ?db) ''w2'' = Some w" "LoopProjectID w = ''p''"
    "LoopTyp w = ''worker''" "targetFromRecord w = targetFromRecord ?o"
    by (cases "find_loop (DB ?db) ''w2''") simp_all
  have "w \<in> set (loops (DB ?db))" "LoopID w = ''w2''" using find_loop_Some [OF w(1)] by simp_all
  moreover have "conflicting_active w" using run w(1) by (simp add: conflicting_active_def name_lemmas status_kinds)
  ultimately have "LoopID w = LoopID ?o"
    using one_active_loop_per_target [OF unique step _ o _ oa _ _ w(4) [unfolded ot] ot] w
    by (simp add: issue_loop_def)
  with \<open>LoopID w = ''w2''\<close> show False by (simp add: issue_loop_def)
qed

text \<open>
  A waiting loop holds no claim, and \<open>Resume\<close> gives it one without looking: two reviewers of one
  pull request end up active.
\<close>

lemma resume_breaks_uniqueness:
  "loops_unique (with_loops [(sample_loop ''again'' ''reviewer'' 7 ''waiting'')\<lparr>LoopSeq := 6\<rparr>])
   \<and> (case Resume sample_json sample_clock 5 ''again''
         (with_loops [(sample_loop ''again'' ''reviewer'' 7 ''waiting'')\<lparr>LoopSeq := 6\<rparr>]) of
       Inl _ \<Rightarrow> False | Inr (_, db') \<Rightarrow> \<not> loops_unique db')"
  by code_simp

text \<open>
  A reactivation can succeed and leave its loop without an item, when another loop's item holds
  the dedupe key: here a waiting worker of the same issue.
\<close>

definition shared_key_db :: loop_db where
  "shared_key_db = (let db = with_loops [issue_loop ''w8'' 6 ''issue:o/r:8'' ''failed'',
       issue_loop ''w9'' 7 ''issue:o/r:8'' ''waiting''] in
     db\<lparr>DB := (DB db)\<lparr>queue := [(sample_item ''x'' ''worker'' ''w8'' 8 completed)\<lparr>QDedupeKey := ''worker:p:o/r:8''\<rparr>,
       (sample_item ''y'' ''worker'' ''w9'' 8 queued)\<lparr>QDedupeKey := ''worker:p:o/r:8''\<rparr>]\<rparr>\<rparr>)"

lemma reactivation_without_item:
  "tables_valid shared_key_db
   \<and> (case ReactivateQueue sample_json sample_payload (restart ''w8'') shared_key_db of
       Inl _ \<Rightarrow> False
     | Inr (u, db') \<Rightarrow> LoopStat u = ''running'' \<and> CountActiveByLoopID (DB db') ''w8'' = 0)"
  by code_simp

end
