(* ===== verification/Thread_Resolution.thy ===== *)
theory Thread_Resolution
  imports Domain Failure_Policy
begin

text \<open>
  The reviewer's resolution of review threads: the decisions of
  \<open>internal/reviewer/resolution/resolution.go\<close> and the step of \<open>internal/reviewer/runner.go\<close> that
  applies them. The forge is the parameter \<open>f\<close>: what a call returns may depend on all calls made
  before it, so threads and pull request may change between any two of them. The classifier is an
  argument. A step returns its outcome with the list of its calls, in order; of an event the action and
  the reason, of records the fields the step reads.
\<close>

section \<open>Threads and decisions\<close>

record Comment =
  CBody :: string
  CAuthor :: string
  COriginalCommitOID :: string
  CCommitOID :: string

record Thread =
  ThID :: string
  ThIsResolved :: bool
  ThComments :: "Comment list"

record Decision =
  DThreadID :: string
  DDecision :: string
  DEvidence :: string
  DConfidence :: string

datatype resolution_mode = ReportOnly | CommentOnly | SuggestResolution | ResolveObjective | OtherMode string

record ReviewerThreadResolutionConfig =
  RtEnabled :: bool
  RtMode :: resolution_mode
  RtLooperAuthoredOnly :: bool
  RtObjectiveOnly :: bool
  RtRequireAuditComment :: bool
  RtRequireNewHeadSinceThread :: bool
  RtRequireCurrentReviewRequest :: bool
  RtMaxThreadsPerRun :: int

definition normalizeLogin :: "string \<Rightarrow> string" where
  "normalizeLogin login = to_lower (trim_space login)"

definition IsObjective :: "Decision \<Rightarrow> bool" where
  "IsObjective d \<longleftrightarrow> equal_fold (trim_space (DDecision d)) ''objectively_fixed''
     \<and> equal_fold (trim_space (DConfidence d)) ''high''"

definition AuditMarker :: "string \<Rightarrow> string \<Rightarrow> string \<Rightarrow> string" where
  "AuditMarker threadID headSHA decisionValue = ''<!-- looper:thread-resolution thread='' @ threadID
     @ '' head='' @ headSHA @ '' decision='' @ decisionValue @ '' -->''"

definition HasAuditForHead :: "Thread \<Rightarrow> string \<Rightarrow> bool" where
  "HasAuditForHead thread headSHA = list_ex (\<lambda>c. contains (CBody c) ''looper:thread-resolution''
     \<and> (headSHA = [] \<or> contains (CBody c) (''head='' @ headSHA))) (ThComments thread)"

text \<open>The test \<open>HasObjectiveAuditForHead\<close> applies to a comment.\<close>

definition objective_audit :: "string \<Rightarrow> string \<Rightarrow> string \<Rightarrow> bool" where
  "objective_audit threadID headSHA body \<longleftrightarrow> contains body ''looper:thread-resolution''
     \<and> contains body (''thread='' @ threadID) \<and> contains body (''head='' @ headSHA)
     \<and> contains body ''decision=objectively_fixed''"

definition HasObjectiveAuditForHead :: "Thread \<Rightarrow> string \<Rightarrow> string \<Rightarrow> bool" where
  "HasObjectiveAuditForHead thread threadID headSHA =
     list_ex (\<lambda>c. objective_audit threadID headSHA (CBody c)) (ThComments thread)"

definition HasSufficientAuditForDecision ::
    "ReviewerThreadResolutionConfig \<Rightarrow> Thread \<Rightarrow> string \<Rightarrow> Decision \<Rightarrow> bool" where
  "HasSufficientAuditForDecision policy thread headSHA d =
     (if RtMode policy = ResolveObjective \<and> IsObjective d
      then HasObjectiveAuditForHead thread (ThID thread) headSHA else HasAuditForHead thread headSHA)"

definition LooperAuthored :: "Thread \<Rightarrow> bool" where
  "LooperAuthored thread = (case ThComments thread of [] \<Rightarrow> False
     | c # _ \<Rightarrow> contains (CBody c) ''looper:stamp'' \<or> contains (CBody c) ''looper:review'')"

text \<open>The walk from the last comment to the first.\<close>

fun latest_feedback :: "Comment list \<Rightarrow> string" where
  "latest_feedback [] = []"
| "latest_feedback (c # cs) =
     (if contains (CBody c) ''looper:thread-resolution'' then latest_feedback cs
      else if CCommitOID c \<noteq> [] then CCommitOID c
      else if COriginalCommitOID c \<noteq> [] then COriginalCommitOID c
      else latest_feedback cs)"

definition LatestFeedbackCommitOID :: "Thread \<Rightarrow> string" where
  "LatestFeedbackCommitOID thread = latest_feedback (rev (ThComments thread))"

definition Candidate :: "Thread \<Rightarrow> string \<Rightarrow> string \<Rightarrow> ReviewerThreadResolutionConfig \<Rightarrow> bool" where
  "Candidate thread headSHA currentLogin policy =
     (if ThIsResolved thread \<or> ThID thread = [] \<or> ThComments thread = [] then False
      else if RtLooperAuthoredOnly policy \<and> normalizeLogin (CAuthor (hd (ThComments thread))) \<noteq> currentLogin
      then False
      else if RtLooperAuthoredOnly policy \<and> \<not> LooperAuthored thread then False
      else if RtRequireNewHeadSinceThread policy \<and> headSHA \<noteq> []
        \<and> (LatestFeedbackCommitOID thread = [] \<or> LatestFeedbackCommitOID thread = headSHA) then False
      else if RtMode policy \<noteq> ResolveObjective \<and> HasAuditForHead thread headSHA then False
      else True)"

definition ShouldComment :: "ReviewerThreadResolutionConfig \<Rightarrow> Decision \<Rightarrow> bool" where
  "ShouldComment policy d = (case RtMode policy of
       CommentOnly \<Rightarrow> True
     | SuggestResolution \<Rightarrow> True
     | ResolveObjective \<Rightarrow> RtRequireAuditComment policy \<and> IsObjective d
     | _ \<Rightarrow> False)"

definition ShouldResolve :: "ReviewerThreadResolutionConfig \<Rightarrow> Decision \<Rightarrow> bool" where
  "ShouldResolve policy d \<longleftrightarrow> RtMode policy = ResolveObjective \<and> RtObjectiveOnly policy
     \<and> RtRequireAuditComment policy \<and> IsObjective d"

definition quoted_head :: "string \<Rightarrow> string" where
  "quoted_head headSHA = ''Looper checked this thread against head `'' @ headSHA @ ''`. ''"

definition Reply :: "string \<Rightarrow> string \<Rightarrow> Decision \<Rightarrow> ReviewerThreadResolutionConfig \<Rightarrow> string" where
  "Reply threadID headSHA d policy = (let
       evidence = (if trim_space (DEvidence d) = [] then ''the current head'' else trim_space (DEvidence d));
       value = to_lower (trim_space (DDecision d));
       marker = AuditMarker threadID headSHA (if value = [] then ''needs_human'' else value);
       fixed = quoted_head headSHA @ ''The requested change appears objectively addressed by '' @ evidence
     in if IsObjective d then
          (case RtMode policy of
             SuggestResolution \<Rightarrow> fixed @ ''. Please resolve this thread if you agree.'' @ CHR 0x0A # marker
           | ResolveObjective \<Rightarrow> fixed @ '', so I'' @ [CHR 0xE2, CHR 0x80, CHR 0x99]
               @ ''m resolving this thread. Reopen if this still needs discussion.'' @ CHR 0x0A # marker
           | _ \<Rightarrow> fixed @ ''.'' @ CHR 0x0A # marker)
        else quoted_head headSHA @ ''I could not verify that this thread is objectively resolved: ''
               @ evidence @ ''.'' @ CHR 0x0A # marker)"

section \<open>The step\<close>

record PullRequestDetail =
  PrState :: string
  PrHeadSHA :: string
  PrLabels :: "string list"
  PrReviewRequests :: "string list option"

datatype call =
    Viewed "PullRequestDetail option"
  | Listed "Thread list option"
  | Replied string string bool
  | ResolvedThread string bool
  | Logged string string string

record forge =
  login_of :: "string option"
  view_pr :: "call list \<Rightarrow> PullRequestDetail option"
  list_threads :: "int \<Rightarrow> call list \<Rightarrow> Thread list option"
  reply_ok :: "string \<Rightarrow> string \<Rightarrow> call list \<Rightarrow> bool"
  resolve_ok :: "string \<Rightarrow> call list \<Rightarrow> bool"

datatype step_error =
    RetryableTransient | ChangedDuringReconciliation | HoldSkip | ClassifierFailed

record tally =
  TlHeadSHA :: string
  TlProcessed :: nat
  TlCommented :: nat
  TlResolved :: nat
  TlReported :: nat

record checkpoint =
  CkSkipReason :: string
  CkThreadResolution :: "tally option"
  CkSnapshotHead :: "string option"
  CkDetail :: "PullRequestDetail option"
  CkResumePolicy :: string

record step_input =
  StPolicy :: ReviewerThreadResolutionConfig
  StManual :: bool
  StNamespace :: Namespace
  StPendingNativeResume :: bool

text \<open>The state of a pass over the candidates.\<close>

record pass =
  PsCheckpoint :: checkpoint
  PsTally :: tally
  PsCalls :: "call list"

definition called :: "call \<Rightarrow> pass \<Rightarrow> pass" where
  "called c p = p\<lparr>PsCalls := PsCalls p @ [c]\<rparr>"

definition isCurrentUserRequested :: "string list \<Rightarrow> string \<Rightarrow> bool" where
  "isCurrentUserRequested requested currentLogin = (let me = normalizeLogin currentLogin in
     if me = [] then False else list_ex (\<lambda>login. normalizeLogin login = me) requested)"

definition reviewRequestsKnownAbsent :: "string list option \<Rightarrow> string \<Rightarrow> bool" where
  "reviewRequestsKnownAbsent requested currentLogin = (case requested of None \<Rightarrow> False
     | Some r \<Rightarrow> \<not> isCurrentUserRequested r currentLogin)"

definition normalizePRState :: "string \<Rightarrow> string" where
  "normalizePRState v = (if equal_fold v ''open'' then ''open'' else ''other'')"

definition thread_limit :: "ReviewerThreadResolutionConfig \<Rightarrow> int" where
  "thread_limit policy = (if RtMaxThreadsPerRun policy \<le> 0 then 10 else RtMaxThreadsPerRun policy)"

text \<open>The limit of a run is a small configured number, far from the range of a machine integer.\<close>

definition fetch_limit :: "ReviewerThreadResolutionConfig \<Rightarrow> int" where
  "fetch_limit policy = (if thread_limit policy * 5 < 100 then 100 else thread_limit policy * 5)"

definition refreshThreadResolutionCandidate ::
    "forge \<Rightarrow> step_input \<Rightarrow> string \<Rightarrow> string \<Rightarrow> string \<Rightarrow> pass
      \<Rightarrow> (step_error, Thread option \<times> PullRequestDetail) result \<times> pass" where
  "refreshThreadResolutionCandidate f i headSHA currentLogin threadID p = (let
       viewed = view_pr f (PsCalls p); p = called (Viewed viewed) p
     in case viewed of
          None \<Rightarrow> (Inl RetryableTransient, p)
        | Some detail \<Rightarrow>
          (if normalizePRState (PrState detail) \<noteq> ''open'' \<or> PrHeadSHA detail \<noteq> headSHA
           then (Inl ChangedDuringReconciliation, p)
           else if RtRequireCurrentReviewRequest (StPolicy i)
               \<and> reviewRequestsKnownAbsent (PrReviewRequests detail) currentLogin
           then (Inr (None, detail), p)
           else (let latest = list_threads f (fetch_limit (StPolicy i)) (PsCalls p);
                     p = called (Listed latest) p
             in case latest of
                  None \<Rightarrow> (Inl RetryableTransient, p)
                | Some threads \<Rightarrow> (case find (\<lambda>t. ThID t = threadID) threads of
                      None \<Rightarrow> (Inr (None, detail), p)
                    | Some t \<Rightarrow> (if \<not> Candidate t headSHA currentLogin (StPolicy i)
                        then (Inr (None, detail), p) else (Inr (Some t, detail), p))))))"

definition markThreadResolutionRediscoveryOnRefreshError :: "step_error \<Rightarrow> pass \<Rightarrow> pass" where
  "markThreadResolutionRediscoveryOnRefreshError e p = (if e = ChangedDuringReconciliation
     then p\<lparr>PsCheckpoint := (PsCheckpoint p)\<lparr>CkResumePolicy := ResumePolicyRestartFromDiscover\<rparr>\<rparr> else p)"

definition held :: "step_input \<Rightarrow> PullRequestDetail \<Rightarrow> bool" where
  "held i detail \<longleftrightarrow> \<not> StManual i \<and> IsAutoLaneHeldForNamespace Reviewer (PrLabels detail) (StNamespace i)"

definition with_requests :: "PullRequestDetail \<Rightarrow> pass \<Rightarrow> pass" where
  "with_requests detail p = p\<lparr>PsCheckpoint := (PsCheckpoint p)\<lparr>CkDetail :=
     map_option (\<lambda>d. d\<lparr>PrReviewRequests := PrReviewRequests detail\<rparr>) (CkDetail (PsCheckpoint p))\<rparr>\<rparr>"

definition log_thread :: "string \<Rightarrow> string \<Rightarrow> string \<Rightarrow> pass \<Rightarrow> pass" where
  "log_thread threadID action skippedReason = called (Logged threadID action skippedReason)"

text \<open>
  The two phases of a thread: a reply, and a resolution. \<open>Inr None\<close> goes on to the next thread,
  \<open>Inr (Some b)\<close> tells whether the call was made.
\<close>

definition comment_phase :: "forge \<Rightarrow> step_input \<Rightarrow> string \<Rightarrow> string \<Rightarrow> Thread \<Rightarrow> Decision \<Rightarrow> pass
    \<Rightarrow> (step_error, bool option) result \<times> pass" where
  "comment_phase f i headSHA currentLogin t d p =
     (if \<not> HasSufficientAuditForDecision (StPolicy i) t headSHA d \<and> ShouldComment (StPolicy i) d then
        (case refreshThreadResolutionCandidate f i headSHA currentLogin (ThID t) p of
           (Inl e, p) \<Rightarrow> (Inl e, markThreadResolutionRediscoveryOnRefreshError e p)
         | (Inr (None, _), p) \<Rightarrow> (Inr None, log_thread (ThID t) ''skipped'' ''candidate_no_longer_eligible'' p)
         | (Inr (Some _, detail), p) \<Rightarrow>
            (if held i detail then (Inl HoldSkip, p)
             else (let p = with_requests detail p; body = Reply (ThID t) headSHA d (StPolicy i);
                       ok = reply_ok f (ThID t) body (PsCalls p); p = called (Replied (ThID t) body ok) p
               in if \<not> ok then (Inl RetryableTransient, p)
                  else (Inr (Some True), p\<lparr>PsTally := (PsTally p)\<lparr>TlCommented := TlCommented (PsTally p) + 1\<rparr>\<rparr>))))
      else (Inr (Some False), p))"

definition resolve_phase :: "forge \<Rightarrow> step_input \<Rightarrow> string \<Rightarrow> string \<Rightarrow> Thread \<Rightarrow> Decision \<Rightarrow> bool \<Rightarrow> pass
    \<Rightarrow> (step_error, bool option) result \<times> pass" where
  "resolve_phase f i headSHA currentLogin t d commented p =
     (if ShouldResolve (StPolicy i) d then
        (case refreshThreadResolutionCandidate f i headSHA currentLogin (ThID t) p of
           (Inl e, p) \<Rightarrow> (Inl e, markThreadResolutionRediscoveryOnRefreshError e p)
         | (Inr (None, _), p) \<Rightarrow> (Inr None, p)
         | (Inr (Some latest, detail), p) \<Rightarrow>
            (if held i detail then (Inl HoldSkip, p)
             else (let p = with_requests detail p in
               if \<not> HasObjectiveAuditForHead latest (ThID t) headSHA \<and> \<not> commented then (Inr None, p)
               else (let ok = resolve_ok f (ThID t) (PsCalls p); p = called (ResolvedThread (ThID t) ok) p
                 in if \<not> ok then (Inl RetryableTransient, p)
                    else (Inr (Some True), p\<lparr>PsTally := (PsTally p)\<lparr>TlResolved := TlResolved (PsTally p) + 1\<rparr>\<rparr>)))))
      else (Inr (Some False), p))"

text \<open>A later decision for a thread replaces an earlier one; a thread without one needs a human.\<close>

definition decision_for :: "Decision list \<Rightarrow> string \<Rightarrow> Decision" where
  "decision_for decisions threadID = (case find (\<lambda>d. DThreadID d = threadID) (rev decisions) of
     Some d \<Rightarrow> d
   | None \<Rightarrow> \<lparr>DThreadID = threadID, DDecision = ''needs_human'',
       DEvidence = ''no classifier decision returned'', DConfidence = ''low''\<rparr>)"

definition process_thread :: "forge \<Rightarrow> step_input \<Rightarrow> string \<Rightarrow> string \<Rightarrow> Decision list \<Rightarrow> Thread \<Rightarrow> pass
    \<Rightarrow> (step_error, unit) result \<times> pass" where
  "process_thread f i headSHA currentLogin decisions t p = (let d = decision_for decisions (ThID t);
       p = p\<lparr>PsTally := (PsTally p)\<lparr>TlProcessed := TlProcessed (PsTally p) + 1\<rparr>\<rparr>
     in case comment_phase f i headSHA currentLogin t d p of
          (Inl e, p) \<Rightarrow> (Inl e, p)
        | (Inr None, p) \<Rightarrow> (Inr (), p)
        | (Inr (Some commented), p) \<Rightarrow>
           (case resolve_phase f i headSHA currentLogin t d commented p of
              (Inl e, p) \<Rightarrow> (Inl e, p)
            | (Inr None, p) \<Rightarrow> (Inr (), p)
            | (Inr (Some resolved), p) \<Rightarrow> (Inr (), log_thread (ThID t)
                (if resolved then ''resolved'' else if commented then ''commented'' else ''reported'') [] p)))"

fun process_threads :: "forge \<Rightarrow> step_input \<Rightarrow> string \<Rightarrow> string \<Rightarrow> Decision list \<Rightarrow> Thread list \<Rightarrow> pass
    \<Rightarrow> (step_error, unit) result \<times> pass" where
  "process_threads f i headSHA currentLogin decisions [] p = (Inr (), p)"
| "process_threads f i headSHA currentLogin decisions (t # ts) p =
     (case process_thread f i headSHA currentLogin decisions t p of
        (Inl e, p) \<Rightarrow> (Inl e, p)
      | (Inr _, p) \<Rightarrow> process_threads f i headSHA currentLogin decisions ts p)"

definition candidates_of :: "ReviewerThreadResolutionConfig \<Rightarrow> string \<Rightarrow> string \<Rightarrow> Thread list \<Rightarrow> Thread list" where
  "candidates_of policy headSHA currentLogin threads =
     take (nat (thread_limit policy)) (filter (\<lambda>t. Candidate t headSHA currentLogin policy) threads)"

text \<open>The pass proper, once the pull request is known to be open; \<open>classify\<close> is the agent's answer.\<close>

definition reconcile_threads :: "forge \<Rightarrow> step_input \<Rightarrow> (Thread list \<Rightarrow> Decision list option) \<Rightarrow> string \<Rightarrow> string
    \<Rightarrow> checkpoint \<Rightarrow> (step_error, unit) result \<times> checkpoint \<times> call list" where
  "reconcile_threads f i classify headSHA currentLogin ck = (let
       listed = list_threads f (fetch_limit (StPolicy i)) []; calls = [Listed listed]
     in case listed of
          None \<Rightarrow> (Inl RetryableTransient, ck, calls)
        | Some threads \<Rightarrow> (let candidates = candidates_of (StPolicy i) headSHA currentLogin threads;
              t0 = \<lparr>TlHeadSHA = headSHA, TlProcessed = 0, TlCommented = 0, TlResolved = 0,
                   TlReported = length candidates\<rparr>
            in if candidates = [] then (Inr (), ck\<lparr>CkThreadResolution := Some t0\<rparr>, calls)
               else (case classify candidates of
                   None \<Rightarrow> (Inl ClassifierFailed, ck, calls)
                 | Some decisions \<Rightarrow>
                     (case process_threads f i headSHA currentLogin decisions candidates
                          \<lparr>PsCheckpoint = ck, PsTally = t0, PsCalls = calls\<rparr> of
                        (Inl e, p) \<Rightarrow> (Inl e, PsCheckpoint p, PsCalls p)
                      | (Inr _, p) \<Rightarrow> (Inr (), (PsCheckpoint p)\<lparr>CkThreadResolution := Some (PsTally p),
                            CkResumePolicy := ResumePolicyAdvanceFromCheckpoint\<rparr>, PsCalls p)))))"

definition runThreadResolutionStep :: "forge \<Rightarrow> step_input \<Rightarrow> (Thread list \<Rightarrow> Decision list option)
    \<Rightarrow> checkpoint \<Rightarrow> (step_error, unit) result \<times> checkpoint \<times> call list" where
  "runThreadResolutionStep f i classify ck =
     (if CkSkipReason ck \<noteq> [] \<or> \<not> RtEnabled (StPolicy i) then (Inr (), ck, [])
      else if CkThreadResolution ck \<noteq> None
        \<and> map_option TlHeadSHA (CkThreadResolution ck) = CkSnapshotHead ck then (Inr (), ck, [])
      else (case (CkDetail ck, CkSnapshotHead ck) of
          (Some detail, Some headSHA) \<Rightarrow>
            (if StPendingNativeResume i then (Inr (), ck, [])
             else if normalizePRState (PrState detail) \<noteq> ''open'' then (Inr (), ck, [])
             else (case login_of f of
                 None \<Rightarrow> (Inl RetryableTransient, ck, [])
               | Some login \<Rightarrow> reconcile_threads f i classify headSHA (normalizeLogin login) ck))
        | _ \<Rightarrow> (Inl RetryableTransient, ck, [])))"

text \<open>The question discovery asks: is there a thread worth a follow-up run?\<close>

definition hasThreadResolutionFollowUpCandidate ::
    "forge \<Rightarrow> ReviewerThreadResolutionConfig \<Rightarrow> string \<Rightarrow> string \<Rightarrow> bool" where
  "hasThreadResolutionFollowUpCandidate f policy headSHA currentLogin =
     (if \<not> RtEnabled policy \<or> RtRequireCurrentReviewRequest policy \<or> trim_space headSHA = []
        \<or> trim_space currentLogin = [] then False
      else (case list_threads f (fetch_limit policy) [] of
          None \<Rightarrow> False
        | Some threads \<Rightarrow> list_ex (\<lambda>t. Candidate t headSHA currentLogin policy) threads))"

end
