(* ===== verification/Resolution_Facts.thy ===== *)
theory Resolution_Facts
  imports Thread_Resolution
begin

text \<open>
  What the resolution of review threads promises: no thread is resolved without a fresh reading and
  an audit comment, a posted reply settles its thread for the head, and a pass is short.
\<close>

section \<open>Audit markers\<close>

lemma sublist_middle: "sublist p (a @ p @ b)"
  unfolding sublist_def by blast

lemma sublist_trans': "sublist a b \<Longrightarrow> sublist b c \<Longrightarrow> sublist a c"
  by (rule sublist_order.order_trans)

lemma sublist_at: "s = a @ p @ b \<Longrightarrow> sublist p s"
  by (simp add: sublist_middle)

lemma marker_parts:
  "contains (AuditMarker threadID headSHA v) ''looper:thread-resolution''"
  "contains (AuditMarker threadID headSHA v) (''thread='' @ threadID)"
  "contains (AuditMarker threadID headSHA v) (''head='' @ headSHA)"
  "contains (AuditMarker threadID headSHA v) (''decision='' @ v)"
  by (rule sublist_at [where a = "''<!-- ''" and b = "'' thread='' @ threadID @ '' head='' @ headSHA @ '' decision='' @ v @ '' -->''"],
      simp add: AuditMarker_def)
    (rule sublist_at [where a = "''<!-- looper:thread-resolution ''" and b = "'' head='' @ headSHA @ '' decision='' @ v @ '' -->''"],
      simp add: AuditMarker_def,
     rule sublist_at [where a = "''<!-- looper:thread-resolution thread='' @ threadID @ '' ''" and b = "'' decision='' @ v @ '' -->''"],
      simp add: AuditMarker_def,
     rule sublist_at [where a = "''<!-- looper:thread-resolution thread='' @ threadID @ '' head='' @ headSHA @ '' ''" and b = "'' -->''"],
      simp add: AuditMarker_def)

lemma reply_marker: "\<exists>v. contains (Reply threadID headSHA d policy) (AuditMarker threadID headSHA v)
    \<and> (IsObjective d \<longrightarrow> v = ''objectively_fixed'')"
proof -
  let ?v = "if to_lower (trim_space (DDecision d)) = [] then ''needs_human'' else to_lower (trim_space (DDecision d))"
  have "suffix (AuditMarker threadID headSHA ?v) (Reply threadID headSHA d policy)"
    unfolding Reply_def Let_def
    by (auto simp del: append.simps intro!: suffix_appendI suffix_ConsI split: resolution_mode.split)
  then have "contains (Reply threadID headSHA d policy) (AuditMarker threadID headSHA ?v)"
    by (rule suffix_imp_sublist)
  moreover have "to_lower ''objectively_fixed'' = ''objectively_fixed''" by code_simp
  then have "IsObjective d \<longrightarrow> ?v = ''objectively_fixed''"
    by (auto simp: IsObjective_def equal_fold_def)
  ultimately show ?thesis by blast
qed

lemma reply_audited:
  assumes "contains body (Reply threadID headSHA d policy)"
  shows "contains body ''looper:thread-resolution''" and "contains body (''head='' @ headSHA)"
    and "IsObjective d \<Longrightarrow> objective_audit threadID headSHA body"
proof -
  obtain v where m: "contains body (AuditMarker threadID headSHA v)" and v: "IsObjective d \<longrightarrow> v = ''objectively_fixed''"
    using reply_marker [of threadID headSHA d policy] sublist_trans' [OF _ assms] by blast
  note parts = marker_parts [where threadID = threadID and headSHA = headSHA and v = v, THEN sublist_trans', OF m]
  show "contains body ''looper:thread-resolution''" "contains body (''head='' @ headSHA)"
    by (rule parts)+
  show "objective_audit threadID headSHA body" if "IsObjective d"
    using parts v that by (simp add: objective_audit_def)
qed

text \<open>
  C16. A reply settles its thread. Whatever is wrapped around the posted text (a disclosure footer, for
  one), the thread with the reply is audited for the decision, so the head is never answered twice;
  outside the resolving mode it is no candidate any more; an objective decision leaves the audit that
  resolution asks for; and the reply never counts as feedback.
\<close>

theorem reply_settles_thread:
  assumes "contains (CBody c) (Reply (ThID t) headSHA d policy)"
    and "t' = t\<lparr>ThComments := ThComments t @ [c]\<rparr>"
  shows "HasSufficientAuditForDecision policy t' headSHA d
    \<and> (RtMode policy \<noteq> ResolveObjective \<longrightarrow> \<not> Candidate t' headSHA currentLogin policy)
    \<and> (IsObjective d \<longrightarrow> HasObjectiveAuditForHead t' (ThID t) headSHA)
    \<and> LatestFeedbackCommitOID t' = LatestFeedbackCommitOID t"
proof -
  note r = reply_audited [OF assms(1)]
  have audit: "HasAuditForHead t' headSHA"
    using r(1,2) by (simp add: HasAuditForHead_def assms(2))
  moreover have objective: "IsObjective d \<longrightarrow> HasObjectiveAuditForHead t' (ThID t) headSHA"
    using r(3) by (simp add: HasObjectiveAuditForHead_def assms(2))
  moreover have "ThID t' = ThID t" by (simp add: assms(2))
  ultimately show ?thesis
    using r(1) by (simp add: HasSufficientAuditForDecision_def Candidate_def LatestFeedbackCommitOID_def assms(2))
qed

section \<open>The calls of a pass\<close>

definition writes :: "call \<Rightarrow> bool" where
  "writes c \<longleftrightarrow> (\<exists>tid body ok. c = Replied tid body ok) \<or> (\<exists>tid ok. c = ResolvedThread tid ok)"

lemma writes_simps [simp]:
  "\<not> writes (Viewed d)" "\<not> writes (Listed ts)" "\<not> writes (Logged a b s)"
  "writes (Replied tid body ok)" "writes (ResolvedThread tid ok)"
  by (simp_all add: writes_def)

lemma called_simps [simp]: "PsCalls (called c p) = PsCalls p @ [c]" "PsTally (called c p) = PsTally p"
  "PsCheckpoint (called c p) = PsCheckpoint p"
  by (simp_all add: called_def)

lemma mark_calls [simp]: "PsCalls (markThreadResolutionRediscoveryOnRefreshError e p) = PsCalls p"
  by (simp add: markThreadResolutionRediscoveryOnRefreshError_def)

lemma with_requests_calls [simp]: "PsCalls (with_requests d p) = PsCalls p"
  by (simp add: with_requests_def)

lemma log_thread_calls [simp]: "PsCalls (log_thread k a s p) = PsCalls p @ [Logged k a s]"
  by (simp add: log_thread_def)

text \<open>A refresh reads twice at most, and what it returns was read just now.\<close>

definition fresh_reading :: "step_input \<Rightarrow> string \<Rightarrow> string \<Rightarrow> string \<Rightarrow> Thread \<Rightarrow> PullRequestDetail \<Rightarrow> call list \<Rightarrow> bool" where
  "fresh_reading i headSHA currentLogin tid t detail new \<longleftrightarrow> (\<exists>ts. new = [Viewed (Some detail), Listed (Some ts)]
     \<and> find (\<lambda>t. ThID t = tid) ts = Some t \<and> Candidate t headSHA currentLogin (StPolicy i)
     \<and> normalizePRState (PrState detail) = ''open'' \<and> PrHeadSHA detail = headSHA)"

lemma refresh_calls:
  assumes "refreshThreadResolutionCandidate f i headSHA currentLogin tid p = (r, p')"
  obtains new where "PsCalls p' = PsCalls p @ new" "length new \<le> 2" "list_all (\<lambda>c. \<not> writes c) new"
    "\<And>t detail. r = Inr (Some t, detail) \<Longrightarrow> fresh_reading i headSHA currentLogin tid t detail new"
proof -
  have "\<exists>new. PsCalls p' = PsCalls p @ new \<and> length new \<le> 2 \<and> list_all (\<lambda>c. \<not> writes c) new
      \<and> (\<forall>t detail. r = Inr (Some t, detail) \<longrightarrow> fresh_reading i headSHA currentLogin tid t detail new)"
    using assms
    by (auto simp: refreshThreadResolutionCandidate_def fresh_reading_def Let_def split: option.splits if_splits)
  with that show thesis by blast
qed


section \<open>Every resolution is justified\<close>

text \<open>The calls that may precede a resolution of \<open>tid\<close>.\<close>

definition justified :: "step_input \<Rightarrow> string \<Rightarrow> string \<Rightarrow> Decision list \<Rightarrow> call list \<Rightarrow> string \<Rightarrow> bool" where
  "justified i headSHA currentLogin decisions pre tid \<longleftrightarrow>
     ShouldResolve (StPolicy i) (decision_for decisions tid)
     \<and> (\<exists>before new t detail. pre = before @ new \<and> fresh_reading i headSHA currentLogin tid t detail new
         \<and> \<not> held i detail
         \<and> (HasObjectiveAuditForHead t tid headSHA
            \<or> (\<exists>body. Replied tid body True \<in> set before \<and> objective_audit tid headSHA body)))"

definition each_resolution :: "(call list \<Rightarrow> string \<Rightarrow> bool) \<Rightarrow> call list \<Rightarrow> bool" where
  "each_resolution P calls \<longleftrightarrow> (\<forall>pre tid ok post. calls = pre @ ResolvedThread tid ok # post \<longrightarrow> P pre tid)"

lemma each_resolution_Nil [simp]: "each_resolution P []"
  by (simp add: each_resolution_def)

lemma each_resolution_snoc:
  "each_resolution P (calls @ [c]) \<longleftrightarrow> each_resolution P calls \<and> (\<forall>tid ok. c = ResolvedThread tid ok \<longrightarrow> P calls tid)"
proof -
  have split: "calls @ [c] = pre @ d # post \<longleftrightarrow> (post = [] \<and> pre = calls \<and> d = c)
      \<or> (\<exists>post'. post = post' @ [c] \<and> calls = pre @ d # post')" for pre d post
    by (cases post rule: rev_cases) auto
  show ?thesis unfolding each_resolution_def split by blast
qed

lemma each_resolution_reads:
  "list_all (\<lambda>c. \<not> writes c) new \<Longrightarrow> each_resolution P (calls @ new) = each_resolution P calls"
proof (induction new rule: rev_induct)
  case (snoc c new)
  then show ?case
    using each_resolution_snoc [of P "calls @ new" c] by (auto simp: writes_def)
qed simp

lemma comment_calls:
  assumes "comment_phase f i headSHA currentLogin t d p = (r, p')"
  obtains new where "PsCalls p' = PsCalls p @ new" "length new \<le> 3"
    "each_resolution P (PsCalls p') = each_resolution P (PsCalls p)"
    "r = Inr (Some True) \<Longrightarrow> Replied (ThID t) (Reply (ThID t) headSHA d (StPolicy i)) True \<in> set new"
proof (cases "\<not> HasSufficientAuditForDecision (StPolicy i) t headSHA d \<and> ShouldComment (StPolicy i) d")
  case False
  with assms that [of "[]"] show thesis by (auto simp: comment_phase_def)
next
  case True
  obtain q p1 where q: "refreshThreadResolutionCandidate f i headSHA currentLogin (ThID t) p = (q, p1)"
    by (cases "refreshThreadResolutionCandidate f i headSHA currentLogin (ThID t) p")
  obtain new where n: "PsCalls p1 = PsCalls p @ new" "length new \<le> 2" "list_all (\<lambda>c. \<not> writes c) new"
    using refresh_calls [OF q] by metis
  have "\<exists>c. PsCalls p' = PsCalls p1 @ c \<and> length c \<le> 1 \<and> (\<forall>tid ok. ResolvedThread tid ok \<notin> set c)
      \<and> (r = Inr (Some True) \<longrightarrow> c = [Replied (ThID t) (Reply (ThID t) headSHA d (StPolicy i)) True])"
    using assms True
    by (auto simp: comment_phase_def q Let_def split: sum.splits option.splits if_splits)
  then obtain c where c: "PsCalls p' = PsCalls p1 @ c" "length c \<le> 1" "\<forall>tid ok. ResolvedThread tid ok \<notin> set c"
      "r = Inr (Some True) \<longrightarrow> c = [Replied (ThID t) (Reply (ThID t) headSHA d (StPolicy i)) True]"
    by blast
  have "each_resolution P (PsCalls p') = each_resolution P (PsCalls p1)"
    using c(1-3) by (cases c) (auto simp: each_resolution_snoc)
  moreover have "each_resolution P (PsCalls p1) = each_resolution P (PsCalls p)"
    using n by (simp add: each_resolution_reads)
  ultimately show thesis
    using that [of "new @ c"] n c by auto
qed

lemma resolve_calls:
  assumes r: "resolve_phase f i headSHA currentLogin t d commented p = (r, p')"
    and d: "d = decision_for decisions (ThID t)"
    and audit: "commented \<Longrightarrow> IsObjective d \<Longrightarrow>
      \<exists>body. Replied (ThID t) body True \<in> set (PsCalls p) \<and> objective_audit (ThID t) headSHA body"
    and J: "each_resolution (justified i headSHA currentLogin decisions) (PsCalls p)"
  obtains new where "PsCalls p' = PsCalls p @ new" "length new \<le> 3"
    "each_resolution (justified i headSHA currentLogin decisions) (PsCalls p')"
proof (cases "ShouldResolve (StPolicy i) d")
  case False
  with r J that [of "[]"] show thesis by (auto simp: resolve_phase_def)
next
  case True
  obtain q p1 where q: "refreshThreadResolutionCandidate f i headSHA currentLogin (ThID t) p = (q, p1)"
    by (cases "refreshThreadResolutionCandidate f i headSHA currentLogin (ThID t) p")
  obtain new where n: "PsCalls p1 = PsCalls p @ new" "length new \<le> 2" "list_all (\<lambda>c. \<not> writes c) new"
    "\<And>t' detail. q = Inr (Some t', detail) \<Longrightarrow> fresh_reading i headSHA currentLogin (ThID t) t' detail new"
    using refresh_calls [OF q] by metis
  have j1: "each_resolution (justified i headSHA currentLogin decisions) (PsCalls p1)"
    using J n by (simp add: each_resolution_reads)
  define ok where "ok = resolve_ok f (ThID t) (PsCalls p1)"
  have "PsCalls p' = PsCalls p1 \<or> (\<exists>latest detail. q = Inr (Some latest, detail) \<and> \<not> held i detail
      \<and> (HasObjectiveAuditForHead latest (ThID t) headSHA \<or> commented)
      \<and> PsCalls p' = PsCalls p1 @ [ResolvedThread (ThID t) ok])"
    using r True by (auto simp: resolve_phase_def q Let_def ok_def split: sum.splits option.splits if_splits)
  then consider "PsCalls p' = PsCalls p1"
    | latest detail where "q = Inr (Some latest, detail)" "\<not> held i detail"
        "HasObjectiveAuditForHead latest (ThID t) headSHA \<or> commented"
        "PsCalls p' = PsCalls p1 @ [ResolvedThread (ThID t) ok]"
    by blast
  then show thesis
  proof cases
    case 1
    with n j1 that [of new] show thesis by simp
  next
    case l: 2
    have "IsObjective d" using True by (simp add: ShouldResolve_def)
    then have "justified i headSHA currentLogin decisions (PsCalls p1) (ThID t)"
      unfolding justified_def using True d l(2,3) audit n(1) n(4) [OF l(1)] by blast
    with j1 have "each_resolution (justified i headSHA currentLogin decisions) (PsCalls p')"
      by (simp add: l(4) each_resolution_snoc)
    with n l(4) that [of "new @ [ResolvedThread (ThID t) ok]"] show thesis by simp
  qed
qed

lemma thread_calls:
  assumes "process_thread f i headSHA currentLogin decisions t p = (r, p')"
    and J: "each_resolution (justified i headSHA currentLogin decisions) (PsCalls p)"
  obtains new where "PsCalls p' = PsCalls p @ new" "length new \<le> 7"
    "each_resolution (justified i headSHA currentLogin decisions) (PsCalls p')"
proof -
  define d where "d = decision_for decisions (ThID t)"
  define p0 where "p0 = p\<lparr>PsTally := (PsTally p)\<lparr>TlProcessed := TlProcessed (PsTally p) + 1\<rparr>\<rparr>"
  have calls0: "PsCalls p0 = PsCalls p" by (simp add: p0_def)
  obtain q p1 where q: "comment_phase f i headSHA currentLogin t d p0 = (q, p1)"
    by (cases "comment_phase f i headSHA currentLogin t d p0")
  obtain n1 where n1: "PsCalls p1 = PsCalls p0 @ n1" "length n1 \<le> 3"
    "each_resolution (justified i headSHA currentLogin decisions) (PsCalls p1)
      = each_resolution (justified i headSHA currentLogin decisions) (PsCalls p0)"
    "q = Inr (Some True) \<Longrightarrow> Replied (ThID t) (Reply (ThID t) headSHA d (StPolicy i)) True \<in> set n1"
    using comment_calls [OF q, of "justified i headSHA currentLogin decisions"] by metis
  have j1: "each_resolution (justified i headSHA currentLogin decisions) (PsCalls p1)"
    using J n1(3) calls0 by simp
  show thesis
  proof (cases "\<exists>commented. q = Inr (Some commented)")
    case False
    then have "PsCalls p' = PsCalls p1"
      using assms(1) q unfolding process_thread_def Let_def d_def [symmetric] p0_def [symmetric]
      by (auto split: sum.splits option.splits)
    with n1 j1 calls0 that [of n1] show thesis by simp
  next
    case True
    then obtain commented where c: "q = Inr (Some commented)" by blast
    obtain s p2 where s: "resolve_phase f i headSHA currentLogin t d commented p1 = (s, p2)"
      by (cases "resolve_phase f i headSHA currentLogin t d commented p1")
    have audit: "\<exists>body. Replied (ThID t) body True \<in> set (PsCalls p1) \<and> objective_audit (ThID t) headSHA body"
      if "commented" "IsObjective d"
      using n1(1,4) c that reply_audited(3) [OF sublist_order.order_refl] by fastforce
    obtain n2 where n2: "PsCalls p2 = PsCalls p1 @ n2" "length n2 \<le> 3"
      "each_resolution (justified i headSHA currentLogin decisions) (PsCalls p2)"
      using resolve_calls [OF s d_def audit j1] by metis
    have "PsCalls p' = PsCalls p2 \<or> (\<exists>k a m. PsCalls p' = PsCalls p2 @ [Logged k a m])"
      using assms(1) q s c unfolding process_thread_def Let_def d_def [symmetric] p0_def [symmetric]
      by (auto split: sum.splits option.splits)
    then show thesis
    proof (elim disjE exE)
      assume "PsCalls p' = PsCalls p2"
      with n1 n2 calls0 that [of "n1 @ n2"] show thesis by simp
    next
      fix k a m
      assume l: "PsCalls p' = PsCalls p2 @ [Logged k a m]"
      have "each_resolution (justified i headSHA currentLogin decisions) (PsCalls p')"
        using n2(3) by (simp only: l each_resolution_snoc) simp
      with n1 n2 calls0 l that [of "n1 @ n2 @ [Logged k a m]"] show thesis by simp
    qed
  qed
qed

lemma threads_calls:
  assumes "process_threads f i headSHA currentLogin decisions ts p = (r, p')"
    and "each_resolution (justified i headSHA currentLogin decisions) (PsCalls p)"
  shows "each_resolution (justified i headSHA currentLogin decisions) (PsCalls p')
    \<and> length (PsCalls p') \<le> length (PsCalls p) + 7 * length ts"
  using assms
proof (induction ts arbitrary: p)
  case (Cons t ts)
  obtain q p1 where q: "process_thread f i headSHA currentLogin decisions t p = (q, p1)"
    by (cases "process_thread f i headSHA currentLogin decisions t p")
  obtain n where n: "PsCalls p1 = PsCalls p @ n" "length n \<le> 7"
    "each_resolution (justified i headSHA currentLogin decisions) (PsCalls p1)"
    using thread_calls [OF q Cons.prems(2)] by metis
  show ?case
  proof (cases q)
    case (Inl e)
    with Cons.prems(1) q n show ?thesis by simp
  next
    case (Inr u)
    with Cons.prems(1) q have "process_threads f i headSHA currentLogin decisions ts p1 = (r, p')" by simp
    from Cons.IH [OF this n(3)] n show ?thesis by simp
  qed
qed simp


lemma found: "find P xs = Some x \<Longrightarrow> x \<in> set xs \<and> P x"
  by (induction xs) (auto split: if_splits)

lemma decision_objective:
  assumes "IsObjective (decision_for decisions tid)"
  shows "\<exists>d \<in> set decisions. DThreadID d = tid \<and> IsObjective d"
proof -
  have "\<not> equal_fold (trim_space ''needs_human'') ''objectively_fixed''" by code_simp
  with assms obtain d where d: "find (\<lambda>d. DThreadID d = tid) (rev decisions) = Some d" "IsObjective d"
    by (auto simp: decision_for_def IsObjective_def split: option.splits)
  have "d \<in> set decisions" "DThreadID d = tid" using found [OF d(1)] by simp_all
  with d(2) show ?thesis by blast
qed

lemma reconcile_calls:
  assumes "reconcile_threads f i classify headSHA currentLogin ck = (out, ck', calls)"
  shows "length calls \<le> 1 + 7 * nat (thread_limit (StPolicy i))"
    and "ResolvedThread tid ok \<in> set calls \<Longrightarrow> \<exists>ts decisions. classify ts = Some decisions
      \<and> each_resolution (justified i headSHA currentLogin decisions) calls"
proof -
  define first where "first = Listed (list_threads f (fetch_limit (StPolicy i)) [])"
  have "calls = [first] \<or> (\<exists>ts decisions p r p'. classify ts = Some decisions \<and> length ts \<le> nat (thread_limit (StPolicy i))
        \<and> PsCalls p = [first] \<and> process_threads f i headSHA currentLogin decisions ts p = (r, p') \<and> calls = PsCalls p')"
  proof (cases "list_threads f (fetch_limit (StPolicy i)) []")
    case None
    with assms show ?thesis by (simp add: reconcile_threads_def first_def)
  next
    case (Some threads)
    define ts where "ts = candidates_of (StPolicy i) headSHA currentLogin threads"
    have short: "length ts \<le> nat (thread_limit (StPolicy i))" by (simp add: ts_def candidates_of_def)
    show ?thesis
    proof (cases "ts = [] \<or> classify ts = None")
      case True
      with assms Some show ?thesis
        unfolding reconcile_threads_def Let_def first_def ts_def by (auto split: if_splits)
    next
      case False
      then obtain decisions where d: "ts \<noteq> []" "classify ts = Some decisions" by blast
      define p where "p = \<lparr>PsCheckpoint = ck, PsTally = \<lparr>TlHeadSHA = headSHA, TlProcessed = 0, TlCommented = 0,
        TlResolved = 0, TlReported = length ts\<rparr>, PsCalls = [first]\<rparr>"
      obtain r p' where r: "process_threads f i headSHA currentLogin decisions ts p = (r, p')"
        by (cases "process_threads f i headSHA currentLogin decisions ts p")
      have "calls = PsCalls p'"
        using assms Some d r unfolding reconcile_threads_def Let_def first_def p_def ts_def
        by (simp split: sum.splits)
      moreover have "PsCalls p = [first]" by (simp add: p_def)
      ultimately show ?thesis using d(2) short r by blast
    qed
  qed
  then show "length calls \<le> 1 + 7 * nat (thread_limit (StPolicy i))"
    and "ResolvedThread tid ok \<in> set calls \<Longrightarrow> \<exists>ts decisions. classify ts = Some decisions
      \<and> each_resolution (justified i headSHA currentLogin decisions) calls"
  proof (atomize (full), elim disjE exE conjE, goal_cases)
    case 1
    then show ?case by (simp add: first_def)
  next
    case (2 ts decisions p r p')
    have "each_resolution (justified i headSHA currentLogin decisions) (PsCalls p)"
      using each_resolution_snoc [of _ "[]"] by (simp add: 2(3) first_def)
    from threads_calls [OF 2(4) this] 2(1-3,5) show ?case by auto
  qed
qed

text \<open>A pass makes a bounded number of calls, whatever the forge answers.\<close>

lemma step_calls:
  assumes "runThreadResolutionStep f i classify ck = (out, ck', calls)"
  shows "calls = [] \<or> (\<exists>headSHA login. CkSnapshotHead ck = Some headSHA \<and> login_of f = Some login
    \<and> reconcile_threads f i classify headSHA (normalizeLogin login) ck = (out, ck', calls))"
  using assms by (auto simp: runThreadResolutionStep_def split: if_splits option.splits)

lemma pass_is_short:
  "length (snd (snd (runThreadResolutionStep f i classify ck))) \<le> 1 + 7 * nat (thread_limit (StPolicy i))"
proof (cases "runThreadResolutionStep f i classify ck")
  case (fields out ck' calls)
  with step_calls [OF fields] show ?thesis by (auto dest: reconcile_calls(1))
qed

text \<open>
  C15. No thread is resolved on a stale or a foreign word. Before each resolution, successful or not, the
  last two calls read the pull request, open and unheld at the very head the run is about, and its
  threads, among them this one, unresolved, begun by the reviewer itself where policy says so, with
  its feedback given on another head; the classifier called it objectively fixed with high
  confidence under the resolving mode; and an audit comment for this thread and head is there or
  was posted before in the same pass.
\<close>

theorem resolutions_audited:
  assumes "runThreadResolutionStep f i classify ck = (out, ck', pre @ ResolvedThread tid ok # post)"
  shows "\<exists>headSHA login candidates decisions before detail ts t.
    CkSnapshotHead ck = Some headSHA \<and> login_of f = Some login
    \<and> classify candidates = Some decisions
    \<and> (\<exists>d \<in> set decisions. DThreadID d = tid \<and> IsObjective d)
    \<and> RtMode (StPolicy i) = ResolveObjective \<and> RtObjectiveOnly (StPolicy i) \<and> RtRequireAuditComment (StPolicy i)
    \<and> pre = before @ [Viewed (Some detail), Listed (Some ts)]
    \<and> normalizePRState (PrState detail) = ''open'' \<and> PrHeadSHA detail = headSHA
    \<and> (StManual i \<or> \<not> IsAutoLaneHeldForNamespace Reviewer (PrLabels detail) (StNamespace i))
    \<and> t \<in> set ts \<and> ThID t = tid \<and> \<not> ThIsResolved t
    \<and> (RtLooperAuthoredOnly (StPolicy i) \<longrightarrow> LooperAuthored t
        \<and> normalizeLogin (CAuthor (hd (ThComments t))) = normalizeLogin login)
    \<and> (RtRequireNewHeadSinceThread (StPolicy i) \<and> headSHA \<noteq> []
        \<longrightarrow> LatestFeedbackCommitOID t \<noteq> [] \<and> LatestFeedbackCommitOID t \<noteq> headSHA)
    \<and> (HasObjectiveAuditForHead t tid headSHA
        \<or> (\<exists>body. Replied tid body True \<in> set before \<and> objective_audit tid headSHA body))"
proof -
  obtain headSHA login where l: "CkSnapshotHead ck = Some headSHA" "login_of f = Some login"
    and r: "reconcile_threads f i classify headSHA (normalizeLogin login) ck = (out, ck', pre @ ResolvedThread tid ok # post)"
    using step_calls [OF assms] by auto
  obtain candidates decisions where c: "classify candidates = Some decisions"
    and "each_resolution (justified i headSHA (normalizeLogin login) decisions) (pre @ ResolvedThread tid ok # post)"
    using reconcile_calls(2) [OF r, of tid ok] by auto
  then have "justified i headSHA (normalizeLogin login) decisions pre tid"
    unfolding each_resolution_def by blast
  then obtain before detail ts t where s: "ShouldResolve (StPolicy i) (decision_for decisions tid)"
    and p: "pre = before @ [Viewed (Some detail), Listed (Some ts)]" "\<not> held i detail"
      "normalizePRState (PrState detail) = ''open''" "PrHeadSHA detail = headSHA"
    and t: "find (\<lambda>t. ThID t = tid) ts = Some t" "Candidate t headSHA (normalizeLogin login) (StPolicy i)"
    and a: "HasObjectiveAuditForHead t tid headSHA
        \<or> (\<exists>body. Replied tid body True \<in> set before \<and> objective_audit tid headSHA body)"
    unfolding justified_def fresh_reading_def by blast
  have "t \<in> set ts" "ThID t = tid" using found [OF t(1)] by simp_all
  moreover have "\<exists>d \<in> set decisions. DThreadID d = tid \<and> IsObjective d"
    using s by (intro decision_objective) (simp add: ShouldResolve_def)
  moreover have "StManual i \<or> \<not> IsAutoLaneHeldForNamespace Reviewer (PrLabels detail) (StNamespace i)"
    using p(2) by (simp add: held_def)
  moreover have "\<not> ThIsResolved t"
    "RtLooperAuthoredOnly (StPolicy i) \<longrightarrow> LooperAuthored t
        \<and> normalizeLogin (CAuthor (hd (ThComments t))) = normalizeLogin login"
    "RtRequireNewHeadSinceThread (StPolicy i) \<and> headSHA \<noteq> []
        \<longrightarrow> LatestFeedbackCommitOID t \<noteq> [] \<and> LatestFeedbackCommitOID t \<noteq> headSHA"
    using t(2) by (auto simp: Candidate_def split: if_splits)
  moreover have "RtMode (StPolicy i) = ResolveObjective" "RtObjectiveOnly (StPolicy i)" "RtRequireAuditComment (StPolicy i)"
    using s by (simp_all add: ShouldResolve_def)
  ultimately show ?thesis using l c p(1,3,4) a by blast
qed


section \<open>A run\<close>

text \<open>A reviewer's own thread, fixed on a later head: the pass replies and resolves.\<close>

definition sample_thread :: Thread where
  "sample_thread = \<lparr>ThID = ''T1'', ThIsResolved = False, ThComments = [\<lparr>CBody = ''rename this <!-- looper:stamp v=1 -->'',
     CAuthor = ''Looper-Bot'', COriginalCommitOID = ''h1'', CCommitOID = ''h1''\<rparr>]\<rparr>"

definition sample_detail :: PullRequestDetail where
  "sample_detail = \<lparr>PrState = ''OPEN'', PrHeadSHA = ''h2'', PrLabels = [], PrReviewRequests = None\<rparr>"

definition sample_forge :: forge where
  "sample_forge = \<lparr>login_of = Some ''looper-bot'', view_pr = (\<lambda>_. Some sample_detail),
     list_threads = (\<lambda>_ _. Some [sample_thread]), reply_ok = (\<lambda>_ _ _. True), resolve_ok = (\<lambda>_ _. True)\<rparr>"

definition sample_input :: step_input where
  "sample_input = \<lparr>StPolicy = \<lparr>RtEnabled = True, RtMode = ResolveObjective, RtLooperAuthoredOnly = True,
       RtObjectiveOnly = True, RtRequireAuditComment = True, RtRequireNewHeadSinceThread = True,
       RtRequireCurrentReviewRequest = True, RtMaxThreadsPerRun = 10\<rparr>,
     StManual = False, StNamespace = DefaultNamespace, StPendingNativeResume = False\<rparr>"

definition sample_decision :: Decision where
  "sample_decision = \<lparr>DThreadID = ''T1'', DDecision = ''objectively_fixed'', DEvidence = ''the new name'', DConfidence = ''High''\<rparr>"

definition sample_checkpoint :: checkpoint where
  "sample_checkpoint = \<lparr>CkSkipReason = [], CkThreadResolution = None, CkSnapshotHead = Some ''h2'',
     CkDetail = Some sample_detail, CkResumePolicy = []\<rparr>"

lemma sample_run:
  "case runThreadResolutionStep sample_forge sample_input (\<lambda>_. Some [sample_decision]) sample_checkpoint of
     (out, ck, calls) \<Rightarrow> out = Inr () \<and> map_option TlResolved (CkThreadResolution ck) = Some 1
       \<and> calls = take 6 calls @ ResolvedThread ''T1'' True # [Logged ''T1'' ''resolved'' []]"
  by code_simp

lemma resolutions_audited_witness:
  "\<exists>login decisions. login_of sample_forge = Some login \<and> (\<lambda>_. Some [sample_decision]) [sample_thread] = Some decisions
     \<and> (\<exists>d \<in> set decisions. DThreadID d = ''T1'' \<and> IsObjective d)"
proof -
  obtain out ck calls where r: "runThreadResolutionStep sample_forge sample_input (\<lambda>_. Some [sample_decision]) sample_checkpoint
      = (out, ck, calls)"
    by (cases "runThreadResolutionStep sample_forge sample_input (\<lambda>_. Some [sample_decision]) sample_checkpoint")
  with sample_run have "calls = take 6 calls @ ResolvedThread ''T1'' True # [Logged ''T1'' ''resolved'' []]" by simp
  with r have "runThreadResolutionStep sample_forge sample_input (\<lambda>_. Some [sample_decision]) sample_checkpoint
      = (out, ck, take 6 calls @ ResolvedThread ''T1'' True # [Logged ''T1'' ''resolved'' []])" by simp
  from resolutions_audited [OF this] show ?thesis by auto
qed

lemma sample_objective: "IsObjective sample_decision"
  by code_simp

lemma reply_settles_thread_witness:
  "let t' = sample_thread\<lparr>ThComments := ThComments sample_thread @ [\<lparr>CBody = Reply ''T1'' ''h2'' sample_decision (StPolicy sample_input) @ ''footer'',
        CAuthor = ''looper-bot'', COriginalCommitOID = [], CCommitOID = ''h2''\<rparr>]\<rparr>
   in HasObjectiveAuditForHead t' ''T1'' ''h2'' \<and> LatestFeedbackCommitOID t' = ''h1''"
proof -
  let ?c = "\<lparr>CBody = Reply ''T1'' ''h2'' sample_decision (StPolicy sample_input) @ ''footer'',
        CAuthor = ''looper-bot'', COriginalCommitOID = [], CCommitOID = ''h2''\<rparr>"
  have "contains (CBody ?c) (Reply (ThID sample_thread) ''h2'' sample_decision (StPolicy sample_input))"
    by (simp add: sample_thread_def)
  from reply_settles_thread [OF this refl, of "''looper-bot''"]
  have "HasObjectiveAuditForHead (sample_thread\<lparr>ThComments := ThComments sample_thread @ [?c]\<rparr>) (ThID sample_thread) ''h2''"
    and "LatestFeedbackCommitOID (sample_thread\<lparr>ThComments := ThComments sample_thread @ [?c]\<rparr>) = LatestFeedbackCommitOID sample_thread"
    and "IsObjective sample_decision"
    using sample_objective by blast+
  moreover have "ThID sample_thread = ''T1''" "LatestFeedbackCommitOID sample_thread = ''h1''" by code_simp+
  ultimately show ?thesis by (simp add: Let_def)
qed

text \<open>
  The audit is recognised by its words alone: a reply that says a human is needed passes for an
  objective audit when the classifier's evidence quotes the marker's words.
\<close>

lemma quoted_evidence_passes_for_audit:
  "let d = \<lparr>DThreadID = ''T1'', DDecision = ''needs_human'', DEvidence = ''no decision=objectively_fixed'', DConfidence = ''low''\<rparr>
   in \<not> IsObjective d \<and> objective_audit ''T1'' ''h2'' (Reply ''T1'' ''h2'' d ((StPolicy sample_input)\<lparr>RtMode := CommentOnly\<rparr>))"
  by code_simp

end
