(* ===== verification/Round_Budget.thy ===== *)
theory Round_Budget
  imports Prelude
begin

text \<open>
  The fixer's budget of rounds (\<open>internal/fixer/roundbudget.go\<close>): how many pushes a fixer may make
  against one pull request before its loop is parked. A loop is seen through the fields these
  functions read of the record and of its decoded metadata document. Each write to the store is a
  step of its own: \<open>chargeFixerRound\<close> returns the versions of the loop it persists, in order, and a
  crash leaves any of them.
\<close>

section \<open>State\<close>

record roundBudgetState =
  Rounds :: int
  LastHeadSHA :: string
  FirstRoundAt :: string
  RecordedAt :: string

record fixer_loop =
  FlStatus :: string
  FlNextRunAt :: "string option"
  FlBudget :: "roundBudgetState option"
  FlSeeded :: bool
  FlLastFixHead :: string
  FlPauseReason :: string

definition roundBudgetPauseReason :: string where
  "roundBudgetPauseReason = ''fixer_non_converging''"

definition maxFixerRoundsPerPullRequest :: int where
  "maxFixerRoundsPerPullRequest = 8"

text \<open>The limit of a runner, from its option.\<close>

definition max_rounds :: "int \<Rightarrow> int" where
  "max_rounds option = (if option \<le> 0 then maxFixerRoundsPerPullRequest else option)"

definition no_budget :: roundBudgetState where
  "no_budget = \<lparr>Rounds = 0, LastHeadSHA = [], FirstRoundAt = [], RecordedAt = []\<rparr>"

definition parseRoundBudgetState :: "roundBudgetState option \<Rightarrow> roundBudgetState \<times> bool" where
  "parseRoundBudgetState raw = (case raw of None \<Rightarrow> (no_budget, False)
     | Some state \<Rightarrow> (if Rounds state < 0 \<or> trim_space (LastHeadSHA state) = [] then (no_budget, False)
         else (state, True)))"

definition nextRoundBudget :: "roundBudgetState \<Rightarrow> bool \<Rightarrow> string \<Rightarrow> string \<Rightarrow> roundBudgetState \<times> bool" where
  "nextRoundBudget previous hasPrevious head nowISO = (let headSHA = trim_space head in
     if headSHA = [] then (previous, False)
     else if \<not> hasPrevious
     then (\<lparr>Rounds = 0, LastHeadSHA = headSHA, FirstRoundAt = nowISO, RecordedAt = nowISO\<rparr>, True)
     else if LastHeadSHA previous = headSHA then (previous, False)
     else (\<lparr>Rounds = Rounds previous + 1, LastHeadSHA = headSHA,
            FirstRoundAt = (if FirstRoundAt previous = [] then nowISO else FirstRoundAt previous),
            RecordedAt = nowISO\<rparr>, True))"

section \<open>Charging and parking\<close>

definition with_budget :: "roundBudgetState \<Rightarrow> fixer_loop \<Rightarrow> fixer_loop" where
  "with_budget state l = l\<lparr>FlBudget := Some state\<rparr>"

text \<open>The two writes of \<open>parkLoopForRoundBudget\<close>; a terminated loop keeps its status.\<close>

definition with_reason :: "fixer_loop \<Rightarrow> fixer_loop" where
  "with_reason l = l\<lparr>FlPauseReason := roundBudgetPauseReason\<rparr>"

definition parkLoopForRoundBudget :: "fixer_loop \<Rightarrow> fixer_loop list" where
  "parkLoopForRoundBudget l = [with_reason l, if FlStatus l = ''terminated'' then with_reason l
     else (with_reason l)\<lparr>FlStatus := ''paused'', FlNextRunAt := None\<rparr>]"

text \<open>A head that neither the loop's own last push explains, nor a loop that has not pushed yet.\<close>

definition foreign_head :: "roundBudgetState \<Rightarrow> fixer_loop \<Rightarrow> string \<Rightarrow> bool" where
  "foreign_head previous l headSHA \<longleftrightarrow> headSHA \<noteq> [] \<and> LastHeadSHA previous \<noteq> headSHA
     \<and> (FlSeeded l \<and> trim_space (FlLastFixHead l) = [] \<and> Rounds previous = 0
        \<or> trim_space (FlLastFixHead l) \<noteq> [] \<and> headSHA \<noteq> trim_space (FlLastFixHead l))"

definition chargeFixerRound :: "int \<Rightarrow> string \<Rightarrow> fixer_loop \<Rightarrow> string \<Rightarrow> fixer_loop list \<times> bool" where
  "chargeFixerRound maxRounds nowISO l head = (let
       (previous, hasPrevious) = parseRoundBudgetState (FlBudget l); headSHA = trim_space head
     in if hasPrevious \<and> foreign_head previous l headSHA
        then ([with_budget (previous\<lparr>LastHeadSHA := headSHA, RecordedAt := nowISO\<rparr>) l], False)
        else if \<not> hasPrevious \<and> headSHA \<noteq> [] \<and> headSHA = trim_space (FlLastFixHead l)
        then (let updated = with_budget \<lparr>Rounds = 1, LastHeadSHA = headSHA, FirstRoundAt = nowISO,
                  RecordedAt = nowISO\<rparr> l
              in if 1 \<ge> maxRounds then (updated # parkLoopForRoundBudget updated, True)
                 else ([updated], False))
        else (case nextRoundBudget previous hasPrevious headSHA nowISO of
            (state, True) \<Rightarrow> (let updated = with_budget state l in
               if Rounds state = 0 \<or> Rounds state < maxRounds then ([updated], False)
               else (updated # parkLoopForRoundBudget updated, True))
          | (_, False) \<Rightarrow>
              (if hasPrevious \<and> Rounds previous \<ge> maxRounds then
                 (if FlPauseReason l = roundBudgetPauseReason \<and> FlStatus l = ''paused'' then ([], True)
                  else (parkLoopForRoundBudget l, True))
               else ([], False))))"

definition clearRoundBudgetMetadata :: "fixer_loop \<Rightarrow> fixer_loop" where
  "clearRoundBudgetMetadata l = (if FlStatus l = ''terminated'' then l else (let
       owned = FlPauseReason l = roundBudgetPauseReason;
       cleared = l\<lparr>FlBudget := None, FlPauseReason := (if owned then [] else FlPauseReason l)\<rparr>
     in if owned \<and> FlStatus l = ''paused'' \<or> FlPauseReason l = [] \<and> FlStatus l = ''queued''
        then cleared\<lparr>FlStatus := ''completed'', FlNextRunAt := None\<rparr> else cleared))"

definition clearRoundBudgetForPullRequest :: "fixer_loop option \<Rightarrow> fixer_loop option" where
  "clearRoundBudgetForPullRequest found = (case found of None \<Rightarrow> None
     | Some l \<Rightarrow> (if \<not> snd (parseRoundBudgetState (FlBudget l)) then Some l
         else Some (clearRoundBudgetMetadata l)))"

text \<open>
  Whether a review of this very head exists; the loops of the pull request, with the head a
  reviewer completed last and whether a fixer holds a pending rediscovery. A failed read is \<open>None\<close>.
\<close>

record pr_loop =
  PlType :: string
  PlStatus :: string
  PlReviewedHead :: string
  PlPendingRediscovery :: bool

definition reviewerHasReviewedHead :: "string \<Rightarrow> pr_loop list option \<Rightarrow> bool" where
  "reviewerHasReviewedHead head read = (let headSHA = trim_space head in
     if headSHA = [] then True
     else (case read of None \<Rightarrow> False
       | Some loops \<Rightarrow>
          (if list_ex (\<lambda>l. PlType l = ''reviewer'' \<and> PlReviewedHead l = headSHA) loops then True
           else if list_ex (\<lambda>l. PlType l = ''reviewer'') loops then False
           else \<not> list_ex (\<lambda>l. PlType l = ''fixer''
                \<and> (PlStatus l = ''running'' \<or> PlPendingRediscovery l)) loops)))"

section \<open>A pull request under a fixer\<close>

text \<open>
  The loop, the head of the pull request and whether a run of the loop is due or under way; the
  counters are the observer's: pushes of the fixer since the budget was last reset, pushes of it
  that another push covered before any discovery saw them, pushes of it whose record was lost, and
  the occasions on which the gate was overruled, which \<open>round_step\<close> lists.
\<close>

record pull_request =
  PrLoop :: fixer_loop
  PrHead :: string
  PrWork :: bool
  Pushes :: int
  Hidden :: int
  Lost :: int
  Grants :: int

definition last_observed :: "fixer_loop \<Rightarrow> string" where
  "last_observed l = LastHeadSHA (fst (parseRoundBudgetState (FlBudget l)))"

definition spent :: "fixer_loop \<Rightarrow> int" where
  "spent l = Rounds (fst (parseRoundBudgetState (FlBudget l)))"

definition exhausted :: "int \<Rightarrow> fixer_loop \<Rightarrow> bool" where
  "exhausted maxRounds l \<longleftrightarrow> maxRounds \<le> spent l"

text \<open>
  The loop is exhausted, and the head is someone else's: neither the fixer's recorded push nor the
  head its budget observed last. \<open>chargeFixerRound\<close> records such a head and lets the loop go on.
\<close>

definition overrules :: "int \<Rightarrow> fixer_loop \<Rightarrow> string \<Rightarrow> bool" where
  "overrules maxRounds l h \<longleftrightarrow> exhausted maxRounds l \<and> trim_space h \<noteq> [] \<and> trim_space h \<noteq> last_observed l
     \<and> trim_space (FlLastFixHead l) \<noteq> [] \<and> trim_space h \<noteq> trim_space (FlLastFixHead l)"

text \<open>The head is the fixer's recorded push, and no discovery has seen it.\<close>

definition unseen_push :: "pull_request \<Rightarrow> bool" where
  "unseen_push w \<longleftrightarrow> PrHead w = FlLastFixHead (PrLoop w) \<and> PrHead w \<noteq> last_observed (PrLoop w)"

definition covered :: "pull_request \<Rightarrow> int" where
  "covered w = of_bool (unseen_push w)"

text \<open>
  \<open>ensureLoopForPullRequest\<close> writes a new loop with the head it was discovered at.
\<close>

definition createLoop :: "string \<Rightarrow> string \<Rightarrow> fixer_loop" where
  "createLoop head nowISO = (let seededHead = trim_space head in
     \<lparr>FlStatus = ''queued'', FlNextRunAt = Some nowISO,
      FlBudget = (if seededHead = [] then None
        else Some \<lparr>Rounds = 0, LastHeadSHA = seededHead, FirstRoundAt = nowISO, RecordedAt = nowISO\<rparr>),
      FlSeeded = (seededHead \<noteq> []), FlLastFixHead = [], FlPauseReason = []\<rparr>)"

text \<open>A commit id: no blanks around it, and not the id of a head that is on record.\<close>

definition new_head :: "pull_request \<Rightarrow> string \<Rightarrow> bool" where
  "new_head w h \<longleftrightarrow> h \<noteq> [] \<and> trim_space h = h \<and> h \<noteq> PrHead w
     \<and> h \<noteq> last_observed (PrLoop w) \<and> h \<noteq> FlLastFixHead (PrLoop w)"

text \<open>A pull request whose loop was just created.\<close>

definition created :: "string \<Rightarrow> string \<Rightarrow> pull_request" where
  "created h nowISO = \<lparr>PrLoop = createLoop h nowISO, PrHead = trim_space h, PrWork = True,
     Pushes = 0, Hidden = 0, Lost = 0, Grants = 0\<rparr>"

text \<open>
  What a discovery that found no run of the loop active, or the handoff of a pending rediscovery
  with whatever head it recorded, leaves: a round charged, and the loop queued unless it was parked.
\<close>

definition discovered :: "int \<Rightarrow> string \<Rightarrow> string \<Rightarrow> pull_request \<Rightarrow> pull_request" where
  "discovered maxRounds nowISO h w = (let (writes, parked) = chargeFixerRound maxRounds nowISO (PrLoop w) h;
       l = last (PrLoop w # writes)
     in w\<lparr>PrLoop := (if parked then l else l\<lparr>FlStatus := ''queued'', FlNextRunAt := Some nowISO\<rparr>),
          PrWork := \<not> parked\<rparr>)"

text \<open>
  What may happen next: discoveries, which may die between two writes; pushes of the fixer, whose
  record may be lost, and of others; pauses and resumptions by other gates, for other reasons, and
  by operators; and the reset. The gate is overruled when a discovery finds an exhausted loop that
  is not paused at someone else's head, when a discovery dies while work is already queued, when
  another gate resumes an exhausted loop with work, and when an operator resumes one.
\<close>

inductive round_step :: "int \<Rightarrow> pull_request \<Rightarrow> pull_request \<Rightarrow> bool" for maxRounds :: int where
  discover: "FlStatus (PrLoop w) \<noteq> ''paused''
    \<Longrightarrow> round_step maxRounds w ((discovered maxRounds nowISO h w)\<lparr>Grants := Grants w + of_bool (overrules maxRounds (PrLoop w) h)\<rparr>)"
| torn: "FlStatus (PrLoop w) \<noteq> ''paused'' \<Longrightarrow> l \<in> set (PrLoop w # fst (chargeFixerRound maxRounds nowISO (PrLoop w) h))
    \<Longrightarrow> round_step maxRounds w (w\<lparr>PrLoop := l, Grants := Grants w + of_bool (PrWork w)\<rparr>)"
| push: "PrWork w \<Longrightarrow> new_head w h \<Longrightarrow> round_step maxRounds w (w\<lparr>PrLoop := (PrLoop w)\<lparr>FlLastFixHead := h\<rparr>,
        PrHead := h, PrWork := False, Pushes := Pushes w + 1, Hidden := Hidden w + covered w\<rparr>)"
| unrecorded_push: "PrWork w \<Longrightarrow> new_head w h \<Longrightarrow> round_step maxRounds w (w\<lparr>PrHead := h,
        Pushes := Pushes w + 1, Hidden := Hidden w + covered w, Lost := Lost w + 1\<rparr>)"
| foreign_push: "new_head w h \<Longrightarrow> round_step maxRounds w (w\<lparr>PrHead := h, Hidden := Hidden w + covered w\<rparr>)"
| other_pause: "FlStatus (PrLoop w) \<noteq> ''paused'' \<Longrightarrow> reason \<noteq> roundBudgetPauseReason
    \<Longrightarrow> round_step maxRounds w (w\<lparr>PrLoop := (PrLoop w)\<lparr>FlStatus := ''paused'', FlPauseReason := reason,
        FlNextRunAt := None\<rparr>\<rparr>)"
| other_resume: "FlStatus (PrLoop w) = ''paused'' \<Longrightarrow> FlPauseReason (PrLoop w) \<noteq> roundBudgetPauseReason
    \<Longrightarrow> round_step maxRounds w (w\<lparr>PrLoop := (PrLoop w)\<lparr>FlStatus := ''queued''\<rparr>, PrWork := enqueued \<or> PrWork w,
        Grants := Grants w + of_bool (enqueued \<and> exhausted maxRounds (PrLoop w))\<rparr>)"
| status_change: "FlStatus (PrLoop w) \<noteq> ''paused'' \<Longrightarrow> status \<noteq> ''paused''
    \<Longrightarrow> round_step maxRounds w (w\<lparr>PrLoop := (PrLoop w)\<lparr>FlStatus := status\<rparr>\<rparr>)"
| operator: "status \<noteq> ''paused'' \<Longrightarrow> round_step maxRounds w (w\<lparr>PrLoop := (PrLoop w)\<lparr>FlStatus := status\<rparr>,
        PrWork := True, Grants := Grants w + 1\<rparr>)"
| reset: "reviewerHasReviewedHead (PrHead w) read \<Longrightarrow> snd (parseRoundBudgetState (FlBudget (PrLoop w)))
    \<Longrightarrow> clearRoundBudgetForPullRequest (Some (PrLoop w)) = Some l \<Longrightarrow> FlBudget l = None
    \<Longrightarrow> round_step maxRounds w (w\<lparr>PrLoop := l, Pushes := 0, Hidden := 0, Lost := 0, Grants := 0\<rparr>)"

inductive_cases round_stepE: "round_step maxRounds w w'"

end
