(* ===== verification/Round_Facts.thy ===== *)
theory Round_Facts
  imports Round_Budget
begin

text \<open>
  What the fixer's budget of rounds bounds: the pushes of a fixer against one pull request.
\<close>

section \<open>What a charge does to the count\<close>

lemma spent_nonneg [simp]: "0 \<le> spent l"
  by (simp add: spent_def parseRoundBudgetState_def no_budget_def split: option.split)

text \<open>The next round of a loop: what the budget is after a charge at \<open>h\<close>.\<close>

definition advances :: "fixer_loop \<Rightarrow> fixer_loop \<Rightarrow> bool" where
  "advances l l' \<longleftrightarrow> FlLastFixHead l' = FlLastFixHead l \<and> spent l \<le> spent l' \<and> spent l' \<le> spent l + 1
     \<and> (last_observed l' = FlLastFixHead l \<and> FlLastFixHead l \<noteq> [] \<and> trim_space (FlLastFixHead l) = FlLastFixHead l
          \<and> last_observed l \<noteq> FlLastFixHead l \<longrightarrow> spent l' = spent l + 1)"

lemma advances_refl [simp]: "advances l l"
  by (simp add: advances_def)

lemma budget_same:
  "FlBudget l' = FlBudget l \<Longrightarrow> spent l' = spent l" "FlBudget l' = FlBudget l \<Longrightarrow> last_observed l' = last_observed l"
  by (simp_all only: spent_def last_observed_def)

lemma advances_park: "advances l l' \<Longrightarrow> FlBudget l'' = FlBudget l' \<Longrightarrow> FlLastFixHead l'' = FlLastFixHead l'
    \<Longrightarrow> advances l l''"
  by (simp add: advances_def budget_same [of l'' l'])

lemma park_fields:
  "l' \<in> set (parkLoopForRoundBudget l) \<Longrightarrow> FlBudget l' = FlBudget l \<and> FlLastFixHead l' = FlLastFixHead l
    \<and> (FlStatus l' = FlStatus l \<or> FlStatus l' = ''paused'') \<and> (FlStatus l = ''terminated'' \<longrightarrow> FlStatus l' = ''terminated'')
    \<and> FlPauseReason l' = roundBudgetPauseReason"
  by (auto simp: parkLoopForRoundBudget_def with_reason_def split: if_splits)

lemma parked_last:
  "parkLoopForRoundBudget l \<noteq> [] \<and> (FlStatus l \<noteq> ''terminated'' \<longrightarrow> FlStatus (last (parkLoopForRoundBudget l)) = ''paused'')"
  by (simp add: parkLoopForRoundBudget_def)

lemma with_budget_simps [simp]: "FlBudget (with_budget b l) = Some b" "FlLastFixHead (with_budget b l) = FlLastFixHead l"
  "FlStatus (with_budget b l) = FlStatus l"
  by (simp_all add: with_budget_def)

lemma budget_of: "0 \<le> Rounds b \<Longrightarrow> trim_space (LastHeadSHA b) \<noteq> [] \<Longrightarrow> spent (with_budget b l) = Rounds b
    \<and> last_observed (with_budget b l) = LastHeadSHA b"
  by (simp add: spent_def last_observed_def parseRoundBudgetState_def)

text \<open>The loop a charge writes, if any, before it parks.\<close>

lemma charge_cases:
  assumes "chargeFixerRound m nowISO l h = (writes, parked)"
  obtains (nothing) "writes = []" "\<not> parked" "spent l < m \<or> spent l = 0"
  | (already) "writes = []" "parked" "FlStatus l = ''paused''" "FlPauseReason l = roundBudgetPauseReason"
  | (repark) "writes = parkLoopForRoundBudget l" "parked" 
  | (counted) u where "writes = [u]" "\<not> parked" "advances l u" "FlStatus u = FlStatus l"
      "spent u < m \<or> spent u = 0 \<or> spent u = spent l \<and> (1 \<le> m \<longrightarrow> m \<le> spent l \<longrightarrow> overrules m l h)"
  | (exhausted) u where "writes = u # parkLoopForRoundBudget u" "parked" "advances l u" "FlStatus u = FlStatus l"
proof -
  define prev where "prev = fst (parseRoundBudgetState (FlBudget l))"
  define has where "has = snd (parseRoundBudgetState (FlBudget l))"
  define hd where "hd = trim_space h"
  have pp: "parseRoundBudgetState (FlBudget l) = (prev, has)" by (simp add: prev_def has_def)
  have sp: "spent l = Rounds prev" "last_observed l = LastHeadSHA prev" "0 \<le> Rounds prev"
    using spent_nonneg [of l] by (simp_all add: spent_def last_observed_def prev_def)
  have th: "trim_space hd = hd" by (simp add: hd_def)
  have no: "\<not> has \<Longrightarrow> Rounds prev = 0"
    using pp by (auto simp: parseRoundBudgetState_def no_budget_def split: option.splits if_splits)
  consider (foreign) "has" "foreign_head prev l hd" | (migrate) "\<not> has" "hd \<noteq> []" "hd = trim_space (FlLastFixHead l)"
    | (step) "\<not> (has \<and> foreign_head prev l hd)" "\<not> (\<not> has \<and> hd \<noteq> [] \<and> hd = trim_space (FlLastFixHead l))"
    by blast
  then show thesis
  proof cases
    case foreign
    define u where "u = with_budget (prev\<lparr>LastHeadSHA := hd, RecordedAt := nowISO\<rparr>) l"
    have ne: "hd \<noteq> []" using foreign by (simp add: foreign_head_def)
    then have su: "spent u = spent l" "last_observed u = hd"
      using budget_of [of "prev\<lparr>LastHeadSHA := hd, RecordedAt := nowISO\<rparr>" l] sp th by (simp_all add: u_def)
    have "advances l u"
      using foreign(2) su by (auto simp: advances_def foreign_head_def u_def)
    moreover have "writes = [u]" "\<not> parked"
      using assms foreign by (simp_all add: chargeFixerRound_def pp hd_def u_def)
    moreover have "1 \<le> m \<longrightarrow> m \<le> spent l \<longrightarrow> overrules m l h"
      using foreign(2) sp by (auto simp: overrules_def exhausted_def foreign_head_def hd_def)
    ultimately show thesis using counted su by (simp add: u_def)
  next
    case migrate
    define u where "u = with_budget \<lparr>Rounds = 1, LastHeadSHA = hd, FirstRoundAt = nowISO, RecordedAt = nowISO\<rparr> l"
    have su: "spent u = 1" "last_observed u = hd"
      using budget_of [of "\<lparr>Rounds = 1, LastHeadSHA = hd, FirstRoundAt = nowISO, RecordedAt = nowISO\<rparr>" l] th migrate(2)
      by (simp_all add: u_def)
    have fu: "FlLastFixHead u = FlLastFixHead l" by (simp add: u_def)
    have "advances l u" using su no migrate(1) sp fu by (simp add: advances_def)
    moreover have "if 1 \<ge> m then writes = u # parkLoopForRoundBudget u \<and> parked else writes = [u] \<and> \<not> parked"
      using assms migrate by (auto simp: chargeFixerRound_def pp hd_def u_def Let_def)
    ultimately show thesis using counted exhausted su by (cases "1 \<ge> m") (auto simp: u_def)
  next
    case step
    obtain st charged where n: "nextRoundBudget prev has hd nowISO = (st, charged)"
      by (cases "nextRoundBudget prev has hd nowISO")
    show thesis
    proof (cases charged)
      case True
      define u where "u = with_budget st l"
      have st: "hd \<noteq> []" "LastHeadSHA st = hd" "Rounds st = (if has then Rounds prev + 1 else 0)" "has \<Longrightarrow> LastHeadSHA prev \<noteq> hd"
        using n True th by (auto simp: nextRoundBudget_def Let_def split: if_splits)
      have su: "spent u = Rounds st" "last_observed u = hd"
        using budget_of [of st l] st th sp by (simp_all add: u_def)
      have "FlLastFixHead l = hd \<Longrightarrow> has" using step(2) st(1) th by auto
      moreover have "FlLastFixHead u = FlLastFixHead l" by (simp add: u_def)
      ultimately have "advances l u"
        using su st sp no by (auto simp: advances_def)
      moreover have "if Rounds st = 0 \<or> Rounds st < m then writes = [u] \<and> \<not> parked
          else writes = u # parkLoopForRoundBudget u \<and> parked"
        using assms step n True unfolding chargeFixerRound_def pp hd_def [symmetric]
        by (simp add: u_def Let_def split: if_splits)
      ultimately show thesis using counted exhausted su
        by (cases "Rounds st = 0 \<or> Rounds st < m") (auto simp: u_def)
    next
      case False
      then have "if has \<and> Rounds prev \<ge> m then
            (if FlPauseReason l = roundBudgetPauseReason \<and> FlStatus l = ''paused'' then writes = [] \<and> parked
             else writes = parkLoopForRoundBudget l \<and> parked)
          else writes = [] \<and> \<not> parked"
        using assms step n unfolding chargeFixerRound_def pp hd_def [symmetric]
        by (auto simp: Let_def split: if_splits)
      then consider "writes = []" "\<not> parked" "\<not> has \<or> Rounds prev < m"
        | "writes = []" "parked" "FlStatus l = ''paused''" "FlPauseReason l = roundBudgetPauseReason"
        | "writes = parkLoopForRoundBudget l" "parked"
        by (auto split: if_splits)
      then show thesis
      proof cases
        case 1
        have "spent l < m \<or> spent l = 0" using 1(3) no sp(1) by auto
        with 1(1,2) show thesis by (rule nothing)
      next
        case 2
        then show thesis by (rule already)
      next
        case 3
        then show thesis by (rule repark)
      qed
    qed
  qed
qed


text \<open>Every version a charge leaves, interrupted or not.\<close>

lemma charge_versions:
  assumes "l' \<in> set (l # fst (chargeFixerRound m nowISO l h))"
  shows "advances l l'"
proof -
  obtain writes parked where c: "chargeFixerRound m nowISO l h = (writes, parked)"
    by (cases "chargeFixerRound m nowISO l h")
  have park: "advances l v" if "v \<in> set (parkLoopForRoundBudget u)" "advances l u" for u v
    using park_fields [OF that(1)] that(2) advances_park [of l u v] by auto
  have l': "l' = l \<or> l' \<in> set writes" using assms by (simp add: c)
  from c show ?thesis
  proof (cases rule: charge_cases)
    case repark
    then show ?thesis using l' park [OF _ advances_refl] by auto
  next
    case (exhausted u)
    then show ?thesis using l' park [of l' u] by auto
  qed (use l' in auto)
qed

text \<open>
  A charge that completes and does not park: rounds are left, or the gate is overruled.
\<close>

lemma charge_complete:
  assumes "chargeFixerRound m nowISO l h = (writes, parked)" and "FlStatus l \<noteq> ''paused''" and "1 \<le> m"
    and "\<not> parked"
  shows "spent (last (l # writes)) < m \<or> overrules m l h"
  using assms(1)
proof (cases rule: charge_cases)
  case (counted u)
  then show ?thesis using assms(3) by (auto simp: not_less)
qed (use assms(2-4) in auto)

text \<open>A charge of an exhausted loop at the head it observed last parks it, whatever died before.\<close>

lemma exhausted_parks:
  assumes "chargeFixerRound m nowISO l h = (writes, parked)" and "FlStatus l \<noteq> ''paused''" and "1 \<le> m"
    and "exhausted m l" and "trim_space h = last_observed l"
  shows "parked"
proof (rule ccontr)
  assume np: "\<not> parked"
  have "last (l # writes) \<in> set (l # writes)" by (rule last_in_set) simp
  then have "advances l (last (l # writes))"
    using charge_versions [of "last (l # writes)" l m nowISO h] assms(1) by simp
  then have "m \<le> spent (last (l # writes))"
    using assms(4) by (simp add: advances_def exhausted_def)
  with charge_complete [OF assms(1-3) np] assms(5) show False by (simp add: overrules_def)
qed

section \<open>The invariant\<close>

definition limit_holds :: "int \<Rightarrow> pull_request \<Rightarrow> bool" where
  "limit_holds m w \<longleftrightarrow> Pushes w \<le> m + Hidden w + Lost w + Grants w
     \<and> Pushes w \<le> spent (PrLoop w) + Hidden w + Lost w + covered w
     \<and> (PrWork w \<longrightarrow> Pushes w + 1 \<le> m + Hidden w + Lost w + Grants w + covered w)
     \<and> 0 \<le> Grants w \<and> PrHead w \<noteq> [] \<and> trim_space (PrHead w) = PrHead w"

lemma limitD:
  assumes "limit_holds m w"
  shows "Pushes w \<le> m + Hidden w + Lost w + Grants w"
    and "Pushes w \<le> spent (PrLoop w) + Hidden w + Lost w + covered w"
    and "PrWork w \<Longrightarrow> Pushes w + 1 \<le> m + Hidden w + Lost w + Grants w + covered w"
    and "0 \<le> Grants w" and "PrHead w \<noteq> []" and "trim_space (PrHead w) = PrHead w"
  using assms by (simp_all add: limit_holds_def)

lemma covered_bounds: "0 \<le> covered w" "covered w \<le> 1"
  by (simp_all add: covered_def)

lemma covered_cong: "PrHead w' = PrHead w \<Longrightarrow> FlLastFixHead (PrLoop w') = FlLastFixHead (PrLoop w)
    \<Longrightarrow> FlBudget (PrLoop w') = FlBudget (PrLoop w) \<Longrightarrow> covered w' = covered w"
  using budget_same(2) [of "PrLoop w'" "PrLoop w"] by (simp add: covered_def unseen_push_def)

text \<open>A charge pays for an unseen push when it sees it.\<close>

lemma advance_pays:
  assumes "advances (PrLoop w) l" and "PrHead w \<noteq> []" and "trim_space (PrHead w) = PrHead w"
    and "PrLoop w' = l" and "PrHead w' = PrHead w"
  shows "spent (PrLoop w) + covered w \<le> spent l + covered w'"
proof (cases "unseen_push w \<and> \<not> unseen_push w'")
  case True
  have w: "PrHead w = FlLastFixHead (PrLoop w)" "PrHead w \<noteq> last_observed (PrLoop w)"
    using True unfolding unseen_push_def by blast+
  have "FlLastFixHead l = FlLastFixHead (PrLoop w)" using assms(1) unfolding advances_def by blast
  then have "last_observed l = FlLastFixHead (PrLoop w)"
    using True w unfolding unseen_push_def assms(4,5) by metis
  moreover have "FlLastFixHead (PrLoop w) \<noteq> []" "trim_space (FlLastFixHead (PrLoop w)) = FlLastFixHead (PrLoop w)"
    "last_observed (PrLoop w) \<noteq> FlLastFixHead (PrLoop w)"
    using assms(2,3) w by metis+
  ultimately have "spent l = spent (PrLoop w) + 1" using assms(1) unfolding advances_def by blast
  then show ?thesis using True by (simp add: covered_def)
next
  case False
  then have "covered w \<le> covered w'" by (auto simp: covered_def)
  moreover have "spent (PrLoop w) \<le> spent l" using assms(1) by (simp add: advances_def)
  ultimately show ?thesis by simp
qed

lemma discovered_eq:
  assumes "chargeFixerRound m nowISO (PrLoop w) h = (writes, parked)"
  shows "discovered m nowISO h w = w\<lparr>PrLoop := (if parked then last (PrLoop w # writes)
    else (last (PrLoop w # writes))\<lparr>FlStatus := ''queued'', FlNextRunAt := Some nowISO\<rparr>), PrWork := \<not> parked\<rparr>"
  using assms by (simp add: discovered_def)

lemma discovered_limit:
  assumes inv: "limit_holds m w" and m: "1 \<le> m" and np: "FlStatus (PrLoop w) \<noteq> ''paused''"
  shows "limit_holds m ((discovered m nowISO h w)\<lparr>Grants := Grants w + of_bool (overrules m (PrLoop w) h)\<rparr>)"
proof -
  obtain writes parked where c: "chargeFixerRound m nowISO (PrLoop w) h = (writes, parked)"
    by (cases "chargeFixerRound m nowISO (PrLoop w) h")
  define l where "l = last (PrLoop w # writes)"
  define l' where "l' = (if parked then l else l\<lparr>FlStatus := ''queued'', FlNextRunAt := Some nowISO\<rparr>)"
  define g :: int where "g = of_bool (overrules m (PrLoop w) h)"
  define w' where "w' = (discovered m nowISO h w)\<lparr>Grants := Grants w + g\<rparr>"
  have w': "PrLoop w' = l'" "PrHead w' = PrHead w" "PrWork w' = (\<not> parked)" "Pushes w' = Pushes w"
    "Hidden w' = Hidden w" "Lost w' = Lost w" "Grants w' = Grants w + g"
    by (simp_all add: w'_def discovered_eq [OF c] l'_def l_def)
  have b: "FlBudget l' = FlBudget l" by (simp add: l'_def)
  have "l \<in> set (PrLoop w # writes)" unfolding l_def by (rule last_in_set) simp
  then have "advances (PrLoop w) l" using charge_versions [of l "PrLoop w" m nowISO h] c by simp
  then have adv: "advances (PrLoop w) l'" by (rule advances_park) (simp_all add: l'_def)
  have pays: "Pushes w \<le> spent l' + Hidden w + Lost w + covered w'"
    using advance_pays [OF adv limitD(5,6) [OF inv] w'(1,2)] limitD(2) [OF inv] by simp
  have "spent l' < m \<or> g = 1" if "\<not> parked"
    using charge_complete [OF c np m that] budget_same(1) [OF b] by (auto simp: l_def g_def)
  moreover have g: "0 \<le> g" by (simp add: g_def)
  ultimately have "\<not> parked \<longrightarrow> Pushes w + 1 \<le> m + Hidden w + Lost w + (Grants w + g) + covered w'"
    using pays limitD(1,4) [OF inv] covered_bounds(1) [of w'] by auto
  then show ?thesis
    unfolding g_def [symmetric] w'_def [symmetric] limit_holds_def w'
    using limitD(1,4-6) [OF inv] g pays by simp
qed

lemma torn_limit:
  assumes inv: "limit_holds m w"
    and l: "l \<in> set (PrLoop w # fst (chargeFixerRound m nowISO (PrLoop w) h))"
  shows "limit_holds m (w\<lparr>PrLoop := l, Grants := Grants w + of_bool (PrWork w)\<rparr>)"
proof -
  define w' where "w' = w\<lparr>PrLoop := l, Grants := Grants w + of_bool (PrWork w)\<rparr>"
  have w': "PrLoop w' = l" "PrHead w' = PrHead w" "PrWork w' = PrWork w" "Pushes w' = Pushes w"
    "Hidden w' = Hidden w" "Lost w' = Lost w" "Grants w' = Grants w + of_bool (PrWork w)"
    by (simp_all add: w'_def)
  have pays: "spent (PrLoop w) + covered w \<le> spent l + covered w'"
    using advance_pays [OF charge_versions [OF l] limitD(5,6) [OF inv] w'(1,2)] .
  show ?thesis
    unfolding w'_def [symmetric] limit_holds_def w'
    using limitD(1,2,4-6) [OF inv] pays covered_bounds(1) [of w'] by auto
qed

text \<open>Pushes, seen and unseen.\<close>

lemma push_limit:
  assumes inv: "limit_holds m w" and h: "new_head w h"
  shows "PrWork w \<Longrightarrow> limit_holds m (w\<lparr>PrLoop := (PrLoop w)\<lparr>FlLastFixHead := h\<rparr>, PrHead := h, PrWork := False,
        Pushes := Pushes w + 1, Hidden := Hidden w + covered w\<rparr>)"
    and "PrWork w \<Longrightarrow> limit_holds m (w\<lparr>PrHead := h, Pushes := Pushes w + 1, Hidden := Hidden w + covered w,
        Lost := Lost w + 1\<rparr>)"
    and "limit_holds m (w\<lparr>PrHead := h, Hidden := Hidden w + covered w\<rparr>)"
proof -
  have s: "spent ((PrLoop w)\<lparr>FlLastFixHead := h\<rparr>) = spent (PrLoop w)" by (rule budget_same) simp
  have l: "last_observed ((PrLoop w)\<lparr>FlLastFixHead := h\<rparr>) = last_observed (PrLoop w)" by (rule budget_same) simp
  have un: "covered (w\<lparr>PrLoop := (PrLoop w)\<lparr>FlLastFixHead := h\<rparr>, PrHead := h, PrWork := False,
        Pushes := Pushes w + 1, Hidden := Hidden w + covered w\<rparr>) = 1"
    using h by (simp add: covered_def unseen_push_def l new_head_def)
  note d = limitD [OF inv]
  show "limit_holds m (w\<lparr>PrLoop := (PrLoop w)\<lparr>FlLastFixHead := h\<rparr>, PrHead := h, PrWork := False,
        Pushes := Pushes w + 1, Hidden := Hidden w + covered w\<rparr>)" if "PrWork w"
    unfolding limit_holds_def using d(1,2,4) d(3) [OF that] h by (simp add: s un new_head_def)
  have covered0: "covered w' = 0" if "PrHead w' = h" "PrLoop w' = PrLoop w" for w'
    using h that by (auto simp: covered_def unseen_push_def new_head_def)
  show "limit_holds m (w\<lparr>PrHead := h, Pushes := Pushes w + 1, Hidden := Hidden w + covered w,
        Lost := Lost w + 1\<rparr>)" if "PrWork w"
    unfolding limit_holds_def using d(1,2,4) d(3) [OF that] h by (simp add: covered0 new_head_def)
  show "limit_holds m (w\<lparr>PrHead := h, Hidden := Hidden w + covered w\<rparr>)"
    unfolding limit_holds_def using d(1,2,4) d(3) covered_bounds(1) [of w] h by (auto simp: covered0 new_head_def)
qed

text \<open>What only changes status and reason; work given to an exhausted loop is counted.\<close>

lemma status_limit:
  assumes inv: "limit_holds m w" and "FlBudget l = FlBudget (PrLoop w)" "FlLastFixHead l = FlLastFixHead (PrLoop w)"
    and k: "k \<Longrightarrow> PrWork w \<or> \<not> exhausted m (PrLoop w) \<or> 1 \<le> g" and g: "0 \<le> g"
  shows "limit_holds m (w\<lparr>PrLoop := l, PrWork := k, Grants := Grants w + g\<rparr>)"
proof -
  define w' where "w' = w\<lparr>PrLoop := l, PrWork := k, Grants := Grants w + g\<rparr>"
  have w': "PrLoop w' = l" "PrHead w' = PrHead w" "PrWork w' = k" "Pushes w' = Pushes w"
    "Hidden w' = Hidden w" "Lost w' = Lost w" "Grants w' = Grants w + g"
    by (simp_all add: w'_def)
  have c: "covered w' = covered w" by (rule covered_cong) (simp_all add: w' assms(2,3))
  have "Pushes w + 1 \<le> m + Hidden w + Lost w + (Grants w + g) + covered w" if k
    using k [OF that] limitD(1-4) [OF inv] covered_bounds(1) [of w] g by (auto simp: exhausted_def)
  then show ?thesis
    unfolding w'_def [symmetric] limit_holds_def w' c budget_same(1) [OF assms(2)]
    using limitD(1,2,4-6) [OF inv] g by simp
qed

lemma reset_limit:
  assumes inv: "limit_holds m w" and m: "1 \<le> m" and "FlBudget l = None"
  shows "limit_holds m (w\<lparr>PrLoop := l, Pushes := 0, Hidden := 0, Lost := 0, Grants := 0\<rparr>)"
proof -
  have "spent l = 0" by (simp add: spent_def parseRoundBudgetState_def no_budget_def assms(3))
  then show ?thesis
    unfolding limit_holds_def using limitD(5,6) [OF inv] m
    by (simp add: add_increasing2 covered_bounds(1))
qed

lemma round_step_limit:
  assumes "round_step m w w'" and inv: "limit_holds m w" and m: "1 \<le> m"
  shows "limit_holds m w'"
  using assms(1)
proof (cases rule: round_step.cases)
  case (discover nowISO h)
  then show ?thesis using discovered_limit [OF inv m] by simp
next
  case (torn l nowISO h)
  then show ?thesis using torn_limit [OF inv] by simp
next
  case (other_pause reason)
  then show ?thesis using status_limit [OF inv, of _ "PrWork w" 0] by simp
next
  case (other_resume enqueued)
  then show ?thesis
    using status_limit [OF inv, of _ "enqueued \<or> PrWork w" "of_bool (enqueued \<and> exhausted m (PrLoop w))"] by auto
next
  case (status_change status)
  then show ?thesis using status_limit [OF inv, of _ "PrWork w" 0] by simp
next
  case (operator status)
  then show ?thesis using status_limit [OF inv, of _ True 1] by simp
next
  case (reset read l)
  then show ?thesis using reset_limit [OF inv m] by simp
qed (use push_limit [OF inv] in simp_all)

lemma created_limit:
  assumes "1 \<le> m" and "trim_space h \<noteq> []"
  shows "limit_holds m (created h nowISO)"
proof -
  have "spent (PrLoop (created h nowISO)) = 0"
    by (simp add: spent_def created_def createLoop_def parseRoundBudgetState_def Let_def assms(2))
  then show ?thesis
    using assms unfolding limit_holds_def
    by (simp add: created_def add_increasing2 covered_bounds(1))
qed

lemma max_rounds_pos: "1 \<le> max_rounds option"
  by (simp add: max_rounds_def maxFixerRoundsPerPullRequest_def)

interpretation round_budget: step_invariant "round_step (max_rounds option)"
    "\<lambda>w. \<exists>h nowISO. trim_space h \<noteq> [] \<and> w = created h nowISO" "limit_holds (max_rounds option)" for option
  by unfold_locales (auto intro: created_limit round_step_limit simp: max_rounds_pos)

text \<open>
  C17. The fixer's pushes against one pull request are bounded: whatever heads discoveries and handoffs
  see, whoever else pushes, whatever other gates pause and resume and wherever the daemon dies, a
  fixer loop pushes since the last reset at most as often as its limit allows, beyond pushes that
  another push covered before any discovery saw them, pushes whose record was lost, and one for each
  occasion on which the gate was overruled: a discovery of an exhausted loop at someone else's head,
  one that died while work was already queued, a resumption of an exhausted loop by another gate, and
  a resumption by an operator. An exhausted budget that a crash left without its pause is not one of
  them: the next discovery of the same head parks the loop.
\<close>

theorem fixer_pushes_bounded:
  assumes "(round_step (max_rounds option))\<^sup>*\<^sup>* (created h nowISO) w" and "trim_space h \<noteq> []"
  shows "Pushes w \<le> max_rounds option + Hidden w + Lost w + Grants w"
  using round_budget.reachable_kept [OF assms(1)] assms(2) limitD(1) by blast


lemma discover_quiet:
  assumes "FlStatus (PrLoop w) \<noteq> ''paused''" and "\<not> overrules m (PrLoop w) h"
  shows "round_step m w (discovered m nowISO h w)"
proof -
  have "(discovered m nowISO h w)\<lparr>Grants := Grants w + of_bool (overrules m (PrLoop w) h)\<rparr> = discovered m nowISO h w"
    using assms(2) by (simp add: discovered_def Let_def split: prod.split)
  with discover [OF assms(1), where maxRounds = m and nowISO = nowISO and h = h] show ?thesis by (simp only:)
qed

text \<open>
  With a limit of one: the fixer pushes, the daemon dies after the charge was written and before the
  pause was, and the next discovery of that head parks the loop.
\<close>

definition first_push :: pull_request where
  "first_push = (created ''h0'' ''t'')\<lparr>PrLoop := (PrLoop (created ''h0'' ''t''))\<lparr>FlLastFixHead := ''h1''\<rparr>,
     PrHead := ''h1'', PrWork := False, Pushes := 1\<rparr>"

definition crashed :: pull_request where
  "crashed = first_push\<lparr>PrLoop := hd (fst (chargeFixerRound (max_rounds 1) ''t'' (PrLoop first_push) ''h1''))\<rparr>"

lemma crash_then_park:
  "(round_step (max_rounds 1))\<^sup>*\<^sup>* (created ''h0'' ''t'') (discovered (max_rounds 1) ''t'' ''h1'' crashed)"
proof -
  let ?w = "created ''h0'' ''t''"
  have f: "PrWork ?w" "new_head ?w ''h1''" "Pushes ?w = 0" "Hidden ?w + covered ?w = 0" "Hidden ?w = 0"
    by code_simp+
  have "first_push = ?w\<lparr>PrLoop := (PrLoop ?w)\<lparr>FlLastFixHead := ''h1''\<rparr>, PrHead := ''h1'', PrWork := False,
        Pushes := Pushes ?w + 1, Hidden := Hidden ?w + covered ?w\<rparr>"
    using f(3-5) by (simp add: first_push_def created_def)
  then have 1: "round_step (max_rounds 1) ?w first_push"
    using push [OF f(1,2), of "max_rounds 1"] by (simp only:)
  have g: "FlStatus (PrLoop first_push) \<noteq> ''paused''" "\<not> PrWork first_push"
    "fst (chargeFixerRound (max_rounds 1) ''t'' (PrLoop first_push) ''h1'') \<noteq> []"
    by code_simp+
  have "PrLoop crashed \<in> set (PrLoop first_push # fst (chargeFixerRound (max_rounds 1) ''t'' (PrLoop first_push) ''h1''))"
    using g(3) by (simp add: crashed_def)
  from torn [OF g(1) this] have 2: "round_step (max_rounds 1) first_push crashed"
    using g(2) by (simp add: crashed_def)
  have h: "FlStatus (PrLoop crashed) \<noteq> ''paused''" "\<not> overrules (max_rounds 1) (PrLoop crashed) ''h1''"
    by code_simp+
  have 3: "round_step (max_rounds 1) crashed (discovered (max_rounds 1) ''t'' ''h1'' crashed)"
    by (rule discover_quiet [OF h])
  show ?thesis
    by (rule rtranclp.rtrancl_into_rtrancl, rule rtranclp.rtrancl_into_rtrancl, rule r_into_rtranclp,
        rule 1, rule 2, rule 3)
qed

lemma fixer_pushes_bounded_witness:
  "let w = discovered (max_rounds 1) ''t'' ''h1'' crashed
   in Pushes w \<le> max_rounds 1 + Hidden w + Lost w + Grants w \<and> Pushes w = 1 \<and> Hidden w + Lost w + Grants w = 0
     \<and> FlStatus (PrLoop w) = ''paused'' \<and> FlStatus (PrLoop crashed) = ''queued'' \<and> exhausted 1 (PrLoop crashed)"
proof -
  have "trim_space ''h0'' \<noteq> []" by code_simp
  note bound = fixer_pushes_bounded [OF crash_then_park this]
  have "let w = discovered (max_rounds 1) ''t'' ''h1'' crashed
   in Pushes w = 1 \<and> Hidden w + Lost w + Grants w = 0 \<and> FlStatus (PrLoop w) = ''paused''
     \<and> FlStatus (PrLoop crashed) = ''queued'' \<and> exhausted 1 (PrLoop crashed)"
    by code_simp
  with bound show ?thesis unfolding Let_def by blast
qed

text \<open>
  Covered pushes are not counted at all: when someone else's push (an automatic formatter's, say)
  lands on each push of the fixer before the next discovery, no round is ever charged.
\<close>

definition formatted :: "string \<Rightarrow> pull_request \<Rightarrow> pull_request" where
  "formatted own w = discovered 8 ''t'' (CHR ''f'' # own) (w\<lparr>PrLoop := (PrLoop w)\<lparr>FlLastFixHead := own\<rparr>,
     PrHead := CHR ''f'' # own, PrWork := False, Pushes := Pushes w + 1, Hidden := Hidden w + 1\<rparr>)"

lemma formatted_steps:
  assumes "PrWork w" and "new_head w own" and other: "new_head w (CHR ''f'' # own)" and "covered w = 0"
    and "FlStatus (PrLoop w) = ''queued''" and "spent (PrLoop w) < 8"
  shows "(round_step 8)\<^sup>*\<^sup>* w (formatted own w)"
proof -
  define w1 where "w1 = w\<lparr>PrLoop := (PrLoop w)\<lparr>FlLastFixHead := own\<rparr>, PrHead := own, PrWork := False,
        Pushes := Pushes w + 1, Hidden := Hidden w + covered w\<rparr>"
  define w2 where "w2 = w1\<lparr>PrHead := CHR ''f'' # own, Hidden := Hidden w1 + covered w1\<rparr>"
  have 1: "round_step 8 w w1" unfolding w1_def by (rule push) (rule assms)+
  have l: "last_observed (PrLoop w1) = last_observed (PrLoop w)"
    by (rule budget_same) (simp add: w1_def)
  have "new_head w1 (CHR ''f'' # own)" using other unfolding new_head_def l by (simp add: w1_def)
  then have 2: "round_step 8 w1 w2" unfolding w2_def by (rule foreign_push)
  have c: "covered w1 = 1"
    using assms(2) unfolding covered_def unseen_push_def l by (simp add: w1_def new_head_def)
  have w2: "w2 = w\<lparr>PrLoop := (PrLoop w)\<lparr>FlLastFixHead := own\<rparr>,
     PrHead := CHR ''f'' # own, PrWork := False, Pushes := Pushes w + 1, Hidden := Hidden w + 1\<rparr>"
    unfolding w2_def c by (simp add: w1_def assms(4))
  have s2: "FlStatus (PrLoop w2) \<noteq> ''paused''" by (simp add: w2 assms(5))
  have "spent (PrLoop w2) = spent (PrLoop w)" by (rule budget_same) (simp add: w2)
  then have "\<not> overrules 8 (PrLoop w2) (CHR ''f'' # own)" using assms(6) by (simp add: overrules_def exhausted_def)
  then have 3: "round_step 8 w2 (formatted own w)"
    unfolding formatted_def w2 [symmetric] by (rule discover_quiet [OF s2])
  show ?thesis
    by (rule converse_rtranclp_into_rtranclp, rule 1, rule converse_rtranclp_into_rtranclp, rule 2,
        rule r_into_rtranclp, rule 3)
qed

lemma covered_pushes_uncharged:
  "let w = formatted ''c3'' (formatted ''b2'' (formatted ''a1'' (created ''h0'' ''t''))) in
     (round_step 8)\<^sup>*\<^sup>* (created ''h0'' ''t'') w \<and> Pushes w = 3 \<and> spent (PrLoop w) = 0 \<and> PrWork w \<and> Grants w = 0"
proof -
  let ?w0 = "created ''h0'' ''t''"
  let ?wa = "formatted ''a1'' ?w0"
  let ?wb = "formatted ''b2'' ?wa"
  have "(round_step 8)\<^sup>*\<^sup>* ?w0 ?wa" by (rule formatted_steps; code_simp)
  moreover have "(round_step 8)\<^sup>*\<^sup>* ?wa ?wb" by (rule formatted_steps; code_simp)
  moreover have "(round_step 8)\<^sup>*\<^sup>* ?wb (formatted ''c3'' ?wb)" by (rule formatted_steps; code_simp)
  moreover have "Pushes (formatted ''c3'' ?wb) = 3 \<and> spent (PrLoop (formatted ''c3'' ?wb)) = 0
      \<and> PrWork (formatted ''c3'' ?wb) \<and> Grants (formatted ''c3'' ?wb) = 0"
    by code_simp
  ultimately show ?thesis unfolding Let_def by (meson rtranclp_trans)
qed

end
