(* ===== verification/Spec2Isabelle.thy ===== *)
theory Spec2Isabelle
  imports Prelude Labels Domain Brownout Failure_Policy Pipelines Queue_Facts Work_Graph Dep_Graph
    Guard_Registry Merge_Watch Lock_Store Dispatch_Pass Stop_Gates Stop_Barrier Operation_Leases Review_Item Drain Gate_Routing
    Service_Facts Resolution_Facts Round_Facts
begin

text \<open>
  Looper is a daemon (\<open>src/cmd/looperd\<close>, \<open>src/internal\<close>) that drives the issues and pull requests of
  a forge with agents. A planner loop turns an issue into a plan, a worker loop turns it into a pull
  request, a reviewer loop reviews the pull request and a fixer loop answers the review; a
  coordinator decides what is started and when, and a gatekeeper decides what may be merged. Loops,
  their queue items and their locks are rows of a SQLite store; the scheduler claims queue items and
  runs them under leases that stops, drains and restarts must respect.

  \<^bold>\<open>Theories and code.\<close>
  \<^item> \<open>Prelude\<close>: results of fallible code, the functions of Go's \<open>strings\<close> and \<open>strconv\<close> packages,
    association lists, and the two interfaces every stateful component is checked against:
    \<open>operation_invariant\<close> (histories of operations) and \<open>step_invariant\<close> (step relations).
    \<open>Go_Scan\<close>: the integer reading of \<open>fmt.Sscan\<close> and \<open>fmt.Sscanf\<close>.
  \<^item> Vocabulary: \<open>Labels\<close> (\<open>labels/labels.go\<close>) and \<open>Domain\<close> (\<open>domain/domain.go\<close>), with statuses, transition
    tables, targets, uniqueness and holds.
  \<^item> Store: \<open>Store\<close>, \<open>Queue_Store\<close>, \<open>Queue_Facts\<close> (\<open>QueueRepository\<close> of \<open>storage/repositories.go\<close>), \<open>Loop_Store\<close>,
    \<open>Loop_Facts\<close> (\<open>LoopsRepository\<close>), \<open>Lock_Store\<close> (\<open>LocksRepository\<close>, \<open>forge_keys.go\<close>). A table is a list of
    rows in insertion order, a statement a function to an error or the table it commits, with the
    constraints of the schema checked as the migrations state them.
  \<^item> Lifecycle: \<open>Loop_Service\<close>, \<open>Service_Facts\<close> (\<open>loops/service.go\<close>, \<open>loops/reactivation.go\<close>, retirement), one
    transaction per operation over the loop and the queue table; \<open>Guard_Registry\<close>
    (\<open>loops/requeue_guard.go\<close>), the mutexes that serialise requeues.
  \<^item> Failures: \<open>Failure_Policy\<close> (\<open>failureclass\<close>, \<open>policy\<close>, \<open>fixer/failurepolicy\<close>), \<open>Brownout\<close> (the provider
    breaker), \<open>Pipelines\<close> (the step sequences of the runners and their resumption).
  \<^item> Planning: \<open>Work_Graph\<close> (\<open>planner/workgraph\<close>), \<open>Dep_Graph\<close> (\<open>coordinator/depgraph\<close>), both over the search
    of \<open>Depth_First\<close>; \<open>Dispatch\<close> and \<open>Merge_Watch\<close> (\<open>coordinator/dispatch\<close>, \<open>coordinator/mergewatch\<close>);
    \<open>Dispatch_Pass\<close> (\<open>coordinator/runner.go\<close>), the tracking of issues, the snapshot of their blockers and
    the decisions of a pass.
  \<^item> Review: \<open>Convergence\<close>, \<open>Review_Item\<close> (\<open>reviewer/convergence\<close>, \<open>reviewitem\<close>), \<open>Thread_Resolution\<close>,
    \<open>Resolution_Facts\<close> (\<open>reviewer/resolution\<close> and the step of \<open>reviewer/runner.go\<close> that applies it),
    \<open>Round_Budget\<close>, \<open>Round_Facts\<close> (\<open>fixer/roundbudget.go\<close>).
  \<^item> Merging: \<open>Gate_Paths\<close>, \<open>Gate_Evidence\<close>, \<open>Gatekeeper\<close>, \<open>Gate_Routing\<close> (\<open>gatekeeper\<close>): protected paths, the
    reading of single pieces of evidence, the evaluation of a pull request, and the projection of
    the report to labels, status and records.
  \<^item> Runtime: \<open>Active_Executions\<close>, \<open>Stop_Gates\<close>, \<open>Stop_Barrier\<close>, \<open>Operation_Leases\<close>
    (\<open>runtime/active_executions.go\<close>, \<open>operation_lease.go\<close>), \<open>Admission\<close>, \<open>Drain\<close> (\<open>runtime/admission.go\<close>, the opening,
    draining and closing of \<open>runtime/runtime.go\<close>).

  \<^bold>\<open>How state and effects are modelled.\<close> A Go struct is a record of the fields the modelled code
  reads, an enumeration a datatype with a last constructor for other values, an error a constructor
  of an error datatype. Code under a mutex is one atomic function; goroutines are step relations over
  such functions, closed under every interleaving. Calls of the forge are arguments, read results that
  may have failed, or, where several calls interact, a list of calls to which the forge reacts
  arbitrarily. A crash between two writes is a prefix of the writes.

  \<^bold>\<open>What the lemmas show.\<close> For the store: a claim is exactly the minimal eligible item, checkouts
  exclude each other, one active item per loop and per key, fences of human holds, exact lock
  acquisition and exclusion across key formats; loop sequence numbers are never reissued, a
  takeover outlasts every write without authority, a source issue has one owner, a target key is
  read back. For the lifecycle: one active loop per target, holds that take effect at once, and work
  behind every reactivation. For the runtime: stops leave no process, gates refine holds, drained
  means quiet, admission is one way. For planning: acceptance, readiness and termination of plans,
  the exact ready set, and dispatch behind its blockers in a whole pass. For review: the record of a dialogue, its
  termination, severity markers, audited resolutions and a bound on a fixer's pushes that crashes
  between writes do not loosen. For merging:
  eligible reports are sound, failed reads close the gate, and routes follow reports whatever fails.

  Each of the numbered properties stands in the theory of its component with, where it has
  hypotheses, a closed witness that applies it. Lemmas after them record where the code does not
  keep what its comments say; each names the input on which it happens.

  \<^bold>\<open>Bounds and termination.\<close> The searches of both graphs carry a fuel: one more than the number of
  keys of a work graph (at most 33, since a plan has at most 32 nodes), and the number of tracked
  issues of a dependency graph; each theory proves that the fuel suffices, because no path repeats a
  node. The insertion by dedupe key tries twice, as the code does. Everything else recurses over data
  or has a measure. Integers are unbounded where no operation of the code can leave the 64-bit
  range; decoding rejects what does not fit.

  \<^bold>\<open>Parameters.\<close> The formatting and parsing of times, JSON documents of metadata and SQLite's JSON
  functions, the JSON report of a gate, generated identifiers and clocks are arguments of the
  definitions that use them.

  \<^bold>\<open>Not modelled.\<close> The command line, HTTP interface, dashboards, configuration loading, gateways to
  forge, git and shell, agent processes and sandboxes, notifications, migrations, upgrades and the
  network mode are I/O around the modelled decisions. Of the runners and the scheduler
  (\<open>fixer/runner.go\<close>, \<open>reviewer/runner.go\<close>, \<open>worker/runner.go\<close>, \<open>planner/runner.go\<close>, \<open>coordinator/runner.go\<close>,
  \<open>runtime/scheduler.go\<close>) the
  decisions above are modelled, the calls of agents and gateways between them are not; nor are the
  gatekeeper's discovery of unchanged pull requests, its comment and advice records, and the optional lanes
  (auditor, deployer, reproducer, digest).
\<close>

end
